(* ===== verification/Prelude.thy ===== *)
theory Prelude
  imports Complex_Main "HOL-Library.Monad_Syntax" "HOL-Library.Signed_Division"
begin

text \<open>
  The prelude of the development: the result type of code that may abort, the container
  and integer helpers of the C++ standard library the sources use, the printing and
  parsing of decimal integers (\<^verbatim>\<open>StringPrintf("%d")\<close>, \<^verbatim>\<open>ParseInt32\<close> of
  \<^verbatim>\<open>src/inferui/base/strutil.cpp\<close>), and the lemma collections of the later theories.

  Conventions used by every theory:
  \<^item> A C++ function that can end the process (a failed \<^verbatim>\<open>CHECK\<close>, \<^verbatim>\<open>LOG(FATAL)\<close>, an
    exception of \<^verbatim>\<open>at()\<close>, an access out of bounds) returns an \<open>option\<close>; \<open>None\<close> stands for
    the abort and is propagated by the \<open>do\<close>-blocks of the option monad.
  \<^item> \<^verbatim>\<open>int\<close> is modelled by the type \<open>int\<close>. Signed overflow is undefined in C++; where a
    computation could overflow, a bounds theorem states the input range that excludes it.
  \<^item> \<^verbatim>\<open>float\<close> and \<^verbatim>\<open>double\<close> are modelled by \<open>real\<close>, without rounding.
  \<^item> Log output is not modelled.
\<close>

section \<open>Collections of facts\<close>

named_theorems model_defs \<open>definitions unfolded when a model function is evaluated\<close>
named_theorems abort_simps \<open>when a function that may abort does return\<close>

section \<open>Aborting code\<close>

text \<open>\<^verbatim>\<open>CHECK(b)\<close>: continue when \<open>b\<close> holds, end the process otherwise.\<close>

definition CHECK :: "bool \<Rightarrow> unit option" where
  "CHECK b = (if b then Some () else None)"

lemma CHECK_Some [simp]: "CHECK b = Some u \<longleftrightarrow> b"
  by (cases u) (simp add: CHECK_def)

lemma CHECK_None [simp]: "CHECK b = None \<longleftrightarrow> \<not> b"
  by (simp add: CHECK_def)

lemma CHECK_True [simp]: "CHECK True = Some ()"
  by (simp add: CHECK_def)

lemma CHECK_False [simp]: "CHECK False = None"
  by (simp add: CHECK_def)

lemma bind_CHECK [simp]: "Option.bind (CHECK b) f = (if b then f () else None)"
  by (simp add: CHECK_def)

lemma bind_Some_iff: "Option.bind m f = Some y \<longleftrightarrow> (\<exists>x. m = Some x \<and> f x = Some y)"
  by (cases m) auto

lemma bind_None_iff: "Option.bind m f = None \<longleftrightarrow> m = None \<or> (\<exists>x. m = Some x \<and> f x = None)"
  by (cases m) auto

text \<open>\<^verbatim>\<open>std::vector\<close> access: a position past the end is an abort.\<close>

definition vec_at :: "'a list \<Rightarrow> nat \<Rightarrow> 'a option" where
  "vec_at xs i = (if i < length xs then Some (xs ! i) else None)"

lemma vec_at_Some: "vec_at xs i = Some x \<longleftrightarrow> i < length xs \<and> xs ! i = x"
  by (auto simp: vec_at_def)

lemma vec_at_None: "vec_at xs i = None \<longleftrightarrow> length xs \<le> i"
  by (auto simp: vec_at_def)

lemma vec_at_lt [simp]: "i < length xs \<Longrightarrow> vec_at xs i = Some (xs ! i)"
  by (simp add: vec_at_def)

text \<open>An index computed as a C++ \<^verbatim>\<open>int\<close>; a negative one is out of bounds as well.\<close>

definition vec_at_int :: "'a list \<Rightarrow> int \<Rightarrow> 'a option" where
  "vec_at_int xs i = (if 0 \<le> i then vec_at xs (nat i) else None)"

lemma vec_at_int_of_nat [simp]: "vec_at_int xs (int n) = vec_at xs n"
  by (simp add: vec_at_int_def)

definition vec_set :: "'a list \<Rightarrow> nat \<Rightarrow> 'a \<Rightarrow> 'a list option" where
  "vec_set xs i x = (if i < length xs then Some (xs[i := x]) else None)"

lemma vec_set_Some: "vec_set xs i x = Some ys \<longleftrightarrow> i < length xs \<and> ys = xs[i := x]"
  by (auto simp: vec_set_def)

text \<open>Loops over a container whose body may abort.\<close>

primrec map_opt :: "('a \<Rightarrow> 'b option) \<Rightarrow> 'a list \<Rightarrow> 'b list option" where
  "map_opt f [] = Some []"
| "map_opt f (x # xs) = do { y \<leftarrow> f x; ys \<leftarrow> map_opt f xs; Some (y # ys) }"

primrec fold_opt :: "('s \<Rightarrow> 'a \<Rightarrow> 's option) \<Rightarrow> 's \<Rightarrow> 'a list \<Rightarrow> 's option" where
  "fold_opt f s [] = Some s"
| "fold_opt f s (x # xs) = do { s' \<leftarrow> f s x; fold_opt f s' xs }"

lemma map_opt_Some_map: "(\<And>x. x \<in> set xs \<Longrightarrow> f x = Some (g x)) \<Longrightarrow> map_opt f xs = Some (map g xs)"
  by (induction xs) auto

lemma map_opt_length: "map_opt f xs = Some ys \<Longrightarrow> length ys = length xs"
  by (induction xs arbitrary: ys) (auto simp: bind_Some_iff)

lemma map_opt_nth: "map_opt f xs = Some ys \<Longrightarrow> i < length xs \<Longrightarrow> f (xs ! i) = Some (ys ! i)"
  by (induction xs arbitrary: ys i) (auto simp: bind_Some_iff nth_Cons split: nat.splits)

lemma map_opt_set: "map_opt f xs = Some ys \<Longrightarrow> y \<in> set ys \<Longrightarrow> \<exists>x \<in> set xs. f x = Some y"
  by (induction xs arbitrary: ys) (auto simp: bind_Some_iff)

lemma map_opt_Some_iff: "(\<exists>ys. map_opt f xs = Some ys) \<longleftrightarrow> (\<forall>x \<in> set xs. \<exists>y. f x = Some y)"
  by (induction xs) (auto simp: bind_Some_iff)

lemma map_opt_append:
  "map_opt f (xs @ ys) = do { us \<leftarrow> map_opt f xs; vs \<leftarrow> map_opt f ys; Some (us @ vs) }"
  by (induction xs) (auto split: bind_splits)

lemma fold_opt_append: "fold_opt f s (xs @ ys) = do { s' \<leftarrow> fold_opt f s xs; fold_opt f s' ys }"
  by (induction xs arbitrary: s) (auto split: bind_splits)

lemma fold_opt_inv:
  assumes "fold_opt f s xs = Some t" "P s"
    and "\<And>s x s'. P s \<Longrightarrow> x \<in> set xs \<Longrightarrow> f s x = Some s' \<Longrightarrow> P s'"
  shows "P t"
  using assms
proof (induction xs arbitrary: s)
  case (Cons x xs)
  from Cons.prems(1) obtain s' where s': "f s x = Some s'" "fold_opt f s' xs = Some t"
    by (auto simp: bind_Some_iff)
  have "P s'" by (rule Cons.prems(3) [OF Cons.prems(2) _ s'(1)]) simp
  with s'(2) show ?case by (rule Cons.IH) (rule Cons.prems(3), simp_all)
qed simp

lemma fold_opt_total:
  assumes "P s" and "\<And>s x. P s \<Longrightarrow> x \<in> set xs \<Longrightarrow> \<exists>s'. f s x = Some s' \<and> P s'"
  shows "\<exists>t. fold_opt f s xs = Some t \<and> P t"
  using assms
proof (induction xs arbitrary: s)
  case (Cons x xs)
  have "\<exists>s'. f s x = Some s' \<and> P s'" by (rule Cons.prems(2)) (simp_all add: Cons.prems(1))
  then obtain s' where s': "f s x = Some s'" "P s'" by blast
  have "\<exists>t. fold_opt f s' xs = Some t \<and> P t"
    by (rule Cons.IH [OF s'(2)], rule Cons.prems(2)) simp_all
  with s' show ?case by simp
qed simp

text \<open>A loop that ends with a counter unchanged did not increase it in any step.\<close>

lemma fold_opt_steps:
  fixes m :: "'s \<Rightarrow> int"
  assumes step: "\<And>s x s'. x \<in> set xs \<Longrightarrow> f s x = Some s' \<Longrightarrow> m s \<le> m s' \<and> (m s = m s' \<longrightarrow> Q x)"
    and "fold_opt f s xs = Some t"
  shows "m s \<le> m t \<and> (m s = m t \<longrightarrow> (\<forall>x \<in> set xs. Q x))"
  using assms
proof (induction xs arbitrary: s)
  case (Cons x xs)
  from Cons.prems(2) obtain s' where s': "f s x = Some s'" "fold_opt f s' xs = Some t"
    by (auto simp: bind_Some_iff)
  have "m s' \<le> m t \<and> (m s' = m t \<longrightarrow> (\<forall>x \<in> set xs. Q x))"
    by (rule Cons.IH [OF _ s'(2)], rule Cons.prems(1)) simp_all
  moreover have "m s \<le> m s' \<and> (m s = m s' \<longrightarrow> Q x)"
    by (rule Cons.prems(1) [OF _ s'(1)]) simp
  ultimately show ?case by auto
qed simp

section \<open>Numbers\<close>

text \<open>The value range of a 32-bit \<^verbatim>\<open>int\<close>.\<close>

definition int32 :: "int \<Rightarrow> bool" where
  "int32 x \<longleftrightarrow> - (2 ^ 31) \<le> x \<and> x < 2 ^ 31"

text \<open>
  The conversion of a \<^verbatim>\<open>float\<close> or \<^verbatim>\<open>double\<close> to \<^verbatim>\<open>int\<close> drops the fraction; \<^verbatim>\<open>std::round\<close> rounds
  halves away from zero. C++ division is \<open>sdiv\<close>, the remainder \<open>smod\<close> of
  \<^verbatim>\<open>HOL-Library.Signed_Division\<close>.
\<close>

definition to_int :: "real \<Rightarrow> int" where
  "to_int x = (if 0 \<le> x then \<lfloor>x\<rfloor> else \<lceil>x\<rceil>)"

definition cround :: "real \<Rightarrow> real" where
  "cround x = (if 0 \<le> x then of_int \<lfloor>x + 1 / 2\<rfloor> else - of_int \<lfloor>- x + 1 / 2\<rfloor>)"

lemma to_int_of_int [simp]: "to_int (of_int k) = k"
  by (simp add: to_int_def)

lemma to_int_of_nat [simp]: "to_int (of_nat k) = int k"
  by (metis of_int_of_nat_eq to_int_of_int)

lemma to_int_nonneg: "0 \<le> x \<Longrightarrow> 0 \<le> to_int x"
  by (simp add: to_int_def)

lemma cround_of_int [simp]: "cround (of_int k) = of_int k"
proof -
  have "\<lfloor>real_of_int k + 1 / 2\<rfloor> = k" by linarith
  moreover have "\<lfloor>- real_of_int k + 1 / 2\<rfloor> = - k" by linarith
  ultimately show ?thesis by (simp add: cround_def)
qed

section \<open>Decimal integers as text\<close>

text \<open>\<^verbatim>\<open>StringPrintf("%d", n)\<close>.\<close>

definition digit_char :: "nat \<Rightarrow> char" where
  "digit_char d = char_of (48 + d)"

definition is_digit :: "char \<Rightarrow> bool" where
  "is_digit c \<longleftrightarrow> 48 \<le> (of_char c :: nat) \<and> (of_char c :: nat) \<le> 57"

fun show_nat :: "nat \<Rightarrow> string" where
  "show_nat n = (if n < 10 then [digit_char n] else show_nat (n div 10) @ [digit_char (n mod 10)])"

declare show_nat.simps [simp del]

definition show_int :: "int \<Rightarrow> string" where
  "show_int i = (if i < 0 then CHR ''-'' # show_nat (nat (- i)) else show_nat (nat i))"

lemma of_char_digit [simp]: "d < 10 \<Longrightarrow> of_char (digit_char d) = 48 + d"
  by (simp add: digit_char_def)

lemma is_digit_digit_char [simp]: "d < 10 \<Longrightarrow> is_digit (digit_char d)"
  by (simp add: is_digit_def)

lemma show_nat_digits: "c \<in> set (show_nat n) \<Longrightarrow> is_digit c"
proof (induction n rule: show_nat.induct)
  case (1 n)
  show ?case
  proof (cases "n < 10")
    case True
    with "1.prems" show ?thesis by (simp add: show_nat.simps [of n])
  next
    case False
    with "1.prems" have "c \<in> set (show_nat (n div 10)) \<or> c = digit_char (n mod 10)"
      by (auto simp: show_nat.simps [of n])
    with "1.IH" [OF False] show ?thesis by (elim disjE) simp_all
  qed
qed

lemma show_nat_nonempty [simp]: "show_nat n \<noteq> []"
  by (subst show_nat.simps) simp

text \<open>
  \<^verbatim>\<open>strtol(s, &end, 0)\<close> as \<^verbatim>\<open>ParseInt32\<close> of \<^verbatim>\<open>strutil.cpp\<close> uses it: leading white space, an
  optional sign, then the base from the prefix (\<open>0x\<close> hexadecimal, a further leading \<open>0\<close>
  octal, decimal otherwise). The call succeeds only when the whole text is consumed; the
  \<^verbatim>\<open>long\<close> that \<^verbatim>\<open>strtol\<close> clamps to 64 bits is then narrowed to 32 bits.
\<close>

definition is_space :: "char \<Rightarrow> bool" where
  "is_space c \<longleftrightarrow> (let n = (of_char c :: nat) in n = 32 \<or> (9 \<le> n \<and> n \<le> 13))"

definition digit_val :: "nat \<Rightarrow> char \<Rightarrow> nat option" where
  "digit_val base c =
     (let n = (of_char c :: nat);
          v = (if 48 \<le> n \<and> n \<le> 57 then n - 48
               else if 97 \<le> n \<and> n \<le> 122 then n - 87
               else if 65 \<le> n \<and> n \<le> 90 then n - 55 else base)
      in if v < base then Some v else None)"

primrec digits_value :: "nat \<Rightarrow> nat \<Rightarrow> string \<Rightarrow> nat option" where
  "digits_value base acc [] = Some acc"
| "digits_value base acc (c # cs) = do { v \<leftarrow> digit_val base c; digits_value base (base * acc + v) cs }"

definition strtol_unsigned :: "string \<Rightarrow> nat option" where
  "strtol_unsigned s =
     (case s of
        [] \<Rightarrow> None
      | c # cs \<Rightarrow>
          if c = CHR ''0'' then
            (case cs of
               [] \<Rightarrow> Some 0
             | x # ds \<Rightarrow>
                 if (x = CHR ''x'' \<or> x = CHR ''X'') then
                   (if ds = [] then None else digits_value 16 0 ds)
                 else digits_value 8 0 cs)
          else digits_value 10 0 s)"

definition strtol_all :: "string \<Rightarrow> int option" where
  "strtol_all s =
     (case dropWhile is_space s of
        [] \<Rightarrow> None
      | c # cs \<Rightarrow>
          if c = CHR ''-'' then map_option (\<lambda>n. - int n) (strtol_unsigned cs)
          else if c = CHR ''+'' then map_option int (strtol_unsigned cs)
          else map_option int (strtol_unsigned (c # cs)))"

definition narrow32 :: "int \<Rightarrow> int" where
  "narrow32 l = (let r = max (- (2 ^ 63)) (min (2 ^ 63 - 1) l) mod 2 ^ 32
                 in if r < 2 ^ 31 then r else r - 2 ^ 32)"

definition ParseInt32 :: "string \<Rightarrow> int option" where
  "ParseInt32 s = (if s = [] then None else map_option narrow32 (strtol_all s))"

lemma narrow32_id: "int32 x \<Longrightarrow> narrow32 x = x"
proof -
  assume a: "int32 x"
  then have m: "max (- (2 ^ 63)) (min (2 ^ 63 - 1) x) = x"
    by (simp add: int32_def)
  show ?thesis
  proof (cases "0 \<le> x")
    case True
    with a have "x mod 2 ^ 32 = x" by (simp add: int32_def)
    with True a m show ?thesis by (simp add: narrow32_def int32_def Let_def)
  next
    case False
    with a have "x mod 2 ^ 32 = x + 2 ^ 32"
      by (intro int_mod_pos_eq [where q = "-1"]) (auto simp: int32_def)
    with False a m show ?thesis by (simp add: narrow32_def int32_def Let_def)
  qed
qed

lemma digit_val_digit_char [simp]: "d < 10 \<Longrightarrow> digit_val 10 (digit_char d) = Some d"
  by (simp add: digit_val_def Let_def)

lemma digits_value_append:
  "digits_value b a (xs @ ys) = do { m \<leftarrow> digits_value b a xs; digits_value b m ys }"
  by (induction xs arbitrary: a) (auto split: bind_splits)

lemma digits_value_show_nat: "digits_value 10 0 (show_nat n) = Some n"
proof (induction n rule: show_nat.induct)
  case (1 n)
  show ?case
  proof (cases "n < 10")
    case True
    then show ?thesis by (simp add: show_nat.simps [of n])
  next
    case False
    with "1.IH" show ?thesis
      by (simp add: show_nat.simps [of n] digits_value_append)
  qed
qed

lemma digit_char_zero: "d < 10 \<Longrightarrow> digit_char d = CHR ''0'' \<longleftrightarrow> d = 0"
proof -
  assume d: "d < 10"
  have "digit_char d = CHR ''0'' \<longleftrightarrow> (of_char (digit_char d) :: nat) = of_char (CHR ''0'')"
    by (metis of_char_eq_iff)
  then show ?thesis by (simp add: d)
qed

lemma hd_show_nat: "hd (show_nat n) = CHR ''0'' \<longleftrightarrow> n = 0"
proof (induction n rule: show_nat.induct)
  case (1 n)
  show ?case
  proof (cases "n < 10")
    case True
    then show ?thesis by (simp add: show_nat.simps [of n] digit_char_zero)
  next
    case False
    with "1.IH" show ?thesis by (simp add: show_nat.simps [of n])
  qed
qed

lemma strtol_unsigned_show_nat: "strtol_unsigned (show_nat n) = Some n"
proof (cases "n = 0")
  case True
  then show ?thesis
    by (simp add: show_nat.simps strtol_unsigned_def digit_char_zero)
next
  case False
  then have "hd (show_nat n) \<noteq> CHR ''0''" by (simp add: hd_show_nat)
  then obtain c cs where s: "show_nat n = c # cs" "c \<noteq> CHR ''0''"
    by (cases "show_nat n") auto
  with digits_value_show_nat [of n] show ?thesis
    by (simp add: strtol_unsigned_def)
qed

lemma is_digit_facts: "is_digit c \<Longrightarrow> \<not> is_space c \<and> c \<noteq> CHR ''-'' \<and> c \<noteq> CHR ''+''"
  by (auto simp: is_digit_def is_space_def Let_def)

lemma strtol_all_show_nat: "strtol_all (show_nat n) = Some (int n)"
proof -
  obtain c cs where s: "show_nat n = c # cs"
    by (cases "show_nat n") auto
  then have "is_digit c" using show_nat_digits [of c n] by simp
  then show ?thesis
    using s strtol_unsigned_show_nat [of n] is_digit_facts [of c]
    by (simp add: strtol_all_def)
qed

text \<open>Printing a 32-bit integer and parsing it back is the identity.\<close>

lemma ParseInt32_show_int: "int32 i \<Longrightarrow> ParseInt32 (show_int i) = Some i"
proof -
  assume a: "int32 i"
  have "strtol_all (show_int i) = Some i"
  proof (cases "i < 0")
    case True
    then show ?thesis
      by (simp add: show_int_def strtol_all_def is_space_def strtol_unsigned_show_nat)
  next
    case False
    then show ?thesis by (simp add: show_int_def strtol_all_show_nat)
  qed
  moreover have "show_int i \<noteq> []" by (simp add: show_int_def)
  ultimately show ?thesis by (simp add: ParseInt32_def narrow32_id [OF a])
qed

lemma ParseInt32_show_nat: "n < 2 ^ 31 \<Longrightarrow> ParseInt32 (show_nat n) = Some (int n)"
  using ParseInt32_show_int [of "int n"] by (simp add: show_int_def int32_def)

lemma show_nat_inj: "show_nat m = show_nat n \<longleftrightarrow> m = n"
  by (metis strtol_unsigned_show_nat option.inject)

end
