(* ===== verification/Constants.thy ===== *)
theory Constants
  imports Prelude
begin

text \<open>
  \<^verbatim>\<open>src/inferui/inferui/model/util/constants.h\<close> and \<^verbatim>\<open>constants.cpp\<close>: the property names of
  Android layouts. \<open>name\<close> is the enum \<^verbatim>\<open>Constants::Name\<close>, \<open>output_type\<close> the enum
  \<^verbatim>\<open>Constants::Type\<close>; the three string tables are read at the position of the enumerator.
  The lemmas show that the tables and the enum are aligned: every lookup succeeds, and an
  XML attribute name determines its enumerator.
\<close>

section \<open>Names and output types\<close>

datatype output_type = INPUT_UI | INPUT_XML | OUTPUT_XML

datatype name =
    ID | layout_below | layout_above | layout_toLeftOf | layout_toRightOf |
    layout_alignLeft | layout_alignRight | layout_alignTop | layout_alignBottom |
    layout_alignParentTop | layout_alignParentBottom | layout_alignParentLeft |
    layout_alignParentRight | layout_alignParentStart | layout_alignParentEnd |
    layout_centerHorizontal | layout_centerInParent | layout_centerVertical |
    layout_constraintTop_toBottomOf | layout_constraintBottom_toBottomOf |
    layout_constraintTop_toTopOf | layout_constraintBottom_toTopOf |
    layout_constraintLeft_toLeftOf | layout_constraintLeft_toRightOf |
    layout_constraintRight_toRightOf | layout_constraintRight_toLeftOf |
    layout_constraintHorizontal_bias | layout_constraintVertical_bias |
    layout_constraintBaseline_toBaselineOf | layout_marginTop | layout_marginBottom |
    layout_marginRight | layout_marginLeft | layout_margin | paddingTop | paddingBottom |
    paddingRight | paddingLeft | padding | paddingStart | paddingEnd | paddingHorizontal |
    paddingVertical | layout_width | layout_height | ConstraintLayout | RelativeLayout |
    Guideline | NAME_MATCH_PARENT | NAME_MATCH_CONSTRAINT |
    layout_constraintVertical_chainStyle | layout_constraintHorizontal_chainStyle | NO_NAME

text \<open>The enumerators in their order, and \<^verbatim>\<open>static_cast<int>(name)\<close>.\<close>

definition all_names :: "name list" where
  "all_names = [
    ID, layout_below, layout_above, layout_toLeftOf, layout_toRightOf, layout_alignLeft,
    layout_alignRight, layout_alignTop, layout_alignBottom, layout_alignParentTop,
    layout_alignParentBottom, layout_alignParentLeft, layout_alignParentRight,
    layout_alignParentStart, layout_alignParentEnd, layout_centerHorizontal,
    layout_centerInParent, layout_centerVertical, layout_constraintTop_toBottomOf,
    layout_constraintBottom_toBottomOf, layout_constraintTop_toTopOf,
    layout_constraintBottom_toTopOf, layout_constraintLeft_toLeftOf,
    layout_constraintLeft_toRightOf, layout_constraintRight_toRightOf,
    layout_constraintRight_toLeftOf, layout_constraintHorizontal_bias,
    layout_constraintVertical_bias, layout_constraintBaseline_toBaselineOf,
    layout_marginTop, layout_marginBottom, layout_marginRight, layout_marginLeft,
    layout_margin, paddingTop, paddingBottom, paddingRight, paddingLeft, padding,
    paddingStart, paddingEnd, paddingHorizontal, paddingVertical, layout_width,
    layout_height, ConstraintLayout, RelativeLayout, Guideline, NAME_MATCH_PARENT,
    NAME_MATCH_CONSTRAINT, layout_constraintVertical_chainStyle,
    layout_constraintHorizontal_chainStyle, NO_NAME]"

primrec index_from :: "nat \<Rightarrow> 'a list \<Rightarrow> 'a \<Rightarrow> nat" where
  "index_from i [] x = i"
| "index_from i (y # ys) x = (if x = y then i else index_from (Suc i) ys x)"

definition name_index :: "name \<Rightarrow> nat" where
  "name_index n = index_from 0 all_names n"

section \<open>The string tables\<close>

definition values_xml :: "string list" where
  "values_xml = [
    ''{http://schemas.android.com/apk/res/android}id'',
    ''{http://schemas.android.com/apk/res/android}layout_below'',
    ''{http://schemas.android.com/apk/res/android}layout_above'',
    ''{http://schemas.android.com/apk/res/android}layout_toLeftOf'',
    ''{http://schemas.android.com/apk/res/android}layout_toRightOf'',
    ''{http://schemas.android.com/apk/res/android}layout_alignLeft'',
    ''{http://schemas.android.com/apk/res/android}layout_alignRight'',
    ''{http://schemas.android.com/apk/res/android}layout_alignTop'',
    ''{http://schemas.android.com/apk/res/android}layout_alignBottom'',
    ''{http://schemas.android.com/apk/res/android}layout_alignParentTop'',
    ''{http://schemas.android.com/apk/res/android}layout_alignParentBottom'',
    ''{http://schemas.android.com/apk/res/android}layout_alignParentLeft'',
    ''{http://schemas.android.com/apk/res/android}layout_alignParentRight'',
    ''{http://schemas.android.com/apk/res/android}layout_alignParentStart'',
    ''{http://schemas.android.com/apk/res/android}layout_alignParentEnd'',
    ''{http://schemas.android.com/apk/res/android}layout_centerHorizontal'',
    ''{http://schemas.android.com/apk/res/android}layout_centerInParent'',
    ''{http://schemas.android.com/apk/res/android}layout_centerVertical'',
    ''{http://schemas.android.com/apk/res-auto}layout_constraintTop_toBottomOf'',
    ''{http://schemas.android.com/apk/res-auto}layout_constraintBottom_toBottomOf'',
    ''{http://schemas.android.com/apk/res-auto}layout_constraintTop_toTopOf'',
    ''{http://schemas.android.com/apk/res-auto}layout_constraintBottom_toTopOf'',
    ''{http://schemas.android.com/apk/res-auto}layout_constraintLeft_toLeftOf'',
    ''{http://schemas.android.com/apk/res-auto}layout_constraintLeft_toRightOf'',
    ''{http://schemas.android.com/apk/res-auto}layout_constraintRight_toRightOf'',
    ''{http://schemas.android.com/apk/res-auto}layout_constraintRight_toLeftOf'',
    ''{http://schemas.android.com/apk/res-auto}layout_constraintHorizontal_bias'',
    ''{http://schemas.android.com/apk/res-auto}layout_constraintVertical_bias'',
    ''{http://schemas.android.com/apk/res-auto}layout_constraintBaseline_toBaselineOf'',
    ''{http://schemas.android.com/apk/res/android}layout_marginTop'',
    ''{http://schemas.android.com/apk/res/android}layout_marginBottom'',
    ''{http://schemas.android.com/apk/res/android}layout_marginRight'',
    ''{http://schemas.android.com/apk/res/android}layout_marginLeft'',
    ''{http://schemas.android.com/apk/res/android}layout_margin'',
    ''{http://schemas.android.com/apk/res/android}paddingTop'',
    ''{http://schemas.android.com/apk/res/android}paddingBottom'',
    ''{http://schemas.android.com/apk/res/android}paddingRight'',
    ''{http://schemas.android.com/apk/res/android}paddingLeft'',
    ''{http://schemas.android.com/apk/res/android}padding'',
    ''{http://schemas.android.com/apk/res/android}paddingStart'',
    ''{http://schemas.android.com/apk/res/android}paddingEnd'',
    ''{http://schemas.android.com/apk/res/android}paddingHorizontal'',
    ''{http://schemas.android.com/apk/res/android}paddingVertical'',
    ''{http://schemas.android.com/apk/res/android}layout_width'',
    ''{http://schemas.android.com/apk/res/android}layout_height'',
    ''android.support.constraint.ConstraintLayout'',
    ''RelativeLayout'',
    ''android.support.constraint.Guideline'',
    ''match_parent'',
    ''0dp'',
    ''{http://schemas.android.com/apk/res-auto}layout_constraintVertical_chainStyle'',
    ''{http://schemas.android.com/apk/res-auto}layout_constraintHorizontal_chainStyle'',
    ''NO_NAME'']"

definition values_ui :: "string list" where
  "values_ui = [
    ''attributes:id'',
    ''attributes:layout_below'',
    ''attributes:layout_above'',
    ''attributes:layout_toLeftOf'',
    ''attributes:layout_toRightOf'',
    ''attributes:layout_alignLeft'',
    ''attributes:layout_alignRight'',
    ''attributes:layout_alignTop'',
    ''attributes:layout_alignBottom'',
    ''attributes:layout_alignParentTop'',
    ''attributes:layout_alignParentBottom'',
    ''attributes:layout_alignParentLeft'',
    ''attributes:layout_alignParentRight'',
    ''attributes:layout_alignParentStart'',
    ''attributes:layout_alignParentEnd'',
    ''attributes:layout_centerHorizontal'',
    ''attributes:layout_centerInParent'',
    ''attributes:layout_centerVertical'',
    ''attributes:layout_constraintTop_toBottomOf'',
    ''attributes:layout_constraintBottom_toBottomOf'',
    ''attributes:layout_constraintTop_toTopOf'',
    ''attributes:layout_constraintBottom_toTopOf'',
    ''attributes:layout_constraintLeft_toLeftOf'',
    ''attributes:layout_constraintLeft_toRightOf'',
    ''attributes:layout_constraintRight_toRightOf'',
    ''attributes:layout_constraintRight_toLeftOf'',
    ''attributes:layout_constraintHorizontal_bias'',
    ''attributes:layout_constraintVertical_bias'',
    ''attributes:layout_constraintBaseline_toBaselineOf'',
    ''layout:layout_topMargin'',
    ''layout:layout_bottomMargin'',
    ''layout:layout_rightMargin'',
    ''layout:layout_leftMargin'',
    ''layout:layout_margin'',
    ''padding:mPaddingTop'',
    ''padding:mPaddingBottom'',
    ''padding:mPaddingRight'',
    ''padding:mPaddingLeft'',
    ''NOT_DEFINED'',
    ''NOT_DEFINED'',
    ''NOT_DEFINED'',
    ''NOT_DEFINED'',
    ''NOT_DEFINED'',
    ''attributes:layout_width'',
    ''attributes:layout_height'',
    ''android.support.constraint.ConstraintLayout'',
    ''RelativeLayout'',
    ''android.support.constraint.Guideline'',
    ''match_parent'',
    ''0dp'',
    ''attributes:layout_constraintVertical_chainStyle'',
    ''attributes:layout_constraintHorizontal_chainStyle'',
    ''NO_NAME'']"

definition values_output :: "string list" where
  "values_output = [
    ''android:id'',
    ''android:layout_below'',
    ''android:layout_above'',
    ''android:layout_toLeftOf'',
    ''android:layout_toRightOf'',
    ''android:layout_alignLeft'',
    ''android:layout_alignRight'',
    ''android:layout_alignTop'',
    ''android:layout_alignBottom'',
    ''android:layout_alignParentTop'',
    ''android:layout_alignParentBottom'',
    ''android:layout_alignParentLeft'',
    ''android:layout_alignParentRight'',
    ''android:layout_alignParentStart'',
    ''android:layout_alignParentEnd'',
    ''android:layout_centerHorizontal'',
    ''android:layout_centerInParent'',
    ''android:layout_centerVertical'',
    ''app:layout_constraintTop_toBottomOf'',
    ''app:layout_constraintBottom_toBottomOf'',
    ''app:layout_constraintTop_toTopOf'',
    ''app:layout_constraintBottom_toTopOf'',
    ''app:layout_constraintLeft_toLeftOf'',
    ''app:layout_constraintLeft_toRightOf'',
    ''app:layout_constraintRight_toRightOf'',
    ''app:layout_constraintRight_toLeftOf'',
    ''app:layout_constraintHorizontal_bias'',
    ''app:layout_constraintVertical_bias'',
    ''app:layout_constraintBaseline_toBaselineOf'',
    ''android:layout_marginTop'',
    ''android:layout_marginBottom'',
    ''android:layout_marginRight'',
    ''android:layout_marginLeft'',
    ''android:layout_margin'',
    ''android:paddingTop'',
    ''android:paddingBottom'',
    ''android:paddingRight'',
    ''android:paddingLeft'',
    ''android:padding'',
    ''android:paddingStart'',
    ''android:paddingEnd'',
    ''android:paddingHorizontal'',
    ''android:paddingVertical'',
    ''android:layout_width'',
    ''android:layout_height'',
    ''android.support.constraint.ConstraintLayout'',
    ''RelativeLayout'',
    ''android.support.constraint.Guideline'',
    ''match_parent'',
    ''0dp'',
    ''app:layout_constraintVertical_chainStyle'',
    ''app:layout_constraintHorizontal_chainStyle'',
    ''NO_NAME'']"

text \<open>\<^verbatim>\<open>Constants::name\<close>.\<close>

definition constants_name :: "name \<Rightarrow> output_type \<Rightarrow> string option" where
  "constants_name n t =
     (case t of
        INPUT_XML \<Rightarrow> vec_at values_xml (name_index n)
      | INPUT_UI \<Rightarrow> vec_at values_ui (name_index n)
      | OUTPUT_XML \<Rightarrow> vec_at values_output (name_index n))"

text \<open>
  \<^verbatim>\<open>Constants::name(name)\<close> casts the flag \<^verbatim>\<open>FLAGS_xml_attributes\<close> to a \<^verbatim>\<open>Type\<close>; the flag is
  an argument.
\<close>

definition flag_type :: "bool \<Rightarrow> output_type" where
  "flag_type xml_attributes = (if xml_attributes then INPUT_XML else INPUT_UI)"

definition constants_name_default :: "bool \<Rightarrow> name \<Rightarrow> string option" where
  "constants_name_default xml_attributes n = constants_name n (flag_type xml_attributes)"

section \<open>Groups of properties\<close>

definition RELATIVE_CONSTRAINTS :: "name list" where
  "RELATIVE_CONSTRAINTS = [
    layout_below, layout_above, layout_toLeftOf, layout_toRightOf, layout_alignLeft,
    layout_alignRight, layout_alignTop, layout_alignBottom]"

definition CONSTRAINT_LAYOUT_CONSTRAINTS :: "name list" where
  "CONSTRAINT_LAYOUT_CONSTRAINTS = [
    layout_constraintTop_toBottomOf, layout_constraintBottom_toBottomOf,
    layout_constraintTop_toTopOf, layout_constraintBottom_toTopOf,
    layout_constraintLeft_toLeftOf, layout_constraintLeft_toRightOf,
    layout_constraintRight_toRightOf, layout_constraintRight_toLeftOf]"

definition LEFT_CONSTRAINT_LAYOUT_CONSTRAINTS :: "name list" where
  "LEFT_CONSTRAINT_LAYOUT_CONSTRAINTS = [
    layout_constraintLeft_toLeftOf, layout_constraintLeft_toRightOf]"

definition RIGHT_CONSTRAINT_LAYOUT_CONSTRAINTS :: "name list" where
  "RIGHT_CONSTRAINT_LAYOUT_CONSTRAINTS = [
    layout_constraintRight_toRightOf, layout_constraintRight_toLeftOf]"

definition TOP_CONSTRAINT_LAYOUT_CONSTRAINTS :: "name list" where
  "TOP_CONSTRAINT_LAYOUT_CONSTRAINTS = [
    layout_constraintTop_toTopOf, layout_constraintTop_toBottomOf]"

definition BOTTOM_CONSTRAINT_LAYOUT_CONSTRAINTS :: "name list" where
  "BOTTOM_CONSTRAINT_LAYOUT_CONSTRAINTS = [
    layout_constraintBottom_toTopOf, layout_constraintBottom_toBottomOf]"

definition RELATIVE_PARENT_CONSTRAINTS :: "name list" where
  "RELATIVE_PARENT_CONSTRAINTS = [
    layout_alignParentTop, layout_alignParentBottom, layout_alignParentLeft,
    layout_alignParentRight, layout_alignParentStart, layout_alignParentEnd,
    layout_centerHorizontal, layout_centerInParent, layout_centerVertical]"

definition ViewProperties :: "name \<Rightarrow> name list option" where
  "ViewProperties n =
     (case n of
        ConstraintLayout \<Rightarrow> Some CONSTRAINT_LAYOUT_CONSTRAINTS
      | RelativeLayout \<Rightarrow> Some RELATIVE_CONSTRAINTS
      | _ \<Rightarrow> None)"

section \<open>Lookups\<close>

lemma all_names_complete: "n \<in> set all_names"
  by (cases n) (simp_all add: all_names_def)

lemma distinct_all_names: "distinct all_names"
  by (simp add: all_names_def)

lemma length_all_names [simp]: "length all_names = 53"
  by (simp add: all_names_def)

lemma index_from_nth:
  "x \<in> set xs \<Longrightarrow> i \<le> index_from i xs x \<and> index_from i xs x < i + length xs \<and>
     xs ! (index_from i xs x - i) = x"
proof (induction xs arbitrary: i)
  case (Cons y ys)
  show ?case
  proof (cases "x = y")
    case False
    with Cons.prems have "x \<in> set ys" by simp
    note IH = Cons.IH [OF this, of "Suc i"]
    then have "index_from (Suc i) ys x - i = Suc (index_from (Suc i) ys x - Suc i)" by arith
    with IH False show ?thesis by simp
  qed simp
qed simp

lemma name_index_less: "name_index n < 53"
  using index_from_nth [OF all_names_complete, of 0 n] by (simp add: name_index_def)

lemma nth_name_index [simp]: "all_names ! name_index n = n"
  using index_from_nth [OF all_names_complete, of 0 n] by (simp add: name_index_def)

lemma name_index_inj: "name_index m = name_index n \<longleftrightarrow> m = n"
  by (metis nth_name_index)

lemma length_tables [simp]: "length values_xml = 53" "length values_ui = 53" "length values_output = 53"
  by (simp_all add: values_xml_def values_ui_def values_output_def)

lemma constants_name_total: "\<exists>s. constants_name n t = Some s"
  by (cases t) (simp_all add: constants_name_def name_index_less)

lemma constants_name_nth:
  "constants_name n INPUT_XML = Some (values_xml ! name_index n)"
  "constants_name n OUTPUT_XML = Some (values_output ! name_index n)"
  "constants_name n INPUT_UI = Some (values_ui ! name_index n)"
  by (simp_all add: constants_name_def name_index_less)

text \<open>
  The part of a name after its XML namespace \<open>{...}\<close> or its prefix \<open>app:\<close> / \<open>android:\<close>.
\<close>

definition local_part :: "string \<Rightarrow> string" where
  "local_part s = rev (takeWhile (\<lambda>c. c \<noteq> CHR ''}'' \<and> c \<noteq> CHR '':'') (rev s))"

lemma local_parts_agree: "map local_part values_xml = map local_part values_output"
  by (simp add: values_xml_def values_output_def local_part_def)

text \<open>
  The tables for reading and for writing layouts are aligned entry by entry.
\<close>

lemma constants_name_aligned:
  "map_option local_part (constants_name n INPUT_XML) = map_option local_part (constants_name n OUTPUT_XML)"
proof -
  have "local_part (values_xml ! name_index n) = map local_part values_xml ! name_index n"
    by (simp add: name_index_less)
  also have "\<dots> = local_part (values_output ! name_index n)"
    unfolding local_parts_agree by (simp add: name_index_less)
  finally show ?thesis by (simp add: constants_name_nth)
qed

end
