(* ===== verification/Constraint_Types.thy ===== *)
theory Constraint_Types
  imports Constants
begin

text \<open>
  The enums of \<^verbatim>\<open>src/inferui/inferui/model/util/util.h\<close> (orientation, view size, the two-slot
  \<^verbatim>\<open>OrientationContainer\<close>) and the constraint types of \<^verbatim>\<open>model.h\<close> / \<^verbatim>\<open>model.cpp\<close> with their
  classification, splitting, printing and parsing. The interface \<open>codec\<close> states what every
  printer/parser pair of the program promises; \<open>orientation_store\<close> what a container with one
  slot per orientation promises.
\<close>

section \<open>Interfaces\<close>

locale codec =
  fixes enc :: "'a \<Rightarrow> string option" and dec :: "string \<Rightarrow> 'a option" and valid :: "'a \<Rightarrow> bool"
  assumes dec_enc: "valid x \<Longrightarrow> \<exists>s. enc x = Some s \<and> dec s = Some x"
begin

lemma enc_total: "valid x \<Longrightarrow> enc x \<noteq> None"
  using dec_enc by fastforce

lemma dec_printed: "valid x \<Longrightarrow> enc x = Some s \<Longrightarrow> dec s = Some x"
  using dec_enc by fastforce

lemma enc_injective: "valid x \<Longrightarrow> valid y \<Longrightarrow> enc x = enc y \<Longrightarrow> x = y"
  by (metis dec_enc option.inject)

end

locale orientation_store =
  fixes get :: "'c \<Rightarrow> 'o \<Rightarrow> 'a" and put :: "'c \<Rightarrow> 'o \<Rightarrow> 'a \<Rightarrow> 'c" and wf :: "'c \<Rightarrow> bool"
  assumes get_put_same: "wf c \<Longrightarrow> get (put c o1 x) o1 = x"
    and get_put_other: "wf c \<Longrightarrow> o1 \<noteq> o2 \<Longrightarrow> get (put c o1 x) o2 = get c o2"
    and wf_put: "wf c \<Longrightarrow> wf (put c o1 x)"
begin

lemma get_put: "wf c \<Longrightarrow> get (put c o1 x) o2 = (if o1 = o2 then x else get c o2)"
  by (simp add: get_put_same get_put_other)

lemma get_put_put: "wf c \<Longrightarrow> get (put (put c o1 x) o1 y) o2 = get (put c o1 y) o2"
  by (simp add: get_put wf_put)

end

interpretation int32_codec: codec "\<lambda>i. Some (show_int i)" ParseInt32 int32
  by unfold_locales (simp add: ParseInt32_show_int)

section \<open>Orientations\<close>

datatype orientation = HORIZONTAL | VERTICAL

definition orientation_index :: "orientation \<Rightarrow> nat" where
  "orientation_index oi = (case oi of HORIZONTAL \<Rightarrow> 0 | VERTICAL \<Rightarrow> 1)"

definition OrientationStr :: "orientation \<Rightarrow> string" where
  "OrientationStr oi = (case oi of HORIZONTAL \<Rightarrow> ''Horizontal'' | VERTICAL \<Rightarrow> ''Vertical'')"

definition both_orientations :: "orientation list" where
  "both_orientations = [HORIZONTAL, VERTICAL]"

instantiation orientation :: linorder
begin

definition less_eq_orientation :: "orientation \<Rightarrow> orientation \<Rightarrow> bool" where
  "less_eq_orientation a b \<longleftrightarrow> orientation_index a \<le> orientation_index b"

definition less_orientation :: "orientation \<Rightarrow> orientation \<Rightarrow> bool" where
  "less_orientation a b \<longleftrightarrow> orientation_index a < orientation_index b"

instance
  by standard (auto simp: less_eq_orientation_def less_orientation_def orientation_index_def
      split: orientation.splits)

end

lemma orientation_exhaust_set: "(UNIV :: orientation set) = {HORIZONTAL, VERTICAL}"
  using orientation.exhaust by auto

text \<open>\<^verbatim>\<open>OrientationContainer<T>\<close>: a vector of two values indexed by the orientation.\<close>

datatype 'a orientation_container = OrientationContainer (oc_values: "'a list")

definition oc_make :: "'a \<Rightarrow> 'a \<Rightarrow> 'a orientation_container" where
  "oc_make first second = OrientationContainer [first, second]"

definition oc_get :: "'a orientation_container \<Rightarrow> orientation \<Rightarrow> 'a" where
  "oc_get c oi = oc_values c ! orientation_index oi"

definition oc_put :: "'a orientation_container \<Rightarrow> orientation \<Rightarrow> 'a \<Rightarrow> 'a orientation_container" where
  "oc_put c oi x = OrientationContainer ((oc_values c)[orientation_index oi := x])"

definition oc_wf :: "'a orientation_container \<Rightarrow> bool" where
  "oc_wf c \<longleftrightarrow> length (oc_values c) = 2"

lemma oc_wf_make [simp]: "oc_wf (oc_make a b)"
  by (simp add: oc_wf_def oc_make_def)

lemma oc_get_make [simp]: "oc_get (oc_make a b) oi = (case oi of HORIZONTAL \<Rightarrow> a | VERTICAL \<Rightarrow> b)"
  by (cases oi) (simp_all add: oc_get_def oc_make_def orientation_index_def)

interpretation oc: orientation_store oc_get oc_put oc_wf
  by unfold_locales
    (auto simp: oc_get_def oc_put_def oc_wf_def orientation_index_def nth_list_update split: orientation.splits)

section \<open>View sizes\<close>

datatype view_size = MATCH_PARENT | MATCH_CONSTRAINT | FIXED

definition view_size_index :: "view_size \<Rightarrow> nat" where
  "view_size_index sz = (case sz of MATCH_PARENT \<Rightarrow> 0 | MATCH_CONSTRAINT \<Rightarrow> 1 | FIXED \<Rightarrow> 2)"

definition view_size_of_index :: "int \<Rightarrow> view_size option" where
  "view_size_of_index i =
     (if i = 0 then Some MATCH_PARENT else if i = 1 then Some MATCH_CONSTRAINT
      else if i = 2 then Some FIXED else None)"

lemma view_size_of_index_index [simp]: "view_size_of_index (int (view_size_index sz)) = Some sz"
  by (cases sz) (simp_all add: view_size_of_index_def view_size_index_def)

definition ViewSizeStr :: "view_size \<Rightarrow> string" where
  "ViewSizeStr sz =
     (case sz of FIXED \<Rightarrow> ''FIXED'' | MATCH_CONSTRAINT \<Rightarrow> ''MATCH_CONSTRAINT''
      | MATCH_PARENT \<Rightarrow> ''MATCH_PARENT'')"

text \<open>\<^verbatim>\<open>StringPrintf("%dpx", value)\<close>, and the overload of \<^verbatim>\<open>ViewSizeStr\<close> with a value.\<close>

definition px_string :: "int \<Rightarrow> string" where
  "px_string v = show_int v @ ''px''"

definition ViewSizeStr_value :: "view_size \<Rightarrow> int \<Rightarrow> string option" where
  "ViewSizeStr_value sz v =
     (if sz = MATCH_CONSTRAINT then constants_name NAME_MATCH_CONSTRAINT OUTPUT_XML
      else if sz = MATCH_PARENT then constants_name NAME_MATCH_PARENT OUTPUT_XML
      else do { CHECK (sz = FIXED); Some (px_string v) })"

section \<open>Constraint types\<close>

datatype constraint_type =
    L2L | L2R | R2L | R2R
  | T2T | T2B | B2T | B2B
  | L2LxR2L | L2LxR2R | L2RxR2L | L2RxR2R
  | T2TxB2T | T2TxB2B | T2BxB2T | T2BxB2B
  | LAST

definition ct_all :: "constraint_type list" where
  "ct_all = [L2L, L2R, R2L, R2R, T2T, T2B, B2T, B2B, L2LxR2L, L2LxR2R, L2RxR2L, L2RxR2R,
             T2TxB2T, T2TxB2B, T2BxB2T, T2BxB2B, LAST]"

text \<open>\<^verbatim>\<open>static_cast<int>(type)\<close> and \<^verbatim>\<open>static_cast<ConstraintType>(i)\<close>.\<close>

definition ct_index :: "constraint_type \<Rightarrow> nat" where
  "ct_index t = index_from 0 ct_all t"

definition ct_of_index :: "nat \<Rightarrow> constraint_type option" where
  "ct_of_index i = vec_at ct_all i"

lemma ct_index_simps [simp]:
  "ct_index L2L = 0" "ct_index L2R = 1" "ct_index R2L = 2" "ct_index R2R = 3"
  "ct_index T2T = 4" "ct_index T2B = 5" "ct_index B2T = 6" "ct_index B2B = 7"
  "ct_index L2LxR2L = 8" "ct_index L2LxR2R = 9" "ct_index L2RxR2L = 10" "ct_index L2RxR2R = 11"
  "ct_index T2TxB2T = 12" "ct_index T2TxB2B = 13" "ct_index T2BxB2T = 14" "ct_index T2BxB2B = 15"
  "ct_index LAST = 16"
  by (simp_all add: ct_index_def ct_all_def)

lemma ct_index_inj: "ct_index a = ct_index b \<Longrightarrow> a = b"
  by (cases a; cases b) simp_all

instantiation constraint_type :: linorder
begin

definition less_eq_constraint_type :: "constraint_type \<Rightarrow> constraint_type \<Rightarrow> bool" where
  "less_eq_constraint_type a b \<longleftrightarrow> ct_index a \<le> ct_index b"

definition less_constraint_type :: "constraint_type \<Rightarrow> constraint_type \<Rightarrow> bool" where
  "less_constraint_type a b \<longleftrightarrow> ct_index a < ct_index b"

instance
  by standard (auto simp: less_eq_constraint_type_def less_constraint_type_def intro: ct_index_inj)

end

text \<open>Classification (\<^verbatim>\<open>model.cpp\<close>). \<^verbatim>\<open>LAST\<close> counts as a centering type here.\<close>

definition IsRelationalAnchor :: "constraint_type \<Rightarrow> bool" where
  "IsRelationalAnchor t \<longleftrightarrow> ct_index t < ct_index L2LxR2L"

definition IsCenterAnchor :: "constraint_type \<Rightarrow> bool" where
  "IsCenterAnchor t \<longleftrightarrow> \<not> IsRelationalAnchor t"

fun IsTypeStart :: "constraint_type \<Rightarrow> bool option" where
  "IsTypeStart L2L = Some True"
| "IsTypeStart L2R = Some True"
| "IsTypeStart T2T = Some True"
| "IsTypeStart T2B = Some True"
| "IsTypeStart R2L = Some False"
| "IsTypeStart R2R = Some False"
| "IsTypeStart B2T = Some False"
| "IsTypeStart B2B = Some False"
| "IsTypeStart _ = None"

fun ConstraintTypeToOrientation :: "constraint_type \<Rightarrow> orientation option" where
  "ConstraintTypeToOrientation L2L = Some HORIZONTAL"
| "ConstraintTypeToOrientation L2R = Some HORIZONTAL"
| "ConstraintTypeToOrientation R2L = Some HORIZONTAL"
| "ConstraintTypeToOrientation R2R = Some HORIZONTAL"
| "ConstraintTypeToOrientation L2LxR2L = Some HORIZONTAL"
| "ConstraintTypeToOrientation L2LxR2R = Some HORIZONTAL"
| "ConstraintTypeToOrientation L2RxR2L = Some HORIZONTAL"
| "ConstraintTypeToOrientation L2RxR2R = Some HORIZONTAL"
| "ConstraintTypeToOrientation T2T = Some VERTICAL"
| "ConstraintTypeToOrientation T2B = Some VERTICAL"
| "ConstraintTypeToOrientation B2T = Some VERTICAL"
| "ConstraintTypeToOrientation B2B = Some VERTICAL"
| "ConstraintTypeToOrientation T2TxB2T = Some VERTICAL"
| "ConstraintTypeToOrientation T2TxB2B = Some VERTICAL"
| "ConstraintTypeToOrientation T2BxB2T = Some VERTICAL"
| "ConstraintTypeToOrientation T2BxB2B = Some VERTICAL"
| "ConstraintTypeToOrientation LAST = None"

section \<open>Splitting and joining anchors\<close>

fun SplitAnchor :: "constraint_type \<Rightarrow> (constraint_type \<times> constraint_type) option" where
  "SplitAnchor L2L = Some (L2L, LAST)"
| "SplitAnchor L2R = Some (L2R, LAST)"
| "SplitAnchor R2L = Some (LAST, R2L)"
| "SplitAnchor R2R = Some (LAST, R2R)"
| "SplitAnchor T2T = Some (T2T, LAST)"
| "SplitAnchor T2B = Some (T2B, LAST)"
| "SplitAnchor B2T = Some (LAST, B2T)"
| "SplitAnchor B2B = Some (LAST, B2B)"
| "SplitAnchor L2LxR2L = Some (L2L, R2L)"
| "SplitAnchor L2LxR2R = Some (L2L, R2R)"
| "SplitAnchor L2RxR2L = Some (L2R, R2L)"
| "SplitAnchor L2RxR2R = Some (L2R, R2R)"
| "SplitAnchor T2TxB2T = Some (T2T, B2T)"
| "SplitAnchor T2TxB2B = Some (T2T, B2B)"
| "SplitAnchor T2BxB2T = Some (T2B, B2T)"
| "SplitAnchor T2BxB2B = Some (T2B, B2B)"
| "SplitAnchor LAST = None"

fun split_center :: "constraint_type \<Rightarrow> (constraint_type \<times> constraint_type) option" where
  "split_center L2LxR2L = Some (L2L, R2L)"
| "split_center L2LxR2R = Some (L2L, R2R)"
| "split_center L2RxR2L = Some (L2R, R2L)"
| "split_center L2RxR2R = Some (L2R, R2R)"
| "split_center T2TxB2T = Some (T2T, B2T)"
| "split_center T2TxB2B = Some (T2T, B2B)"
| "split_center T2BxB2T = Some (T2B, B2T)"
| "split_center T2BxB2B = Some (T2B, B2B)"
| "split_center _ = None"

definition SplitCenterAnchor :: "constraint_type \<Rightarrow> (constraint_type \<times> constraint_type) option" where
  "SplitCenterAnchor t = do { CHECK (IsCenterAnchor t); split_center t }"

definition GetCenterAnchor :: "constraint_type \<Rightarrow> constraint_type \<Rightarrow> constraint_type option" where
  "GetCenterAnchor st en =
     (if st = L2L \<and> en = R2L then Some L2LxR2L
      else if st = L2L \<and> en = R2R then Some L2LxR2R
      else if st = L2R \<and> en = R2L then Some L2RxR2L
      else if st = L2R \<and> en = R2R then Some L2RxR2R
      else if st = T2T \<and> en = B2T then Some T2TxB2T
      else if st = T2T \<and> en = B2B then Some T2TxB2B
      else if st = T2B \<and> en = B2T then Some T2BxB2T
      else if st = T2B \<and> en = B2B then Some T2BxB2B
      else None)"

lemma SplitCenterAnchor_simps [simp]: "SplitCenterAnchor t = split_center t"
  by (cases t) (simp_all add: SplitCenterAnchor_def IsCenterAnchor_def IsRelationalAnchor_def)

lemma relational_simps [simp]:
  "IsRelationalAnchor L2L" "IsRelationalAnchor L2R" "IsRelationalAnchor R2L" "IsRelationalAnchor R2R"
  "IsRelationalAnchor T2T" "IsRelationalAnchor T2B" "IsRelationalAnchor B2T" "IsRelationalAnchor B2B"
  "\<not> IsRelationalAnchor L2LxR2L" "\<not> IsRelationalAnchor L2LxR2R" "\<not> IsRelationalAnchor L2RxR2L"
  "\<not> IsRelationalAnchor L2RxR2R" "\<not> IsRelationalAnchor T2TxB2T" "\<not> IsRelationalAnchor T2TxB2B"
  "\<not> IsRelationalAnchor T2BxB2T" "\<not> IsRelationalAnchor T2BxB2B" "\<not> IsRelationalAnchor LAST"
  by (simp_all add: IsRelationalAnchor_def)

lemma IsCenterAnchor_iff [simp]: "IsCenterAnchor t \<longleftrightarrow> \<not> IsRelationalAnchor t"
  by (simp add: IsCenterAnchor_def)

lemma SplitAnchor_total: "t \<noteq> LAST \<Longrightarrow> \<exists>s e. SplitAnchor t = Some (s, e)"
  by (cases t) simp_all

text \<open>
  The contract of the anchors: joining the two halves of a centering constraint gives it
  back, the halves are a start and an end anchor of its orientation, and only such pairs
  can be joined.
\<close>

theorem center_anchor_join_split:
  "GetCenterAnchor st en = Some t \<longleftrightarrow> SplitCenterAnchor t = Some (st, en)"
  by (cases t) (auto simp: GetCenterAnchor_def split: if_splits)

lemma center_anchor_domain:
  "(\<exists>t. GetCenterAnchor st en = Some t) \<longleftrightarrow>
     IsTypeStart st = Some True \<and> IsTypeStart en = Some False \<and>
     ConstraintTypeToOrientation st = ConstraintTypeToOrientation en"
  by (cases st; cases en) (simp_all add: GetCenterAnchor_def)

lemma SplitAnchor_relational:
  "IsRelationalAnchor t \<Longrightarrow>
     SplitAnchor t = Some (if IsTypeStart t = Some True then (t, LAST) else (LAST, t))"
  by (cases t) simp_all

lemma split_center_orientation:
  "split_center t = Some (s, e) \<Longrightarrow>
     ConstraintTypeToOrientation s = ConstraintTypeToOrientation t \<and>
     ConstraintTypeToOrientation e = ConstraintTypeToOrientation t \<and>
     IsRelationalAnchor s \<and> IsRelationalAnchor e"
  by (cases t) auto

section \<open>Printing and parsing\<close>

fun ConstraintTypeStr :: "constraint_type \<Rightarrow> string option" where
  "ConstraintTypeStr L2L = Some ''L2L''"
| "ConstraintTypeStr L2R = Some ''L2R''"
| "ConstraintTypeStr R2L = Some ''R2L''"
| "ConstraintTypeStr R2R = Some ''R2R''"
| "ConstraintTypeStr T2T = Some ''T2T''"
| "ConstraintTypeStr T2B = Some ''T2B''"
| "ConstraintTypeStr B2T = Some ''B2T''"
| "ConstraintTypeStr B2B = Some ''B2B''"
| "ConstraintTypeStr L2LxR2L = Some ''L2LxR2L''"
| "ConstraintTypeStr L2LxR2R = Some ''L2LxR2R''"
| "ConstraintTypeStr L2RxR2L = Some ''L2RxR2L''"
| "ConstraintTypeStr L2RxR2R = Some ''L2RxR2R''"
| "ConstraintTypeStr T2TxB2T = Some ''T2TxB2T''"
| "ConstraintTypeStr T2TxB2B = Some ''T2TxB2B''"
| "ConstraintTypeStr T2BxB2T = Some ''T2BxB2T''"
| "ConstraintTypeStr T2BxB2B = Some ''T2BxB2B''"
| "ConstraintTypeStr LAST = None"

text \<open>\<^verbatim>\<open>StrToConstraintType\<close> tries the enumerators below \<^verbatim>\<open>LAST\<close> in their order.\<close>

primrec str_to_ct :: "string \<Rightarrow> constraint_type list \<Rightarrow> constraint_type option" where
  "str_to_ct v [] = None"
| "str_to_ct v (t # ts) =
     do { s \<leftarrow> ConstraintTypeStr t; if s = v then Some t else str_to_ct v ts }"

definition StrToConstraintType :: "string \<Rightarrow> constraint_type option" where
  "StrToConstraintType v = str_to_ct v (take (ct_index LAST) ct_all)"

lemma ConstraintTypeStr_total: "t \<noteq> LAST \<longleftrightarrow> (\<exists>s. ConstraintTypeStr t = Some s)"
  by (cases t) simp_all

lemma StrToConstraintType_the: "t \<noteq> LAST \<Longrightarrow> StrToConstraintType (the (ConstraintTypeStr t)) = Some t"
  by (cases t) (simp_all add: StrToConstraintType_def ct_all_def)

lemma StrToConstraintType_ConstraintTypeStr:
  "ConstraintTypeStr t = Some s \<Longrightarrow> StrToConstraintType s = Some t"
  using StrToConstraintType_the [of t] ConstraintTypeStr_total [of t] by auto

interpretation ct_codec: codec ConstraintTypeStr StrToConstraintType "\<lambda>t. t \<noteq> LAST"
proof
  fix t :: constraint_type
  assume "t \<noteq> LAST"
  then obtain s where "ConstraintTypeStr t = Some s" by (auto simp: ConstraintTypeStr_total)
  then show "\<exists>s. ConstraintTypeStr t = Some s \<and> StrToConstraintType s = Some t"
    using StrToConstraintType_ConstraintTypeStr by blast
qed

lemma ConstraintTypeStr_no_underscore: "ConstraintTypeStr t = Some s \<Longrightarrow> CHR ''_'' \<notin> set s"
  by (cases t) auto

section \<open>Layout properties of a constraint\<close>

fun ct_attribute_name :: "constraint_type \<Rightarrow> name option" where
  "ct_attribute_name L2L = Some layout_constraintLeft_toLeftOf"
| "ct_attribute_name L2R = Some layout_constraintLeft_toRightOf"
| "ct_attribute_name R2L = Some layout_constraintRight_toLeftOf"
| "ct_attribute_name R2R = Some layout_constraintRight_toRightOf"
| "ct_attribute_name T2T = Some layout_constraintTop_toTopOf"
| "ct_attribute_name T2B = Some layout_constraintTop_toBottomOf"
| "ct_attribute_name B2T = Some layout_constraintBottom_toTopOf"
| "ct_attribute_name B2B = Some layout_constraintBottom_toBottomOf"
| "ct_attribute_name _ = None"

definition ConstraintTypeToAttribute :: "constraint_type \<Rightarrow> output_type \<Rightarrow> string option" where
  "ConstraintTypeToAttribute t ty = do { n \<leftarrow> ct_attribute_name t; constants_name n ty }"

fun ct_margin_name :: "constraint_type \<Rightarrow> name option" where
  "ct_margin_name L2L = Some layout_marginLeft"
| "ct_margin_name L2R = Some layout_marginLeft"
| "ct_margin_name R2L = Some layout_marginRight"
| "ct_margin_name R2R = Some layout_marginRight"
| "ct_margin_name T2T = Some layout_marginTop"
| "ct_margin_name T2B = Some layout_marginTop"
| "ct_margin_name B2T = Some layout_marginBottom"
| "ct_margin_name B2B = Some layout_marginBottom"
| "ct_margin_name _ = None"

definition ConstraintTypeToMargin :: "constraint_type \<Rightarrow> output_type \<Rightarrow> string option" where
  "ConstraintTypeToMargin t ty = do { n \<leftarrow> ct_margin_name t; constants_name n ty }"

text \<open>The overload of \<^verbatim>\<open>ConstraintTypeToMargin\<close> on property names.\<close>

definition ConstraintTypeToMargin_name :: "name \<Rightarrow> name option" where
  "ConstraintTypeToMargin_name n =
     (case n of
        layout_constraintLeft_toLeftOf \<Rightarrow> Some layout_marginLeft
      | layout_constraintLeft_toRightOf \<Rightarrow> Some layout_marginLeft
      | layout_constraintRight_toLeftOf \<Rightarrow> Some layout_marginRight
      | layout_constraintRight_toRightOf \<Rightarrow> Some layout_marginRight
      | layout_constraintTop_toTopOf \<Rightarrow> Some layout_marginTop
      | layout_constraintTop_toBottomOf \<Rightarrow> Some layout_marginTop
      | layout_constraintBottom_toTopOf \<Rightarrow> Some layout_marginBottom
      | layout_constraintBottom_toBottomOf \<Rightarrow> Some layout_marginBottom
      | NO_NAME \<Rightarrow> Some NO_NAME
      | _ \<Rightarrow> None)"

text \<open>\<^verbatim>\<open>AttrModel::ATTRIBUTE_TO_TYPE\<close>.\<close>

definition ATTRIBUTE_TO_TYPE :: "name \<Rightarrow> constraint_type option" where
  "ATTRIBUTE_TO_TYPE n =
     (case n of
        layout_below \<Rightarrow> Some T2B
      | layout_above \<Rightarrow> Some B2T
      | layout_toLeftOf \<Rightarrow> Some R2L
      | layout_toRightOf \<Rightarrow> Some L2R
      | layout_alignLeft \<Rightarrow> Some L2L
      | layout_alignRight \<Rightarrow> Some R2R
      | layout_alignTop \<Rightarrow> Some T2T
      | layout_alignBottom \<Rightarrow> Some B2B
      | layout_constraintTop_toBottomOf \<Rightarrow> Some T2B
      | layout_constraintBottom_toBottomOf \<Rightarrow> Some B2B
      | layout_constraintTop_toTopOf \<Rightarrow> Some T2T
      | layout_constraintBottom_toTopOf \<Rightarrow> Some B2T
      | layout_constraintLeft_toLeftOf \<Rightarrow> Some L2L
      | layout_constraintLeft_toRightOf \<Rightarrow> Some L2R
      | layout_constraintRight_toRightOf \<Rightarrow> Some R2R
      | layout_constraintRight_toLeftOf \<Rightarrow> Some R2L
      | _ \<Rightarrow> None)"

text \<open>
  Reading a layout and writing it agree: the property written for a relational constraint
  is read back as that constraint, and both know the same margin property.
\<close>

lemma attribute_name_roundtrip:
  "ct_attribute_name t = Some n \<Longrightarrow>
     ATTRIBUTE_TO_TYPE n = Some t \<and> ConstraintTypeToMargin_name n = ct_margin_name t"
  by (cases t) (auto simp: ATTRIBUTE_TO_TYPE_def ConstraintTypeToMargin_name_def)

lemma ct_attribute_name_relational: "(\<exists>n. ct_attribute_name t = Some n) \<longleftrightarrow> IsRelationalAnchor t"
  by (cases t) simp_all

lemma ConstraintTypeToAttribute_total: "IsRelationalAnchor t \<Longrightarrow> \<exists>s. ConstraintTypeToAttribute t ty = Some s"
  using ct_attribute_name_relational [of t] constants_name_total
  by (auto simp: ConstraintTypeToAttribute_def)

lemma constraint_layout_groups:
  "set CONSTRAINT_LAYOUT_CONSTRAINTS =
     set LEFT_CONSTRAINT_LAYOUT_CONSTRAINTS \<union> set RIGHT_CONSTRAINT_LAYOUT_CONSTRAINTS \<union>
     set TOP_CONSTRAINT_LAYOUT_CONSTRAINTS \<union> set BOTTOM_CONSTRAINT_LAYOUT_CONSTRAINTS"
  by (auto simp: CONSTRAINT_LAYOUT_CONSTRAINTS_def LEFT_CONSTRAINT_LAYOUT_CONSTRAINTS_def
      RIGHT_CONSTRAINT_LAYOUT_CONSTRAINTS_def TOP_CONSTRAINT_LAYOUT_CONSTRAINTS_def
      BOTTOM_CONSTRAINT_LAYOUT_CONSTRAINTS_def)

end
