(* ===== verification/Geometry.thy ===== *)
theory Geometry
  imports Prelude
begin

text \<open>
  \<^verbatim>\<open>src/inferui/base/geomutil.h\<close> and \<^verbatim>\<open>geomutil.cpp\<close>: the segment/rectangle tests and the
  closest points of two intervals, on which the features of the probabilistic model and the
  robustness constraints rest. The lemmas show that the interval functions return points of
  their intervals at minimal distance, that \<^verbatim>\<open>F\<close> cannot overflow on screen coordinates, and
  which crossings \<^verbatim>\<open>intersects\<close> detects.
\<close>

section \<open>Rectangles and segments\<close>

text \<open>The template parameter \<^verbatim>\<open>Rectangle\<close>: anything with the four borders of a view.\<close>

record rectangle =
  xleft :: int
  xright :: int
  ytop :: int
  ybottom :: int

record line_segment =
  seg_xleft :: int
  seg_xright :: int
  seg_ytop :: int
  seg_ybottom :: int

definition LineSegment :: "int \<Rightarrow> int \<Rightarrow> int \<Rightarrow> int \<Rightarrow> line_segment" where
  "LineSegment l t r b =
     \<lparr>seg_xleft = l, seg_xright = r, seg_ytop = t, seg_ybottom = b\<rparr>"

text \<open>\<^verbatim>\<open>F\<close>: the side of the line through \<open>(x1, y1)\<close> and \<open>(x2, y2)\<close> on which \<open>(x, y)\<close> lies.\<close>

definition line_F :: "int \<Rightarrow> int \<Rightarrow> int \<Rightarrow> int \<Rightarrow> int \<Rightarrow> int \<Rightarrow> int" where
  "line_F x y x1 x2 y1 y2 = (y2 - y1) * x + (x1 - x2) * y + (x2 * y1 - x1 * y2)"

definition swap_less :: "int \<Rightarrow> int \<Rightarrow> int \<times> int" where
  "swap_less a b = (if a > b then (b, a) else (a, b))"

definition corner_sides :: "int \<Rightarrow> int \<Rightarrow> int \<Rightarrow> int \<Rightarrow> ('a) rectangle_scheme \<Rightarrow> int list" where
  "corner_sides xl yt xr yb node =
     [line_F (xleft node) (ybottom node) xl xr yt yb,
      line_F (xleft node) (ytop node) xl xr yt yb,
      line_F (xright node) (ybottom node) xl xr yt yb,
      line_F (xright node) (ytop node) xl xr yt yb]"

definition intersects_loose :: "int \<Rightarrow> int \<Rightarrow> int \<Rightarrow> int \<Rightarrow> ('a) rectangle_scheme \<Rightarrow> bool" where
  "intersects_loose l t r b node =
     (let (xl, xr) = swap_less l r; (yt, yb) = swap_less t b in
      if xl \<ge> xright node \<and> xr \<ge> xright node then False
      else if xl \<le> xleft node \<and> xr \<le> xleft node then False
      else if yt \<le> ytop node \<and> yb \<le> ytop node then False
      else if yt \<ge> ybottom node \<and> yb \<ge> ybottom node then False
      else if ytop node \<le> yt \<and> ybottom node \<ge> yb \<and> xleft node \<le> xl \<and> xright node \<ge> xr then False
      else if list_all (\<lambda>i. i \<ge> 0) (corner_sides xl yt xr yb node) then False
      else if list_all (\<lambda>i. i \<le> 0) (corner_sides xl yt xr yb node) then False
      else True)"

definition intersects :: "int \<Rightarrow> int \<Rightarrow> int \<Rightarrow> int \<Rightarrow> ('a) rectangle_scheme \<Rightarrow> bool" where
  "intersects l t r b node =
     (let (xl, xr) = swap_less l r; (yt, yb) = swap_less t b in
      if xl > xright node \<and> xr > xright node then False
      else if xl < xleft node \<and> xr < xleft node then False
      else if yt < ytop node \<and> yb < ytop node then False
      else if yt > ybottom node \<and> yb > ybottom node then False
      else if ytop node < yt \<and> ybottom node > yb \<and> xleft node < xl \<and> xright node > xr then False
      else if list_all (\<lambda>i. i \<ge> 0) (corner_sides xl yt xr yb node) then False
      else if list_all (\<lambda>i. i \<le> 0) (corner_sides xl yt xr yb node) then False
      else True)"

definition seg_Intersects :: "line_segment \<Rightarrow> ('a) rectangle_scheme \<Rightarrow> bool" where
  "seg_Intersects s node = intersects (seg_xleft s) (seg_ytop s) (seg_xright s) (seg_ybottom s) node"

definition seg_IntersectsLoose :: "line_segment \<Rightarrow> ('a) rectangle_scheme \<Rightarrow> bool" where
  "seg_IntersectsLoose s node =
     intersects_loose (seg_xleft s) (seg_ytop s) (seg_xright s) (seg_ybottom s) node"

text \<open>
  \<^verbatim>\<open>std::atan2\<close> over the reals; \<^verbatim>\<open>GetAngle\<close> returns \<^verbatim>\<open>NAN\<close> (here \<open>None\<close>) for a single point.
\<close>

definition atan2 :: "real \<Rightarrow> real \<Rightarrow> real" where
  "atan2 y x =
     (if x > 0 then arctan (y / x)
      else if x < 0 then (if y \<ge> 0 then arctan (y / x) + pi else arctan (y / x) - pi)
      else if y > 0 then pi / 2 else if y < 0 then - (pi / 2) else 0)"

definition seg_GetAngle :: "line_segment \<Rightarrow> real option" where
  "seg_GetAngle s =
     (let xdelta = real_of_int (seg_xright s - seg_xleft s);
          ydelta = real_of_int (seg_ybottom s - seg_ytop s)
      in if xdelta = 0 \<and> ydelta = 0 then None else Some (atan2 ydelta xdelta * (180 / pi)))"

definition seg_Length :: "line_segment \<Rightarrow> real" where
  "seg_Length s =
     (let xdelta = real_of_int (seg_xright s - seg_xleft s);
          ydelta = real_of_int (seg_ybottom s - seg_ytop s)
      in sqrt (xdelta * xdelta + ydelta * ydelta))"

section \<open>Closest points of two intervals\<close>

definition ClosestPointIntersection :: "int \<Rightarrow> int \<Rightarrow> int \<Rightarrow> int \<Rightarrow> int \<times> int" where
  "ClosestPointIntersection xl xr yl yr =
     (if xr < yl then (xr, yl)
      else if yr < xl then (xl, yr)
      else let l = max xl yl; r = min xr yr
           in ((l + r) sdiv 2, (l + r) sdiv 2))"

definition ClosestPoint :: "int \<Rightarrow> int \<Rightarrow> int \<Rightarrow> int \<Rightarrow> (int \<times> int) option" where
  "ClosestPoint xl xr yl yr =
     (if xr < yl then Some (xr, yl)
      else if yr < xl then Some (xl, yr)
      else if xl \<le> yl \<and> yl \<le> xr then Some (yl, yl)
      else do { CHECK (yl \<le> xl \<and> xl \<le> yr); Some (xl, xl) })"

lemma sdiv_two: "(a::int) sdiv 2 = (if 0 \<le> a then a div 2 else - ((- a) div 2))"
  by (cases "a = 0") (auto simp: signed_divide_int_def sgn_if)

text \<open>
  \<^verbatim>\<open>ClosestPoint\<close> returns, for two non-empty intervals, one point of each at minimal distance;
  its \<^verbatim>\<open>CHECK\<close> never fails there.
\<close>

theorem ClosestPoint_closest:
  assumes "xl \<le> xr" and "yl \<le> yr"
  shows "\<exists>a b. ClosestPoint xl xr yl yr = Some (a, b) \<and> a \<in> {xl..xr} \<and> b \<in> {yl..yr} \<and>
           (\<forall>p \<in> {xl..xr}. \<forall>q \<in> {yl..yr}. \<bar>a - b\<bar> \<le> \<bar>p - q\<bar>)"
proof -
  consider "xr < yl" | "\<not> xr < yl" "yr < xl" | "\<not> xr < yl" "\<not> yr < xl" "xl \<le> yl"
    | "\<not> xr < yl" "\<not> yr < xl" "\<not> xl \<le> yl" by blast
  then show ?thesis
    using assms by cases (auto simp: ClosestPoint_def)
qed

lemma ClosestPoint_closest_witness:
  "\<exists>a b. ClosestPoint 0 10 4 6 = Some (a, b) \<and> a \<in> {0..10} \<and> b \<in> {4..6} \<and> \<bar>a - b\<bar> \<le> \<bar>5 - 5\<bar>"
  using ClosestPoint_closest [of 0 10 4 6] by fastforce

text \<open>
  \<^verbatim>\<open>ClosestPointIntersection\<close> returns, for two non-empty intervals, one point of each at
  minimal distance (the middle of the common part when they overlap).
\<close>

theorem ClosestPointIntersection_closest:
  assumes "xl \<le> xr" and "yl \<le> yr"
  shows "fst (ClosestPointIntersection xl xr yl yr) \<in> {xl..xr} \<and>
         snd (ClosestPointIntersection xl xr yl yr) \<in> {yl..yr} \<and>
         (\<forall>p \<in> {xl..xr}. \<forall>q \<in> {yl..yr}.
            \<bar>fst (ClosestPointIntersection xl xr yl yr) - snd (ClosestPointIntersection xl xr yl yr)\<bar> \<le> \<bar>p - q\<bar>)"
proof -
  have mid: "l \<le> (l + r) sdiv 2 \<and> (l + r) sdiv 2 \<le> r" if "l \<le> r" for l r :: int
    using that by (simp add: sdiv_two) linarith
  consider "xr < yl" | "\<not> xr < yl" "yr < xl" | "\<not> xr < yl" "\<not> yr < xl" by blast
  then show ?thesis
  proof cases
    case 3
    then have "max xl yl \<le> min xr yr" using assms by auto
    from mid [OF this] 3 show ?thesis by (auto simp: ClosestPointIntersection_def Let_def)
  qed (use assms in \<open>auto simp: ClosestPointIntersection_def\<close>)
qed

lemma ClosestPointIntersection_closest_witness:
  "\<bar>fst (ClosestPointIntersection 0 10 4 6) - snd (ClosestPointIntersection 0 10 4 6)\<bar> \<le> \<bar>5 - 5\<bar>"
proof -
  have "(5::int) \<in> {0..10}" "(5::int) \<in> {4..6}" by simp_all
  moreover have "(0::int) \<le> 10" "(4::int) \<le> 6" by simp_all
  ultimately show ?thesis using ClosestPointIntersection_closest [of 0 10 4 6] by blast
qed

section \<open>The line test\<close>

lemma abs_mult_bound: "\<bar>a\<bar> \<le> m \<Longrightarrow> \<bar>b\<bar> \<le> n \<Longrightarrow> \<bar>a * b\<bar> \<le> m * (n::int)"
  by (simp add: abs_mult mult_mono')

text \<open>
  Coordinates of at most 14 bits keep every intermediate value of \<^verbatim>\<open>F\<close> in 32 bits.
\<close>

theorem line_F_no_overflow:
  assumes "\<bar>x\<bar> \<le> 16384" "\<bar>y\<bar> \<le> 16384" "\<bar>x1\<bar> \<le> 16384" "\<bar>x2\<bar> \<le> 16384" "\<bar>y1\<bar> \<le> 16384" "\<bar>y2\<bar> \<le> 16384"
  shows "int32 ((y2 - y1) * x) \<and> int32 ((x1 - x2) * y) \<and> int32 ((y2 - y1) * x + (x1 - x2) * y) \<and>
         int32 (x2 * y1) \<and> int32 (x1 * y2) \<and> int32 (x2 * y1 - x1 * y2) \<and> int32 (line_F x y x1 x2 y1 y2)"
proof -
  have "\<bar>(y2 - y1) * x\<bar> \<le> 32768 * 16384" "\<bar>(x1 - x2) * y\<bar> \<le> 32768 * 16384"
    "\<bar>x2 * y1\<bar> \<le> 16384 * 16384" "\<bar>x1 * y2\<bar> \<le> 16384 * 16384"
    by (rule abs_mult_bound; use assms in arith)+
  then show ?thesis unfolding int32_def line_F_def abs_le_iff by simp
qed

lemma line_F_no_overflow_witness:
  "int32 ((720 - 10) * 5) \<and> int32 ((3 - 9) * 7) \<and> int32 ((720 - 10) * 5 + (3 - 9) * 7) \<and>
   int32 (9 * 10) \<and> int32 (3 * 720) \<and> int32 (9 * 10 - 3 * 720) \<and> int32 (line_F 5 7 3 9 10 720)"
  by (rule line_F_no_overflow) simp_all

lemma line_F_on_segment:
  "real_of_int (y2 - y1) * (real_of_int x1 + t * real_of_int (x2 - x1)) +
   real_of_int (x1 - x2) * (real_of_int y1 + t * real_of_int (y2 - y1)) +
   real_of_int (x2 * y1 - x1 * y2) = 0"
  by (simp add: algebra_simps)

text \<open>
  A point strictly inside the rectangle on a line \<open>A x + B y + C = 0\<close> with \<open>A \<ge> 0 \<ge> B\<close>
  forces two opposite corners strictly onto different sides, unless \<open>A = B = 0\<close>.
\<close>

lemma corner_signs:
  fixes A B C px py l r u d :: real
  assumes p: "A * px + B * py + C = 0" and AB: "A \<ge> 0" "B \<le> 0"
    and "l < px" "px < r" "u < py" "py < d"
  shows "A * l + B * d + C \<le> 0" "A * r + B * u + C \<ge> 0"
    and "A * l + B * d + C = 0 \<Longrightarrow> A = 0 \<and> B = 0"
    and "A * r + B * u + C = 0 \<Longrightarrow> A = 0 \<and> B = 0"
proof -
  have 1: "A * l + B * d + C = - (A * (px - l)) + B * (d - py)"
    and 2: "A * r + B * u + C = A * (r - px) + (- B) * (py - u)"
    using p by (simp_all add: algebra_simps)
  have nn: "A * (px - l) \<ge> 0" "B * (d - py) \<le> 0" "A * (r - px) \<ge> 0" "(- B) * (py - u) \<ge> 0"
    using assms by (simp_all add: mult_nonpos_nonneg)
  from 1 nn show "A * l + B * d + C \<le> 0" by linarith
  from 2 nn show "A * r + B * u + C \<ge> 0" by linarith
  show "A = 0 \<and> B = 0" if "A * l + B * d + C = 0"
  proof -
    from that 1 nn have "A * (px - l) = 0" "B * (d - py) = 0" by linarith+
    with assms show ?thesis by simp
  qed
  show "A = 0 \<and> B = 0" if "A * r + B * u + C = 0"
  proof -
    from that 2 nn have "A * (r - px) = 0" "(- B) * (py - u) = 0" by linarith+
    with assms show ?thesis by simp
  qed
qed

text \<open>
  \<^verbatim>\<open>intersects\<close> reports every rising segment (both coordinates non-decreasing) that passes
  through the interior of the rectangle and is not contained in it.
\<close>

theorem intersects_detects_crossing:
  fixes x1 y1 x2 y2 :: int and t :: real
  defines "px \<equiv> real_of_int x1 + t * real_of_int (x2 - x1)"
    and "py \<equiv> real_of_int y1 + t * real_of_int (y2 - y1)"
  assumes dir: "x1 \<le> x2" "y1 \<le> y2" and t: "0 \<le> t" "t \<le> 1"
    and px: "real_of_int (xleft n) < px" "px < real_of_int (xright n)"
    and py: "real_of_int (ytop n) < py" "py < real_of_int (ybottom n)"
    and out: "\<not> (ytop n < y1 \<and> y2 < ybottom n \<and> xleft n < x1 \<and> x2 < xright n)"
  shows "intersects x1 y1 x2 y2 n"
proof -
  define A B C where "A = real_of_int (y2 - y1)" and "B = real_of_int (x1 - x2)"
    and "C = real_of_int (x2 * y1 - x1 * y2)"
  have line: "A * px + B * py + C = 0"
    using line_F_on_segment [of y2 y1 x1 t x2] by (simp add: A_def B_def C_def px_def py_def)
  have AB: "A \<ge> 0" "B \<le> 0" using dir by (simp_all add: A_def B_def)
  have F: "real_of_int (line_F a b x1 x2 y1 y2) = A * real_of_int a + B * real_of_int b + C" for a b
    by (simp add: line_F_def A_def B_def C_def)
  have deg: "\<not> (A = 0 \<and> B = 0)"
  proof
    assume "A = 0 \<and> B = 0"
    then have "x1 = x2" "y1 = y2" by (simp_all add: A_def B_def)
    with px py out show False by (simp add: px_def py_def)
  qed
  note cs = corner_signs [OF line AB px py]
  have neg: "line_F (xleft n) (ybottom n) x1 x2 y1 y2 < 0"
  proof -
    have "real_of_int (line_F (xleft n) (ybottom n) x1 x2 y1 y2) < 0"
      unfolding F using cs(1,3) deg by fastforce
    then show ?thesis by simp
  qed
  have pos: "line_F (xright n) (ytop n) x1 x2 y1 y2 > 0"
  proof -
    have "real_of_int (line_F (xright n) (ytop n) x1 x2 y1 y2) > 0"
      unfolding F using cs(2,4) deg by fastforce
    then show ?thesis by simp
  qed
  have tx: "0 \<le> t * real_of_int (x2 - x1)" "t * real_of_int (x2 - x1) \<le> real_of_int (x2 - x1)"
    and ty: "0 \<le> t * real_of_int (y2 - y1)" "t * real_of_int (y2 - y1) \<le> real_of_int (y2 - y1)"
    using t dir by (simp_all add: mult_left_le_one_le)
  have "real_of_int (xleft n) < real_of_int x2" "real_of_int x1 < real_of_int (xright n)"
    "real_of_int (ytop n) < real_of_int y2" "real_of_int y1 < real_of_int (ybottom n)"
    using px py tx ty unfolding px_def py_def by linarith+
  then have sep: "xleft n < x2" "x1 < xright n" "ytop n < y2" "y1 < ybottom n" by simp_all
  have sw: "swap_less x1 x2 = (x1, x2)" "swap_less y1 y2 = (y1, y2)"
    using dir by (simp_all add: swap_less_def)
  show ?thesis
    unfolding intersects_def sw Let_def prod.case
    using sep neg pos out by (auto simp: corner_sides_def)
qed

lemma intersects_detects_crossing_witness:
  "intersects 0 0 10 10 \<lparr>xleft = 3, xright = 7, ytop = 3, ybottom = 7\<rparr>"
  by (rule intersects_detects_crossing [of 0 10 0 10 "1 / 2"]) simp_all

text \<open>
  The two swaps forget the direction of the segment: a falling segment is tested as the
  rising one with the same bounding box. Such a segment is missed or reported wrongly.
\<close>

lemma swap_less_commute: "swap_less a b = swap_less b a"
  by (simp add: swap_less_def)

lemma intersects_forgets_direction:
  "intersects x1 y1 x2 y2 n = intersects x1 y2 x2 y1 n"
  by (simp add: intersects_def swap_less_commute [of y1])

lemma intersects_misses_falling_segment:
  "\<not> intersects 0 10 10 0 \<lparr>xleft = 0, xright = 4, ytop = 6, ybottom = 10\<rparr> \<and>
     intersects 0 10 10 0 \<lparr>xleft = 0, xright = 4, ytop = -1, ybottom = 3\<rparr>"
  by (simp add: intersects_def swap_less_def corner_sides_def line_F_def)

end
