(* ===== verification/Text_Formats.thy ===== *)
theory Text_Formats
  imports Constraint_Types
begin

text \<open>
  The textual formats of the program: the separator escaping and splitting of
  \<^verbatim>\<open>src/inferui/base/strutil.cpp\<close> and the class \<^verbatim>\<open>ValueParser\<close> of
  \<^verbatim>\<open>src/inferui/inferui/model/util/util.cpp\<close>, whose patterns run on the part of
  \<^verbatim>\<open>std::regex\<close> the program uses: character classes, greedy repetition of a class, optional
  parts, capturing groups and the two anchors. The lemmas give the round trips of the formats
  the program prints and reads back.
\<close>

section \<open>Regular expressions\<close>

text \<open>
  A matcher state: characters consumed so far, captured groups (latest first), rest of the
  text. \<open>rx_match\<close> lists every way to match, in the order in which the backtracking of
  ECMAScript tries them; \<open>regex_search\<close> takes the first match at the leftmost position.
\<close>

datatype rx =
    RClass "char \<Rightarrow> bool"
  | RStar "char \<Rightarrow> bool"
  | RSeq rx rx
  | ROpt rx
  | RGroup nat rx
  | RBegin
  | REnd

type_synonym rx_state = "nat \<times> (nat \<times> string) list \<times> string"

fun star_match :: "(char \<Rightarrow> bool) \<Rightarrow> nat \<Rightarrow> string \<Rightarrow> (nat \<times> string) list" where
  "star_match P n [] = [(n, [])]"
| "star_match P n (c # cs) = (if P c then star_match P (Suc n) cs @ [(n, c # cs)] else [(n, c # cs)])"

fun rx_match :: "rx \<Rightarrow> rx_state \<Rightarrow> rx_state list" where
  "rx_match (RClass P) (n, g, s) =
     (case s of [] \<Rightarrow> [] | c # cs \<Rightarrow> if P c then [(Suc n, g, cs)] else [])"
| "rx_match (RStar P) (n, g, s) = map (\<lambda>(m, r). (m, g, r)) (star_match P n s)"
| "rx_match (RSeq a b) st = concat (map (rx_match b) (rx_match a st))"
| "rx_match (ROpt a) st = rx_match a st @ [st]"
| "rx_match (RGroup i a) (n, g, s) =
     map (\<lambda>(m, g', r). (m, (i, take (length s - length r) s) # g', r)) (rx_match a (n, g, s))"
| "rx_match RBegin (n, g, s) = (if n = 0 then [(n, g, s)] else [])"
| "rx_match REnd (n, g, s) = (if s = [] then [(n, g, s)] else [])"

fun search_from :: "rx \<Rightarrow> nat \<Rightarrow> string \<Rightarrow> (nat \<times> string) list option" where
  "search_from r n s =
     (case rx_match r (n, [], s) of
        (_, g, _) # _ \<Rightarrow> Some g
      | [] \<Rightarrow> (case s of [] \<Rightarrow> None | c # cs \<Rightarrow> search_from r (Suc n) cs))"

declare search_from.simps [simp del]

definition regex_search :: "rx \<Rightarrow> string \<Rightarrow> (nat \<Rightarrow> string option) option" where
  "regex_search r s = map_option map_of (search_from r 0 s)"

text \<open>Derived forms.\<close>

definition RPlus :: "(char \<Rightarrow> bool) \<Rightarrow> rx" where
  "RPlus P = RSeq (RClass P) (RStar P)"

definition RChar :: "char \<Rightarrow> rx" where
  "RChar c = RClass (\<lambda>x. x = c)"

primrec RCat :: "rx list \<Rightarrow> rx" where
  "RCat [] = ROpt (RClass (\<lambda>_. False))"
| "RCat (r # rs) = (if rs = [] then r else RSeq r (RCat rs))"

definition RText :: "string \<Rightarrow> rx" where
  "RText s = RCat (map RChar s)"

definition any_char :: "char \<Rightarrow> bool" where
  "any_char c \<longleftrightarrow> c \<noteq> CHR 0x0A \<and> c \<noteq> CHR 0x0D"

definition sd_char :: "char \<Rightarrow> bool" where
  "sd_char c \<longleftrightarrow> c = CHR ''s'' \<or> c = CHR ''d''"

text \<open>How the first alternative of a match composes.\<close>

definition rx_first :: "rx \<Rightarrow> rx_state \<Rightarrow> rx_state \<Rightarrow> bool" where
  "rx_first r st st' \<longleftrightarrow> (\<exists>more. rx_match r st = st' # more)"

lemma rx_first_seq: "rx_first a st st1 \<Longrightarrow> rx_first b st1 st2 \<Longrightarrow> rx_first (RSeq a b) st st2"
  by (auto simp: rx_first_def)

lemma rx_first_class: "P c \<Longrightarrow> rx_first (RClass P) (n, g, c # s) (Suc n, g, s)"
  by (simp add: rx_first_def)

lemma rx_first_char: "rx_first (RChar c) (n, g, c # s) (Suc n, g, s)"
  by (simp add: RChar_def rx_first_class)

lemma star_match_first:
  "(\<forall>c \<in> set xs. P c) \<Longrightarrow> (case s of [] \<Rightarrow> True | c # cs \<Rightarrow> \<not> P c) \<Longrightarrow>
     \<exists>more. star_match P n (xs @ s) = (n + length xs, s) # more"
proof (induction xs arbitrary: n)
  case Nil
  then show ?case by (cases s) auto
next
  case (Cons x xs)
  then obtain more where "star_match P (Suc n) (xs @ s) = (Suc n + length xs, s) # more"
    by fastforce
  with Cons.prems show ?case by simp
qed

lemma rx_first_star:
  "(\<forall>c \<in> set xs. P c) \<Longrightarrow> (case s of [] \<Rightarrow> True | c # cs \<Rightarrow> \<not> P c) \<Longrightarrow>
     rx_first (RStar P) (n, g, xs @ s) (n + length xs, g, s)"
  using star_match_first [of xs P s n] by (auto simp: rx_first_def)

lemma rx_first_plus:
  assumes "xs \<noteq> []" "\<forall>c \<in> set xs. P c" "case s of [] \<Rightarrow> True | c # cs \<Rightarrow> \<not> P c"
  shows "rx_first (RPlus P) (n, g, xs @ s) (n + length xs, g, s)"
proof -
  obtain y ys where xs: "xs = y # ys" using assms(1) by (cases xs) auto
  have "rx_first (RClass P) (n, g, xs @ s) (Suc n, g, ys @ s)"
    using assms(2) by (simp add: xs rx_first_class)
  moreover have "rx_first (RStar P) (Suc n, g, ys @ s) (Suc n + length ys, g, s)"
    using assms(2,3) by (intro rx_first_star) (simp_all add: xs)
  ultimately have "rx_first (RSeq (RClass P) (RStar P)) (n, g, xs @ s) (Suc n + length ys, g, s)"
    by (rule rx_first_seq)
  then show ?thesis by (simp add: RPlus_def xs)
qed

lemma rx_first_group:
  "rx_first r (n, g, xs @ s) (m, g', s) \<Longrightarrow> rx_first (RGroup i r) (n, g, xs @ s) (m, (i, xs) # g', s)"
  by (auto simp: rx_first_def)

lemma rx_first_opt: "rx_first r st st' \<Longrightarrow> rx_first (ROpt r) st st'"
  by (auto simp: rx_first_def)

lemma rx_first_opt_none: "rx_match r st = [] \<Longrightarrow> rx_first (ROpt r) st st"
  by (auto simp: rx_first_def)

lemma rx_first_end: "rx_first REnd (n, g, []) (n, g, [])"
  by (simp add: rx_first_def)

lemma rx_first_begin: "rx_first RBegin (0, g, s) (0, g, s)"
  by (simp add: rx_first_def)

lemma regex_search_first: "rx_first r (0, [], s) (n, g, s') \<Longrightarrow> regex_search r s = Some (map_of g)"
  by (auto simp: rx_first_def regex_search_def search_from.simps [of r 0 s])

lemma rx_first_cat:
  "rx_first r st st1 \<Longrightarrow> rs \<noteq> [] \<Longrightarrow> rx_first (RCat rs) st1 st2 \<Longrightarrow> rx_first (RCat (r # rs)) st st2"
  by (simp add: rx_first_seq)

lemma rx_first_text: "xs \<noteq> [] \<Longrightarrow> rx_first (RText xs) (n, g, xs @ s) (n + length xs, g, s)"
proof (induction xs arbitrary: n)
  case (Cons x xs)
  show ?case
  proof (cases "xs = []")
    case True
    then show ?thesis using rx_first_char [of x n g s] by (simp add: RText_def)
  next
    case False
    have "rx_first (RText xs) (Suc n, g, xs @ s) (Suc n + length xs, g, s)"
      by (rule Cons.IH [OF False])
    with rx_first_char [of x n g "xs @ s"] False show ?thesis
      by (simp add: RText_def rx_first_seq)
  qed
qed simp

section \<open>Floating-point texts\<close>

text \<open>
  \<^verbatim>\<open>ParseFloat\<close>: \<^verbatim>\<open>strtof\<close> on a text that is consumed completely. Decimal numbers with an
  optional exponent; the hexadecimal, infinity and NaN forms of \<^verbatim>\<open>strtof\<close> count as not
  parsable here.
\<close>

definition dec_value :: "string \<Rightarrow> real option" where
  "dec_value ds = (if ds = [] then Some 0 else map_option real (digits_value 10 0 ds))"

definition exp_factor :: "string \<Rightarrow> real option" where
  "exp_factor s =
     (case s of
        [] \<Rightarrow> Some 1
      | e # r \<Rightarrow>
          if e = CHR ''e'' \<or> e = CHR ''E'' then
            (let neg = (r \<noteq> [] \<and> hd r = CHR ''-'');
                 ds = (if r \<noteq> [] \<and> (hd r = CHR ''-'' \<or> hd r = CHR ''+'') then tl r else r)
             in if ds = [] then None
                else map_option (\<lambda>k. if neg then 1 / 10 ^ k else 10 ^ k) (digits_value 10 0 ds))
          else None)"

definition strtof_unsigned :: "string \<Rightarrow> real option" where
  "strtof_unsigned s =
     (let ip = takeWhile is_digit s; r = dropWhile is_digit s;
          dot = (r \<noteq> [] \<and> hd r = CHR ''.'');
          fp = (if dot then takeWhile is_digit (tl r) else []);
          r' = (if dot then dropWhile is_digit (tl r) else r)
      in if ip = [] \<and> fp = [] then None
         else do {
           i \<leftarrow> dec_value ip; f \<leftarrow> dec_value fp; e \<leftarrow> exp_factor r';
           Some ((i + f / 10 ^ length fp) * e) })"

definition ParseFloat :: "string \<Rightarrow> real option" where
  "ParseFloat s =
     (case dropWhile is_space s of
        [] \<Rightarrow> None
      | c # cs \<Rightarrow>
          if c = CHR ''-'' then map_option uminus (strtof_unsigned cs)
          else if c = CHR ''+'' then strtof_unsigned cs
          else strtof_unsigned (c # cs))"

section \<open>ValueParser\<close>

definition value_regex :: "rx list" where
  "value_regex =
     [RSeq (RGroup 1 (RCat [ROpt (RChar CHR ''-''), RPlus is_digit, ROpt (RChar CHR ''.''), RStar is_digit]))
        (RCat [RClass sd_char, ROpt (RChar CHR ''i''), RChar CHR ''p'']),
      RSeq (RGroup 1 (RPlus is_digit))
        (RCat [ROpt (RChar CHR ''_''), RClass sd_char, RChar CHR ''p'']),
      RCat [RClass sd_char, RChar CHR ''p'', ROpt (RChar CHR ''_''), RGroup 1 (RPlus is_digit)],
      RCat [RBegin, RGroup 1 (RPlus is_digit), REnd]]"

definition id_regex :: rx where
  "id_regex =
     RCat [ROpt (RChar CHR 0x22), RChar CHR ''@'', ROpt (RChar CHR ''+''),
           RGroup 1 (RStar any_char), ROpt (RChar CHR 0x22)]"

definition view_id_regex :: rx where
  "view_id_regex = RSeq (RText ''@+id/view'') (RGroup 1 (RPlus is_digit))"

definition px_regex :: rx where
  "px_regex = RCat [RBegin, RGroup 1 (RPlus is_digit), RText ''px'', REnd]"

definition group1 :: "(nat \<Rightarrow> string option) \<Rightarrow> string" where
  "group1 g = (case g 1 of Some s \<Rightarrow> s | None \<Rightarrow> [])"

definition hasValue :: "string \<Rightarrow> bool" where
  "hasValue inp \<longleftrightarrow> list_ex (\<lambda>r. regex_search r inp \<noteq> None) value_regex"

text \<open>
  \<^verbatim>\<open>parseValue\<close>: a capture that does not parse would leave the result uninitialised (\<open>None\<close>).
\<close>

primrec parse_value_with :: "rx list \<Rightarrow> string \<Rightarrow> real option" where
  "parse_value_with [] inp = Some 0"
| "parse_value_with (r # rs) inp =
     (case regex_search r inp of
        Some g \<Rightarrow> ParseFloat (group1 g)
      | None \<Rightarrow> parse_value_with rs inp)"

definition parseValue :: "string \<Rightarrow> real option" where
  "parseValue inp = parse_value_with value_regex inp"

definition hasPxValue :: "string \<Rightarrow> bool" where
  "hasPxValue inp \<longleftrightarrow> regex_search px_regex inp \<noteq> None"

definition parsePxValue :: "string \<Rightarrow> int option" where
  "parsePxValue inp =
     (case regex_search px_regex inp of
        Some g \<Rightarrow> ParseInt32 (group1 g)
      | None \<Rightarrow> Some 0)"

definition parseID :: "string \<Rightarrow> string" where
  "parseID inp = (case regex_search id_regex inp of Some g \<Rightarrow> group1 g | None \<Rightarrow> [])"

definition parseViewSeqID :: "string \<Rightarrow> int option" where
  "parseViewSeqID inp =
     (case regex_search view_id_regex inp of
        Some g \<Rightarrow> ParseInt32 (group1 g)
      | None \<Rightarrow> None)"

text \<open>\<^verbatim>\<open>StringPrintf("@+id/view%d", id)\<close>, the identifier written for a view.\<close>

definition view_id_string :: "int \<Rightarrow> string" where
  "view_id_string i = (if i = 0 then ''parent'' else ''@+id/view'' @ show_int i)"

text \<open>Printed identifiers and pixel values, and their captures.\<close>

lemma show_nat_digit_list: "\<forall>c \<in> set (show_nat n). is_digit c"
  using show_nat_digits by blast

lemma view_id_search:
  "regex_search view_id_regex (''@+id/view'' @ show_nat n) = Some (map_of [(1, show_nat n)])"
proof -
  have "rx_first (RText ''@+id/view'') (0, [], ''@+id/view'' @ show_nat n) (9, [], show_nat n @ [])"
    using rx_first_text [of "''@+id/view''" 0 "[]" "show_nat n"] by (simp add: eval_nat_numeral)
  moreover have "rx_first (RGroup 1 (RPlus is_digit)) (9, [], show_nat n @ [])
      (9 + length (show_nat n), [(1, show_nat n)], [])"
    by (rule rx_first_group, rule rx_first_plus) (simp_all add: show_nat_digit_list)
  ultimately have "rx_first view_id_regex (0, [], ''@+id/view'' @ show_nat n)
      (9 + length (show_nat n), [(1, show_nat n)], [])"
    unfolding view_id_regex_def by (rule rx_first_seq)
  then show ?thesis by (rule regex_search_first)
qed

lemma px_search: "regex_search px_regex (show_nat n @ ''px'') = Some (map_of [(1, show_nat n)])"
proof -
  let ?k = "length (show_nat n)"
  have "rx_first RBegin (0, [], show_nat n @ ''px'') (0, [], show_nat n @ ''px'')"
    by (rule rx_first_begin)
  moreover have "rx_first (RGroup 1 (RPlus is_digit)) (0, [], show_nat n @ ''px'')
      (0 + ?k, [(1, show_nat n)], ''px'')"
    by (rule rx_first_group, rule rx_first_plus) (simp_all add: show_nat_digit_list, simp add: is_digit_def)
  moreover have "rx_first (RText ''px'') (0 + ?k, [(1, show_nat n)], ''px'')
      (0 + ?k + 2, [(1, show_nat n)], [])"
    using rx_first_text [of "''px''" "0 + ?k" "[(1, show_nat n)]" "[]"] by simp
  moreover have "rx_first (RCat [REnd]) (0 + ?k + 2, [(1, show_nat n)], [])
      (0 + ?k + 2, [(1, show_nat n)], [])"
    by (simp add: rx_first_end)
  ultimately have "rx_first px_regex (0, [], show_nat n @ ''px'') (0 + ?k + 2, [(1, show_nat n)], [])"
    unfolding px_regex_def by (blast intro: rx_first_cat list.distinct)
  then show ?thesis by (rule regex_search_first)
qed

text \<open>
  The identifiers and sizes written into a layout are read back, for the values that can be
  printed without a sign.
\<close>

interpretation view_id_codec: codec "\<lambda>i. Some (view_id_string i)" parseViewSeqID "\<lambda>i. int32 i \<and> 0 < i"
proof
  fix i :: int assume a: "int32 i \<and> 0 < i"
  then have "view_id_string i = ''@+id/view'' @ show_nat (nat i)"
    by (simp add: view_id_string_def show_int_def)
  moreover have "ParseInt32 (show_nat (nat i)) = Some i"
    using a ParseInt32_show_nat [of "nat i"] by (simp add: int32_def nat_less_iff)
  ultimately have "parseViewSeqID (view_id_string i) = Some i"
    unfolding parseViewSeqID_def by (simp only: view_id_search) (simp add: group1_def)
  then show "\<exists>s. Some (view_id_string i) = Some s \<and> parseViewSeqID s = Some i" by simp
qed

interpretation px_codec: codec "\<lambda>i. Some (px_string i)" parsePxValue "\<lambda>i. int32 i \<and> 0 \<le> i"
proof
  fix i :: int assume a: "int32 i \<and> 0 \<le> i"
  then have "px_string i = show_nat (nat i) @ ''px''"
    by (simp add: px_string_def show_int_def)
  moreover have "ParseInt32 (show_nat (nat i)) = Some i"
    using a ParseInt32_show_nat [of "nat i"] by (simp add: int32_def nat_less_iff)
  ultimately have "parsePxValue (px_string i) = Some i"
    unfolding parsePxValue_def by (simp only: px_search) (simp add: group1_def)
  then show "\<exists>s. Some (px_string i) = Some s \<and> parsePxValue s = Some i" by simp
qed

text \<open>
  The identifier of a view determines the view: what \<^verbatim>\<open>View\<close> writes, \<^verbatim>\<open>parseViewSeqID\<close>
  reads back, and two views with different sequence numbers never share an identifier.
\<close>

theorem view_id_roundtrip:
  assumes "int32 i" "0 < i"
  shows "parseViewSeqID (view_id_string i) = Some i \<and>
    (\<forall>j. int32 j \<longrightarrow> 0 < j \<longrightarrow> view_id_string i = view_id_string j \<longrightarrow> i = j)"
  using assms view_id_codec.dec_printed view_id_codec.enc_injective by blast

lemma view_id_roundtrip_witness: "parseViewSeqID (view_id_string 42) = Some 42"
  using view_id_roundtrip [of 42] by (simp add: int32_def)

section \<open>Separators\<close>

definition escape_table :: "(char \<times> char) list" where
  "escape_table =
     [(CHR '','', CHR ''c''), (CHR '' '', CHR ''s''), (CHR 0x0A, CHR ''n''), (CHR 0x09, CHR ''t''),
      (CHR 0x0D, CHR ''r''), (CHR 0x5C, CHR 0x5C), (CHR ''+'', CHR ''p''), (CHR ''-'', CHR ''m''),
      (CHR ''='', CHR ''e''), (CHR ''|'', CHR ''o''), (CHR ''&'', CHR ''a''), (CHR ''@'', CHR ''x''),
      (CHR '':'', CHR ''f''), (CHR '';'', CHR ''b''), (CHR 0x22, CHR ''d''), (CHR 0x27, CHR ''q''),
      (CHR ''_'', CHR ''u'')]"

definition unescape_table :: "(char \<times> char) list" where
  "unescape_table =
     [(CHR ''c'', CHR '',''), (CHR ''s'', CHR '' ''), (CHR ''n'', CHR 0x0A), (CHR ''t'', CHR 0x09),
      (CHR ''r'', CHR 0x0D), (CHR 0x5C, CHR 0x5C), (CHR ''p'', CHR ''+''), (CHR ''m'', CHR ''-''),
      (CHR ''e'', CHR ''=''), (CHR ''o'', CHR ''|''), (CHR ''a'', CHR ''&''), (CHR ''x'', CHR ''@''),
      (CHR ''f'', CHR '':''), (CHR ''b'', CHR '';''), (CHR ''d'', CHR 0x22), (CHR ''q'', CHR 0x27),
      (CHR ''u'', CHR ''_'')]"

primrec EscapeStrSeparators :: "string \<Rightarrow> string" where
  "EscapeStrSeparators [] = []"
| "EscapeStrSeparators (c # cs) =
     (case map_of escape_table c of
        Some e \<Rightarrow> CHR 0x5C # e # EscapeStrSeparators cs
      | None \<Rightarrow> c # EscapeStrSeparators cs)"

text \<open>An unknown escape is dropped, and so is a backslash at the end of the text.\<close>

fun UnEscapeStrSeparators :: "string \<Rightarrow> string" where
  "UnEscapeStrSeparators [] = []"
| "UnEscapeStrSeparators [c] = (if c = CHR 0x5C then [] else [c])"
| "UnEscapeStrSeparators (c # d # cs) =
     (if c = CHR 0x5C then
        (case map_of unescape_table d of
           Some u \<Rightarrow> u # UnEscapeStrSeparators cs
         | None \<Rightarrow> UnEscapeStrSeparators cs)
      else c # UnEscapeStrSeparators (d # cs))"

lemma escape_table_inverse:
  "list_all (\<lambda>(c, e). map_of unescape_table e = Some c \<and> (e = CHR 0x5C \<or> map_of escape_table e = None)) escape_table"
  by (simp add: escape_table_def unescape_table_def)

lemma unescape_escape_char: "map_of escape_table c = Some e \<Longrightarrow> map_of unescape_table e = Some c"
  using escape_table_inverse by (auto simp: list_all_iff dest!: map_of_SomeD)

lemma escape_letter: "map_of escape_table c = Some e \<Longrightarrow> e = CHR 0x5C \<or> e \<notin> fst ` set escape_table"
  using escape_table_inverse by (auto simp: list_all_iff map_of_eq_None_iff dest!: map_of_SomeD)

lemma unescape_plain: "c \<noteq> CHR 0x5C \<Longrightarrow> UnEscapeStrSeparators (c # cs) = c # UnEscapeStrSeparators cs"
  by (cases cs) simp_all

lemma escape_none: "map_of escape_table c = None \<Longrightarrow> c \<noteq> CHR 0x5C"
  by (auto simp: escape_table_def)

text \<open>
  Unescaping undoes escaping, and an escaped text is free of the sixteen separators (the
  table's characters other than the backslash).
\<close>

theorem escape_roundtrip:
  "UnEscapeStrSeparators (EscapeStrSeparators s) = s \<and>
   set (EscapeStrSeparators s) \<inter> (fst ` set escape_table - {CHR 0x5C}) = {}"
proof (induction s)
  case (Cons c cs)
  show ?case
  proof (cases "map_of escape_table c")
    case None
    then have "c \<notin> fst ` set escape_table" by (simp add: map_of_eq_None_iff)
    with Cons None show ?thesis by (simp add: unescape_plain escape_none)
  next
    case (Some e)
    with Cons escape_letter [OF Some] show ?thesis by (auto simp: unescape_escape_char)
  qed
qed simp

text \<open>
  \<^verbatim>\<open>SplitStringUsing\<close>; the loop state is the finished pieces and the piece being read.
\<close>

fun split_loop :: "char \<Rightarrow> bool \<Rightarrow> string list \<Rightarrow> string \<Rightarrow> string \<Rightarrow> string list" where
  "split_loop delim include_empty pieces cur [] =
     (if include_empty \<or> cur \<noteq> [] then pieces @ [cur] else pieces)"
| "split_loop delim include_empty pieces cur (c # cs) =
     (if c = delim then
        split_loop delim include_empty
          (if include_empty \<or> cur \<noteq> [] then pieces @ [cur] else pieces) [] cs
      else split_loop delim include_empty pieces (cur @ [c]) cs)"

definition SplitStringUsing :: "string \<Rightarrow> char \<Rightarrow> bool \<Rightarrow> string list" where
  "SplitStringUsing s delim include_empty = split_loop delim include_empty [] [] s"

primrec join_with :: "char \<Rightarrow> string list \<Rightarrow> string" where
  "join_with d [] = []"
| "join_with d (x # xs) = (if xs = [] then x else x @ d # join_with d xs)"

lemma join_with_append:
  "xs \<noteq> [] \<Longrightarrow> ys \<noteq> [] \<Longrightarrow> join_with d (xs @ ys) = join_with d xs @ d # join_with d ys"
  by (induction xs) auto

lemma split_loop_join:
  "delim \<notin> set cur \<Longrightarrow> (\<forall>p \<in> set pieces. delim \<notin> set p) \<Longrightarrow>
     join_with delim (split_loop delim True pieces cur s) = join_with delim (pieces @ [cur]) @ s \<and>
     (\<forall>p \<in> set (split_loop delim True pieces cur s). delim \<notin> set p)"
proof (induction s arbitrary: pieces cur)
  case (Cons c cs)
  show ?case
  proof (cases "c = delim")
    case True
    have "join_with delim ((pieces @ [cur]) @ [[]]) = join_with delim (pieces @ [cur]) @ [delim]"
      by (subst join_with_append) simp_all
    with True Cons.IH [of "[]" "pieces @ [cur]"] Cons.prems show ?thesis by simp
  next
    case False
    have "join_with delim (pieces @ [cur @ [c]]) = join_with delim (pieces @ [cur]) @ [c]"
      by (cases "pieces = []") (simp_all add: join_with_append)
    with False Cons.IH [of "cur @ [c]" pieces] Cons.prems show ?thesis by simp
  qed
qed simp

text \<open>
  Splitting with empty pieces loses nothing: no piece contains the delimiter and joining
  the pieces with it restores the text.
\<close>

theorem SplitStringUsing_join:
  "join_with d (SplitStringUsing s d True) = s \<and> (\<forall>p \<in> set (SplitStringUsing s d True). d \<notin> set p)"
  using split_loop_join [of d "[]" "[]" s] by (simp add: SplitStringUsing_def)

lemma SplitStringUsing_join_witness:
  "join_with CHR ''.'' (SplitStringUsing ''a..b'' CHR ''.'' True) = ''a..b''"
  using SplitStringUsing_join [of "CHR ''.''" "''a..b''"] by simp

text \<open>\<^verbatim>\<open>ParseInt32WithDefault\<close>, \<^verbatim>\<open>StringEndsWith\<close>, \<^verbatim>\<open>ShortenStr\<close> and \<^verbatim>\<open>TrimLeadingAndTrailingSpaces\<close>.\<close>

definition ParseInt32WithDefault :: "string \<Rightarrow> int \<Rightarrow> int" where
  "ParseInt32WithDefault s d = (case ParseInt32 s of Some v \<Rightarrow> v | None \<Rightarrow> d)"

definition StringEndsWith :: "string \<Rightarrow> string \<Rightarrow> bool" where
  "StringEndsWith s e = (if length s < length e then False else drop (length s - length e) s = e)"

definition ShortenStr :: "string \<Rightarrow> nat \<Rightarrow> string" where
  "ShortenStr s max_length =
     (if length s > max_length then
        (if max_length > 3 then take (max_length - 3) s else []) @ ''...''
      else s)"

definition IsCharWhiteSpace :: "char \<Rightarrow> bool" where
  "IsCharWhiteSpace c \<longleftrightarrow> c = CHR '' '' \<or> c = CHR 0x0A \<or> c = CHR 0x0D \<or> c = CHR 0x09"

definition TrimLeadingAndTrailingSpaces :: "string \<Rightarrow> string" where
  "TrimLeadingAndTrailingSpaces s = rev (dropWhile IsCharWhiteSpace (rev (dropWhile IsCharWhiteSpace s)))"

lemma ShortenStr_length: "length (ShortenStr s n) \<le> max 3 n"
  by (auto simp: ShortenStr_def)

lemma Trim_ends:
  "TrimLeadingAndTrailingSpaces s \<noteq> [] \<Longrightarrow>
     \<not> IsCharWhiteSpace (last (TrimLeadingAndTrailingSpaces s))"
  unfolding TrimLeadingAndTrailingSpaces_def by (simp only: last_rev rev_is_Nil_conv hd_dropWhile not_False_eq_True)

end
