(* ===== verification/Proto.thy ===== *)
theory Proto
  imports Text_Formats Geometry
begin

text \<open>
  The input screens: the messages of \<^verbatim>\<open>uidump.proto\<close> and the functions of
  \<^verbatim>\<open>src/inferui/inferui/model/util/util.cpp\<close> that read them: which views belong to the root
  constraint layout, how constraint targets are looked up, and which screens are accepted as
  training or evaluation data (\<^verbatim>\<open>ValidApp\<close>).

  Protobuf's generated accessors are records here; a pointer to a view of the screen is the
  view, \<^verbatim>\<open>nullptr\<close> is \<open>None\<close>. The argument \<open>xml\<close> is \<^verbatim>\<open>FLAGS_xml_attributes\<close>.
\<close>

section \<open>Messages\<close>

record proto_view = rectangle +
  pv_type :: string
  pv_id :: string
  pv_seq_id :: int
  pv_parent_seq_id :: int
  pv_children_ids :: "int list"
  pv_properties :: "string \<Rightarrow> string option"

record proto_screen =
  ps_device_width :: int
  ps_device_height :: int
  ps_views :: "proto_view list"

definition cname :: "bool \<Rightarrow> name \<Rightarrow> string" where
  "cname xml n = (case constants_name_default xml n of Some s \<Rightarrow> s | None \<Rightarrow> [])"

lemma constants_name_default_cname: "constants_name_default xml n = Some (cname xml n)"
  using constants_name_total [of n "flag_type xml"]
  by (auto simp: cname_def constants_name_default_def)

definition has_property :: "bool \<Rightarrow> proto_view \<Rightarrow> name \<Rightarrow> bool" where
  "has_property xml v n \<longleftrightarrow> pv_properties v (cname xml n) \<noteq> None"

definition property_value :: "bool \<Rightarrow> proto_view \<Rightarrow> name \<Rightarrow> string option" where
  "property_value xml v n = pv_properties v (cname xml n)"

lemma has_property_value: "has_property xml v n \<longleftrightarrow> (\<exists>s. property_value xml v n = Some s)"
  by (auto simp: has_property_def property_value_def)

section \<open>Sizes, margins and biases of a view\<close>

definition GetViewSize_text :: "string \<Rightarrow> view_size option" where
  "GetViewSize_text value =
     (if value = ''match_parent'' \<or> value = ''fill_parent'' then Some MATCH_PARENT
      else if hasValue value then
        do { v \<leftarrow> parseValue value; Some (if v = 0 then MATCH_CONSTRAINT else FIXED) }
      else Some FIXED)"

definition GetViewSize :: "bool \<Rightarrow> proto_view \<Rightarrow> orientation \<Rightarrow> view_size option" where
  "GetViewSize xml v oi =
     do { value \<leftarrow> property_value xml v (case oi of HORIZONTAL \<Rightarrow> layout_width | VERTICAL \<Rightarrow> layout_height);
          GetViewSize_text value }"

definition GetMarginFromProto :: "bool \<Rightarrow> proto_view \<Rightarrow> name \<Rightarrow> real option" where
  "GetMarginFromProto xml v n =
     (if n = NO_NAME then Some 0
      else case property_value xml v n of
        Some value \<Rightarrow> if hasValue value then map_option (\<lambda>r. r * 2) (parseValue value) else Some 0
      | None \<Rightarrow>
          (case property_value xml v layout_margin of
             Some value \<Rightarrow> if hasValue value then map_option (\<lambda>r. r * 2) (parseValue value) else Some 0
           | None \<Rightarrow> Some 0))"

definition GetBiasFromProto :: "bool \<Rightarrow> proto_view \<Rightarrow> orientation \<Rightarrow> real option" where
  "GetBiasFromProto xml v oi =
     (case property_value xml v
          (case oi of HORIZONTAL \<Rightarrow> layout_constraintHorizontal_bias | VERTICAL \<Rightarrow> layout_constraintVertical_bias) of
        Some value \<Rightarrow> ParseFloat value
      | None \<Rightarrow> Some (1 / 2))"

text \<open>\<^verbatim>\<open>Padding\<close>; each assignment of \<^verbatim>\<open>Initialize\<close> converts a \<^verbatim>\<open>float\<close> to an \<^verbatim>\<open>int\<close>.\<close>

record padding =
  pad_left :: int
  pad_right :: int
  pad_top :: int
  pad_bottom :: int

definition Padding_zero :: padding where
  "Padding_zero = \<lparr>pad_left = 0, pad_right = 0, pad_top = 0, pad_bottom = 0\<rparr>"

definition padding_step ::
    "bool \<Rightarrow> proto_view \<Rightarrow> padding \<Rightarrow> name \<times> (int \<Rightarrow> padding \<Rightarrow> padding) \<Rightarrow> padding option" where
  "padding_step xml v p st =
     (case st of (n, upd) \<Rightarrow>
        (case property_value xml v n of
           Some value \<Rightarrow> map_option (\<lambda>r. upd (to_int r) p) (parseValue value)
         | None \<Rightarrow> Some p))"

definition padding_rules :: "(name \<times> (int \<Rightarrow> padding \<Rightarrow> padding)) list" where
  "padding_rules =
     [(paddingLeft, \<lambda>i p. p\<lparr>pad_left := i\<rparr>),
      (paddingRight, \<lambda>i p. p\<lparr>pad_right := i\<rparr>),
      (paddingTop, \<lambda>i p. p\<lparr>pad_top := i\<rparr>),
      (paddingBottom, \<lambda>i p. p\<lparr>pad_bottom := i\<rparr>),
      (paddingHorizontal, \<lambda>i p. p\<lparr>pad_left := i, pad_right := i\<rparr>),
      (paddingVertical, \<lambda>i p. p\<lparr>pad_top := i, pad_bottom := i\<rparr>),
      (name.padding, \<lambda>i p. \<lparr>pad_left = i, pad_right = i, pad_top = i, pad_bottom = i\<rparr>),
      (paddingStart, \<lambda>i p. p\<lparr>pad_left := i\<rparr>),
      (paddingEnd, \<lambda>i p. p\<lparr>pad_right := i\<rparr>)]"

definition Padding_Initialize :: "bool \<Rightarrow> proto_view \<Rightarrow> padding \<Rightarrow> padding option" where
  "Padding_Initialize xml v p0 =
     do { p \<leftarrow> fold_opt (padding_step xml v) p0 padding_rules;
          Some \<lparr>pad_left = pad_left p * 2, pad_right = pad_right p * 2,
                pad_top = pad_top p * 2, pad_bottom = pad_bottom p * 2\<rparr> }"

type_synonym properties = "string \<Rightarrow> string option"

definition padding_property :: "output_type \<Rightarrow> name \<Rightarrow> int \<Rightarrow> properties \<Rightarrow> properties option" where
  "padding_property ty n i m =
     (if i \<noteq> 0 then do { k \<leftarrow> constants_name n ty; Some (m(k \<mapsto> px_string i)) } else Some m)"

definition Padding_ToProperties :: "padding \<Rightarrow> output_type \<Rightarrow> properties \<Rightarrow> properties option" where
  "Padding_ToProperties p ty m =
     do { m1 \<leftarrow> padding_property ty paddingLeft (pad_left p) m;
          m2 \<leftarrow> padding_property ty paddingRight (pad_right p) m1;
          m3 \<leftarrow> padding_property ty paddingTop (pad_top p) m2;
          padding_property ty paddingBottom (pad_bottom p) m3 }"

section \<open>Lookups in a screen\<close>

text \<open>
  \<^verbatim>\<open>InRootLayout\<close> follows the parents; on a screen whose parents form a cycle it does not
  return, so it is a partial function (\<open>None\<close>: no result).
\<close>

partial_function (option) InRootLayout :: "bool \<Rightarrow> proto_screen \<Rightarrow> proto_view \<Rightarrow> name \<Rightarrow> bool option" where
  "InRootLayout xml app v layout_type =
     (if pv_parent_seq_id v = - 1 then Some True
      else do {
        p \<leftarrow> vec_at_int (ps_views app) (pv_parent_seq_id v);
        b \<leftarrow> InRootLayout xml app p layout_type;
        Some (b \<and> pv_type p = cname xml layout_type) })"

declare InRootLayout.simps [code]

definition InRootConstraintLayout :: "bool \<Rightarrow> proto_screen \<Rightarrow> proto_view \<Rightarrow> bool option" where
  "InRootConstraintLayout xml app v = InRootLayout xml app v ConstraintLayout"

definition FindViewById :: "proto_screen \<Rightarrow> proto_view \<Rightarrow> string \<Rightarrow> proto_view option option" where
  "FindViewById app v i =
     (if i = ''parent'' then
        (if pv_parent_seq_id v = - 1 then Some None
         else map_option Some (vec_at_int (ps_views app) (pv_parent_seq_id v)))
      else let nid = parseID i in
        if nid = [] then Some None
        else Some (find (\<lambda>w. parseID (pv_id w) = nid) (ps_views app)))"

definition FindPropertyTarget1 :: "bool \<Rightarrow> proto_screen \<Rightarrow> proto_view \<Rightarrow> name \<Rightarrow> proto_view option option" where
  "FindPropertyTarget1 xml app v n =
     (case property_value xml v n of
        None \<Rightarrow> Some None
      | Some i \<Rightarrow> FindViewById app v i)"

primrec FindPropertyTarget ::
    "bool \<Rightarrow> proto_screen \<Rightarrow> proto_view \<Rightarrow> name list \<Rightarrow> (proto_view option \<times> name) option" where
  "FindPropertyTarget xml app v [] = Some (None, NO_NAME)"
| "FindPropertyTarget xml app v (n # ns) =
     do { tgt \<leftarrow> FindPropertyTarget1 xml app v n;
          case tgt of Some t \<Rightarrow> Some (Some t, n) | None \<Rightarrow> FindPropertyTarget xml app v ns }"

section \<open>Walking over the constraints of a screen\<close>

record constraint_stats =
  cs_total :: int
  cs_unresolved :: int
  cs_ignored :: int
  cs_total_apps :: int
  cs_unresolved_apps :: int
  cs_ignored_apps :: int

definition ConstraintStats_init :: constraint_stats where
  "ConstraintStats_init = \<lparr>cs_total = 0, cs_unresolved = 0, cs_ignored = 0,
     cs_total_apps = 0, cs_unresolved_apps = 0, cs_ignored_apps = 0\<rparr>"

definition ConstraintStats_Merge :: "constraint_stats \<Rightarrow> constraint_stats \<Rightarrow> constraint_stats" where
  "ConstraintStats_Merge s other =
     s\<lparr>cs_total := cs_total s + cs_total other,
       cs_unresolved := cs_unresolved s + cs_unresolved other,
       cs_ignored := cs_ignored s + cs_ignored other,
       cs_total_apps := cs_total_apps s + 1,
       cs_unresolved_apps := cs_unresolved_apps s + (if cs_unresolved other > 0 then 1 else 0),
       cs_ignored_apps := cs_ignored_apps s + (if cs_ignored other > 0 then 1 else 0)\<rparr>"

text \<open>The calls of the callback are collected in their order.\<close>

type_synonym constraint_call = "name \<times> proto_view \<times> proto_view"

definition constraint_step ::
    "bool \<Rightarrow> proto_screen \<Rightarrow> proto_view \<Rightarrow> bool \<Rightarrow> constraint_stats \<times> constraint_call list \<Rightarrow> name \<Rightarrow>
     (constraint_stats \<times> constraint_call list) option" where
  "constraint_step xml app v ignored st n =
     (case st of (stats, calls) \<Rightarrow>
        (case property_value xml v n of
           None \<Rightarrow> Some (stats, calls)
         | Some i \<Rightarrow>
             (let stats1 = stats\<lparr>cs_total := cs_total stats + 1\<rparr> in
              if ignored then Some (stats1\<lparr>cs_ignored := cs_ignored stats1 + 1\<rparr>, calls)
              else do {
                ref \<leftarrow> FindViewById app v i;
                case ref of
                  None \<Rightarrow> Some (stats1\<lparr>cs_unresolved := cs_unresolved stats1 + 1\<rparr>, calls)
                | Some w \<Rightarrow> Some (stats1, calls @ [(n, v, w)]) })))"

definition constraint_view_step ::
    "bool \<Rightarrow> proto_screen \<Rightarrow> name \<Rightarrow> constraint_stats \<times> constraint_call list \<Rightarrow> proto_view \<Rightarrow>
     (constraint_stats \<times> constraint_call list) option" where
  "constraint_view_step xml app ty st v =
     (if pv_parent_seq_id v = - 1 then Some st
      else do {
        inr \<leftarrow> InRootLayout xml app v ty;
        ns \<leftarrow> ViewProperties ty;
        fold_opt (constraint_step xml app v (\<not> inr)) st ns })"

definition ForEachConstraint ::
    "bool \<Rightarrow> proto_screen \<Rightarrow> name \<Rightarrow> (constraint_stats \<times> constraint_call list) option" where
  "ForEachConstraint xml app ty =
     fold_opt (constraint_view_step xml app ty) (ConstraintStats_init, []) (ps_views app)"

type_synonym layout_call =
  "proto_view \<times> (proto_view option \<times> name) \<times> (proto_view option \<times> name) \<times> orientation"

definition layout_view_step ::
    "bool \<Rightarrow> proto_screen \<Rightarrow> layout_call list \<Rightarrow> proto_view \<Rightarrow> layout_call list option" where
  "layout_view_step xml app calls v =
     (if pv_parent_seq_id v = - 1 then Some calls
      else do {
        inr \<leftarrow> InRootLayout xml app v ConstraintLayout;
        if \<not> inr \<or> pv_type v = cname xml Guideline then Some calls
        else do {
          le \<leftarrow> FindPropertyTarget xml app v LEFT_CONSTRAINT_LAYOUT_CONSTRAINTS;
          ri \<leftarrow> FindPropertyTarget xml app v RIGHT_CONSTRAINT_LAYOUT_CONSTRAINTS;
          CHECK (fst le \<noteq> None \<or> fst ri \<noteq> None);
          to \<leftarrow> FindPropertyTarget xml app v TOP_CONSTRAINT_LAYOUT_CONSTRAINTS;
          bo \<leftarrow> FindPropertyTarget xml app v BOTTOM_CONSTRAINT_LAYOUT_CONSTRAINTS;
          CHECK (fst to \<noteq> None \<or> fst bo \<noteq> None);
          Some (calls @ [(v, le, ri, HORIZONTAL), (v, to, bo, VERTICAL)]) } })"

definition ForEachConstraintLayoutConstraint :: "bool \<Rightarrow> proto_screen \<Rightarrow> layout_call list option" where
  "ForEachConstraintLayoutConstraint xml app = fold_opt (layout_view_step xml app) [] (ps_views app)"

section \<open>Which screens are accepted\<close>

definition CountProperties :: "bool \<Rightarrow> proto_view \<Rightarrow> name list \<Rightarrow> int" where
  "CountProperties xml v ns = int (length (filter (has_property xml v) ns))"

definition HasRelativeConstraint :: "bool \<Rightarrow> proto_view \<Rightarrow> bool" where
  "HasRelativeConstraint xml v \<longleftrightarrow> list_ex (has_property xml v) RELATIVE_CONSTRAINTS"

definition HasRelativeParentConstraint :: "bool \<Rightarrow> proto_view \<Rightarrow> bool" where
  "HasRelativeParentConstraint xml v \<longleftrightarrow> list_ex (has_property xml v) RELATIVE_PARENT_CONSTRAINTS"

definition GetReferencedIds :: "bool \<Rightarrow> proto_screen \<Rightarrow> string set" where
  "GetReferencedIds xml app =
     set (concat (map (\<lambda>v. List.map_filter (property_value xml v) RELATIVE_CONSTRAINTS) (ps_views app)))"

definition ViewsInsideScreen :: "proto_screen \<Rightarrow> bool option" where
  "ViewsInsideScreen app =
     do { root \<leftarrow> vec_at (ps_views app) 0;
          Some (list_all (\<lambda>v. \<not> (xleft v < xleft root \<or> xright v > xright root \<or>
                                 ytop v < ytop root \<or> ybottom v > ybottom root)) (ps_views app)) }"

definition ValidNumberOfConstraints :: "bool \<Rightarrow> proto_view \<Rightarrow> bool" where
  "ValidNumberOfConstraints xml v \<longleftrightarrow>
     (if pv_type v = cname xml Guideline then True
      else let cl = CountProperties xml v LEFT_CONSTRAINT_LAYOUT_CONSTRAINTS;
               cr = CountProperties xml v RIGHT_CONSTRAINT_LAYOUT_CONSTRAINTS;
               ct = CountProperties xml v TOP_CONSTRAINT_LAYOUT_CONSTRAINTS;
               cb = CountProperties xml v BOTTOM_CONSTRAINT_LAYOUT_CONSTRAINTS
           in \<not> (cl > 1 \<or> cr > 1 \<or> cl + cr = 0 \<or> ct > 1 \<or> cb > 1 \<or> ct + cb = 0))"

primrec ValidConstraints_loop :: "bool \<Rightarrow> proto_screen \<Rightarrow> proto_view list \<Rightarrow> bool option" where
  "ValidConstraints_loop xml app [] = Some True"
| "ValidConstraints_loop xml app (v # vs) =
     do { ignored \<leftarrow> (if pv_parent_seq_id v = - 1 then Some True
                      else do { p \<leftarrow> vec_at_int (ps_views app) (pv_parent_seq_id v);
                                Some (pv_type p \<noteq> cname xml ConstraintLayout) });
          if \<not> ignored \<and> \<not> ValidNumberOfConstraints xml v then Some False
          else ValidConstraints_loop xml app vs }"

definition ValidConstraints :: "bool \<Rightarrow> proto_screen \<Rightarrow> bool option" where
  "ValidConstraints xml app = ValidConstraints_loop xml app (ps_views app)"

definition ResolvedConstraints :: "bool \<Rightarrow> proto_screen \<Rightarrow> bool option" where
  "ResolvedConstraints xml app =
     do { (stats, calls) \<leftarrow> ForEachConstraint xml app ConstraintLayout;
          Some (cs_unresolved stats = 0) }"

definition HasConstraintBias :: "bool \<Rightarrow> proto_screen \<Rightarrow> bool" where
  "HasConstraintBias xml app \<longleftrightarrow>
     list_ex (\<lambda>v. has_property xml v layout_constraintHorizontal_bias \<or>
                  has_property xml v layout_constraintVertical_bias) (ps_views app)"

definition HasBaselineConstraint :: "bool \<Rightarrow> proto_screen \<Rightarrow> bool" where
  "HasBaselineConstraint xml app \<longleftrightarrow>
     list_ex (\<lambda>v. has_property xml v layout_constraintBaseline_toBaselineOf) (ps_views app)"

definition HasChainConstraint :: "bool \<Rightarrow> proto_screen \<Rightarrow> bool" where
  "HasChainConstraint xml app \<longleftrightarrow>
     list_ex (\<lambda>v. has_property xml v layout_constraintHorizontal_chainStyle \<or>
                  has_property xml v layout_constraintVertical_chainStyle) (ps_views app)"

definition HasGuideline :: "bool \<Rightarrow> proto_screen \<Rightarrow> bool" where
  "HasGuideline xml app \<longleftrightarrow> list_ex (\<lambda>v. pv_type v = cname xml Guideline) (ps_views app)"

definition NegativeViewSize :: "proto_screen \<Rightarrow> bool" where
  "NegativeViewSize app \<longleftrightarrow>
     list_ex (\<lambda>v. xright v \<le> xleft v \<or> ybottom v \<le> ytop v) (ps_views app)"

primrec margins_nonneg :: "bool \<Rightarrow> proto_view \<Rightarrow> name list \<Rightarrow> bool option" where
  "margins_nonneg xml v [] = Some True"
| "margins_nonneg xml v (n # ns) =
     do { m \<leftarrow> GetMarginFromProto xml v n; if m < 0 then Some False else margins_nonneg xml v ns }"

primrec ValidMargins_loop :: "bool \<Rightarrow> proto_view list \<Rightarrow> bool option" where
  "ValidMargins_loop xml [] = Some True"
| "ValidMargins_loop xml (v # vs) =
     do { b \<leftarrow> margins_nonneg xml v [layout_marginLeft, layout_marginRight, layout_marginTop, layout_marginBottom];
          if b then ValidMargins_loop xml vs else Some False }"

definition ValidMargins :: "bool \<Rightarrow> proto_screen \<Rightarrow> bool option" where
  "ValidMargins xml app = ValidMargins_loop xml (ps_views app)"

text \<open>\<^verbatim>\<open>ValidApp\<close>: the answer, and the entry added to the statistics.\<close>

definition ValidApp :: "bool \<Rightarrow> proto_screen \<Rightarrow> (bool \<times> string) option" where
  "ValidApp xml app =
     do { inside \<leftarrow> ViewsInsideScreen app;
          if \<not> inside then Some (False, ''views_outsideapp'')
          else if HasBaselineConstraint xml app then Some (False, ''baseline_constraint'')
          else do {
            vc \<leftarrow> ValidConstraints xml app;
            if \<not> vc then Some (False, ''invalid_constraint'')
            else do {
              rc \<leftarrow> ResolvedConstraints xml app;
              if \<not> rc then Some (False, ''unresolved_constraint'')
              else if HasGuideline xml app then Some (False, ''has_guideline'')
              else if HasChainConstraint xml app then Some (False, ''has_chain_constraints'')
              else do {
                vm \<leftarrow> ValidMargins xml app;
                if \<not> vm then Some (False, ''invalid_margins'')
                else if NegativeViewSize app then Some (False, ''negative_view_size'')
                else Some (True, ''ok'') } } } }"

section \<open>Membership in the root layout\<close>

definition parent_rel :: "proto_screen \<Rightarrow> (proto_view \<times> proto_view) set" where
  "parent_rel app =
     {(v, p). pv_parent_seq_id v \<noteq> - 1 \<and> vec_at_int (ps_views app) (pv_parent_seq_id v) = Some p}"

text \<open>What the dumps promise: a view is stored at its sequence number, after its parent.\<close>

definition screen_wf :: "proto_screen \<Rightarrow> bool" where
  "screen_wf app \<longleftrightarrow>
     (\<forall>i < length (ps_views app). pv_seq_id (ps_views app ! i) = int i \<and>
        - 1 \<le> pv_parent_seq_id (ps_views app ! i) \<and> pv_parent_seq_id (ps_views app ! i) < int i)"

lemma InRootLayout_root: "pv_parent_seq_id v = - 1 \<Longrightarrow> InRootLayout xml app v ty = Some True"
  by (subst InRootLayout.simps) simp

lemma InRootLayout_child:
  "pv_parent_seq_id v \<noteq> - 1 \<Longrightarrow> InRootLayout xml app v ty =
     do { p \<leftarrow> vec_at_int (ps_views app) (pv_parent_seq_id v);
          b \<leftarrow> InRootLayout xml app p ty; Some (b \<and> pv_type p = cname xml ty) }"
  by (subst InRootLayout.simps) simp

lemma parent_rel_unique: "(v, p) \<in> parent_rel app \<Longrightarrow> (v, q) \<in> parent_rel app \<Longrightarrow> q = p"
  by (auto simp: parent_rel_def)

lemma parent_rel_step:
  assumes vp: "(v, p) \<in> parent_rel app"
  shows "(v, q) \<in> (parent_rel app)\<^sup>+ \<longleftrightarrow> q = p \<or> (p, q) \<in> (parent_rel app)\<^sup>+"
proof
  assume "(v, q) \<in> (parent_rel app)\<^sup>+"
  then consider "(v, q) \<in> parent_rel app" | z where "(v, z) \<in> parent_rel app" "(z, q) \<in> (parent_rel app)\<^sup>+"
    by (meson converse_tranclE)
  then show "q = p \<or> (p, q) \<in> (parent_rel app)\<^sup>+"
    by cases (use parent_rel_unique [OF vp] in fast)+
qed (use vp in \<open>blast intro: trancl_into_trancl2\<close>)

lemma screen_wf_parent:
  assumes "screen_wf app" "i < length (ps_views app)" "pv_parent_seq_id (ps_views app ! i) \<noteq> - 1"
  obtains j where "j < i" "pv_parent_seq_id (ps_views app ! i) = int j"
    "(ps_views app ! i, ps_views app ! j) \<in> parent_rel app"
proof -
  have b: "0 \<le> pv_parent_seq_id (ps_views app ! i)" "pv_parent_seq_id (ps_views app ! i) < int i"
    using assms unfolding screen_wf_def by force+
  show ?thesis
  proof (rule that [of "nat (pv_parent_seq_id (ps_views app ! i))"])
    show "nat (pv_parent_seq_id (ps_views app ! i)) < i" using b by linarith
    then show "(ps_views app ! i, ps_views app ! nat (pv_parent_seq_id (ps_views app ! i))) \<in> parent_rel app"
      using b assms by (simp add: parent_rel_def vec_at_int_def)
  qed (use b in simp)
qed

lemma InRootLayout_index:
  assumes "screen_wf app" "i < length (ps_views app)"
  shows "InRootLayout xml app (ps_views app ! i) ty =
    Some (\<forall>p. (ps_views app ! i, p) \<in> (parent_rel app)\<^sup>+ \<longrightarrow> pv_type p = cname xml ty)"
  using assms(2)
proof (induction i rule: less_induct)
  case (less i)
  let ?v = "ps_views app ! i"
  show ?case
  proof (cases "pv_parent_seq_id ?v = - 1")
    case True
    then have "\<not> (?v, p) \<in> (parent_rel app)\<^sup>+" for p
      by (auto elim: converse_tranclE simp: parent_rel_def)
    with True show ?thesis by (simp add: InRootLayout_root)
  next
    case False
    with assms(1) less.prems obtain j where j: "j < i" "pv_parent_seq_id ?v = int j"
        "(?v, ps_views app ! j) \<in> parent_rel app"
      by (rule screen_wf_parent)
    with less have "InRootLayout xml app (ps_views app ! j) ty =
        Some (\<forall>p. (ps_views app ! j, p) \<in> (parent_rel app)\<^sup>+ \<longrightarrow> pv_type p = cname xml ty)"
      by simp
    moreover have "vec_at_int (ps_views app) (pv_parent_seq_id ?v) = Some (ps_views app ! j)"
      using j less.prems by simp
    ultimately have "InRootLayout xml app ?v ty =
        Some ((\<forall>p. (ps_views app ! j, p) \<in> (parent_rel app)\<^sup>+ \<longrightarrow> pv_type p = cname xml ty) \<and>
              pv_type (ps_views app ! j) = cname xml ty)"
      by (simp only: InRootLayout_child [OF False] Option.bind.bind_lunit)
    moreover have "(\<forall>p. (ps_views app ! j, p) \<in> (parent_rel app)\<^sup>+ \<longrightarrow> pv_type p = cname xml ty) \<and>
          pv_type (ps_views app ! j) = cname xml ty \<longleftrightarrow>
        (\<forall>p. (?v, p) \<in> (parent_rel app)\<^sup>+ \<longrightarrow> pv_type p = cname xml ty)"
      unfolding parent_rel_step [OF j(3)] by blast
    ultimately show ?thesis by (simp only:)
  qed
qed

text \<open>
  C38. On a screen whose views are stored after their parents, \<^verbatim>\<open>InRootLayout\<close> returns, and it
  answers whether every proper ancestor of the view is a layout of the given type.
\<close>

theorem InRootLayout_ancestors:
  assumes "screen_wf app" "v \<in> set (ps_views app)"
  shows "InRootLayout xml app v ty =
    Some (\<forall>p. (v, p) \<in> (parent_rel app)\<^sup>+ \<longrightarrow> pv_type p = cname xml ty)"
proof -
  obtain i where "i < length (ps_views app)" "v = ps_views app ! i"
    using assms(2) by (auto simp: in_set_conv_nth)
  with InRootLayout_index [OF assms(1)] show ?thesis by simp
qed

text \<open>A screen of three views: a constraint layout with two children, one below the other.\<close>

definition sample_properties :: "(name \<times> string) list \<Rightarrow> string \<Rightarrow> string option" where
  "sample_properties ps = map_of (map (\<lambda>(n, v). (cname True n, v)) ps)"

definition sample_screen :: proto_screen where
  "sample_screen = \<lparr>ps_device_width = 100, ps_device_height = 100, ps_views =
    [\<lparr>xleft = 0, xright = 100, ytop = 0, ybottom = 100, pv_type = cname True ConstraintLayout,
      pv_id = ''root'', pv_seq_id = 0, pv_parent_seq_id = - 1, pv_children_ids = [1, 2],
      pv_properties = sample_properties [(layout_width, ''match_parent''), (layout_height, ''match_parent'')]\<rparr>,
     \<lparr>xleft = 10, xright = 50, ytop = 20, ybottom = 40, pv_type = ''Button'', pv_id = ''@+id/a'',
      pv_seq_id = 1, pv_parent_seq_id = 0, pv_children_ids = [],
      pv_properties = sample_properties [(layout_width, ''wrap_content''), (layout_height, ''wrap_content''),
        (layout_constraintLeft_toLeftOf, ''parent''), (layout_constraintTop_toTopOf, ''parent'')]\<rparr>,
     \<lparr>xleft = 10, xright = 90, ytop = 50, ybottom = 70, pv_type = ''TextView'', pv_id = ''@+id/b'',
      pv_seq_id = 2, pv_parent_seq_id = 0, pv_children_ids = [],
      pv_properties = sample_properties [(layout_width, ''0dp''), (layout_height, ''wrap_content''),
        (layout_constraintLeft_toLeftOf, ''@+id/a''), (layout_constraintTop_toBottomOf, ''@+id/a'')]\<rparr>]\<rparr>"

lemma sample_screen_wf: "screen_wf sample_screen"
  by (auto simp: screen_wf_def sample_screen_def nth_Cons split: nat.splits)

lemma InRootLayout_ancestors_witness:
  "InRootLayout True sample_screen (ps_views sample_screen ! 1) ConstraintLayout =
     Some (\<forall>p. (ps_views sample_screen ! 1, p) \<in> (parent_rel sample_screen)\<^sup>+ \<longrightarrow>
       pv_type p = cname True ConstraintLayout)"
  by (rule InRootLayout_ancestors [OF sample_screen_wf]) (simp add: sample_screen_def)

section \<open>Accepted screens can be walked\<close>

lemma constraint_step_unresolved:
  assumes "constraint_step xml app v ignored s n = Some s'"
  shows "cs_unresolved (fst s) \<le> cs_unresolved (fst s') \<and>
    (cs_unresolved (fst s) = cs_unresolved (fst s') \<longrightarrow> \<not> ignored \<longrightarrow>
       (\<forall>i. property_value xml v n = Some i \<longrightarrow> (\<exists>w. FindViewById app v i = Some (Some w))))"
proof (cases "property_value xml v n")
  case (Some i)
  show ?thesis
  proof (cases ignored)
    case False
    with assms Some obtain r where r: "FindViewById app v i = Some r"
      by (cases s) (auto simp: constraint_step_def Let_def bind_Some_iff)
    with assms Some False show ?thesis
      by (cases s; cases r) (auto simp: constraint_step_def Let_def)
  qed (use assms Some in \<open>auto simp: constraint_step_def Let_def split: prod.splits\<close>)
qed (use assms in \<open>auto simp: constraint_step_def split: prod.splits\<close>)

lemma resolved_targets:
  assumes "ResolvedConstraints xml app = Some True" "v \<in> set (ps_views app)"
    and "pv_parent_seq_id v \<noteq> - 1" "InRootLayout xml app v ConstraintLayout = Some True"
    and "n \<in> set CONSTRAINT_LAYOUT_CONSTRAINTS" "property_value xml v n = Some i"
  shows "\<exists>w. FindViewById app v i = Some (Some w)"
proof -
  define Q where "Q v \<longleftrightarrow> pv_parent_seq_id v \<noteq> - 1 \<longrightarrow> InRootLayout xml app v ConstraintLayout = Some True \<longrightarrow>
    (\<forall>n \<in> set CONSTRAINT_LAYOUT_CONSTRAINTS. \<forall>i. property_value xml v n = Some i \<longrightarrow>
       (\<exists>w. FindViewById app v i = Some (Some w)))" for v
  have step: "cs_unresolved (fst s) \<le> cs_unresolved (fst s') \<and>
      (cs_unresolved (fst s) = cs_unresolved (fst s') \<longrightarrow> Q v)"
    if "constraint_view_step xml app ConstraintLayout s v = Some s'" for s s' v
  proof (cases "pv_parent_seq_id v = - 1")
    case False
    with that obtain inr where inr: "InRootLayout xml app v ConstraintLayout = Some inr"
      "fold_opt (constraint_step xml app v (\<not> inr)) s CONSTRAINT_LAYOUT_CONSTRAINTS = Some s'"
      by (auto simp: constraint_view_step_def bind_Some_iff ViewProperties_def)
    have "cs_unresolved (fst s) \<le> cs_unresolved (fst s') \<and>
      (cs_unresolved (fst s) = cs_unresolved (fst s') \<longrightarrow>
        (\<forall>n \<in> set CONSTRAINT_LAYOUT_CONSTRAINTS. inr \<longrightarrow>
           (\<forall>i. property_value xml v n = Some i \<longrightarrow> (\<exists>w. FindViewById app v i = Some (Some w)))))"
      by (rule fold_opt_steps [where m = "\<lambda>s. cs_unresolved (fst s)", OF _ inr(2)])
        (use constraint_step_unresolved in blast)
    with inr(1) show ?thesis by (simp add: Q_def)
  qed (use that in \<open>auto simp: constraint_view_step_def Q_def\<close>)
  from assms(1) obtain stats calls where
    f: "fold_opt (constraint_view_step xml app ConstraintLayout) (ConstraintStats_init, []) (ps_views app) =
      Some (stats, calls)" "cs_unresolved stats = 0"
    by (auto simp: ResolvedConstraints_def ForEachConstraint_def bind_Some_iff)
  have "\<forall>x \<in> set (ps_views app). Q x"
    using fold_opt_steps [where m = "\<lambda>s. cs_unresolved (fst s)" and Q = Q, OF _ f(1)] step f(2)
    by (fastforce simp: ConstraintStats_init_def)
  with assms show ?thesis unfolding Q_def by blast
qed

lemma ValidConstraints_loop_True:
  "ValidConstraints_loop xml app vs = Some True \<Longrightarrow> v \<in> set vs \<Longrightarrow> pv_parent_seq_id v \<noteq> - 1 \<Longrightarrow>
     vec_at_int (ps_views app) (pv_parent_seq_id v) = Some p \<Longrightarrow> pv_type p = cname xml ConstraintLayout \<Longrightarrow>
     ValidNumberOfConstraints xml v"
  by (induction vs) (auto simp: bind_Some_iff split: if_splits)

lemma CountProperties_pos: "CountProperties xml v ns \<noteq> 0 \<Longrightarrow> \<exists>n \<in> set ns. has_property xml v n"
  by (auto simp: CountProperties_def filter_empty_conv)

lemma CountProperties_nonneg: "0 \<le> CountProperties xml v ns"
  by (simp add: CountProperties_def)

lemma FindPropertyTarget_found:
  assumes "\<And>n. n \<in> set ns \<Longrightarrow> FindPropertyTarget1 xml app v n \<noteq> None"
  shows "\<exists>r. FindPropertyTarget xml app v ns = Some r \<and>
    ((\<exists>n \<in> set ns. \<exists>w. FindPropertyTarget1 xml app v n = Some (Some w)) \<longrightarrow> fst r \<noteq> None)"
  using assms
proof (induction ns)
  case (Cons n ns)
  obtain t where t: "FindPropertyTarget1 xml app v n = Some t"
    using Cons.prems [of n] by auto
  show ?case
    using Cons.IH Cons.prems t by (cases t) auto
qed simp

lemma FindViewById_total:
  "screen_wf app \<Longrightarrow> v \<in> set (ps_views app) \<Longrightarrow> FindViewById app v i \<noteq> None"
  by (auto simp: FindViewById_def Let_def in_set_conv_nth elim: screen_wf_parent)

lemma FindPropertyTarget1_total:
  "screen_wf app \<Longrightarrow> v \<in> set (ps_views app) \<Longrightarrow> FindPropertyTarget1 xml app v n \<noteq> None"
  using FindViewById_total [of app v] by (auto simp: FindPropertyTarget1_def split: option.splits)

lemma ValidApp_True:
  assumes "ValidApp xml app = Some (True, why)"
  shows "ViewsInsideScreen app = Some True" "ValidConstraints xml app = Some True"
    "ResolvedConstraints xml app = Some True" "\<not> HasGuideline xml app"
    "ValidMargins xml app = Some True" "\<not> NegativeViewSize app"
  using assms by (auto simp: ValidApp_def bind_Some_iff split: if_splits)

lemma constraint_pair_found:
  assumes wf: "screen_wf app" and v: "v \<in> set (ps_views app)" "pv_parent_seq_id v \<noteq> - 1"
    and r: "InRootLayout xml app v ConstraintLayout = Some True" "ResolvedConstraints xml app = Some True"
    and sub: "set (ns @ ms) \<subseteq> set CONSTRAINT_LAYOUT_CONSTRAINTS"
    and cnt: "CountProperties xml v ns + CountProperties xml v ms \<noteq> 0"
  obtains a b where "FindPropertyTarget xml app v ns = Some a" "FindPropertyTarget xml app v ms = Some b"
    "fst a \<noteq> None \<or> fst b \<noteq> None"
proof -
  have tot: "FindPropertyTarget1 xml app v n \<noteq> None" for n
    by (rule FindPropertyTarget1_total [OF wf v(1)])
  obtain n where n: "n \<in> set ns \<union> set ms" "has_property xml v n"
    using cnt CountProperties_pos [of xml v ns] CountProperties_pos [of xml v ms]
    by (metis Un_iff add.right_neutral)
  then obtain i where i: "property_value xml v n = Some i" by (auto simp: has_property_value)
  with resolved_targets [OF r(2) v r(1)] n sub obtain w where "FindViewById app v i = Some (Some w)"
    by fastforce
  with i have w: "FindPropertyTarget1 xml app v n = Some (Some w)"
    by (simp add: FindPropertyTarget1_def)
  obtain a where a: "FindPropertyTarget xml app v ns = Some a"
      "(\<exists>n \<in> set ns. \<exists>w. FindPropertyTarget1 xml app v n = Some (Some w)) \<longrightarrow> fst a \<noteq> None"
    using FindPropertyTarget_found [of ns xml app v] tot by auto
  obtain b where b: "FindPropertyTarget xml app v ms = Some b"
      "(\<exists>n \<in> set ms. \<exists>w. FindPropertyTarget1 xml app v n = Some (Some w)) \<longrightarrow> fst b \<noteq> None"
    using FindPropertyTarget_found [of ms xml app v] tot by auto
  from a b w n(1) have "fst a \<noteq> None \<or> fst b \<noteq> None" by blast
  with a(1) b(1) show thesis by (rule that)
qed

lemma valid_view_counts:
  assumes wf: "screen_wf app" and ok: "ValidApp xml app = Some (True, why)"
    and v: "v \<in> set (ps_views app)" "pv_parent_seq_id v \<noteq> - 1"
    and r: "InRootLayout xml app v ConstraintLayout = Some True"
  shows "CountProperties xml v LEFT_CONSTRAINT_LAYOUT_CONSTRAINTS +
      CountProperties xml v RIGHT_CONSTRAINT_LAYOUT_CONSTRAINTS \<noteq> 0"
    "CountProperties xml v TOP_CONSTRAINT_LAYOUT_CONSTRAINTS +
      CountProperties xml v BOTTOM_CONSTRAINT_LAYOUT_CONSTRAINTS \<noteq> 0"
proof -
  note V = ValidApp_True [OF ok]
  from r v(2) obtain p where p: "vec_at_int (ps_views app) (pv_parent_seq_id v) = Some p"
      "pv_type p = cname xml ConstraintLayout"
    by (auto simp: InRootLayout_child bind_Some_iff)
  have "pv_type v \<noteq> cname xml Guideline"
    using V(4) v(1) by (auto simp: HasGuideline_def list_ex_iff)
  moreover have "ValidNumberOfConstraints xml v"
    using ValidConstraints_loop_True [OF V(2) [unfolded ValidConstraints_def] v p] .
  ultimately show "CountProperties xml v LEFT_CONSTRAINT_LAYOUT_CONSTRAINTS +
      CountProperties xml v RIGHT_CONSTRAINT_LAYOUT_CONSTRAINTS \<noteq> 0"
    "CountProperties xml v TOP_CONSTRAINT_LAYOUT_CONSTRAINTS +
      CountProperties xml v BOTTOM_CONSTRAINT_LAYOUT_CONSTRAINTS \<noteq> 0"
    by (simp_all add: ValidNumberOfConstraints_def Let_def)
qed

lemma valid_view_targets:
  assumes "screen_wf app" "ValidApp xml app = Some (True, why)"
    and "v \<in> set (ps_views app)" "pv_parent_seq_id v \<noteq> - 1"
    and "InRootLayout xml app v ConstraintLayout = Some True"
  obtains le ri to bo where
    "FindPropertyTarget xml app v LEFT_CONSTRAINT_LAYOUT_CONSTRAINTS = Some le"
    "FindPropertyTarget xml app v RIGHT_CONSTRAINT_LAYOUT_CONSTRAINTS = Some ri"
    "fst le \<noteq> None \<or> fst ri \<noteq> None"
    "FindPropertyTarget xml app v TOP_CONSTRAINT_LAYOUT_CONSTRAINTS = Some to"
    "FindPropertyTarget xml app v BOTTOM_CONSTRAINT_LAYOUT_CONSTRAINTS = Some bo"
    "fst to \<noteq> None \<or> fst bo \<noteq> None"
proof -
  note c = valid_view_counts [OF assms]
  note pair = constraint_pair_found [OF assms(1) assms(3,4) assms(5) ValidApp_True(3) [OF assms(2)]]
  obtain le ri where 1: "FindPropertyTarget xml app v LEFT_CONSTRAINT_LAYOUT_CONSTRAINTS = Some le"
    "FindPropertyTarget xml app v RIGHT_CONSTRAINT_LAYOUT_CONSTRAINTS = Some ri"
    "fst le \<noteq> None \<or> fst ri \<noteq> None"
    by (rule pair [OF _ c(1)]) (auto simp: constraint_layout_groups)
  obtain to bo where 2: "FindPropertyTarget xml app v TOP_CONSTRAINT_LAYOUT_CONSTRAINTS = Some to"
    "FindPropertyTarget xml app v BOTTOM_CONSTRAINT_LAYOUT_CONSTRAINTS = Some bo"
    "fst to \<noteq> None \<or> fst bo \<noteq> None"
    by (rule pair [OF _ c(2)]) (auto simp: constraint_layout_groups)
  from 1 2 show thesis by (rule that)
qed

text \<open>
  C37. A screen accepted by \<^verbatim>\<open>ValidApp\<close> can be walked: \<^verbatim>\<open>ForEachConstraintLayoutConstraint\<close> ends
  without a failed \<^verbatim>\<open>CHECK\<close>, and reports each constrained view once per orientation with at
  least one resolved target.
\<close>

theorem ValidApp_walk:
  assumes "screen_wf app" "ValidApp xml app = Some (True, why)"
  shows "\<exists>calls. ForEachConstraintLayoutConstraint xml app = Some calls \<and>
    (\<forall>(v, st, en, oi) \<in> set calls. v \<in> set (ps_views app) \<and> (fst st \<noteq> None \<or> fst en \<noteq> None))"
  unfolding ForEachConstraintLayoutConstraint_def
proof (rule fold_opt_total)
  fix calls :: "layout_call list" and v
  let ?P = "\<lambda>calls :: layout_call list. \<forall>(v, st, en, oi) \<in> set calls. v \<in> set (ps_views app) \<and> (fst st \<noteq> None \<or> fst en \<noteq> None)"
  assume P: "?P calls" and v: "v \<in> set (ps_views app)"
  obtain b where b: "InRootLayout xml app v ConstraintLayout = Some b"
    using InRootLayout_index [OF assms(1)] v by (auto simp: in_set_conv_nth)
  show "\<exists>calls'. layout_view_step xml app calls v = Some calls' \<and> ?P calls'"
  proof (cases "pv_parent_seq_id v \<noteq> - 1 \<and> b \<and> pv_type v \<noteq> cname xml Guideline")
    case True
    then have r: "pv_parent_seq_id v \<noteq> - 1" "InRootLayout xml app v ConstraintLayout = Some True"
      using b by simp_all
    obtain le ri to bo where
      "FindPropertyTarget xml app v LEFT_CONSTRAINT_LAYOUT_CONSTRAINTS = Some le"
      "FindPropertyTarget xml app v RIGHT_CONSTRAINT_LAYOUT_CONSTRAINTS = Some ri"
      "fst le \<noteq> None \<or> fst ri \<noteq> None"
      "FindPropertyTarget xml app v TOP_CONSTRAINT_LAYOUT_CONSTRAINTS = Some to"
      "FindPropertyTarget xml app v BOTTOM_CONSTRAINT_LAYOUT_CONSTRAINTS = Some bo"
      "fst to \<noteq> None \<or> fst bo \<noteq> None"
      by (rule valid_view_targets [OF assms v r])
    with True b P v show ?thesis by (auto simp: layout_view_step_def)
  qed (use b P in \<open>auto simp: layout_view_step_def\<close>)
qed simp

lemma sample_screen_valid: "ValidApp True sample_screen = Some (True, ''ok'')"
  by code_simp

lemma ValidApp_walk_witness:
  "\<exists>calls. ForEachConstraintLayoutConstraint True sample_screen = Some calls"
  using ValidApp_walk [OF sample_screen_wf sample_screen_valid] by blast

end
