(* ===== verification/App_Model.thy ===== *)
theory App_Model
  imports Proto
begin

text \<open>
  The data model of \<^verbatim>\<open>src/inferui/inferui/model/model.h\<close> and \<^verbatim>\<open>model.cpp\<close>: \<^verbatim>\<open>Attribute\<close> (one layout
  constraint of a view in one orientation), \<^verbatim>\<open>View\<close> and \<^verbatim>\<open>App\<close>, with the operations that
  build, copy, merge, convert and print them.

  A \<^verbatim>\<open>View*\<close> held by an attribute always points into the \<^verbatim>\<open>views\<close> vector of an \<^verbatim>\<open>App\<close>; it is the
  position in that vector here. \<^verbatim>\<open>std::unordered_map<Orientation, Attribute>\<close> is a map. The
  invariant \<open>app_wf\<close> says what every attribute of an app promises; the lemmas show that the
  operations keep it and what copies preserve.
\<close>

section \<open>Attributes\<close>

record attribute =
  attr_type :: constraint_type
  attr_view_size :: view_size
  value_primary :: int
  value_secondary :: int
  attr_src :: nat
  tgt_primary :: nat
  tgt_secondary :: "nat option"
  attr_prob :: real
  attr_bias :: real

record view = rectangle +
  view_padding :: padding
  view_name :: string
  view_id :: int
  view_pos :: int
  view_id_text :: string
  view_proto :: "proto_view option"
  view_attributes :: "orientation \<Rightarrow> attribute option"
  view_view_size :: "orientation \<Rightarrow> view_size option"

record app =
  seq_id_to_pos :: "int list"
  app_resizable :: "bool list"
  app_views :: "view list"

text \<open>The main constructor with its \<^verbatim>\<open>CHECK\<close>s, and the constructors that delegate to it.\<close>

definition Attribute_full ::
    "constraint_type \<Rightarrow> view_size \<Rightarrow> int \<Rightarrow> int \<Rightarrow> nat \<Rightarrow> nat \<Rightarrow> nat option \<Rightarrow> real \<Rightarrow> attribute option" where
  "Attribute_full t sz vp vs src prim sec bias =
     do { CHECK (\<not> IsCenterAnchor t \<or> sec \<noteq> None);
          CHECK (\<not> IsRelationalAnchor t \<or> sec = None);
          CHECK (vp \<ge> 0);
          CHECK (vs \<ge> 0);
          Some \<lparr>attr_type = t, attr_view_size = sz, value_primary = vp, value_secondary = vs,
                attr_src = src, tgt_primary = prim, tgt_secondary = sec, attr_prob = 0, attr_bias = bias\<rparr> }"

definition Attribute_relational ::
    "constraint_type \<Rightarrow> view_size \<Rightarrow> int \<Rightarrow> nat \<Rightarrow> nat \<Rightarrow> attribute option" where
  "Attribute_relational t sz v src prim =
     do { st \<leftarrow> IsTypeStart t;
          Attribute_full t sz (if st then v else 0) (if \<not> st then v else 0) src prim None (1 / 2) }"

definition Attribute_relational2 ::
    "constraint_type \<Rightarrow> view_size \<Rightarrow> int \<Rightarrow> int \<Rightarrow> nat \<Rightarrow> nat \<Rightarrow> attribute option" where
  "Attribute_relational2 t sz vp vs src prim = Attribute_full t sz vp vs src prim None (1 / 2)"

definition Attribute_center ::
    "constraint_type \<Rightarrow> view_size \<Rightarrow> int \<Rightarrow> nat \<Rightarrow> nat \<Rightarrow> nat option \<Rightarrow> attribute option" where
  "Attribute_center t sz vp src prim sec = Attribute_full t sz vp 0 src prim sec (1 / 2)"

text \<open>
  The constructor from the targets found in a screen (\<^verbatim>\<open>model.cpp\<close>). It has no \<^verbatim>\<open>CHECK\<close>s; a
  missing primary target would be dereferenced later and counts as an abort here.
\<close>

definition Attribute_from_properties ::
    "nat \<Rightarrow> view_size \<Rightarrow> int \<Rightarrow> int \<Rightarrow> nat option \<Rightarrow> name \<Rightarrow> nat option \<Rightarrow> name \<Rightarrow> real \<Rightarrow> attribute option" where
  "Attribute_from_properties src sz vp vs start_view start_type end_view end_type bias =
     (let mk = (\<lambda>t prim sec. \<lparr>attr_type = t, attr_view_size = sz, value_primary = vp, value_secondary = vs,
                attr_src = src, tgt_primary = prim, tgt_secondary = sec, attr_prob = 0, attr_bias = bias\<rparr>) in
      if start_type = NO_NAME then
        do { t \<leftarrow> ATTRIBUTE_TO_TYPE end_type; prim \<leftarrow> end_view; Some (mk t prim None) }
      else if end_type = NO_NAME then
        do { t \<leftarrow> ATTRIBUTE_TO_TYPE start_type; prim \<leftarrow> start_view; Some (mk t prim None) }
      else
        do { ts \<leftarrow> ATTRIBUTE_TO_TYPE start_type; te \<leftarrow> ATTRIBUTE_TO_TYPE end_type;
             t \<leftarrow> GetCenterAnchor ts te; prim \<leftarrow> start_view; Some (mk t prim end_view) })"

definition is_content_frame :: "view \<Rightarrow> bool" where
  "is_content_frame v \<longleftrightarrow> view_id v = 0"

definition Attribute_size :: "view list \<Rightarrow> attribute \<Rightarrow> nat option" where
  "Attribute_size vs a =
     do { prim \<leftarrow> vec_at vs (tgt_primary a);
          let res = (if real_of_int \<bar>value_primary a\<bar> > 1 / 2 then 1 else 0);
          if IsCenterAnchor (attr_type a) then
            do { sec \<leftarrow> (case tgt_secondary a of None \<Rightarrow> Some None | Some j \<Rightarrow> map_option Some (vec_at vs j));
                 Some (res + 3 +
                   (if Some (tgt_primary a) \<noteq> tgt_secondary a then 1 else 0) +
                   (if \<not> is_content_frame prim \<or> (case sec of None \<Rightarrow> False | Some s \<Rightarrow> \<not> is_content_frame s)
                    then 1 else 0)) }
          else Some (res + 1 + (if \<not> is_content_frame prim then 1 else 0)) }"

text \<open>
  \<^verbatim>\<open>Attribute::operator==\<close> compares the views pointed to by their ids, so it may relate
  attributes of two different apps.
\<close>

definition view_eq :: "view \<Rightarrow> view \<Rightarrow> bool" where
  "view_eq v w \<longleftrightarrow> view_id v = view_id w"

definition EqualOrNull :: "view list \<Rightarrow> nat option \<Rightarrow> view list \<Rightarrow> nat option \<Rightarrow> bool option" where
  "EqualOrNull vs p ws q =
     (case (p, q) of
        (None, None) \<Rightarrow> Some True
      | (Some i, Some j) \<Rightarrow> do { v \<leftarrow> vec_at vs i; w \<leftarrow> vec_at ws j; Some (view_eq v w) }
      | _ \<Rightarrow> Some False)"

definition Attribute_eq :: "view list \<Rightarrow> attribute \<Rightarrow> view list \<Rightarrow> attribute \<Rightarrow> bool option" where
  "Attribute_eq vs a ws b =
     (if attr_type a = attr_type b \<and> attr_view_size a = attr_view_size b \<and>
         value_primary a = value_primary b \<and> value_secondary a = value_secondary b \<and>
         attr_bias a = attr_bias b
      then do { x \<leftarrow> EqualOrNull vs (Some (attr_src a)) ws (Some (attr_src b));
                y \<leftarrow> EqualOrNull vs (Some (tgt_primary a)) ws (Some (tgt_primary b));
                z \<leftarrow> EqualOrNull vs (tgt_secondary a) ws (tgt_secondary b);
                Some (x \<and> y \<and> z) }
      else Some False)"

definition Attribute_less :: "attribute \<Rightarrow> attribute \<Rightarrow> bool" where
  "Attribute_less a b \<longleftrightarrow> attr_prob a < attr_prob b"

definition Attribute_greater :: "attribute \<Rightarrow> attribute \<Rightarrow> bool" where
  "Attribute_greater a b \<longleftrightarrow> attr_prob a > attr_prob b"

section \<open>Views\<close>

definition View_make :: "int \<Rightarrow> int \<Rightarrow> int \<Rightarrow> int \<Rightarrow> string \<Rightarrow> int \<Rightarrow> proto_view option \<Rightarrow> view" where
  "View_make l t r b nm i pv =
     \<lparr>xleft = l, xright = r, ytop = t, ybottom = b, view_padding = Padding_zero, view_name = nm,
      view_id = i, view_pos = - 1, view_id_text = view_id_string i, view_proto = pv,
      view_attributes = Map.empty, view_view_size = Map.empty\<rparr>"

definition View_named :: "int \<Rightarrow> int \<Rightarrow> int \<Rightarrow> int \<Rightarrow> string \<Rightarrow> int \<Rightarrow> string \<Rightarrow> view" where
  "View_named l t r b nm i txt = (View_make l t r b nm i None)\<lparr>view_id_text := txt\<rparr>"

definition View_of_proto_ptr :: "proto_view \<Rightarrow> view" where
  "View_of_proto_ptr p = View_make (xleft p) (ytop p) (xright p) (ybottom p) (pv_type p) (pv_seq_id p) (Some p)"

definition View_of_proto :: "proto_view \<Rightarrow> view" where
  "View_of_proto p = View_make (xleft p) (ytop p) (xright p) (ybottom p) (pv_type p) (pv_seq_id p) None"

text \<open>The copy made by the constructors and the assignment of \<^verbatim>\<open>App\<close>: position, name and id.\<close>

definition View_fresh :: "view \<Rightarrow> view" where
  "View_fresh v = View_make (xleft v) (ytop v) (xright v) (ybottom v) (view_name v) (view_id v) None"

definition rect_width :: "'a rectangle_scheme \<Rightarrow> int" where
  "rect_width v = xright v - xleft v"

definition rect_height :: "'a rectangle_scheme \<Rightarrow> int" where
  "rect_height v = ybottom v - ytop v"

definition xcenter :: "'a rectangle_scheme \<Rightarrow> real" where
  "xcenter v = real_of_int (xright v + xleft v) / 2"

definition ycenter :: "'a rectangle_scheme \<Rightarrow> real" where
  "ycenter v = real_of_int (ytop v + ybottom v) / 2"

definition HasAttribute :: "view \<Rightarrow> orientation \<Rightarrow> bool" where
  "HasAttribute v oi \<longleftrightarrow> view_attributes v oi \<noteq> None"

definition GetAttribute :: "view \<Rightarrow> orientation \<Rightarrow> attribute option" where
  "GetAttribute v oi = do { CHECK (HasAttribute v oi); view_attributes v oi }"

definition GetAttributeProb :: "view \<Rightarrow> orientation \<Rightarrow> real option" where
  "GetAttributeProb v oi = do { a \<leftarrow> GetAttribute v oi; Some (attr_prob a) }"

definition HasFixedPosition :: "'a rectangle_scheme \<Rightarrow> bool" where
  "HasFixedPosition v \<longleftrightarrow> xleft v \<noteq> - 1 \<and> xright v \<noteq> - 1 \<and> ytop v \<noteq> - 1 \<and> ybottom v \<noteq> - 1"

definition setPosition :: "view \<Rightarrow> view \<Rightarrow> view" where
  "setPosition v w = v\<lparr>xleft := xleft w, xright := xright w, ytop := ytop w, ybottom := ybottom w\<rparr>"

text \<open>\<^verbatim>\<open>ApplyAttribute\<close> on the view at position \<open>i\<close>; the attribute must belong to it.\<close>

definition ApplyAttribute :: "view list \<Rightarrow> nat \<Rightarrow> orientation \<Rightarrow> attribute \<Rightarrow> view list option" where
  "ApplyAttribute vs i oi a =
     do { CHECK (attr_src a = i);
          v \<leftarrow> vec_at vs i;
          Some (vs[i := v\<lparr>view_attributes := (view_attributes v)(oi \<mapsto> a)\<rparr>]) }"

text \<open>\<^verbatim>\<open>LineTo\<close>: the segment between the two anchored sides.\<close>

definition hor_line :: "int \<Rightarrow> int \<Rightarrow> 'a rectangle_scheme \<Rightarrow> 'b rectangle_scheme \<Rightarrow> line_segment option" where
  "hor_line x1 x2 src tgt =
     do { (p, q) \<leftarrow> ClosestPoint (ytop src) (ybottom src) (ytop tgt) (ybottom tgt);
          Some (LineSegment x1 p x2 q) }"

definition ver_line :: "int \<Rightarrow> int \<Rightarrow> 'a rectangle_scheme \<Rightarrow> 'b rectangle_scheme \<Rightarrow> line_segment option" where
  "ver_line y1 y2 src tgt =
     do { (p, q) \<leftarrow> ClosestPoint (xleft src) (xright src) (xleft tgt) (xright tgt);
          Some (LineSegment p y1 q y2) }"

fun LineTo :: "'a rectangle_scheme \<Rightarrow> 'b rectangle_scheme \<Rightarrow> constraint_type \<Rightarrow> line_segment option" where
  "LineTo src tgt T2B = ver_line (ytop src) (ybottom tgt) src tgt"
| "LineTo src tgt B2T = ver_line (ybottom src) (ytop tgt) src tgt"
| "LineTo src tgt R2L = hor_line (xright src) (xleft tgt) src tgt"
| "LineTo src tgt L2R = hor_line (xleft src) (xright tgt) src tgt"
| "LineTo src tgt L2L = hor_line (xleft src) (xleft tgt) src tgt"
| "LineTo src tgt R2R = hor_line (xright src) (xright tgt) src tgt"
| "LineTo src tgt T2T = ver_line (ytop src) (ytop tgt) src tgt"
| "LineTo src tgt B2B = ver_line (ybottom src) (ybottom tgt) src tgt"
| "LineTo src tgt _ = None"

section \<open>Apps\<close>

definition App_empty :: app where
  "App_empty = \<lparr>seq_id_to_pos = [], app_resizable = [], app_views = []\<rparr>"

definition AddView :: "app \<Rightarrow> view \<Rightarrow> app" where
  "AddView a v = a\<lparr>app_views := app_views a @ [v\<lparr>view_pos := int (length (app_views a))\<rparr>]\<rparr>"

definition AddViews :: "app \<Rightarrow> view list \<Rightarrow> app" where
  "AddViews a vs = foldl AddView a vs"

text \<open>\<^verbatim>\<open>findView\<close>: the position of the first view with the id.\<close>

fun find_view_from :: "nat \<Rightarrow> view list \<Rightarrow> int \<Rightarrow> nat option" where
  "find_view_from n [] i = None"
| "find_view_from n (v # vs) i = (if view_id v = i then Some n else find_view_from (Suc n) vs i)"

definition findView :: "app \<Rightarrow> int \<Rightarrow> nat option" where
  "findView a i = find_view_from 0 (app_views a) i"

definition IsResizable :: "app \<Rightarrow> orientation \<Rightarrow> bool option" where
  "IsResizable a oi =
     do { CHECK (length (app_resizable a) = 2); vec_at (app_resizable a) (orientation_index oi) }"

definition setResizable :: "app \<Rightarrow> bool list \<Rightarrow> app" where
  "setResizable a r = a\<lparr>app_resizable := r\<rparr>"

record device =
  dev_width :: int
  dev_height :: int

definition SetResizable :: "app \<Rightarrow> device \<Rightarrow> device list \<Rightarrow> app" where
  "SetResizable a ref al =
     a\<lparr>app_resizable := [list_ex (\<lambda>d. dev_width ref \<noteq> dev_width d) al,
                        list_ex (\<lambda>d. dev_height ref \<noteq> dev_height d) al]\<rparr>"

definition InitializeResizable :: "bool \<Rightarrow> app \<Rightarrow> proto_screen \<Rightarrow> app option" where
  "InitializeResizable xml a sc =
     do { root \<leftarrow> vec_at (ps_views sc) 0;
          h \<leftarrow> GetViewSize xml root HORIZONTAL;
          v \<leftarrow> GetViewSize xml root VERTICAL;
          Some (a\<lparr>app_resizable := [h \<noteq> FIXED, v \<noteq> FIXED]\<rparr>) }"

text \<open>\<^verbatim>\<open>copyAttributes\<close>: the pointers are resolved anew through the ids.\<close>

definition copy_attribute :: "app \<Rightarrow> app \<Rightarrow> attribute \<Rightarrow> attribute option" where
  "copy_attribute self other a =
     do { s \<leftarrow> vec_at (app_views other) (attr_src a);
          p \<leftarrow> vec_at (app_views other) (tgt_primary a);
          s' \<leftarrow> findView self (view_id s);
          p' \<leftarrow> findView self (view_id p);
          q' \<leftarrow> (case tgt_secondary a of
                   None \<Rightarrow> Some None
                 | Some j \<Rightarrow> do { q \<leftarrow> vec_at (app_views other) j; map_option Some (findView self (view_id q)) });
          b \<leftarrow> Attribute_full (attr_type a) (attr_view_size a) (value_primary a) (value_secondary a)
                 s' p' q' (attr_bias a);
          Some (b\<lparr>attr_prob := attr_prob a\<rparr>) }"

text \<open>\<^verbatim>\<open>attributes.insert\<close> keeps an entry that is already there.\<close>

definition insert_attribute :: "app \<Rightarrow> nat \<Rightarrow> orientation \<Rightarrow> attribute \<Rightarrow> app option" where
  "insert_attribute a i oi x =
     do { v \<leftarrow> vec_at (app_views a) i;
          Some (a\<lparr>app_views := (app_views a)[i :=
            (if view_attributes v oi = None then v\<lparr>view_attributes := (view_attributes v)(oi \<mapsto> x)\<rparr> else v)]\<rparr>) }"

definition copy_view_attribute :: "app \<Rightarrow> nat \<Rightarrow> app \<Rightarrow> orientation \<Rightarrow> app option" where
  "copy_view_attribute other i self oi =
     do { w \<leftarrow> vec_at (app_views other) i;
          case view_attributes w oi of
            None \<Rightarrow> Some self
          | Some a \<Rightarrow> do { b \<leftarrow> copy_attribute self other a; insert_attribute self i oi b } }"

definition copyAttributes :: "app \<Rightarrow> app \<Rightarrow> app option" where
  "copyAttributes self other =
     fold_opt (\<lambda>s i. fold_opt (copy_view_attribute other i) s both_orientations) self
       [0..<length (app_views other)]"

text \<open>The copy constructor and the assignment operator build the same value.\<close>

definition App_copy :: "app \<Rightarrow> app option" where
  "App_copy other =
     copyAttributes
       (AddViews \<lparr>seq_id_to_pos = seq_id_to_pos other, app_resizable = app_resizable other, app_views = []\<rparr>
          (map View_fresh (app_views other)))
       other"

text \<open>
  The constructor from the first \<open>n\<close> views. The loop stops after a view when \<open>n\<close> views are
  there, so \<open>n \<le> 0\<close> takes all of them.
\<close>

definition App_prefix :: "view list \<Rightarrow> int \<Rightarrow> bool list \<Rightarrow> app" where
  "App_prefix vs n r =
     AddViews \<lparr>seq_id_to_pos = [], app_resizable = r, app_views = []\<rparr>
       (map View_fresh (if n \<le> 0 then vs else take (nat n) vs))"

text \<open>The constructor that joins a vertical and a horizontal solution.\<close>

definition merge_step :: "app \<Rightarrow> app \<Rightarrow> view \<Rightarrow> app option" where
  "merge_step horizontal self v =
     do { j \<leftarrow> findView horizontal (view_id v);
          h \<leftarrow> vec_at (app_views horizontal) j;
          CHECK (view_id v < int (length (seq_id_to_pos self)));
          CHECK (0 \<le> view_id v);
          Some (AddView
            (self\<lparr>seq_id_to_pos := (seq_id_to_pos self)[nat (view_id v) := int (length (app_views self))]\<rparr>)
            (View_make (xleft h) (ytop v) (xright h) (ybottom v) (view_name v) (view_id v) None)) }"

definition App_merge :: "app \<Rightarrow> app \<Rightarrow> app option" where
  "App_merge vertical horizontal =
     do { a \<leftarrow> fold_opt (merge_step horizontal)
                 \<lparr>seq_id_to_pos = replicate (length (app_views vertical)) 0,
                  app_resizable = app_resizable vertical, app_views = []\<rparr> (app_views vertical);
          b \<leftarrow> copyAttributes a vertical;
          copyAttributes b horizontal }"

text \<open>The constructor from a screen, with the views of the root constraint layout only.\<close>

definition app_proto_step :: "bool \<Rightarrow> proto_screen \<Rightarrow> bool \<Rightarrow> app \<Rightarrow> proto_view \<Rightarrow> app option" where
  "app_proto_step xml sc only a p =
     do { keep \<leftarrow> (if \<not> only then Some True else InRootConstraintLayout xml sc p);
          if keep then do {
            CHECK (0 \<le> pv_seq_id p);
            m \<leftarrow> vec_set (seq_id_to_pos a) (nat (pv_seq_id p)) (int (length (app_views a)));
            Some (AddView (a\<lparr>seq_id_to_pos := m\<rparr>) (View_of_proto p)) }
          else Some a }"

definition App_of_screen :: "bool \<Rightarrow> proto_screen \<Rightarrow> bool \<Rightarrow> app option" where
  "App_of_screen xml sc only =
     do { a \<leftarrow> fold_opt (app_proto_step xml sc only)
                 \<lparr>seq_id_to_pos = replicate (length (ps_views sc)) 0, app_resizable = [], app_views = []\<rparr>
                 (ps_views sc);
          v0 \<leftarrow> vec_at (app_views a) 0;
          CHECK (view_name v0 = ''android.support.constraint.ConstraintLayout'');
          InitializeResizable xml a sc }"

text \<open>
  \<^verbatim>\<open>InitializeAttributes\<close>: the attribute of one view and orientation, read from the screen.
  A target outside the app has \<open>seq_id_to_pos\<close> 0, so it is replaced by the root.
\<close>

definition target_position :: "app \<Rightarrow> proto_view option \<Rightarrow> nat option option" where
  "target_position a t =
     (case t of
        None \<Rightarrow> Some None
      | Some w \<Rightarrow> do { j \<leftarrow> vec_at_int (seq_id_to_pos a) (pv_seq_id w);
                       CHECK (0 \<le> j \<and> j < int (length (app_views a)));
                       Some (Some (nat j)) })"

definition screen_attribute ::
    "bool \<Rightarrow> proto_screen \<Rightarrow> app \<Rightarrow> nat \<Rightarrow> proto_view \<Rightarrow> orientation \<Rightarrow> name list \<Rightarrow> name list \<Rightarrow> attribute option" where
  "screen_attribute xml sc a i ref oi starts ends =
     do { st \<leftarrow> FindPropertyTarget xml sc ref starts;
          en \<leftarrow> FindPropertyTarget xml sc ref ends;
          CHECK (fst st \<noteq> None \<or> fst en \<noteq> None);
          sz \<leftarrow> GetViewSize xml ref oi;
          ms \<leftarrow> ConstraintTypeToMargin_name (snd st);
          me \<leftarrow> ConstraintTypeToMargin_name (snd en);
          vp \<leftarrow> GetMarginFromProto xml ref ms;
          vs \<leftarrow> GetMarginFromProto xml ref me;
          sv \<leftarrow> target_position a (fst st);
          ev \<leftarrow> target_position a (fst en);
          bias \<leftarrow> GetBiasFromProto xml ref oi;
          x \<leftarrow> Attribute_from_properties i sz (to_int vp) (to_int vs) sv (snd st) ev (snd en) bias;
          prim \<leftarrow> vec_at (app_views a) (tgt_primary x);
          sec \<leftarrow> (case tgt_secondary x of None \<Rightarrow> Some None | Some j \<Rightarrow> map_option Some (vec_at (app_views a) j));
          let sz1 = (if attr_view_size x = MATCH_PARENT \<and> view_id prim = 0 \<and>
                        (case sec of None \<Rightarrow> False | Some s \<Rightarrow> view_id s = 0)
                     then MATCH_CONSTRAINT else attr_view_size x);
          let sz2 = (if sz1 = MATCH_CONSTRAINT \<and> IsRelationalAnchor (attr_type x) then FIXED else sz1);
          Some (x\<lparr>attr_view_size := sz2\<rparr>) }"

definition initialize_view :: "bool \<Rightarrow> proto_screen \<Rightarrow> app \<Rightarrow> nat \<Rightarrow> app option" where
  "initialize_view xml sc a i =
     do { v \<leftarrow> vec_at (app_views a) i;
          ref \<leftarrow> vec_at_int (ps_views sc) (view_id v);
          if is_content_frame v then
            do { p \<leftarrow> Padding_Initialize xml ref (view_padding v);
                 Some (a\<lparr>app_views := (app_views a)[i := v\<lparr>view_padding := p\<rparr>]\<rparr>) }
          else
            do { h \<leftarrow> screen_attribute xml sc a i ref HORIZONTAL
                        LEFT_CONSTRAINT_LAYOUT_CONSTRAINTS RIGHT_CONSTRAINT_LAYOUT_CONSTRAINTS;
                 a1 \<leftarrow> insert_attribute a i HORIZONTAL h;
                 w \<leftarrow> screen_attribute xml sc a1 i ref VERTICAL
                        TOP_CONSTRAINT_LAYOUT_CONSTRAINTS BOTTOM_CONSTRAINT_LAYOUT_CONSTRAINTS;
                 insert_attribute a1 i VERTICAL w } }"

definition InitializeAttributes :: "bool \<Rightarrow> app \<Rightarrow> proto_screen \<Rightarrow> app option" where
  "InitializeAttributes xml a sc =
     do { a1 \<leftarrow> InitializeResizable xml a sc;
          fold_opt (initialize_view xml sc) a1 [0..<length (app_views a1)] }"

text \<open>\<^verbatim>\<open>dimensionsMatch\<close> reads the first view of the same app twice.\<close>

definition dimensionsMatch :: "app \<Rightarrow> app \<Rightarrow> bool option" where
  "dimensionsMatch a other =
     do { v \<leftarrow> vec_at (app_views a) 0;
          w \<leftarrow> vec_at (app_views a) 0;
          Some (xleft v = xleft w \<and> ytop v = ytop w \<and> xright v = xright w \<and> ybottom v = ybottom w) }"

definition resetViews :: "app \<Rightarrow> app" where
  "resetViews a =
     a\<lparr>app_views := map (\<lambda>v.
        if is_content_frame v then v
        else if view_id v > int (length (app_views a) div 2)
        then v\<lparr>xleft := - 1, xright := - 1, ytop := - 1, ybottom := - 1\<rparr> else v) (app_views a)\<rparr>"

text \<open>
  The order of \<^verbatim>\<open>GetViewSortedBySize\<close>. Two content frames would each precede the other, so the
  order is strict only when at most one view has id 0; \<^verbatim>\<open>std::sort\<close> fixes no order of equal
  sizes, a stable sort is used here.
\<close>

definition size_before :: "view \<Rightarrow> view \<Rightarrow> bool" where
  "size_before v w =
     (if is_content_frame v then True
      else if is_content_frame w then False
      else rect_width v * rect_height v > rect_width w * rect_height w)"

fun insert_by_size :: "view \<Rightarrow> view list \<Rightarrow> view list" where
  "insert_by_size v [] = [v]"
| "insert_by_size v (w # ws) = (if size_before w v \<or> \<not> size_before v w then w # insert_by_size v ws else v # w # ws)"

definition GetViewSortedBySize :: "app \<Rightarrow> view list" where
  "GetViewSortedBySize a = foldl (\<lambda>vs v. insert_by_size v vs) [] (app_views a)"

section \<open>Writing layouts\<close>

text \<open>\<^verbatim>\<open>std::to_string(float)\<close>: six decimals, rounded to the nearest, ties to even.\<close>

definition round_even :: "real \<Rightarrow> int" where
  "round_even x =
     (let f = \<lfloor>x\<rfloor>; d = x - of_int f in
      if d < 1 / 2 then f else if d > 1 / 2 then f + 1 else if even f then f else f + 1)"

definition to_string_real :: "real \<Rightarrow> string" where
  "to_string_real r =
     (let m = nat (round_even (\<bar>r\<bar> * 1000000)); frac = show_nat (m mod 1000000)
      in (if r < 0 then ''-'' else []) @ show_nat (m div 1000000) @ ''.'' @
         replicate (6 - length frac) CHR ''0'' @ frac)"

definition put_property :: "properties \<Rightarrow> string option \<Rightarrow> string \<Rightarrow> properties option" where
  "put_property m k v = do { key \<leftarrow> k; Some (m(key \<mapsto> v)) }"

definition AlignToProperties :: "view list \<Rightarrow> attribute \<Rightarrow> output_type \<Rightarrow> properties \<Rightarrow> properties option" where
  "AlignToProperties vs a ty m =
     do { prim \<leftarrow> vec_at vs (tgt_primary a);
          m1 \<leftarrow> put_property m (ConstraintTypeToAttribute (attr_type a) ty)
                  (if view_id prim = 0 then ''parent'' else view_id_text prim);
          CHECK (value_primary a = 0 \<or> value_secondary a = 0);
          m2 \<leftarrow> (if value_primary a \<noteq> 0
                 then put_property m1 (ConstraintTypeToMargin (attr_type a) ty) (px_string (value_primary a))
                 else Some m1);
          (if value_secondary a \<noteq> 0
           then put_property m2 (ConstraintTypeToMargin (attr_type a) ty) (px_string (value_secondary a))
           else Some m2) }"

text \<open>
  \<^verbatim>\<open>CenterToProperties\<close> builds the two relational halves; both are relational, so
  \<^verbatim>\<open>ToProperties\<close> on them is \<^verbatim>\<open>AlignToProperties\<close>.
\<close>

definition CenterToProperties :: "view list \<Rightarrow> attribute \<Rightarrow> output_type \<Rightarrow> properties \<Rightarrow> properties option" where
  "CenterToProperties vs a ty m =
     do { (ts, te) \<leftarrow> SplitCenterAnchor (attr_type a);
          l \<leftarrow> Attribute_relational ts (attr_view_size a) (value_primary a) (attr_src a) (tgt_primary a);
          m1 \<leftarrow> AlignToProperties vs l ty m;
          sec \<leftarrow> tgt_secondary a;
          r \<leftarrow> Attribute_relational te (attr_view_size a) (value_secondary a) (attr_src a) sec;
          m2 \<leftarrow> AlignToProperties vs r ty m1;
          if attr_bias a \<noteq> 1 / 2 then
            do { oi \<leftarrow> ConstraintTypeToOrientation (attr_type a);
                 put_property m2
                   (constants_name (case oi of HORIZONTAL \<Rightarrow> layout_constraintHorizontal_bias
                                    | VERTICAL \<Rightarrow> layout_constraintVertical_bias) ty)
                   (to_string_real (attr_bias a)) }
          else Some m2 }"

definition Attribute_ToProperties :: "view list \<Rightarrow> attribute \<Rightarrow> output_type \<Rightarrow> properties \<Rightarrow> properties option" where
  "Attribute_ToProperties vs a ty m =
     (if IsCenterAnchor (attr_type a) then CenterToProperties vs a ty m else AlignToProperties vs a ty m)"

definition attribute_properties ::
    "view list \<Rightarrow> view \<Rightarrow> output_type \<Rightarrow> properties \<Rightarrow> orientation \<Rightarrow> properties option" where
  "attribute_properties vs v ty m oi =
     (case view_attributes v oi of
        None \<Rightarrow> Some m
      | Some a \<Rightarrow> Attribute_ToProperties vs a ty m)"

definition size_property :: "view \<Rightarrow> output_type \<Rightarrow> properties \<Rightarrow> orientation \<Rightarrow> properties option" where
  "size_property v ty m oi =
     do { a \<leftarrow> view_attributes v oi;
          s \<leftarrow> ViewSizeStr_value (attr_view_size a)
                 (case oi of HORIZONTAL \<Rightarrow> rect_width v | VERTICAL \<Rightarrow> rect_height v);
          put_property m (constants_name (case oi of HORIZONTAL \<Rightarrow> layout_width | VERTICAL \<Rightarrow> layout_height) ty) s }"

definition View_ToProperties :: "view list \<Rightarrow> view \<Rightarrow> output_type \<Rightarrow> properties option" where
  "View_ToProperties vs v ty =
     do { m0 \<leftarrow> put_property Map.empty (constants_name ID ty) (view_id_text v);
          m1 \<leftarrow> Padding_ToProperties (view_padding v) ty m0;
          m2 \<leftarrow> (if \<not> is_content_frame v then
                   do { CHECK (HasAttribute v HORIZONTAL \<and> HasAttribute v VERTICAL);
                        fold_opt (size_property v ty) m1 both_orientations }
                 else
                   do { h \<leftarrow> put_property m1 (constants_name layout_width ty) (px_string (rect_width v));
                        put_property h (constants_name layout_height ty) (px_string (rect_height v)) });
          fold_opt (attribute_properties vs v ty) m2 both_orientations }"

section \<open>Relations of a screen\<close>

text \<open>
  \<^verbatim>\<open>GetNodesWithId\<close>: the views with an id property, the first one of each id. The unordered
  map is listed in the order of the views; the callbacks only count, so the order is free.
\<close>

definition nodes_step :: "bool \<Rightarrow> (string \<times> view) list \<Rightarrow> proto_view \<Rightarrow> (string \<times> view) list" where
  "nodes_step xml nodes p =
     (case property_value xml p ID of
        Some i \<Rightarrow> if i \<in> fst ` set nodes then nodes else nodes @ [(i, View_of_proto_ptr p)]
      | None \<Rightarrow> nodes)"

definition GetNodesWithId :: "bool \<Rightarrow> proto_screen \<Rightarrow> (string \<times> view) list" where
  "GetNodesWithId xml sc = foldl (nodes_step xml) [] (ps_views sc)"

type_synonym relation_call = "name \<times> view \<times> view \<times> view list"

definition layout_relation ::
    "bool \<Rightarrow> (string \<times> view) list \<Rightarrow> view list \<Rightarrow> bool \<Rightarrow> view \<Rightarrow> name \<Rightarrow> relation_call list option" where
  "layout_relation xml nodes vs with_parent src n =
     do { p \<leftarrow> view_proto src;
          case property_value xml p n of
            None \<Rightarrow> Some []
          | Some i \<Rightarrow>
              if with_parent \<and> i = ''parent'' then
                do { w \<leftarrow> vec_at_int vs (pv_parent_seq_id p); Some [(n, src, w, vs)] }
              else (case map_of nodes i of
                      None \<Rightarrow> Some []
                    | Some w \<Rightarrow> Some [(n, src, w, vs)]) }"

definition for_each_relation ::
    "bool \<Rightarrow> proto_screen \<Rightarrow> bool \<Rightarrow> name list \<Rightarrow> relation_call list option" where
  "for_each_relation xml sc with_parent ns =
     (let nodes = GetNodesWithId xml sc; vs = map View_of_proto_ptr (ps_views sc) in
      map_option concat
        (map_opt (\<lambda>(i, src). map_option concat (map_opt (layout_relation xml nodes vs with_parent src) ns)) nodes))"

definition ForEachConstraintLayoutRelation :: "bool \<Rightarrow> proto_screen \<Rightarrow> relation_call list option" where
  "ForEachConstraintLayoutRelation xml sc = for_each_relation xml sc True CONSTRAINT_LAYOUT_CONSTRAINTS"

definition ForEachRelativeLayoutRelation :: "bool \<Rightarrow> proto_screen \<Rightarrow> relation_call list option" where
  "ForEachRelativeLayoutRelation xml sc = for_each_relation xml sc False RELATIVE_CONSTRAINTS"

section \<open>JSON\<close>

datatype json =
    JNull
  | JBool bool
  | JInt int
  | JReal real
  | JString string
  | JArray "json list"
  | JObject "string \<Rightarrow> json option"

definition Attribute_ToJSON :: "view list \<Rightarrow> int list \<Rightarrow> int list \<Rightarrow> attribute \<Rightarrow> json option" where
  "Attribute_ToJSON vs seq_to_pos swaps a =
     do { t \<leftarrow> ConstraintTypeStr (attr_type a);
          let pos_of = (\<lambda>i. do { v \<leftarrow> vec_at vs i; p \<leftarrow> vec_at_int seq_to_pos (view_id v);
                             if swaps = [] then Some (JInt p) else map_option JInt (vec_at_int swaps p) });
          s \<leftarrow> pos_of (attr_src a);
          p \<leftarrow> pos_of (tgt_primary a);
          q \<leftarrow> (case tgt_secondary a of None \<Rightarrow> Some (JInt (- 1)) | Some j \<Rightarrow> pos_of j);
          Some (JObject [''type'' \<mapsto> JString t, ''prob'' \<mapsto> JReal (attr_prob a),
            ''size'' \<mapsto> JString (ViewSizeStr (attr_view_size a)),
            ''val_primary'' \<mapsto> JInt (value_primary a), ''val_secondary'' \<mapsto> JInt (value_secondary a),
            ''bias'' \<mapsto> JReal (attr_bias a), ''tgt_prim'' \<mapsto> p, ''tgt_scnd'' \<mapsto> q, ''srcid'' \<mapsto> s]) }"

definition View_ToJSON :: "view list \<Rightarrow> view \<Rightarrow> output_type \<Rightarrow> json option" where
  "View_ToJSON vs v ty = map_option (\<lambda>m. JObject (\<lambda>k. map_option JString (m k))) (View_ToProperties vs v ty)"

definition view_coordinates :: "view \<Rightarrow> string \<Rightarrow> json option" where
  "view_coordinates v =
     [''id'' \<mapsto> JInt (view_id v), ''x'' \<mapsto> JInt (xleft v), ''y'' \<mapsto> JInt (ytop v),
      ''width'' \<mapsto> JInt (rect_width v), ''height'' \<mapsto> JInt (rect_height v)]"

definition View_ToCoordinatesJSON :: "view \<Rightarrow> json" where
  "View_ToCoordinatesJSON v = JObject (view_coordinates v)"

definition App_ToJSON :: "app \<Rightarrow> output_type \<Rightarrow> json option" where
  "App_ToJSON a ty =
     do { layout \<leftarrow> map_opt (\<lambda>v. View_ToJSON (app_views a) v ty) (app_views a);
          key \<leftarrow> constants_name ID ty;
          v0 \<leftarrow> vec_at (app_views a) 0;
          l0 \<leftarrow> vec_at layout 0;
          root \<leftarrow> (case l0 of JObject m \<Rightarrow> Some (JObject (m(key \<mapsto> JString ''parent''))) | _ \<Rightarrow> None);
          Some (JObject [''layout'' \<mapsto> JArray (layout[0 := root]),
            ''x_offset'' \<mapsto> JInt (xleft v0), ''y_offset'' \<mapsto> JInt (ytop v0)]) }"

definition App_ToCoordinatesJSON :: "app \<Rightarrow> json" where
  "App_ToCoordinatesJSON a =
     JObject [''Views'' \<mapsto> JArray (map View_ToCoordinatesJSON (app_views a)), ''layout_id'' \<mapsto> JInt (- 1)]"

text \<open>
  The overload that adds a candidate's constraints and probabilities. Both probabilities of
  the layout are the horizontal one.
\<close>

definition coordinates_entry ::
    "app \<Rightarrow> app \<Rightarrow> (real \<times> real) list \<Rightarrow> nat \<Rightarrow> json option" where
  "coordinates_entry a cand probs i =
     do { v \<leftarrow> vec_at (app_views a) i;
          pr \<leftarrow> vec_at probs i;
          let m = (view_coordinates v)(''prob_hori'' \<mapsto> JReal (fst pr), ''prob_vert'' \<mapsto> JReal (snd pr));
          if i = 0 then Some (JObject m)
          else do {
            w \<leftarrow> vec_at (app_views cand) i;
            av \<leftarrow> view_attributes w VERTICAL;
            ah \<leftarrow> view_attributes w HORIZONTAL;
            jv \<leftarrow> Attribute_ToJSON (app_views cand) (seq_id_to_pos cand) [] av;
            jh \<leftarrow> Attribute_ToJSON (app_views cand) (seq_id_to_pos cand) [] ah;
            Some (JObject (m(''vert_const'' \<mapsto> jv, ''hort_const'' \<mapsto> jh))) } }"

definition App_ToCoordinatesJSON_candidate ::
    "app \<Rightarrow> int \<Rightarrow> app \<Rightarrow> json \<Rightarrow> real \<times> real \<Rightarrow> (real \<times> real) list \<Rightarrow> json option" where
  "App_ToCoordinatesJSON_candidate a layout_id cand constraints layout_prob probs =
     do { CHECK (list_all (\<lambda>v. vec_at_int (seq_id_to_pos cand) (view_id v) = Some (view_id v)) (app_views cand));
          layout \<leftarrow> map_opt (coordinates_entry a cand probs) [0..<length (app_views a)];
          Some (JObject [''Views'' \<mapsto> JArray layout, ''layout_id'' \<mapsto> JInt layout_id,
            ''layout_prob_horizontal'' \<mapsto> JReal (fst layout_prob),
            ''layout_prob_vertical'' \<mapsto> JReal (fst layout_prob), ''constraints'' \<mapsto> constraints]) }"

text \<open>The constructor from JSON reads the coordinates back; the ids are the positions.\<close>

definition as_int :: "json option \<Rightarrow> int option" where
  "as_int j = (case j of Some (JInt i) \<Rightarrow> Some i | Some JNull \<Rightarrow> Some 0 | None \<Rightarrow> Some 0
     | Some (JReal r) \<Rightarrow> Some (to_int r) | Some (JBool b) \<Rightarrow> Some (if b then 1 else 0) | _ \<Rightarrow> None)"

definition view_of_json :: "int \<Rightarrow> json \<Rightarrow> view option" where
  "view_of_json i j =
     (case j of
        JObject m \<Rightarrow>
          do { x \<leftarrow> as_int (m ''x''); y \<leftarrow> as_int (m ''y'');
               w \<leftarrow> as_int (m ''width''); h \<leftarrow> as_int (m ''height'');
               Some (View_make x y (x + w) (y + h) ''-1'' i None) }
      | _ \<Rightarrow> None)"

fun views_of_json :: "int \<Rightarrow> json list \<Rightarrow> view list option" where
  "views_of_json i [] = Some []"
| "views_of_json i (j # js) = do { v \<leftarrow> view_of_json i j; vs \<leftarrow> views_of_json (i + 1) js; Some (v # vs) }"

definition App_of_json :: "json \<Rightarrow> app option" where
  "App_of_json j =
     (case j of
        JObject m \<Rightarrow>
          (case m ''Views'' of
             Some (JArray js) \<Rightarrow> map_option (AddViews App_empty) (views_of_json 0 js)
           | None \<Rightarrow> Some App_empty
           | _ \<Rightarrow> None)
      | _ \<Rightarrow> None)"

section \<open>The invariant of an app\<close>

definition attribute_ok :: "nat \<Rightarrow> nat \<Rightarrow> orientation \<Rightarrow> attribute \<Rightarrow> bool" where
  "attribute_ok n i oi a \<longleftrightarrow>
     attr_src a = i \<and> tgt_primary a < n \<and>
     (case tgt_secondary a of None \<Rightarrow> IsRelationalAnchor (attr_type a)
      | Some j \<Rightarrow> \<not> IsRelationalAnchor (attr_type a) \<and> j < n) \<and>
     ConstraintTypeToOrientation (attr_type a) = Some oi \<and>
     0 \<le> value_primary a \<and> 0 \<le> value_secondary a"

definition app_wf :: "app \<Rightarrow> bool" where
  "app_wf a \<longleftrightarrow>
     distinct (map view_id (app_views a)) \<and>
     (\<forall>i < length (app_views a). view_pos (app_views a ! i) = int i \<and>
        (\<forall>oi x. view_attributes (app_views a ! i) oi = Some x \<longrightarrow>
           attribute_ok (length (app_views a)) i oi x))"

lemma app_wf_attribute:
  "app_wf a \<Longrightarrow> i < length (app_views a) \<Longrightarrow> view_attributes (app_views a ! i) oi = Some x \<Longrightarrow>
     attribute_ok (length (app_views a)) i oi x"
  by (simp add: app_wf_def)

lemma find_view_from_nth:
  "distinct (map view_id vs) \<Longrightarrow> i < length vs \<Longrightarrow> find_view_from n vs (view_id (vs ! i)) = Some (n + i)"
proof (induction vs arbitrary: n i)
  case (Cons v vs)
  show ?case
  proof (cases i)
    case (Suc j)
    with Cons.prems have "view_id v \<noteq> view_id (vs ! j)" by (auto simp: image_iff)
    with Suc Cons show ?thesis by simp
  qed simp
qed simp

lemma find_view_from_Some:
  "find_view_from n vs k = Some j \<Longrightarrow> n \<le> j \<and> j - n < length vs \<and> view_id (vs ! (j - n)) = k"
proof (induction n vs k rule: find_view_from.induct)
  case (2 n v vs i)
  then show ?case
    by (auto simp: nth_Cons' split: if_splits)
qed simp

lemma findView_nth:
  "distinct (map view_id (app_views a)) \<Longrightarrow> i < length (app_views a) \<Longrightarrow>
     findView a (view_id (app_views a ! i)) = Some i"
  using find_view_from_nth [of "app_views a" i 0] by (simp add: findView_def)

lemma findView_Some: "findView a k = Some j \<Longrightarrow> j < length (app_views a) \<and> view_id (app_views a ! j) = k"
  using find_view_from_Some [of 0 "app_views a" k j] by (simp add: findView_def)

lemma AddView_simps [simp]:
  "app_views (AddView a v) = app_views a @ [v\<lparr>view_pos := int (length (app_views a))\<rparr>]"
  "seq_id_to_pos (AddView a v) = seq_id_to_pos a" "app_resizable (AddView a v) = app_resizable a"
  by (simp_all add: AddView_def)

lemma AddViews_Cons: "AddViews a (v # vs) = AddViews (AddView a v) vs"
  by (simp add: AddViews_def)

lemma AddViews_simps [simp]:
  "length (app_views (AddViews a vs)) = length (app_views a) + length vs"
  "seq_id_to_pos (AddViews a vs) = seq_id_to_pos a" "app_resizable (AddViews a vs) = app_resizable a"
  by (induction vs arbitrary: a) (simp_all add: AddViews_def)

lemma AddViews_nth:
  "app_views a = [] \<Longrightarrow> i < length vs \<Longrightarrow> app_views (AddViews a vs) ! i = (vs ! i)\<lparr>view_pos := int i\<rparr>"
proof -
  have "i < length (app_views a) + length vs \<Longrightarrow>
    app_views (AddViews a vs) ! i =
      (if i < length (app_views a) then app_views a ! i
       else (vs ! (i - length (app_views a)))\<lparr>view_pos := int i\<rparr>)" for a i
  proof (induction vs arbitrary: a)
    case (Cons v vs)
    show ?case
      using Cons.prems Cons.IH [of "AddView a v"]
      by (auto simp: AddViews_Cons nth_append nth_Cons' not_less less_Suc_eq)
  qed (simp add: AddViews_def)
  then show "app_views a = [] \<Longrightarrow> i < length vs \<Longrightarrow>
    app_views (AddViews a vs) ! i = (vs ! i)\<lparr>view_pos := int i\<rparr>"
    by simp
qed

section \<open>Copies\<close>

lemma view_attributes_self: "v\<lparr>view_attributes := view_attributes v\<rparr> = v" for v :: view
  by simp

lemma app_views_self: "a\<lparr>app_views := app_views a\<rparr> = a" for a :: app
  by simp

text \<open>What \<^verbatim>\<open>copyAttributes\<close> does: attributes already present stay, the others are added.\<close>

definition add_attributes :: "view \<Rightarrow> view \<Rightarrow> view" where
  "add_attributes v w = v\<lparr>view_attributes := view_attributes w ++ view_attributes v\<rparr>"

definition same_ids :: "app \<Rightarrow> app \<Rightarrow> bool" where
  "same_ids a b \<longleftrightarrow> map view_id (app_views a) = map view_id (app_views b)"

lemma same_ids_length: "same_ids a b \<Longrightarrow> length (app_views a) = length (app_views b)"
  unfolding same_ids_def by (metis length_map)

lemma same_ids_nth: "same_ids a b \<Longrightarrow> i < length (app_views b) \<Longrightarrow> view_id (app_views a ! i) = view_id (app_views b ! i)"
  unfolding same_ids_def by (metis length_map nth_map)

lemma map_update_same: "f y = f (xs ! i) \<Longrightarrow> map f (xs[i := y]) = map f xs"
proof (cases "i < length xs")
  case True
  assume "f y = f (xs ! i)"
  then have "map f (xs[i := y]) = (map f xs)[i := map f xs ! i]" using True by (simp add: map_update)
  then show ?thesis by (simp only: list_update_id)
qed (simp add: list_update_beyond)

lemma same_ids_update:
  "same_ids a b \<Longrightarrow> view_id v = view_id (app_views a ! i) \<Longrightarrow> same_ids (a\<lparr>app_views := (app_views a)[i := v]\<rparr>) b"
  by (simp add: same_ids_def map_update_same)

lemma findView_same_ids:
  assumes "same_ids a b" "app_wf b" "i < length (app_views b)"
  shows "findView a (view_id (app_views b ! i)) = Some i"
  using assms findView_nth [of a i] same_ids_length [of a b] same_ids_nth [of a b i]
  by (simp add: app_wf_def same_ids_def)

lemma copy_attribute_id:
  assumes "same_ids self other" "app_wf other" "i < length (app_views other)"
    and "view_attributes (app_views other ! i) oi = Some a"
  shows "copy_attribute self other a = Some a"
proof -
  have ok: "attribute_ok (length (app_views other)) i oi a"
    using assms by (simp add: app_wf_attribute)
  note fv = findView_same_ids [OF assms(1,2)]
  show ?thesis
  proof (cases "tgt_secondary a")
    case None
    with ok fv assms(3) show ?thesis
      by (simp add: copy_attribute_def attribute_ok_def Attribute_full_def)
  next
    case (Some j)
    with ok fv assms(3) show ?thesis
      by (simp add: copy_attribute_def attribute_ok_def Attribute_full_def)
  qed
qed

lemma copy_view_attributes:
  assumes "same_ids self other" "app_wf other" "i < length (app_views other)"
  shows "fold_opt (copy_view_attribute other i) self both_orientations =
    Some (self\<lparr>app_views := (app_views self)[i := add_attributes (app_views self ! i) (app_views other ! i)]\<rparr>)"
proof -
  let ?w = "app_views other ! i"
  have len: "i < length (app_views self)" using assms same_ids_length by fastforce
  have step: "copy_view_attribute other i s oi =
      Some (s\<lparr>app_views := (app_views s)[i := (app_views s ! i)\<lparr>view_attributes :=
        (view_attributes (app_views s ! i))(oi := (case view_attributes (app_views s ! i) oi of
           Some x \<Rightarrow> Some x | None \<Rightarrow> view_attributes ?w oi))\<rparr>]\<rparr>)"
    if "same_ids s other" for s oi
  proof -
    have l: "i < length (app_views s)" using that assms(3) same_ids_length by fastforce
    show ?thesis
    proof (cases "view_attributes ?w oi")
      case None
      have "(view_attributes (app_views s ! i))(oi := (case view_attributes (app_views s ! i) oi of
          Some x \<Rightarrow> Some x | None \<Rightarrow> view_attributes ?w oi)) = view_attributes (app_views s ! i)"
        using None by (auto split: option.splits)
      then show ?thesis using None assms(3) by (simp only: view_attributes_self list_update_id app_views_self)
        (simp add: copy_view_attribute_def)
    next
      case (Some a)
      with l assms(3) copy_attribute_id [OF that assms(2,3) Some] show ?thesis
        by (cases "view_attributes (app_views s ! i) oi")
          (auto simp: copy_view_attribute_def insert_attribute_def fun_upd_idem)
    qed
  qed
  let ?s1 = "self\<lparr>app_views := (app_views self)[i := (app_views self ! i)\<lparr>view_attributes :=
        (view_attributes (app_views self ! i))(HORIZONTAL := (case view_attributes (app_views self ! i) HORIZONTAL of
           Some x \<Rightarrow> Some x | None \<Rightarrow> view_attributes ?w HORIZONTAL))\<rparr>]\<rparr>"
  have s1: "same_ids ?s1 other"
    using assms(1) by (rule same_ids_update) simp
  have "view_attributes ?w ++ view_attributes (app_views self ! i) =
    (view_attributes (app_views self ! i))
      (HORIZONTAL := (case view_attributes (app_views self ! i) HORIZONTAL of
           Some x \<Rightarrow> Some x | None \<Rightarrow> view_attributes ?w HORIZONTAL),
       VERTICAL := (case view_attributes (app_views self ! i) VERTICAL of
           Some x \<Rightarrow> Some x | None \<Rightarrow> view_attributes ?w VERTICAL))"
  proof
    fix oi show "(view_attributes ?w ++ view_attributes (app_views self ! i)) oi =
    ((view_attributes (app_views self ! i))
      (HORIZONTAL := (case view_attributes (app_views self ! i) HORIZONTAL of
           Some x \<Rightarrow> Some x | None \<Rightarrow> view_attributes ?w HORIZONTAL),
       VERTICAL := (case view_attributes (app_views self ! i) VERTICAL of
           Some x \<Rightarrow> Some x | None \<Rightarrow> view_attributes ?w VERTICAL))) oi"
      by (cases oi) (auto simp: map_add_def split: option.splits)
  qed
  with step [OF assms(1), of HORIZONTAL] step [OF s1, of VERTICAL] len show ?thesis
    by (simp add: both_orientations_def add_attributes_def)
qed

definition copied_views :: "nat \<Rightarrow> view list \<Rightarrow> view list \<Rightarrow> view list" where
  "copied_views k vs ws = map (\<lambda>i. if i < k then add_attributes (vs ! i) (ws ! i) else vs ! i) [0..<length vs]"

lemma add_attributes_simps [simp]:
  "view_id (add_attributes v w) = view_id v" "xleft (add_attributes v w) = xleft v"
  "xright (add_attributes v w) = xright v" "ytop (add_attributes v w) = ytop v"
  "ybottom (add_attributes v w) = ybottom v" "view_pos (add_attributes v w) = view_pos v"
  "view_name (add_attributes v w) = view_name v" "view_padding (add_attributes v w) = view_padding v"
  "view_attributes (add_attributes v w) = view_attributes w ++ view_attributes v"
  by (simp_all add: add_attributes_def)

lemma copied_views_simps [simp]:
  "length (copied_views k vs ws) = length vs"
  "i < length vs \<Longrightarrow> copied_views k vs ws ! i = (if i < k then add_attributes (vs ! i) (ws ! i) else vs ! i)"
  by (simp_all add: copied_views_def)

lemma copied_views_ids: "map view_id (copied_views k vs ws) = map view_id vs"
  by (rule nth_equalityI) simp_all

lemma copied_views_0: "copied_views 0 vs ws = vs"
  by (rule nth_equalityI) simp_all

lemma copied_views_Suc:
  "(copied_views k vs ws)[k := add_attributes (copied_views k vs ws ! k) (ws ! k)] = copied_views (Suc k) vs ws"
  if "k < length vs"
  by (rule nth_equalityI) (use that in \<open>auto simp: nth_list_update\<close>)

lemma copyAttributes_result:
  assumes "same_ids self other" "app_wf other"
  shows "copyAttributes self other =
    Some (self\<lparr>app_views := copied_views (length (app_views self)) (app_views self) (app_views other)\<rparr>)"
proof -
  let ?f = "\<lambda>s i. fold_opt (copy_view_attribute other i) s both_orientations"
  have len: "length (app_views self) = length (app_views other)" using assms(1) by (rule same_ids_length)
  have "fold_opt ?f self [0..<k] = Some (self\<lparr>app_views := copied_views k (app_views self) (app_views other)\<rparr>)"
    if "k \<le> length (app_views other)" for k
    using that
  proof (induction k)
    case (Suc k)
    let ?s = "self\<lparr>app_views := copied_views k (app_views self) (app_views other)\<rparr>"
    have "same_ids ?s other" using assms(1) by (simp add: same_ids_def copied_views_ids)
    from copy_view_attributes [OF this assms(2), of k] Suc len
    have "?f ?s k = Some (self\<lparr>app_views := copied_views (Suc k) (app_views self) (app_views other)\<rparr>)"
      using copied_views_Suc [of k "app_views self" "app_views other"] by (simp del: copied_views_simps)
    with Suc show ?case by (simp add: fold_opt_append)
  qed (simp add: copied_views_0)
  from this [of "length (app_views other)"] show ?thesis by (simp add: copyAttributes_def len)
qed

lemma View_fresh_simps [simp]:
  "view_id (View_fresh v) = view_id v" "xleft (View_fresh v) = xleft v" "xright (View_fresh v) = xright v"
  "ytop (View_fresh v) = ytop v" "ybottom (View_fresh v) = ybottom v" "view_name (View_fresh v) = view_name v"
  "view_attributes (View_fresh v) = Map.empty" "view_padding (View_fresh v) = Padding_zero"
  by (simp_all add: View_fresh_def View_make_def)

lemma App_copy_result:
  assumes "app_wf a"
  shows "\<exists>b. App_copy a = Some b \<and> length (app_views b) = length (app_views a) \<and>
    seq_id_to_pos b = seq_id_to_pos a \<and> app_resizable b = app_resizable a \<and>
    (\<forall>i < length (app_views a). app_views b ! i =
      add_attributes ((View_fresh (app_views a ! i))\<lparr>view_pos := int i\<rparr>) (app_views a ! i))"
proof -
  let ?e = "\<lparr>seq_id_to_pos = seq_id_to_pos a, app_resizable = app_resizable a, app_views = []\<rparr>"
  let ?s = "AddViews ?e (map View_fresh (app_views a))"
  have nth: "app_views ?s ! i = (View_fresh (app_views a ! i))\<lparr>view_pos := int i\<rparr>"
    if "i < length (app_views a)" for i
    using that AddViews_nth [of ?e i "map View_fresh (app_views a)"] by simp
  have "same_ids ?s a"
    unfolding same_ids_def by (rule nth_equalityI) (simp_all add: nth)
  with assms show ?thesis
    by (simp add: App_copy_def copyAttributes_result nth)
qed

text \<open>
  C25. Copying a well-formed app succeeds and gives a well-formed app with the same views at
  the same positions, the same geometry and the same constraints (the pointers are resolved
  to the views of the copy); only the paddings and the proto messages are lost.
\<close>

theorem App_copy_faithful:
  assumes "app_wf a"
  shows "\<exists>b. App_copy a = Some b \<and> app_wf b \<and> seq_id_to_pos b = seq_id_to_pos a \<and>
    app_resizable b = app_resizable a \<and> length (app_views b) = length (app_views a) \<and>
    (\<forall>i < length (app_views a). let v = app_views a ! i; w = app_views b ! i in
       view_id w = view_id v \<and> view_name w = view_name v \<and> xleft w = xleft v \<and> xright w = xright v \<and>
       ytop w = ytop v \<and> ybottom w = ybottom v \<and> view_attributes w = view_attributes v \<and>
       view_padding w = Padding_zero \<and> view_proto w = None)"
proof -
  obtain b where b: "App_copy a = Some b" "length (app_views b) = length (app_views a)"
    "seq_id_to_pos b = seq_id_to_pos a" "app_resizable b = app_resizable a"
    and nth: "\<And>i. i < length (app_views a) \<Longrightarrow> app_views b ! i =
      add_attributes ((View_fresh (app_views a ! i))\<lparr>view_pos := int i\<rparr>) (app_views a ! i)"
    using App_copy_result [OF assms] by blast
  have pr: "view_proto (app_views b ! i) = None" if "i < length (app_views a)" for i
    using that by (simp add: nth add_attributes_def View_fresh_def View_make_def)
  have "map view_id (app_views b) = map view_id (app_views a)"
    by (rule nth_equalityI) (simp_all add: b nth)
  with assms have "app_wf b"
    by (simp add: app_wf_def b nth)
  with b nth pr show ?thesis by (simp add: Let_def)
qed

lemma ApplyAttribute_wf:
  assumes "app_wf a" "attribute_ok (length (app_views a)) i oi x" "ApplyAttribute (app_views a) i oi x = Some vs"
  shows "app_wf (a\<lparr>app_views := vs\<rparr>)"
proof -
  let ?v = "(app_views a ! i)\<lparr>view_attributes := (view_attributes (app_views a ! i))(oi \<mapsto> x)\<rparr>"
  have vs: "vs = (app_views a)[i := ?v]" "i < length (app_views a)"
    using assms(3) by (auto simp: ApplyAttribute_def bind_Some_iff vec_at_Some split: if_splits)
  moreover have "map view_id ((app_views a)[i := ?v]) = map view_id (app_views a)"
    by (rule map_update_same) simp
  ultimately show ?thesis
    using assms(1,2) by (auto simp: app_wf_def nth_list_update)
qed

section \<open>Joining a vertical and a horizontal solution\<close>

lemma AddView_seq: "(AddView b w)\<lparr>seq_id_to_pos := q\<rparr> = AddView (b\<lparr>seq_id_to_pos := q\<rparr>) w"
  by (simp add: AddView_def)

lemma AddViews_seq: "(AddViews b ws)\<lparr>seq_id_to_pos := q\<rparr> = AddViews (b\<lparr>seq_id_to_pos := q\<rparr>) ws"
  by (induction ws arbitrary: b) (simp_all add: AddViews_def AddView_seq)

lemma AddViews_snoc: "AddView (AddViews b ws) w = AddViews b (ws @ [w])"
  by (simp add: AddViews_def)

lemma View_make_simps [simp]:
  "view_id (View_make l t r b nm i pv) = i" "xleft (View_make l t r b nm i pv) = l"
  "xright (View_make l t r b nm i pv) = r" "ytop (View_make l t r b nm i pv) = t"
  "ybottom (View_make l t r b nm i pv) = b" "view_name (View_make l t r b nm i pv) = nm"
  "view_attributes (View_make l t r b nm i pv) = Map.empty"
  by (simp_all add: View_make_def)

lemma merge_views:
  assumes "same_ids h v" "app_wf v" "\<forall>i < length (app_views v). 0 \<le> view_id (app_views v ! i) \<and>
      view_id (app_views v ! i) < int (length (app_views v))"
    and "k \<le> length (app_views v)" "length (seq_id_to_pos e) = length (app_views v)" "app_views e = []"
  shows "\<exists>m. length m = length (app_views v) \<and>
    fold_opt (merge_step h) e (take k (app_views v)) =
      Some (AddViews (e\<lparr>seq_id_to_pos := m\<rparr>)
        (map (\<lambda>i. View_make (xleft (app_views h ! i)) (ytop (app_views v ! i)) (xright (app_views h ! i))
               (ybottom (app_views v ! i)) (view_name (app_views v ! i)) (view_id (app_views v ! i)) None) [0..<k]))"
  using assms(4)
proof (induction k)
  case 0
  show ?case by (rule exI [of _ "seq_id_to_pos e"]) (simp add: AddViews_def assms(5))
next
  case (Suc k)
  then obtain m where m: "length m = length (app_views v)"
    "fold_opt (merge_step h) e (take k (app_views v)) =
      Some (AddViews (e\<lparr>seq_id_to_pos := m\<rparr>)
        (map (\<lambda>i. View_make (xleft (app_views h ! i)) (ytop (app_views v ! i)) (xright (app_views h ! i))
               (ybottom (app_views v ! i)) (view_name (app_views v ! i)) (view_id (app_views v ! i)) None) [0..<k]))"
    by auto
  have k: "k < length (app_views v)" using Suc.prems by simp
  have "findView h (view_id (app_views v ! k)) = Some k"
    using findView_same_ids [OF assms(1,2) k] .
  moreover have "k < length (app_views h)" using k same_ids_length [OF assms(1)] by simp
  ultimately have "merge_step h (AddViews (e\<lparr>seq_id_to_pos := m\<rparr>)
        (map (\<lambda>i. View_make (xleft (app_views h ! i)) (ytop (app_views v ! i)) (xright (app_views h ! i))
               (ybottom (app_views v ! i)) (view_name (app_views v ! i)) (view_id (app_views v ! i)) None) [0..<k]))
      (app_views v ! k) =
    Some (AddViews (e\<lparr>seq_id_to_pos := m[nat (view_id (app_views v ! k)) := int k]\<rparr>)
        (map (\<lambda>i. View_make (xleft (app_views h ! i)) (ytop (app_views v ! i)) (xright (app_views h ! i))
               (ybottom (app_views v ! i)) (view_name (app_views v ! i)) (view_id (app_views v ! i)) None) [0..<Suc k]))"
    using assms(3,6) k m(1) by (simp add: merge_step_def AddViews_seq AddViews_snoc)
  moreover have "take (Suc k) (app_views v) = take k (app_views v) @ [app_views v ! k]"
    using k by (rule take_Suc_conv_app_nth)
  ultimately show ?case
    using m by (intro exI [of _ "m[nat (view_id (app_views v ! k)) := int k]"]) (simp add: fold_opt_append)
qed

lemma App_merge_joined:
  assumes "app_wf v" "app_wf h" "map view_id (app_views h) = map view_id (app_views v)"
    and "\<forall>i < length (app_views v). 0 \<le> view_id (app_views v ! i) \<and>
      view_id (app_views v ! i) < int (length (app_views v))"
  shows "\<exists>m. App_merge v h = Some m \<and> app_wf m \<and> app_resizable m = app_resizable v \<and>
    length (app_views m) = length (app_views v) \<and>
    (\<forall>i < length (app_views v). let x = app_views m ! i in
       view_id x = view_id (app_views v ! i) \<and>
       xleft x = xleft (app_views h ! i) \<and> xright x = xright (app_views h ! i) \<and>
       ytop x = ytop (app_views v ! i) \<and> ybottom x = ybottom (app_views v ! i) \<and>
       view_attributes x = view_attributes (app_views h ! i) ++ view_attributes (app_views v ! i))"
proof -
  let ?n = "length (app_views v)"
  let ?e = "\<lparr>seq_id_to_pos = replicate ?n 0, app_resizable = app_resizable v, app_views = []\<rparr>"
  let ?w = "\<lambda>i. View_make (xleft (app_views h ! i)) (ytop (app_views v ! i)) (xright (app_views h ! i))
               (ybottom (app_views v ! i)) (view_name (app_views v ! i)) (view_id (app_views v ! i)) None"
  have hv: "same_ids h v" using assms(3) by (simp add: same_ids_def)
  have n: "length (app_views h) = ?n" using hv by (rule same_ids_length)
  obtain m where m: "fold_opt (merge_step h) ?e (app_views v) =
      Some (AddViews \<lparr>seq_id_to_pos = m, app_resizable = app_resizable v, app_views = []\<rparr> (map ?w [0..<?n]))"
    using merge_views [OF hv assms(1,4), of ?n ?e] by auto
  let ?e' = "\<lparr>seq_id_to_pos = m, app_resizable = app_resizable v, app_views = []\<rparr>"
  let ?a = "AddViews ?e' (map ?w [0..<?n])"
  have a: "app_views ?a ! i = (?w i)\<lparr>view_pos := int i\<rparr>" if "i < ?n" for i
    using that AddViews_nth [of ?e' i "map ?w [0..<?n]"] by simp
  have av: "same_ids ?a v"
    unfolding same_ids_def by (rule nth_equalityI) (simp_all add: a)
  let ?b = "?a\<lparr>app_views := copied_views ?n (app_views ?a) (app_views v)\<rparr>"
  have b: "copyAttributes ?a v = Some ?b" using copyAttributes_result [OF av assms(1)] by simp
  have bh: "same_ids ?b h"
    using av hv by (simp add: same_ids_def copied_views_ids)
  let ?c = "?b\<lparr>app_views := copied_views ?n (app_views ?b) (app_views h)\<rparr>"
  have c: "App_merge v h = Some ?c"
    using copyAttributes_result [OF bh assms(2)] by (simp add: App_merge_def m b)
  have nth: "app_views ?c ! i =
      add_attributes (add_attributes ((?w i)\<lparr>view_pos := int i\<rparr>) (app_views v ! i)) (app_views h ! i)"
    if "i < ?n" for i using that by (simp add: a)
  have ids: "map view_id (app_views ?c) = map view_id (app_views v)"
    using av by (simp add: same_ids_def copied_views_ids)
  have len: "length (app_views ?c) = ?n" "app_resizable ?c = app_resizable v" by simp_all
  from c nth ids len obtain r where r: "App_merge v h = Some r" "map view_id (app_views r) = map view_id (app_views v)"
      "length (app_views r) = ?n" "app_resizable r = app_resizable v"
    and rn: "\<And>i. i < ?n \<Longrightarrow> app_views r ! i =
      add_attributes (add_attributes ((?w i)\<lparr>view_pos := int i\<rparr>) (app_views v ! i)) (app_views h ! i)"
    by blast
  have "app_wf r"
    using assms(1,2) n r(2) by (auto simp: app_wf_def r(3) rn)
  with r rn show ?thesis by (simp add: Let_def)
qed

text \<open>
  C28. Joining a vertical and a horizontal solution over the same views (with ids below the
  number of views) succeeds with a well-formed app: the result takes the vertical coordinates of the
  first and the horizontal ones of the second. In both orientations a view has the constraint that
  it has in the vertical solution, if it has one there, and else the one of the horizontal solution;
  so when the solutions have constraints in their own orientation only, the result has the vertical
  ones of the first and the horizontal ones of the second.
\<close>

theorem App_merge_result:
  assumes "app_wf v" "app_wf h" "map view_id (app_views h) = map view_id (app_views v)"
    and "\<forall>i < length (app_views v). 0 \<le> view_id (app_views v ! i) \<and>
      view_id (app_views v ! i) < int (length (app_views v))"
  shows "\<exists>m. App_merge v h = Some m \<and> app_wf m \<and> app_resizable m = app_resizable v \<and>
    length (app_views m) = length (app_views v) \<and>
    (\<forall>i < length (app_views v). let x = app_views m ! i in
       view_id x = view_id (app_views v ! i) \<and>
       xleft x = xleft (app_views h ! i) \<and> xright x = xright (app_views h ! i) \<and>
       ytop x = ytop (app_views v ! i) \<and> ybottom x = ybottom (app_views v ! i) \<and>
       (\<forall>oi. view_attributes x oi =
          (case view_attributes (app_views v ! i) oi of Some a \<Rightarrow> Some a | None \<Rightarrow> view_attributes (app_views h ! i) oi)))"
  using App_merge_joined [OF assms] by (simp add: Let_def map_add_def fun_eq_iff)

section \<open>Reading the constraints of an accepted screen\<close>

lemma FindPropertyTarget_cases:
  "FindPropertyTarget xml app v ns = Some (t, n) \<Longrightarrow> (t = None \<and> n = NO_NAME) \<or> (t \<noteq> None \<and> n \<in> set ns)"
  by (induction ns) (auto simp: bind_Some_iff split: option.splits)

lemma ValidMargins_loop_True:
  "ValidMargins_loop xml vs = Some True \<Longrightarrow> v \<in> set vs \<Longrightarrow>
     margins_nonneg xml v [layout_marginLeft, layout_marginRight, layout_marginTop, layout_marginBottom] = Some True"
  by (induction vs) (auto simp: bind_Some_iff simp del: margins_nonneg.simps split: if_splits)

definition margin_names :: "name set" where
  "margin_names = {NO_NAME, layout_marginLeft, layout_marginRight, layout_marginTop, layout_marginBottom}"

lemma margin_nonneg:
  assumes "ValidMargins xml sc = Some True" "v \<in> set (ps_views sc)" "n \<in> margin_names"
    and "GetMarginFromProto xml v n = Some m"
  shows "0 \<le> m"
proof (cases "n = NO_NAME")
  case True
  with assms(4) show ?thesis by (simp add: GetMarginFromProto_def)
next
  case False
  have all: "margins_nonneg xml v ns = Some True \<Longrightarrow> n \<in> set ns \<Longrightarrow> 0 \<le> m" for ns
    by (induction ns) (auto simp: bind_Some_iff assms(4) split: if_splits)
  have "margins_nonneg xml v [layout_marginLeft, layout_marginRight, layout_marginTop, layout_marginBottom] = Some True"
    using ValidMargins_loop_True [OF assms(1) [unfolded ValidMargins_def] assms(2)] .
  then show ?thesis by (rule all) (use False assms(3) in \<open>auto simp: margin_names_def\<close>)
qed

text \<open>The pairs of property groups that \<^verbatim>\<open>InitializeAttributes\<close> uses, and their types.\<close>

fun oi_starts :: "orientation \<Rightarrow> name list" where
  "oi_starts HORIZONTAL = LEFT_CONSTRAINT_LAYOUT_CONSTRAINTS"
| "oi_starts VERTICAL = TOP_CONSTRAINT_LAYOUT_CONSTRAINTS"

fun oi_ends :: "orientation \<Rightarrow> name list" where
  "oi_ends HORIZONTAL = RIGHT_CONSTRAINT_LAYOUT_CONSTRAINTS"
| "oi_ends VERTICAL = BOTTOM_CONSTRAINT_LAYOUT_CONSTRAINTS"

lemma group_defs:
  "set LEFT_CONSTRAINT_LAYOUT_CONSTRAINTS = {layout_constraintLeft_toLeftOf, layout_constraintLeft_toRightOf}"
  "set TOP_CONSTRAINT_LAYOUT_CONSTRAINTS = {layout_constraintTop_toTopOf, layout_constraintTop_toBottomOf}"
  "set RIGHT_CONSTRAINT_LAYOUT_CONSTRAINTS = {layout_constraintRight_toRightOf, layout_constraintRight_toLeftOf}"
  "set BOTTOM_CONSTRAINT_LAYOUT_CONSTRAINTS = {layout_constraintBottom_toTopOf, layout_constraintBottom_toBottomOf}"
  by (simp_all add: LEFT_CONSTRAINT_LAYOUT_CONSTRAINTS_def RIGHT_CONSTRAINT_LAYOUT_CONSTRAINTS_def
      TOP_CONSTRAINT_LAYOUT_CONSTRAINTS_def BOTTOM_CONSTRAINT_LAYOUT_CONSTRAINTS_def)

lemma group_type:
  assumes "n \<in> set (oi_starts oi) \<union> set (oi_ends oi)" "ATTRIBUTE_TO_TYPE n = Some t"
  shows "IsRelationalAnchor t \<and> ConstraintTypeToOrientation t = Some oi"
  using assms by (cases oi) (auto simp: group_defs ATTRIBUTE_TO_TYPE_def)

lemma group_margin:
  "n \<in> insert NO_NAME (set (oi_starts oi) \<union> set (oi_ends oi)) \<Longrightarrow> ConstraintTypeToMargin_name n = Some k \<Longrightarrow>
     k \<in> margin_names"
  by (cases oi) (auto simp: group_defs ConstraintTypeToMargin_name_def margin_names_def)

lemma GetCenterAnchor_orientation:
  "GetCenterAnchor s e = Some t \<Longrightarrow> ConstraintTypeToOrientation s = Some oi \<Longrightarrow>
     \<not> IsRelationalAnchor t \<and> ConstraintTypeToOrientation t = Some oi"
  by (auto simp: GetCenterAnchor_def IsRelationalAnchor_def split: if_splits)

lemma target_position_Some:
  "target_position a t = Some r \<Longrightarrow> (t = None \<longleftrightarrow> r = None) \<and> (\<forall>j. r = Some j \<longrightarrow> j < length (app_views a))"
  by (cases t) (auto simp: target_position_def bind_Some_iff split: if_splits)

lemma Attribute_from_properties_ok:
  assumes "Attribute_from_properties i sz vp vs sv sn ev en bias = Some x"
    and "sn = NO_NAME \<or> sn \<in> set (oi_starts oi)" "en = NO_NAME \<or> en \<in> set (oi_ends oi)"
    and "sv = None \<longleftrightarrow> sn = NO_NAME" "ev = None \<longleftrightarrow> en = NO_NAME"
    and "\<forall>j. sv = Some j \<longrightarrow> j < n" "\<forall>j. ev = Some j \<longrightarrow> j < n" "0 \<le> vp" "0 \<le> vs"
  shows "attribute_ok n i oi x"
proof (cases "sn = NO_NAME")
  case True
  with assms(1) have "en \<noteq> NO_NAME"
    by (auto simp: Attribute_from_properties_def ATTRIBUTE_TO_TYPE_def)
  with True assms group_type [of en oi] show ?thesis
    by (auto simp: Attribute_from_properties_def attribute_ok_def bind_Some_iff)
next
  case False
  show ?thesis
  proof (cases "en = NO_NAME")
    case True
    with False assms group_type [of sn oi] show ?thesis
      by (auto simp: Attribute_from_properties_def attribute_ok_def bind_Some_iff)
  next
    case en: False
    with False assms group_type [of sn oi] GetCenterAnchor_orientation show ?thesis
      by (fastforce simp: Attribute_from_properties_def attribute_ok_def bind_Some_iff)
  qed
qed

lemma screen_attribute_ok:
  assumes "screen_attribute xml sc a i ref oi (oi_starts oi) (oi_ends oi) = Some x"
    and "ValidMargins xml sc = Some True" "ref \<in> set (ps_views sc)"
  shows "attribute_ok (length (app_views a)) i oi x"
proof -
  from assms(1) obtain st en sz ms me vp vs sv ev bias y where
    st: "FindPropertyTarget xml sc ref (oi_starts oi) = Some st" and
    en: "FindPropertyTarget xml sc ref (oi_ends oi) = Some en" and
    ms: "ConstraintTypeToMargin_name (snd st) = Some ms" and
    me: "ConstraintTypeToMargin_name (snd en) = Some me" and
    vp: "GetMarginFromProto xml ref ms = Some vp" and vs: "GetMarginFromProto xml ref me = Some vs" and
    sv: "target_position a (fst st) = Some sv" and ev: "target_position a (fst en) = Some ev" and
    y: "Attribute_from_properties i sz (to_int vp) (to_int vs) sv (snd st) ev (snd en) bias = Some y" and
    xy: "\<exists>z. x = y\<lparr>attr_view_size := z\<rparr>"
    unfolding screen_attribute_def bind_Some_iff CHECK_Some Let_def option.inject
    by (elim exE conjE) (rule that, assumption+, blast)
  have c1: "(fst st = None \<and> snd st = NO_NAME) \<or> (fst st \<noteq> None \<and> snd st \<in> set (oi_starts oi))"
    using FindPropertyTarget_cases [of xml sc ref "oi_starts oi" "fst st" "snd st"] st by simp
  have c2: "(fst en = None \<and> snd en = NO_NAME) \<or> (fst en \<noteq> None \<and> snd en \<in> set (oi_ends oi))"
    using FindPropertyTarget_cases [of xml sc ref "oi_ends oi" "fst en" "snd en"] en by simp
  have nn: "NO_NAME \<notin> set (oi_starts oi) \<union> set (oi_ends oi)"
    by (cases oi) (auto simp: group_defs)
  have "ms \<in> margin_names" "me \<in> margin_names"
    using c1 c2 group_margin [OF _ ms, of oi] group_margin [OF _ me, of oi] by auto
  then have nonneg: "0 \<le> to_int vp" "0 \<le> to_int vs"
    using margin_nonneg [OF assms(2,3)] vp vs to_int_nonneg by blast+
  have "attribute_ok (length (app_views a)) i oi y"
  proof (rule Attribute_from_properties_ok [OF y])
    show "sv = None \<longleftrightarrow> snd st = NO_NAME" using target_position_Some [OF sv] c1 nn by auto
    show "ev = None \<longleftrightarrow> snd en = NO_NAME" using target_position_Some [OF ev] c2 nn by auto
    show "\<forall>j. sv = Some j \<longrightarrow> j < length (app_views a)" using target_position_Some [OF sv] by simp
    show "\<forall>j. ev = Some j \<longrightarrow> j < length (app_views a)" using target_position_Some [OF ev] by simp
  qed (use c1 c2 nonneg in auto)
  with xy show ?thesis by (cases "tgt_secondary y") (auto simp: attribute_ok_def)
qed

lemma insert_attribute_wf:
  assumes "app_wf a" "attribute_ok (length (app_views a)) i oi x" "insert_attribute a i oi x = Some b"
  shows "app_wf b \<and> length (app_views b) = length (app_views a) \<and> i < length (app_views a) \<and>
    (\<forall>j. j < length (app_views a) \<longrightarrow> view_id (app_views b ! j) = view_id (app_views a ! j) \<and>
      (\<forall>oj. view_attributes (app_views a ! j) oj \<noteq> None \<longrightarrow> view_attributes (app_views b ! j) oj \<noteq> None)) \<and>
    view_attributes (app_views b ! i) oi \<noteq> None"
proof -
  from assms(3) obtain v where v: "i < length (app_views a)" "v = app_views a ! i"
      "b = a\<lparr>app_views := (app_views a)[i := (if view_attributes v oi = None
         then v\<lparr>view_attributes := (view_attributes v)(oi \<mapsto> x)\<rparr> else v)]\<rparr>" (is "b = a\<lparr>app_views := (app_views a)[i := ?w]\<rparr>")
    by (auto simp: insert_attribute_def bind_Some_iff vec_at_Some)
  have "map view_id ((app_views a)[i := ?w]) = map view_id (app_views a)"
    by (rule map_update_same) (simp add: v)
  with assms(1,2) v show ?thesis
    by (auto simp: app_wf_def nth_list_update)
qed

lemma initialize_view_wf:
  assumes "app_wf a" "ValidMargins xml sc = Some True" "initialize_view xml sc a i = Some b"
  shows "app_wf b \<and> length (app_views b) = length (app_views a) \<and>
    (\<forall>j. j < length (app_views a) \<longrightarrow> view_id (app_views b ! j) = view_id (app_views a ! j) \<and>
      (\<forall>oj. view_attributes (app_views a ! j) oj \<noteq> None \<longrightarrow> view_attributes (app_views b ! j) oj \<noteq> None)) \<and>
    (view_id (app_views a ! i) \<noteq> 0 \<longrightarrow> (\<forall>oj. view_attributes (app_views b ! i) oj \<noteq> None))"
proof -
  from assms(3) obtain ref where ref: "vec_at_int (ps_views sc) (view_id (app_views a ! i)) = Some ref"
      and i: "i < length (app_views a)"
    by (auto simp: initialize_view_def bind_Some_iff vec_at_Some)
  then have rs: "ref \<in> set (ps_views sc)"
    by (auto simp: vec_at_int_def vec_at_Some split: if_splits)
  show ?thesis
  proof (cases "view_id (app_views a ! i) = 0")
    case True
    with assms(3) i ref obtain p where b: "b = a\<lparr>app_views := (app_views a)[i := (app_views a ! i)\<lparr>view_padding := p\<rparr>]\<rparr>"
      by (auto simp: initialize_view_def bind_Some_iff is_content_frame_def)
    have "map view_id ((app_views a)[i := (app_views a ! i)\<lparr>view_padding := p\<rparr>]) = map view_id (app_views a)"
      by (rule map_update_same) simp
    with assms(1) True i show ?thesis
      by (auto simp: app_wf_def b nth_list_update)
  next
    case False
    with assms(3) i ref obtain h a1 w where
      h: "screen_attribute xml sc a i ref HORIZONTAL (oi_starts HORIZONTAL) (oi_ends HORIZONTAL) = Some h" and
      a1: "insert_attribute a i HORIZONTAL h = Some a1" and
      w: "screen_attribute xml sc a1 i ref VERTICAL (oi_starts VERTICAL) (oi_ends VERTICAL) = Some w" and
      b: "insert_attribute a1 i VERTICAL w = Some b"
      by (auto simp: initialize_view_def bind_Some_iff is_content_frame_def)
    note wf1 = insert_attribute_wf [OF assms(1) screen_attribute_ok [OF h assms(2) rs] a1]
    then have "app_wf a1" by simp
    note wf2 = insert_attribute_wf [OF this screen_attribute_ok [OF w assms(2) rs] b]
    have "view_attributes (app_views b ! i) oj \<noteq> None" for oj
      using wf1 wf2 i by (cases oj) auto
    with wf1 wf2 show ?thesis by auto
  qed
qed

lemma InitializeAttributes_result:
  assumes "app_wf a" "ValidMargins xml sc = Some True" "InitializeAttributes xml a sc = Some b"
  shows "app_wf b \<and> length (app_views b) = length (app_views a) \<and>
    (\<forall>i < length (app_views a). view_id (app_views b ! i) = view_id (app_views a ! i)) \<and>
    (\<forall>i < length (app_views a). view_id (app_views a ! i) \<noteq> 0 \<longrightarrow>
       (\<forall>oi. \<exists>x. view_attributes (app_views b ! i) oi = Some x \<and>
          attribute_ok (length (app_views b)) i oi x))"
proof -
  let ?n = "length (app_views a)"
  obtain a1 where a1: "InitializeResizable xml a sc = Some a1"
    "fold_opt (initialize_view xml sc) a1 [0..<?n] = Some b" and av: "app_views a1 = app_views a"
    using assms(3) by (auto simp: InitializeAttributes_def InitializeResizable_def bind_Some_iff)
  have wf1: "app_wf a1" using assms(1) av by (simp add: app_wf_def)
  have "k \<le> ?n \<Longrightarrow> fold_opt (initialize_view xml sc) a1 [0..<k] = Some c \<Longrightarrow>
      app_wf c \<and> length (app_views c) = ?n \<and>
      (\<forall>i < ?n. view_id (app_views c ! i) = view_id (app_views a ! i)) \<and>
      (\<forall>i < k. view_id (app_views a ! i) \<noteq> 0 \<longrightarrow> (\<forall>oi. view_attributes (app_views c ! i) oi \<noteq> None))" for k c
  proof (induction k arbitrary: c)
    case 0
    then show ?case using wf1 av by simp
  next
    case (Suc k)
    then obtain d where d: "fold_opt (initialize_view xml sc) a1 [0..<k] = Some d"
        "initialize_view xml sc d k = Some c"
      by (auto simp: fold_opt_append bind_Some_iff)
    note IH = Suc.IH [OF _ d(1)]
    from IH Suc.prems initialize_view_wf [OF _ assms(2) d(2)] show ?case
      by (auto simp: less_Suc_eq)
  qed
  from this [OF order.refl a1(2)] show ?thesis
    using app_wf_attribute [of b] by fastforce
qed

text \<open>
  C24. Reading the constraints of a screen with valid margins gives a well-formed app in which
  every view except the content frame has one constraint per orientation: its pointers stay
  inside the app, its type is of that orientation and its margins are not negative.
\<close>

theorem InitializeAttributes_wf:
  assumes "app_wf a" "ValidMargins xml sc = Some True" "InitializeAttributes xml a sc = Some b"
  shows "app_wf b \<and> length (app_views b) = length (app_views a) \<and>
    (\<forall>i < length (app_views a). view_id (app_views b ! i) = view_id (app_views a ! i)) \<and>
    (\<forall>i < length (app_views a). view_id (app_views a ! i) \<noteq> 0 \<longrightarrow>
       (\<forall>oi. \<exists>x. view_attributes (app_views b ! i) oi = Some x \<and>
          attribute_ok (length (app_views b)) i oi x))"
  using assms by (rule InitializeAttributes_result)

section \<open>Examples and round trips\<close>

text \<open>A content frame with two views; the second is centred and lies below the first.\<close>

definition sample_attribute :: "constraint_type \<Rightarrow> nat \<Rightarrow> nat \<Rightarrow> nat option \<Rightarrow> int \<Rightarrow> attribute" where
  "sample_attribute t src p q m =
     \<lparr>attr_type = t, attr_view_size = FIXED, value_primary = m, value_secondary = 0, attr_src = src,
      tgt_primary = p, tgt_secondary = q, attr_prob = - 1, attr_bias = 1 / 2\<rparr>"

definition sample_app :: app where
  "sample_app =
     \<lparr>seq_id_to_pos = [0, 1, 2], app_resizable = [True, True], app_views =
       [(View_make 0 0 100 100 ''root'' 0 None)\<lparr>view_pos := 0\<rparr>,
        (View_make 10 20 50 40 ''Button'' 1 None)\<lparr>view_pos := 1, view_attributes :=
          [HORIZONTAL \<mapsto> sample_attribute L2L 1 0 None 10, VERTICAL \<mapsto> sample_attribute T2T 1 0 None 20]\<rparr>,
        (View_make 20 50 80 70 ''Text'' 2 None)\<lparr>view_pos := 2, view_attributes :=
          [HORIZONTAL \<mapsto> sample_attribute L2LxR2R 2 0 (Some 0) 0, VERTICAL \<mapsto> sample_attribute T2B 2 1 None 10]\<rparr>]\<rparr>"

lemma sample_app_wf: "app_wf sample_app"
  by (auto simp: app_wf_def sample_app_def attribute_ok_def sample_attribute_def nth_Cons
      IsRelationalAnchor_def split: nat.splits if_splits)

lemma App_copy_faithful_witness: "\<exists>b. App_copy sample_app = Some b \<and> app_wf b"
  using App_copy_faithful [OF sample_app_wf] by blast

text \<open>The sample app as a vertical and a horizontal solution: the views of the other axis are elsewhere.\<close>

definition axis_solution :: "orientation \<Rightarrow> app" where
  "axis_solution oi = sample_app\<lparr>app_views := map (\<lambda>v.
     (if oi = VERTICAL then v\<lparr>xleft := 0, xright := 9\<rparr> else v\<lparr>ytop := 0, ybottom := 9\<rparr>)
       \<lparr>view_attributes := (view_attributes v)(if oi = VERTICAL then HORIZONTAL else VERTICAL := None)\<rparr>) (app_views sample_app)\<rparr>"

lemma axis_solution_wf: "app_wf (axis_solution oi)"
  by (cases oi) (auto simp: app_wf_def axis_solution_def sample_app_def attribute_ok_def sample_attribute_def nth_Cons
      IsRelationalAnchor_def split: nat.splits if_splits)

lemma App_merge_result_witness:
  "\<exists>m. App_merge (axis_solution VERTICAL) (axis_solution HORIZONTAL) = Some m \<and> app_wf m \<and>
     (let x = app_views m ! 2 in xleft x = 20 \<and> xright x = 80 \<and> ytop x = 50 \<and> ybottom x = 70 \<and>
        view_attributes x HORIZONTAL = Some (sample_attribute L2LxR2R 2 0 (Some 0) 0) \<and>
        view_attributes x VERTICAL = Some (sample_attribute T2B 2 1 None 10))"
proof -
  let ?v = "axis_solution VERTICAL" and ?h = "axis_solution HORIZONTAL"
  have n: "length (app_views ?v) = 3" by (simp add: axis_solution_def sample_app_def)
  have same: "map view_id (app_views ?h) = map view_id (app_views ?v)"
    by (simp add: axis_solution_def sample_app_def)
  have "\<forall>i < length (app_views ?v). 0 \<le> view_id (app_views ?v ! i) \<and> view_id (app_views ?v ! i) < int (length (app_views ?v))"
    by (auto simp: axis_solution_def sample_app_def nth_Cons split: nat.splits)
  from App_merge_result [OF axis_solution_wf axis_solution_wf same this] obtain m where
    m: "App_merge ?v ?h = Some m" "app_wf m"
    and at: "\<forall>i < length (app_views ?v). let x = app_views m ! i in view_id x = view_id (app_views ?v ! i) \<and>
       xleft x = xleft (app_views ?h ! i) \<and> xright x = xright (app_views ?h ! i) \<and>
       ytop x = ytop (app_views ?v ! i) \<and> ybottom x = ybottom (app_views ?v ! i) \<and>
       (\<forall>oi. view_attributes x oi =
          (case view_attributes (app_views ?v ! i) oi of Some a \<Rightarrow> Some a | None \<Rightarrow> view_attributes (app_views ?h ! i) oi))"
    by blast
  have "2 < length (app_views ?v)" using n by simp
  from at [rule_format, OF this] m show ?thesis
    by (simp add: Let_def axis_solution_def sample_app_def View_make_def)
qed

lemma dimensionsMatch_always: "app_views a \<noteq> [] \<Longrightarrow> dimensionsMatch a other = Some True"
  by (simp add: dimensionsMatch_def)

text \<open>
  Writing coordinates and reading them back keeps the geometry of every view; the ids become
  the positions.
\<close>

lemma view_coordinates_read:
  "view_of_json i (View_ToCoordinatesJSON v) =
     Some (View_make (xleft v) (ytop v) (xright v) (ybottom v) ''-1'' i None)"
  by (simp add: view_of_json_def View_ToCoordinatesJSON_def view_coordinates_def as_int_def
      rect_width_def rect_height_def)

lemma views_coordinates_read:
  "\<exists>ws. views_of_json i (map View_ToCoordinatesJSON vs) = Some ws \<and> length ws = length vs \<and>
    (\<forall>k < length vs. ws ! k = View_make (xleft (vs ! k)) (ytop (vs ! k)) (xright (vs ! k)) (ybottom (vs ! k))
       ''-1'' (i + int k) None)"
proof (induction vs arbitrary: i)
  case (Cons v vs)
  obtain ws where "views_of_json (i + 1) (map View_ToCoordinatesJSON vs) = Some ws" "length ws = length vs"
    "\<forall>k < length vs. ws ! k = View_make (xleft (vs ! k)) (ytop (vs ! k)) (xright (vs ! k)) (ybottom (vs ! k))
       ''-1'' (i + 1 + int k) None"
    using Cons.IH [of "i + 1"] by blast
  then show ?case by (auto simp: view_coordinates_read nth_Cons add.assoc split: nat.splits)
qed simp

text \<open>
  The coordinates of an app survive the JSON exchange: the app read back has the same
  views, at the same positions and with the same borders, numbered by their positions.
\<close>

theorem coordinates_json_roundtrip:
  "\<exists>b. App_of_json (App_ToCoordinatesJSON a) = Some b \<and> length (app_views b) = length (app_views a) \<and>
    map (\<lambda>v. (xleft v, ytop v, xright v, ybottom v)) (app_views b) =
      map (\<lambda>v. (xleft v, ytop v, xright v, ybottom v)) (app_views a) \<and>
    map view_id (app_views b) = map int [0..<length (app_views a)]"
proof -
  obtain ws where ws: "views_of_json 0 (map View_ToCoordinatesJSON (app_views a)) = Some ws"
    "length ws = length (app_views a)"
    "\<forall>k < length (app_views a). ws ! k = View_make (xleft (app_views a ! k)) (ytop (app_views a ! k))
       (xright (app_views a ! k)) (ybottom (app_views a ! k)) ''-1'' (0 + int k) None"
    using views_coordinates_read [of 0 "app_views a"] by blast
  let ?b = "AddViews App_empty ws"
  have "App_of_json (App_ToCoordinatesJSON a) = Some ?b"
    by (simp add: App_of_json_def App_ToCoordinatesJSON_def ws)
  moreover have len: "length (app_views ?b) = length (app_views a)" by (simp add: ws App_empty_def)
  moreover have nth: "app_views ?b ! k = (ws ! k)\<lparr>view_pos := int k\<rparr>" if "k < length (app_views a)" for k
    using that AddViews_nth [of App_empty k ws] by (simp add: App_empty_def ws)
  moreover have "map (\<lambda>v. (xleft v, ytop v, xright v, ybottom v)) (app_views ?b) =
      map (\<lambda>v. (xleft v, ytop v, xright v, ybottom v)) (app_views a)"
    by (rule nth_equalityI) (simp_all only: length_map len nth nth_map, simp add: ws)
  moreover have "map view_id (app_views ?b) = map int [0..<length (app_views a)]"
    by (rule nth_equalityI) (simp_all only: length_map length_upt len nth nth_map, simp_all add: ws len nth)
  ultimately show ?thesis by blast
qed

definition sample_blank :: app where
  "sample_blank =
     AddViews \<lparr>seq_id_to_pos = [0, 1, 2], app_resizable = [], app_views = []\<rparr>
       (map View_of_proto (ps_views sample_screen))"

lemma sample_blank_wf: "app_wf sample_blank"
  by (auto simp: app_wf_def sample_blank_def sample_screen_def AddViews_def AddView_def View_of_proto_def
      View_make_def App_empty_def nth_Cons split: nat.splits)

lemma sample_blank_initialized:
  "(case InitializeAttributes True sample_blank sample_screen of None \<Rightarrow> False | Some b \<Rightarrow> True)"
  by code_simp

lemma InitializeAttributes_wf_witness:
  "\<exists>b. InitializeAttributes True sample_blank sample_screen = Some b \<and> app_wf b"
  using InitializeAttributes_wf [OF sample_blank_wf ValidApp_True(5) [OF sample_screen_valid]]
    sample_blank_initialized by (fastforce split: option.splits)

end
