(* ===== verification/Ref_Graph.thy ===== *)
theory Ref_Graph
  imports App_Model
begin

text \<open>
  The references between views: \<^verbatim>\<open>ReferencedNodes\<close>, \<^verbatim>\<open>IsCircularRelation\<close>, \<^verbatim>\<open>IsAnchored\<close> and
  \<^verbatim>\<open>IsAnchoredWithAttr\<close> of \<^verbatim>\<open>src/inferui/inferui/model/model.cpp\<close>. They walk the graph whose
  edges lead from a view to the targets of its constraint in one orientation.

  The locale \<open>reference_graph\<close> states what the walks rely on (targets are views) and proves
  what the synthesizer relies on: replacing the constraint of a view by one that is not
  circular keeps the graph acyclic, and keeps anchored views anchored. It is interpreted on
  the graph of an app's views. The walks are then shown to compute reachability exactly.
\<close>

section \<open>Reference graphs\<close>

text \<open>
  A node is anchored when it is a root, or when it has targets and all of them are anchored.
\<close>

inductive anchored :: "(nat \<Rightarrow> bool) \<Rightarrow> (nat \<Rightarrow> nat set) \<Rightarrow> nat \<Rightarrow> bool"
  for is_root :: "nat \<Rightarrow> bool" and succ :: "nat \<Rightarrow> nat set"
where
  anchored_root: "is_root i \<Longrightarrow> anchored is_root succ i"
| anchored_step: "succ i \<noteq> {} \<Longrightarrow> \<forall>j \<in> succ i. anchored is_root succ j \<Longrightarrow> anchored is_root succ i"

inductive_cases anchored_nonroot: "anchored is_root succ i"

definition graph_edges :: "(nat \<Rightarrow> nat set) \<Rightarrow> (nat \<times> nat) set" where
  "graph_edges succ = {(i, j). j \<in> succ i}"

locale reference_graph =
  fixes n :: nat and succ :: "nat \<Rightarrow> nat set" and is_root :: "nat \<Rightarrow> bool"
  assumes succ_bound: "succ i \<subseteq> {..<n}"
    and succ_domain: "n \<le> i \<Longrightarrow> succ i = {}"
begin

lemma edges_bound: "graph_edges succ \<subseteq> {..<n} \<times> {..<n}"
  using succ_bound succ_domain by (force simp: graph_edges_def not_less [symmetric])

lemma finite_edges: "finite (graph_edges succ)"
  by (rule finite_subset [OF edges_bound]) simp

lemma reach_bound: "i < n \<Longrightarrow> (i, j) \<in> (graph_edges succ)\<^sup>* \<Longrightarrow> j < n"
  by (rotate_tac, induction rule: rtrancl_induct) (use edges_bound in auto)

lemma wf_edges: "acyclic (graph_edges succ) \<Longrightarrow> wf ((graph_edges succ)\<inverse>)"
  using finite_edges by (rule finite_acyclic_wf_converse)

text \<open>A node from which no node without targets can be reached, other than a root, is anchored.\<close>

lemma complete_anchored:
  assumes "acyclic (graph_edges succ)" "\<forall>i < n. is_root i \<or> succ i \<noteq> {}" "i < n"
  shows "anchored is_root succ i"
  using wf_edges [OF assms(1)] assms(3)
proof (induction i rule: wf_induct_rule)
  case (less i)
  show ?case
  proof (cases "is_root i")
    case False
    with assms(2) less.prems have "succ i \<noteq> {}" by blast
    then show ?thesis
      using less.IH succ_bound [of i] by (intro anchored_step) (auto simp: graph_edges_def)
  qed (rule anchored_root)
qed

lemma update_edges: "graph_edges (succ(i := T)) \<subseteq> graph_edges succ \<union> {i} \<times> T"
  by (auto simp: graph_edges_def split: if_splits)

text \<open>A path of the updated graph that avoids \<open>i\<close> as an inner node is a path of the old one.\<close>

lemma update_path:
  assumes "(a, b) \<in> (graph_edges (succ(i := T)))\<^sup>*" "\<forall>t \<in> T. (t, i) \<notin> (graph_edges succ)\<^sup>*"
  shows "(a, b) \<in> (graph_edges succ)\<^sup>* \<or> (a, i) \<in> (graph_edges succ)\<^sup>*"
  using assms(1)
proof (induction rule: converse_rtrancl_induct)
  case (step a c)
  from step.hyps(1) have "(a, c) \<in> graph_edges succ \<or> a = i"
    by (auto simp: graph_edges_def split: if_splits)
  with step.IH show ?case by (auto intro: converse_rtrancl_into_rtrancl)
qed simp

lemma update_no_path_back:
  assumes "\<forall>t \<in> T. (t, i) \<notin> (graph_edges succ)\<^sup>*" "(t, i) \<in> (graph_edges (succ(i := T)))\<^sup>*"
  shows "(t, i) \<in> (graph_edges succ)\<^sup>*"
  using update_path [OF assms(2,1)] by blast

lemma update_trancl:
  assumes "\<forall>t \<in> T. (t, i) \<notin> (graph_edges succ)\<^sup>*" "(a, b) \<in> (graph_edges (succ(i := T)))\<^sup>+"
  shows "(a, b) \<in> (graph_edges succ)\<^sup>+ \<or>
    ((a, i) \<in> (graph_edges succ)\<^sup>* \<and> (\<exists>t \<in> T. (t, b) \<in> (graph_edges (succ(i := T)))\<^sup>*))"
  using assms(2)
proof (induction rule: converse_trancl_induct)
  case (base a)
  then show ?case by (auto simp: graph_edges_def split: if_splits)
next
  case (step a c)
  show ?case
  proof (cases "a = i")
    case True
    with step.hyps have "c \<in> T" by (simp add: graph_edges_def)
    moreover have "(c, b) \<in> (graph_edges (succ(i := T)))\<^sup>*"
      using step.hyps(2) by (rule trancl_into_rtrancl)
    ultimately show ?thesis using True by blast
  next
    case False
    with step.hyps have "(a, c) \<in> graph_edges succ" by (simp add: graph_edges_def)
    with step.IH show ?thesis
      by (auto intro: converse_rtrancl_into_rtrancl trancl_into_trancl2)
  qed
qed

theorem update_acyclic:
  assumes "acyclic (graph_edges succ)" "\<forall>t \<in> T. (t, i) \<notin> (graph_edges succ)\<^sup>*"
  shows "acyclic (graph_edges (succ(i := T)))"
  unfolding acyclic_def
proof (intro allI notI)
  fix x assume x: "(x, x) \<in> (graph_edges (succ(i := T)))\<^sup>+"
  from update_trancl [OF assms(2) x] assms(1) obtain t where t: "(x, i) \<in> (graph_edges succ)\<^sup>*" "t \<in> T"
      "(t, x) \<in> (graph_edges (succ(i := T)))\<^sup>*"
    by (auto simp: acyclic_def)
  from update_path [OF t(3) assms(2)] t(1) have "(t, i) \<in> (graph_edges succ)\<^sup>*" by auto
  with t(2) assms(2) show False by blast
qed

lemma anchored_elsewhere:
  assumes "anchored is_root succ k" "(k, i) \<notin> (graph_edges succ)\<^sup>*"
  shows "anchored is_root (succ(i := T)) k"
  using assms
proof (induction rule: anchored.induct)
  case (anchored_step k)
  then have "k \<noteq> i" by auto
  moreover have "\<forall>m \<in> succ k. (m, i) \<notin> (graph_edges succ)\<^sup>*"
    using anchored_step.prems by (auto simp: graph_edges_def intro: converse_rtrancl_into_rtrancl)
  moreover have "(succ(i := T)) k = succ k" using \<open>k \<noteq> i\<close> by simp
  ultimately show ?case
    using anchored_step by (intro anchored.anchored_step) simp_all
qed (rule anchored.anchored_root)

theorem update_anchored:
  assumes T: "T \<noteq> {}" "\<forall>t \<in> T. (t, i) \<notin> (graph_edges succ)\<^sup>*" "\<forall>t \<in> T. anchored is_root succ t"
    and k: "anchored is_root succ k \<or> k = i"
  shows "anchored is_root (succ(i := T)) k"
proof -
  have i: "anchored is_root (succ(i := T)) i"
    using T by (intro anchored.anchored_step) (auto intro: anchored_elsewhere)
  have "anchored is_root (succ(i := T)) k" if "anchored is_root succ k" for k
    using that
  proof (induction rule: anchored.induct)
    case (anchored_step k)
    show ?case
    proof (cases "k = i")
      case True
      show ?thesis unfolding True by (rule i)
    next
      case False
      then have "(succ(i := T)) k = succ k" by simp
      with anchored_step show ?thesis by (intro anchored.anchored_step) simp_all
    qed
  qed (rule anchored.anchored_root)
  with i k show ?thesis by blast
qed

end

section \<open>The graph of an app\<close>

definition attr_targets :: "attribute \<Rightarrow> nat list" where
  "attr_targets a =
     (if IsRelationalAnchor (attr_type a) then [tgt_primary a]
      else tgt_primary a # (case tgt_secondary a of None \<Rightarrow> [] | Some j \<Rightarrow> [j]))"

definition view_succ :: "view list \<Rightarrow> orientation \<Rightarrow> nat \<Rightarrow> nat set" where
  "view_succ vs oi i =
     (if i < length vs
      then (case view_attributes (vs ! i) oi of None \<Rightarrow> {} | Some a \<Rightarrow> {j \<in> set (attr_targets a). j < length vs})
      else {})"

definition view_root :: "view list \<Rightarrow> nat \<Rightarrow> bool" where
  "view_root vs i \<longleftrightarrow> i < length vs \<and> is_content_frame (vs ! i)"

interpretation rg: reference_graph "length vs" "view_succ vs oi" "view_root vs" for vs oi
  by unfold_locales (auto simp: view_succ_def split: option.splits if_splits)

section \<open>The walks\<close>

partial_function (option) ReferencedNodesInner ::
    "view list \<Rightarrow> orientation \<Rightarrow> nat \<Rightarrow> int set \<Rightarrow> int set option" where
  "ReferencedNodesInner vs oi i visited =
     do { v \<leftarrow> vec_at vs i;
          case view_attributes v oi of
            None \<Rightarrow> Some (insert (view_id v) visited)
          | Some a \<Rightarrow>
              do { p \<leftarrow> vec_at vs (tgt_primary a);
                   vis1 \<leftarrow> (if view_id p \<notin> insert (view_id v) visited
                            then ReferencedNodesInner vs oi (tgt_primary a) (insert (view_id v) visited)
                            else Some (insert (view_id v) visited));
                   if IsRelationalAnchor (attr_type a) then Some vis1
                   else do { j \<leftarrow> tgt_secondary a; q \<leftarrow> vec_at vs j;
                             if view_id q \<notin> vis1 then ReferencedNodesInner vs oi j vis1 else Some vis1 } } }"

declare ReferencedNodesInner.simps [code]

definition ReferencedNodes :: "view list \<Rightarrow> orientation \<Rightarrow> nat \<Rightarrow> int set option" where
  "ReferencedNodes vs oi i = ReferencedNodesInner vs oi i {}"

definition IsCircularRelation :: "view list \<Rightarrow> orientation \<Rightarrow> nat \<Rightarrow> attribute \<Rightarrow> bool option" where
  "IsCircularRelation vs oi i a =
     do { v \<leftarrow> vec_at vs i;
          r1 \<leftarrow> ReferencedNodes vs oi (tgt_primary a);
          if IsRelationalAnchor (attr_type a) then Some (view_id v \<in> r1)
          else if view_id v \<in> r1 then Some True
          else do { j \<leftarrow> tgt_secondary a; r2 \<leftarrow> ReferencedNodes vs oi j; Some (view_id v \<in> r2) } }"

text \<open>
  \<^verbatim>\<open>IsAnchored(orientation, visited)\<close>. The set is shared with the caller, but no caller reads
  it again after the call. The second target of a centering constraint is followed with a
  fresh set that holds the view itself only.
\<close>

partial_function (option) IsAnchored_visited ::
    "view list \<Rightarrow> orientation \<Rightarrow> nat \<Rightarrow> int set \<Rightarrow> bool option" where
  "IsAnchored_visited vs oi i visited =
     do { v \<leftarrow> vec_at vs i;
          if is_content_frame v then Some True
          else case view_attributes v oi of
            None \<Rightarrow> Some False
          | Some a \<Rightarrow>
              do { p \<leftarrow> vec_at vs (tgt_primary a);
                   if view_id p \<in> insert (view_id v) visited then Some False
                   else if IsRelationalAnchor (attr_type a)
                   then IsAnchored_visited vs oi (tgt_primary a) (insert (view_id v) visited)
                   else do { j \<leftarrow> tgt_secondary a; q \<leftarrow> vec_at vs j;
                             if view_id q \<in> insert (view_id v) visited then Some False
                             else do { b \<leftarrow> IsAnchored_visited vs oi (tgt_primary a) (insert (view_id v) visited);
                                       if b then IsAnchored_visited vs oi j {view_id v} else Some False } } } }"

declare IsAnchored_visited.simps [code]

definition IsAnchored :: "view list \<Rightarrow> orientation \<Rightarrow> nat \<Rightarrow> bool option" where
  "IsAnchored vs oi i = IsAnchored_visited vs oi i {}"

definition IsAnchoredWithAttr :: "view list \<Rightarrow> orientation \<Rightarrow> attribute \<Rightarrow> bool option" where
  "IsAnchoredWithAttr vs oi a =
     do { b \<leftarrow> IsAnchored vs oi (tgt_primary a);
          if IsRelationalAnchor (attr_type a) then Some b
          else if b then do { j \<leftarrow> tgt_secondary a; IsAnchored vs oi j } else Some False }"

section \<open>The walks compute reachability\<close>

definition refs_wf :: "view list \<Rightarrow> orientation \<Rightarrow> bool" where
  "refs_wf vs oi \<longleftrightarrow> distinct (map view_id vs) \<and>
     (\<forall>i < length vs. \<forall>a. view_attributes (vs ! i) oi = Some a \<longrightarrow> attribute_ok (length vs) i oi a)"

lemma app_wf_refs: "app_wf a \<Longrightarrow> refs_wf (app_views a) oi"
  by (simp add: app_wf_def refs_wf_def)

definition ids_of :: "view list \<Rightarrow> nat set \<Rightarrow> int set" where
  "ids_of vs V = (\<lambda>i. view_id (vs ! i)) ` V"

lemma ids_of_insert: "insert (view_id (vs ! i)) (ids_of vs V) = ids_of vs (insert i V)"
  by (simp add: ids_of_def)

lemma ids_of_mem:
  assumes "distinct (map view_id vs)" "V \<subseteq> {..<length vs}" "i < length vs"
  shows "view_id (vs ! i) \<in> ids_of vs V \<longleftrightarrow> i \<in> V"
proof
  assume "view_id (vs ! i) \<in> ids_of vs V"
  then obtain j where j: "j \<in> V" "view_id (vs ! i) = view_id (vs ! j)"
    by (auto simp: ids_of_def)
  with assms(2) have "j < length vs" by blast
  with j(2) assms nth_eq_iff_index_eq [of "map view_id vs" i j] have "i = j" by simp
  with j(1) show "i \<in> V" by simp
qed (simp add: ids_of_def)

lemma ok_targets:
  assumes "attribute_ok n i oi a"
  obtains (relational) "IsRelationalAnchor (attr_type a)" "tgt_secondary a = None" "tgt_primary a < n"
      "attr_targets a = [tgt_primary a]"
    | (center) j where "\<not> IsRelationalAnchor (attr_type a)" "tgt_secondary a = Some j" "tgt_primary a < n" "j < n"
      "attr_targets a = [tgt_primary a, j]"
  using assms by (cases "tgt_secondary a") (auto simp: attribute_ok_def attr_targets_def)

lemma ok_succ:
  assumes "attribute_ok (length vs) i oi a" "i < length vs" "view_attributes (vs ! i) oi = Some a"
  shows "view_succ vs oi i = set (attr_targets a)"
  using assms(1) by (rule ok_targets) (use assms in \<open>auto simp: view_succ_def\<close>)

abbreviation edges_of :: "view list \<Rightarrow> orientation \<Rightarrow> (nat \<times> nat) set" where
  "edges_of vs oi \<equiv> graph_edges (view_succ vs oi)"

text \<open>The guarded recursive call, and the cases of a call.\<close>

definition visit_call :: "view list \<Rightarrow> orientation \<Rightarrow> nat \<Rightarrow> int set \<Rightarrow> int set option" where
  "visit_call vs oi p vis = (if view_id (vs ! p) \<notin> vis then ReferencedNodesInner vs oi p vis else Some vis)"

lemma ReferencedNodesInner_none:
  "i < length vs \<Longrightarrow> view_attributes (vs ! i) oi = None \<Longrightarrow>
     ReferencedNodesInner vs oi i vis = Some (insert (view_id (vs ! i)) vis)"
  by (subst ReferencedNodesInner.simps) simp

lemma ReferencedNodesInner_relational:
  "i < length vs \<Longrightarrow> view_attributes (vs ! i) oi = Some a \<Longrightarrow> IsRelationalAnchor (attr_type a) \<Longrightarrow>
     tgt_primary a < length vs \<Longrightarrow>
     ReferencedNodesInner vs oi i vis = visit_call vs oi (tgt_primary a) (insert (view_id (vs ! i)) vis)"
  by (subst ReferencedNodesInner.simps) (simp add: visit_call_def)

lemma ReferencedNodesInner_center:
  "i < length vs \<Longrightarrow> view_attributes (vs ! i) oi = Some a \<Longrightarrow> \<not> IsRelationalAnchor (attr_type a) \<Longrightarrow>
     tgt_primary a < length vs \<Longrightarrow> tgt_secondary a = Some j \<Longrightarrow> j < length vs \<Longrightarrow>
     ReferencedNodesInner vs oi i vis =
       do { v1 \<leftarrow> visit_call vs oi (tgt_primary a) (insert (view_id (vs ! i)) vis); visit_call vs oi j v1 }"
  by (subst ReferencedNodesInner.simps) (simp add: visit_call_def [abs_def])

text \<open>What one call adds to the visited set.\<close>

definition visit_post :: "view list \<Rightarrow> orientation \<Rightarrow> nat \<Rightarrow> nat set \<Rightarrow> nat set \<Rightarrow> bool" where
  "visit_post vs oi i V V' \<longleftrightarrow>
     insert i V \<subseteq> V' \<and> V' \<subseteq> {..<length vs} \<and> V' \<subseteq> V \<union> (edges_of vs oi)\<^sup>* `` {i} \<and>
     (\<forall>x \<in> V' - V. view_succ vs oi x \<subseteq> V')"

lemma union_chain:
  "V1 \<subseteq> insert i V \<union> A \<Longrightarrow> V2 \<subseteq> V1 \<union> B \<Longrightarrow> A \<subseteq> C \<Longrightarrow> B \<subseteq> C \<Longrightarrow> i \<in> C \<Longrightarrow> V2 \<subseteq> V \<union> C"
  by blast

lemma edge_reach: "(i, p) \<in> R \<Longrightarrow> R\<^sup>* `` {p} \<subseteq> R\<^sup>* `` {i}"
  by (auto intro: converse_rtrancl_into_rtrancl)

lemma visit_post_step:
  assumes post: "visit_post vs oi p (insert i V) V'" and i: "i < length vs" "p \<in> view_succ vs oi i"
    and sub: "view_succ vs oi i \<subseteq> V'"
  shows "visit_post vs oi i V V'"
proof -
  have "(i, p) \<in> edges_of vs oi" using i by (simp add: graph_edges_def)
  then have "(edges_of vs oi)\<^sup>* `` {p} \<subseteq> (edges_of vs oi)\<^sup>* `` {i}"
    by (rule edge_reach)
  with post sub show ?thesis unfolding visit_post_def by blast
qed

lemma visit_post_two:
  assumes "visit_post vs oi p (insert i V) V1" "visit_post vs oi q V1 V2"
    and i: "i < length vs" "p \<in> view_succ vs oi i" "q \<in> view_succ vs oi i" "view_succ vs oi i \<subseteq> {p, q}"
  shows "visit_post vs oi i V V2"
proof -
  have e: "(i, p) \<in> edges_of vs oi" "(i, q) \<in> edges_of vs oi" using i by (simp_all add: graph_edges_def)
  let ?R = "(edges_of vs oi)\<^sup>*"
  have "V1 \<subseteq> insert i V \<union> ?R `` {p}" "V2 \<subseteq> V1 \<union> ?R `` {q}"
    using assms(1,2) by (simp_all add: visit_post_def)
  moreover have "?R `` {p} \<subseteq> ?R `` {i}" using e(1) by (rule edge_reach)
  moreover have "?R `` {q} \<subseteq> ?R `` {i}" using e(2) by (rule edge_reach)
  moreover have "i \<in> ?R `` {i}" by simp
  ultimately have reach: "V2 \<subseteq> V \<union> ?R `` {i}" by (rule union_chain)
  have sub: "insert i V \<subseteq> V1" "V1 \<subseteq> V2" "{p, q} \<subseteq> V2"
    using assms(1,2) by (auto simp: visit_post_def)
  have cl: "\<forall>x \<in> V1 - insert i V. view_succ vs oi x \<subseteq> V1" "\<forall>x \<in> V2 - V1. view_succ vs oi x \<subseteq> V2"
    using assms(1,2) by (simp_all add: visit_post_def)
  have "view_succ vs oi x \<subseteq> V2" if "x \<in> V2 - V" for x
  proof -
    from that consider "x = i" | "x \<in> V2 - V1" | "x \<in> V1 - insert i V" by blast
    then show ?thesis
    proof cases
      case 1
      show ?thesis unfolding 1 using i(4) sub(3) by (rule order_trans)
    next
      case 2
      with cl(2) show ?thesis by (rule bspec)
    next
      case 3
      with cl(1) have "view_succ vs oi x \<subseteq> V1" by (rule bspec)
      with sub(2) show ?thesis by (rule order_trans [rotated])
    qed
  qed
  moreover have "insert i V \<subseteq> V2" using sub(1,2) by (rule order_trans)
  moreover have "V2 \<subseteq> {..<length vs}" using assms(2) by (simp add: visit_post_def)
  ultimately show ?thesis using reach unfolding visit_post_def by simp
qed

lemma ReferencedNodesInner_result:
  assumes "refs_wf vs oi" "i < length vs" "V \<subseteq> {..<length vs}" "i \<notin> V"
  shows "\<exists>V'. ReferencedNodesInner vs oi i (ids_of vs V) = Some (ids_of vs V') \<and> visit_post vs oi i V V'"
  using assms(2-4)
proof (induction "card ({..<length vs} - V)" arbitrary: i V rule: less_induct)
  case less
  let ?n = "length vs" and ?V1 = "insert i V"
  have dist: "distinct (map view_id vs)" using assms(1) by (simp add: refs_wf_def)
  note mem = ids_of_mem [OF dist]
  have V1: "?V1 \<subseteq> {..<?n}" using less.prems by auto
  have visit: "\<exists>W'. visit_call vs oi p (ids_of vs W) = Some (ids_of vs W') \<and> visit_post vs oi p W W'"
    if p: "p < ?n" and W: "?V1 \<subseteq> W" "W \<subseteq> {..<?n}" for p W
  proof (cases "p \<in> W")
    case True
    then have "visit_post vs oi p W W" using W by (auto simp: visit_post_def)
    moreover have "visit_call vs oi p (ids_of vs W) = Some (ids_of vs W)"
      using True p W by (simp add: visit_call_def mem)
    ultimately show ?thesis by blast
  next
    case False
    have "card ({..<?n} - W) < card ({..<?n} - V)"
      using W less.prems by (intro psubset_card_mono) auto
    from less.hyps [OF this p W(2) False] False p W show ?thesis by (simp add: mem visit_call_def)
  qed
  show ?case
  proof (cases "view_attributes (vs ! i) oi")
    case None
    then have "visit_post vs oi i V ?V1"
      using less.prems by (auto simp: visit_post_def view_succ_def)
    with None less.prems show ?thesis
      by (auto simp: ReferencedNodesInner_none ids_of_insert)
  next
    case (Some a)
    then have ok: "attribute_ok ?n i oi a" using assms(1) less.prems by (simp add: refs_wf_def)
    note succ = ok_succ [OF ok less.prems(1) Some]
    from ok show ?thesis
    proof (cases rule: ok_targets)
      case relational
      from visit [OF relational(3) order.refl V1] obtain W where
        W: "visit_call vs oi (tgt_primary a) (ids_of vs ?V1) = Some (ids_of vs W)" "visit_post vs oi (tgt_primary a) ?V1 W"
        by blast
      have "visit_post vs oi i V W"
        by (rule visit_post_step [OF W(2) less.prems(1)])
          (use succ relational W(2) in \<open>auto simp: visit_post_def\<close>)
      moreover have "ReferencedNodesInner vs oi i (ids_of vs V) = Some (ids_of vs W)"
        by (simp only: ReferencedNodesInner_relational [OF less.prems(1) Some relational(1,3)] ids_of_insert W(1))
      ultimately show ?thesis by blast
    next
      case (center j)
      from visit [OF center(3) order.refl V1] obtain W where
        W: "visit_call vs oi (tgt_primary a) (ids_of vs ?V1) = Some (ids_of vs W)" "visit_post vs oi (tgt_primary a) ?V1 W"
        by blast
      have "?V1 \<subseteq> W" "W \<subseteq> {..<?n}" using W(2) by (auto simp: visit_post_def)
      from visit [OF center(4) this] obtain X where
        X: "visit_call vs oi j (ids_of vs W) = Some (ids_of vs X)" "visit_post vs oi j W X"
        by blast
      have "visit_post vs oi i V X"
        by (rule visit_post_two [OF W(2) X(2) less.prems(1)]) (use succ center in auto)
      moreover have "ReferencedNodesInner vs oi i (ids_of vs V) = Some (ids_of vs X)"
        by (simp only: ReferencedNodesInner_center [OF less.prems(1) Some center(1,3,2,4)] ids_of_insert W(1) X(1)
            Option.bind.bind_lunit)
      ultimately show ?thesis by blast
    qed
  qed
qed

lemma ReferencedNodes_result:
  assumes "refs_wf vs oi" "i < length vs"
  shows "ReferencedNodes vs oi i = Some (ids_of vs ((edges_of vs oi)\<^sup>* `` {i}))"
proof -
  obtain V where V: "ReferencedNodesInner vs oi i (ids_of vs {}) = Some (ids_of vs V)" "visit_post vs oi i {} V"
    using ReferencedNodesInner_result [OF assms, of "{}"] by auto
  have "(edges_of vs oi)\<^sup>* `` {i} \<subseteq> V"
  proof clarify
    fix x assume "(i, x) \<in> (edges_of vs oi)\<^sup>*"
    then show "x \<in> V"
      by (induction rule: rtrancl_induct) (use V(2) in \<open>auto simp: visit_post_def graph_edges_def\<close>)
  qed
  with V show ?thesis
    by (auto simp: ReferencedNodes_def visit_post_def ids_of_def)
qed

text \<open>
  C22. \<^verbatim>\<open>ReferencedNodes\<close> ends, on cyclic graphs too, and returns the ids of exactly the views
  that can be reached through constraint targets, the view itself included.
\<close>

theorem ReferencedNodes_reachable:
  assumes "refs_wf vs oi" "i < length vs"
  shows "ReferencedNodes vs oi i = Some (ids_of vs ((edges_of vs oi)\<^sup>* `` {i}))"
  using assms by (rule ReferencedNodes_result)

lemma ReferencedNodes_reachable_witness:
  "ReferencedNodes (app_views sample_app) VERTICAL 2 =
     Some (ids_of (app_views sample_app) ((edges_of (app_views sample_app) VERTICAL)\<^sup>* `` {2}))"
  by (rule ReferencedNodes_reachable [OF app_wf_refs [OF sample_app_wf]]) (simp add: sample_app_def)

lemma ids_of_reach:
  assumes "refs_wf vs oi" "i < length vs" "p < length vs"
  shows "view_id (vs ! i) \<in> ids_of vs ((edges_of vs oi)\<^sup>* `` {p}) \<longleftrightarrow> (p, i) \<in> (edges_of vs oi)\<^sup>*"
proof -
  have "(edges_of vs oi)\<^sup>* `` {p} \<subseteq> {..<length vs}"
    using rg.reach_bound [of p vs] assms(3) by auto
  moreover have "distinct (map view_id vs)" using assms(1) by (simp add: refs_wf_def)
  ultimately show ?thesis using ids_of_mem [of vs _ i] assms(2) by simp
qed

lemma IsCircularRelation_result:
  assumes "refs_wf vs oi" "i < length vs" "attribute_ok (length vs) i oi a"
  shows "IsCircularRelation vs oi i a =
    Some (\<exists>t \<in> set (attr_targets a). (t, i) \<in> (edges_of vs oi)\<^sup>*)"
proof -
  note R = ReferencedNodes_result [OF assms(1)]
  note I = ids_of_reach [OF assms(1,2)]
  from assms(3) show ?thesis
  proof (cases rule: ok_targets)
    case relational
    with assms(2) R I show ?thesis by (simp add: IsCircularRelation_def)
  next
    case (center j)
    with assms(2) R I show ?thesis by (simp add: IsCircularRelation_def)
  qed
qed

text \<open>
  C21. \<^verbatim>\<open>IsCircularRelation\<close> answers whether some target of the constraint already depends,
  directly or not, on the view.
\<close>

theorem IsCircularRelation_iff:
  assumes "refs_wf vs oi" "i < length vs" "attribute_ok (length vs) i oi a"
  shows "IsCircularRelation vs oi i a =
    Some (\<exists>t \<in> set (attr_targets a). (t, i) \<in> (edges_of vs oi)\<^sup>*)"
  using assms by (rule IsCircularRelation_result)

lemma IsCircularRelation_iff_witness:
  "IsCircularRelation (app_views sample_app) VERTICAL 1 (sample_attribute T2T 1 2 None 0) =
     Some (\<exists>t \<in> set (attr_targets (sample_attribute T2T 1 2 None 0)).
       (t, 1) \<in> (edges_of (app_views sample_app) VERTICAL)\<^sup>*)"
  by (rule IsCircularRelation_iff [OF app_wf_refs [OF sample_app_wf]])
    (simp_all add: sample_app_def attribute_ok_def sample_attribute_def IsRelationalAnchor_def)

section \<open>Anchored views\<close>

abbreviation anchored_in :: "view list \<Rightarrow> orientation \<Rightarrow> nat \<Rightarrow> bool" where
  "anchored_in vs oi \<equiv> anchored (view_root vs) (view_succ vs oi)"

lemma anchored_iff:
  "anchored is_root succ i \<longleftrightarrow> is_root i \<or> (succ i \<noteq> {} \<and> (\<forall>j \<in> succ i. anchored is_root succ j))"
  by (subst anchored.simps) blast

lemma IsAnchored_root: "i < length vs \<Longrightarrow> is_content_frame (vs ! i) \<Longrightarrow> IsAnchored_visited vs oi i vis = Some True"
  by (subst IsAnchored_visited.simps) simp

lemma IsAnchored_none:
  "i < length vs \<Longrightarrow> \<not> is_content_frame (vs ! i) \<Longrightarrow> view_attributes (vs ! i) oi = None \<Longrightarrow>
     IsAnchored_visited vs oi i vis = Some False"
  by (subst IsAnchored_visited.simps) simp

lemma IsAnchored_relational:
  "i < length vs \<Longrightarrow> \<not> is_content_frame (vs ! i) \<Longrightarrow> view_attributes (vs ! i) oi = Some a \<Longrightarrow>
     IsRelationalAnchor (attr_type a) \<Longrightarrow> tgt_primary a < length vs \<Longrightarrow>
     IsAnchored_visited vs oi i vis =
       (if view_id (vs ! tgt_primary a) \<in> insert (view_id (vs ! i)) vis then Some False
        else IsAnchored_visited vs oi (tgt_primary a) (insert (view_id (vs ! i)) vis))"
  by (subst IsAnchored_visited.simps) simp

lemma IsAnchored_center:
  "i < length vs \<Longrightarrow> \<not> is_content_frame (vs ! i) \<Longrightarrow> view_attributes (vs ! i) oi = Some a \<Longrightarrow>
     \<not> IsRelationalAnchor (attr_type a) \<Longrightarrow> tgt_primary a < length vs \<Longrightarrow>
     tgt_secondary a = Some j \<Longrightarrow> j < length vs \<Longrightarrow>
     IsAnchored_visited vs oi i vis =
       (if view_id (vs ! tgt_primary a) \<in> insert (view_id (vs ! i)) vis then Some False
        else if view_id (vs ! j) \<in> insert (view_id (vs ! i)) vis then Some False
        else do { b \<leftarrow> IsAnchored_visited vs oi (tgt_primary a) (insert (view_id (vs ! i)) vis);
                  if b then IsAnchored_visited vs oi j {view_id (vs ! i)} else Some False })"
  by (subst IsAnchored_visited.simps) (simp add: Let_def)

lemma IsAnchored_visited_result:
  assumes "refs_wf vs oi" and acyc: "acyclic (edges_of vs oi)" and "i < length vs"
    and "V \<subseteq> {..<length vs}" "\<forall>v \<in> V. (v, i) \<in> (edges_of vs oi)\<^sup>+"
  shows "IsAnchored_visited vs oi i (ids_of vs V) = Some (anchored_in vs oi i)"
  using rg.wf_edges [OF acyc] assms(3-5)
proof (induction i arbitrary: V rule: wf_induct_rule)
  case (less i)
  let ?n = "length vs" and ?R = "edges_of vs oi" and ?V1 = "insert i V"
  have dist: "distinct (map view_id vs)" using assms(1) by (simp add: refs_wf_def)
  have sub: "?V1 \<subseteq> {..<?n}" using less.prems by simp
  show ?case
  proof (cases "is_content_frame (vs ! i)")
    case True
    then have "anchored_in vs oi i" using less.prems by (intro anchored_root) (simp add: view_root_def)
    with True less.prems show ?thesis by (simp add: IsAnchored_root)
  next
    case nr: False
    then have nroot: "\<not> view_root vs i" by (simp add: view_root_def)
    show ?thesis
    proof (cases "view_attributes (vs ! i) oi")
      case None
      then have "view_succ vs oi i = {}" by (simp add: view_succ_def)
      with nroot have "\<not> anchored_in vs oi i" by (subst anchored_iff) simp
      with None nr less.prems show ?thesis by (simp add: IsAnchored_none)
    next
      case (Some a)
      then have ok: "attribute_ok ?n i oi a" using assms(1) less.prems by (simp add: refs_wf_def)
      note succ = ok_succ [OF ok less.prems(1) Some]
      have tgt: "view_id (vs ! p) \<notin> ids_of vs ?V1 \<and>
          IsAnchored_visited vs oi p (ids_of vs ?V1) = Some (anchored_in vs oi p) \<and>
          IsAnchored_visited vs oi p (ids_of vs {i}) = Some (anchored_in vs oi p)"
        if p: "p \<in> view_succ vs oi i" "p < ?n" for p
      proof -
        have e: "(i, p) \<in> ?R" using p(1) by (simp add: graph_edges_def)
        have "p \<notin> ?V1"
        proof
          assume "p \<in> ?V1"
          then have "(p, i) \<in> ?R\<^sup>*" using less.prems(3) by (auto intro: trancl_into_rtrancl)
          with e have "(i, i) \<in> ?R\<^sup>+" by (rule rtrancl_into_trancl2)
          with acyc show False by (simp add: acyclic_def)
        qed
        then have "view_id (vs ! p) \<notin> ids_of vs ?V1" using ids_of_mem [OF dist sub p(2)] by simp
        moreover have "\<forall>v \<in> ?V1. (v, p) \<in> ?R\<^sup>+"
          using less.prems(3) e by (auto intro: trancl_into_trancl)
        moreover have "(p, i) \<in> ?R\<inverse>" using e by simp
        ultimately show ?thesis
          using less.IH [OF _ p(2) sub] less.IH [OF _ p(2), of "{i}"] less.prems(1) by simp
      qed
      from ok show ?thesis
      proof (cases rule: ok_targets)
        case relational
        have t: "tgt_primary a \<in> view_succ vs oi i" using succ relational by simp
        have "anchored_in vs oi i = anchored_in vs oi (tgt_primary a)"
          using nroot succ relational by (subst anchored_iff) simp
        then show ?thesis
          using tgt [OF t relational(3)]
          by (simp add: IsAnchored_relational [OF less.prems(1) nr Some relational(1,3)] ids_of_insert
              del: insert_iff)
      next
        case (center j)
        have t: "tgt_primary a \<in> view_succ vs oi i" "j \<in> view_succ vs oi i" using succ center by simp_all
        have an: "anchored_in vs oi i = (anchored_in vs oi (tgt_primary a) \<and> anchored_in vs oi j)"
          using nroot succ center by (subst anchored_iff) simp
        have id1: "{view_id (vs ! i)} = ids_of vs {i}" by (simp add: ids_of_def)
        show ?thesis
          using tgt [OF t(1) center(3)] tgt [OF t(2) center(4)]
          by (simp add: IsAnchored_center [OF less.prems(1) nr Some center(1,3,2,4)] ids_of_insert id1 an
              del: insert_iff)
      qed
    qed
  qed
qed

lemma IsAnchored_result:
  assumes "refs_wf vs oi" "acyclic (edges_of vs oi)" "i < length vs"
  shows "IsAnchored vs oi i = Some (anchored_in vs oi i)"
  using IsAnchored_visited_result [OF assms, of "{}"] by (simp add: IsAnchored_def ids_of_def)

text \<open>
  C20. Without circular references \<^verbatim>\<open>IsAnchored\<close> ends and answers whether every chain of targets
  from the view ends in the content frame.
\<close>

theorem IsAnchored_iff:
  assumes "refs_wf vs oi" "acyclic (edges_of vs oi)" "i < length vs"
  shows "IsAnchored vs oi i = Some (anchored_in vs oi i)"
  using assms by (rule IsAnchored_result)

lemma IsAnchoredWithAttr_result:
  assumes "refs_wf vs oi" "acyclic (edges_of vs oi)" "attribute_ok (length vs) i oi a"
  shows "IsAnchoredWithAttr vs oi a = Some (\<forall>t \<in> set (attr_targets a). anchored_in vs oi t)"
proof -
  have A: "k < length vs \<Longrightarrow> IsAnchored vs oi k = Some (anchored_in vs oi k)" for k
    using IsAnchored_result [OF assms(1,2)] .
  from assms(3) show ?thesis
    by (rule ok_targets) (simp_all add: IsAnchoredWithAttr_def A)
qed

section \<open>Applying a constraint\<close>

lemma ApplyAttribute_Some:
  "ApplyAttribute vs i oi a = Some ws \<longleftrightarrow>
     attr_src a = i \<and> i < length vs \<and>
     ws = vs[i := (vs ! i)\<lparr>view_attributes := (view_attributes (vs ! i))(oi \<mapsto> a)\<rparr>]"
  by (auto simp: ApplyAttribute_def bind_Some_iff vec_at_Some split: if_splits)

lemma ApplyAttribute_views:
  assumes "ApplyAttribute vs i oi a = Some ws"
  shows "length ws = length vs" "map view_id ws = map view_id vs"
    "k < length vs \<Longrightarrow> view_attributes (ws ! k) oj =
       (if k = i \<and> oj = oi then Some a else view_attributes (vs ! k) oj)"
proof -
  show "length ws = length vs" "map view_id ws = map view_id vs"
    using assms by (auto simp: ApplyAttribute_Some intro!: map_update_same)
  show "view_attributes (ws ! k) oj = (if k = i \<and> oj = oi then Some a else view_attributes (vs ! k) oj)"
    if "k < length vs"
    using assms that by (auto simp: ApplyAttribute_Some nth_list_update)
qed

lemma ApplyAttribute_graph:
  assumes "ApplyAttribute vs i oi a = Some ws" "attribute_ok (length vs) i oi a"
  shows "view_succ ws oi = (view_succ vs oi)(i := set (attr_targets a))"
    "oj \<noteq> oi \<Longrightarrow> view_succ ws oj = view_succ vs oj"
    "view_root ws = view_root vs"
proof -
  note W = ApplyAttribute_views [OF assms(1)]
  have i: "i < length vs" using assms(1) by (simp add: ApplyAttribute_Some)
  have T: "{j \<in> set (attr_targets a). j < length vs} = set (attr_targets a)"
    using assms(2) by (rule ok_targets) auto
  show "view_succ ws oi = (view_succ vs oi)(i := set (attr_targets a))"
    by (rule ext) (auto simp: view_succ_def W i T split: option.splits)
  show "view_succ ws oj = view_succ vs oj" if "oj \<noteq> oi"
    by (rule ext) (auto simp: view_succ_def W that split: option.splits)
  show "view_root ws = view_root vs"
  proof
    fix k
    have "k < length vs \<Longrightarrow> view_id (ws ! k) = view_id (vs ! k)"
      using W(1,2) by (metis length_map nth_map)
    then show "view_root ws k = view_root vs k"
      by (auto simp: view_root_def is_content_frame_def W(1))
  qed
qed

lemma ApplyAttribute_refs_wf:
  assumes "ApplyAttribute vs i oi a = Some ws" "attribute_ok (length vs) i oi a" "refs_wf vs oj"
  shows "refs_wf ws oj"
  using assms ApplyAttribute_views [OF assms(1)] by (auto simp: refs_wf_def)

lemma ApplyAttribute_acyclic:
  assumes wf: "refs_wf vs oi" "acyclic (edges_of vs oi)" and ok: "attribute_ok (length vs) i oi a"
    and nc: "IsCircularRelation vs oi i a = Some False" and ap: "ApplyAttribute vs i oi a = Some ws"
  shows "acyclic (edges_of ws oi)"
    and "IsAnchoredWithAttr vs oi a = Some True \<Longrightarrow> k = i \<or> anchored_in vs oi k \<Longrightarrow> anchored_in ws oi k"
proof -
  have i: "i < length vs" using ap by (simp add: ApplyAttribute_Some)
  note G = ApplyAttribute_graph [OF ap ok]
  have T: "\<forall>t \<in> set (attr_targets a). (t, i) \<notin> (edges_of vs oi)\<^sup>*"
  proof -
    note R = ReferencedNodes_result [OF wf(1)] and I = ids_of_reach [OF wf(1) i]
    from ok show ?thesis
      by (rule ok_targets) (use nc i R I in \<open>auto simp: IsCircularRelation_def split: if_splits\<close>)
  qed
  show "acyclic (edges_of ws oi)"
    unfolding G(1) using wf(2) T by (rule rg.update_acyclic)
  assume an: "IsAnchoredWithAttr vs oi a = Some True" and k: "k = i \<or> anchored_in vs oi k"
  have ne: "set (attr_targets a) \<noteq> {}" by (simp add: attr_targets_def)
  have "\<forall>t \<in> set (attr_targets a). anchored_in vs oi t"
    using an IsAnchoredWithAttr_result [OF wf ok] by simp
  from rg.update_anchored [OF ne T this] k show "anchored_in ws oi k"
    unfolding G(1,3) by blast
qed

text \<open>
  C19. Applying a constraint that is not circular keeps the constraints of its orientation well
  formed and acyclic. When its targets are anchored, the view is anchored afterwards, and every view
  that was anchored before still is; other views that refer to the view may become anchored with it.
\<close>

theorem ApplyAttribute_safe:
  assumes "refs_wf vs oi" "acyclic (edges_of vs oi)" "attribute_ok (length vs) i oi a"
    and "IsCircularRelation vs oi i a = Some False" "ApplyAttribute vs i oi a = Some ws"
  shows "refs_wf ws oi \<and> acyclic (edges_of ws oi) \<and>
    (IsAnchoredWithAttr vs oi a = Some True \<longrightarrow>
       IsAnchored ws oi i = Some True \<and>
       (\<forall>k < length vs. IsAnchored vs oi k = Some True \<longrightarrow> IsAnchored ws oi k = Some True))"
proof -
  have wf: "refs_wf ws oi" by (rule ApplyAttribute_refs_wf [OF assms(5,3,1)])
  have ac: "acyclic (edges_of ws oi)" by (rule ApplyAttribute_acyclic(1) [OF assms])
  have i: "i < length vs" and len: "length ws = length vs"
    using assms(5) by (auto simp: ApplyAttribute_Some)
  have A: "IsAnchored us oi k = Some (anchored_in us oi k)"
    if "refs_wf us oi" "acyclic (edges_of us oi)" "k < length us" for us k
    using IsAnchored_visited_result [OF that, of "{}"] by (simp add: IsAnchored_def ids_of_def)
  show ?thesis
    using wf ac ApplyAttribute_acyclic(2) [OF assms] i len by (auto simp: A assms)
qed

text \<open>A layout with acyclic constraints, one for every view but the root, is anchored.\<close>

lemma all_anchored_in:
  assumes "refs_wf vs oi" "acyclic (edges_of vs oi)" "i < length vs"
    and "\<forall>k < length vs. is_content_frame (vs ! k) \<or> view_attributes (vs ! k) oi \<noteq> None"
  shows "anchored_in vs oi i"
proof -
  have "view_root vs k \<or> view_succ vs oi k \<noteq> {}" if k: "k < length vs" for k
  proof (cases "is_content_frame (vs ! k)")
    case False
    with assms(4) k obtain a where a: "view_attributes (vs ! k) oi = Some a" by blast
    then have "attribute_ok (length vs) k oi a" using assms(1) k by (simp add: refs_wf_def)
    from ok_succ [OF this k a] show ?thesis by (simp add: attr_targets_def)
  qed (simp add: view_root_def k)
  then show ?thesis
    by (intro rg.complete_anchored [OF assms(2) _ assms(3)]) blast
qed

section \<open>Examples\<close>

lemma acyclic_less: "(\<And>i j. j \<in> succ i \<Longrightarrow> j < (i :: nat)) \<Longrightarrow> acyclic (graph_edges succ)"
  by (rule acyclicI_order [where f = id]) (simp add: graph_edges_def)

lemma sample_app_acyclic: "acyclic (edges_of (app_views sample_app) oi)"
proof (rule acyclic_less)
  fix i j assume "j \<in> view_succ (app_views sample_app) oi i"
  then show "j < i"
    by (cases oi) (auto simp: view_succ_def sample_app_def sample_attribute_def attr_targets_def
        IsRelationalAnchor_def nth_Cons split: nat.splits if_splits)
qed

lemma IsAnchored_iff_witness:
  "IsAnchored (app_views sample_app) HORIZONTAL 2 = Some (anchored_in (app_views sample_app) HORIZONTAL 2)"
  by (rule IsAnchored_iff [OF app_wf_refs [OF sample_app_wf] sample_app_acyclic]) (simp add: sample_app_def)

text \<open>The second view gets a new vertical constraint: aligned with the top of the content frame.\<close>

lemma ApplyAttribute_safe_witness:
  "\<exists>ws. ApplyAttribute (app_views sample_app) 2 VERTICAL (sample_attribute T2T 2 0 None 50) = Some ws \<and>
     acyclic (edges_of ws VERTICAL) \<and> IsAnchored ws VERTICAL 2 = Some True"
proof -
  let ?a = "sample_attribute T2T 2 0 None 50"
  have ok: "attribute_ok (length (app_views sample_app)) 2 VERTICAL ?a"
    by (simp add: attribute_ok_def sample_attribute_def sample_app_def IsRelationalAnchor_def)
  have nc: "IsCircularRelation (app_views sample_app) VERTICAL 2 ?a = Some False"
    by code_simp
  have an: "IsAnchoredWithAttr (app_views sample_app) VERTICAL ?a = Some True"
    by code_simp
  obtain ws where ap: "ApplyAttribute (app_views sample_app) 2 VERTICAL ?a = Some ws"
    by (auto simp: ApplyAttribute_def sample_attribute_def sample_app_def)
  from ApplyAttribute_safe [OF app_wf_refs [OF sample_app_wf] sample_app_acyclic ok nc ap] an ap
  show ?thesis by simp
qed

text \<open>
  Three views whose centering constraints refer to each other through their second targets.
\<close>

definition ring_views :: "view list" where
  "ring_views =
     [(View_make 0 0 9 9 ''root'' 0 None)\<lparr>view_pos := 0\<rparr>,
      (View_make 1 0 2 9 ''A'' 1 None)\<lparr>view_pos := 1, view_attributes := [HORIZONTAL \<mapsto> sample_attribute L2LxR2R 1 0 (Some 2) 0]\<rparr>,
      (View_make 3 0 4 9 ''B'' 2 None)\<lparr>view_pos := 2, view_attributes := [HORIZONTAL \<mapsto> sample_attribute L2LxR2R 2 0 (Some 3) 0]\<rparr>,
      (View_make 5 0 6 9 ''C'' 3 None)\<lparr>view_pos := 3, view_attributes := [HORIZONTAL \<mapsto> sample_attribute L2LxR2R 3 0 (Some 1) 0]\<rparr>]"

definition ring_loop :: "nat \<Rightarrow> int set \<Rightarrow> bool" where
  "ring_loop i vis \<longleftrightarrow> i = 1 \<and> vis = {} \<or> i = 1 \<and> vis = {3} \<or> i = 2 \<and> vis = {1} \<or> i = 3 \<and> vis = {2}"

definition ring_claim :: "view list \<Rightarrow> orientation \<Rightarrow> nat \<Rightarrow> int set \<Rightarrow> bool \<Rightarrow> bool" where
  "ring_claim vs oi i vis y \<longleftrightarrow>
     (vs = ring_views \<longrightarrow> oi = HORIZONTAL \<longrightarrow> (i = 0 \<longrightarrow> y) \<and> \<not> ring_loop i vis)"

lemma ring_simps:
  "length ring_views = 4"
  "\<not> is_content_frame (ring_views ! Suc 0)" "\<not> is_content_frame (ring_views ! 2)" "\<not> is_content_frame (ring_views ! 3)"
  "is_content_frame (ring_views ! 0)"
  "view_id (ring_views ! 0) = 0" "view_id (ring_views ! Suc 0) = 1" "view_id (ring_views ! 2) = 2"
  "view_id (ring_views ! 3) = 3"
  "view_attributes (ring_views ! Suc 0) HORIZONTAL = Some (sample_attribute L2LxR2R 1 0 (Some 2) 0)"
  "view_attributes (ring_views ! 2) HORIZONTAL = Some (sample_attribute L2LxR2R 2 0 (Some 3) 0)"
  "view_attributes (ring_views ! 3) HORIZONTAL = Some (sample_attribute L2LxR2R 3 0 (Some 1) 0)"
  "tgt_primary (sample_attribute t s p q m) = p" "tgt_secondary (sample_attribute t s p q m) = q"
  "attr_type (sample_attribute t s p q m) = t" "\<not> IsRelationalAnchor L2LxR2R"
  by (simp_all add: ring_views_def is_content_frame_def sample_attribute_def IsRelationalAnchor_def)

lemma ring_no_answer: "IsAnchored_visited vs oi i vis = Some y \<Longrightarrow> ring_claim vs oi i vis y"
proof (rule IsAnchored_visited.raw_induct [where P = ring_claim], goal_cases)
  case (1 f vs oi i vis y)
  show ?case
    unfolding ring_claim_def
  proof (intro impI)
    assume vs: "vs = ring_views" and oi: "oi = HORIZONTAL"
    have frame: "b" if "f ring_views HORIZONTAL 0 V = Some b" for V b
      using 1(2) [OF that] by (simp add: ring_claim_def)
    have loop: "f ring_views HORIZONTAL k V = Some b \<Longrightarrow> \<not> ring_loop k V" for k V b
      using 1(2) by (fastforce simp: ring_claim_def)
    have body: "i < 4" using 1(3) by (auto simp: vs oi bind_Some_iff vec_at_Some ring_simps)
    show "(i = 0 \<longrightarrow> y) \<and> \<not> ring_loop i vis"
    proof (intro conjI impI notI)
      assume "i = 0"
      then show y using 1(3) by (simp add: vs oi ring_simps)
    next
      assume "ring_loop i vis"
      then show False
        using 1(3) unfolding vs oi ring_loop_def
        by (elim disjE conjE)
          (auto simp: ring_simps bind_Some_iff ring_loop_def split: if_splits dest: frame loop)
    qed
  qed
next
  case 2
  then show ?case .
qed

text \<open>
  C39. On a cycle of three second targets \<^verbatim>\<open>IsAnchored\<close> does not return: each call starts a
  fresh visited set that only knows its own view, so a cycle longer than two is not noticed.
  (\<^verbatim>\<open>ReferencedNodes\<close> does return there.)
\<close>

theorem IsAnchored_diverges:
  "refs_wf ring_views HORIZONTAL \<and> IsAnchored ring_views HORIZONTAL 1 = None \<and>
   ReferencedNodes ring_views HORIZONTAL 1 \<noteq> None"
proof (intro conjI)
  show wf: "refs_wf ring_views HORIZONTAL"
    by (auto simp: refs_wf_def ring_views_def attribute_ok_def sample_attribute_def IsRelationalAnchor_def
        nth_Cons split: nat.splits)
  show "IsAnchored ring_views HORIZONTAL 1 = None"
    using ring_no_answer [of ring_views HORIZONTAL 1 "{}"]
    by (cases "IsAnchored_visited ring_views HORIZONTAL 1 {}") (auto simp: IsAnchored_def ring_claim_def ring_loop_def)
  show "ReferencedNodes ring_views HORIZONTAL 1 \<noteq> None"
    using ReferencedNodes_result [OF wf, of 1] by (simp add: ring_views_def)
qed

end
