(* ===== verification/Sorted_Iter.thy ===== *)
theory Sorted_Iter
  imports Prelude "HOL-Library.Multiset"
begin

text \<open>
  \<^verbatim>\<open>src/inferui/base/iterutil.h\<close>: \<^verbatim>\<open>MultiSortedIterator\<close>, which walks several sorted vectors in
  one descending order and can give up the rest of the vector it stands in. Its clients only
  use the end test, the dereference, the increment and \<^verbatim>\<open>SetCurrentToEnd\<close>; the locale \<open>cursor\<close>
  states what these promise in terms of the set of positions still to be visited, and gives
  the rule by which the clients' loops are verified. The interpretation proves the promises
  for the iterator.
\<close>

section \<open>Loops over a cursor\<close>

text \<open>
  \<^verbatim>\<open>for (auto it = begin(); it != end(); it++)\<close>; the body returns the new state and whether it
  called \<^verbatim>\<open>SetCurrentToEnd\<close>.
\<close>

partial_function (option) cursor_loop ::
    "('i \<Rightarrow> bool) \<Rightarrow> ('i \<Rightarrow> 'a option) \<Rightarrow> ('i \<Rightarrow> 'i) \<Rightarrow> ('i \<Rightarrow> 'i) \<Rightarrow> ('s \<Rightarrow> 'a \<Rightarrow> ('s \<times> bool) option) \<Rightarrow>
     'i \<Rightarrow> 's \<Rightarrow> 's option" where
  "cursor_loop at_end get nxt skip body it s =
     (if at_end it then Some s
      else do { x \<leftarrow> get it;
                r \<leftarrow> body s x;
                cursor_loop at_end get nxt skip body (nxt (if snd r then skip it else it)) (fst r) })"

declare cursor_loop.simps [code]

text \<open>
  A position is a pair of a vector and an index in it. \<open>pending\<close> are the positions the cursor
  has not passed; the current one leaves with an increment, its whole vector after a skip.
\<close>

locale cursor =
  fixes vals :: "'a list list"
    and at_end :: "'i \<Rightarrow> bool" and get :: "'i \<Rightarrow> 'a option" and nxt :: "'i \<Rightarrow> 'i" and skip :: "'i \<Rightarrow> 'i"
    and ok :: "'i \<Rightarrow> bool" and pending :: "'i \<Rightarrow> (nat \<times> nat) set"
  assumes finite_pending: "ok it \<Longrightarrow> finite (pending it)"
    and end_pending: "ok it \<Longrightarrow> at_end it \<longleftrightarrow> pending it = {}"
    and step: "ok it \<Longrightarrow> \<not> at_end it \<Longrightarrow>
      \<exists>k p. (k, p) \<in> pending it \<and> k < length vals \<and> p < length (vals ! k) \<and>
        get it = Some (vals ! k ! p) \<and>
        ok (nxt it) \<and> pending (nxt it) = pending it - {(k, p)} \<and>
        ok (nxt (skip it)) \<and> pending (nxt (skip it)) = pending it - {k} \<times> UNIV"
begin

text \<open>
  The loop ends, and every invariant over the pending positions that each step of the body
  keeps holds at the end with nothing pending.
\<close>

lemma loop_rule:
  assumes "ok it" and "I (pending it) s"
    and body: "\<And>P s k p. I P s \<Longrightarrow> (k, p) \<in> P \<Longrightarrow> k < length vals \<Longrightarrow> p < length (vals ! k) \<Longrightarrow>
      \<exists>s' sk. body s (vals ! k ! p) = Some (s', sk) \<and>
        I (if sk then P - {k} \<times> UNIV else P - {(k, p)}) s'"
  shows "\<exists>t. cursor_loop at_end get nxt skip body it s = Some t \<and> I {} t"
  using assms(1,2)
proof (induction "card (pending it)" arbitrary: it s rule: less_induct)
  case less
  show ?case
  proof (cases "at_end it")
    case True
    then have "pending it = {}" using end_pending less.prems(1) by blast
    with True less.prems(2) show ?thesis by (subst cursor_loop.simps) simp
  next
    case False
    from step [OF less.prems(1) False] obtain k p where kp: "(k, p) \<in> pending it" "k < length vals"
      "p < length (vals ! k)" "get it = Some (vals ! k ! p)"
      and n: "ok (nxt it)" "pending (nxt it) = pending it - {(k, p)}"
      and sk: "ok (nxt (skip it))" "pending (nxt (skip it)) = pending it - {k} \<times> UNIV"
      by blast
    obtain s' b where b: "body s (vals ! k ! p) = Some (s', b)"
      "I (if b then pending it - {k} \<times> UNIV else pending it - {(k, p)}) s'"
      using body [OF less.prems(2) kp(1-3)] by blast
    let ?it = "nxt (if b then skip it else it)"
    have "pending ?it \<subset> pending it" using kp(1) n sk by auto
    then have "card (pending ?it) < card (pending it)"
      by (rule psubset_card_mono [OF finite_pending [OF less.prems(1)]])
    moreover have "ok ?it" "I (pending ?it) s'" using n sk b(2) by (auto split: if_splits)
    ultimately have "\<exists>t. cursor_loop at_end get nxt skip body ?it s' = Some t \<and> I {} t"
      by (rule less.hyps)
    with False kp(4) b(1) show ?thesis by (subst cursor_loop.simps) simp
  qed
qed

end

text \<open>A cursor that always stands on a greatest pending value.\<close>

locale sorted_cursor = cursor vals at_end get nxt skip ok pending
  for vals :: "'a list list" and at_end :: "'i \<Rightarrow> bool" and get :: "'i \<Rightarrow> 'a option"
    and nxt :: "'i \<Rightarrow> 'i" and skip :: "'i \<Rightarrow> 'i" and ok :: "'i \<Rightarrow> bool" and pending :: "'i \<Rightarrow> (nat \<times> nat) set" +
  fixes key :: "'a \<Rightarrow> real"
  assumes get_max: "ok it \<Longrightarrow> (k, p) \<in> pending it \<Longrightarrow> get it = Some x \<Longrightarrow> key (vals ! k ! p) \<le> key x"
begin

text \<open>The values visited without skipping: all of them, in descending order.\<close>

lemma visited_sorted:
  assumes "ok it" "\<forall>y \<in> set ys. \<forall>(k, p) \<in> pending it. key (vals ! k ! p) \<le> key y"
    and "sorted_wrt (\<lambda>a b. key b \<le> key a) ys"
  shows "\<exists>zs. cursor_loop at_end get nxt skip (\<lambda>xs x. Some (xs @ [x], False)) it ys = Some (ys @ zs) \<and>
    sorted_wrt (\<lambda>a b. key b \<le> key a) (ys @ zs) \<and>
    mset zs = image_mset (\<lambda>(k, p). vals ! k ! p) (mset_set (pending it))"
  using assms
proof (induction "card (pending it)" arbitrary: it ys rule: less_induct)
  case less
  show ?case
  proof (cases "at_end it")
    case True
    then have "pending it = {}" using end_pending less.prems(1) by blast
    with True less.prems show ?thesis by (subst cursor_loop.simps) simp
  next
    case False
    from step [OF less.prems(1) False] obtain k p where kp: "(k, p) \<in> pending it"
        "get it = Some (vals ! k ! p)" "ok (nxt it)" "pending (nxt it) = pending it - {(k, p)}"
      by blast
    have fin: "finite (pending it)" using less.prems(1) by (rule finite_pending)
    have "pending (nxt it) \<subset> pending it" using kp(1,4) by auto
    then have smaller: "card (pending (nxt it)) < card (pending it)" using fin by (intro psubset_card_mono)
    have below: "\<forall>y \<in> set (ys @ [vals ! k ! p]). \<forall>(k', p') \<in> pending (nxt it). key (vals ! k' ! p') \<le> key y"
      using less.prems(2) get_max [OF less.prems(1) _ kp(2)] kp(4) by auto
    have sorted: "sorted_wrt (\<lambda>a b. key b \<le> key a) (ys @ [vals ! k ! p])"
      using less.prems(2,3) kp(1) by (auto simp: sorted_wrt_append)
    from less.hyps [OF smaller kp(3) below sorted] obtain zs where
      zs: "cursor_loop at_end get nxt skip (\<lambda>xs x. Some (xs @ [x], False)) (nxt it)
          (ys @ [vals ! k ! p]) = Some ((ys @ [vals ! k ! p]) @ zs)"
      "sorted_wrt (\<lambda>a b. key b \<le> key a) ((ys @ [vals ! k ! p]) @ zs)"
      "mset zs = image_mset (\<lambda>(k, p). vals ! k ! p) (mset_set (pending (nxt it)))"
      by blast
    have "mset_set (pending it) = add_mset (k, p) (mset_set (pending (nxt it)))"
      using kp(1,4) fin by (simp add: mset_set.remove)
    then have "mset (vals ! k ! p # zs) = image_mset (\<lambda>(k, p). vals ! k ! p) (mset_set (pending it))"
      using zs(3) by simp
    with False kp(2) zs(1,2) show ?thesis
      by (intro exI [of _ "vals ! k ! p # zs"]) (subst cursor_loop.simps, simp)
  qed
qed

end

section \<open>MultiSortedIterator\<close>

record msi =
  msi_top :: "nat list"
  msi_current :: nat

text \<open>
  \<^verbatim>\<open>SetNext\<close>: the vector whose next value is greatest; the first of equal ones. \<open>key\<close> stands for
  the order of the values (\<^verbatim>\<open>operator>\<close>).
\<close>

fun set_next_from :: "('a \<Rightarrow> real) \<Rightarrow> 'a list list \<Rightarrow> nat list \<Rightarrow> bool \<Rightarrow> nat \<Rightarrow> nat list \<Rightarrow> nat" where
  "set_next_from key vals tops first current [] = current"
| "set_next_from key vals tops first current (i # js) =
     (if tops ! i = length (vals ! i) then set_next_from key vals tops first current js
      else if first \<or> key (vals ! i ! (tops ! i)) > key (vals ! current ! (tops ! current))
      then set_next_from key vals tops False i js
      else set_next_from key vals tops first current js)"

definition SetNext :: "('a \<Rightarrow> real) \<Rightarrow> 'a list list \<Rightarrow> nat list \<Rightarrow> msi" where
  "SetNext key vals tops =
     \<lparr>msi_top = tops, msi_current = set_next_from key vals tops True 0 [0..<length vals]\<rparr>"

definition msi_begin :: "('a \<Rightarrow> real) \<Rightarrow> 'a list list \<Rightarrow> msi option" where
  "msi_begin key vals =
     do { CHECK (length vals \<ge> 1); Some (SetNext key vals (replicate (length vals) 0)) }"

definition msi_end :: "'a list list \<Rightarrow> msi option" where
  "msi_end vals =
     do { CHECK (length vals \<ge> 1); Some \<lparr>msi_top = [length (vals ! 0)], msi_current = 0\<rparr> }"

definition msi_Reset :: "('a \<Rightarrow> real) \<Rightarrow> 'a list list \<Rightarrow> msi \<Rightarrow> msi" where
  "msi_Reset key vals it = SetNext key vals (replicate (length vals) 0)"

definition msi_SetCurrentToEnd :: "'a list list \<Rightarrow> msi \<Rightarrow> msi" where
  "msi_SetCurrentToEnd vals it =
     it\<lparr>msi_top := (msi_top it)[msi_current it := length (vals ! msi_current it) - 1]\<rparr>"

definition msi_get :: "'a list list \<Rightarrow> msi \<Rightarrow> 'a option" where
  "msi_get vals it =
     do { vs \<leftarrow> vec_at vals (msi_current it); t \<leftarrow> vec_at (msi_top it) (msi_current it); vec_at vs t }"

definition msi_next :: "('a \<Rightarrow> real) \<Rightarrow> 'a list list \<Rightarrow> msi \<Rightarrow> msi" where
  "msi_next key vals it =
     SetNext key vals ((msi_top it)[msi_current it := Suc (msi_top it ! msi_current it)])"

definition msi_eq :: "msi \<Rightarrow> msi \<Rightarrow> bool" where
  "msi_eq a b \<longleftrightarrow> msi_current a = msi_current b \<and> msi_top a ! msi_current a = msi_top b ! msi_current b"

definition msi_at_end :: "'a list list \<Rightarrow> msi \<Rightarrow> bool" where
  "msi_at_end vals it \<longleftrightarrow> (case msi_end vals of Some e \<Rightarrow> msi_eq it e | None \<Rightarrow> True)"

section \<open>The iterator is a sorted cursor\<close>

definition tops_ok :: "'a list list \<Rightarrow> nat list \<Rightarrow> bool" where
  "tops_ok vals tops \<longleftrightarrow> vals \<noteq> [] \<and> length tops = length vals \<and>
     (\<forall>k < length vals. tops ! k \<le> length (vals ! k))"

definition tops_pending :: "'a list list \<Rightarrow> nat list \<Rightarrow> (nat \<times> nat) set" where
  "tops_pending vals tops = {(k, p). k < length vals \<and> tops ! k \<le> p \<and> p < length (vals ! k)}"

definition msi_ok :: "('a \<Rightarrow> real) \<Rightarrow> 'a list list \<Rightarrow> msi \<Rightarrow> bool" where
  "msi_ok key vals it \<longleftrightarrow> tops_ok vals (msi_top it) \<and> it = SetNext key vals (msi_top it)"

definition next_best :: "('a \<Rightarrow> real) \<Rightarrow> 'a list list \<Rightarrow> nat list \<Rightarrow> bool \<Rightarrow> nat \<Rightarrow> nat list \<Rightarrow> nat \<Rightarrow> bool" where
  "next_best key vals tops first current js c \<longleftrightarrow>
     (c = current \<and> (first \<longrightarrow> (\<forall>i \<in> set js. tops ! i = length (vals ! i))) \<or>
       c \<in> set js \<and> tops ! c \<noteq> length (vals ! c)) \<and>
     (\<forall>i \<in> set js. tops ! i \<noteq> length (vals ! i) \<longrightarrow> key (vals ! i ! (tops ! i)) \<le> key (vals ! c ! (tops ! c))) \<and>
     (\<not> first \<longrightarrow> key (vals ! current ! (tops ! current)) \<le> key (vals ! c ! (tops ! c)))"

lemma next_best_full:
  "tops ! i = length (vals ! i) \<Longrightarrow> next_best key vals tops first current js c \<Longrightarrow>
     next_best key vals tops first current (i # js) c"
  by (auto simp: next_best_def)

lemma next_best_take:
  assumes "tops ! i \<noteq> length (vals ! i)" "first \<or> key (vals ! i ! (tops ! i)) > key (vals ! current ! (tops ! current))"
    and "next_best key vals tops False i js c"
  shows "next_best key vals tops first current (i # js) c"
proof -
  have c: "c = i \<or> c \<in> set js \<and> tops ! c \<noteq> length (vals ! c)"
    "key (vals ! i ! (tops ! i)) \<le> key (vals ! c ! (tops ! c))"
    "\<forall>i \<in> set js. tops ! i \<noteq> length (vals ! i) \<longrightarrow> key (vals ! i ! (tops ! i)) \<le> key (vals ! c ! (tops ! c))"
    using assms(3) by (simp_all add: next_best_def)
  moreover have "\<not> first \<longrightarrow> key (vals ! current ! (tops ! current)) \<le> key (vals ! c ! (tops ! c))"
    using assms(2) c(2) by linarith
  ultimately show ?thesis using assms(1) by (simp add: next_best_def) blast
qed

lemma next_best_keep:
  assumes "\<not> (first \<or> key (vals ! i ! (tops ! i)) > key (vals ! current ! (tops ! current)))"
    and "next_best key vals tops first current js c"
  shows "next_best key vals tops first current (i # js) c"
proof -
  have c: "c = current \<or> c \<in> set js \<and> tops ! c \<noteq> length (vals ! c)"
    "key (vals ! current ! (tops ! current)) \<le> key (vals ! c ! (tops ! c))"
    "\<forall>i \<in> set js. tops ! i \<noteq> length (vals ! i) \<longrightarrow> key (vals ! i ! (tops ! i)) \<le> key (vals ! c ! (tops ! c))"
    using assms by (simp_all add: next_best_def)
  moreover have "key (vals ! i ! (tops ! i)) \<le> key (vals ! c ! (tops ! c))"
    using assms(1) c(2) by linarith
  ultimately show ?thesis using assms(1) by (simp add: next_best_def) blast
qed

lemma set_next_from_result:
  "next_best key vals tops first current js (set_next_from key vals tops first current js)"
proof (induction key vals tops first current js rule: set_next_from.induct)
  case (1 key vals tops first current)
  then show ?case by (simp add: next_best_def)
next
  case (2 key vals tops first current i js)
  show ?case
  proof (cases "tops ! i = length (vals ! i)")
    case True
    with "2.IH"(1) show ?thesis by (simp add: next_best_full)
  next
    case ne: False
    show ?thesis
    proof (cases "first \<or> key (vals ! i ! (tops ! i)) > key (vals ! current ! (tops ! current))")
      case True
      then have "set_next_from key vals tops first current (i # js) = set_next_from key vals tops False i js"
        using ne by simp
      then show ?thesis
        using next_best_take [OF ne True "2.IH"(2) [OF ne True]] by (simp only:)
    next
      case False
      then have "set_next_from key vals tops first current (i # js) = set_next_from key vals tops first current js"
        using ne by simp
      then show ?thesis
        using next_best_keep [OF False "2.IH"(3) [OF ne False]] by (simp only:)
    qed
  qed
qed

lemma SetNext_current:
  assumes "tops_ok vals tops" and c_def: "c = msi_current (SetNext key vals tops)"
  shows "c < length vals"
    and "tops_pending vals tops = {} \<longleftrightarrow> tops ! c = length (vals ! c)"
    and "k < length vals \<Longrightarrow> tops ! k \<noteq> length (vals ! k) \<Longrightarrow>
      key (vals ! k ! (tops ! k)) \<le> key (vals ! c ! (tops ! c))"
    and "\<forall>i < length vals. tops ! i = length (vals ! i) \<Longrightarrow> c = 0"
proof -
  have r: "(c = 0 \<and> (\<forall>i < length vals. tops ! i = length (vals ! i)) \<or>
      c < length vals \<and> tops ! c \<noteq> length (vals ! c)) \<and>
    (\<forall>i < length vals. tops ! i \<noteq> length (vals ! i) \<longrightarrow>
       key (vals ! i ! (tops ! i)) \<le> key (vals ! c ! (tops ! c)))"
    using set_next_from_result [of key vals tops True 0 "[0..<length vals]"]
    by (auto simp: c_def SetNext_def next_best_def)
  have ne: "vals \<noteq> []" using assms(1) by (simp add: tops_ok_def)
  with r show "c < length vals" by auto
  have le: "tops ! k \<le> length (vals ! k)" if "k < length vals" for k
    using assms(1) that by (simp add: tops_ok_def)
  show "tops_pending vals tops = {} \<longleftrightarrow> tops ! c = length (vals ! c)"
  proof
    assume "tops_pending vals tops = {}"
    then have "(c, tops ! c) \<notin> tops_pending vals tops" by blast
    with le [OF \<open>c < length vals\<close>] \<open>c < length vals\<close> show "tops ! c = length (vals ! c)"
      by (simp add: tops_pending_def)
  next
    assume "tops ! c = length (vals ! c)"
    with r have "\<forall>i < length vals. tops ! i = length (vals ! i)" by auto
    then show "tops_pending vals tops = {}" by (auto simp: tops_pending_def)
  qed
  show "k < length vals \<Longrightarrow> tops ! k \<noteq> length (vals ! k) \<Longrightarrow>
      key (vals ! k ! (tops ! k)) \<le> key (vals ! c ! (tops ! c))"
    using r by blast
  show "\<forall>i < length vals. tops ! i = length (vals ! i) \<Longrightarrow> c = 0"
    using r by blast
qed

lemma finite_tops_pending: "finite (tops_pending vals tops)"
proof (rule finite_subset)
  show "tops_pending vals tops \<subseteq> (SIGMA k : {..<length vals}. {..<length (vals ! k)})"
    by (auto simp: tops_pending_def)
qed simp

lemma msi_at_end_pending:
  assumes "msi_ok key vals it"
  shows "msi_at_end vals it \<longleftrightarrow> tops_pending vals (msi_top it) = {}"
proof -
  let ?c = "msi_current it"
  have ok: "tops_ok vals (msi_top it)" and it: "it = SetNext key vals (msi_top it)"
    using assms by (simp_all add: msi_ok_def)
  have c: "?c = msi_current (SetNext key vals (msi_top it))" using it by metis
  note S = SetNext_current [OF ok c]
  have ne: "length vals \<ge> 1" using ok by (cases vals) (auto simp: tops_ok_def)
  then have e: "msi_at_end vals it \<longleftrightarrow> ?c = 0 \<and> msi_top it ! 0 = length (vals ! 0)"
    by (auto simp: msi_at_end_def msi_end_def msi_eq_def)
  have zero: "?c = 0" if none: "tops_pending vals (msi_top it) = {}"
  proof -
    have "\<forall>k < length vals. msi_top it ! k = length (vals ! k)"
    proof (intro allI impI, rule ccontr)
      fix k assume k: "k < length vals" "msi_top it ! k \<noteq> length (vals ! k)"
      with ok have "(k, msi_top it ! k) \<in> tops_pending vals (msi_top it)"
        by (auto simp: tops_pending_def tops_ok_def order_less_le)
      with none show False by blast
    qed
    then have "msi_current (SetNext key vals (msi_top it)) = 0"
      by (rule SetNext_current(4) [OF ok refl])
    with c show ?thesis by (rule trans)
  qed
  show ?thesis
  proof
    assume "msi_at_end vals it"
    then have "?c = 0" "msi_top it ! 0 = length (vals ! 0)" using e by blast+
    then have "msi_top it ! ?c = length (vals ! ?c)" by simp
    then show "tops_pending vals (msi_top it) = {}" using S(2) by blast
  next
    assume p: "tops_pending vals (msi_top it) = {}"
    then have "msi_top it ! ?c = length (vals ! ?c)" using S(2) by blast
    then have "?c = 0 \<and> msi_top it ! 0 = length (vals ! 0)" unfolding zero [OF p] by simp
    then show "msi_at_end vals it" using e by blast
  qed
qed

lemma SetNext_ok: "tops_ok vals tops \<Longrightarrow> msi_ok key vals (SetNext key vals tops)"
  by (simp add: msi_ok_def SetNext_def)

lemma msi_step:
  assumes "msi_ok key vals it" "\<not> msi_at_end vals it"
  defines "k \<equiv> msi_current it" and "tops \<equiv> msi_top it"
  defines "p \<equiv> tops ! k"
  shows "(k, p) \<in> tops_pending vals tops" "k < length vals" "p < length (vals ! k)"
    "msi_get vals it = Some (vals ! k ! p)"
    "msi_ok key vals (msi_next key vals it)"
    "tops_pending vals (msi_top (msi_next key vals it)) = tops_pending vals tops - {(k, p)}"
    "msi_ok key vals (msi_next key vals (msi_SetCurrentToEnd vals it))"
    "tops_pending vals (msi_top (msi_next key vals (msi_SetCurrentToEnd vals it))) = tops_pending vals tops - {k} \<times> UNIV"
proof -
  have ok: "tops_ok vals tops" and it: "it = SetNext key vals tops"
    using assms(1) by (simp_all add: msi_ok_def tops_def)
  have c: "k = msi_current (SetNext key vals tops)" using it by (simp add: k_def)
  note S = SetNext_current [OF ok c]
  have ne: "tops_pending vals tops \<noteq> {}"
    using assms(2) msi_at_end_pending [OF assms(1)] by (simp add: tops_def)
  show k: "k < length vals" by (rule S(1))
  have "p \<le> length (vals ! k)" using ok k by (simp add: tops_ok_def p_def)
  with ne S(2) show p: "p < length (vals ! k)" by (simp add: p_def)
  show "(k, p) \<in> tops_pending vals tops" using k p by (simp add: tops_pending_def p_def)
  have len: "length tops = length vals" using ok by (simp add: tops_ok_def)
  show "msi_get vals it = Some (vals ! k ! p)"
    using k p len by (simp add: msi_get_def flip: k_def tops_def p_def)
  have n: "msi_next key vals it = SetNext key vals (tops[k := Suc p])"
    by (simp add: msi_next_def k_def tops_def p_def)
  have ok1: "tops_ok vals (tops[k := Suc p])"
    using ok p k by (auto simp: tops_ok_def nth_list_update)
  show "msi_ok key vals (msi_next key vals it)" unfolding n using ok1 by (rule SetNext_ok)
  show "tops_pending vals (msi_top (msi_next key vals it)) = tops_pending vals tops - {(k, p)}"
    using k len unfolding n
    by (auto simp: SetNext_def tops_pending_def p_def nth_list_update split: if_splits)
  have s: "msi_next key vals (msi_SetCurrentToEnd vals it) = SetNext key vals (tops[k := length (vals ! k)])"
  proof -
    have "Suc (length (vals ! k) - 1) = length (vals ! k)" using p by simp
    then show ?thesis
      using k len by (simp add: msi_next_def msi_SetCurrentToEnd_def flip: k_def tops_def)
  qed
  have ok2: "tops_ok vals (tops[k := length (vals ! k)])"
    using ok k by (auto simp: tops_ok_def nth_list_update)
  show "msi_ok key vals (msi_next key vals (msi_SetCurrentToEnd vals it))"
    unfolding s using ok2 by (rule SetNext_ok)
  show "tops_pending vals (msi_top (msi_next key vals (msi_SetCurrentToEnd vals it))) = tops_pending vals tops - {k} \<times> UNIV"
    using k len unfolding s
    by (auto simp: SetNext_def tops_pending_def nth_list_update split: if_splits)
qed

interpretation msi: cursor vals "msi_at_end vals" "msi_get vals" "msi_next key vals" "msi_SetCurrentToEnd vals"
    "msi_ok key vals" "\<lambda>it. tops_pending vals (msi_top it)" for vals :: "'a list list" and key
proof
  fix it assume ok: "msi_ok key vals it"
  show "finite (tops_pending vals (msi_top it))" by (rule finite_tops_pending)
  show "msi_at_end vals it \<longleftrightarrow> tops_pending vals (msi_top it) = {}" using ok by (rule msi_at_end_pending)
  assume "\<not> msi_at_end vals it"
  note st = msi_step [OF ok this]
  show "\<exists>k p. (k, p) \<in> tops_pending vals (msi_top it) \<and> k < length vals \<and> p < length (vals ! k) \<and>
        msi_get vals it = Some (vals ! k ! p) \<and>
        msi_ok key vals (msi_next key vals it) \<and>
        tops_pending vals (msi_top (msi_next key vals it)) = tops_pending vals (msi_top it) - {(k, p)} \<and>
        msi_ok key vals (msi_next key vals (msi_SetCurrentToEnd vals it)) \<and>
        tops_pending vals (msi_top (msi_next key vals (msi_SetCurrentToEnd vals it))) =
          tops_pending vals (msi_top it) - {k} \<times> UNIV"
    by (intro exI conjI) (rule st)+
qed

text \<open>With vectors in descending order the iterator stands on a greatest pending value.\<close>

definition all_sorted :: "('a \<Rightarrow> real) \<Rightarrow> 'a list list \<Rightarrow> bool" where
  "all_sorted key vals \<longleftrightarrow> (\<forall>vs \<in> set vals. sorted_wrt (\<lambda>a b. key b \<le> key a) vs)"

lemma all_sorted_nth:
  "all_sorted key vals \<Longrightarrow> k < length vals \<Longrightarrow> p \<le> q \<Longrightarrow> q < length (vals ! k) \<Longrightarrow>
     key (vals ! k ! q) \<le> key (vals ! k ! p)"
  by (cases "p = q") (auto simp: all_sorted_def sorted_wrt_iff_nth_less)

interpretation msis: sorted_cursor vals "msi_at_end vals" "msi_get vals" "msi_next key vals" "msi_SetCurrentToEnd vals"
    "\<lambda>it. msi_ok key vals it \<and> all_sorted key vals" "\<lambda>it. tops_pending vals (msi_top it)" key
    for vals :: "'a list list" and key
proof (unfold_locales, goal_cases)
  case (1 it)
  then show ?case using msi.finite_pending by blast
next
  case (2 it)
  then show ?case using msi.end_pending by blast
next
  case (3 it)
  then have ok: "msi_ok key vals it" and so: "all_sorted key vals" and e: "\<not> msi_at_end vals it" by simp_all
  note st = msi_step [OF ok e]
  show ?case
    by (intro exI conjI) (rule st so)+
next
  case (4 it k p x)
  then have ok: "msi_ok key vals it" "all_sorted key vals" by simp_all
  have e: "\<not> msi_at_end vals it" using 4 msi_at_end_pending [OF ok(1)] by blast
  note st = msi_step [OF ok(1) e]
  have kp: "k < length vals" "msi_top it ! k \<le> p" "p < length (vals ! k)"
    using 4 by (simp_all add: tops_pending_def)
  have "key (vals ! k ! p) \<le> key (vals ! k ! (msi_top it ! k))"
    by (rule all_sorted_nth [OF ok(2)]) (use kp in simp_all)
  also have "\<dots> \<le> key (vals ! msi_current it ! (msi_top it ! msi_current it))"
  proof (rule SetNext_current(3) [of vals "msi_top it" _ key])
    show "tops_ok vals (msi_top it)" using ok(1) by (simp add: msi_ok_def)
    have "it = SetNext key vals (msi_top it)" using ok(1) by (simp add: msi_ok_def)
    then show "msi_current it = msi_current (SetNext key vals (msi_top it))" by metis
  qed (use kp in simp_all)
  also have "vals ! msi_current it ! (msi_top it ! msi_current it) = x"
    using st(4) 4 by simp
  finally show ?case .
qed

lemma msi_begin_ok:
  assumes "vals \<noteq> []"
  shows "\<exists>it. msi_begin key vals = Some it \<and> msi_ok key vals it \<and>
    tops_pending vals (msi_top it) = {(k, p). k < length vals \<and> p < length (vals ! k)}"
proof -
  let ?it = "SetNext key vals (replicate (length vals) 0)"
  have "tops_ok vals (replicate (length vals) 0)" using assms by (simp add: tops_ok_def)
  then have ok: "msi_ok key vals ?it" by (rule SetNext_ok)
  have "length vals \<ge> 1" using assms by (cases vals) auto
  then have b: "msi_begin key vals = Some ?it" by (simp add: msi_begin_def)
  have "tops_pending vals (msi_top ?it) = {(k, p). k < length vals \<and> p < length (vals ! k)}"
    by (auto simp: SetNext_def tops_pending_def)
  with ok b show ?thesis by blast
qed

lemma image_mset_positions:
  "image_mset (\<lambda>(k, p). vals ! k ! p) (mset_set {(k, p). k < length vals \<and> p < length (vals ! k)}) = mset (concat vals)"
proof (induction vals rule: rev_induct)
  case (snoc v vals)
  let ?n = "length vals"
  let ?A = "{(k, p). k < ?n \<and> p < length (vals ! k)}" and ?B = "Pair ?n ` {..<length v}"
  have split: "{(k, p). k < length (vals @ [v]) \<and> p < length ((vals @ [v]) ! k)} = ?A \<union> ?B"
    by (auto simp: nth_append less_Suc_eq)
  have fin: "finite ?A" using finite_tops_pending [of vals "replicate ?n 0"] by (simp add: tops_pending_def cong: conj_cong)
  have "mset_set (?A \<union> ?B) = mset_set ?A + mset_set ?B"
    by (rule mset_set_Union) (use fin in auto)
  moreover have "image_mset (\<lambda>(k, p). (vals @ [v]) ! k ! p) (mset_set ?A) = image_mset (\<lambda>(k, p). vals ! k ! p) (mset_set ?A)"
    using fin by (intro image_mset_cong) (auto simp: nth_append)
  moreover have "mset_set ?B = image_mset (Pair ?n) (mset_set {..<length v})"
    by (rule image_mset_mset_set [symmetric]) (simp add: inj_on_def)
  moreover have "image_mset (\<lambda>p. v ! p) (mset_set {..<length v}) = mset v"
    by (metis atLeast_upt map_nth mset_map mset_set_upto_eq_mset_upto)
  ultimately show ?case
    unfolding split using snoc.IH by (simp add: multiset.map_comp comp_def)
qed simp

text \<open>The values in the order of the iterator.\<close>

definition msi_list :: "('a \<Rightarrow> real) \<Rightarrow> 'a list list \<Rightarrow> 'a list option" where
  "msi_list key vals =
     do { it \<leftarrow> msi_begin key vals;
          cursor_loop (msi_at_end vals) (msi_get vals) (msi_next key vals) (msi_SetCurrentToEnd vals)
            (\<lambda>xs x. Some (xs @ [x], False)) it [] }"

text \<open>
  C23. Over vectors that are each in descending order, \<^verbatim>\<open>MultiSortedIterator\<close> reaches its end
  and visits every value exactly once, all of them in one descending order.
\<close>

theorem MultiSortedIterator_merges:
  assumes "vals \<noteq> []" "all_sorted key vals"
  shows "\<exists>ys. msi_list key vals = Some ys \<and> sorted_wrt (\<lambda>a b. key b \<le> key a) ys \<and> mset ys = mset (concat vals)"
proof -
  obtain it where it: "msi_begin key vals = Some it" "msi_ok key vals it"
    "tops_pending vals (msi_top it) = {(k, p). k < length vals \<and> p < length (vals ! k)}"
    using msi_begin_ok [OF assms(1)] by blast
  have "\<exists>zs. cursor_loop (msi_at_end vals) (msi_get vals) (msi_next key vals) (msi_SetCurrentToEnd vals)
      (\<lambda>xs x. Some (xs @ [x], False)) it [] = Some ([] @ zs) \<and> sorted_wrt (\<lambda>a b. key b \<le> key a) ([] @ zs) \<and>
      mset zs = image_mset (\<lambda>(k, p). vals ! k ! p) (mset_set (tops_pending vals (msi_top it)))"
    by (rule msis.visited_sorted) (use it(2) assms(2) in auto)
  then show ?thesis
    by (auto simp: msi_list_def it(1,3) image_mset_positions)
qed

lemma MultiSortedIterator_merges_witness:
  "\<exists>ys. msi_list id [[5, 2], [4, 3 :: real]] = Some ys \<and> mset ys = mset [5, 2, 4, 3]"
  using MultiSortedIterator_merges [of "[[5, 2], [4, 3 :: real]]" id] by (auto simp: all_sorted_def)

end
