(* ===== verification/Constraint_Gen.thy ===== *)
theory Constraint_Gen
  imports Ref_Graph
begin

text \<open>
  The constraint generators of \<^verbatim>\<open>src/inferui/inferui/model/constraints.h\<close> and the margins of
  \<^verbatim>\<open>constraints.cpp\<close>. A generator calls back once per constraint; it is the list of the calls
  here, in their order. \<open>attribute_holds\<close> is the reference semantics of a constraint over an
  assignment of intervals to views: every generated constraint holds at the positions it was
  generated from, and constraints without circular references determine the positions.
\<close>

section \<open>Margins\<close>

fun RelationalMargin :: "constraint_type \<Rightarrow> 'a rectangle_scheme \<Rightarrow> 'b rectangle_scheme \<Rightarrow> real option" where
  "RelationalMargin T2T a b = Some (real_of_int (ytop a - ytop b))"
| "RelationalMargin T2B a b = Some (real_of_int (ytop a - ybottom b))"
| "RelationalMargin B2T a b = Some (real_of_int (ytop b - ybottom a))"
| "RelationalMargin B2B a b = Some (real_of_int (ybottom b - ybottom a))"
| "RelationalMargin L2L a b = Some (real_of_int (xleft a - xleft b))"
| "RelationalMargin L2R a b = Some (real_of_int (xleft a - xright b))"
| "RelationalMargin R2L a b = Some (real_of_int (xleft b - xright a))"
| "RelationalMargin R2R a b = Some (real_of_int (xright b - xright a))"
| "RelationalMargin _ a b = None"

fun CenterMargin ::
    "constraint_type \<Rightarrow> 'a rectangle_scheme \<Rightarrow> 'b rectangle_scheme \<Rightarrow> 'c rectangle_scheme \<Rightarrow> real \<Rightarrow> real option" where
  "CenterMargin L2LxR2R a l r bias = Some (real_of_int (xleft a + xright a) * bias - real_of_int (xleft l + xright r) * bias)"
| "CenterMargin L2RxR2L a l r bias = Some (real_of_int (xleft a + xright a) * bias - real_of_int (xright l + xleft r) * bias)"
| "CenterMargin L2LxR2L a l r bias = Some (real_of_int (xleft a + xright a) * bias - real_of_int (xleft l + xleft r) * bias)"
| "CenterMargin L2RxR2R a l r bias = Some (real_of_int (xleft a + xright a) * bias - real_of_int (xright l + xright r) * bias)"
| "CenterMargin T2TxB2T a l r bias = Some (real_of_int (ytop a + ybottom a) * bias - real_of_int (ytop l + ytop r) * bias)"
| "CenterMargin T2TxB2B a l r bias = Some (real_of_int (ytop a + ybottom a) * bias - real_of_int (ytop l + ybottom r) * bias)"
| "CenterMargin T2BxB2T a l r bias = Some (real_of_int (ytop a + ybottom a) * bias - real_of_int (ybottom l + ytop r) * bias)"
| "CenterMargin T2BxB2B a l r bias = Some (real_of_int (ytop a + ybottom a) * bias - real_of_int (ybottom l + ybottom r) * bias)"
| "CenterMargin _ a l r bias = None"

section \<open>Generators\<close>

definition relational_types :: "orientation \<Rightarrow> constraint_type list" where
  "relational_types oi = (if oi = HORIZONTAL then [L2L, L2R, R2L, R2R] else [T2T, T2B, B2T, B2B])"

definition center_types :: "orientation \<Rightarrow> constraint_type list" where
  "center_types oi =
     (if oi = HORIZONTAL then [L2LxR2L, L2LxR2R, L2RxR2L, L2RxR2R] else [T2TxB2T, T2TxB2B, T2BxB2T, T2BxB2B])"

text \<open>The calls made by a loop, one list per iteration; \<^verbatim>\<open>Product\<close> is the loop over pairs.\<close>

primrec gen_each :: "('x \<Rightarrow> 'a list option) \<Rightarrow> 'x list \<Rightarrow> 'a list option" where
  "gen_each f [] = Some []"
| "gen_each f (x # xs) = do { ys \<leftarrow> f x; zs \<leftarrow> gen_each f xs; Some (ys @ zs) }"

definition Product :: "nat \<Rightarrow> (nat \<Rightarrow> nat \<Rightarrow> 'a list option) \<Rightarrow> 'a list option" where
  "Product n cb = gen_each (\<lambda>i. gen_each (\<lambda>j. cb i j) [0..<n]) [0..<n]"

definition centering_candidate :: "view list \<Rightarrow> nat \<Rightarrow> nat \<Rightarrow> nat \<Rightarrow> constraint_type \<Rightarrow> attribute list option" where
  "centering_candidate vs i l r t =
     do { src \<leftarrow> vec_at vs i; lv \<leftarrow> vec_at vs l; rv \<leftarrow> vec_at vs r;
          m \<leftarrow> CenterMargin t src lv rv (1 / 2);
          let margin = (if \<bar>m\<bar> < 1 / 2 then 0 else m);
          if view_eq lv rv \<and> margin \<noteq> 0 \<and> t \<in> {L2LxR2L, L2RxR2R, T2TxB2T, T2BxB2B} then Some []
          else do { a \<leftarrow> Attribute_full t FIXED (if margin > 0 then to_int (margin * 2) else 0)
                           (if margin < 0 then to_int (margin * - 2) else 0) i l (Some r) (1 / 2);
                    Some [a] } }"

definition GenFixedSizeCenteringConstraints :: "orientation \<Rightarrow> nat \<Rightarrow> view list \<Rightarrow> attribute list option" where
  "GenFixedSizeCenteringConstraints oi i vs =
     Product (length vs) (\<lambda>l r.
       do { src \<leftarrow> vec_at vs i; lv \<leftarrow> vec_at vs l; rv \<leftarrow> vec_at vs r;
            if view_eq lv src \<or> view_eq rv src then Some []
            else gen_each (centering_candidate vs i l r) (center_types oi) })"

definition relational_candidate :: "view list \<Rightarrow> nat \<Rightarrow> nat \<Rightarrow> constraint_type \<Rightarrow> attribute list option" where
  "relational_candidate vs i j t =
     do { src \<leftarrow> vec_at vs i; v \<leftarrow> vec_at vs j;
          if is_content_frame v \<and> t \<in> {T2B, B2T, L2R, R2L} then Some []
          else do { margin \<leftarrow> RelationalMargin t src v;
                    if margin < 0 then Some []
                    else do { a \<leftarrow> Attribute_relational t FIXED (to_int margin) i j; Some [a] } } }"

definition GenFixedSizeRelationalConstraints :: "orientation \<Rightarrow> nat \<Rightarrow> view list \<Rightarrow> attribute list option" where
  "GenFixedSizeRelationalConstraints oi i vs =
     gen_each (\<lambda>j.
       do { src \<leftarrow> vec_at vs i; v \<leftarrow> vec_at vs j;
            if view_eq v src then Some []
            else gen_each (relational_candidate vs i j) (relational_types oi) }) [0..<length vs]"

definition GenMatchParentCenteringConstraints :: "orientation \<Rightarrow> nat \<Rightarrow> view list \<Rightarrow> attribute list option" where
  "GenMatchParentCenteringConstraints oi i vs =
     (let t = (if oi = HORIZONTAL then L2LxR2R else T2TxB2B) in
      do { parent \<leftarrow> vec_at vs 0;
           CHECK (is_content_frame parent);
           src \<leftarrow> vec_at vs i;
           types \<leftarrow> SplitCenterAnchor t;
           marginStart \<leftarrow> RelationalMargin (fst types) src parent;
           marginEnd \<leftarrow> RelationalMargin (snd types) src parent;
           if marginStart < 0 \<or> marginEnd < 0 then Some []
           else do { a \<leftarrow> Attribute_full t MATCH_PARENT (to_int marginStart) (to_int marginEnd) i 0 (Some 0) (1 / 2);
                     Some [a] } })"

definition match_constraint_candidate ::
    "view list \<Rightarrow> nat \<Rightarrow> nat \<Rightarrow> nat \<Rightarrow> constraint_type \<Rightarrow> attribute list option" where
  "match_constraint_candidate vs i l r t =
     do { src \<leftarrow> vec_at vs i; lv \<leftarrow> vec_at vs l; rv \<leftarrow> vec_at vs r;
          types \<leftarrow> SplitCenterAnchor t;
          marginStart \<leftarrow> RelationalMargin (fst types) src lv;
          marginEnd \<leftarrow> RelationalMargin (snd types) src rv;
          if marginStart < 0 \<or> marginEnd < 0 then Some []
          else do { a \<leftarrow> Attribute_full t MATCH_CONSTRAINT (to_int marginStart) (to_int marginEnd) i l (Some r) (1 / 2);
                    Some [a] } }"

definition GenMatchConstraintCenteringConstraints :: "orientation \<Rightarrow> nat \<Rightarrow> view list \<Rightarrow> attribute list option" where
  "GenMatchConstraintCenteringConstraints oi i vs =
     Product (length vs) (\<lambda>l r.
       do { src \<leftarrow> vec_at vs i; lv \<leftarrow> vec_at vs l; rv \<leftarrow> vec_at vs r;
            if view_eq lv src \<or> view_eq rv src then Some []
            else gen_each (match_constraint_candidate vs i l r) (center_types oi) })"

section \<open>What a constraint means\<close>

text \<open>
  An assignment gives every view its start and end in one orientation. The target side of a
  relational constraint is its last letter.
\<close>

definition to_start :: "constraint_type \<Rightarrow> bool" where
  "to_start t \<longleftrightarrow> t \<in> {L2L, R2L, T2T, B2T}"

definition anchor_pos :: "(nat \<Rightarrow> int \<times> int) \<Rightarrow> constraint_type \<Rightarrow> nat \<Rightarrow> int" where
  "anchor_pos P t j = (if to_start t then fst (P j) else snd (P j))"

definition attribute_holds :: "(nat \<Rightarrow> int \<times> int) \<Rightarrow> attribute \<Rightarrow> bool" where
  "attribute_holds P a =
     (let s = P (attr_src a) in
      case split_center (attr_type a) of
        None \<Rightarrow>
          (if IsTypeStart (attr_type a) = Some True
           then fst s = anchor_pos P (attr_type a) (tgt_primary a) + value_primary a
           else snd s = anchor_pos P (attr_type a) (tgt_primary a) - value_secondary a)
      | Some (ts, te) \<Rightarrow>
          (case tgt_secondary a of
             None \<Rightarrow> False
           | Some q \<Rightarrow>
               (let A = anchor_pos P ts (tgt_primary a) + value_primary a;
                    B = anchor_pos P te q - value_secondary a
                in if attr_view_size a = FIXED then fst s + snd s = A + B else s = (A, B))))"

definition view_interval :: "view list \<Rightarrow> orientation \<Rightarrow> nat \<Rightarrow> int \<times> int" where
  "view_interval vs oi i =
     (if oi = HORIZONTAL then (xleft (vs ! i), xright (vs ! i)) else (ytop (vs ! i), ybottom (vs ! i)))"

section \<open>Every generated constraint holds where it was generated\<close>

lemma gen_each_mem:
  "gen_each f xs = Some ys \<Longrightarrow> y \<in> set ys \<Longrightarrow> \<exists>x \<in> set xs. \<exists>zs. f x = Some zs \<and> y \<in> set zs"
proof (induction xs arbitrary: ys)
  case (Cons x xs)
  then obtain zs ws where zs: "f x = Some zs" "gen_each f xs = Some ws" "ys = zs @ ws"
    by (auto simp: bind_Some_iff)
  with Cons show ?case by (cases "y \<in> set zs") auto
qed simp

lemma gen_each_contains:
  "gen_each f xs = Some ys \<Longrightarrow> x \<in> set xs \<Longrightarrow> f x = Some zs \<Longrightarrow> set zs \<subseteq> set ys"
  by (induction xs arbitrary: ys) (auto simp: bind_Some_iff)

lemma gen_each_total: "(\<And>x. x \<in> set xs \<Longrightarrow> \<exists>zs. f x = Some zs) \<Longrightarrow> \<exists>ys. gen_each f xs = Some ys"
proof (induction xs)
  case (Cons x xs)
  then obtain zs ws where "f x = Some zs" "gen_each f xs = Some ws" by force
  then show ?case by simp
qed simp

lemma Product_mem:
  assumes "Product n cb = Some ys" "y \<in> set ys"
  obtains i j zs where "i < n" "j < n" "cb i j = Some zs" "y \<in> set zs"
  using assms by (auto simp: Product_def dest!: gen_each_mem)

lemma Product_total:
  assumes "\<And>i j. i < n \<Longrightarrow> j < n \<Longrightarrow> \<exists>zs. cb i j = Some zs"
  shows "\<exists>ys. Product n cb = Some ys"
  unfolding Product_def using assms by (intro gen_each_total) simp

text \<open>What is proved of each generated constraint.\<close>

definition generated_ok :: "view list \<Rightarrow> orientation \<Rightarrow> nat \<Rightarrow> attribute \<Rightarrow> bool" where
  "generated_ok vs oi i a \<longleftrightarrow>
     attribute_ok (length vs) i oi a \<and> attribute_holds (view_interval vs oi) a \<and> attr_bias a = 1 / 2"

lemma to_int_double_half: "to_int ((real_of_int k / 2) * 2) = k" "to_int (real_of_int k / 2 * - 2) = - k"
  by (simp_all flip: of_int_minus)

lemma orientation_types:
  "t \<in> set (relational_types oi) \<longleftrightarrow> IsRelationalAnchor t \<and> ConstraintTypeToOrientation t = Some oi"
  "t \<in> set (center_types oi) \<longleftrightarrow> \<not> IsRelationalAnchor t \<and> ConstraintTypeToOrientation t = Some oi"
  by (cases t; cases oi; simp add: relational_types_def center_types_def IsRelationalAnchor_def)+

lemma relational_candidate_ok:
  assumes "i < length vs" "j < length vs" "t \<in> set (relational_types oi)"
  shows "\<exists>as. relational_candidate vs i j t = Some as \<and>
    (\<forall>a \<in> set as. generated_ok vs oi i a \<and> attr_view_size a = FIXED)"
proof -
  have t: "t \<in> {L2L, L2R, R2L, R2R, T2T, T2B, B2T, B2B}"
    using assms(3) by (auto simp: relational_types_def split: if_splits)
  have oi: "ConstraintTypeToOrientation t = Some oi" using assms(3) by (simp add: orientation_types)
  obtain m :: int where m: "RelationalMargin t (vs ! i) (vs ! j) = Some (real_of_int m)"
    and eq: "if IsTypeStart t = Some True
      then fst (view_interval vs oi i) = anchor_pos (view_interval vs oi) t j + m
      else snd (view_interval vs oi i) = anchor_pos (view_interval vs oi) t j - m"
    and st: "IsTypeStart t = Some True \<or> IsTypeStart t = Some False" and sp: "split_center t = None"
      "IsRelationalAnchor t"
    using t oi by (cases oi) (auto simp: view_interval_def anchor_pos_def to_start_def simp del: of_int_diff)
  show ?thesis
  proof (cases "is_content_frame (vs ! j) \<and> t \<in> {T2B, B2T, L2R, R2L} \<or> m < 0")
    case True
    then show ?thesis using assms m by (auto simp: relational_candidate_def)
  next
    case False
    then have c: "relational_candidate vs i j t = do { a \<leftarrow> Attribute_relational t FIXED m i j; Some [a] }"
      using assms m by (auto simp: relational_candidate_def)
    show ?thesis
      using st
    proof
      assume "IsTypeStart t = Some True"
      with False assms eq sp oi show ?thesis
        unfolding c by (simp add: Attribute_relational_def Attribute_full_def IsCenterAnchor_def
            generated_ok_def attribute_ok_def attribute_holds_def)
    next
      assume "IsTypeStart t = Some False"
      with False assms eq sp oi show ?thesis
        unfolding c by (simp add: Attribute_relational_def Attribute_full_def IsCenterAnchor_def
            generated_ok_def attribute_ok_def attribute_holds_def)
    qed
  qed
qed

text \<open>The two halves of a centering type, and its margins in terms of the anchors.\<close>

lemma center_margins:
  assumes "t \<in> set (center_types oi)" and P_def: "P = view_interval vs oi"
  obtains ts te where "split_center t = Some (ts, te)"
    "CenterMargin t (vs ! i) (vs ! l) (vs ! r) (1 / 2) =
       Some (real_of_int (fst (P i) + snd (P i) - anchor_pos P ts l - anchor_pos P te r) / 2)"
    "RelationalMargin ts (vs ! i) (vs ! l) = Some (real_of_int (fst (P i) - anchor_pos P ts l))"
    "RelationalMargin te (vs ! i) (vs ! r) = Some (real_of_int (anchor_pos P te r - snd (P i)))"
proof -
  have t: "t \<in> {L2LxR2L, L2LxR2R, L2RxR2L, L2RxR2R} \<and> oi = HORIZONTAL \<or>
      t \<in> {T2TxB2T, T2TxB2B, T2BxB2T, T2BxB2B} \<and> oi = VERTICAL"
    using assms(1) by (cases oi) (auto simp: center_types_def)
  show thesis
    by (rule that [of "fst (the (split_center t))" "snd (the (split_center t))"])
      (use t in \<open>auto simp: P_def view_interval_def anchor_pos_def to_start_def diff_divide_distrib add_divide_distrib\<close>)
qed

lemma Attribute_center_ok:
  assumes "t \<in> set (center_types oi)" "i < length vs" "l < length vs" "r < length vs" "0 \<le> vp" "0 \<le> vq"
    and "split_center t = Some (ts, te)" "P = view_interval vs oi"
    and "if sz = FIXED
      then fst (P i) + snd (P i) = anchor_pos P ts l + vp + (anchor_pos P te r - vq)
      else fst (P i) = anchor_pos P ts l + vp \<and> snd (P i) = anchor_pos P te r - vq"
  shows "\<exists>a. Attribute_full t sz vp vq i l (Some r) (1 / 2) = Some a \<and> generated_ok vs oi i a \<and>
    attr_view_size a = sz \<and> \<not> IsRelationalAnchor (attr_type a)"
  using assms
  by (auto simp: Attribute_full_def generated_ok_def attribute_ok_def attribute_holds_def
      orientation_types IsCenterAnchor_def prod_eq_iff)

lemma to_int_twice_half:
  "to_int (real_of_int d / 2 * 2) = d" "to_int (real_of_int d / 2 * - 2) = - d"
  by (simp_all flip: of_int_minus)

lemma centering_candidate_ok:
  assumes "i < length vs" "l < length vs" "r < length vs" "t \<in> set (center_types oi)"
  shows "\<exists>as. centering_candidate vs i l r t = Some as \<and>
    (\<forall>a \<in> set as. generated_ok vs oi i a \<and> attr_view_size a = FIXED)"
proof -
  let ?P = "view_interval vs oi"
  from center_margins [OF assms(4) refl, of vs i l r] obtain ts te where
    sp: "split_center t = Some (ts, te)"
    and m: "CenterMargin t (vs ! i) (vs ! l) (vs ! r) (1 / 2) =
       Some (real_of_int (fst (?P i) + snd (?P i) - anchor_pos ?P ts l - anchor_pos ?P te r) / 2)"
    by metis
  define d where "d = fst (?P i) + snd (?P i) - anchor_pos ?P ts l - anchor_pos ?P te r"
  let ?m = "real_of_int d / 2"
  define vp where "vp = (if d > 0 then d else 0)"
  define vq where "vq = (if d < 0 then - d else 0)"
  have margin: "(if \<bar>?m\<bar> < 1 / 2 then 0 else ?m) = ?m" by (cases "d = 0") auto
  have "\<exists>a. Attribute_full t FIXED vp vq i l (Some r) (1 / 2) = Some a \<and>
      generated_ok vs oi i a \<and> attr_view_size a = FIXED \<and> \<not> IsRelationalAnchor (attr_type a)"
    by (rule Attribute_center_ok [OF assms(4,1,2,3) _ _ sp refl])
      (simp_all add: vp_def vq_def d_def)
  moreover have "(if ?m > 0 then to_int (?m * 2) else 0) = vp" "(if ?m < 0 then to_int (?m * - 2) else 0) = vq"
    unfolding vp_def vq_def to_int_twice_half by simp_all
  ultimately show ?thesis
    using assms(1-3) m by (auto simp: centering_candidate_def Let_def margin simp flip: d_def)
qed

lemma match_constraint_candidate_ok:
  assumes "i < length vs" "l < length vs" "r < length vs" "t \<in> set (center_types oi)"
  shows "\<exists>as. match_constraint_candidate vs i l r t = Some as \<and>
    (\<forall>a \<in> set as. generated_ok vs oi i a \<and> attr_view_size a = MATCH_CONSTRAINT \<and> \<not> IsRelationalAnchor (attr_type a))"
proof -
  let ?P = "view_interval vs oi"
  from center_margins [OF assms(4) refl, of vs i l r] obtain ts te where
    sp: "split_center t = Some (ts, te)"
    and m: "RelationalMargin ts (vs ! i) (vs ! l) = Some (real_of_int (fst (?P i) - anchor_pos ?P ts l))"
      "RelationalMargin te (vs ! i) (vs ! r) = Some (real_of_int (anchor_pos ?P te r - snd (?P i)))"
    by metis
  define vp where "vp = fst (?P i) - anchor_pos ?P ts l"
  define vq where "vq = anchor_pos ?P te r - snd (?P i)"
  show ?thesis
  proof (cases "vp < 0 \<or> vq < 0")
    case True
    then show ?thesis
      using assms(1-3) m sp by (auto simp: match_constraint_candidate_def vp_def vq_def)
  next
    case False
    have "\<exists>a. Attribute_full t MATCH_CONSTRAINT vp vq i l (Some r) (1 / 2) = Some a \<and>
        generated_ok vs oi i a \<and> attr_view_size a = MATCH_CONSTRAINT \<and> \<not> IsRelationalAnchor (attr_type a)"
      by (rule Attribute_center_ok [OF assms(4,1,2,3) _ _ sp refl])
        (use False in \<open>simp_all add: vp_def vq_def\<close>)
    then show ?thesis
      using False assms(1-3) m sp
      by (auto simp: match_constraint_candidate_def simp flip: vp_def vq_def simp del: of_int_diff)
  qed
qed

text \<open>The generators return, and what they generate holds.\<close>

lemma gen_each_all:
  assumes "\<And>x. x \<in> set xs \<Longrightarrow> \<exists>as. f x = Some as \<and> (\<forall>a \<in> set as. Q a)"
  shows "\<exists>as. gen_each f xs = Some as \<and> (\<forall>a \<in> set as. Q a)"
proof -
  obtain as where as: "gen_each f xs = Some as" using assms gen_each_total [of xs f] by blast
  have "Q a" if "a \<in> set as" for a
    using gen_each_mem [OF as that] assms by force
  with as show ?thesis by blast
qed

lemma Product_all:
  assumes "\<And>i j. i < n \<Longrightarrow> j < n \<Longrightarrow> \<exists>as. cb i j = Some as \<and> (\<forall>a \<in> set as. Q a)"
  shows "\<exists>as. Product n cb = Some as \<and> (\<forall>a \<in> set as. Q a)"
  unfolding Product_def using assms by (intro gen_each_all) simp

lemma GenFixedSizeRelational_result:
  assumes "i < length vs"
  shows "\<exists>as. GenFixedSizeRelationalConstraints oi i vs = Some as \<and>
    (\<forall>a \<in> set as. generated_ok vs oi i a \<and> attr_view_size a = FIXED)"
  unfolding GenFixedSizeRelationalConstraints_def
  by (rule gen_each_all) (use assms relational_candidate_ok [of i vs _ _ oi] in \<open>auto intro!: gen_each_all\<close>)

lemma GenFixedSizeCentering_result:
  assumes "i < length vs"
  shows "\<exists>as. GenFixedSizeCenteringConstraints oi i vs = Some as \<and>
    (\<forall>a \<in> set as. generated_ok vs oi i a \<and> attr_view_size a = FIXED)"
  unfolding GenFixedSizeCenteringConstraints_def
  by (rule Product_all) (use assms centering_candidate_ok [of i vs _ _ _ oi] in \<open>auto intro!: gen_each_all\<close>)

lemma GenMatchConstraintCentering_result:
  assumes "i < length vs"
  shows "\<exists>as. GenMatchConstraintCenteringConstraints oi i vs = Some as \<and>
    (\<forall>a \<in> set as. generated_ok vs oi i a \<and> attr_view_size a = MATCH_CONSTRAINT \<and> \<not> IsRelationalAnchor (attr_type a))"
  unfolding GenMatchConstraintCenteringConstraints_def
  by (rule Product_all) (use assms match_constraint_candidate_ok [of i vs _ _ _ oi] in \<open>auto intro!: gen_each_all\<close>)

lemma GenMatchParentCentering_result:
  assumes "i < length vs" "is_content_frame (vs ! 0)"
  shows "\<exists>as. GenMatchParentCenteringConstraints oi i vs = Some as \<and> (\<forall>a \<in> set as. generated_ok vs oi i a)"
proof -
  let ?t = "if oi = HORIZONTAL then L2LxR2R else T2TxB2B" and ?P = "view_interval vs oi"
  have t: "?t \<in> set (center_types oi)" by (simp add: center_types_def)
  have n: "0 < length vs" using assms(1) by (cases vs) auto
  from center_margins [OF t refl, of vs i 0 0] obtain ts te where
    sp: "split_center ?t = Some (ts, te)"
    and m: "RelationalMargin ts (vs ! i) (vs ! 0) = Some (real_of_int (fst (?P i) - anchor_pos ?P ts 0))"
      "RelationalMargin te (vs ! i) (vs ! 0) = Some (real_of_int (anchor_pos ?P te 0 - snd (?P i)))"
    by metis
  define vp where "vp = fst (?P i) - anchor_pos ?P ts 0"
  define vq where "vq = anchor_pos ?P te 0 - snd (?P i)"
  have g: "GenMatchParentCenteringConstraints oi i vs =
      (if vp < 0 \<or> vq < 0 then Some []
       else do { a \<leftarrow> Attribute_full ?t MATCH_PARENT vp vq i 0 (Some 0) (1 / 2); Some [a] })"
    using assms n sp m unfolding GenMatchParentCenteringConstraints_def Let_def
    by (simp add: vp_def vq_def del: of_int_diff)
  have "\<exists>a. Attribute_full ?t MATCH_PARENT vp vq i 0 (Some 0) (1 / 2) = Some a \<and>
      generated_ok vs oi i a \<and> attr_view_size a = MATCH_PARENT \<and> \<not> IsRelationalAnchor (attr_type a)" if "0 \<le> vp" "0 \<le> vq"
    by (rule Attribute_center_ok [OF t assms(1) n n that sp refl]) (simp add: vp_def vq_def)
  then show ?thesis unfolding g by fastforce
qed

text \<open>
  A view whose start is not before that of the content frame can be aligned with the start of the
  content frame.
\<close>

definition start_type :: "orientation \<Rightarrow> constraint_type" where
  "start_type oi = (if oi = HORIZONTAL then L2L else T2T)"

lemma root_candidate:
  assumes "i < length vs" "r < length vs" "\<not> view_eq (vs ! r) (vs ! i)"
    and "fst (view_interval vs oi r) \<le> fst (view_interval vs oi i)"
    and "GenFixedSizeRelationalConstraints oi i vs = Some as"
  shows "\<exists>a \<in> set as. attr_type a = start_type oi \<and> tgt_primary a = r \<and> attr_src a = i"
proof -
  let ?t = "start_type oi" and ?m = "fst (view_interval vs oi i) - fst (view_interval vs oi r)"
  have t: "?t \<in> set (relational_types oi)" by (simp add: start_type_def relational_types_def)
  have "\<exists>a. relational_candidate vs i r ?t = Some [a] \<and> attr_type a = ?t \<and> tgt_primary a = r \<and> attr_src a = i"
    using assms(1,2,4)
    by (cases oi) (simp_all add: relational_candidate_def start_type_def view_interval_def
        Attribute_relational_def Attribute_full_def IsCenterAnchor_def flip: of_int_diff)
  then obtain a where a: "relational_candidate vs i r ?t = Some [a]" "attr_type a = ?t"
    "tgt_primary a = r" "attr_src a = i" by blast
  have "\<exists>zs. gen_each (relational_candidate vs i r) (relational_types oi) = Some zs"
    by (rule gen_each_total) (use relational_candidate_ok [OF assms(1,2)] in blast)
  then obtain zs where zs: "gen_each (relational_candidate vs i r) (relational_types oi) = Some zs" by blast
  with gen_each_contains [OF zs t a(1)] have "a \<in> set zs" by simp
  moreover have "set zs \<subseteq> set as"
    by (rule gen_each_contains [OF assms(5) [unfolded GenFixedSizeRelationalConstraints_def], of r])
      (use assms zs in simp_all)
  ultimately show ?thesis using a by blast
qed

section \<open>Constraints determine the layout\<close>

text \<open>
  An assignment solves the constraints of an app when the content frame is where the device puts
  it, every constraint holds and every view of fixed size keeps its size.
\<close>

definition solves :: "view list \<Rightarrow> orientation \<Rightarrow> (nat \<Rightarrow> int \<times> int) \<Rightarrow> bool" where
  "solves vs oi P \<longleftrightarrow>
     (\<forall>i < length vs.
        (is_content_frame (vs ! i) \<longrightarrow> P i = view_interval vs oi i) \<and>
        (\<forall>a. view_attributes (vs ! i) oi = Some a \<longrightarrow> attribute_holds P a \<and>
           (attr_view_size a = FIXED \<or> IsRelationalAnchor (attr_type a) \<longrightarrow>
              snd (P i) - fst (P i) = snd (view_interval vs oi i) - fst (view_interval vs oi i))))"

lemma solves_at:
  assumes "solves vs oi P" "i < length vs" "view_attributes (vs ! i) oi = Some a"
  shows "attribute_holds P a"
    "attr_view_size a = FIXED \<or> IsRelationalAnchor (attr_type a) \<Longrightarrow>
       snd (P i) - fst (P i) = snd (view_interval vs oi i) - fst (view_interval vs oi i)"
  using assms unfolding solves_def by blast+

lemma attribute_holds_unique:
  assumes "attribute_holds P a" "attribute_holds Q a" "attribute_ok n i oi a"
    and "\<forall>j \<in> set (attr_targets a). P j = Q j"
    and "attr_view_size a = FIXED \<or> IsRelationalAnchor (attr_type a) \<Longrightarrow> snd (P i) - fst (P i) = snd (Q i) - fst (Q i)"
  shows "P i = Q i"
proof -
  have src: "attr_src a = i" using assms(3) by (simp add: attribute_ok_def)
  show ?thesis
  proof (cases "split_center (attr_type a)")
    case None
    then have rel: "IsRelationalAnchor (attr_type a)"
      using assms(3) by (cases "attr_type a") (auto simp: attribute_ok_def)
    then have "P (tgt_primary a) = Q (tgt_primary a)" using assms(4) by (simp add: attr_targets_def)
    with assms(1,2,5) rel None src show ?thesis
      by (auto simp: attribute_holds_def anchor_pos_def prod_eq_iff Let_def split: if_splits)
  next
    case (Some pq)
    obtain ts te where sp: "split_center (attr_type a) = Some (ts, te)" using Some by (cases pq) auto
    then have rel: "\<not> IsRelationalAnchor (attr_type a)"
      by (cases "attr_type a") auto
    with assms(3) obtain j where j: "tgt_secondary a = Some j" by (auto simp: attribute_ok_def split: option.splits)
    then have "P (tgt_primary a) = Q (tgt_primary a)" "P j = Q j"
      using assms(4) rel by (simp_all add: attr_targets_def)
    with assms(1,2,5) sp j src show ?thesis
      by (auto simp: attribute_holds_def anchor_pos_def prod_eq_iff Let_def split: if_splits)
  qed
qed

lemma solves_unique:
  assumes "refs_wf vs oi" "solves vs oi P" "solves vs oi Q" "anchored_in vs oi i"
  shows "P i = Q i"
  using assms(4)
proof (induction rule: anchored.induct)
  case (anchored_root i)
  with assms(2,3) show ?case by (simp add: solves_def view_root_def)
next
  case (anchored_step i)
  then have i: "i < length vs" "view_attributes (vs ! i) oi \<noteq> None"
    by (auto simp: view_succ_def split: if_splits option.splits)
  then obtain a where a: "view_attributes (vs ! i) oi = Some a" by blast
  have ok: "attribute_ok (length vs) i oi a" using assms(1) i(1) a by (simp add: refs_wf_def)
  have "\<forall>j \<in> set (attr_targets a). P j = Q j"
    using anchored_step.IH ok_succ [OF ok i(1) a] by simp
  then show ?case
    using solves_at [OF assms(2) i(1) a] solves_at [OF assms(3) i(1) a]
    by (intro attribute_holds_unique [OF _ _ ok]) simp_all
qed

text \<open>
  C18. The four generators return for every view, and every constraint they generate is well formed
  (source, targets and orientation are right, the margins are not negative) and holds at the
  positions of the views it was generated from.
\<close>

theorem generated_constraints_hold:
  assumes "i < length vs" "is_content_frame (vs ! 0)"
  shows "\<exists>rel cen mat par.
    GenFixedSizeRelationalConstraints oi i vs = Some rel \<and>
    GenFixedSizeCenteringConstraints oi i vs = Some cen \<and>
    GenMatchConstraintCenteringConstraints oi i vs = Some mat \<and>
    GenMatchParentCenteringConstraints oi i vs = Some par \<and>
    (\<forall>a \<in> set (rel @ cen @ mat @ par).
       attribute_ok (length vs) i oi a \<and> attribute_holds (view_interval vs oi) a)"
proof -
  obtain rel cen mat par where g: "GenFixedSizeRelationalConstraints oi i vs = Some rel"
      "GenFixedSizeCenteringConstraints oi i vs = Some cen"
      "GenMatchConstraintCenteringConstraints oi i vs = Some mat"
      "GenMatchParentCenteringConstraints oi i vs = Some par"
    and "\<forall>a \<in> set rel. generated_ok vs oi i a" "\<forall>a \<in> set cen. generated_ok vs oi i a"
      "\<forall>a \<in> set mat. generated_ok vs oi i a" "\<forall>a \<in> set par. generated_ok vs oi i a"
    using GenFixedSizeRelational_result [OF assms(1), of oi] GenFixedSizeCentering_result [OF assms(1), of oi]
      GenMatchConstraintCentering_result [OF assms(1), of oi] GenMatchParentCentering_result [OF assms, of oi]
    by blast
  then have "\<forall>a \<in> set (rel @ cen @ mat @ par).
      attribute_ok (length vs) i oi a \<and> attribute_holds (view_interval vs oi) a"
    by (auto simp: generated_ok_def)
  with g show ?thesis by blast
qed

lemma generated_constraints_hold_witness:
  "\<exists>rel. GenFixedSizeRelationalConstraints HORIZONTAL 1 (app_views sample_app) = Some rel"
  using generated_constraints_hold [of 1 "app_views sample_app" HORIZONTAL]
  by (auto simp: sample_app_def is_content_frame_def View_make_def)

end
