(* ===== verification/Layout_Synthesis.thy ===== *)
theory Layout_Synthesis
  imports Constraint_Gen Sorted_Iter
begin

text \<open>
  The greedy synthesis of \<^verbatim>\<open>src/inferui/inferui/model/synthesis.h\<close>: \<^verbatim>\<open>ConstraintCache\<close> generates
  and ranks the candidate constraints of every view, \<^verbatim>\<open>LayoutSynthesis\<close> walks them from the most
  to the least probable with a \<^verbatim>\<open>MultiSortedIterator\<close> and applies those that are useful.

  The probability model is virtual (\<^verbatim>\<open>ProbModel::AttrProb\<close>); it is a parameter, which may
  abort. \<^verbatim>\<open>std::sort\<close> leaves the order of equal elements open; the model keeps it.
\<close>

section \<open>The cache of candidates\<close>

type_synonym prob_model = "view list \<Rightarrow> attribute \<Rightarrow> real option"

record constraint_cache =
  cc_orientation :: orientation
  candidate_attrs :: "attribute list list"
  allowed_targets :: "bool list list"

definition GenAttributesForApp :: "orientation \<Rightarrow> nat \<Rightarrow> view list \<Rightarrow> attribute list option" where
  "GenAttributesForApp oi i vs =
     do { rel \<leftarrow> GenFixedSizeRelationalConstraints oi i vs;
          cen \<leftarrow> GenFixedSizeCenteringConstraints oi i vs;
          mat \<leftarrow> GenMatchConstraintCenteringConstraints oi i vs;
          Some (rel @ cen @ mat) }"

definition sort_by_prob :: "attribute list \<Rightarrow> attribute list" where
  "sort_by_prob as = sort_key (\<lambda>a. - attr_prob a) as"

definition set_prob :: "prob_model \<Rightarrow> view list \<Rightarrow> attribute \<Rightarrow> attribute option" where
  "set_prob model vs a = do { p \<leftarrow> model vs a; Some (a\<lparr>attr_prob := p\<rparr>) }"

definition base_candidates :: "prob_model \<Rightarrow> orientation \<Rightarrow> view list \<Rightarrow> nat \<Rightarrow> attribute list list option" where
  "base_candidates model oi vs i =
     do { v \<leftarrow> vec_at vs i;
          if is_content_frame v then Some []
          else do { as \<leftarrow> GenAttributesForApp oi i vs;
                    bs \<leftarrow> map_opt (set_prob model vs) as;
                    CHECK (sort_by_prob bs \<noteq> []);
                    Some [sort_by_prob bs] } }"

definition InitializeBaseConstraints :: "prob_model \<Rightarrow> orientation \<Rightarrow> view list \<Rightarrow> attribute list list option" where
  "InitializeBaseConstraints model oi vs = gen_each (base_candidates model oi vs) [0..<length vs]"

text \<open>
  With the screens of other devices a candidate must also be a candidate there. The vector
  \<^verbatim>\<open>matches\<close> has one entry per original candidate; the surviving candidates are compacted after
  each screen, the vector is not.
\<close>

primrec contains_attribute :: "view list \<Rightarrow> attribute list \<Rightarrow> view list \<Rightarrow> attribute \<Rightarrow> bool option" where
  "contains_attribute ws [] vs a = Some False"
| "contains_attribute ws (c # cs) vs a =
     do { b \<leftarrow> Attribute_eq ws c vs a; if b then Some True else contains_attribute ws cs vs a }"

definition match_step ::
    "('a \<Rightarrow> bool option) \<Rightarrow> 'a list \<Rightarrow> bool list \<Rightarrow> nat \<Rightarrow> bool list option" where
  "match_step test as ms i =
     do { m \<leftarrow> vec_at ms i; a \<leftarrow> vec_at as i;
          if \<not> m then Some ms
          else do { c \<leftarrow> test a; if \<not> c then vec_set ms i False else Some ms } }"

definition match_app :: "('a \<Rightarrow> bool option) \<Rightarrow> 'a list \<times> bool list \<Rightarrow> ('a list \<times> bool list) option" where
  "match_app test s =
     do { ms \<leftarrow> fold_opt (match_step test (fst s)) (snd s) [0..<length (fst s)];
          Some (map fst (filter snd (zip (fst s) ms)), ms) }"

definition match_other ::
    "orientation \<Rightarrow> view list \<Rightarrow> view \<Rightarrow> attribute list \<times> bool list \<Rightarrow> app \<Rightarrow> (attribute list \<times> bool list) option" where
  "match_other oi vs v s other =
     do { j \<leftarrow> findView other (view_id v);
          cs \<leftarrow> GenAttributesForApp oi j (app_views other);
          match_app (contains_attribute (app_views other) cs vs) s }"

definition base_candidates_apps ::
    "prob_model \<Rightarrow> orientation \<Rightarrow> view list \<Rightarrow> app list \<Rightarrow> nat \<Rightarrow> attribute list list option" where
  "base_candidates_apps model oi vs apps i =
     do { v \<leftarrow> vec_at vs i;
          if is_content_frame v then Some []
          else do { as \<leftarrow> GenAttributesForApp oi i vs;
                    s \<leftarrow> fold_opt (match_other oi vs v) (as, replicate (length as) True) apps;
                    CHECK (fst s \<noteq> []);
                    bs \<leftarrow> map_opt (set_prob model vs) (fst s);
                    Some [sort_by_prob bs] } }"

definition InitializeBaseConstraints_apps ::
    "prob_model \<Rightarrow> orientation \<Rightarrow> view list \<Rightarrow> app list \<Rightarrow> attribute list list option" where
  "InitializeBaseConstraints_apps model oi vs apps =
     do { CHECK (apps \<noteq> []); gen_each (base_candidates_apps model oi vs apps) [0..<length vs] }"

text \<open>The iterator over the cache.\<close>

definition cache_begin :: "attribute list list \<Rightarrow> msi option" where
  "cache_begin cands = msi_begin attr_prob cands"

definition allowed_at :: "bool list list \<Rightarrow> int \<Rightarrow> int \<Rightarrow> bool option" where
  "allowed_at al i j = do { row \<leftarrow> vec_at_int al i; vec_at_int row j }"

definition allow :: "bool list list \<Rightarrow> int \<Rightarrow> int \<Rightarrow> bool list list option" where
  "allow al i j =
     do { row \<leftarrow> vec_at_int al i; row' \<leftarrow> (if 0 \<le> j then vec_set row (nat j) True else None);
          vec_set al (nat i) row' }"

definition prune_step :: "view list \<Rightarrow> bool list list \<Rightarrow> attribute \<Rightarrow> (bool list list \<times> bool) option" where
  "prune_step vs al a =
     do { s \<leftarrow> vec_at vs (attr_src a); p \<leftarrow> vec_at vs (tgt_primary a);
          if IsRelationalAnchor (attr_type a) then
            do { back \<leftarrow> allowed_at al (view_pos p) (view_pos s);
                 al' \<leftarrow> (if \<not> back then allow al (view_pos s) (view_pos p) else Some al);
                 Some (al', False) }
          else
            do { j \<leftarrow> tgt_secondary a; q \<leftarrow> vec_at vs j;
                 back \<leftarrow> allowed_at al (view_pos p) (view_pos s);
                 back2 \<leftarrow> (if \<not> back then allowed_at al (view_pos q) (view_pos s) else Some True);
                 al' \<leftarrow> (if \<not> back \<and> \<not> back2
                         then do { a1 \<leftarrow> allow al (view_pos s) (view_pos p); allow a1 (view_pos s) (view_pos q) }
                         else Some al);
                 Some (al', False) } }"

definition InitializePrune :: "view list \<Rightarrow> attribute list list \<Rightarrow> bool list list \<Rightarrow> bool list list option" where
  "InitializePrune vs cands al =
     do { it \<leftarrow> cache_begin cands;
          cursor_loop (msi_at_end cands) (msi_get cands) (msi_next attr_prob cands) (msi_SetCurrentToEnd cands)
            (prune_step vs) it al }"

definition ConstraintCache :: "prob_model \<Rightarrow> view list \<Rightarrow> orientation \<Rightarrow> constraint_cache option" where
  "ConstraintCache model vs oi =
     do { cands \<leftarrow> InitializeBaseConstraints model oi vs;
          al \<leftarrow> InitializePrune vs cands (replicate (length vs) (replicate (length vs) False));
          Some \<lparr>cc_orientation = oi, candidate_attrs = cands, allowed_targets = al\<rparr> }"

definition ConstraintCache_apps ::
    "prob_model \<Rightarrow> view list \<Rightarrow> app list \<Rightarrow> orientation \<Rightarrow> constraint_cache option" where
  "ConstraintCache_apps model vs apps oi =
     do { cands \<leftarrow> (if apps = [] then InitializeBaseConstraints model oi vs
                    else InitializeBaseConstraints_apps model oi vs apps);
          al \<leftarrow> InitializePrune vs cands (replicate (length vs) (replicate (length vs) False));
          Some \<lparr>cc_orientation = oi, candidate_attrs = cands, allowed_targets = al\<rparr> }"

definition IsValid :: "view list \<Rightarrow> attribute \<Rightarrow> bool option" where
  "IsValid vs a =
     do { p \<leftarrow> vec_at vs (tgt_primary a);
          if IsRelationalAnchor (attr_type a)
          then Some (\<not> (view_pos p = 0 \<and> attr_type a \<in> {T2B, B2T, L2R, R2L}))
          else do { j \<leftarrow> tgt_secondary a; q \<leftarrow> vec_at vs j;
                    if attr_type a \<in> {L2RxR2L, T2BxB2T} \<and> view_eq p q then Some False
                    else if view_pos p = 0 \<and> view_pos q = 0 \<and> attr_type a \<in> {L2LxR2L, L2RxR2R, T2TxB2T, T2BxB2B}
                    then Some False else Some True } }"

definition IsAllowed :: "constraint_cache \<Rightarrow> view list \<Rightarrow> attribute \<Rightarrow> bool option" where
  "IsAllowed c vs a =
     do { valid \<leftarrow> IsValid vs a;
          if \<not> valid then Some False
          else do { oi \<leftarrow> ConstraintTypeToOrientation (attr_type a);
                    s \<leftarrow> vec_at vs (attr_src a);
                    if view_view_size s oi \<noteq> None \<and> view_view_size s oi \<noteq> Some (attr_view_size a) then Some False
                    else do { p \<leftarrow> vec_at vs (tgt_primary a);
                              b \<leftarrow> allowed_at (allowed_targets c) (view_pos s) (view_pos p);
                              if IsRelationalAnchor (attr_type a) then Some b
                              else if b then do { j \<leftarrow> tgt_secondary a; q \<leftarrow> vec_at vs j;
                                                  allowed_at (allowed_targets c) (view_pos s) (view_pos q) }
                              else Some False } } }"

definition cache_size :: "constraint_cache \<Rightarrow> nat" where
  "cache_size c = sum_list (map length (candidate_attrs c))"

text \<open>The candidates of the view with an id; there is no entry for the content frame.\<close>

definition candidates_of :: "constraint_cache \<Rightarrow> int \<Rightarrow> attribute list option" where
  "candidates_of c i = do { CHECK (i - 1 \<ge> 0); vec_at_int (candidate_attrs c) (i - 1) }"

definition NumConstraints :: "constraint_cache \<Rightarrow> int \<Rightarrow> nat option" where
  "NumConstraints c i = map_option length (candidates_of c i)"

definition BestAttribute :: "constraint_cache \<Rightarrow> int \<Rightarrow> attribute option" where
  "BestAttribute c i = do { as \<leftarrow> candidates_of c i; vec_at as 0 }"

definition GetAttr :: "constraint_cache \<Rightarrow> int \<Rightarrow> int \<Rightarrow> attribute option option" where
  "GetAttr c i rank =
     do { as \<leftarrow> candidates_of c i;
          if rank \<ge> int (length as) then Some None else map_option Some (vec_at_int as rank) }"

text \<open>
  \<^verbatim>\<open>GetRank\<close>: the first candidate with the type, the size and the targets. A candidate without a
  second target matches every second target.
\<close>

definition no_rank :: "int \<times> real" where
  "no_rank = (2 ^ 31 - 1, - 9999)"

fun rank_loop ::
    "view list \<Rightarrow> attribute list \<Rightarrow> nat \<Rightarrow> constraint_type \<Rightarrow> view_size \<Rightarrow> int \<Rightarrow> int \<Rightarrow> int \<Rightarrow> (int \<times> real) option" where
  "rank_loop vs [] rank t sz p q max_rank = Some no_rank"
| "rank_loop vs (a # as) rank t sz p q max_rank =
     (if max_rank \<noteq> - 1 \<and> int rank > max_rank then Some no_rank
      else do { pv \<leftarrow> vec_at vs (tgt_primary a);
                second \<leftarrow> (case tgt_secondary a of None \<Rightarrow> Some True
                           | Some j \<Rightarrow> do { qv \<leftarrow> vec_at vs j; Some (view_id qv = q) });
                if attr_type a = t \<and> attr_view_size a = sz \<and> view_id pv = p \<and> second
                then Some (int rank, attr_prob a)
                else rank_loop vs as (Suc rank) t sz p q max_rank })"

definition GetRank ::
    "constraint_cache \<Rightarrow> view list \<Rightarrow> int \<Rightarrow> constraint_type \<Rightarrow> view_size \<Rightarrow> int \<Rightarrow> int \<Rightarrow> int \<Rightarrow> (int \<times> real) option" where
  "GetRank c vs i t sz p q max_rank = do { as \<leftarrow> candidates_of c i; rank_loop vs as 0 t sz p q max_rank }"

text \<open>The rank of an attribute, possibly of another app (\<open>ws\<close>) with the same ids.\<close>

definition GetRank_attr ::
    "constraint_cache \<Rightarrow> view list \<Rightarrow> int \<Rightarrow> view list \<Rightarrow> attribute \<Rightarrow> (int \<times> real) option" where
  "GetRank_attr c vs i ws a =
     do { as \<leftarrow> candidates_of c i;
          CHECK (length as > 0);
          s \<leftarrow> vec_at vs (attr_src (as ! 0)); s' \<leftarrow> vec_at ws (attr_src a);
          CHECK (view_id s = view_id s');
          p \<leftarrow> vec_at ws (tgt_primary a);
          q \<leftarrow> (case tgt_secondary a of None \<Rightarrow> Some (- 1)
                | Some j \<Rightarrow> do { w \<leftarrow> vec_at ws j; Some (view_id w) });
          GetRank c vs i (attr_type a) (attr_view_size a) (view_id p) q (- 1) }"

section \<open>The synthesis\<close>

definition ShouldApplyConstraint :: "view list \<Rightarrow> nat \<Rightarrow> orientation \<Rightarrow> attribute \<Rightarrow> bool option" where
  "ShouldApplyConstraint vs i oi a =
     do { circular \<leftarrow> IsCircularRelation vs oi i a;
          if circular then Some False
          else do { v \<leftarrow> vec_at vs i;
                    if \<not> HasAttribute v oi then Some True
                    else do { will_anchor \<leftarrow> IsAnchoredWithAttr vs oi a;
                              anchored \<leftarrow> IsAnchored vs oi i;
                              if anchored = will_anchor
                              then do { p \<leftarrow> GetAttributeProb v oi; Some (attr_prob a > p) }
                              else Some will_anchor } } }"

text \<open>The loop body; the second component asks for \<^verbatim>\<open>SetCurrentToEnd\<close>.\<close>

definition synthesize_step :: "orientation \<Rightarrow> view list \<Rightarrow> attribute \<Rightarrow> (view list \<times> bool) option" where
  "synthesize_step oi vs a =
     do { apply_it \<leftarrow> ShouldApplyConstraint vs (attr_src a) oi a;
          if \<not> apply_it then Some (vs, False)
          else do { ws \<leftarrow> ApplyAttribute vs (attr_src a) oi a;
                    anchored \<leftarrow> IsAnchored ws oi (attr_src a);
                    Some (ws, anchored) } }"

definition Synthesize :: "prob_model \<Rightarrow> view list \<Rightarrow> app list \<Rightarrow> orientation \<Rightarrow> view list option" where
  "Synthesize model vs apps oi =
     do { cache \<leftarrow> ConstraintCache_apps model vs apps oi;
          let cands = candidate_attrs cache in
          do { it \<leftarrow> cache_begin cands;
               cursor_loop (msi_at_end cands) (msi_get cands) (msi_next attr_prob cands) (msi_SetCurrentToEnd cands)
                 (synthesize_step oi) it vs } }"

definition SynthesizeLayout_apps :: "prob_model \<Rightarrow> app \<Rightarrow> app list \<Rightarrow> app option" where
  "SynthesizeLayout_apps model a apps =
     (if length (app_views a) = 1 then Some a
      else do { CHECK (\<forall>b \<in> set apps. length (app_views a) = length (app_views b));
                vs \<leftarrow> Synthesize model (app_views a) apps HORIZONTAL;
                ws \<leftarrow> Synthesize model vs apps VERTICAL;
                Some (a\<lparr>app_views := ws\<rparr>) })"

definition SynthesizeLayout :: "prob_model \<Rightarrow> app \<Rightarrow> app option" where
  "SynthesizeLayout model a = SynthesizeLayout_apps model a []"

section \<open>The candidates\<close>

lemma gen_each_singletons:
  "(\<And>x. x \<in> set xs \<Longrightarrow> f x = Some [g x]) \<Longrightarrow> gen_each f xs = Some (map g xs)"
  by (induction xs) simp_all

lemma sort_by_prob_set [simp]: "set (sort_by_prob as) = set as"
  by (simp add: sort_by_prob_def)

lemma sort_by_prob_Nil [simp]: "sort_by_prob as = [] \<longleftrightarrow> as = []"
  by (metis set_empty sort_by_prob_set)

lemma sort_by_prob_sorted: "sorted_wrt (\<lambda>a b. attr_prob b \<le> attr_prob a) (sort_by_prob as)"
proof -
  have "sorted (map (\<lambda>a. - attr_prob a) (sort_by_prob as))" by (simp add: sort_by_prob_def)
  then show ?thesis by (simp add: sorted_map)
qed

lemma generated_ok_prob [simp]: "generated_ok vs oi i (a\<lparr>attr_prob := p\<rparr>) = generated_ok vs oi i a"
  by (simp add: generated_ok_def attribute_ok_def attribute_holds_def Let_def split: option.split)

text \<open>A constraint that aligns a view with the start of the content frame.\<close>

definition root_aligned :: "orientation \<Rightarrow> attribute \<Rightarrow> bool" where
  "root_aligned oi a \<longleftrightarrow> attr_type a = start_type oi \<and> tgt_primary a = 0"

definition candidates_ok :: "view list \<Rightarrow> orientation \<Rightarrow> nat \<Rightarrow> attribute list \<Rightarrow> bool" where
  "candidates_ok vs oi i cs \<longleftrightarrow>
     (\<forall>a \<in> set cs. generated_ok vs oi i a \<and> (IsRelationalAnchor (attr_type a) \<longrightarrow> attr_view_size a = FIXED)) \<and>
     (\<exists>a \<in> set cs. root_aligned oi a) \<and> sorted_wrt (\<lambda>a b. attr_prob b \<le> attr_prob a) cs"

text \<open>What synthesis needs of the views: the content frame first, nothing left of or above it.\<close>

definition synth_ready :: "view list \<Rightarrow> orientation \<Rightarrow> bool" where
  "synth_ready vs oi \<longleftrightarrow>
     2 \<le> length vs \<and> distinct (map view_id vs) \<and> is_content_frame (vs ! 0) \<and>
     (\<forall>i < length vs. view_pos (vs ! i) = int i \<and> view_attributes (vs ! i) oi = None \<and>
        fst (view_interval vs oi 0) \<le> fst (view_interval vs oi i))"

lemma synth_ready_frame: "synth_ready vs oi \<Longrightarrow> i < length vs \<Longrightarrow> is_content_frame (vs ! i) \<longleftrightarrow> i = 0"
proof -
  assume r: "synth_ready vs oi" and i: "i < length vs"
  then have d: "distinct (map view_id vs)" "is_content_frame (vs ! 0)" "0 < length vs"
    by (auto simp: synth_ready_def)
  have "i = 0" if "view_id (vs ! i) = view_id (vs ! 0)"
    using nth_eq_iff_index_eq [OF d(1), of i 0] i d(3) that by simp
  with d(2) show ?thesis by (auto simp: is_content_frame_def)
qed

lemma IsRelational_start [simp]: "IsRelationalAnchor (start_type oi)"
  by (simp add: start_type_def)

lemma GenAttributesForApp_result:
  assumes "synth_ready vs oi" "0 < i" "i < length vs"
  shows "\<exists>as. GenAttributesForApp oi i vs = Some as \<and>
    (\<forall>a \<in> set as. generated_ok vs oi i a \<and> (IsRelationalAnchor (attr_type a) \<longrightarrow> attr_view_size a = FIXED)) \<and>
    (\<exists>a \<in> set as. root_aligned oi a)"
proof -
  obtain rel cen mat where g: "GenFixedSizeRelationalConstraints oi i vs = Some rel"
      "GenFixedSizeCenteringConstraints oi i vs = Some cen"
      "GenMatchConstraintCenteringConstraints oi i vs = Some mat"
    and ok: "\<forall>a \<in> set rel. generated_ok vs oi i a \<and> attr_view_size a = FIXED" "\<forall>a \<in> set cen. generated_ok vs oi i a \<and> attr_view_size a = FIXED"
      "\<forall>a \<in> set mat. generated_ok vs oi i a \<and> attr_view_size a = MATCH_CONSTRAINT \<and> \<not> IsRelationalAnchor (attr_type a)"
    using GenFixedSizeRelational_result [OF assms(3), of oi] GenFixedSizeCentering_result [OF assms(3), of oi]
      GenMatchConstraintCentering_result [OF assms(3), of oi] by blast
  have n: "0 < length vs" using assms(3) by linarith
  have "\<not> is_content_frame (vs ! i)" "is_content_frame (vs ! 0)"
    using synth_ready_frame [OF assms(1)] assms(2,3) n by simp_all
  then have ne: "\<not> view_eq (vs ! 0) (vs ! i)" by (simp add: view_eq_def is_content_frame_def)
  have le: "fst (view_interval vs oi 0) \<le> fst (view_interval vs oi i)"
    using assms(1,3) by (simp add: synth_ready_def)
  obtain a where a: "a \<in> set rel" "root_aligned oi a"
    using root_candidate [OF assms(3) n ne le g(1)] by (auto simp: root_aligned_def)
  have "\<forall>a \<in> set (rel @ cen @ mat). generated_ok vs oi i a \<and>
      (IsRelationalAnchor (attr_type a) \<longrightarrow> attr_view_size a = FIXED)"
    using ok by auto
  with g a show ?thesis by (auto simp: GenAttributesForApp_def)
qed

text \<open>
  A probability model that answers for the constraints of an app: for every well-formed attribute
  of views that stand where those of the app stand.
\<close>

definition same_geometry :: "view list \<Rightarrow> view list \<Rightarrow> bool" where
  "same_geometry vs ws \<longleftrightarrow> length ws = length vs \<and>
     (\<forall>k < length vs. \<forall>oi. view_interval ws oi k = view_interval vs oi k)"

definition model_answers :: "prob_model \<Rightarrow> view list \<Rightarrow> bool" where
  "model_answers model vs \<longleftrightarrow>
     (\<forall>ws oi i a. same_geometry vs ws \<and> i < length vs \<and> attribute_ok (length vs) i oi a \<longrightarrow> model ws a \<noteq> None)"

lemma model_answers_here:
  "model_answers model vs \<Longrightarrow> i < length vs \<Longrightarrow> attribute_ok (length vs) i oi a \<Longrightarrow> \<exists>p. model vs a = Some p"
  by (force simp: model_answers_def same_geometry_def)

lemma model_answers_same: "same_geometry vs ws \<Longrightarrow> model_answers model vs \<Longrightarrow> model_answers model ws"
  by (simp add: model_answers_def same_geometry_def)

lemma set_prob_list:
  assumes "\<forall>a \<in> set as. \<exists>p. model vs a = Some p"
  shows "\<exists>p. map_opt (set_prob model vs) as = Some (map (\<lambda>a. a\<lparr>attr_prob := p a\<rparr>) as)"
proof -
  define p where "p a = the (model vs a)" for a
  have "set_prob model vs a = Some (a\<lparr>attr_prob := p a\<rparr>)" if "a \<in> set as" for a
    using assms that by (auto simp: set_prob_def p_def)
  then show ?thesis by (intro exI [of _ p] map_opt_Some_map) simp
qed

lemma base_candidates_result:
  assumes "synth_ready vs oi" "0 < i" "i < length vs" "model_answers model vs"
  shows "\<exists>cs. base_candidates model oi vs i = Some [cs] \<and> candidates_ok vs oi i cs"
proof -
  obtain as where as: "GenAttributesForApp oi i vs = Some as"
    "\<forall>a \<in> set as. generated_ok vs oi i a \<and> (IsRelationalAnchor (attr_type a) \<longrightarrow> attr_view_size a = FIXED)"
    "\<exists>a \<in> set as. root_aligned oi a"
    using GenAttributesForApp_result [OF assms(1-3)] by blast
  obtain p where p: "map_opt (set_prob model vs) as = Some (map (\<lambda>a. a\<lparr>attr_prob := p a\<rparr>) as)"
    using set_prob_list [of as model vs] as(2) model_answers_here [OF assms(4,3)] by (meson generated_ok_def)
  let ?cs = "sort_by_prob (map (\<lambda>a. a\<lparr>attr_prob := p a\<rparr>) as)"
  have "candidates_ok vs oi i ?cs"
    using as(2,3) sort_by_prob_sorted by (auto simp: candidates_ok_def root_aligned_def)
  moreover from this have "?cs \<noteq> []" by (auto simp: candidates_ok_def)
  ultimately show ?thesis
    using assms(3) as(1) p synth_ready_frame [OF assms(1,3)] assms(2)
    by (simp add: base_candidates_def)
qed

lemma InitializeBaseConstraints_result:
  assumes "synth_ready vs oi" "model_answers model vs"
  shows "\<exists>cands. InitializeBaseConstraints model oi vs = Some cands \<and> length cands = length vs - 1 \<and>
    (\<forall>k < length vs - 1. candidates_ok vs oi (Suc k) (cands ! k))"
proof -
  have "2 \<le> length vs" using assms(1) by (simp add: synth_ready_def)
  then have n: "0 < length vs" by linarith
  define g where "g i = hd (the (base_candidates model oi vs i))" for i
  have g: "base_candidates model oi vs i = Some [g i] \<and> candidates_ok vs oi i (g i)"
    if "i \<in> set [Suc 0..<length vs]" for i
    using base_candidates_result [OF assms(1) _ _ assms(2), of i] that by (auto simp: g_def)
  have "base_candidates model oi vs 0 = Some []"
    using synth_ready_frame [OF assms(1) n] n by (simp add: base_candidates_def)
  moreover have "gen_each (base_candidates model oi vs) [Suc 0..<length vs] = Some (map g [Suc 0..<length vs])"
    using g by (intro gen_each_singletons) simp
  ultimately have "InitializeBaseConstraints model oi vs = Some (map g [Suc 0..<length vs])"
    using n by (simp add: InitializeBaseConstraints_def upt_conv_Cons)
  with g show ?thesis by auto
qed

section \<open>Walking the candidates\<close>

abbreviation all_positions :: "'a list list \<Rightarrow> (nat \<times> nat) set" where
  "all_positions cands \<equiv> {(k, p). k < length cands \<and> p < length (cands ! k)}"

abbreviation cache_loop :: "attribute list list \<Rightarrow> ('s \<Rightarrow> attribute \<Rightarrow> ('s \<times> bool) option) \<Rightarrow> msi \<Rightarrow> 's \<Rightarrow> 's option" where
  "cache_loop cands body it s \<equiv>
     cursor_loop (msi_at_end cands) (msi_get cands) (msi_next attr_prob cands) (msi_SetCurrentToEnd cands) body it s"

lemma cache_loop_rule:
  assumes "cands \<noteq> []" "I (all_positions cands) s"
    and "\<And>P s k p. I P s \<Longrightarrow> (k, p) \<in> P \<Longrightarrow> k < length cands \<Longrightarrow> p < length (cands ! k) \<Longrightarrow>
      \<exists>s' sk. body s (cands ! k ! p) = Some (s', sk) \<and> I (if sk then P - {k} \<times> UNIV else P - {(k, p)}) s'"
  shows "\<exists>it t. cache_begin cands = Some it \<and> cache_loop cands body it s = Some t \<and> I {} t"
proof -
  obtain it where it: "cache_begin cands = Some it" "msi_ok attr_prob cands it"
    "tops_pending cands (msi_top it) = all_positions cands"
    using msi_begin_ok [OF assms(1)] by (auto simp: cache_begin_def)
  have "\<exists>t. cache_loop cands body it s = Some t \<and> I {} t"
    by (rule msi.loop_rule [OF it(2)]) (use it(3) assms(2,3) in simp_all)
  with it(1) show ?thesis by blast
qed

text \<open>\<^verbatim>\<open>InitializePrune\<close> stays within the matrix of allowed targets.\<close>

definition square :: "nat \<Rightarrow> 'a list list \<Rightarrow> bool" where
  "square n m \<longleftrightarrow> length m = n \<and> (\<forall>row \<in> set m. length row = n)"

lemma square_at:
  assumes "square n al" "i < n" "j < n"
  shows "\<exists>b. allowed_at al (int i) (int j) = Some b"
    and "\<exists>al'. allow al (int i) (int j) = Some al' \<and> square n al'"
proof -
  have len: "length al = n" "length (al ! i) = n" using assms by (auto simp: square_def)
  then show "\<exists>b. allowed_at al (int i) (int j) = Some b" using assms by (simp add: allowed_at_def)
  show "\<exists>al'. allow al (int i) (int j) = Some al' \<and> square n al'"
    using len assms by (auto simp: allow_def vec_set_def square_def dest!: set_update_subset_insert [THEN subsetD])
qed

lemma prune_step_result:
  assumes "square (length vs) al" "\<forall>i < length vs. view_pos (vs ! i) = int i"
    and "attribute_ok (length vs) i oi a" "i < length vs"
  shows "\<exists>al'. prune_step vs al a = Some (al', False) \<and> square (length vs) al'"
proof -
  have src: "attr_src a = i" using assms(3) by (simp add: attribute_ok_def)
  note at = square_at [OF assms(1)]
  from assms(3) show ?thesis
  proof (cases rule: ok_targets)
    case relational
    obtain b where "allowed_at al (int (tgt_primary a)) (int i) = Some b"
      using at(1) [OF relational(3) assms(4)] by blast
    moreover obtain al' where "allow al (int i) (int (tgt_primary a)) = Some al'" "square (length vs) al'"
      using at(2) [OF assms(4) relational(3)] by blast
    ultimately show ?thesis using assms relational src by (cases b) (simp_all add: prune_step_def)
  next
    case (center j)
    obtain b c where "allowed_at al (int (tgt_primary a)) (int i) = Some b" "allowed_at al (int j) (int i) = Some c"
      using at(1) [OF center(3) assms(4)] at(1) [OF center(4) assms(4)] by blast
    moreover obtain al1 where al1: "allow al (int i) (int (tgt_primary a)) = Some al1" "square (length vs) al1"
      using at(2) [OF assms(4) center(3)] by blast
    moreover obtain al2 where "allow al1 (int i) (int j) = Some al2" "square (length vs) al2"
      using square_at(2) [OF al1(2) assms(4) center(4)] by blast
    ultimately show ?thesis using assms center src by (cases b; cases c) (simp_all add: prune_step_def)
  qed
qed

lemma generated_src: "generated_ok vs oi i a \<Longrightarrow> attribute_ok (length vs) i oi a"
  by (simp add: generated_ok_def)

lemma frame_row_step:
  assumes "square n al" "i < n" "0 < i" "j < n" "allow al (int i) (int j) = Some al'"
  shows "al' ! 0 = al ! 0" "al' ! i ! j" "al ! r ! c \<Longrightarrow> r < n \<Longrightarrow> al' ! r ! c"
  using assms by (auto simp: allow_def vec_set_def square_def bind_Some_iff nth_list_update split: if_splits)

text \<open>
  The invariant of the loop: the row of the content frame stays empty, so a view can refer to the
  content frame as soon as one of its candidates that does so was visited.
\<close>

definition prune_inv :: "nat \<Rightarrow> attribute list list \<Rightarrow> (nat \<times> nat) set \<Rightarrow> bool list list \<Rightarrow> bool" where
  "prune_inv n cands P al \<longleftrightarrow> square n al \<and> (\<forall>c < n. \<not> al ! 0 ! c) \<and>
     (\<forall>k < length cands. \<forall>p < length (cands ! k). (k, p) \<notin> P \<and> IsRelationalAnchor (attr_type (cands ! k ! p)) \<and>
        tgt_primary (cands ! k ! p) = 0 \<longrightarrow> al ! Suc k ! 0)"

lemma prune_step_inv:
  assumes "square (length vs) al" "\<forall>c < length vs. \<not> al ! 0 ! c" "\<forall>i < length vs. view_pos (vs ! i) = int i"
    and "attribute_ok (length vs) i oi a" "i < length vs" "0 < i" "prune_step vs al a = Some (al', b)"
  shows "\<forall>c < length vs. \<not> al' ! 0 ! c" "al ! r ! c \<Longrightarrow> r < length vs \<Longrightarrow> al' ! r ! c"
    "IsRelationalAnchor (attr_type a) \<Longrightarrow> tgt_primary a = 0 \<Longrightarrow> al' ! i ! 0"
proof -
  have src: "attr_src a = i" using assms(4) by (simp add: attribute_ok_def)
  note step = frame_row_step [OF assms(1,5,6)]
  from assms(4) have "(\<forall>c < length vs. \<not> al' ! 0 ! c) \<and> (al ! r ! c \<longrightarrow> r < length vs \<longrightarrow> al' ! r ! c) \<and>
      (IsRelationalAnchor (attr_type a) \<longrightarrow> tgt_primary a = 0 \<longrightarrow> al' ! i ! 0)"
  proof (cases rule: ok_targets)
    case relational
    obtain bk where bk: "allowed_at al (int (tgt_primary a)) (int i) = Some bk"
      using square_at(1) [OF assms(1) relational(3) assms(5)] by blast
    have al': "if bk then al' = al else allow al (int i) (int (tgt_primary a)) = Some al'"
      using relational assms(3,5,7) src bk
      by (auto simp: prune_step_def bind_Some_iff vec_at_Some split: if_splits)
    have "\<not> bk" if "tgt_primary a = 0"
      using bk that assms(2,5) by (auto simp: allowed_at_def vec_at_int_def vec_at_def bind_Some_iff split: if_splits)
    then show ?thesis
      using al' step [OF relational(3)] assms(2) by (cases bk) auto
  next
    case (center j)
    have sq: "square (length vs) al1" if "allow al (int i) (int (tgt_primary a)) = Some al1" for al1
      using square_at(2) [OF assms(1,5) center(3)] that by auto
    have "al' = al \<or> (\<exists>al1. allow al (int i) (int (tgt_primary a)) = Some al1 \<and> allow al1 (int i) (int j) = Some al')"
      using center assms(3,5,7) src
      by (auto simp: prune_step_def bind_Some_iff vec_at_Some split: if_splits)
    then show ?thesis
      using step [OF center(3)] frame_row_step [OF sq assms(5,6) center(4)] assms(2) center(1) by auto
  qed
  then show "\<forall>c < length vs. \<not> al' ! 0 ! c" "al ! r ! c \<Longrightarrow> r < length vs \<Longrightarrow> al' ! r ! c"
    "IsRelationalAnchor (attr_type a) \<Longrightarrow> tgt_primary a = 0 \<Longrightarrow> al' ! i ! 0" by blast+
qed

lemma InitializePrune_result:
  assumes "synth_ready vs oi" "length cands = length vs - 1"
    and "\<forall>k < length vs - 1. candidates_ok vs oi (Suc k) (cands ! k)"
  shows "\<exists>al. InitializePrune vs cands (replicate (length vs) (replicate (length vs) False)) = Some al \<and>
    prune_inv (length vs) cands {} al"
proof -
  have n: "2 \<le> length vs" and pos: "\<forall>i < length vs. view_pos (vs ! i) = int i"
    using assms(1) by (auto simp: synth_ready_def)
  then have z: "0 < length vs" by linarith
  have "\<exists>it t. cache_begin cands = Some it \<and>
      cache_loop cands (prune_step vs) it (replicate (length vs) (replicate (length vs) False)) = Some t \<and>
      prune_inv (length vs) cands {} t"
  proof (rule cache_loop_rule [where I = "prune_inv (length vs) cands"])
    show "cands \<noteq> []" using n assms(2) by auto
    show "prune_inv (length vs) cands (all_positions cands) (replicate (length vs) (replicate (length vs) False))"
      using z by (auto simp: square_def prune_inv_def)
  next
    fix P and al :: "bool list list" and k p
    assume inv: "prune_inv (length vs) cands P al" and k: "k < length cands" "p < length (cands ! k)"
    then have ok: "attribute_ok (length vs) (Suc k) oi (cands ! k ! p)" "Suc k < length vs"
      using assms(2,3) by (auto simp: candidates_ok_def intro!: generated_src)
    have al: "square (length vs) al" "\<forall>c < length vs. \<not> al ! 0 ! c" using inv by (simp_all add: prune_inv_def)
    obtain al' where al': "prune_step vs al (cands ! k ! p) = Some (al', False)" "square (length vs) al'"
      using prune_step_result [OF al(1) pos ok] by blast
    note st = prune_step_inv [OF al pos ok zero_less_Suc al'(1)]
    have "al' ! Suc q ! 0" if "q < length cands" "r < length (cands ! q)" "(q, r) \<notin> P - {(k, p)}"
        "IsRelationalAnchor (attr_type (cands ! q ! r))" "tgt_primary (cands ! q ! r) = 0" for q r
    proof (cases "(q, r) = (k, p)")
      case True
      with that st(3) show ?thesis by simp
    next
      case False
      with that inv have "al ! Suc q ! 0" by (auto simp: prune_inv_def)
      with st(2) [of "Suc q" 0] that(1) assms(2) show ?thesis by simp
    qed
    then have "prune_inv (length vs) cands (P - {(k, p)}) al'"
      using al'(2) st(1) by (auto simp: prune_inv_def)
    with al'(1) show "\<exists>s' sk. prune_step vs al (cands ! k ! p) = Some (s', sk) \<and>
        prune_inv (length vs) cands (if sk then P - {k} \<times> UNIV else P - {(k, p)}) s'" by auto
  qed
  then show ?thesis by (auto simp: InitializePrune_def)
qed

lemma ConstraintCache_result:
  assumes "synth_ready vs oi" "model_answers model vs"
  shows "\<exists>c. ConstraintCache_apps model vs [] oi = Some c \<and> ConstraintCache model vs oi = Some c \<and>
    length (candidate_attrs c) = length vs - 1 \<and>
    (\<forall>k < length vs - 1. candidates_ok vs oi (Suc k) (candidate_attrs c ! k)) \<and>
    prune_inv (length vs) (candidate_attrs c) {} (allowed_targets c)"
proof -
  obtain cands where c: "InitializeBaseConstraints model oi vs = Some cands" "length cands = length vs - 1"
    "\<forall>k < length vs - 1. candidates_ok vs oi (Suc k) (cands ! k)"
    using InitializeBaseConstraints_result [OF assms] by blast
  then obtain al where "InitializePrune vs cands (replicate (length vs) (replicate (length vs) False)) = Some al"
    "prune_inv (length vs) cands {} al"
    using InitializePrune_result [OF assms(1)] by blast
  with c show ?thesis by (simp add: ConstraintCache_apps_def ConstraintCache_def)
qed

section \<open>Synthesis keeps the constraints acyclic and leaves no view without one\<close>

definition same_except :: "orientation \<Rightarrow> view list \<Rightarrow> view list \<Rightarrow> bool" where
  "same_except oi vs ws \<longleftrightarrow> length ws = length vs \<and>
     (\<forall>i < length vs. ws ! i =
        (vs ! i)\<lparr>view_attributes := (view_attributes (vs ! i))(oi := view_attributes (ws ! i) oi)\<rparr>)"

lemma same_except_refl: "same_except oi vs vs"
  by (simp add: same_except_def)

lemma same_except_length: "same_except oi vs ws \<Longrightarrow> length ws = length vs"
  unfolding same_except_def by blast

lemma same_except_apply:
  assumes "same_except oi vs ws" "ApplyAttribute ws i oi a = Some us"
  shows "same_except oi vs us"
proof -
  have us: "i < length ws" "us = ws[i := (ws ! i)\<lparr>view_attributes := (view_attributes (ws ! i))(oi \<mapsto> a)\<rparr>]"
    using assms(2) by (auto simp: ApplyAttribute_Some)
  have len: "length ws = length vs" using assms(1) by (rule same_except_length)
  have "us ! k = (vs ! k)\<lparr>view_attributes := (view_attributes (vs ! k))(oi := view_attributes (us ! k) oi)\<rparr>"
    if k: "k < length vs" for k
  proof -
    obtain X where w: "ws ! k = (vs ! k)\<lparr>view_attributes := (view_attributes (vs ! k))(oi := X)\<rparr>"
      using assms(1) k unfolding same_except_def by blast
    show ?thesis using us len k w by (cases "k = i") simp_all
  qed
  with us(2) len show ?thesis by (simp add: same_except_def)
qed

lemma same_except_simps:
  assumes "same_except oi vs ws" "i < length vs"
  shows "view_id (ws ! i) = view_id (vs ! i)" "view_pos (ws ! i) = view_pos (vs ! i)"
    "view_interval ws oj i = view_interval vs oj i" "is_content_frame (ws ! i) = is_content_frame (vs ! i)"
    "oj \<noteq> oi \<Longrightarrow> view_attributes (ws ! i) oj = view_attributes (vs ! i) oj"
proof -
  obtain X where w: "ws ! i = (vs ! i)\<lparr>view_attributes := (view_attributes (vs ! i))(oi := X)\<rparr>"
    using assms unfolding same_except_def by blast
  show "view_id (ws ! i) = view_id (vs ! i)" "view_pos (ws ! i) = view_pos (vs ! i)"
    "view_interval ws oj i = view_interval vs oj i" "is_content_frame (ws ! i) = is_content_frame (vs ! i)"
    "oj \<noteq> oi \<Longrightarrow> view_attributes (ws ! i) oj = view_attributes (vs ! i) oj"
    unfolding w view_interval_def is_content_frame_def by simp_all
qed

lemma same_except_ids: "same_except oi vs ws \<Longrightarrow> map view_id ws = map view_id vs"
  by (rule nth_equalityI) (simp_all add: same_except_simps same_except_length)

text \<open>
  One step: the constraint is not applied, or it is applied and was not circular. A constraint that
  is not circular is always applied to a view without one.
\<close>

lemma synthesize_step_cases:
  assumes "refs_wf vs oi" "acyclic (edges_of vs oi)" "attribute_ok (length vs) i oi a" "i < length vs"
  obtains (keep) "synthesize_step oi vs a = Some (vs, False)"
      "IsCircularRelation vs oi i a = Some True \<or> view_attributes (vs ! i) oi \<noteq> None"
    | (change) ws b where "IsCircularRelation vs oi i a = Some False" "ApplyAttribute vs i oi a = Some ws"
      "synthesize_step oi vs a = Some (ws, b)"
proof -
  have src: "attr_src a = i" using assms(3) by (simp add: attribute_ok_def)
  obtain circ where c: "IsCircularRelation vs oi i a = Some circ"
    using IsCircularRelation_result [OF assms(1,4,3)] by blast
  obtain ws where ws: "ApplyAttribute vs i oi a = Some ws" using assms(4) src by (simp add: ApplyAttribute_Some)
  obtain w where w: "IsAnchoredWithAttr vs oi a = Some w"
    using IsAnchoredWithAttr_result [OF assms(1-3)] by blast
  obtain n where n: "IsAnchored vs oi i = Some n" using IsAnchored_result [OF assms(1,2,4)] by blast
  have keep': thesis if "ShouldApplyConstraint vs i oi a = Some False"
      "circ \<or> view_attributes (vs ! i) oi \<noteq> None"
    using that c src by (intro keep) (auto simp: synthesize_step_def)
  have change': thesis if "ShouldApplyConstraint vs i oi a = Some True" and nc: "\<not> circ"
  proof -
    have acyc: "acyclic (edges_of ws oi)" "refs_wf ws oi" "i < length ws"
      using ApplyAttribute_acyclic(1) [OF assms(1-3) _ ws] ApplyAttribute_refs_wf [OF ws assms(3,1)] c nc
        ApplyAttribute_views(1) [OF ws] assms(4) by simp_all
    obtain b where "IsAnchored ws oi i = Some b" using IsAnchored_result [OF acyc(2,1,3)] by blast
    then show thesis using that c ws src by (intro change) (simp_all add: synthesize_step_def)
  qed
  show thesis
  proof (cases "circ \<or> view_attributes (vs ! i) oi = None")
    case True
    then show thesis
      using keep' change' c assms(4) by (cases circ) (auto simp: ShouldApplyConstraint_def HasAttribute_def)
  next
    case False
    then obtain x where x: "view_attributes (vs ! i) oi = Some x" by blast
    then have "\<exists>r. ShouldApplyConstraint vs i oi a = Some r"
      using False c w n assms(4)
      by (simp add: ShouldApplyConstraint_def HasAttribute_def GetAttributeProb_def GetAttribute_def)
    then obtain r where "ShouldApplyConstraint vs i oi a = Some r" by blast
    with False keep' change' show thesis by (cases r) auto
  qed
qed

definition synth_inv ::
    "view list \<Rightarrow> orientation \<Rightarrow> attribute list list \<Rightarrow> (nat \<times> nat) set \<Rightarrow> view list \<Rightarrow> bool" where
  "synth_inv vs oi cands P ws \<longleftrightarrow>
     same_except oi vs ws \<and> refs_wf ws oi \<and> acyclic (edges_of ws oi) \<and>
     view_attributes (ws ! 0) oi = None \<and>
     (\<forall>k < length vs - 1. \<forall>a. view_attributes (ws ! Suc k) oi = Some a \<longrightarrow> a \<in> set (cands ! k)) \<and>
     (\<forall>k < length vs - 1. view_attributes (ws ! Suc k) oi = None \<longrightarrow>
        (\<exists>p < length (cands ! k). (k, p) \<in> P \<and> root_aligned oi (cands ! k ! p)))"

lemma root_aligned_targets: "root_aligned oi a \<Longrightarrow> attr_targets a = [0]"
  by (simp add: root_aligned_def attr_targets_def)

lemma not_reached_from_sink:
  "(j, i) \<in> R\<^sup>* \<Longrightarrow> \<forall>k. (j, k) \<notin> R \<Longrightarrow> i = j"
  by (metis converse_rtranclE)

lemma synth_inv_step:
  assumes inv: "synth_inv vs oi cands P ws" and k: "k < length vs - 1" "p < length (cands ! k)"
    and ok: "candidates_ok vs oi (Suc k) (cands ! k)"
  shows "\<exists>us sk. synthesize_step oi ws (cands ! k ! p) = Some (us, sk) \<and>
    synth_inv vs oi cands (if sk then P - {k} \<times> UNIV else P - {(k, p)}) us"
proof -
  let ?a = "cands ! k ! p" and ?i = "Suc k"
  have same: "same_except oi vs ws" and wf: "refs_wf ws oi" and acyc: "acyclic (edges_of ws oi)"
    and root: "view_attributes (ws ! 0) oi = None"
    and mem: "\<forall>m < length vs - 1. \<forall>a. view_attributes (ws ! Suc m) oi = Some a \<longrightarrow> a \<in> set (cands ! m)"
    and pend: "\<forall>m < length vs - 1. view_attributes (ws ! Suc m) oi = None \<longrightarrow>
        (\<exists>q < length (cands ! m). (m, q) \<in> P \<and> root_aligned oi (cands ! m ! q))"
    using inv unfolding synth_inv_def by blast+
  have len: "length ws = length vs" using same by (rule same_except_length)
  have a: "?a \<in> set (cands ! k)" "attribute_ok (length ws) ?i oi ?a"
    using k ok len by (auto simp: candidates_ok_def intro: generated_src)
  have i: "?i < length ws" using k len by linarith
  show ?thesis
    using wf acyc a(2) i
  proof (cases rule: synthesize_step_cases)
    case keep
    have nr: "\<not> root_aligned oi ?a" if "view_attributes (ws ! ?i) oi = None"
    proof
      assume r: "root_aligned oi ?a"
      from keep(2) that have "(0, ?i) \<in> (edges_of ws oi)\<^sup>*"
        using IsCircularRelation_result [OF wf i a(2)] root_aligned_targets [OF r] by simp
      moreover have "\<forall>m. (0, m) \<notin> edges_of ws oi" using root by (simp add: graph_edges_def view_succ_def)
      ultimately have "?i = 0" by (rule not_reached_from_sink)
      then show False by simp
    qed
    have "\<exists>q < length (cands ! m). (m, q) \<in> P - {(k, p)} \<and> root_aligned oi (cands ! m ! q)"
      if m: "m < length vs - 1" "view_attributes (ws ! Suc m) oi = None" for m
    proof -
      obtain q where q: "q < length (cands ! m)" "(m, q) \<in> P" "root_aligned oi (cands ! m ! q)"
        using pend m by blast
      then have "(m, q) \<noteq> (k, p)" using nr m(2) by blast
      with q show ?thesis by blast
    qed
    then have "synth_inv vs oi cands (P - {(k, p)}) ws"
      using same wf acyc root mem by (simp add: synth_inv_def)
    with keep(1) show ?thesis by auto
  next
    case (change us b)
    note U = ApplyAttribute_views [OF change(2)]
    have att: "view_attributes (us ! m) oi = (if m = ?i then Some ?a else view_attributes (ws ! m) oi)"
      if "m < length vs" for m using U(3) [of m oi] len that by simp
    have "same_except oi vs us" by (rule same_except_apply [OF same change(2)])
    moreover have "refs_wf us oi" by (rule ApplyAttribute_refs_wf [OF change(2) a(2) wf])
    moreover have "acyclic (edges_of us oi)" by (rule ApplyAttribute_acyclic(1) [OF wf acyc a(2) change(1,2)])
    moreover have "view_attributes (us ! 0) oi = None" using att [of 0] root i len by (cases vs) simp_all
    moreover have "\<forall>m < length vs - 1. \<forall>x. view_attributes (us ! Suc m) oi = Some x \<longrightarrow> x \<in> set (cands ! m)"
      using att mem a(1) by auto
    moreover have "\<exists>q < length (cands ! m). (m, q) \<in> (if b then P - {k} \<times> UNIV else P - {(k, p)}) \<and>
        root_aligned oi (cands ! m ! q)"
      if m: "m < length vs - 1" "view_attributes (us ! Suc m) oi = None" for m
    proof -
      have "m \<noteq> k" "view_attributes (ws ! Suc m) oi = None" using m att [of "Suc m"] by (auto split: if_splits)
      with pend m show ?thesis by auto
    qed
    ultimately have "synth_inv vs oi cands (if b then P - {k} \<times> UNIV else P - {(k, p)}) us"
      unfolding synth_inv_def by blast
    with change(3) show ?thesis by blast
  qed
qed

lemma Synthesize_result:
  assumes ready: "synth_ready vs oi" and total: "model_answers model vs"
  shows "\<exists>ws. Synthesize model vs [] oi = Some ws \<and> same_except oi vs ws \<and> refs_wf ws oi \<and>
    acyclic (edges_of ws oi) \<and>
    (\<forall>i < length vs. view_attributes (ws ! i) oi = None \<longleftrightarrow> i = 0) \<and>
    (\<forall>i < length vs. \<forall>a. view_attributes (ws ! i) oi = Some a \<longrightarrow> generated_ok vs oi i a \<and>
       (IsRelationalAnchor (attr_type a) \<longrightarrow> attr_view_size a = FIXED))"
proof -
  have n: "2 \<le> length vs" using ready by (simp add: synth_ready_def)
  obtain c where c: "ConstraintCache_apps model vs [] oi = Some c" "length (candidate_attrs c) = length vs - 1"
    and ok: "\<forall>k < length vs - 1. candidates_ok vs oi (Suc k) (candidate_attrs c ! k)"
    using ConstraintCache_result [OF assms] by blast
  let ?cands = "candidate_attrs c"
  have start: "synth_inv vs oi ?cands (all_positions ?cands) vs"
  proof -
    have none: "view_attributes (vs ! i) oi = None" if "i < length vs" for i
      using ready that by (simp add: synth_ready_def)
    have "edges_of vs oi = {}" using none by (auto simp: graph_edges_def view_succ_def split: if_splits)
    then have "acyclic (edges_of vs oi)" by (simp add: acyclic_def)
    moreover have "refs_wf vs oi" using ready none by (simp add: refs_wf_def synth_ready_def)
    moreover have "\<exists>q < length (?cands ! m). (m, q) \<in> all_positions ?cands \<and> root_aligned oi (?cands ! m ! q)"
      if m: "m < length vs - 1" for m
    proof -
      obtain a where "a \<in> set (?cands ! m)" "root_aligned oi a" using ok m by (auto simp: candidates_ok_def)
      with m c(2) show ?thesis by (auto simp: in_set_conv_nth)
    qed
    moreover have "view_attributes (vs ! 0) oi = None" by (rule none) (use n in linarith)
    ultimately show ?thesis using none same_except_refl by (auto simp: synth_inv_def)
  qed
  have "\<exists>it ws. cache_begin ?cands = Some it \<and>
      cache_loop ?cands (synthesize_step oi) it vs = Some ws \<and> synth_inv vs oi ?cands {} ws"
  proof (rule cache_loop_rule [where I = "synth_inv vs oi ?cands"])
    show "?cands \<noteq> []" using n c(2) by auto
    show "synth_inv vs oi ?cands (all_positions ?cands) vs" by (rule start)
  next
    fix P ws k p
    assume "synth_inv vs oi ?cands P ws" and k: "k < length ?cands" and p: "p < length (?cands ! k)"
    with c(2) ok show "\<exists>us sk. synthesize_step oi ws (?cands ! k ! p) = Some (us, sk) \<and>
        synth_inv vs oi ?cands (if sk then P - {k} \<times> UNIV else P - {(k, p)}) us"
      by (intro synth_inv_step) simp_all
  qed
  then obtain it ws where it: "cache_begin ?cands = Some it"
      "cache_loop ?cands (synthesize_step oi) it vs = Some ws" and inv: "synth_inv vs oi ?cands {} ws"
    by blast
  have "Synthesize model vs [] oi = Some ws" using c(1) it by (simp add: Synthesize_def Let_def)
  moreover have "view_attributes (ws ! i) oi = None \<longleftrightarrow> i = 0" if "i < length vs" for i
  proof (cases i)
    case (Suc k)
    with that inv have "view_attributes (ws ! Suc k) oi \<noteq> None" unfolding synth_inv_def by auto
    with Suc show ?thesis by simp
  qed (use inv in \<open>simp add: synth_inv_def\<close>)
  moreover have "generated_ok vs oi i a \<and> (IsRelationalAnchor (attr_type a) \<longrightarrow> attr_view_size a = FIXED)"
    if "i < length vs" "view_attributes (ws ! i) oi = Some a" for i a
  proof (cases i)
    case (Suc k)
    with that inv have "a \<in> set (?cands ! k)" "k < length vs - 1" by (auto simp: synth_inv_def)
    with ok Suc show ?thesis by (auto simp: candidates_ok_def)
  qed (use that inv in \<open>simp add: synth_inv_def\<close>)
  ultimately show ?thesis using inv unfolding synth_inv_def by blast
qed

section \<open>The layout of an app\<close>

definition blank_app :: "app \<Rightarrow> bool" where
  "blank_app a \<longleftrightarrow> synth_ready (app_views a) HORIZONTAL \<and> synth_ready (app_views a) VERTICAL"

lemma synth_ready_same:
  assumes "same_except oi vs ws" "synth_ready vs oj" "oj \<noteq> oi"
  shows "synth_ready ws oj"
proof -
  have len: "length ws = length vs" using assms(1) by (rule same_except_length)
  have "2 \<le> length vs" using assms(2) by (simp add: synth_ready_def)
  then have z: "0 < length vs" by linarith
  show ?thesis
    using assms(2,3) len z same_except_simps [OF assms(1)] same_except_ids [OF assms(1)]
    by (simp add: synth_ready_def)
qed

lemma same_except_graph:
  assumes "same_except oi vs ws" "oj \<noteq> oi"
  shows "view_succ ws oj = view_succ vs oj" "view_root ws = view_root vs"
proof -
  have len: "length ws = length vs" using assms(1) by (rule same_except_length)
  show "view_succ ws oj = view_succ vs oj"
    by (rule ext) (simp add: view_succ_def len same_except_simps [OF assms(1)] assms(2) cong: option.case_cong)
  show "view_root ws = view_root vs"
    by (rule ext) (auto simp: view_root_def len same_except_simps [OF assms(1)])
qed

text \<open>What synthesis leaves in one orientation.\<close>

definition synthesized :: "view list \<Rightarrow> view list \<Rightarrow> orientation \<Rightarrow> bool" where
  "synthesized vs ws oi \<longleftrightarrow>
     refs_wf ws oi \<and> acyclic (edges_of ws oi) \<and>
     (\<forall>i < length vs. view_attributes (ws ! i) oi = None \<longleftrightarrow> i = 0) \<and>
     (\<forall>i < length vs. \<forall>a. view_attributes (ws ! i) oi = Some a \<longrightarrow> generated_ok vs oi i a \<and>
       (IsRelationalAnchor (attr_type a) \<longrightarrow> attr_view_size a = FIXED))"

lemma synthesized_same:
  assumes "same_except oi ws us" "oj \<noteq> oi" "synthesized vs ws oj" "length ws = length vs"
  shows "synthesized vs us oj"
  using assms(3,4) same_except_graph [OF assms(1,2)] same_except_length [OF assms(1)]
    same_except_ids [OF assms(1)] same_except_simps(5) [OF assms(1) _ assms(2)]
  by (simp add: synthesized_def refs_wf_def)

lemma attribute_holds_cong:
  assumes "attribute_ok n i oi a" "P i = Q i" "\<forall>j < n. P j = Q j"
  shows "attribute_holds P a = attribute_holds Q a"
proof -
  have src: "attr_src a = i" using assms(1) by (simp add: attribute_ok_def)
  from assms(1) show ?thesis
  proof (cases rule: ok_targets)
    case relational
    then have "split_center (attr_type a) = None" by (cases "attr_type a") simp_all
    with relational src assms(2,3) show ?thesis by (simp add: attribute_holds_def anchor_pos_def Let_def)
  next
    case (center j)
    then show ?thesis
      using src assms(2,3) by (simp add: attribute_holds_def anchor_pos_def Let_def split: option.split)
  qed
qed

lemma generated_ok_same:
  assumes "same_except oi vs ws" "i < length vs"
  shows "generated_ok ws oj i a \<longleftrightarrow> generated_ok vs oj i a"
proof -
  have len: "length ws = length vs" using assms(1) by (rule same_except_length)
  have "attribute_holds (view_interval ws oj) a = attribute_holds (view_interval vs oj) a"
    if "attribute_ok (length vs) i oj a"
    using that by (rule attribute_holds_cong) (simp_all add: same_except_simps [OF assms(1)] assms(2))
  then show ?thesis by (auto simp: generated_ok_def len)
qed

lemma SynthesizeLayout_steps:
  assumes "blank_app a" "model_answers model (app_views a)"
  shows "\<exists>us ws. SynthesizeLayout model a = Some (a\<lparr>app_views := ws\<rparr>) \<and>
    same_except HORIZONTAL (app_views a) us \<and> same_except VERTICAL us ws \<and>
    (\<forall>oi. synthesized (app_views a) ws oi)"
proof -
  let ?vs = "app_views a"
  have h: "synth_ready ?vs HORIZONTAL" and v: "synth_ready ?vs VERTICAL"
    using assms(1) by (simp_all add: blank_app_def)
  have n: "length ?vs \<noteq> 1" using h by (auto simp: synth_ready_def)
  obtain us where us: "Synthesize model ?vs [] HORIZONTAL = Some us" "same_except HORIZONTAL ?vs us"
      "synthesized ?vs us HORIZONTAL"
    using Synthesize_result [OF h assms(2)] unfolding synthesized_def by blast
  note len = same_except_length [OF us(2)]
  have "synth_ready us VERTICAL" by (rule synth_ready_same [OF us(2) v]) simp
  moreover have "model_answers model us"
    by (rule model_answers_same [OF _ assms(2)]) (simp add: same_geometry_def len same_except_simps [OF us(2)])
  ultimately obtain ws where ws: "Synthesize model us [] VERTICAL = Some ws" "same_except VERTICAL us ws"
      "synthesized us ws VERTICAL"
    using Synthesize_result [of us VERTICAL model] unfolding synthesized_def by blast
  have "synthesized ?vs ws VERTICAL"
    using ws(3) generated_ok_same [OF us(2)] by (simp add: synthesized_def len)
  moreover have "synthesized ?vs ws HORIZONTAL"
    by (rule synthesized_same [OF ws(2) _ us(3) len]) simp
  ultimately have "\<forall>oi. synthesized ?vs ws oi" by (metis orientation.exhaust)
  moreover have "SynthesizeLayout model a = Some (a\<lparr>app_views := ws\<rparr>)"
    using n us(1) ws(1) by (simp add: SynthesizeLayout_def SynthesizeLayout_apps_def)
  ultimately show ?thesis using us(2) ws(2) by blast
qed

lemma synthesized_anchored:
  assumes "synthesized vs ws oi" "length ws = length vs" "i < length vs" "is_content_frame (ws ! 0)"
  shows "anchored_in ws oi i"
proof (rule all_anchored_in)
  show "\<forall>k < length ws. is_content_frame (ws ! k) \<or> view_attributes (ws ! k) oi \<noteq> None"
    using assms by (auto simp: synthesized_def)
qed (use assms in \<open>simp_all add: synthesized_def\<close>)

text \<open>
  C16. On an app without constraints whose views do not start before the content frame, and with a
  probability model that answers for its constraints, the greedy synthesis returns: the app is well formed, its views
  are where they were, and in both orientations the constraints are acyclic, every view but the
  content frame has one and every view is anchored.
\<close>

theorem SynthesizeLayout_complete:
  assumes "blank_app a" "model_answers model (app_views a)"
  shows "\<exists>b. SynthesizeLayout model a = Some b \<and> app_wf b \<and>
    length (app_views b) = length (app_views a) \<and>
    (\<forall>i < length (app_views a). view_id (app_views b ! i) = view_id (app_views a ! i)) \<and>
    (\<forall>oi. acyclic (edges_of (app_views b) oi) \<and>
       (\<forall>i < length (app_views a).
          view_interval (app_views b) oi i = view_interval (app_views a) oi i \<and>
          HasAttribute (app_views b ! i) oi = (i \<noteq> 0) \<and>
          IsAnchored (app_views b) oi i = Some True))"
proof -
  let ?vs = "app_views a"
  obtain us ws where s: "SynthesizeLayout model a = Some (a\<lparr>app_views := ws\<rparr>)"
    and same: "same_except HORIZONTAL ?vs us" "same_except VERTICAL us ws"
    and syn: "\<forall>oi. synthesized ?vs ws oi"
    using SynthesizeLayout_steps [OF assms] by blast
  have len: "length us = length ?vs" "length ws = length ?vs"
    using same_except_length [OF same(1)] same_except_length [OF same(2)] by simp_all
  note simps = same_except_simps [OF same(1)] same_except_simps [OF same(2)]
  have ready: "synth_ready ?vs HORIZONTAL" using assms(1) by (simp add: blank_app_def)
  then have frame: "is_content_frame (ws ! 0)" if "0 < length ?vs"
    using that len simps(4,9) [of 0] by (simp add: synth_ready_def)
  have view: "view_id (ws ! i) = view_id (?vs ! i)" "view_pos (ws ! i) = int i"
      "view_interval ws oi i = view_interval ?vs oi i" if "i < length ?vs" for i oi
    using that len simps ready by (simp_all add: synth_ready_def)
  have "app_wf (a\<lparr>app_views := ws\<rparr>)"
    using syn view(2) len by (auto simp: app_wf_def synthesized_def refs_wf_def)
  moreover have "acyclic (edges_of ws oi)" "HasAttribute (ws ! i) oi = (i \<noteq> 0)"
      "IsAnchored ws oi i = Some True" if i: "i < length ?vs" for i oi
  proof -
    have sy: "synthesized ?vs ws oi" using syn by blast
    then show "acyclic (edges_of ws oi)" "HasAttribute (ws ! i) oi = (i \<noteq> 0)"
      using i by (simp_all add: synthesized_def HasAttribute_def)
    have "0 < length ?vs" using i by linarith
    with sy frame i len have "anchored_in ws oi i" by (intro synthesized_anchored) auto
    with sy i len show "IsAnchored ws oi i = Some True"
      using IsAnchored_result [of ws oi i] by (simp add: synthesized_def)
  qed
  moreover have "0 < length ?vs" using ready by (auto simp: synth_ready_def)
  ultimately show ?thesis using s view len by auto
qed

text \<open>
  C17. The synthesized constraints determine the layout: the positions of the input solve them, and
  no other assignment does.
\<close>

theorem SynthesizeLayout_determines:
  assumes "blank_app a" "model_answers model (app_views a)" "SynthesizeLayout model a = Some b"
  shows "solves (app_views b) oi (view_interval (app_views a) oi) \<and>
    (\<forall>P. solves (app_views b) oi P \<longrightarrow>
       (\<forall>i < length (app_views a). P i = view_interval (app_views a) oi i))"
proof -
  let ?vs = "app_views a" and ?ws = "app_views b"
  obtain us where same: "same_except HORIZONTAL ?vs us" "same_except VERTICAL us ?ws"
    and syn: "synthesized ?vs ?ws oi"
    using SynthesizeLayout_steps [OF assms(1,2)] assms(3) by auto
  have len: "length us = length ?vs" "length ?ws = length ?vs"
    using same_except_length [OF same(1)] same_except_length [OF same(2)] by simp_all
  note simps = same_except_simps [OF same(1)] same_except_simps [OF same(2)]
  have ready: "synth_ready ?vs HORIZONTAL" using assms(1) by (simp add: blank_app_def)
  have view: "view_interval ?ws oi i = view_interval ?vs oi i" if "i < length ?vs" for i
    using that len simps by simp
  have sol: "solves ?ws oi (view_interval ?vs oi)"
    using syn view len by (auto simp: solves_def synthesized_def generated_ok_def)
  have n: "0 < length ?vs" using ready by (auto simp: synth_ready_def)
  then have "is_content_frame (?ws ! 0)" using ready len simps(4,9) [of 0] by (simp add: synth_ready_def)
  then have "anchored_in ?ws oi i" if "i < length ?vs" for i
    using synthesized_anchored [OF syn len(2) that] by blast
  moreover have "refs_wf ?ws oi" using syn by (simp add: synthesized_def)
  ultimately have "P i = view_interval ?vs oi i" if "solves ?ws oi P" "i < length ?vs" for P i
    using solves_unique [OF _ that(1) sol] that(2) by blast
  with sol show ?thesis by blast
qed

text \<open>An app with two views and a model that prefers nothing.\<close>

definition sample_plain :: app where
  "sample_plain =
     \<lparr>seq_id_to_pos = [0, 1, 2], app_resizable = [False, False],
      app_views = [(View_make 0 0 100 200 ''root'' 0 None)\<lparr>view_pos := 0\<rparr>,
        (View_make 10 20 50 40 ''A'' 1 None)\<lparr>view_pos := 1\<rparr>,
        (View_make 60 20 90 60 ''B'' 2 None)\<lparr>view_pos := 2\<rparr>]\<rparr>"

lemma sample_plain_blank: "blank_app sample_plain"
  by (auto simp: blank_app_def synth_ready_def sample_plain_def View_make_def is_content_frame_def
      view_interval_def nth_Cons split: nat.splits)

lemma SynthesizeLayout_complete_witness:
  "\<exists>b. SynthesizeLayout (\<lambda>vs a. Some 0) sample_plain = Some b \<and> app_wf b \<and>
     acyclic (edges_of (app_views b) HORIZONTAL) \<and> IsAnchored (app_views b) HORIZONTAL 2 = Some True"
  using SynthesizeLayout_complete [OF sample_plain_blank, of "\<lambda>vs a. Some 0"]
  by (auto simp: model_answers_def sample_plain_def)

lemma SynthesizeLayout_determines_witness:
  "\<exists>b. SynthesizeLayout (\<lambda>vs a. Some 0) sample_plain = Some b \<and>
     solves (app_views b) VERTICAL (view_interval (app_views sample_plain) VERTICAL)"
proof -
  have t: "model_answers (\<lambda>vs a. Some 0) (app_views sample_plain)" by (simp add: model_answers_def)
  obtain b where b: "SynthesizeLayout (\<lambda>vs a. Some 0) sample_plain = Some b"
    using SynthesizeLayout_steps [OF sample_plain_blank t] by blast
  with SynthesizeLayout_determines [OF sample_plain_blank t b] show ?thesis by blast
qed

section \<open>Filtering by the screens of other devices\<close>

lemma match_steps:
  assumes "\<forall>x \<in> set as. test x = Some (t x)" "length ms = length as" "n \<le> length as"
  shows "fold_opt (match_step test as) ms [0..<n] =
    Some (map (\<lambda>i. ms ! i \<and> (i < n \<longrightarrow> t (as ! i))) [0..<length as])"
  using assms(3)
proof (induction n)
  case 0
  have "map (\<lambda>i. ms ! i) [0..<length as] = ms" using assms(2) map_nth by metis
  then show ?case by simp
next
  case (Suc n)
  let ?ms = "map (\<lambda>i. ms ! i \<and> (i < n \<longrightarrow> t (as ! i))) [0..<length as]"
  have "match_step test as ?ms n = Some (map (\<lambda>i. ms ! i \<and> (i < Suc n \<longrightarrow> t (as ! i))) [0..<length as])"
    using Suc assms(1)
    by (auto simp: match_step_def vec_set_def nth_list_update less_Suc_eq split: if_splits intro!: nth_equalityI)
  with Suc show ?case by (simp add: fold_opt_append)
qed

lemma filter_zip_map:
  "length ms = length as \<Longrightarrow>
     map fst (filter snd (zip as (map (\<lambda>i. ms ! i \<and> t (as ! i)) [0..<length as]))) =
     map fst (filter (\<lambda>(a, m). m \<and> t a) (zip as ms))"
proof (induction as arbitrary: ms)
  case (Cons a as)
  then obtain m ms' where ms: "ms = m # ms'" "length ms' = length as" by (cases ms) auto
  have "map (\<lambda>i. ms ! i \<and> t ((a # as) ! i)) [0..<length (a # as)] =
      (m \<and> t a) # map (\<lambda>i. ms' ! i \<and> t (as ! i)) [0..<length as]"
    by (simp only: ms(1) length_Cons map_upt_Suc) simp
  with Cons.IH [OF ms(2)] show ?case by (simp add: ms(1))
qed simp

text \<open>With one screen the survivors are the candidates that are candidates there.\<close>

lemma match_app_first:
  assumes "\<forall>x \<in> set as. test x = Some (t x)"
  shows "match_app test (as, replicate (length as) True) = Some (filter t as, map t as)"
proof -
  have "filter t as = map fst (filter (\<lambda>(a, m). m \<and> t a) (zip as (replicate (length as) True)))"
    by (induction as) simp_all
  moreover have eq: "map (\<lambda>i. replicate (length as) True ! i \<and> (i < length as \<longrightarrow> t (as ! i))) [0..<length as] =
      map (\<lambda>i. replicate (length as) True ! i \<and> t (as ! i)) [0..<length as]"
    by (intro map_cong) simp_all
  have "fold_opt (match_step test as) (replicate (length as) True) [0..<length as] =
      Some (map (\<lambda>i. replicate (length as) True ! i \<and> t (as ! i)) [0..<length as])"
    using match_steps [OF assms, of "replicate (length as) True" "length as"]
    by (simp only: eq length_replicate le_refl simp_thms)
  moreover have "map (\<lambda>i. replicate (length as) True ! i \<and> t (as ! i)) [0..<length as] = map t as"
    by (intro nth_equalityI) simp_all
  ultimately show ?thesis
    using filter_zip_map [of "replicate (length as) True" as t] by (simp add: match_app_def)
qed

text \<open>
  In the second round the verdict of the original candidate at the same index decides as well: the
  vector \<open>matches\<close> was not compacted with the candidates.
\<close>

lemma match_app_next:
  assumes "\<forall>x \<in> set as. test x = Some (t x)" "length as \<le> length ms"
  shows "map_option fst (match_app test (as, ms)) = Some (map ((!) as) (filter (\<lambda>k. ms ! k \<and> t (as ! k)) [0..<length as]))"
proof -
  let ?ms = "map (\<lambda>i. ms ! i \<and> (i < length as \<longrightarrow> t (as ! i))) [0..<length ms]"
  have steps: "fold_opt (match_step test as) ms [0..<n] = Some (map (\<lambda>i. ms ! i \<and> (i < n \<longrightarrow> t (as ! i))) [0..<length ms])"
    if "n \<le> length as" for n
    using that
  proof (induction n)
    case 0
    have "map (\<lambda>i. ms ! i) [0..<length ms] = ms" by (rule map_nth)
    then show ?case by simp
  next
    case (Suc n)
    let ?m = "map (\<lambda>i. ms ! i \<and> (i < n \<longrightarrow> t (as ! i))) [0..<length ms]"
    have "match_step test as ?m n = Some (map (\<lambda>i. ms ! i \<and> (i < Suc n \<longrightarrow> t (as ! i))) [0..<length ms])"
      using Suc assms
      by (auto simp: match_step_def vec_set_def nth_list_update less_Suc_eq split: if_splits intro!: nth_equalityI)
    with Suc show ?case by (simp add: fold_opt_append)
  qed
  have "zip as ?ms = map (\<lambda>k. (as ! k, ms ! k \<and> t (as ! k))) [0..<length as]"
    using assms(2) by (intro nth_equalityI) simp_all
  then have "map fst (filter snd (zip as ?ms)) = map ((!) as) (filter (\<lambda>k. ms ! k \<and> t (as ! k)) [0..<length as])"
    by (simp add: filter_map o_def)
  with steps [OF order.refl] show ?thesis by (simp add: match_app_def)
qed

definition candidate_on :: "app \<Rightarrow> attribute list \<Rightarrow> view list \<Rightarrow> attribute \<Rightarrow> bool" where
  "candidate_on other bs vs a \<longleftrightarrow> contains_attribute (app_views other) bs vs a = Some True"

text \<open>
  C40. Filtering the candidates of a view by two further screens: a candidate left by the first screen
  survives exactly when it is a candidate on the second screen and the original candidate at its index
  in the list of those left was one on the first screen. That is the verdict of another candidate as
  soon as one was dropped before it, because \<^verbatim>\<open>matches\<close> is not compacted with the candidates; so
  candidates of all three screens can be dropped.
\<close>

theorem match_two_screens:
  assumes "findView b (view_id v) = Some i" "GenAttributesForApp oi i (app_views b) = Some bs"
    and "findView c (view_id v) = Some j" "GenAttributesForApp oi j (app_views c) = Some cs"
    and "\<forall>x \<in> set as. contains_attribute (app_views b) bs vs x \<noteq> None \<and> contains_attribute (app_views c) cs vs x \<noteq> None"
  shows "map_option fst (fold_opt (match_other oi vs v) (as, replicate (length as) True) [b, c]) =
    (let left = filter (candidate_on b bs vs) as in
     Some (map ((!) left) (filter (\<lambda>k. candidate_on b bs vs (as ! k) \<and> candidate_on c cs vs (left ! k)) [0..<length left])))"
proof -
  let ?t = "candidate_on b bs vs" and ?u = "candidate_on c cs vs"
  let ?left = "filter ?t as"
  have t: "\<forall>x \<in> set as. contains_attribute (app_views b) bs vs x = Some (?t x)"
    and u: "\<forall>x \<in> set ?left. contains_attribute (app_views c) cs vs x = Some (?u x)"
    using assms(5) by (auto simp: candidate_on_def)
  have len: "length ?left \<le> length (map ?t as)" by simp
  have "map ?t as ! k = ?t (as ! k)" if "k < length ?left" for k
    using less_le_trans [OF that length_filter_le] by (rule nth_map)
  then have "filter (\<lambda>k. map ?t as ! k \<and> ?u (?left ! k)) [0..<length ?left] = filter (\<lambda>k. ?t (as ! k) \<and> ?u (?left ! k)) [0..<length ?left]"
    by (intro filter_cong) auto
  with match_app_next [OF u len] match_app_first [OF t] show ?thesis
    by (simp add: match_other_def assms(1-4) Let_def)
qed

text \<open>A wider screen drops some candidates of the view \<open>A\<close>; the first screen itself would drop none.\<close>

definition wide_screen :: app where
  "wide_screen = sample_plain\<lparr>app_views := (app_views sample_plain)[0 := (View_make 0 0 120 200 ''root'' 0 None)\<lparr>view_pos := 0\<rparr>]\<rparr>"

lemma match_two_screens_witness:
  "\<exists>as bs r. GenAttributesForApp HORIZONTAL 1 (app_views sample_plain) = Some as \<and>
     GenAttributesForApp HORIZONTAL 1 (app_views wide_screen) = Some bs \<and>
     fold_opt (match_other HORIZONTAL (app_views sample_plain) (app_views sample_plain ! 1)) (as, replicate (length as) True)
       [wide_screen, sample_plain] = Some r \<and>
     length (fst r) = 6 \<and>
     length (filter (\<lambda>a. candidate_on wide_screen bs (app_views sample_plain) a \<and> candidate_on sample_plain as (app_views sample_plain) a) as) = 11"
proof -
  let ?vs = "app_views sample_plain" and ?ws = "app_views wide_screen"
  have "map_option (\<lambda>_. ()) (GenAttributesForApp HORIZONTAL 1 ?vs) = Some ()"
    "map_option (\<lambda>_. ()) (GenAttributesForApp HORIZONTAL 1 ?ws) = Some ()"
    by code_simp+
  then obtain as bs where as: "GenAttributesForApp HORIZONTAL 1 ?vs = Some as" and bs: "GenAttributesForApp HORIZONTAL 1 ?ws = Some bs"
    by auto
  let ?Q = "\<lambda>as bs. list_all (\<lambda>x. contains_attribute ?ws bs ?vs x \<noteq> None \<and> contains_attribute ?vs as ?vs x \<noteq> None) as \<and>
      length (filter (\<lambda>k. candidate_on wide_screen bs ?vs (as ! k) \<and>
        candidate_on sample_plain as ?vs (filter (candidate_on wide_screen bs ?vs) as ! k))
          [0..<length (filter (candidate_on wide_screen bs ?vs) as)]) = 6 \<and>
      length (filter (\<lambda>a. candidate_on wide_screen bs ?vs a \<and> candidate_on sample_plain as ?vs a) as) = 11"
  have "do { as \<leftarrow> GenAttributesForApp HORIZONTAL 1 ?vs; bs \<leftarrow> GenAttributesForApp HORIZONTAL 1 ?ws; Some (?Q as bs) } = Some True"
    by code_simp
  then have Q: "?Q as bs" unfolding as bs by (simp only: bind.bind_lunit option.inject simp_thms)
  then have ok: "\<forall>x \<in> set as. contains_attribute ?ws bs ?vs x \<noteq> None \<and> contains_attribute ?vs as ?vs x \<noteq> None"
    unfolding list_all_iff by blast
  have view: "findView wide_screen (view_id (?vs ! 1)) = Some 1" "findView sample_plain (view_id (?vs ! 1)) = Some 1" by code_simp+
  obtain r where r: "fold_opt (match_other HORIZONTAL ?vs (?vs ! 1)) (as, replicate (length as) True) [wide_screen, sample_plain] = Some r"
    "fst r = map ((!) (filter (candidate_on wide_screen bs ?vs) as))
       (filter (\<lambda>k. candidate_on wide_screen bs ?vs (as ! k) \<and>
          candidate_on sample_plain as ?vs (filter (candidate_on wide_screen bs ?vs) as ! k))
            [0..<length (filter (candidate_on wide_screen bs ?vs) as)])"
    using match_two_screens [OF view(1) bs view(2) as ok] unfolding Let_def by auto
  have "length (fst r) = 6" using Q unfolding r(2) by (simp only: length_map)
  with as bs r(1) Q show ?thesis by blast
qed

end
