(* ===== verification/Counters.thy ===== *)
theory Counters
  imports Prelude "HOL-Library.Product_Lexorder"
begin

text \<open>
  \<^verbatim>\<open>src/inferui/base/counter.h\<close>: \<^verbatim>\<open>ValueCounter\<close> and \<^verbatim>\<open>ConfusionMatrixCounter\<close>. The
  \<^verbatim>\<open>std::unordered_map\<close> is an association list without repeated keys; nothing here depends on its
  order. The locale \<open>value_counting\<close> is the contract on which the probability models rest: what
  \<^verbatim>\<open>Add\<close> does to \<^verbatim>\<open>GetCount\<close>, \<^verbatim>\<open>TotalCount\<close> and \<^verbatim>\<open>UniqueValues\<close>. Inside it the smoothed
  frequencies are shown to be a distribution over the values seen.
\<close>

section \<open>The counter\<close>

record 'v value_counter =
  vc_name :: string
  vc_data :: "('v \<times> int) list"
  vc_total :: int

definition ValueCounter_new :: "string \<Rightarrow> 'v value_counter" where
  "ValueCounter_new n = \<lparr>vc_name = n, vc_data = [], vc_total = 0\<rparr>"

text \<open>\<^verbatim>\<open>data_[value] += count\<close> inserts 0 first.\<close>

primrec add_entry :: "'v \<Rightarrow> int \<Rightarrow> ('v \<times> int) list \<Rightarrow> ('v \<times> int) list" where
  "add_entry v n [] = [(v, n)]"
| "add_entry v n (e # es) = (if fst e = v then (v, snd e + n) # es else e # add_entry v n es)"

definition counter_Add :: "'v value_counter \<Rightarrow> 'v \<Rightarrow> int \<Rightarrow> 'v value_counter" where
  "counter_Add c v n = c\<lparr>vc_data := add_entry v n (vc_data c), vc_total := vc_total c + n\<rparr>"

definition counter_plus :: "'v value_counter \<Rightarrow> 'v value_counter \<Rightarrow> 'v value_counter" where
  "counter_plus c d =
     foldl (\<lambda>r e. counter_Add r (fst e) (snd e))
       (foldl (\<lambda>r e. counter_Add r (fst e) (snd e)) (ValueCounter_new []) (vc_data c)) (vc_data d)"

definition TotalCount :: "'v value_counter \<Rightarrow> int" where
  "TotalCount c = vc_total c"

definition FindWithDefault :: "('k \<times> 'v) list \<Rightarrow> 'k \<Rightarrow> 'v \<Rightarrow> 'v" where
  "FindWithDefault m k d = (case map_of m k of None \<Rightarrow> d | Some v \<Rightarrow> v)"

definition GetCount :: "'v value_counter \<Rightarrow> 'v \<Rightarrow> int" where
  "GetCount c k = FindWithDefault (vc_data c) k 0"

definition UniqueValues :: "'v value_counter \<Rightarrow> nat" where
  "UniqueValues c = length (vc_data c)"

text \<open>\<^verbatim>\<open>SortMap\<close>: the pairs of count and key, greatest first; \<^verbatim>\<open>MostCommon\<close> reports the first ones.\<close>

definition SortMap :: "('k :: linorder \<times> 'v :: linorder) list \<Rightarrow> ('v \<times> 'k) list" where
  "SortMap m = rev (sort (map (\<lambda>(k, v). (v, k)) m))"

definition MostCommon :: "('v :: linorder) value_counter \<Rightarrow> nat \<Rightarrow> ('v \<times> int) list" where
  "MostCommon c n = map (\<lambda>(k, v). (v, k)) (take n (SortMap (vc_data c)))"

text \<open>
  \<^verbatim>\<open>IntPair\<close> of \<^verbatim>\<open>maputil.h\<close>. Its order looks at the second components exactly when the first ones
  differ, so pairs with equal first components are never ordered.
\<close>

type_synonym int_pair = "int \<times> int"

definition IntPair_less :: "int_pair \<Rightarrow> int_pair \<Rightarrow> bool" where
  "IntPair_less p q = (if fst p = fst q then fst p < fst q else snd p < snd q)"

lemma IntPair_less_not_linear: "\<not> IntPair_less (1, 2) (1, 3) \<and> \<not> IntPair_less (1, 3) (1, 2)"
  by (simp add: IntPair_less_def)

section \<open>The contract of a counter\<close>

locale value_counting =
  fixes add :: "'c \<Rightarrow> 'v \<Rightarrow> int \<Rightarrow> 'c" and count :: "'c \<Rightarrow> 'v \<Rightarrow> int" and total :: "'c \<Rightarrow> int"
    and unique :: "'c \<Rightarrow> nat" and seen :: "'c \<Rightarrow> 'v set" and ok :: "'c \<Rightarrow> bool"
  assumes ok_add: "ok c \<Longrightarrow> ok (add c v n)"
    and count_add: "ok c \<Longrightarrow> count (add c v n) w = (if v = w then count c w + n else count c w)"
    and seen_add: "ok c \<Longrightarrow> seen (add c v n) = insert v (seen c)"
    and finite_seen: "ok c \<Longrightarrow> finite (seen c)"
    and unique_seen: "ok c \<Longrightarrow> unique c = card (seen c)"
    and total_sum: "ok c \<Longrightarrow> total c = (\<Sum>v \<in> seen c. count c v)"
    and count_unseen: "ok c \<Longrightarrow> v \<notin> seen c \<Longrightarrow> count c v = 0"
begin

definition adds :: "'c \<Rightarrow> ('v \<times> int) list \<Rightarrow> 'c" where
  "adds = foldl (\<lambda>c e. add c (fst e) (snd e))"

lemma adds_simps [simp]: "adds c [] = c" "adds c (e # es) = adds (add c (fst e) (snd e)) es"
  by (simp_all add: adds_def)

lemma adds_append: "adds c (es @ fs) = adds (adds c es) fs"
  by (simp add: adds_def)

lemma ok_adds: "ok c \<Longrightarrow> ok (adds c es)"
  by (induction es arbitrary: c) (auto simp: ok_add)

lemma count_adds:
  "ok c \<Longrightarrow> count (adds c es) w = count c w + sum_list (map snd (filter (\<lambda>e. fst e = w) es))"
  by (induction es arbitrary: c) (auto simp: ok_add count_add)

lemma seen_adds: "ok c \<Longrightarrow> seen (adds c es) = seen c \<union> fst ` set es"
  by (induction es arbitrary: c) (auto simp: ok_add seen_add)

text \<open>The order of the additions does not matter.\<close>

lemma adds_order:
  assumes "ok c" "set es = set fs" "\<And>w. filter (\<lambda>e. fst e = w) es = filter (\<lambda>e. fst e = w) fs"
  shows "count (adds c es) = count (adds c fs)" "total (adds c es) = total (adds c fs)"
    "unique (adds c es) = unique (adds c fs)"
proof -
  show c: "count (adds c es) = count (adds c fs)" using assms by (auto simp: count_adds)
  have s: "seen (adds c es) = seen (adds c fs)" using assms by (simp add: seen_adds)
  show "total (adds c es) = total (adds c fs)" "unique (adds c es) = unique (adds c fs)"
    using assms(1) c s by (simp_all add: total_sum unique_seen ok_adds)
qed

lemma count_positive_adds:
  assumes "ok c" "\<forall>w \<in> seen c. 1 \<le> count c w" "\<forall>e \<in> set es. 1 \<le> snd e"
  shows "\<forall>w \<in> seen (adds c es). 1 \<le> count (adds c es) w"
  using assms
proof (induction es arbitrary: c)
  case (Cons e es)
  have "\<forall>w \<in> seen (add c (fst e) (snd e)). 1 \<le> count (add c (fst e) (snd e)) w"
  proof
    fix w assume w: "w \<in> seen (add c (fst e) (snd e))"
    show "1 \<le> count (add c (fst e) (snd e)) w"
    proof (cases "w \<in> seen c")
      case True
      with Cons.prems show ?thesis by (auto simp: count_add)
    next
      case False
      with w Cons.prems count_unseen [of c w] show ?thesis by (auto simp: count_add seen_add)
    qed
  qed
  with Cons.prems Cons.IH [of "add c (fst e) (snd e)"] show ?case by (simp add: ok_add)
qed simp

text \<open>Laplace smoothing over the values seen.\<close>

definition smoothed :: "'c \<Rightarrow> 'v \<Rightarrow> real" where
  "smoothed c v = (real_of_int (count c v) + 1) / (real (unique c) + real_of_int (total c))"

lemma denominator:
  assumes "ok c" "\<forall>w \<in> seen c. 1 \<le> count c w" "seen c \<noteq> {}"
  shows "2 * real (unique c) \<le> real (unique c) + real_of_int (total c)" "0 < unique c"
proof -
  have "(\<Sum>v \<in> seen c. 1) \<le> (\<Sum>v \<in> seen c. count c v)" using assms(2) by (intro sum_mono) simp
  then have "int (unique c) \<le> total c" using assms(1) by (simp add: total_sum unique_seen)
  then have "real_of_int (int (unique c)) \<le> real_of_int (total c)" by (simp only: of_int_le_iff)
  then show "2 * real (unique c) \<le> real (unique c) + real_of_int (total c)" by simp
  show "0 < unique c" using assms(1,3) by (simp add: unique_seen finite_seen card_gt_0_iff)
qed

lemma smoothed_distribution:
  assumes "ok c" "\<forall>w \<in> seen c. 1 \<le> count c w" "seen c \<noteq> {}"
  shows "(\<Sum>v \<in> seen c. smoothed c v) = 1" and "0 < smoothed c v" and "smoothed c v \<le> 1"
proof -
  let ?d = "real (unique c) + real_of_int (total c)"
  have d: "0 < ?d" using denominator [OF assms] by linarith
  have "(\<Sum>v \<in> seen c. real_of_int (count c v) + 1) = ?d"
    using assms(1) by (simp add: sum.distrib total_sum unique_seen)
  then show sum1: "(\<Sum>v \<in> seen c. smoothed c v) = 1"
    using d by (simp add: smoothed_def flip: sum_divide_distrib)
  have pos: "0 < smoothed c v" for v
  proof (cases "v \<in> seen c")
    case True
    then have "0 \<le> count c v" using assms(2) by force
    then show ?thesis using d by (simp add: smoothed_def add_nonneg_pos)
  qed (use d assms(1) in \<open>simp add: smoothed_def count_unseen\<close>)
  then show "0 < smoothed c v" .
  show "smoothed c v \<le> 1"
  proof (cases "v \<in> seen c")
    case True
    have "smoothed c v \<le> (\<Sum>v \<in> seen c. smoothed c v)"
      using True pos finite_seen [OF assms(1)] by (intro member_le_sum) (auto intro: less_imp_le)
    then show ?thesis using sum1 by simp
  next
    case False
    have "1 \<le> ?d" using denominator [OF assms] by linarith
    then show ?thesis using False assms(1) d by (simp add: smoothed_def count_unseen)
  qed
qed

end

section \<open>The counter keeps the contract\<close>

definition counter_wf :: "'v value_counter \<Rightarrow> bool" where
  "counter_wf c \<longleftrightarrow> distinct (map fst (vc_data c)) \<and> vc_total c = sum_list (map snd (vc_data c))"

definition counter_seen :: "'v value_counter \<Rightarrow> 'v set" where
  "counter_seen c = fst ` set (vc_data c)"

lemma add_entry_keys: "fst ` set (add_entry v n es) = insert v (fst ` set es)"
  by (induction es) auto

lemma add_entry_distinct: "distinct (map fst es) \<Longrightarrow> distinct (map fst (add_entry v n es))"
proof (induction es)
  case (Cons e es)
  have "fst e \<notin> fst ` set (add_entry v n es)" if "fst e \<noteq> v"
    using that Cons.prems by (simp add: add_entry_keys)
  with Cons show ?case by (cases "fst e = v") auto
qed simp

lemma add_entry_sum: "sum_list (map snd (add_entry v n es)) = sum_list (map snd es) + n"
  by (induction es) auto

lemma add_entry_lookup:
  "FindWithDefault (add_entry v n es) w 0 = (if v = w then FindWithDefault es w 0 + n else FindWithDefault es w 0)"
  by (induction es) (auto simp: FindWithDefault_def split: option.splits)

lemma FindWithDefault_unseen: "k \<notin> fst ` set es \<Longrightarrow> FindWithDefault es k d = d"
  by (induction es) (auto simp: FindWithDefault_def)

lemma FindWithDefault_Cons:
  "FindWithDefault (e # es) k d = (if fst e = k then snd e else FindWithDefault es k d)"
  by (auto simp: FindWithDefault_def)

lemma counter_wf_new: "counter_wf (ValueCounter_new nm)"
  by (simp add: counter_wf_def ValueCounter_new_def)

lemma GetCount_sum:
  "distinct (map fst es) \<Longrightarrow> (\<Sum>v \<in> fst ` set es. FindWithDefault es v 0) = sum_list (map snd es)"
proof (induction es)
  case (Cons e es)
  have "(\<Sum>v \<in> fst ` set es. FindWithDefault (e # es) v 0) = (\<Sum>v \<in> fst ` set es. FindWithDefault es v 0)"
    using Cons.prems by (intro sum.cong) (auto simp: FindWithDefault_Cons)
  with Cons show ?case by (simp add: FindWithDefault_Cons)
qed simp

interpretation vc: value_counting counter_Add GetCount TotalCount UniqueValues counter_seen counter_wf
proof
  fix c :: "'v value_counter" and v w :: 'v and n :: int
  assume wf: "counter_wf c"
  show "counter_wf (counter_Add c v n)"
    using wf by (simp add: counter_wf_def counter_Add_def add_entry_distinct add_entry_sum)
  show "GetCount (counter_Add c v n) w = (if v = w then GetCount c w + n else GetCount c w)"
    by (simp add: GetCount_def counter_Add_def add_entry_lookup)
  show "counter_seen (counter_Add c v n) = insert v (counter_seen c)"
    by (simp add: counter_seen_def counter_Add_def add_entry_keys)
  show "finite (counter_seen c)" by (simp add: counter_seen_def)
  show "UniqueValues c = card (counter_seen c)"
    using wf by (simp add: UniqueValues_def counter_seen_def counter_wf_def card_image distinct_card
        distinct_map)
  show "TotalCount c = (\<Sum>v \<in> counter_seen c. GetCount c v)"
    using wf by (simp add: TotalCount_def counter_seen_def counter_wf_def GetCount_def GetCount_sum)
  show "v \<notin> counter_seen c \<Longrightarrow> GetCount c v = 0"
    by (simp add: counter_seen_def GetCount_def FindWithDefault_unseen)
qed

lemma counter_plus_adds: "counter_plus c d = vc.adds (vc.adds (ValueCounter_new []) (vc_data c)) (vc_data d)"
  by (simp add: counter_plus_def vc.adds_def)

lemma sum_filter_key:
  "distinct (map fst es) \<Longrightarrow> sum_list (map snd (filter (\<lambda>e. fst e = w) es)) = FindWithDefault es w 0"
proof (induction es)
  case (Cons e es)
  have "filter (\<lambda>e. fst e = w) es = []" if "w \<notin> fst ` set es" using that by (auto simp: filter_empty_conv)
  with Cons show ?case by (auto simp: FindWithDefault_Cons)
qed (simp add: FindWithDefault_def)

text \<open>
  \<^verbatim>\<open>operator+\<close> of two counters counts what either counted: counts and totals add up, and the
  values seen are those of both, whatever the order in which the maps are walked.
\<close>

theorem counter_plus_counts:
  assumes "counter_wf c" "counter_wf d"
  shows "counter_wf (counter_plus c d) \<and>
    GetCount (counter_plus c d) w = GetCount c w + GetCount d w \<and>
    TotalCount (counter_plus c d) = TotalCount c + TotalCount d \<and>
    UniqueValues (counter_plus c d) = card (counter_seen c \<union> counter_seen d)"
proof -
  let ?z = "ValueCounter_new [] :: 'a value_counter"
  have z: "counter_wf ?z" by (rule counter_wf_new)
  note ok = vc.ok_adds [OF z] vc.ok_adds [OF vc.ok_adds [OF z]]
  have count0: "GetCount ?z v = 0" for v by (simp add: GetCount_def ValueCounter_new_def FindWithDefault_def)
  have key: "sum_list (map snd (filter (\<lambda>e. fst e = v) (vc_data e))) = GetCount e v" if "counter_wf e" for e :: "'a value_counter" and v
    using that by (simp add: counter_wf_def GetCount_def sum_filter_key)
  have count: "GetCount (counter_plus c d) v = GetCount c v + GetCount d v" for v
    using assms by (simp add: counter_plus_adds vc.count_adds z ok count0 key)
  have seen: "counter_seen (counter_plus c d) = counter_seen c \<union> counter_seen d"
    using vc.seen_adds [OF ok(1)] vc.seen_adds [OF z]
    by (auto simp: counter_plus_adds counter_seen_def ValueCounter_new_def)
  have wf: "counter_wf (counter_plus c d)" by (simp add: counter_plus_adds ok)
  have restrict: "(\<Sum>v \<in> counter_seen c \<union> counter_seen d. GetCount e v) = (\<Sum>v \<in> counter_seen e. GetCount e v)"
    if "counter_wf e" "counter_seen e \<subseteq> counter_seen c \<union> counter_seen d" for e
    using that assms by (intro sum.mono_neutral_right) (auto simp: vc.finite_seen vc.count_unseen)
  have "TotalCount (counter_plus c d) = (\<Sum>v \<in> counter_seen c \<union> counter_seen d. GetCount c v + GetCount d v)"
    using vc.total_sum [OF wf] by (simp add: seen count)
  also have "\<dots> = TotalCount c + TotalCount d"
    using restrict [OF assms(1)] restrict [OF assms(2)] vc.total_sum [OF assms(1)] vc.total_sum [OF assms(2)]
    by (simp add: sum.distrib)
  finally have "TotalCount (counter_plus c d) = TotalCount c + TotalCount d" .
  moreover have "UniqueValues (counter_plus c d) = card (counter_seen c \<union> counter_seen d)"
    using vc.unique_seen [OF wf] by (simp add: seen)
  ultimately show ?thesis using wf count by blast
qed

lemma counter_plus_counts_witness:
  "GetCount (counter_plus (counter_Add (ValueCounter_new ''a'') (3 :: int) 2) (counter_Add (ValueCounter_new ''b'') 3 5)) 3 = 7"
  using counter_plus_counts [of "counter_Add (ValueCounter_new ''a'') (3 :: int) 2"
      "counter_Add (ValueCounter_new ''b'') (3 :: int) 5" 3]
  by (simp add: vc.ok_add counter_wf_new vc.count_add) (simp add: GetCount_def ValueCounter_new_def FindWithDefault_def)

section \<open>Confusion matrices\<close>

record 'v confusion_matrix =
  cf_counts :: "('v \<times> ('v \<times> int) list) list"
  cf_total :: int
  cf_correct :: int
  cf_name :: string

definition ConfusionMatrix_new :: "string \<Rightarrow> 'v confusion_matrix" where
  "ConfusionMatrix_new n = \<lparr>cf_counts = [], cf_total = 0, cf_correct = 0, cf_name = n\<rparr>"

primrec add_row :: "'v \<Rightarrow> 'v \<Rightarrow> ('v \<times> ('v \<times> int) list) list \<Rightarrow> ('v \<times> ('v \<times> int) list) list" where
  "add_row e a [] = [(e, add_entry a 1 [])]"
| "add_row e a (r # rs) = (if fst r = e then (e, add_entry a 1 (snd r)) # rs else r # add_row e a rs)"

definition confusion_Add :: "'v confusion_matrix \<Rightarrow> 'v \<Rightarrow> 'v \<Rightarrow> 'v confusion_matrix" where
  "confusion_Add m e a =
     m\<lparr>cf_counts := add_row e a (cf_counts m), cf_total := cf_total m + 1,
       cf_correct := (if e = a then cf_correct m + 1 else cf_correct m)\<rparr>"

text \<open>\<^verbatim>\<open>Accuracy\<close>: the count and the percentage it prints; \<open>None\<close> prints a dash.\<close>

definition Accuracy :: "'v confusion_matrix \<Rightarrow> 'v \<Rightarrow> 'v \<Rightarrow> (int \<times> real) option" where
  "Accuracy m e a =
     (case map_of (cf_counts m) e of
        None \<Rightarrow> None
      | Some row \<Rightarrow> (let v = FindWithDefault row a 0 in Some (v, real_of_int v * 100 / real_of_int (cf_total m))))"

definition GetVocab :: "'v confusion_matrix \<Rightarrow> 'v set" where
  "GetVocab m = (\<Union>r \<in> set (cf_counts m). insert (fst r) (fst ` set (snd r)))"

text \<open>The entries, and the cells on the diagonal, add up to the two totals.\<close>

definition cell :: "'v confusion_matrix \<Rightarrow> 'v \<Rightarrow> 'v \<Rightarrow> int" where
  "cell m e a = (case map_of (cf_counts m) e of None \<Rightarrow> 0 | Some row \<Rightarrow> FindWithDefault row a 0)"

lemma add_row_lookup:
  "(case map_of (add_row e a rs) x of None \<Rightarrow> 0 | Some row \<Rightarrow> FindWithDefault row y (0 :: int)) =
     (case map_of rs x of None \<Rightarrow> 0 | Some row \<Rightarrow> FindWithDefault row y 0) + (if e = x \<and> a = y then 1 else 0)"
  using add_entry_lookup [of a 1 "[]" y]
  by (induction rs) (auto simp: add_entry_lookup FindWithDefault_def [of "[]"])

lemma cell_Add: "cell (confusion_Add m e a) x y = cell m x y + (if e = x \<and> a = y then 1 else 0)"
  by (simp add: cell_def confusion_Add_def add_row_lookup)

lemma confusion_counts:
  fixes nm :: string
  defines "m es \<equiv> foldl (\<lambda>m e. confusion_Add m (fst e) (snd e)) (ConfusionMatrix_new nm) es"
  shows "cell (m es) x y = int (count_list es (x, y))" "cf_total (m es) = int (length es)"
    "cf_correct (m es) = int (length (filter (\<lambda>e. fst e = snd e) es))"
proof (induction es rule: rev_induct)
  case Nil
  { case 1 then show ?case by (simp add: m_def cell_def ConfusionMatrix_new_def) }
  { case 2 then show ?case by (simp add: m_def ConfusionMatrix_new_def) }
  { case 3 then show ?case by (simp add: m_def ConfusionMatrix_new_def) }
next
  case (snoc e es)
  have step: "m (es @ [e]) = confusion_Add (m es) (fst e) (snd e)" by (simp add: m_def)
  { case 1 then show ?case using snoc(1) unfolding step cell_Add by (cases e) auto }
  { case 2 then show ?case using snoc(2) by (simp add: step confusion_Add_def) }
  { case 3 then show ?case using snoc(3) by (simp add: step confusion_Add_def) }
qed

end
