(* ===== verification/Prob_Models.thy ===== *)
theory Prob_Models
  imports Counters Constraint_Gen
begin

text \<open>
  The probability models: the feature models of \<^verbatim>\<open>model.h\<close> (\<^verbatim>\<open>CountingModel\<close> and its five
  subclasses, \<^verbatim>\<open>AttrSizeModel\<close>, \<^verbatim>\<open>ModelWrapper\<close>) and those of \<^verbatim>\<open>constraint_model.h\<close> and
  \<^verbatim>\<open>constraint_model.cpp\<close> (\<^verbatim>\<open>CountingFeatureModel\<close>, \<^verbatim>\<open>ConstraintModelWrapper\<close> and
  \<^verbatim>\<open>ViewSizeModelWrapper\<close>). A class hierarchy is a datatype of its classes; \<^verbatim>\<open>float\<close> and
  \<^verbatim>\<open>double\<close> are reals. An empty counter would divide by zero (an infinity in C++), which is
  \<open>None\<close> here; a value of \<^verbatim>\<open>NAN\<close> never reaches a counter.
\<close>

section \<open>Features of a relation\<close>

definition angle_value :: "line_segment \<Rightarrow> real" where
  "angle_value s =
     (case seg_GetAngle s of
        None \<Rightarrow> - 9999
      | Some angle \<Rightarrow> (if cround angle = - 180 then 180 else cround angle))"

definition relation_angle :: "view \<Rightarrow> view \<Rightarrow> constraint_type \<Rightarrow> real option" where
  "relation_angle src tgt t = map_option angle_value (LineTo src tgt t)"

definition relation_distance :: "view \<Rightarrow> view \<Rightarrow> constraint_type \<Rightarrow> real option" where
  "relation_distance src tgt t = map_option (\<lambda>s. cround (seg_Length s)) (LineTo src tgt t)"

definition relation_intersections :: "view \<Rightarrow> view \<Rightarrow> constraint_type \<Rightarrow> view list \<Rightarrow> nat option" where
  "relation_intersections src tgt t vs =
     map_option (\<lambda>s. length (filter (\<lambda>v. \<not> (view_eq v src \<or> view_eq v tgt) \<and> seg_Intersects s v) vs))
       (LineTo src tgt t)"

section \<open>The feature models of \<^verbatim>\<open>model.h\<close>\<close>

datatype feature_kind = OrientationModel | MarginModel | DistanceModel | TypeModel | IntersectionModel

record counting_model =
  cm_kind :: feature_kind
  cm_counters :: "real value_counter list"
  cm_property_to_counter :: "(constraint_type \<times> nat) list"

definition axis_counters :: "(constraint_type \<times> nat) list" where
  "axis_counters = [(T2B, 0), (B2T, 0), (R2L, 1), (L2R, 1), (L2L, 1), (R2R, 1), (T2T, 0), (B2B, 0)]"

fun counter_names :: "feature_kind \<Rightarrow> string list" where
  "counter_names OrientationModel =
     [''layout_below'', ''layout_above'', ''layout_toLeftOf'', ''layout_toRightOf'',
      ''layout_alignLeft'', ''layout_alignRight'', ''layout_alignTop'', ''layout_alignBottom'']"
| "counter_names MarginModel = [''Vertical Margin'', ''Horizontal Margin'']"
| "counter_names DistanceModel = [''Vertical Distance'', ''Horizontal Distance'']"
| "counter_names TypeModel = [''Vertical Type'', ''Horizontal Type'']"
| "counter_names IntersectionModel = [''All Types'']"

fun property_to_counter :: "feature_kind \<Rightarrow> (constraint_type \<times> nat) list" where
  "property_to_counter OrientationModel =
     [(T2B, 0), (B2T, 1), (R2L, 2), (L2R, 3), (L2L, 4), (R2R, 5), (T2T, 6), (B2B, 7)]"
| "property_to_counter IntersectionModel =
     [(T2B, 0), (B2T, 0), (R2L, 0), (L2R, 0), (L2L, 0), (R2R, 0), (T2T, 0), (B2B, 0)]"
| "property_to_counter _ = axis_counters"

definition CountingModel_new :: "feature_kind \<Rightarrow> counting_model" where
  "CountingModel_new k =
     \<lparr>cm_kind = k, cm_counters = map ValueCounter_new (counter_names k),
      cm_property_to_counter = property_to_counter k\<rparr>"

definition property_to_attribute :: "(constraint_type \<times> name) list" where
  "property_to_attribute =
     [(T2B, layout_marginTop), (B2T, layout_marginBottom), (R2L, layout_marginRight), (L2R, layout_marginLeft),
      (L2L, layout_marginLeft), (R2R, layout_marginRight), (T2T, layout_marginTop), (B2B, layout_marginBottom)]"

definition GetMargin :: "bool \<Rightarrow> proto_view option \<Rightarrow> constraint_type \<Rightarrow> real option" where
  "GetMargin xml pv t =
     do { v \<leftarrow> pv; n \<leftarrow> map_of property_to_attribute t;
          case property_value xml v n of
            None \<Rightarrow> Some 0
          | Some text \<Rightarrow> (if hasValue text then parseValue text else Some 0) }"

fun ValueProto ::
    "bool \<Rightarrow> feature_kind \<Rightarrow> constraint_type \<Rightarrow> view \<Rightarrow> view \<Rightarrow> view list \<Rightarrow> real option" where
  "ValueProto xml OrientationModel t src tgt vs = relation_angle src tgt t"
| "ValueProto xml MarginModel t src tgt vs = GetMargin xml (view_proto src) t"
| "ValueProto xml DistanceModel t src tgt vs = relation_distance src tgt t"
| "ValueProto xml TypeModel t src tgt vs = Some (real (ct_index t))"
| "ValueProto xml IntersectionModel t src tgt vs = map_option real (relation_intersections src tgt t vs)"

fun ValueAttr ::
    "feature_kind \<Rightarrow> attribute \<Rightarrow> constraint_type \<Rightarrow> view \<Rightarrow> view \<Rightarrow> view list \<Rightarrow> real option" where
  "ValueAttr OrientationModel a t src tgt vs = relation_angle src tgt t"
| "ValueAttr MarginModel a t src tgt vs = Some (real_of_int (value_primary a))"
| "ValueAttr DistanceModel a t src tgt vs = relation_distance src tgt t"
| "ValueAttr TypeModel a t src tgt vs = Some (real (ct_index t))"
| "ValueAttr IntersectionModel a t src tgt vs = map_option real (relation_intersections src tgt t vs)"

definition counting_AddRelation ::
    "bool \<Rightarrow> counting_model \<Rightarrow> name \<Rightarrow> view \<Rightarrow> view \<Rightarrow> view list \<Rightarrow> counting_model option" where
  "counting_AddRelation xml m property src tgt vs =
     do { t \<leftarrow> ATTRIBUTE_TO_TYPE property;
          i \<leftarrow> map_of (cm_property_to_counter m) t;
          value \<leftarrow> ValueProto xml (cm_kind m) t src tgt vs;
          c \<leftarrow> vec_at (cm_counters m) i;
          Some (m\<lparr>cm_counters := (cm_counters m)[i := counter_Add c value 1]\<rparr>) }"

definition smoothed_prob :: "'v value_counter \<Rightarrow> 'v \<Rightarrow> real option" where
  "smoothed_prob c v =
     (if int (UniqueValues c) + TotalCount c = 0 then None
      else Some ((real_of_int (GetCount c v) + 1) / real_of_int (int (UniqueValues c) + TotalCount c)))"

definition AttrProbInner :: "counting_model \<Rightarrow> real \<Rightarrow> constraint_type \<Rightarrow> real option" where
  "AttrProbInner m value t =
     do { i \<leftarrow> map_of (cm_property_to_counter m) t; c \<leftarrow> vec_at (cm_counters m) i; smoothed_prob c value }"

text \<open>The value and the probability of an attribute; those of a centering are averages.\<close>

definition attr_sides ::
    "(constraint_type \<Rightarrow> view \<Rightarrow> view \<Rightarrow> real option) \<Rightarrow> view list \<Rightarrow> attribute \<Rightarrow> real option" where
  "attr_sides f vs a =
     do { s \<leftarrow> vec_at vs (attr_src a); p \<leftarrow> vec_at vs (tgt_primary a);
          if IsRelationalAnchor (attr_type a) then f (attr_type a) s p
          else do { types \<leftarrow> SplitCenterAnchor (attr_type a);
                    l \<leftarrow> f (fst types) s p;
                    j \<leftarrow> tgt_secondary a; q \<leftarrow> vec_at vs j;
                    r \<leftarrow> f (snd types) s q;
                    Some ((l + r) / 2) } }"

definition counting_AttrProb :: "counting_model \<Rightarrow> view list \<Rightarrow> attribute \<Rightarrow> real option" where
  "counting_AttrProb m vs a =
     attr_sides (\<lambda>t s p. do { v \<leftarrow> ValueAttr (cm_kind m) a t s p vs; AttrProbInner m v t }) vs a"

definition counting_AttrValue :: "counting_model \<Rightarrow> view list \<Rightarrow> attribute \<Rightarrow> real option" where
  "counting_AttrValue m vs a = attr_sides (\<lambda>t s p. ValueAttr (cm_kind m) a t s p vs) vs a"

definition size_probs :: "real list" where
  "size_probs = [3 / 10, 1 / 10, 3 / 100, 29 / 1000, 28 / 1000, 25 / 1000, 1 / 100]"

definition size_AttrProb :: "view list \<Rightarrow> attribute \<Rightarrow> real option" where
  "size_AttrProb vs a =
     do { n \<leftarrow> Attribute_size vs a; Some (if n < length size_probs then size_probs ! n else 2 / 1000) }"

text \<open>\<^verbatim>\<open>ModelWrapper\<close>: a weighted sum of logarithms.\<close>

datatype attr_model = Counting counting_model | AttrSizeModel

record model_wrapper =
  mw_models :: "(attr_model \<times> real) list"

fun attr_model_prob :: "attr_model \<Rightarrow> view list \<Rightarrow> attribute \<Rightarrow> real option" where
  "attr_model_prob (Counting m) vs a = counting_AttrProb m vs a"
| "attr_model_prob AttrSizeModel vs a = size_AttrProb vs a"

fun attr_model_AddRelation ::
    "bool \<Rightarrow> attr_model \<Rightarrow> name \<Rightarrow> view \<Rightarrow> view \<Rightarrow> view list \<Rightarrow> attr_model option" where
  "attr_model_AddRelation xml (Counting m) n src tgt vs = map_option Counting (counting_AddRelation xml m n src tgt vs)"
| "attr_model_AddRelation xml AttrSizeModel n src tgt vs = Some AttrSizeModel"

definition ModelWrapper_new :: model_wrapper where
  "ModelWrapper_new =
     \<lparr>mw_models = [(Counting (CountingModel_new OrientationModel), 2), (Counting (CountingModel_new MarginModel), 1),
        (Counting (CountingModel_new DistanceModel), 1), (Counting (CountingModel_new TypeModel), 1),
        (Counting (CountingModel_new IntersectionModel), 1), (AttrSizeModel, 1)]\<rparr>"

definition weighted_log :: "real option \<Rightarrow> real \<Rightarrow> real option" where
  "weighted_log p w = map_option (\<lambda>x. ln x * w) p"

definition wrapper_AttrProb :: "model_wrapper \<Rightarrow> view list \<Rightarrow> attribute \<Rightarrow> real option" where
  "wrapper_AttrProb w vs a =
     fold_opt (\<lambda>res mw. map_option (\<lambda>x. res + x) (weighted_log (attr_model_prob (fst mw) vs a) (snd mw)))
       0 (mw_models w)"

definition wrapper_AddRelation ::
    "bool \<Rightarrow> model_wrapper \<Rightarrow> name \<Rightarrow> view \<Rightarrow> view \<Rightarrow> view list \<Rightarrow> model_wrapper option" where
  "wrapper_AddRelation xml w n src tgt vs =
     do { ms \<leftarrow> map_opt (\<lambda>mw. map_option (\<lambda>m. (m, snd mw)) (attr_model_AddRelation xml (fst mw) n src tgt vs))
                 (mw_models w);
          Some \<lparr>mw_models = ms\<rparr> }"

section \<open>The features of \<^verbatim>\<open>constraint_model.cpp\<close>\<close>

datatype feature = F_Margin | F_Angle | F_Distance | F_Type | F_Intersections | F_ViewSize | F_ViewRatio

definition view_size_value :: "view_size \<Rightarrow> int" where
  "view_size_value s = int (view_size_index s)"

fun feature_fn ::
    "feature \<Rightarrow> view \<Rightarrow> view \<Rightarrow> real \<Rightarrow> constraint_type \<Rightarrow> view_size \<Rightarrow> view list \<Rightarrow> real option" where
  "feature_fn F_Margin src tgt value t sz vs = Some value"
| "feature_fn F_Angle src tgt value t sz vs = relation_angle src tgt t"
| "feature_fn F_Distance src tgt value t sz vs = relation_distance src tgt t"
| "feature_fn F_Type src tgt value t sz vs = Some (real (ct_index t))"
| "feature_fn F_Intersections src tgt value t sz vs = map_option real (relation_intersections src tgt t vs)"
| "feature_fn F_ViewSize src tgt value t sz vs = Some (real_of_int (view_size_value sz))"
| "feature_fn F_ViewRatio src tgt value t sz vs =
     do { oi \<leftarrow> ConstraintTypeToOrientation t;
          Some (real_of_int (view_size_value sz +
            10 * (1 + ((if oi = HORIZONTAL then rect_width src else rect_height src) sdiv 16)))) }"

fun feature_unary :: "feature \<Rightarrow> bool" where
  "feature_unary F_ViewSize = True"
| "feature_unary F_ViewRatio = True"
| "feature_unary _ = False"

definition Feature_ValueAttr :: "feature \<Rightarrow> view list \<Rightarrow> attribute \<Rightarrow> (real \<times> real) option" where
  "Feature_ValueAttr f vs a =
     do { s \<leftarrow> vec_at vs (attr_src a); p \<leftarrow> vec_at vs (tgt_primary a);
          if IsRelationalAnchor (attr_type a) \<or> feature_unary f
          then do { x \<leftarrow> feature_fn f s p (real_of_int (value_primary a)) (attr_type a) (attr_view_size a) vs;
                    Some (x, - 1) }
          else do { anchors \<leftarrow> SplitCenterAnchor (attr_type a);
                    j \<leftarrow> tgt_secondary a; q \<leftarrow> vec_at vs j;
                    x \<leftarrow> feature_fn f s p (real_of_int (value_primary a)) (fst anchors) (attr_view_size a) vs;
                    y \<leftarrow> feature_fn f s q (real_of_int (value_secondary a)) (snd anchors) (attr_view_size a) vs;
                    Some (x, y) } }"

text \<open>\<^verbatim>\<open>NumIntersections\<close> of \<^verbatim>\<open>constraint_model.cpp\<close>: the segment between the closest points.\<close>

definition NumIntersections :: "view \<Rightarrow> view \<Rightarrow> view list \<Rightarrow> nat" where
  "NumIntersections src tgt vs =
     (let xs = ClosestPointIntersection (xleft src) (xright src) (xleft tgt) (xright tgt);
          ys = ClosestPointIntersection (ytop src) (ybottom src) (ytop tgt) (ybottom tgt);
          s = LineSegment (fst xs) (fst ys) (snd xs) (snd ys)
      in length (filter (\<lambda>v. \<not> (view_eq v src \<or> view_eq v tgt) \<and> seg_IntersectsLoose s v) vs))"

record feature_model =
  fm_feature :: feature
  fm_counters :: "(real \<times> real) value_counter list"
  fm_property_to_counter :: "nat list"

definition by_axis :: "nat list" where
  "by_axis = [0, 0, 0, 0, 1, 1, 1, 1, 0, 0, 0, 0, 1, 1, 1, 1]"

definition by_axis_and_kind :: "nat list" where
  "by_axis_and_kind = [0, 0, 0, 0, 1, 1, 1, 1, 2, 2, 2, 2, 3, 3, 3, 3]"

definition by_type :: "nat list" where
  "by_type = [0, 1, 2, 3, 4, 5, 6, 7, 8, 8, 8, 8, 9, 9, 9, 9]"

definition CountingFeatureModel :: "feature \<Rightarrow> string list \<Rightarrow> nat list \<Rightarrow> feature_model" where
  "CountingFeatureModel f names table =
     \<lparr>fm_feature = f, fm_counters = map ValueCounter_new names, fm_property_to_counter = table\<rparr>"

definition margin_counter_names :: "string list" where
  "margin_counter_names =
     [''Horizontal Relative Margin'', ''Vertical Relative Margin'', ''Horizontal Centering Margin'',
      ''Vertical Centering Margin'']"

definition GetMarginModel :: feature_model where
  "GetMarginModel = CountingFeatureModel F_Margin margin_counter_names by_axis_and_kind"

definition GetOrientationModel :: feature_model where
  "GetOrientationModel =
     CountingFeatureModel F_Angle
       [''L2L'', ''L2R'', ''R2L'', ''R2R'', ''T2T'', ''T2B'', ''B2T'', ''B2B'',
        ''Horizontal Centering Orientation'', ''Vertical Centering Orientation''] by_type"

definition GetDistanceModel :: feature_model where
  "GetDistanceModel = CountingFeatureModel F_Distance margin_counter_names by_axis_and_kind"

definition GetTypeModel :: feature_model where
  "GetTypeModel = CountingFeatureModel F_Type [''All Types''] (replicate 16 0)"

definition GetIntersectionModel :: feature_model where
  "GetIntersectionModel = CountingFeatureModel F_Intersections [''All Types''] (replicate 16 0)"

definition GetViewSizeModel :: feature_model where
  "GetViewSizeModel = CountingFeatureModel F_ViewSize [''Horizontal ViewSize'', ''Vertical ViewSize''] by_axis"

definition GetViewSizeDimensionRatioModel :: feature_model where
  "GetViewSizeDimensionRatioModel =
     CountingFeatureModel F_ViewRatio
       [''Horizontal ViewSizeDimensionRatioModel'', ''Vertical ViewSizeDimensionRatioModel''] by_axis"

definition feature_AddAttr :: "feature_model \<Rightarrow> view list \<Rightarrow> attribute \<Rightarrow> feature_model option" where
  "feature_AddAttr m vs a =
     do { CHECK (ct_index (attr_type a) < length (fm_property_to_counter m));
          value \<leftarrow> Feature_ValueAttr (fm_feature m) vs a;
          i \<leftarrow> vec_at (fm_property_to_counter m) (ct_index (attr_type a));
          c \<leftarrow> vec_at (fm_counters m) i;
          Some (m\<lparr>fm_counters := (fm_counters m)[i := counter_Add c value 1]\<rparr>) }"

definition feature_AttrProb :: "feature_model \<Rightarrow> view list \<Rightarrow> attribute \<Rightarrow> real option" where
  "feature_AttrProb m vs a =
     do { value \<leftarrow> Feature_ValueAttr (fm_feature m) vs a;
          i \<leftarrow> vec_at (fm_property_to_counter m) (ct_index (attr_type a));
          c \<leftarrow> vec_at (fm_counters m) i;
          smoothed_prob c value }"

datatype constraint_model = FeatureModel feature_model | ConstraintSizeModel

fun constraint_model_prob :: "constraint_model \<Rightarrow> view list \<Rightarrow> attribute \<Rightarrow> real option" where
  "constraint_model_prob (FeatureModel m) vs a = feature_AttrProb m vs a"
| "constraint_model_prob ConstraintSizeModel vs a = size_AttrProb vs a"

fun constraint_model_AddAttr :: "constraint_model \<Rightarrow> view list \<Rightarrow> attribute \<Rightarrow> constraint_model option" where
  "constraint_model_AddAttr (FeatureModel m) vs a = map_option FeatureModel (feature_AddAttr m vs a)"
| "constraint_model_AddAttr ConstraintSizeModel vs a = Some ConstraintSizeModel"

type_synonym constraint_wrapper = "(constraint_model \<times> real) list"

definition ViewSizeModelWrapper_new :: constraint_wrapper where
  "ViewSizeModelWrapper_new = [(FeatureModel GetViewSizeDimensionRatioModel, 1)]"

definition ConstraintModelWrapper_new :: constraint_wrapper where
  "ConstraintModelWrapper_new =
     [(FeatureModel GetOrientationModel, 2), (FeatureModel GetMarginModel, 1), (FeatureModel GetTypeModel, 1),
      (FeatureModel GetDistanceModel, 1), (FeatureModel GetIntersectionModel, 1),
      (FeatureModel GetViewSizeDimensionRatioModel, 2), (ConstraintSizeModel, 1)]"

definition constraint_AttrProb :: "constraint_wrapper \<Rightarrow> view list \<Rightarrow> attribute \<Rightarrow> real option" where
  "constraint_AttrProb w vs a =
     fold_opt (\<lambda>res mw. map_option (\<lambda>x. res + x) (weighted_log (constraint_model_prob (fst mw) vs a) (snd mw))) 0 w"

definition constraint_AddAttr :: "constraint_wrapper \<Rightarrow> view list \<Rightarrow> attribute \<Rightarrow> constraint_wrapper option" where
  "constraint_AddAttr w vs a =
     map_opt (\<lambda>mw. map_option (\<lambda>m. (m, snd mw)) (constraint_model_AddAttr (fst mw) vs a)) w"

section \<open>Training\<close>

text \<open>The loops over the views of the collected apps: both constraints of every view are added.\<close>

definition train_view :: "view list \<Rightarrow> constraint_wrapper \<Rightarrow> view \<Rightarrow> constraint_wrapper option" where
  "train_view vs w v =
     (if is_content_frame v then Some w
      else do { h \<leftarrow> view_attributes v HORIZONTAL;
                w1 \<leftarrow> constraint_AddAttr w vs h;
                x \<leftarrow> view_attributes v VERTICAL;
                constraint_AddAttr w1 vs x })"

definition train_app :: "constraint_wrapper \<Rightarrow> app \<Rightarrow> constraint_wrapper option" where
  "train_app w a =
     (if app_views a = [] then Some w else fold_opt (train_view (app_views a)) w (app_views a))"

definition Train_apps :: "constraint_wrapper \<Rightarrow> app list \<Rightarrow> constraint_wrapper option" where
  "Train_apps w as = fold_opt train_app w as"

section \<open>Probabilities\<close>

text \<open>A counter in use: well formed, with positive counts and at least one value.\<close>

definition counter_valid :: "'v value_counter \<Rightarrow> bool" where
  "counter_valid c \<longleftrightarrow> counter_wf c \<and> (\<forall>v \<in> counter_seen c. 1 \<le> GetCount c v)"

definition counter_used :: "'v value_counter \<Rightarrow> bool" where
  "counter_used c \<longleftrightarrow> counter_valid c \<and> counter_seen c \<noteq> {}"

lemma counter_valid_new: "counter_valid (ValueCounter_new n)"
  by (simp add: counter_valid_def counter_wf_def counter_seen_def ValueCounter_new_def)

lemma counter_valid_Add: "counter_valid c \<Longrightarrow> counter_used (counter_Add c v 1)"
  using vc.count_positive_adds [of c "[(v, 1)]"]
  by (simp add: counter_used_def counter_valid_def vc.ok_add vc.seen_add)

lemma smoothed_prob_vc:
  assumes "counter_used c"
  shows "smoothed_prob c v = Some (vc.smoothed c v)"
proof -
  have "counter_wf c" "\<forall>w \<in> counter_seen c. 1 \<le> GetCount c w" "counter_seen c \<noteq> {}"
    using assms by (simp_all add: counter_used_def counter_valid_def)
  from vc.denominator [OF this] have "0 < real (UniqueValues c) + real_of_int (TotalCount c)" by linarith
  then have "0 < real_of_int (int (UniqueValues c) + TotalCount c)" by simp
  then have "int (UniqueValues c) + TotalCount c \<noteq> 0" by linarith
  then show ?thesis by (simp add: smoothed_prob_def vc.smoothed_def)
qed

lemma smoothed_prob_range:
  assumes "counter_used c"
  shows "\<exists>p. smoothed_prob c v = Some p \<and> 0 < p \<and> p \<le> 1"
  using vc.smoothed_distribution(2,3) [of c] assms
  by (auto simp: smoothed_prob_vc counter_used_def counter_valid_def)

text \<open>
  C33. The smoothed frequencies of a used counter are a distribution over the values it has seen:
  they are in (0, 1], every other value has a positive probability too, and they add up to one.
\<close>

theorem smoothed_prob_distribution:
  assumes "counter_used c"
  shows "(\<Sum>v \<in> counter_seen c. the (smoothed_prob c v)) = 1 \<and>
    (\<forall>v. \<exists>p. smoothed_prob c v = Some p \<and> 0 < p \<and> p \<le> 1)"
proof -
  have "(\<Sum>v \<in> counter_seen c. vc.smoothed c v) = 1"
    using vc.smoothed_distribution(1) [of c] assms by (simp add: counter_used_def counter_valid_def)
  then show ?thesis using smoothed_prob_range [OF assms] smoothed_prob_vc [OF assms] by simp
qed

lemma smoothed_prob_distribution_witness:
  "\<exists>p. smoothed_prob (counter_Add (ValueCounter_new ''margins'') (16 :: real) 1) 24 = Some p \<and> 0 < p \<and> p \<le> 1"
  using smoothed_prob_distribution [OF counter_valid_Add [OF counter_valid_new [of "''margins''"]], of "16 :: real"]
  by blast

section \<open>Training\<close>

definition views_proper :: "view list \<Rightarrow> bool" where
  "views_proper vs \<longleftrightarrow> (\<forall>v \<in> set vs. xleft v \<le> xright v \<and> ytop v \<le> ybottom v)"

lemma ClosestPoint_returns: "xl \<le> xr \<Longrightarrow> yl \<le> yr \<Longrightarrow> \<exists>p. ClosestPoint xl xr yl yr = Some p"
  by (auto simp: ClosestPoint_def)

lemma LineTo_returns:
  assumes "xleft u \<le> xright u" "ytop u \<le> ybottom u" "xleft v \<le> xright v" "ytop v \<le> ybottom v"
    and "IsRelationalAnchor t"
  shows "\<exists>s. LineTo u v t = Some s"
  using assms(5) ClosestPoint_returns [OF assms(1,3)] ClosestPoint_returns [OF assms(2,4)]
  by (cases t) (auto simp: hor_line_def ver_line_def bind_Some_iff)

lemma feature_fn_returns:
  assumes "xleft u \<le> xright u" "ytop u \<le> ybottom u" "xleft v \<le> xright v" "ytop v \<le> ybottom v"
    and "IsRelationalAnchor t \<or> feature_unary f" "ConstraintTypeToOrientation t = Some oi"
  shows "\<exists>x. feature_fn f u v m t sz vs = Some x"
  using assms(5,6) LineTo_returns [OF assms(1-4), of t]
  by (cases f) (auto simp: relation_angle_def relation_distance_def relation_intersections_def)

lemma split_center_types:
  assumes "\<not> IsRelationalAnchor t" "ConstraintTypeToOrientation t = Some oi"
  obtains ts te where "split_center t = Some (ts, te)" "IsRelationalAnchor ts" "IsRelationalAnchor te"
    "ConstraintTypeToOrientation ts = Some oi" "ConstraintTypeToOrientation te = Some oi"
  using assms by (cases t) simp_all

lemma Feature_ValueAttr_returns:
  assumes "views_proper vs" "i < length vs" "attribute_ok (length vs) i oi a"
  shows "\<exists>x. Feature_ValueAttr f vs a = Some x"
proof -
  have src: "attr_src a = i" and oi: "ConstraintTypeToOrientation (attr_type a) = Some oi"
    and tgt: "tgt_primary a < length vs"
    using assms(3) by (simp_all add: attribute_ok_def)
  have proper: "xleft (vs ! k) \<le> xright (vs ! k)" "ytop (vs ! k) \<le> ybottom (vs ! k)" if "k < length vs" for k
    using assms(1) that by (auto simp: views_proper_def)
  note fn = feature_fn_returns [OF proper [OF assms(2)]]
  show ?thesis
  proof (cases "IsRelationalAnchor (attr_type a) \<or> feature_unary f")
    case True
    from fn [OF proper [OF tgt] this oi, of "real_of_int (value_primary a)" "attr_view_size a" vs] True
    show ?thesis using assms(2) src tgt by (auto simp: Feature_ValueAttr_def)
  next
    case False
    with assms(3) obtain j where j: "tgt_secondary a = Some j" "j < length vs"
      by (auto simp: attribute_ok_def split: option.splits)
    obtain ts te where sp: "split_center (attr_type a) = Some (ts, te)" "IsRelationalAnchor ts"
        "IsRelationalAnchor te" "ConstraintTypeToOrientation ts = Some oi" "ConstraintTypeToOrientation te = Some oi"
      using split_center_types [of "attr_type a" oi] False oi by metis
    obtain x y where
      "feature_fn f (vs ! i) (vs ! tgt_primary a) (real_of_int (value_primary a)) ts (attr_view_size a) vs = Some x"
      "feature_fn f (vs ! i) (vs ! j) (real_of_int (value_secondary a)) te (attr_view_size a) vs = Some y"
      using fn [OF proper [OF tgt] _ sp(4)] fn [OF proper [OF j(2)] _ sp(5)] sp(2,3) by blast
    with False j sp(1) assms(2) src tgt show ?thesis by (simp add: Feature_ValueAttr_def)
  qed
qed

lemma ct_index_lt: "ConstraintTypeToOrientation t = Some oi \<Longrightarrow> ct_index t < 16"
  by (cases t) simp_all

lemma Attribute_size_returns:
  assumes "attribute_ok (length vs) i oi a"
  shows "\<exists>n. Attribute_size vs a = Some n"
  using assms by (rule ok_targets) (auto simp: Attribute_size_def IsCenterAnchor_def Let_def)

definition feature_model_ok :: "feature_model \<Rightarrow> bool" where
  "feature_model_ok m \<longleftrightarrow> length (fm_property_to_counter m) = 16 \<and>
     (\<forall>i \<in> set (fm_property_to_counter m). i < length (fm_counters m)) \<and>
     (\<forall>c \<in> set (fm_counters m). counter_valid c)"

definition feature_total :: "feature_model \<Rightarrow> int" where
  "feature_total m = sum_list (map TotalCount (fm_counters m))"

lemma sum_list_update_int:
  "i < length xs \<Longrightarrow> sum_list (xs[i := x]) = sum_list xs + x - (xs ! i :: int)"
  by (induction xs arbitrary: i) (auto split: nat.splits)

lemma feature_counter:
  assumes "feature_model_ok m" "ConstraintTypeToOrientation t = Some oi"
  obtains k where "vec_at (fm_property_to_counter m) (ct_index t) = Some k" "k < length (fm_counters m)"
proof -
  have "ct_index t < length (fm_property_to_counter m)"
    using assms ct_index_lt by (simp add: feature_model_ok_def)
  with assms(1) that show thesis by (auto simp: feature_model_ok_def)
qed

text \<open>
  What training on the constraints \<open>cs\<close>, each with the views it refers to, does to a model: every
  counter counts every value as often as a constraint of its types has it.
\<close>

definition counts_value :: "feature_model \<Rightarrow> nat \<Rightarrow> real \<times> real \<Rightarrow> view list \<times> attribute \<Rightarrow> bool" where
  "counts_value m k x c \<longleftrightarrow> vec_at (fm_property_to_counter m) (ct_index (attr_type (snd c))) = Some k \<and>
     Feature_ValueAttr (fm_feature m) (fst c) (snd c) = Some x"

definition feature_counted :: "(view list \<times> attribute) list \<Rightarrow> feature_model \<Rightarrow> feature_model \<Rightarrow> bool" where
  "feature_counted cs m m' \<longleftrightarrow> fm_feature m' = fm_feature m \<and>
     fm_property_to_counter m' = fm_property_to_counter m \<and> length (fm_counters m') = length (fm_counters m) \<and>
     (\<forall>k < length (fm_counters m). \<forall>x. GetCount (fm_counters m' ! k) x =
        GetCount (fm_counters m ! k) x + int (length (filter (counts_value m k x) cs))) \<and>
     feature_total m' = feature_total m + int (length cs)"

lemma feature_counted_refl: "feature_counted [] m m"
  by (simp add: feature_counted_def)

lemma feature_counted_trans:
  assumes "feature_counted cs m n" "feature_counted ds n p"
  shows "feature_counted (cs @ ds) m p"
proof -
  have "counts_value n k x = counts_value m k x" for k x
    using assms(1) by (intro ext) (simp add: feature_counted_def counts_value_def)
  with assms show ?thesis by (simp add: feature_counted_def)
qed

lemma feature_AddAttr_result:
  assumes "feature_model_ok m" "views_proper vs" "i < length vs" "attribute_ok (length vs) i oi a"
  shows "\<exists>m'. feature_AddAttr m vs a = Some m' \<and> feature_model_ok m' \<and> feature_counted [(vs, a)] m m'"
proof -
  have oi: "ConstraintTypeToOrientation (attr_type a) = Some oi" using assms(4) by (simp add: attribute_ok_def)
  obtain x where x: "Feature_ValueAttr (fm_feature m) vs a = Some x"
    using Feature_ValueAttr_returns [OF assms(2-4)] by blast
  obtain k where k: "vec_at (fm_property_to_counter m) (ct_index (attr_type a)) = Some k" "k < length (fm_counters m)"
    using feature_counter [OF assms(1) oi] by blast
  let ?c = "counter_Add (fm_counters m ! k) x 1"
  have valid: "\<forall>c \<in> set (fm_counters m). counter_valid c" using assms(1) by (simp add: feature_model_ok_def)
  then have used: "counter_used ?c" using k(2) by (intro counter_valid_Add) simp
  let ?m = "m\<lparr>fm_counters := (fm_counters m)[k := ?c]\<rparr>"
  have "feature_AddAttr m vs a = Some ?m"
    using k x by (simp add: feature_AddAttr_def vec_at_Some)
  moreover have "feature_model_ok ?m"
    using assms(1) used by (auto simp: feature_model_ok_def counter_used_def
        dest!: set_update_subset_insert [THEN subsetD])
  moreover have "feature_total ?m = feature_total m + 1"
    using k(2) by (simp add: feature_total_def map_update sum_list_update_int TotalCount_def counter_Add_def)
  moreover have "GetCount (fm_counters ?m ! l) y = GetCount (fm_counters m ! l) y + int (length (filter (counts_value m l y) [(vs, a)]))"
    if "l < length (fm_counters m)" for l y
  proof -
    have "counter_wf (fm_counters m ! k)" using valid k(2) by (simp add: counter_valid_def)
    then show ?thesis using k x that by (auto simp: counts_value_def nth_list_update vc.count_add)
  qed
  then have "feature_counted [(vs, a)] m ?m" using calculation(3) by (simp add: feature_counted_def)
  ultimately show ?thesis by blast
qed

text \<open>What the wrappers promise: structure, counts and, once every counter is used, an answer.\<close>

definition feature_models :: "constraint_wrapper \<Rightarrow> feature_model list" where
  "feature_models w = concat (map (\<lambda>mw. case fst mw of FeatureModel m \<Rightarrow> [m] | ConstraintSizeModel \<Rightarrow> []) w)"

definition wrapper_ok :: "constraint_wrapper \<Rightarrow> bool" where
  "wrapper_ok w \<longleftrightarrow> (\<forall>m \<in> set (feature_models w). feature_model_ok m) \<and> (\<forall>mw \<in> set w. 0 \<le> snd mw)"

definition wrapper_trained :: "constraint_wrapper \<Rightarrow> bool" where
  "wrapper_trained w \<longleftrightarrow> wrapper_ok w \<and>
     (\<forall>m \<in> set (feature_models w). \<forall>c \<in> set (fm_counters m). counter_used c)"

lemma feature_models_Cons [simp]:
  "feature_models [] = []"
  "feature_models ((FeatureModel m, x) # w) = m # feature_models w"
  "feature_models ((ConstraintSizeModel, x) # w) = feature_models w"
  by (simp_all add: feature_models_def)

definition wrapper_counted :: "(view list \<times> attribute) list \<Rightarrow> constraint_wrapper \<Rightarrow> constraint_wrapper \<Rightarrow> bool" where
  "wrapper_counted cs w w' \<longleftrightarrow> wrapper_ok w' \<and> map snd w' = map snd w \<and>
     list_all2 (feature_counted cs) (feature_models w) (feature_models w')"

lemma wrapper_counted_trans: "wrapper_counted cs u v \<Longrightarrow> wrapper_counted ds v w \<Longrightarrow> wrapper_counted (cs @ ds) u w"
  unfolding wrapper_counted_def
  using list_all2_trans [of "feature_counted cs" "feature_counted ds" "feature_counted (cs @ ds)"] feature_counted_trans by auto

lemma wrapper_counted_refl: "wrapper_ok w \<Longrightarrow> wrapper_counted [] w w"
  by (simp add: wrapper_counted_def list_all2_refl feature_counted_refl)

lemma constraint_AddAttr_result:
  assumes "views_proper vs" "i < length vs" "attribute_ok (length vs) i oi a"
  shows "wrapper_ok w \<Longrightarrow> \<exists>w'. constraint_AddAttr w vs a = Some w' \<and> wrapper_counted [(vs, a)] w w'"
proof (induction w)
  case Nil
  then show ?case by (simp add: constraint_AddAttr_def wrapper_counted_def)
next
  case (Cons mw w)
  obtain m x where mw: "mw = (m, x)" by (cases mw)
  have "wrapper_ok w" using Cons.prems mw by (cases m) (simp_all add: wrapper_ok_def)
  then obtain w' where w': "constraint_AddAttr w vs a = Some w'" "wrapper_counted [(vs, a)] w w'" using Cons.IH by blast
  show ?case
  proof (cases m)
    case (FeatureModel f)
    then have "feature_model_ok f" using Cons.prems mw by (simp add: wrapper_ok_def)
    from feature_AddAttr_result [OF this assms] obtain f' where
      "feature_AddAttr f vs a = Some f'" "feature_model_ok f'" "feature_counted [(vs, a)] f f'" by blast
    with w' mw FeatureModel Cons.prems show ?thesis
      by (auto simp: constraint_AddAttr_def wrapper_counted_def wrapper_ok_def)
  next
    case ConstraintSizeModel
    with w' mw Cons.prems show ?thesis
      by (auto simp: constraint_AddAttr_def wrapper_counted_def wrapper_ok_def)
  qed
qed

text \<open>An app that can be trained on: well formed, with both constraints for every view.\<close>

definition trainable :: "app \<Rightarrow> bool" where
  "trainable a \<longleftrightarrow> app_wf a \<and> views_proper (app_views a) \<and>
     (\<forall>v \<in> set (app_views a). is_content_frame v \<or> (\<forall>oi. view_attributes v oi \<noteq> None))"

text \<open>The constraints of the views but the content frame, with the views of the app.\<close>

definition constraints_of :: "view list \<Rightarrow> view list \<Rightarrow> (view list \<times> attribute) list" where
  "constraints_of vs ws = concat (map (\<lambda>v. if is_content_frame v then []
     else concat (map (\<lambda>oi. case view_attributes v oi of None \<Rightarrow> [] | Some a \<Rightarrow> [(vs, a)]) [HORIZONTAL, VERTICAL])) ws)"

definition app_constraints :: "app \<Rightarrow> (view list \<times> attribute) list" where
  "app_constraints a = constraints_of (app_views a) (app_views a)"

lemma train_view_result:
  assumes "trainable a" "v \<in> set (app_views a)" "wrapper_ok w"
  shows "\<exists>w'. train_view (app_views a) w v = Some w' \<and> wrapper_counted (constraints_of (app_views a) [v]) w w'"
proof (cases "is_content_frame v")
  case True
  then show ?thesis using assms(3) by (simp add: train_view_def wrapper_counted_refl constraints_of_def)
next
  case False
  obtain i where i: "i < length (app_views a)" "app_views a ! i = v" using assms(2) by (auto simp: in_set_conv_nth)
  obtain h x where at: "view_attributes v HORIZONTAL = Some h" "view_attributes v VERTICAL = Some x"
    using assms(1,2) False unfolding trainable_def by blast
  have ok: "attribute_ok (length (app_views a)) i HORIZONTAL h" "attribute_ok (length (app_views a)) i VERTICAL x"
    using assms(1) i at app_wf_attribute unfolding trainable_def by blast+
  have proper: "views_proper (app_views a)" using assms(1) by (simp add: trainable_def)
  obtain w1 where w1: "constraint_AddAttr w (app_views a) h = Some w1" "wrapper_counted [(app_views a, h)] w w1"
    using constraint_AddAttr_result [OF proper i(1) ok(1) assms(3)] by blast
  then have "wrapper_ok w1" by (simp add: wrapper_counted_def)
  then obtain w2 where w2: "constraint_AddAttr w1 (app_views a) x = Some w2" "wrapper_counted [(app_views a, x)] w1 w2"
    using constraint_AddAttr_result [OF proper i(1) ok(2)] by blast
  have "wrapper_counted (constraints_of (app_views a) [v]) w w2"
    using wrapper_counted_trans [OF w1(2) w2(2)] False at by (simp add: constraints_of_def)
  with False at w1(1) w2(1) show ?thesis by (simp add: train_view_def)
qed

lemma train_views_result:
  assumes "trainable a" "set vs \<subseteq> set (app_views a)" "wrapper_ok w"
  shows "\<exists>w'. fold_opt (train_view (app_views a)) w vs = Some w' \<and> wrapper_counted (constraints_of (app_views a) vs) w w'"
  using assms(2,3)
proof (induction vs arbitrary: w)
  case (Cons v vs)
  from train_view_result [OF assms(1), of v w] Cons.prems obtain w1 where
    w1: "train_view (app_views a) w v = Some w1" "wrapper_counted (constraints_of (app_views a) [v]) w w1" by auto
  then have "wrapper_ok w1" by (simp add: wrapper_counted_def)
  with Cons obtain w2 where w2: "fold_opt (train_view (app_views a)) w1 vs = Some w2"
    "wrapper_counted (constraints_of (app_views a) vs) w1 w2" by auto
  have "constraints_of (app_views a) (v # vs) = constraints_of (app_views a) [v] @ constraints_of (app_views a) vs"
    by (simp add: constraints_of_def)
  with w1 w2(1) wrapper_counted_trans [OF w1(2) w2(2)] show ?case by simp
qed (simp add: wrapper_counted_refl constraints_of_def)

lemma train_app_fold: "train_app w a = fold_opt (train_view (app_views a)) w (app_views a)"
  by (simp add: train_app_def)

lemma Train_apps_result:
  assumes "\<forall>a \<in> set as. trainable a" "wrapper_ok w"
  shows "\<exists>w'. Train_apps w as = Some w' \<and> wrapper_counted (concat (map app_constraints as)) w w'"
  using assms
proof (induction as arbitrary: w)
  case (Cons a as)
  obtain w1 where w1: "train_app w a = Some w1" "wrapper_counted (app_constraints a) w w1"
    using train_views_result [of a "app_views a" w] Cons.prems
    by (auto simp: train_app_fold app_constraints_def)
  then have "wrapper_ok w1" by (simp add: wrapper_counted_def)
  with Cons obtain w2 where w2: "Train_apps w1 as = Some w2" "wrapper_counted (concat (map app_constraints as)) w1 w2"
    by auto
  with w1 wrapper_counted_trans [OF w1(2) w2(2)] show ?case by (auto simp: Train_apps_def)
qed (simp add: Train_apps_def wrapper_counted_refl)

text \<open>
  C31. Training on well-formed apps whose views all have their constraints returns and keeps the
  models well formed with their weights, features and tables. In every feature model the count of
  every value in every counter grows by the number of constraints, horizontal and vertical ones of
  all views but the content frames, whose type belongs to the counter and whose feature has this
  value: each constraint is counted exactly once, under its own value.
\<close>

theorem Train_apps_counts:
  assumes "\<forall>a \<in> set as. trainable a" "wrapper_ok w"
  shows "\<exists>w'. Train_apps w as = Some w' \<and> wrapper_ok w' \<and> map snd w' = map snd w \<and>
    list_all2 (feature_counted (concat (map app_constraints as))) (feature_models w) (feature_models w')"
  using Train_apps_result [OF assms] by (auto simp: wrapper_counted_def)

section \<open>Scores\<close>

lemma feature_AttrProb_result:
  assumes "feature_model_ok m" "\<forall>c \<in> set (fm_counters m). counter_used c"
    and "views_proper vs" "i < length vs" "attribute_ok (length vs) i oi a"
  shows "\<exists>p. feature_AttrProb m vs a = Some p \<and> 0 < p \<and> p \<le> 1"
proof -
  have oi: "ConstraintTypeToOrientation (attr_type a) = Some oi" using assms(5) by (simp add: attribute_ok_def)
  obtain x where x: "Feature_ValueAttr (fm_feature m) vs a = Some x"
    using Feature_ValueAttr_returns [OF assms(3-5)] by blast
  obtain k where k: "vec_at (fm_property_to_counter m) (ct_index (attr_type a)) = Some k" "k < length (fm_counters m)"
    using feature_counter [OF assms(1) oi] by blast
  then have "counter_used (fm_counters m ! k)" using assms(2) by simp
  from smoothed_prob_range [OF this, of x] x k show ?thesis by (simp add: feature_AttrProb_def)
qed

lemma size_AttrProb_result:
  assumes "attribute_ok (length vs) i oi a"
  shows "\<exists>p. size_AttrProb vs a = Some p \<and> 0 < p \<and> p \<le> 1"
proof -
  obtain n where n: "Attribute_size vs a = Some n" using Attribute_size_returns [OF assms] by blast
  have "\<forall>p \<in> set size_probs. 0 < p \<and> p \<le> 1" by (simp add: size_probs_def)
  then have "0 < size_probs ! n \<and> size_probs ! n \<le> 1" if "n < length size_probs" using that by simp
  with n show ?thesis by (simp add: size_AttrProb_def)
qed

lemma weighted_log_nonpos:
  "p = Some x \<Longrightarrow> 0 < x \<Longrightarrow> x \<le> 1 \<Longrightarrow> 0 \<le> w \<Longrightarrow> \<exists>r. weighted_log p w = Some r \<and> r \<le> 0"
  by (simp add: weighted_log_def mult_nonpos_nonneg)

lemma constraint_AttrProb_fold:
  assumes "\<forall>mw \<in> set w. \<exists>p. constraint_model_prob (fst mw) vs a = Some p \<and> 0 < p \<and> p \<le> 1"
    and "\<forall>mw \<in> set w. 0 \<le> snd mw" "x \<le> 0"
  shows "\<exists>r. fold_opt (\<lambda>res mw. map_option (\<lambda>x. res + x) (weighted_log (constraint_model_prob (fst mw) vs a) (snd mw)))
    x w = Some r \<and> r \<le> 0"
  using assms
proof (induction w arbitrary: x)
  case (Cons mw w)
  then obtain p where "constraint_model_prob (fst mw) vs a = Some p" "0 < p" "p \<le> 1" by auto
  with Cons.prems(2) obtain r where r: "weighted_log (constraint_model_prob (fst mw) vs a) (snd mw) = Some r" "r \<le> 0"
    using weighted_log_nonpos by (metis list.set_intros(1))
  with Cons.IH [of "x + r"] Cons.prems show ?case by simp
qed simp

lemma constraint_AttrProb_result:
  assumes "wrapper_trained w" "views_proper vs" "i < length vs" "attribute_ok (length vs) i oi a"
  shows "\<exists>r. constraint_AttrProb w vs a = Some r \<and> r \<le> 0"
  unfolding constraint_AttrProb_def
proof (rule constraint_AttrProb_fold)
  show "\<forall>mw \<in> set w. \<exists>p. constraint_model_prob (fst mw) vs a = Some p \<and> 0 < p \<and> p \<le> 1"
  proof
    fix mw assume mw: "mw \<in> set w"
    show "\<exists>p. constraint_model_prob (fst mw) vs a = Some p \<and> 0 < p \<and> p \<le> 1"
    proof (cases "fst mw")
      case (FeatureModel m)
      with mw have "m \<in> set (feature_models w)" by (force simp: feature_models_def)
      then have "feature_model_ok m" "\<forall>c \<in> set (fm_counters m). counter_used c"
        using assms(1) by (simp_all add: wrapper_trained_def wrapper_ok_def)
      from feature_AttrProb_result [OF this assms(2-4)] FeatureModel show ?thesis by simp
    next
      case ConstraintSizeModel
      with size_AttrProb_result [OF assms(4)] show ?thesis by simp
    qed
  qed
  show "\<forall>mw \<in> set w. 0 \<le> snd mw" using assms(1) by (simp add: wrapper_trained_def wrapper_ok_def)
qed simp

text \<open>
  C32. A trained wrapper, every counter of which has been used, answers for every well-formed
  constraint of views with non-negative sizes, with a score of at most 0 (the logarithm of a
  weighted product of probabilities).
\<close>

theorem constraint_AttrProb_score:
  assumes "wrapper_trained w" "views_proper vs" "i < length vs" "attribute_ok (length vs) i oi a"
  shows "\<exists>r. constraint_AttrProb w vs a = Some r \<and> r \<le> 0"
  using assms by (rule constraint_AttrProb_result)

text \<open>Training \<^verbatim>\<open>ConstraintModelWrapper\<close> on one app; a small wrapper that is trained.\<close>

lemma ConstraintModelWrapper_ok: "wrapper_ok ConstraintModelWrapper_new"
proof -
  have "feature_model_ok (CountingFeatureModel f names table)"
    if "length table = 16" "\<forall>i \<in> set table. i < length names" for f names table
    using that counter_valid_new by (auto simp: feature_model_ok_def CountingFeatureModel_def)
  then show ?thesis
    by (auto simp: wrapper_ok_def ConstraintModelWrapper_new_def GetOrientationModel_def GetMarginModel_def
        GetTypeModel_def GetDistanceModel_def GetIntersectionModel_def GetViewSizeDimensionRatioModel_def
        margin_counter_names_def by_type_def by_axis_and_kind_def by_axis_def)
qed

lemma all_orientations: "(\<forall>oi. P oi) \<longleftrightarrow> P HORIZONTAL \<and> P VERTICAL"
  by (metis orientation.exhaust)

lemma sample_app_trainable: "trainable sample_app"
  using sample_app_wf
  by (auto simp: trainable_def views_proper_def sample_app_def View_make_def is_content_frame_def
      all_orientations)

text \<open>The horizontal constraint of type \<open>L2L\<close> in two copies of the sample app.\<close>

lemma sample_counts:
  "length (filter (counts_value GetTypeModel 0 (real (ct_index L2L), - 1))
     (concat (map app_constraints [sample_app, sample_app]))) = 2"
  by (simp add: app_constraints_def constraints_of_def sample_app_def View_make_def is_content_frame_def counts_value_def
      GetTypeModel_def CountingFeatureModel_def Feature_ValueAttr_def sample_attribute_def vec_at_def)

lemma Train_apps_counts_witness:
  "\<exists>w m. Train_apps ConstraintModelWrapper_new [sample_app, sample_app] = Some w \<and> wrapper_ok w \<and>
     m \<in> set (feature_models w) \<and> fm_feature m = F_Type \<and> GetCount (fm_counters m ! 0) (real (ct_index L2L), - 1) = 2"
proof -
  let ?cs = "concat (map app_constraints [sample_app, sample_app])"
  obtain w where w: "Train_apps ConstraintModelWrapper_new [sample_app, sample_app] = Some w" "wrapper_ok w"
    "list_all2 (feature_counted ?cs) (feature_models ConstraintModelWrapper_new) (feature_models w)"
    using Train_apps_counts [OF _ ConstraintModelWrapper_ok, of "[sample_app, sample_app]"] sample_app_trainable by auto
  have new: "2 < length (feature_models ConstraintModelWrapper_new)" "feature_models ConstraintModelWrapper_new ! 2 = GetTypeModel"
    by (simp_all add: ConstraintModelWrapper_new_def)
  from list_all2_nthD [OF w(3) new(1)] have c: "feature_counted ?cs GetTypeModel (feature_models w ! 2)" by (simp only: new(2))
  have "0 < length (fm_counters GetTypeModel)" "GetCount (fm_counters GetTypeModel ! 0) x = 0" "fm_feature GetTypeModel = F_Type" for x
    by (simp_all add: GetTypeModel_def CountingFeatureModel_def GetCount_def ValueCounter_new_def FindWithDefault_def)
  then have "fm_feature (feature_models w ! 2) = F_Type"
    "GetCount (fm_counters (feature_models w ! 2) ! 0) (real (ct_index L2L), - 1) = 2"
    using c sample_counts unfolding feature_counted_def by (metis of_nat_numeral add_0)+
  moreover have "feature_models w ! 2 \<in> set (feature_models w)"
    using new(1) list_all2_lengthD [OF w(3)] by simp
  ultimately show ?thesis using w(1,2) by blast
qed

definition sample_wrapper :: constraint_wrapper where
  "sample_wrapper =
     [(FeatureModel (GetTypeModel\<lparr>fm_counters := [counter_Add (ValueCounter_new ''All Types'') (0, - 1) 1]\<rparr>), 1),
      (ConstraintSizeModel, 1)]"

lemma sample_wrapper_trained: "wrapper_trained sample_wrapper"
  using counter_valid_Add [OF counter_valid_new [of "''All Types''"], of "(0 :: real, - 1 :: real)"]
  by (auto simp: wrapper_trained_def wrapper_ok_def sample_wrapper_def feature_model_ok_def GetTypeModel_def
      CountingFeatureModel_def counter_used_def)

lemma constraint_AttrProb_score_witness:
  "\<exists>r. constraint_AttrProb sample_wrapper (app_views sample_app) (sample_attribute L2L 1 0 None 10) = Some r \<and> r \<le> 0"
proof (rule constraint_AttrProb_score [OF sample_wrapper_trained])
  show "views_proper (app_views sample_app)" using sample_app_trainable by (simp add: trainable_def)
  show "attribute_ok (length (app_views sample_app)) 1 HORIZONTAL (sample_attribute L2L 1 0 None 10)"
    by (simp add: attribute_ok_def sample_attribute_def sample_app_def)
qed (simp add: sample_app_def)

end
