(* ===== verification/Valid_Apps.thy ===== *)
theory Valid_Apps
  imports Prob_Models
begin

text \<open>
  The selection of the apps the models are trained on: \<^verbatim>\<open>ForEachValidApp\<close>
  (\<^verbatim>\<open>src/inferui/inferui/model/model.h\<close>) and \<^verbatim>\<open>ViewSizeModelWrapper::Train\<close>
  (\<^verbatim>\<open>constraint_model.cpp\<close>). The records of the input file are a list; the callback is the list
  of the apps it is called with.
\<close>

section \<open>The selection\<close>

record proto_app =
  pa_package_name :: string
  pa_screens :: "proto_screen list"

text \<open>The loop over the views that looks for a constraint that is circular.\<close>

fun find_circular :: "view list \<Rightarrow> orientation \<Rightarrow> nat list \<Rightarrow> bool option" where
  "find_circular vs oi [] = Some False"
| "find_circular vs oi (i # is) =
     do { v \<leftarrow> vec_at vs i;
          if is_content_frame v then find_circular vs oi is
          else do { a \<leftarrow> view_attributes v oi;
                    c \<leftarrow> IsCircularRelation vs oi i a;
                    if c then Some True else find_circular vs oi is } }"

fun find_match_parent :: "view list \<Rightarrow> bool option" where
  "find_match_parent [] = Some False"
| "find_match_parent (v # vs) =
     (if is_content_frame v then find_match_parent vs
      else do { h \<leftarrow> view_attributes v HORIZONTAL;
                if attr_view_size h = MATCH_PARENT then Some True
                else do { x \<leftarrow> view_attributes v VERTICAL;
                          if attr_view_size x = MATCH_PARENT then Some True else find_match_parent vs } })"

definition select_app ::
    "bool \<Rightarrow> string value_counter \<times> proto_app list \<Rightarrow> proto_app \<Rightarrow> (string value_counter \<times> proto_app list) option" where
  "select_app xml s app =
     do { CHECK (length (pa_screens app) > 0);
          screen \<leftarrow> vec_at (pa_screens app) 0;
          verdict \<leftarrow> ValidApp xml screen;
          let stats = counter_Add (fst s) (snd verdict) 1 in
          if \<not> fst verdict then Some (stats, snd s)
          else do {
            a \<leftarrow> App_of_screen xml screen True;
            if length (app_views a) = 1 then Some (counter_Add stats ''empty layout'' 1, snd s)
            else do {
              b \<leftarrow> InitializeAttributes xml a screen;
              ch \<leftarrow> find_circular (app_views b) HORIZONTAL [0..<length (app_views b)];
              circular \<leftarrow> (if ch then Some True
                           else find_circular (app_views b) VERTICAL [0..<length (app_views b)]);
              if circular then Some (counter_Add stats ''Circular relation'' 1, snd s)
              else do {
                mp \<leftarrow> find_match_parent (app_views b);
                if mp then Some (counter_Add stats ''depreceated match_parent constraints'' 1, snd s)
                else Some (stats, snd s @ [app]) } } } }"

definition ForEachValidApp :: "bool \<Rightarrow> proto_app list \<Rightarrow> (string value_counter \<times> proto_app list) option" where
  "ForEachValidApp xml apps = fold_opt (select_app xml) (ValueCounter_new [], []) apps"

section \<open>Training on the selection\<close>

text \<open>The reference app the callback builds; \<open>None\<close> inside when it has a single view.\<close>

definition reference_app :: "bool \<Rightarrow> proto_app \<Rightarrow> app option option" where
  "reference_app xml app =
     do { screen \<leftarrow> vec_at (pa_screens app) 0;
          a \<leftarrow> App_of_screen xml screen True;
          if length (app_views a) = 1 then Some None
          else do { b \<leftarrow> InitializeAttributes xml a screen; Some (Some b) } }"

definition train_proto :: "bool \<Rightarrow> constraint_wrapper \<Rightarrow> proto_app \<Rightarrow> constraint_wrapper option" where
  "train_proto xml w app =
     do { r \<leftarrow> reference_app xml app;
          case r of None \<Rightarrow> Some w | Some b \<Rightarrow> fold_opt (train_view (app_views b)) w (app_views b) }"

text \<open>
  \<^verbatim>\<open>ViewSizeModelWrapper::Train\<close>: the records of the data file, if it exists (\<open>None\<close>: it does not), and
  the flag \<^verbatim>\<open>scaling_factor\<close>.
\<close>

definition ViewSize_Train ::
    "real \<Rightarrow> bool \<Rightarrow> constraint_wrapper \<Rightarrow> proto_app list option \<Rightarrow> constraint_wrapper option" where
  "ViewSize_Train scaling_factor xml w data =
     do { apps \<leftarrow> data;
          CHECK (scaling_factor = 1);
          s \<leftarrow> ForEachValidApp xml apps;
          fold_opt (train_proto xml) w (snd s) }"

section \<open>Selected apps can be trained on\<close>

definition box :: "'a rectangle_scheme \<Rightarrow> int \<times> int \<times> int \<times> int" where
  "box v = (xleft v, xright v, ytop v, ybottom v)"

lemma box_proper:
  assumes "box v = box p"
  shows "(xleft v \<le> xright v \<and> ytop v \<le> ybottom v) \<longleftrightarrow> (xleft p \<le> xright p \<and> ytop p \<le> ybottom p)"
  using assms by (simp add: box_def)

text \<open>An app under construction from the views \<open>ps\<close>.\<close>

definition built_from :: "proto_view list \<Rightarrow> app \<Rightarrow> bool" where
  "built_from ps a \<longleftrightarrow>
     distinct (map view_id (app_views a)) \<and>
     (\<forall>i < length (app_views a). view_pos (app_views a ! i) = int i \<and>
        (\<exists>p \<in> set ps. view_id (app_views a ! i) = pv_seq_id p \<and> box (app_views a ! i) = box p) \<and>
        view_attributes (app_views a ! i) = Map.empty)"

lemma built_from_step:
  assumes "built_from ps a" "app_proto_step xml sc only a p = Some b" "pv_seq_id p \<notin> pv_seq_id ` set ps"
  shows "built_from (ps @ [p]) b"
proof -
  have "b = a \<or> (\<exists>m. b = AddView (a\<lparr>seq_id_to_pos := m\<rparr>) (View_of_proto p))"
    using assms(2) by (auto simp: app_proto_step_def bind_Some_iff split: if_splits)
  then show ?thesis
  proof (elim disjE exE)
    assume "b = a"
    with assms(1) show ?thesis by (fastforce simp: built_from_def)
  next
    fix m assume b: "b = AddView (a\<lparr>seq_id_to_pos := m\<rparr>) (View_of_proto p)"
    have old: "view_id v \<in> pv_seq_id ` set ps" if "v \<in> set (app_views a)" for v
      using that assms(1) by (fastforce simp: built_from_def in_set_conv_nth)
    have new: "view_id (View_of_proto p) = pv_seq_id p" "box (View_of_proto p) = box p"
      "view_attributes (View_of_proto p) = Map.empty"
      by (simp_all add: View_of_proto_def View_make_def box_def)
    have "box ((View_of_proto p)\<lparr>view_pos := k\<rparr>) = box p" for k using new(2) by (simp add: box_def)
    with assms(1,3) old new show ?thesis
      by (fastforce simp: built_from_def b AddView_def nth_append less_Suc_eq)
  qed
qed

lemma built_from_screen:
  assumes "distinct (map pv_seq_id (ps_views sc))" "App_of_screen xml sc only = Some a"
  shows "built_from (ps_views sc) a"
proof -
  let ?s = "\<lparr>seq_id_to_pos = replicate (length (ps_views sc)) 0, app_resizable = [], app_views = []\<rparr>"
  have steps: "distinct (map pv_seq_id ps) \<Longrightarrow> fold_opt (app_proto_step xml sc only) ?s ps = Some b \<Longrightarrow> built_from ps b"
    for ps b
  proof (induction ps arbitrary: b rule: rev_induct)
    case Nil
    then show ?case by (auto simp: built_from_def)
  next
    case (snoc p ps)
    then show ?case by (auto simp: fold_opt_append bind_Some_iff intro: built_from_step)
  qed
  from assms(2) obtain b where b: "fold_opt (app_proto_step xml sc only) ?s (ps_views sc) = Some b"
    "InitializeResizable xml b sc = Some a"
    by (auto simp: App_of_screen_def bind_Some_iff split: if_splits)
  then have "app_views a = app_views b" by (auto simp: InitializeResizable_def bind_Some_iff)
  with steps [OF assms(1) b(1)] show ?thesis by (simp add: built_from_def)
qed

lemma built_from_wf: "built_from ps a \<Longrightarrow> app_wf a"
  by (simp add: built_from_def app_wf_def)

text \<open>Reading the constraints moves no view.\<close>

lemma insert_attribute_boxes:
  "insert_attribute a i oi x = Some b \<Longrightarrow> map box (app_views b) = map box (app_views a)"
  by (auto simp: insert_attribute_def bind_Some_iff vec_at_Some box_def intro!: nth_equalityI
      simp: nth_list_update)

lemma initialize_view_boxes:
  assumes "initialize_view xml sc a i = Some b"
  shows "map box (app_views b) = map box (app_views a)"
proof -
  obtain v ref where v: "vec_at (app_views a) i = Some v" "vec_at_int (ps_views sc) (view_id v) = Some ref"
    using assms by (auto simp: initialize_view_def bind_Some_iff)
  show ?thesis
  proof (cases "is_content_frame v")
    case True
    then obtain p where "b = a\<lparr>app_views := (app_views a)[i := v\<lparr>view_padding := p\<rparr>]\<rparr>"
      using assms v by (auto simp: initialize_view_def bind_Some_iff)
    with v(1) show ?thesis by (auto simp: vec_at_Some box_def nth_list_update intro!: nth_equalityI)
  next
    case False
    then show ?thesis
      using assms v insert_attribute_boxes by (auto simp: initialize_view_def bind_Some_iff)
  qed
qed

lemma InitializeAttributes_boxes:
  assumes "InitializeAttributes xml a sc = Some b"
  shows "map box (app_views b) = map box (app_views a)"
proof -
  obtain a1 where a1: "InitializeResizable xml a sc = Some a1"
    "fold_opt (initialize_view xml sc) a1 [0..<length (app_views a1)] = Some b"
    using assms by (auto simp: InitializeAttributes_def bind_Some_iff)
  have "map box (app_views b) = map box (app_views a1)"
    by (rule fold_opt_inv [OF a1(2), where P = "\<lambda>c. map box (app_views c) = map box (app_views a1)"])
      (simp_all add: initialize_view_boxes)
  moreover have "app_views a1 = app_views a" using a1(1) by (auto simp: InitializeResizable_def bind_Some_iff)
  ultimately show ?thesis by simp
qed

lemma initialized_trainable:
  assumes "distinct (map pv_seq_id (ps_views sc))" "ValidApp xml sc = Some (True, why)"
    and "App_of_screen xml sc True = Some a" "InitializeAttributes xml a sc = Some b"
  shows "trainable b"
proof -
  note V = ValidApp_True [OF assms(2)]
  have bf: "built_from (ps_views sc) a" by (rule built_from_screen [OF assms(1,3)])
  note I = InitializeAttributes_result [OF built_from_wf [OF bf] V(5) assms(4)]
  have "xleft v \<le> xright v \<and> ytop v \<le> ybottom v" if "v \<in> set (app_views b)" for v
  proof -
    have "box v \<in> box ` set (app_views b)" using that by blast
    then have "box v \<in> set (map box (app_views a))" using InitializeAttributes_boxes [OF assms(4)] by (simp flip: set_map)
    then obtain p where p: "p \<in> set (ps_views sc)" "box v = box p"
      using bf by (fastforce simp: built_from_def in_set_conv_nth)
    then have "xleft p \<le> xright p \<and> ytop p \<le> ybottom p" using V(6) by (fastforce simp: NegativeViewSize_def list_ex_iff)
    with box_proper [OF p(2)] show ?thesis by simp
  qed
  then have "views_proper (app_views b)" by (simp add: views_proper_def)
  moreover have "is_content_frame v \<or> (\<forall>oi. view_attributes v oi \<noteq> None)" if "v \<in> set (app_views b)" for v
  proof -
    obtain i where "i < length (app_views b)" "v = app_views b ! i" using \<open>v \<in> set (app_views b)\<close> by (auto simp: in_set_conv_nth)
    with I show ?thesis by (fastforce simp: is_content_frame_def)
  qed
  ultimately show ?thesis using I by (simp add: trainable_def)
qed

text \<open>The content frame gets no constraint.\<close>

definition frames_bare :: "app \<Rightarrow> bool" where
  "frames_bare a \<longleftrightarrow> (\<forall>v \<in> set (app_views a). is_content_frame v \<longrightarrow> view_attributes v = Map.empty)"

lemma insert_attribute_bare:
  assumes "frames_bare a" "insert_attribute a i oi x = Some b" "\<not> is_content_frame (app_views a ! i)"
  shows "frames_bare b \<and> \<not> is_content_frame (app_views b ! i)"
proof -
  let ?v = "app_views a ! i"
  let ?w = "if view_attributes ?v oi = None then ?v\<lparr>view_attributes := (view_attributes ?v)(oi \<mapsto> x)\<rparr> else ?v"
  have i: "i < length (app_views a)" and b: "b = a\<lparr>app_views := (app_views a)[i := ?w]\<rparr>"
    using assms(2) by (auto simp: insert_attribute_def bind_Some_iff vec_at_Some)
  have "\<not> is_content_frame ?w" using assms(3) by (simp add: is_content_frame_def)
  with i assms(1) show ?thesis
    by (auto simp: frames_bare_def b dest!: set_update_subset_insert [THEN subsetD])
qed

lemma initialize_view_bare:
  assumes "frames_bare a" "initialize_view xml sc a i = Some b"
  shows "frames_bare b"
proof -
  obtain v ref where v: "vec_at (app_views a) i = Some v" "vec_at_int (ps_views sc) (view_id v) = Some ref"
    using assms(2) by (auto simp: initialize_view_def bind_Some_iff)
  show ?thesis
  proof (cases "is_content_frame v")
    case True
    then obtain p where b: "b = a\<lparr>app_views := (app_views a)[i := v\<lparr>view_padding := p\<rparr>]\<rparr>"
      using assms(2) v by (auto simp: initialize_view_def bind_Some_iff)
    have "view_attributes v = Map.empty" using True v(1) assms(1) by (auto simp: frames_bare_def vec_at_Some)
    with assms(1) show ?thesis
      by (auto simp: frames_bare_def b dest!: set_update_subset_insert [THEN subsetD])
  next
    case False
    then obtain h a1 w where "insert_attribute a i HORIZONTAL h = Some a1" "insert_attribute a1 i VERTICAL w = Some b"
      using assms(2) v by (auto simp: initialize_view_def bind_Some_iff)
    moreover have "\<not> is_content_frame (app_views a ! i)" using False v(1) by (simp add: vec_at_Some)
    ultimately show ?thesis using assms(1) insert_attribute_bare by blast
  qed
qed

lemma InitializeAttributes_bare:
  assumes "built_from ps a" "InitializeAttributes xml a sc = Some b"
  shows "frames_bare b"
proof -
  obtain a1 where a1: "InitializeResizable xml a sc = Some a1"
    "fold_opt (initialize_view xml sc) a1 [0..<length (app_views a1)] = Some b"
    using assms(2) by (auto simp: InitializeAttributes_def bind_Some_iff)
  have "app_views a1 = app_views a" using a1(1) by (auto simp: InitializeResizable_def bind_Some_iff)
  then have "frames_bare a1" using assms(1) by (auto simp: frames_bare_def built_from_def in_set_conv_nth)
  from fold_opt_inv [OF a1(2), of frames_bare, OF this] show ?thesis using initialize_view_bare by blast
qed

lemma find_circular_False:
  "find_circular vs oi is = Some False \<Longrightarrow> i \<in> set is \<Longrightarrow> \<not> is_content_frame (vs ! i) \<Longrightarrow>
     \<exists>a. view_attributes (vs ! i) oi = Some a \<and> IsCircularRelation vs oi i a = Some False"
proof (induction "is")
  case (Cons j js)
  then show ?case by (cases "i = j") (auto simp: bind_Some_iff vec_at_Some split: if_splits)
qed simp

text \<open>No view depends on itself, so the references are acyclic.\<close>

lemma not_circular_acyclic:
  assumes "app_wf b" "frames_bare b" "find_circular (app_views b) oi [0..<length (app_views b)] = Some False"
  shows "acyclic (edges_of (app_views b) oi)"
  unfolding acyclic_def
proof (intro allI notI)
  let ?vs = "app_views b"
  fix i assume "(i, i) \<in> (edges_of ?vs oi)\<^sup>+"
  then obtain t where t: "(i, t) \<in> edges_of ?vs oi" "(t, i) \<in> (edges_of ?vs oi)\<^sup>*" by (metis tranclD)
  then have i: "i < length ?vs" and at: "view_attributes (?vs ! i) oi \<noteq> None"
    by (auto simp: graph_edges_def view_succ_def split: if_splits option.splits)
  have nf: "\<not> is_content_frame (?vs ! i)" using assms(2) i at by (auto simp: frames_bare_def)
  obtain a where a: "view_attributes (?vs ! i) oi = Some a" "IsCircularRelation ?vs oi i a = Some False"
    using find_circular_False [OF assms(3) _ nf] i by auto
  have ok: "attribute_ok (length ?vs) i oi a" by (rule app_wf_attribute [OF assms(1) i a(1)])
  have "t \<in> set (attr_targets a)" using t(1) ok_succ [OF ok i a(1)] by (simp add: graph_edges_def)
  with t(2) a(2) show False using IsCircularRelation_result [OF app_wf_refs [OF assms(1)] i ok] by auto
qed

lemma find_match_parent_False:
  "find_match_parent vs = Some False \<Longrightarrow> v \<in> set vs \<Longrightarrow> \<not> is_content_frame v \<Longrightarrow>
     view_attributes v oi = Some a \<Longrightarrow> attr_view_size a \<noteq> MATCH_PARENT"
proof (induction vs)
  case (Cons w ws)
  then show ?case by (cases oi) (auto simp: bind_Some_iff split: if_splits)
qed simp

text \<open>What is promised of a selected app.\<close>

definition selected :: "bool \<Rightarrow> proto_app \<Rightarrow> bool" where
  "selected xml app \<longleftrightarrow>
     (\<exists>b. reference_app xml app = Some (Some b) \<and> trainable b \<and>
        (\<forall>oi. acyclic (edges_of (app_views b) oi)) \<and>
        (\<forall>v \<in> set (app_views b). \<forall>oi a. \<not> is_content_frame v \<and> view_attributes v oi = Some a \<longrightarrow>
           attr_view_size a \<noteq> MATCH_PARENT))"

definition distinct_ids :: "proto_app \<Rightarrow> bool" where
  "distinct_ids app \<longleftrightarrow> (\<forall>sc \<in> set (pa_screens app). distinct (map pv_seq_id (ps_views sc)))"

lemma select_app_cases:
  assumes "select_app xml s app = Some t"
  obtains (reject) "snd t = snd s" | (accept) sc why a b where "snd t = snd s @ [app]"
      "vec_at (pa_screens app) 0 = Some sc" "ValidApp xml sc = Some (True, why)"
      "App_of_screen xml sc True = Some a" "length (app_views a) \<noteq> 1" "InitializeAttributes xml a sc = Some b"
      "find_circular (app_views b) HORIZONTAL [0..<length (app_views b)] = Some False"
      "find_circular (app_views b) VERTICAL [0..<length (app_views b)] = Some False"
      "find_match_parent (app_views b) = Some False"
  using assms unfolding select_app_def
  by (auto simp: bind_Some_iff Let_def split: if_splits)

lemma select_app_selected:
  assumes "select_app xml s app = Some t" "distinct_ids app" "\<forall>x \<in> set (snd s). selected xml x"
  shows "\<forall>x \<in> set (snd t). selected xml x"
  using assms(1)
proof (cases rule: select_app_cases)
  case reject
  with assms(3) show ?thesis by simp
next
  case (accept sc why a b)
  have "sc \<in> set (pa_screens app)" using accept(2) by (auto simp: vec_at_Some)
  with assms(2) have d: "distinct (map pv_seq_id (ps_views sc))" by (simp add: distinct_ids_def)
  have tr: "trainable b" by (rule initialized_trainable [OF d accept(3,4,6)])
  have bare: "frames_bare b" by (rule InitializeAttributes_bare [OF built_from_screen [OF d accept(4)] accept(6)])
  have "acyclic (edges_of (app_views b) oi)" for oi
    using not_circular_acyclic [OF _ bare, of oi] tr accept(7,8) by (cases oi) (simp_all add: trainable_def)
  then have "selected xml app"
    using accept tr find_match_parent_False [OF accept(9)] by (auto simp: selected_def reference_app_def)
  with accept(1) assms(3) show ?thesis by simp
qed

lemma selected_all:
  assumes "\<forall>app \<in> set apps. distinct_ids app" "fold_opt (select_app xml) s apps = Some t"
    and "\<forall>x \<in> set (snd s). selected xml x"
  shows "\<forall>x \<in> set (snd t). selected xml x"
proof (rule fold_opt_inv [OF assms(2), where P = "\<lambda>s. \<forall>x \<in> set (snd s). selected xml x"])
  show "\<forall>x \<in> set (snd s). selected xml x" by (rule assms(3))
  fix u app u'
  assume u: "\<forall>x \<in> set (snd u). selected xml x" and app: "app \<in> set apps" "select_app xml u app = Some u'"
  from app(1) assms(1) have "distinct_ids app" by blast
  from app(2) this u show "\<forall>x \<in> set (snd u'). selected xml x" by (rule select_app_selected)
qed

text \<open>
  C29. Every app that \<^verbatim>\<open>ForEachValidApp\<close> passes on has a well-formed reference app with proper
  sizes, both constraints for every view, no circular references in either orientation and no
  \<^verbatim>\<open>match_parent\<close> size.
\<close>

theorem ForEachValidApp_selects:
  assumes "\<forall>app \<in> set apps. distinct_ids app" "ForEachValidApp xml apps = Some (stats, accepted)"
  shows "\<forall>x \<in> set accepted. \<exists>b. reference_app xml x = Some (Some b) \<and> trainable b \<and>
    (\<forall>oi. acyclic (edges_of (app_views b) oi)) \<and>
    (\<forall>v \<in> set (app_views b). \<forall>oi a. \<not> is_content_frame v \<and> view_attributes v oi = Some a \<longrightarrow>
       attr_view_size a \<noteq> MATCH_PARENT)"
  using selected_all [OF assms(1), of xml "(ValueCounter_new [], [])" "(stats, accepted)"] assms(2)
  by (simp add: ForEachValidApp_def selected_def)

text \<open>
  C30. Training \<^verbatim>\<open>ViewSizeModelWrapper\<close> (or any well-formed wrapper) aborts exactly for three reasons:
  the data file does not exist, the flag \<^verbatim>\<open>scaling_factor\<close> is not 1, or the selection of the valid apps
  aborts. Otherwise it returns a well-formed wrapper with the same weights: no selected app makes it
  fail.
\<close>

theorem ViewSize_Train_returns:
  assumes "\<forall>apps. data = Some apps \<longrightarrow> (\<forall>app \<in> set apps. distinct_ids app)" "wrapper_ok w"
  shows "(ViewSize_Train scaling_factor xml w data = None \<longleftrightarrow>
      data = None \<or> scaling_factor \<noteq> 1 \<or> ForEachValidApp xml (the data) = None) \<and>
    (\<forall>w'. ViewSize_Train scaling_factor xml w data = Some w' \<longrightarrow> wrapper_ok w' \<and> map snd w' = map snd w)"
proof (cases "data = None \<or> scaling_factor \<noteq> 1 \<or> ForEachValidApp xml (the data) = None")
  case True
  then have "ViewSize_Train scaling_factor xml w data = None" by (auto simp: ViewSize_Train_def bind_eq_None_conv)
  with True show ?thesis by simp
next
  case False
  then obtain apps s where s: "data = Some apps" "scaling_factor = 1" "ForEachValidApp xml apps = Some s" by auto
  have sel: "\<forall>x \<in> set (snd s). selected xml x"
    using selected_all [of apps xml "(ValueCounter_new [], [])" s] assms(1) s by (simp add: ForEachValidApp_def)
  have "\<exists>w'. fold_opt (train_proto xml) w (snd s) = Some w' \<and> (wrapper_ok w' \<and> map snd w' = map snd w)"
  proof (rule fold_opt_total)
    show "wrapper_ok w \<and> map snd w = map snd w" using assms(2) by simp
    fix u x assume u: "wrapper_ok u \<and> map snd u = map snd w" and x: "x \<in> set (snd s)"
    then obtain b where b: "reference_app xml x = Some (Some b)" "trainable b" using sel by (auto simp: selected_def)
    from train_views_result [OF b(2) order.refl, of u] u b(1)
    show "\<exists>u'. train_proto xml u x = Some u' \<and> wrapper_ok u' \<and> map snd u' = map snd w"
      by (auto simp: train_proto_def wrapper_counted_def)
  qed
  with s show ?thesis by (auto simp: ViewSize_Train_def)
qed

definition sample_proto_app :: proto_app where
  "sample_proto_app = \<lparr>pa_package_name = ''org.sample'', pa_screens = [sample_screen]\<rparr>"

lemma sample_selection: "\<exists>stats. ForEachValidApp True [sample_proto_app] = Some (stats, [sample_proto_app])"
proof -
  have "map_option (length \<circ> snd) (ForEachValidApp True [sample_proto_app]) = Some 1" by code_simp
  then obtain st where st: "ForEachValidApp True [sample_proto_app] = Some st" "length (snd st) = 1" by auto
  then have "select_app True (ValueCounter_new [], []) sample_proto_app = Some st"
    by (auto simp: ForEachValidApp_def bind_Some_iff)
  then have "snd st = [sample_proto_app]" using st(2) by (cases rule: select_app_cases) auto
  with st(1) show ?thesis by (cases st) auto
qed

lemma sample_ids: "\<forall>app \<in> set [sample_proto_app]. distinct_ids app"
  by (simp add: distinct_ids_def sample_proto_app_def sample_screen_def)

lemma ForEachValidApp_selects_witness:
  "\<exists>b. reference_app True sample_proto_app = Some (Some b) \<and> trainable b \<and> acyclic (edges_of (app_views b) HORIZONTAL)"
proof -
  obtain stats where "ForEachValidApp True [sample_proto_app] = Some (stats, [sample_proto_app])"
    using sample_selection by blast
  from ForEachValidApp_selects [OF sample_ids this] show ?thesis by fastforce
qed

lemma ViewSizeModelWrapper_ok: "wrapper_ok ViewSizeModelWrapper_new"
  using counter_valid_new
  by (auto simp: wrapper_ok_def ViewSizeModelWrapper_new_def GetViewSizeDimensionRatioModel_def
      feature_model_ok_def CountingFeatureModel_def by_axis_def)

lemma ViewSize_Train_returns_witness:
  "(\<exists>w. ViewSize_Train 1 True ViewSizeModelWrapper_new (Some [sample_proto_app]) = Some w \<and> wrapper_ok w) \<and>
   ViewSize_Train 2 True ViewSizeModelWrapper_new (Some [sample_proto_app]) = None"
proof -
  obtain s where s: "ForEachValidApp True [sample_proto_app] = Some s" using sample_selection by blast
  have "\<forall>apps. Some [sample_proto_app] = Some apps \<longrightarrow> (\<forall>app \<in> set apps. distinct_ids app)" using sample_ids by simp
  note t = ViewSize_Train_returns [OF this ViewSizeModelWrapper_ok, of _ True]
  obtain w where "ViewSize_Train 1 True ViewSizeModelWrapper_new (Some [sample_proto_app]) = Some w"
    using t [of 1] s by auto
  with t [of 1] t [of 2] show ?thesis by auto
qed

end
