(* ===== verification/Smt_Terms.thy ===== *)
theory Smt_Terms
  imports Text_Formats
begin

text \<open>
  The expressions that \<^verbatim>\<open>src/inferui/inferui/synthesis/z3inference.h\<close> and \<^verbatim>\<open>z3inference.cpp\<close>
  build with the C++ interface of Z3. Z3 itself is not part of the repository: an expression is
  the syntax tree the program builds, \<open>num_value\<close> and \<open>holds\<close> are the meaning that SMT-LIB
  gives to it under an assignment of the constants, and the solver is a parameter of the
  definitions that call it. The sort of a constant is part of its constructor; arithmetic that
  mixes integers and reals is carried out on reals, as Z3 coerces it.
\<close>

section \<open>Expressions\<close>

datatype z3_num =
    IntConst string
  | RealConst string
  | NumVal real
  | NumAdd z3_num z3_num
  | NumSub z3_num z3_num
  | NumMul z3_num z3_num
  | RealToInt z3_num

datatype z3_bool =
    BoolConst string
  | BoolVal bool
  | NumEq z3_num z3_num
  | NumLe z3_num z3_num
  | NumLt z3_num z3_num
  | And z3_bool z3_bool
  | Neg z3_bool
  | Implies z3_bool z3_bool
  | PbEq "string list" "int list" int

abbreviation IntVal :: "int \<Rightarrow> z3_num" where
  "IntVal i \<equiv> NumVal (real_of_int i)"

record z3_model =
  int_interp :: "string \<Rightarrow> int"
  real_interp :: "string \<Rightarrow> real"
  bool_interp :: "string \<Rightarrow> bool"

primrec num_value :: "z3_model \<Rightarrow> z3_num \<Rightarrow> real" where
  "num_value m (IntConst s) = real_of_int (int_interp m s)"
| "num_value m (RealConst s) = real_interp m s"
| "num_value m (NumVal r) = r"
| "num_value m (NumAdd a b) = num_value m a + num_value m b"
| "num_value m (NumSub a b) = num_value m a - num_value m b"
| "num_value m (NumMul a b) = num_value m a * num_value m b"
| "num_value m (RealToInt a) = real_of_int \<lfloor>num_value m a\<rfloor>"

primrec holds :: "z3_model \<Rightarrow> z3_bool \<Rightarrow> bool" where
  "holds m (BoolConst s) \<longleftrightarrow> bool_interp m s"
| "holds m (BoolVal b) \<longleftrightarrow> b"
| "holds m (NumEq a b) \<longleftrightarrow> num_value m a = num_value m b"
| "holds m (NumLe a b) \<longleftrightarrow> num_value m a \<le> num_value m b"
| "holds m (NumLt a b) \<longleftrightarrow> num_value m a < num_value m b"
| "holds m (And p q) \<longleftrightarrow> holds m p \<and> holds m q"
| "holds m (Neg p) \<longleftrightarrow> \<not> holds m p"
| "holds m (Implies p q) \<longleftrightarrow> (holds m p \<longrightarrow> holds m q)"
| "holds m (PbEq ns cs k) \<longleftrightarrow> sum_list (map (\<lambda>(n, c). if bool_interp m n then c else 0) (zip ns cs)) = k"

text \<open>
  The assertions of a solver, in the order of the \<^verbatim>\<open>add\<close> calls, and what its answer means:
  the model of a \<^verbatim>\<open>sat\<close> satisfies the assertions and the assumptions, after \<^verbatim>\<open>unsat\<close> nothing
  does. A time-out answers \<^verbatim>\<open>unknown\<close>.
\<close>

type_synonym assertions = "z3_bool list"

datatype check_result = Sat z3_model | Unsat | Unknown

definition satisfies :: "z3_model \<Rightarrow> assertions \<Rightarrow> bool" where
  "satisfies m as \<longleftrightarrow> list_all (holds m) as"

definition sound_solver :: "(assertions \<Rightarrow> check_result) \<Rightarrow> bool" where
  "sound_solver check \<longleftrightarrow>
     (\<forall>as. case check as of Sat m \<Rightarrow> satisfies m as | Unsat \<Rightarrow> \<forall>m. \<not> satisfies m as | Unknown \<Rightarrow> True)"

lemma satisfies_simps [simp]:
  "satisfies m []" "satisfies m (a # as) \<longleftrightarrow> holds m a \<and> satisfies m as"
  "satisfies m (as @ bs) \<longleftrightarrow> satisfies m as \<and> satisfies m bs"
  by (simp_all add: satisfies_def)

lemma satisfies_concat: "satisfies m (concat ass) \<longleftrightarrow> (\<forall>as \<in> set ass. satisfies m as)"
  by (induction ass) auto

lemma satisfies_mem: "satisfies m as \<Longrightarrow> a \<in> set as \<Longrightarrow> holds m a"
  by (simp add: satisfies_def list_all_iff)

lemma satisfies_subset: "satisfies m bs \<Longrightarrow> set as \<subseteq> set bs \<Longrightarrow> satisfies m as"
  by (auto simp: satisfies_def list_all_iff)

lemma sound_solverD:
  assumes "sound_solver check"
  shows "check as = Sat m \<Longrightarrow> satisfies m as" "check as = Unsat \<Longrightarrow> \<not> satisfies m as"
  using assms unfolding sound_solver_def by (auto dest: spec [of _ as])

text \<open>
  \<^verbatim>\<open>pbeq\<close> with all coefficients one and the bound one: exactly one position of the vector is
  true.
\<close>

definition exactly_one :: "bool list \<Rightarrow> bool" where
  "exactly_one bs \<longleftrightarrow> (\<exists>i < length bs. bs ! i \<and> (\<forall>j < length bs. bs ! j \<longrightarrow> j = i))"

lemma exactly_one_Cons: "exactly_one (b # bs) \<longleftrightarrow> (if b then True \<notin> set bs else exactly_one bs)"
proof (cases b)
  case True
  have "exactly_one (b # bs) \<longleftrightarrow> (\<forall>j < length bs. \<not> bs ! j)" if b
    using that unfolding exactly_one_def
    by (auto simp: nth_Cons All_less_Suc2 Ex_less_Suc2 split: nat.splits)
  with True show ?thesis by (auto simp: in_set_conv_nth)
next
  case False
  then show ?thesis
    unfolding exactly_one_def
    by (auto simp: nth_Cons All_less_Suc2 Ex_less_Suc2 split: nat.splits)
qed

lemma pb_sum_nonneg: "0 \<le> sum_list (map (\<lambda>(n, c). if f n then c else 0) (zip ns (replicate (length ns) (1 :: int))))"
  by (induction ns) auto

lemma pb_sum_zero:
  "sum_list (map (\<lambda>(n, c). if f n then c else 0) (zip ns (replicate (length ns) (1 :: int)))) = 0 \<longleftrightarrow>
     True \<notin> set (map f ns)"
  by (induction ns) (use pb_sum_nonneg [of f] in \<open>auto simp: add_nonneg_eq_0_iff\<close>)

lemma PbEq_one:
  "holds m (PbEq ns (replicate (length ns) 1) 1) \<longleftrightarrow> exactly_one (map (bool_interp m) ns)"
proof (induction ns)
  case Nil
  then show ?case by (simp add: exactly_one_def)
next
  case (Cons n ns)
  then show ?case
    using pb_sum_zero [of "bool_interp m" ns] by (auto simp: exactly_one_Cons)
qed

section \<open>Rounding\<close>

text \<open>\<^verbatim>\<open>round_real2int\<close>.\<close>

definition round_real2int :: "z3_num \<Rightarrow> z3_num" where
  "round_real2int x = RealToInt (NumAdd x (NumVal (1 / 2)))"

lemma round_real2int_zero:
  "holds m (NumEq (round_real2int x) (NumVal 0)) \<longleftrightarrow> - 1 / 2 \<le> num_value m x \<and> num_value m x < 1 / 2"
  by (simp add: round_real2int_def floor_eq_iff) linarith

text \<open>Two integers that round to zero against the same real are equal.\<close>

lemma round_unique:
  fixes x :: real and s s' :: int
  assumes "- 1 / 2 \<le> x - real_of_int s" "x - real_of_int s < 1 / 2"
    and "- 1 / 2 \<le> x - real_of_int s'" "x - real_of_int s' < 1 / 2"
  shows "s = s'"
proof -
  have "\<bar>real_of_int s - real_of_int s'\<bar> < 1" using assms by linarith
  then show ?thesis by linarith
qed

end
