(* ===== verification/Smt_Views.thy ===== *)
theory Smt_Views
  imports Smt_Terms Layout_Synthesis
begin

text \<open>
  The first part of \<^verbatim>\<open>src/inferui/inferui/synthesis/z3inference.h\<close>: the names of the solver's
  constants, \<^verbatim>\<open>ConstraintData\<close> (a constraint read back from the name of its constant),
  \<^verbatim>\<open>AttrScorer\<close>, \<^verbatim>\<open>Z3View\<close>, and from \<^verbatim>\<open>z3inference.cpp\<close> the three tables of constraint
  encodings that \<^verbatim>\<open>AttrResolver\<close> selects from. The lemmas show that names read back as what
  they were printed from, and what the encoding of a constraint says about the positions of the
  views: exactly that the constraint holds, up to the rounding of a centered view to pixels.
\<close>

section \<open>Status and constraint data\<close>

datatype status = SUCCESS | UNSAT | INVALID | TIMEOUT | UNKNOWN

fun StatusStr :: "status \<Rightarrow> string" where
  "StatusStr SUCCESS = ''SUCCESS''"
| "StatusStr UNSAT = ''UNSAT''"
| "StatusStr INVALID = ''INVALID''"
| "StatusStr TIMEOUT = ''TIMEOUT''"
| "StatusStr UNKNOWN = ''UNKNOWN''"

record constraint_data =
  cd_type :: constraint_type
  cd_size :: view_size
  cd_orientation :: orientation
  cd_src :: int
  cd_primary :: int
  cd_secondary :: int

definition not_underscore :: "char \<Rightarrow> bool" where
  "not_underscore c \<longleftrightarrow> c \<noteq> CHR ''_''"

definition constraint_name_regex :: rx where
  "constraint_name_regex =
     RCat [RGroup 1 (RStar not_underscore), RChar CHR ''_'', RGroup 2 (RPlus is_digit), RChar CHR ''_'',
           RGroup 3 (RPlus is_digit), RChar CHR ''_'', RGroup 4 (RPlus is_digit), RChar CHR ''_'',
           RGroup 5 (RPlus is_digit), ROpt (RChar CHR ''_''), ROpt (RGroup 6 (RPlus is_digit))]"

definition orientation_of_index :: "int \<Rightarrow> orientation option" where
  "orientation_of_index i = (if i = 0 then Some HORIZONTAL else if i = 1 then Some VERTICAL else None)"

definition ConstraintData :: "string \<Rightarrow> constraint_data option" where
  "ConstraintData value =
     do { g \<leftarrow> regex_search constraint_name_regex value;
          s1 \<leftarrow> g 1; t \<leftarrow> StrToConstraintType s1;
          s2 \<leftarrow> g 2; i2 \<leftarrow> ParseInt32 s2; sz \<leftarrow> view_size_of_index i2;
          s3 \<leftarrow> g 3; i3 \<leftarrow> ParseInt32 s3; oi \<leftarrow> orientation_of_index i3;
          s4 \<leftarrow> g 4; src \<leftarrow> ParseInt32 s4;
          s5 \<leftarrow> g 5; prim \<leftarrow> ParseInt32 s5;
          sec \<leftarrow> (case g 6 of Some s6 \<Rightarrow> ParseInt32 s6 | None \<Rightarrow> Some (- 1));
          Some \<lparr>cd_type = t, cd_size = sz, cd_orientation = oi, cd_src = src, cd_primary = prim,
                cd_secondary = sec\<rparr> }"

text \<open>
  \<^verbatim>\<open>AttrScorer\<close>: the cache, whose attributes point into \<open>as_views\<close>. \<^verbatim>\<open>GetRank\<close> reads the
  constraint back from its name.
\<close>

record attr_scorer =
  as_cache :: constraint_cache
  as_views :: "view list"

definition AttrScorer :: "prob_model \<Rightarrow> view list \<Rightarrow> orientation \<Rightarrow> attr_scorer option" where
  "AttrScorer model vs oi = do { c \<leftarrow> ConstraintCache model vs oi; Some \<lparr>as_cache = c, as_views = vs\<rparr> }"

definition scorer_NumConstraints :: "attr_scorer \<Rightarrow> int \<Rightarrow> nat option" where
  "scorer_NumConstraints sc i = NumConstraints (as_cache sc) i"

definition scorer_IsAllowed :: "attr_scorer \<Rightarrow> attribute \<Rightarrow> bool option" where
  "scorer_IsAllowed sc a = IsAllowed (as_cache sc) (as_views sc) a"

definition scorer_GetAttr :: "attr_scorer \<Rightarrow> int \<Rightarrow> int \<Rightarrow> attribute option option" where
  "scorer_GetAttr sc i rank = GetAttr (as_cache sc) i rank"

definition scorer_GetRank :: "attr_scorer \<Rightarrow> string \<Rightarrow> int \<Rightarrow> (int \<times> real) option" where
  "scorer_GetRank sc name max_rank =
     do { d \<leftarrow> ConstraintData name;
          GetRank (as_cache sc) (as_views sc) (cd_src d) (cd_type d) (cd_size d) (cd_primary d)
            (cd_secondary d) max_rank }"

section \<open>Z3View\<close>

record z3_view =
  zv_pos :: int
  zv_start :: int
  zv_end :: int
  position_start_v :: z3_num
  position_end_v :: z3_num
  margin_start_v :: z3_num
  margin_end_v :: z3_num
  zv_constraints :: "string list"
  satisfied_id :: int
  zv_orientation :: orientation

text \<open>
  \<^verbatim>\<open>unique_id\<close> with its \<^verbatim>\<open>CHECK\<close>. The constructor calls it for the position and orientation
  that never change afterwards, so the later calls pass the check as well.
\<close>

definition unique_id_value :: "int \<Rightarrow> orientation \<Rightarrow> int" where
  "unique_id_value i oi = i + 1000 * int (orientation_index oi)"

definition unique_id :: "int \<Rightarrow> orientation \<Rightarrow> int option" where
  "unique_id i oi = do { CHECK (i < 1000); Some (unique_id_value i oi) }"

definition name1 :: "string \<Rightarrow> int \<Rightarrow> string" where
  "name1 prefix i = prefix @ show_int i"

definition name2 :: "string \<Rightarrow> int \<Rightarrow> int \<Rightarrow> string" where
  "name2 prefix i d = prefix @ show_int i @ ''_'' @ show_int d"

definition Z3View :: "int \<Rightarrow> orientation \<Rightarrow> int \<Rightarrow> int \<Rightarrow> int \<Rightarrow> z3_view option" where
  "Z3View i oi device s e =
     do { u \<leftarrow> unique_id i oi;
          CHECK (device \<ge> 0);
          Some \<lparr>zv_pos = i, zv_start = s, zv_end = e,
                position_start_v = IntConst (name2 ''start_'' u device),
                position_end_v = IntConst (name2 ''end_'' u device),
                margin_start_v = IntConst (name1 ''mstart_'' u),
                margin_end_v = IntConst (name1 ''mend_'' u),
                zv_constraints = [], satisfied_id = 0, zv_orientation = oi\<rparr> }"

definition ConvertViews :: "view list \<Rightarrow> orientation \<Rightarrow> int \<Rightarrow> z3_view list option" where
  "ConvertViews vs oi device =
     map_opt (\<lambda>v. do { CHECK (view_pos v \<ge> 0);
                       if oi = HORIZONTAL then Z3View (view_pos v) oi device (xleft v) (xright v)
                       else Z3View (view_pos v) oi device (ytop v) (ybottom v) }) vs"

definition zv_uid :: "z3_view \<Rightarrow> int" where
  "zv_uid v = unique_id_value (zv_pos v) (zv_orientation v)"

definition GetAnchorExpr :: "z3_view \<Rightarrow> z3_num" where
  "GetAnchorExpr v = IntConst (name1 ''anchor_'' (zv_uid v))"

definition GetBiasExpr :: "z3_view \<Rightarrow> z3_num" where
  "GetBiasExpr v = RealConst (name1 ''bias_'' (zv_uid v))"

definition GetCostExpr :: "z3_view \<Rightarrow> z3_num" where
  "GetCostExpr v = RealConst (name1 ''cost_'' (zv_uid v))"

definition IncSatisfiedId :: "z3_view \<Rightarrow> z3_view" where
  "IncSatisfiedId v = v\<lparr>satisfied_id := satisfied_id v + 1\<rparr>"

definition GetConstraintsSatisfied :: "z3_view \<Rightarrow> z3_bool" where
  "GetConstraintsSatisfied v = BoolConst (name2 ''satisfied_'' (zv_uid v) (satisfied_id v))"

text \<open>\<^verbatim>\<open>ConstraintName\<close>, for a constraint with one and with two targets.\<close>

definition ConstraintName :: "z3_view \<Rightarrow> constraint_type \<Rightarrow> view_size \<Rightarrow> z3_view \<Rightarrow> string option" where
  "ConstraintName v t sz other =
     do { s \<leftarrow> ConstraintTypeStr t;
          Some (s @ ''_'' @ show_int (int (view_size_index sz)) @ ''_'' @
                show_int (int (orientation_index (zv_orientation v))) @ ''_'' @ show_int (zv_pos v) @
                ''_'' @ show_int (zv_pos other)) }"

definition ConstraintName2 ::
    "z3_view \<Rightarrow> constraint_type \<Rightarrow> view_size \<Rightarrow> z3_view \<Rightarrow> z3_view \<Rightarrow> string option" where
  "ConstraintName2 v t sz l r =
     do { s \<leftarrow> ConstraintTypeStr t;
          Some (s @ ''_'' @ show_int (int (view_size_index sz)) @ ''_'' @
                show_int (int (orientation_index (zv_orientation v))) @ ''_'' @ show_int (zv_pos v) @
                ''_'' @ show_int (zv_pos l) @ ''_'' @ show_int (zv_pos r)) }"

definition push_constraint :: "z3_view \<Rightarrow> string \<Rightarrow> z3_view \<times> z3_bool" where
  "push_constraint v name = (v\<lparr>zv_constraints := zv_constraints v @ [name]\<rparr>, BoolConst name)"

definition AddConstraintExpr ::
    "z3_view \<Rightarrow> constraint_type \<Rightarrow> view_size \<Rightarrow> z3_view \<Rightarrow> (z3_view \<times> z3_bool) option" where
  "AddConstraintExpr v t sz other = map_option (push_constraint v) (ConstraintName v t sz other)"

definition AddConstraintExpr2 ::
    "z3_view \<Rightarrow> constraint_type \<Rightarrow> view_size \<Rightarrow> z3_view \<Rightarrow> z3_view \<Rightarrow> (z3_view \<times> z3_bool) option" where
  "AddConstraintExpr2 v t sz l r = map_option (push_constraint v) (ConstraintName2 v t sz l r)"

definition same_z3_view :: "z3_view \<Rightarrow> z3_view \<Rightarrow> bool" where
  "same_z3_view v w \<longleftrightarrow> zv_pos v = zv_pos w"

definition zv_HasFixedPosition :: "z3_view \<Rightarrow> bool" where
  "zv_HasFixedPosition v \<longleftrightarrow> zv_start v \<noteq> - 1 \<and> zv_end v \<noteq> - 1"

section \<open>Reading a model back\<close>

text \<open>
  \<^verbatim>\<open>get_numeral_int\<close> fails on a numeral that does not fit; a constant that is no integer
  constant would fail too.
\<close>

definition get_numeral_int :: "z3_model \<Rightarrow> z3_num \<Rightarrow> int option" where
  "get_numeral_int m e =
     (case e of IntConst s \<Rightarrow> do { CHECK (int32 (int_interp m s)); Some (int_interp m s) } | _ \<Rightarrow> None)"

definition get_numeral_int64 :: "z3_model \<Rightarrow> z3_num \<Rightarrow> int option" where
  "get_numeral_int64 m e =
     (case e of IntConst s \<Rightarrow> do { CHECK (- (2 ^ 63) \<le> int_interp m s \<and> int_interp m s < 2 ^ 63);
                                   Some (int_interp m s) }
      | _ \<Rightarrow> None)"

definition AssignPosition :: "z3_model \<Rightarrow> z3_view \<Rightarrow> z3_view option" where
  "AssignPosition m v =
     do { s \<leftarrow> get_numeral_int m (position_start_v v);
          e \<leftarrow> get_numeral_int m (position_end_v v);
          Some (v\<lparr>zv_start := s, zv_end := e\<rparr>) }"

text \<open>The first constraint of the view that the model selects.\<close>

definition selected_constraint :: "z3_model \<Rightarrow> z3_view \<Rightarrow> string option" where
  "selected_constraint m v = find (bool_interp m) (zv_constraints v)"

definition getConstraintRank :: "z3_model \<Rightarrow> z3_view \<Rightarrow> attr_scorer \<Rightarrow> int option" where
  "getConstraintRank m v sc =
     (case selected_constraint m v of
        Some name \<Rightarrow> map_option fst (scorer_GetRank sc name (- 1))
      | None \<Rightarrow> Some (- 1))"

definition AdjustMargins :: "int \<times> int \<Rightarrow> int \<times> int" where
  "AdjustMargins ms = (let k = min (fst ms) (snd ms) in (fst ms - k, snd ms - k))"

definition margin_value :: "z3_model \<Rightarrow> constraint_type \<Rightarrow> z3_num \<Rightarrow> int option" where
  "margin_value m t e =
     (if t = LAST then Some 0
      else do { k \<leftarrow> get_numeral_int64 m e; if k < 10000 then get_numeral_int m e else Some 0 })"

definition GetMargins :: "z3_model \<Rightarrow> z3_view \<Rightarrow> constraint_data \<Rightarrow> (int \<times> int) option" where
  "GetMargins m v d =
     do { types \<leftarrow> SplitAnchor (cd_type d);
          ms \<leftarrow> margin_value m (fst types) (margin_start_v v);
          me \<leftarrow> margin_value m (snd types) (margin_end_v v);
          Some (ms, me) }"

text \<open>
  \<^verbatim>\<open>GetBias\<close>: the decimal text that Z3 gives for a real (\<open>dec 4\<close>, a parameter), without the
  mark it appends to a text that was cut off.
\<close>

definition GetBias :: "(nat \<Rightarrow> real \<Rightarrow> string) \<Rightarrow> z3_model \<Rightarrow> z3_view \<Rightarrow> real option" where
  "GetBias dec m v =
     (let value = dec 4 (num_value m (GetBiasExpr v)) in
      if value = [] then None
      else ParseFloat (if last value = CHR ''?'' then butlast value else value))"

text \<open>
  \<^verbatim>\<open>AssignModel\<close> stores the selected constraint in the view. When the model selects none the
  views stay as they are and the result is an uninitialised \<^verbatim>\<open>ConstraintData\<close> (\<open>None\<close>).
\<close>

definition AssignModel ::
    "(nat \<Rightarrow> real \<Rightarrow> string) \<Rightarrow> z3_model \<Rightarrow> orientation \<Rightarrow> attr_scorer option \<Rightarrow> view list \<Rightarrow> z3_view \<Rightarrow>
      (view list \<times> constraint_data option) option" where
  "AssignModel dec m oi scorer vs v =
     (case selected_constraint m v of
        None \<Rightarrow> Some (vs, None)
      | Some name \<Rightarrow>
          do { d \<leftarrow> ConstraintData name;
               ms \<leftarrow> GetMargins m v d;
               let margins = (if IsCenterAnchor (cd_type d) \<and> cd_size d = FIXED then AdjustMargins ms else ms);
               src \<leftarrow> vec_at_int vs (zv_pos v);
               prim \<leftarrow> vec_at_int vs (cd_primary d);
               sec \<leftarrow> (if IsCenterAnchor (cd_type d)
                       then do { q \<leftarrow> vec_at_int vs (cd_secondary d); Some (Some (nat (cd_secondary d))) }
                       else Some None);
               bias \<leftarrow> GetBias dec m v;
               a \<leftarrow> Attribute_full (cd_type d) (cd_size d) (fst margins) (snd margins) (nat (zv_pos v))
                      (nat (cd_primary d)) sec bias;
               p \<leftarrow> (case scorer of None \<Rightarrow> Some (attr_prob a)
                     | Some sc \<Rightarrow> map_option snd (scorer_GetRank sc name (- 1)));
               Some (vs[nat (zv_pos v) := src\<lparr>view_attributes := (view_attributes src)(oi \<mapsto> a\<lparr>attr_prob := p\<rparr>)\<rparr>],
                     Some d) })"

section \<open>The encodings of the constraints\<close>

text \<open>
  Each entry of a table has the type for either orientation and a function of the source and the
  two targets; the second is a null pointer for a relational constraint.
\<close>

type_synonym encoding = "z3_view \<Rightarrow> z3_view \<Rightarrow> z3_view option \<Rightarrow> z3_bool option"

type_synonym encoded_type = "(constraint_type \<times> constraint_type) \<times> encoding"

definition GetType :: "encoded_type \<Rightarrow> orientation \<Rightarrow> constraint_type" where
  "GetType c oi = (if oi = HORIZONTAL then fst (fst c) else snd (fst c))"

definition enc_start_start :: encoding where
  "enc_start_start src tgt dummy =
     Some (NumEq (position_start_v src) (NumAdd (position_start_v tgt) (margin_start_v src)))"

definition enc_start_end :: encoding where
  "enc_start_end src tgt dummy =
     Some (NumEq (position_start_v src) (NumAdd (position_end_v tgt) (margin_start_v src)))"

definition enc_end_start :: encoding where
  "enc_end_start src tgt dummy =
     Some (NumEq (position_end_v src) (NumSub (position_start_v tgt) (margin_end_v src)))"

definition enc_end_end :: encoding where
  "enc_end_end src tgt dummy =
     Some (NumEq (position_end_v src) (NumSub (position_end_v tgt) (margin_end_v src)))"

definition RELATIONAL_FIXED_SIZE :: "encoded_type list" where
  "RELATIONAL_FIXED_SIZE =
     [((L2L, T2T), enc_start_start), ((L2R, T2B), enc_start_end),
      ((R2L, B2T), enc_end_start), ((R2R, B2B), enc_end_end)]"

text \<open>\<open>(1 - bias) * a + bias * b\<close>, and the centering condition built from it.\<close>

definition weighted :: "z3_num \<Rightarrow> z3_num \<Rightarrow> z3_num \<Rightarrow> z3_num" where
  "weighted bias a b = NumAdd (NumMul (NumSub (IntVal 1) bias) a) (NumMul bias b)"

definition centered :: "z3_view \<Rightarrow> z3_num \<Rightarrow> z3_num \<Rightarrow> z3_bool" where
  "centered src a b =
     NumEq (round_real2int (NumSub (weighted (GetBiasExpr src) a b)
              (weighted (GetBiasExpr src) (position_start_v src) (position_end_v src)))) (IntVal 0)"

definition enc_center_outer :: encoding where
  "enc_center_outer src s sec =
     do { e \<leftarrow> sec;
          let res = centered src (NumAdd (position_start_v s) (margin_start_v src))
                      (NumSub (position_end_v e) (margin_end_v src));
          if zv_pos s = 0 \<and> zv_pos e = 0
          then Some (And (And res (NumLe (margin_start_v src) (NumSub (position_start_v src) (position_start_v s))))
                      (NumLe (margin_end_v src) (NumSub (position_end_v e) (position_end_v src))))
          else Some res }"

definition no_margins :: "z3_view \<Rightarrow> z3_bool \<Rightarrow> z3_bool" where
  "no_margins src p = And (And (NumEq (margin_start_v src) (IntVal 0)) (NumEq (margin_end_v src) (IntVal 0))) p"

definition enc_center_starts :: encoding where
  "enc_center_starts src s sec =
     do { e \<leftarrow> sec;
          if same_z3_view s e
          then Some (no_margins src (centered src (position_start_v s) (position_start_v e)))
          else Some (centered src (NumAdd (position_start_v s) (margin_start_v src))
                      (NumSub (position_start_v e) (margin_end_v src))) }"

definition enc_center_ends :: encoding where
  "enc_center_ends src s sec =
     do { e \<leftarrow> sec;
          if same_z3_view s e
          then Some (no_margins src (centered src (position_end_v s) (position_end_v e)))
          else Some (centered src (NumAdd (position_end_v s) (margin_start_v src))
                      (NumSub (position_end_v e) (margin_end_v src))) }"

definition enc_center_inner :: encoding where
  "enc_center_inner src s sec =
     do { e \<leftarrow> sec;
          Some (centered src (NumAdd (position_end_v s) (margin_start_v src))
                      (NumSub (position_start_v e) (margin_end_v src))) }"

definition CENTERING_FIXED_SIZE :: "encoded_type list" where
  "CENTERING_FIXED_SIZE =
     [((L2LxR2R, T2TxB2B), enc_center_outer), ((L2LxR2L, T2TxB2T), enc_center_starts),
      ((L2RxR2R, T2BxB2B), enc_center_ends), ((L2RxR2L, T2BxB2T), enc_center_inner)]"

definition enc_match :: "(z3_view \<Rightarrow> z3_num) \<Rightarrow> (z3_view \<Rightarrow> z3_num) \<Rightarrow> encoding" where
  "enc_match from_v to_v src s sec =
     do { e \<leftarrow> sec;
          Some (And (NumEq (position_start_v src) (NumAdd (from_v s) (margin_start_v src)))
                    (NumEq (position_end_v src) (NumSub (to_v e) (margin_end_v src)))) }"

definition CENTERING_MATCH_CONSTRAINT :: "encoded_type list" where
  "CENTERING_MATCH_CONSTRAINT =
     [((L2LxR2R, T2TxB2B), enc_match position_start_v position_end_v),
      ((L2LxR2L, T2TxB2T), enc_match position_start_v position_start_v),
      ((L2RxR2R, T2BxB2B), enc_match position_end_v position_end_v),
      ((L2RxR2L, T2BxB2T), enc_match position_end_v position_start_v)]"

text \<open>\<^verbatim>\<open>AttrResolver\<close>: its constructor fills two vectors, indexed by the type.\<close>

definition fixed_size_constraints :: "encoding list" where
  "fixed_size_constraints =
     map snd (map (\<lambda>i. RELATIONAL_FIXED_SIZE ! i) [0, 1, 2, 3, 0, 1, 2, 3] @
              map (\<lambda>i. CENTERING_FIXED_SIZE ! i) [1, 0, 3, 2, 1, 0, 3, 2])"

definition dynamic_size_constraints :: "encoding list" where
  "dynamic_size_constraints = map snd (map (\<lambda>i. CENTERING_MATCH_CONSTRAINT ! i) [1, 0, 3, 2, 1, 0, 3, 2])"

definition ResolveAttr :: "attribute \<Rightarrow> encoding option" where
  "ResolveAttr a =
     (if attr_view_size a = FIXED then vec_at fixed_size_constraints (ct_index (attr_type a))
      else vec_at_int dynamic_size_constraints (int (ct_index (attr_type a)) - 8))"

section \<open>Names read back\<close>

text \<open>How a pattern captures the parts of a text, wherever it starts.\<close>

definition captures :: "rx \<Rightarrow> (nat \<times> string) list \<Rightarrow> string \<Rightarrow> (nat \<times> string) list \<Rightarrow> string \<Rightarrow> bool" where
  "captures r g s g' s' \<longleftrightarrow> (\<forall>n. \<exists>n'. rx_first r (n, g, s) (n', g', s'))"

lemma captures_cat:
  "captures r g s g1 s1 \<Longrightarrow> rs \<noteq> [] \<Longrightarrow> captures (RCat rs) g1 s1 g2 s2 \<Longrightarrow> captures (RCat (r # rs)) g s g2 s2"
  unfolding captures_def using rx_first_cat by blast

lemma captures_last: "captures r g s g' s' \<Longrightarrow> captures (RCat [r]) g s g' s'"
  by (simp add: captures_def)

lemma captures_char: "captures (RChar c) g (c # s) g s"
  unfolding captures_def using rx_first_char by blast

lemma captures_word:
  "CHR ''_'' \<notin> set w \<Longrightarrow> captures (RGroup i (RStar not_underscore)) g (w @ CHR ''_'' # s) ((i, w) # g) (CHR ''_'' # s)"
  unfolding captures_def
  by (intro allI exI, rule rx_first_group, rule rx_first_star) (auto simp: not_underscore_def)

lemma captures_number:
  "(case s of [] \<Rightarrow> True | c # cs \<Rightarrow> \<not> is_digit c) \<Longrightarrow>
     captures (RGroup i (RPlus is_digit)) g (show_nat k @ s) ((i, show_nat k) # g) s"
  unfolding captures_def
  by (intro allI exI, rule rx_first_group, rule rx_first_plus) (simp_all add: show_nat_digit_list)

lemma captures_opt: "captures r g s g' s' \<Longrightarrow> captures (ROpt r) g s g' s'"
  unfolding captures_def using rx_first_opt by blast

lemma captures_opt_end: "captures (ROpt (RChar c)) g [] g []" "captures (ROpt (RGroup i (RPlus P))) g [] g []"
  unfolding captures_def
  by (auto intro!: exI rx_first_opt_none simp: RChar_def RPlus_def)

lemma captures_search: "captures r [] s g s' \<Longrightarrow> regex_search r s = Some (map_of g)"
  unfolding captures_def using regex_search_first by blast

lemma not_digit_underscore [simp]: "\<not> is_digit (CHR ''_'')"
  by (simp add: is_digit_def)

lemma constraint_name_search:
  assumes "CHR ''_'' \<notin> set w"
  shows "regex_search constraint_name_regex
      (w @ ''_'' @ show_nat a @ ''_'' @ show_nat b @ ''_'' @ show_nat c @ ''_'' @ show_nat d) =
    Some (map_of [(5, show_nat d), (4, show_nat c), (3, show_nat b), (2, show_nat a), (1, w)])" (is ?one)
    and "regex_search constraint_name_regex
      (w @ ''_'' @ show_nat a @ ''_'' @ show_nat b @ ''_'' @ show_nat c @ ''_'' @ show_nat d @ ''_'' @ show_nat e) =
    Some (map_of [(6, show_nat e), (5, show_nat d), (4, show_nat c), (3, show_nat b), (2, show_nat a), (1, w)])" (is ?two)
proof -
  note num = captures_number [of "CHR ''_'' # _", simplified]
    and num_end = captures_number [of "[]", simplified]
    and word = captures_word [OF assms]
  show ?one
    unfolding constraint_name_regex_def append_Cons append_Nil
    by (rule captures_search)
      (rule captures_cat captures_last captures_opt_end word num num_end captures_char | simp only: list.distinct not_False_eq_True)+
  show ?two
    unfolding constraint_name_regex_def append_Cons append_Nil
    by (rule captures_search)
      (rule captures_cat captures_last word num num_end captures_opt captures_char | simp only: list.distinct not_False_eq_True)+
qed

text \<open>The name as a function of the data it carries; \<open>- 1\<close> stands for no second target.\<close>

definition constraint_data_name :: "constraint_data \<Rightarrow> string option" where
  "constraint_data_name d =
     do { s \<leftarrow> ConstraintTypeStr (cd_type d);
          Some (s @ ''_'' @ show_int (int (view_size_index (cd_size d))) @ ''_'' @
                show_int (int (orientation_index (cd_orientation d))) @ ''_'' @ show_int (cd_src d) @
                ''_'' @ show_int (cd_primary d) @
                (if cd_secondary d = - 1 then [] else ''_'' @ show_int (cd_secondary d))) }"

definition position32 :: "int \<Rightarrow> bool" where
  "position32 i \<longleftrightarrow> 0 \<le> i \<and> i < 2 ^ 31"

definition constraint_data_ok :: "constraint_data \<Rightarrow> bool" where
  "constraint_data_ok d \<longleftrightarrow> cd_type d \<noteq> LAST \<and> position32 (cd_src d) \<and> position32 (cd_primary d) \<and>
     (cd_secondary d = - 1 \<or> position32 (cd_secondary d))"

lemma orientation_of_index_index [simp]: "orientation_of_index (int (orientation_index oi)) = Some oi"
  by (cases oi) (simp_all add: orientation_of_index_def orientation_index_def)

lemma show_int_nat: "0 \<le> i \<Longrightarrow> show_int i = show_nat (nat i)"
  by (simp add: show_int_def)

lemma ParseInt32_position: "position32 i \<Longrightarrow> ParseInt32 (show_nat (nat i)) = Some i"
  by (subst ParseInt32_show_nat) (auto simp: position32_def)

lemma small_index:
  "ParseInt32 (show_nat (view_size_index sz)) = Some (int (view_size_index sz))"
  "ParseInt32 (show_nat (orientation_index oi)) = Some (int (orientation_index oi))"
  by (rule ParseInt32_show_nat, cases sz, simp_all add: view_size_index_def)
    (rule ParseInt32_show_nat, cases oi, simp_all add: orientation_index_def)

lemma ConstraintData_name:
  assumes "constraint_data_ok d"
  shows "\<exists>s. constraint_data_name d = Some s \<and> ConstraintData s = Some d"
proof -
  obtain w where w: "ConstraintTypeStr (cd_type d) = Some w"
    using assms ConstraintTypeStr_total [of "cd_type d"] by (auto simp: constraint_data_ok_def)
  note ok = assms [unfolded constraint_data_ok_def]
  note w' = ConstraintTypeStr_no_underscore [OF w] StrToConstraintType_ConstraintTypeStr [OF w]
  have pos: "0 \<le> cd_src d" "0 \<le> cd_primary d" "ParseInt32 (show_nat (nat (cd_src d))) = Some (cd_src d)"
    "ParseInt32 (show_nat (nat (cd_primary d))) = Some (cd_primary d)"
    using ok by (auto simp: ParseInt32_position, auto simp: position32_def)
  show ?thesis
  proof (cases "cd_secondary d = - 1")
    case True
    then show ?thesis
      using constraint_name_search(1) [OF w'(1)]
      by (simp add: constraint_data_name_def w ConstraintData_def show_int_nat pos w'(2) small_index)
  next
    case False
    with ok have "0 \<le> cd_secondary d" "ParseInt32 (show_nat (nat (cd_secondary d))) = Some (cd_secondary d)"
      by (auto simp: ParseInt32_position, auto simp: position32_def)
    with False show ?thesis
      using constraint_name_search(2) [OF w'(1)]
      by (simp add: constraint_data_name_def w ConstraintData_def show_int_nat pos w'(2) small_index)
  qed
qed

interpretation name_codec: codec constraint_data_name ConstraintData constraint_data_ok
  by unfold_locales (rule ConstraintData_name)

lemma ConstraintName_data:
  "ConstraintName v t sz l = constraint_data_name
     \<lparr>cd_type = t, cd_size = sz, cd_orientation = zv_orientation v, cd_src = zv_pos v,
      cd_primary = zv_pos l, cd_secondary = - 1\<rparr>"
  "zv_pos r \<noteq> - 1 \<Longrightarrow> ConstraintName2 v t sz l r = constraint_data_name
     \<lparr>cd_type = t, cd_size = sz, cd_orientation = zv_orientation v, cd_src = zv_pos v,
      cd_primary = zv_pos l, cd_secondary = zv_pos r\<rparr>"
  by (simp_all add: ConstraintName_def ConstraintName2_def constraint_data_name_def)

text \<open>
  C36. The name of a constraint's Boolean constant, with one or with two targets, is read back by
  \<open>ConstraintData\<close> as the type, size, orientation, source and targets it was printed from.
\<close>

theorem constraint_name_roundtrip:
  assumes "t \<noteq> LAST" "position32 (zv_pos v)" "position32 (zv_pos l)" "position32 (zv_pos r)"
  shows "\<exists>n1 n2. ConstraintName v t sz l = Some n1 \<and> ConstraintName2 v t sz l r = Some n2 \<and>
    ConstraintData n1 = Some \<lparr>cd_type = t, cd_size = sz, cd_orientation = zv_orientation v,
      cd_src = zv_pos v, cd_primary = zv_pos l, cd_secondary = - 1\<rparr> \<and>
    ConstraintData n2 = Some \<lparr>cd_type = t, cd_size = sz, cd_orientation = zv_orientation v,
      cd_src = zv_pos v, cd_primary = zv_pos l, cd_secondary = zv_pos r\<rparr>"
proof -
  have "zv_pos r \<noteq> - 1" using assms(4) by (simp add: position32_def)
  then show ?thesis
    using assms ConstraintName_data(1) [of v t sz l] ConstraintName_data(2) [of r v t sz l]
      name_codec.dec_enc [of "\<lparr>cd_type = t, cd_size = sz, cd_orientation = zv_orientation v,
        cd_src = zv_pos v, cd_primary = zv_pos l, cd_secondary = - 1\<rparr>"]
      name_codec.dec_enc [of "\<lparr>cd_type = t, cd_size = sz, cd_orientation = zv_orientation v,
        cd_src = zv_pos v, cd_primary = zv_pos l, cd_secondary = zv_pos r\<rparr>"]
    by (auto simp: constraint_data_ok_def)
qed

definition sample_z3_view :: "int \<Rightarrow> int \<Rightarrow> int \<Rightarrow> z3_view" where
  "sample_z3_view i s e = the (Z3View i HORIZONTAL 0 s e)"

lemma sample_z3_view_pos: "i < 1000 \<Longrightarrow> zv_pos (sample_z3_view i s e) = i"
  by (simp add: sample_z3_view_def Z3View_def unique_id_def)

lemma constraint_name_roundtrip_witness:
  "ConstraintName2 (sample_z3_view 3 0 10) L2LxR2R FIXED (sample_z3_view 0 0 90) (sample_z3_view 1 20 30) \<noteq> None"
  using constraint_name_roundtrip [of L2LxR2R "sample_z3_view 3 0 10" "sample_z3_view 0 0 90"
      "sample_z3_view 1 20 30" FIXED]
  by (auto simp: sample_z3_view_pos position32_def)

section \<open>What the encodings say\<close>

text \<open>
  The views of one device and orientation, as \<open>ConvertViews\<close> makes them and as the encoder
  extends them with constraints.
\<close>

definition made_view :: "orientation \<Rightarrow> int \<Rightarrow> nat \<Rightarrow> z3_view \<Rightarrow> bool" where
  "made_view oi device i v \<longleftrightarrow>
     zv_pos v = int i \<and> zv_orientation v = oi \<and> i < 1000 \<and>
     position_start_v v = IntConst (name2 ''start_'' (unique_id_value (int i) oi) device) \<and>
     position_end_v v = IntConst (name2 ''end_'' (unique_id_value (int i) oi) device) \<and>
     margin_start_v v = IntConst (name1 ''mstart_'' (unique_id_value (int i) oi)) \<and>
     margin_end_v v = IntConst (name1 ''mend_'' (unique_id_value (int i) oi))"

definition made_views :: "orientation \<Rightarrow> int \<Rightarrow> z3_view list \<Rightarrow> bool" where
  "made_views oi device zs \<longleftrightarrow> (\<forall>i < length zs. made_view oi device i (zs ! i))"

lemma Z3View_Some:
  "Z3View i oi device s e = Some z \<Longrightarrow> i < 1000 \<and> 0 \<le> device \<and>
     z = \<lparr>zv_pos = i, zv_start = s, zv_end = e,
       position_start_v = IntConst (name2 ''start_'' (unique_id_value i oi) device),
       position_end_v = IntConst (name2 ''end_'' (unique_id_value i oi) device),
       margin_start_v = IntConst (name1 ''mstart_'' (unique_id_value i oi)),
       margin_end_v = IntConst (name1 ''mend_'' (unique_id_value i oi)),
       zv_constraints = [], satisfied_id = 0, zv_orientation = oi\<rparr>"
  by (auto simp: Z3View_def unique_id_def bind_Some_iff CHECK_Some split: if_splits)

lemma ConvertViews_result:
  assumes "ConvertViews vs oi device = Some zs" "\<forall>i < length vs. view_pos (vs ! i) = int i"
  shows "length zs = length vs" "made_views oi device zs"
    "i < length vs \<Longrightarrow> (zv_start (zs ! i), zv_end (zs ! i)) = view_interval vs oi i"
    "i < length vs \<Longrightarrow> zv_constraints (zs ! i) = [] \<and> satisfied_id (zs ! i) = 0"
proof -
  show len: "length zs = length vs"
    using assms(1) unfolding ConvertViews_def by (rule map_opt_length)
  have at: "made_view oi device i (zs ! i) \<and> (zv_start (zs ! i), zv_end (zs ! i)) = view_interval vs oi i \<and>
      zv_constraints (zs ! i) = [] \<and> satisfied_id (zs ! i) = 0" if "i < length vs" for i
    using map_opt_nth [OF assms(1) [unfolded ConvertViews_def] that] assms(2) that
    by (auto simp: made_view_def unique_id_value_def view_interval_def bind_Some_iff CHECK_Some
        dest!: Z3View_Some split: if_splits)
  show "made_views oi device zs" using at len by (simp add: made_views_def)
  show "i < length vs \<Longrightarrow> (zv_start (zs ! i), zv_end (zs ! i)) = view_interval vs oi i"
    "i < length vs \<Longrightarrow> zv_constraints (zs ! i) = [] \<and> satisfied_id (zs ! i) = 0"
    using at by blast+
qed

lemma ConvertViews_total:
  assumes "length vs \<le> 1000" "\<forall>i < length vs. view_pos (vs ! i) = int i" "0 \<le> device"
  shows "\<exists>zs. ConvertViews vs oi device = Some zs"
  unfolding ConvertViews_def map_opt_Some_iff
  using assms by (auto simp: in_set_conv_nth Z3View_def unique_id_def)

text \<open>
  A model gives every view an interval, a pair of margins and a bias. \<open>placed\<close> is what the
  encoding of a constraint demands of them: that the constraint holds, where a centered view of
  fixed size may be off by the rounding to whole pixels.
\<close>

definition zv_interval :: "z3_model \<Rightarrow> z3_view \<Rightarrow> int \<times> int" where
  "zv_interval m v = (\<lfloor>num_value m (position_start_v v)\<rfloor>, \<lfloor>num_value m (position_end_v v)\<rfloor>)"

definition zv_positions :: "z3_model \<Rightarrow> z3_view list \<Rightarrow> nat \<Rightarrow> int \<times> int" where
  "zv_positions m zs i = zv_interval m (zs ! i)"

definition with_model :: "z3_model \<Rightarrow> z3_view \<Rightarrow> attribute \<Rightarrow> attribute" where
  "with_model m v a = a\<lparr>value_primary := \<lfloor>num_value m (margin_start_v v)\<rfloor>,
     value_secondary := \<lfloor>num_value m (margin_end_v v)\<rfloor>, attr_bias := num_value m (GetBiasExpr v)\<rparr>"

definition center_error :: "real \<Rightarrow> int \<times> int \<Rightarrow> int \<Rightarrow> int \<Rightarrow> real" where
  "center_error bias s A B =
     ((1 - bias) * real_of_int A + bias * real_of_int B) -
     ((1 - bias) * real_of_int (fst s) + bias * real_of_int (snd s))"

definition placed :: "(nat \<Rightarrow> int \<times> int) \<Rightarrow> attribute \<Rightarrow> bool" where
  "placed P a =
     (let s = P (attr_src a) in
      case split_center (attr_type a) of
        None \<Rightarrow>
          (if IsTypeStart (attr_type a) = Some True
           then fst s = anchor_pos P (attr_type a) (tgt_primary a) + value_primary a
           else snd s = anchor_pos P (attr_type a) (tgt_primary a) - value_secondary a)
      | Some (ts, te) \<Rightarrow>
          (case tgt_secondary a of
             None \<Rightarrow> False
           | Some q \<Rightarrow>
               (let A = anchor_pos P ts (tgt_primary a) + value_primary a;
                    B = anchor_pos P te q - value_secondary a
                in if attr_view_size a = FIXED
                   then - 1 / 2 \<le> center_error (attr_bias a) s A B \<and> center_error (attr_bias a) s A B < 1 / 2
                   else s = (A, B))))"

text \<open>
  The side conditions: within the content frame a margin may not exceed the space that is there,
  and two anchors on the same side of one view leave no margins.
\<close>

definition side_conditions :: "(nat \<Rightarrow> int \<times> int) \<Rightarrow> attribute \<Rightarrow> bool" where
  "side_conditions P a \<longleftrightarrow>
     (attr_view_size a = FIXED \<longrightarrow>
       (attr_type a \<in> {L2LxR2R, T2TxB2B} \<and> tgt_primary a = 0 \<and> tgt_secondary a = Some 0 \<longrightarrow>
          value_primary a \<le> fst (P (attr_src a)) - fst (P 0) \<and>
          value_secondary a \<le> snd (P 0) - snd (P (attr_src a))) \<and>
       (attr_type a \<in> {L2LxR2L, L2RxR2R, T2TxB2T, T2BxB2B} \<and> tgt_secondary a = Some (tgt_primary a) \<longrightarrow>
          value_primary a = 0 \<and> value_secondary a = 0))"

lemma placed_attribute_holds:
  assumes "attr_view_size a \<noteq> FIXED \<or> IsRelationalAnchor (attr_type a)"
  shows "placed P a \<longleftrightarrow> attribute_holds P a"
  using assms by (cases "attr_type a") (auto simp: placed_def attribute_holds_def Let_def split: option.splits)

text \<open>With the bias one half a centered view is at the exact position or half a pixel after it.\<close>

lemma center_error_half:
  "- 1 / 2 \<le> center_error (1 / 2) s A B \<and> center_error (1 / 2) s A B < 1 / 2 \<longleftrightarrow>
     fst s + snd s = A + B \<or> fst s + snd s = A + B + 1"
proof -
  have "center_error (1 / 2) s A B = real_of_int (A + B - (fst s + snd s)) / 2"
    by (simp add: center_error_def diff_divide_distrib add_divide_distrib)
  then show ?thesis by auto
qed

lemma made_view_values:
  assumes "made_view oi d i v"
  shows "num_value m (position_start_v v) = real_of_int (fst (zv_interval m v))"
    "num_value m (position_end_v v) = real_of_int (snd (zv_interval m v))"
    "num_value m (margin_start_v v) = real_of_int (value_primary (with_model m v a))"
    "num_value m (margin_end_v v) = real_of_int (value_secondary (with_model m v a))"
    "num_value m (GetBiasExpr v) = attr_bias (with_model m v a)"
  using assms by (simp_all add: made_view_def zv_interval_def with_model_def GetBiasExpr_def)

lemma centered_holds:
  "holds m (centered v a b) \<longleftrightarrow>
     - 1 / 2 \<le> (1 - num_value m (GetBiasExpr v)) * num_value m a + num_value m (GetBiasExpr v) * num_value m b -
       ((1 - num_value m (GetBiasExpr v)) * num_value m (position_start_v v) +
         num_value m (GetBiasExpr v) * num_value m (position_end_v v)) \<and>
     (1 - num_value m (GetBiasExpr v)) * num_value m a + num_value m (GetBiasExpr v) * num_value m b -
       ((1 - num_value m (GetBiasExpr v)) * num_value m (position_start_v v) +
         num_value m (GetBiasExpr v) * num_value m (position_end_v v)) < 1 / 2"
  using round_real2int_zero [of m "NumSub (weighted (GetBiasExpr v) a b)
      (weighted (GetBiasExpr v) (position_start_v v) (position_end_v v))"]
  by (simp add: centered_def weighted_def)

lemma resolver_tables:
  "fixed_size_constraints =
     [enc_start_start, enc_start_end, enc_end_start, enc_end_end, enc_start_start, enc_start_end,
      enc_end_start, enc_end_end, enc_center_starts, enc_center_outer, enc_center_inner,
      enc_center_ends, enc_center_starts, enc_center_outer, enc_center_inner, enc_center_ends]"
  "dynamic_size_constraints =
     [enc_match position_start_v position_start_v, enc_match position_start_v position_end_v,
      enc_match position_end_v position_start_v, enc_match position_end_v position_end_v,
      enc_match position_start_v position_start_v, enc_match position_start_v position_end_v,
      enc_match position_end_v position_start_v, enc_match position_end_v position_end_v]"
  by (simp_all add: fixed_size_constraints_def dynamic_size_constraints_def RELATIONAL_FIXED_SIZE_def
      CENTERING_FIXED_SIZE_def CENTERING_MATCH_CONSTRAINT_def)

lemma with_model_fields [simp]:
  "attr_type (with_model m v a) = attr_type a" "attr_view_size (with_model m v a) = attr_view_size a"
  "attr_src (with_model m v a) = attr_src a" "tgt_primary (with_model m v a) = tgt_primary a"
  "tgt_secondary (with_model m v a) = tgt_secondary a" "attr_prob (with_model m v a) = attr_prob a"
  by (simp_all add: with_model_def)

lemma ResolveAttr_relational:
  assumes "IsRelationalAnchor (attr_type a)" "attr_view_size a = FIXED"
    and src: "made_view oi d i (zs ! i)" "attr_src a = i"
    and tgt: "made_view oi d j (zs ! j)" "tgt_primary a = j"
  shows "\<exists>enc e. ResolveAttr a = Some enc \<and> enc (zs ! i) (zs ! j) sec = Some e \<and>
    (holds m e \<longleftrightarrow> placed (zv_positions m zs) (with_model m (zs ! i) a))"
proof -
  note vals = made_view_values(1,2) [OF src(1), of m] made_view_values(3,4,5) [OF src(1), of m a] made_view_values(1,2) [OF tgt(1), of m]
  have eqs: "\<And>x y z :: int. (real_of_int x = real_of_int y + real_of_int z) = (x = y + z)"
    "\<And>x y z :: int. (real_of_int x = real_of_int y - real_of_int z) = (x = y - z)"
    by linarith+
  show ?thesis
    using assms(1)
    by (cases "attr_type a") (simp_all add: ResolveAttr_def resolver_tables assms(2) enc_start_start_def
        enc_start_end_def enc_end_start_def enc_end_end_def vals eqs src(2) tgt(2) placed_def
        zv_positions_def anchor_pos_def to_start_def Let_def)
qed

lemma ResolveAttr_match:
  assumes "\<not> IsRelationalAnchor (attr_type a)" "attr_type a \<noteq> LAST" "attr_view_size a \<noteq> FIXED"
    and src: "made_view oi d i (zs ! i)" "attr_src a = i"
    and tgt: "made_view oi d j (zs ! j)" "tgt_primary a = j"
    and sec: "made_view oi d k (zs ! k)" "tgt_secondary a = Some k"
  shows "\<exists>enc e. ResolveAttr a = Some enc \<and> enc (zs ! i) (zs ! j) (Some (zs ! k)) = Some e \<and>
    (holds m e \<longleftrightarrow> placed (zv_positions m zs) (with_model m (zs ! i) a))"
proof -
  note vals = made_view_values(1,2) [OF src(1), of m] made_view_values(3,4,5) [OF src(1), of m a] made_view_values(1,2) [OF tgt(1), of m]
    made_view_values(1,2) [OF sec(1), of m]
  have eqs: "\<And>x y z :: int. (real_of_int x = real_of_int y + real_of_int z) = (x = y + z)"
    "\<And>x y z :: int. (real_of_int x = real_of_int y - real_of_int z) = (x = y - z)"
    by linarith+
  show ?thesis
    using assms(1,2)
    by (cases "attr_type a") (simp_all add: ResolveAttr_def resolver_tables assms(3) enc_match_def
        vals eqs src(2) tgt(2) sec(2) placed_def prod_eq_iff vec_at_int_def
        zv_positions_def anchor_pos_def to_start_def Let_def)
qed

lemma ResolveAttr_centered:
  assumes "\<not> IsRelationalAnchor (attr_type a)" "attr_type a \<noteq> LAST" "attr_view_size a = FIXED"
    and zs: "made_views oi d zs" "i < length zs" "j < length zs" "k < length zs"
    and a: "attr_src a = i" "tgt_primary a = j" "tgt_secondary a = Some k"
  shows "\<exists>enc e. ResolveAttr a = Some enc \<and> enc (zs ! i) (zs ! j) (Some (zs ! k)) = Some e \<and>
    (holds m e \<longleftrightarrow> placed (zv_positions m zs) (with_model m (zs ! i) a) \<and>
      side_conditions (zv_positions m zs) (with_model m (zs ! i) a))"
proof -
  have made: "made_view oi d x (zs ! x)" if "x < length zs" for x using zs(1) that by (simp add: made_views_def)
  note vals = made_view_values(1,2) [OF made, of _ m] made_view_values(3,4,5) [OF made [OF zs(2)], of m a]
  have pos: "zv_pos (zs ! j) = int j" "zv_pos (zs ! k) = int k"
    using made [OF zs(3)] made [OF zs(4)] by (simp_all add: made_view_def)
  have les: "\<And>x y z :: int. (real_of_int x \<le> real_of_int y - real_of_int z) = (x \<le> y - z)"
    by linarith
  have n: "zs \<noteq> []" using zs(2) by auto
  show ?thesis
    using assms(1,2)
    by (cases "attr_type a") (auto simp: ResolveAttr_def resolver_tables assms(3) enc_center_outer_def
        enc_center_starts_def enc_center_ends_def enc_center_inner_def no_margins_def same_z3_view_def pos
        centered_holds vals les zs n a placed_def side_conditions_def center_error_def
        zv_positions_def anchor_pos_def to_start_def Let_def)
qed
lemma ResolveAttr_result:
  assumes "made_views oi d zs" "attribute_ok (length zs) i oi a" "i < length zs"
    and "attr_view_size a = FIXED \<or> \<not> IsRelationalAnchor (attr_type a)"
  shows "\<exists>enc e. ResolveAttr a = Some enc \<and>
    enc (zs ! i) (zs ! tgt_primary a) (map_option ((!) zs) (tgt_secondary a)) = Some e \<and>
    (holds m e \<longleftrightarrow> placed (zv_positions m zs) (with_model m (zs ! i) a) \<and>
      side_conditions (zv_positions m zs) (with_model m (zs ! i) a))"
proof -
  have made: "made_view oi d x (zs ! x)" if "x < length zs" for x using assms(1) that by (simp add: made_views_def)
  have src: "attr_src a = i" and nl: "attr_type a \<noteq> LAST" using assms(2) by (auto simp: attribute_ok_def)
  show ?thesis
    using assms(2)
  proof (cases rule: ok_targets)
    case relational
    then have "side_conditions P (with_model m (zs ! i) a)" for P
      by (cases "attr_type a") (simp_all add: side_conditions_def)
    with relational ResolveAttr_relational [OF _ _ made [OF assms(3)] src made refl] assms(4)
    show ?thesis by simp
  next
    case (center j)
    show ?thesis
    proof (cases "attr_view_size a = FIXED")
      case True
      with center ResolveAttr_centered [OF _ nl True assms(1,3) _ _ src refl] show ?thesis by simp
    next
      case False
      then have "side_conditions P (with_model m (zs ! i) a)" for P by (simp add: side_conditions_def)
      with False center ResolveAttr_match [OF _ nl False made [OF assms(3)] src made refl made] show ?thesis
        by simp
    qed
  qed
qed

text \<open>The same with the bias one half, in whole pixels.\<close>

definition pixel_holds :: "(nat \<Rightarrow> int \<times> int) \<Rightarrow> attribute \<Rightarrow> bool" where
  "pixel_holds P a =
     (attribute_holds P a \<or>
       attr_view_size a = FIXED \<and>
       (case split_center (attr_type a) of
          None \<Rightarrow> False
        | Some (ts, te) \<Rightarrow>
            (case tgt_secondary a of
               None \<Rightarrow> False
             | Some q \<Rightarrow> fst (P (attr_src a)) + snd (P (attr_src a)) =
                 anchor_pos P ts (tgt_primary a) + value_primary a + (anchor_pos P te q - value_secondary a) + 1)))"

lemma placed_half: "attr_bias a = 1 / 2 \<Longrightarrow> placed P a \<longleftrightarrow> pixel_holds P a"
  unfolding placed_def Let_def
  by (simp only: center_error_half)
    (auto simp: pixel_holds_def attribute_holds_def Let_def split: option.splits)

text \<open>
  C15. For every well-formed constraint the resolver has an encoding, and with the bias one half a
  model satisfies the encoding exactly when the constraint, with the margins of the model, holds
  for the positions of the model (a centered view may be half a pixel off) and the side conditions
  hold.
\<close>

theorem ResolveAttr_meaning:
  assumes "made_views oi d zs" "attribute_ok (length zs) i oi a" "i < length zs"
    and "attr_view_size a = FIXED \<or> \<not> IsRelationalAnchor (attr_type a)"
    and "num_value m (GetBiasExpr (zs ! i)) = 1 / 2"
  shows "\<exists>enc e. ResolveAttr a = Some enc \<and>
    enc (zs ! i) (zs ! tgt_primary a) (map_option ((!) zs) (tgt_secondary a)) = Some e \<and>
    (holds m e \<longleftrightarrow> pixel_holds (zv_positions m zs) (with_model m (zs ! i) a) \<and>
      side_conditions (zv_positions m zs) (with_model m (zs ! i) a))"
proof -
  have "attr_bias (with_model m (zs ! i) a) = 1 / 2" using assms(5) by (simp add: with_model_def)
  with ResolveAttr_result [OF assms(1-4), of m] show ?thesis by (simp add: placed_half)
qed

definition sample_z3_views :: "z3_view list" where
  "sample_z3_views = [sample_z3_view 0 0 100, sample_z3_view 1 10 30, sample_z3_view 2 40 60]"

lemma sample_z3_views_made: "made_views HORIZONTAL 0 sample_z3_views"
  by (simp add: made_views_def sample_z3_views_def All_less_Suc2 numeral_3_eq_3 sample_z3_view_def
      Z3View_def unique_id_def made_view_def)

lemma ResolveAttr_meaning_witness:
  "\<exists>enc e. ResolveAttr \<lparr>attr_type = L2LxR2R, attr_view_size = FIXED, value_primary = 0, value_secondary = 0,
     attr_src = 2, tgt_primary = 0, tgt_secondary = Some 1, attr_prob = 0, attr_bias = 1 / 2\<rparr> = Some enc \<and>
     enc (sample_z3_views ! 2) (sample_z3_views ! 0) (Some (sample_z3_views ! 1)) = Some e"
proof -
  have "GetBiasExpr (sample_z3_views ! 2) = RealConst (name1 ''bias_'' 2)"
    by (simp add: sample_z3_views_def sample_z3_view_def Z3View_def unique_id_def GetBiasExpr_def zv_uid_def
        unique_id_value_def orientation_index_def)
  then show ?thesis
    using ResolveAttr_meaning [OF sample_z3_views_made, of 2
      "\<lparr>attr_type = L2LxR2R, attr_view_size = FIXED, value_primary = 0, value_secondary = 0,
        attr_src = 2, tgt_primary = 0, tgt_secondary = Some 1, attr_prob = 0, attr_bias = 1 / 2\<rparr>"
      "\<lparr>int_interp = (\<lambda>_. 0), real_interp = (\<lambda>_. 1 / 2), bool_interp = (\<lambda>_. True)\<rparr>"]
    by (simp add: attribute_ok_def IsRelationalAnchor_def) (auto simp: sample_z3_views_def)
qed

end
