(* ===== verification/Smt_Candidates.thy ===== *)
theory Smt_Candidates
  imports Smt_Views
begin

text \<open>
  \<^verbatim>\<open>CandidateConstraints\<close> of \<^verbatim>\<open>z3inference.h\<close> and \<^verbatim>\<open>z3inference.cpp\<close>: which of a view's ranked
  candidates the encoder gets to see. Each view starts with the candidates below a rank and with
  the best one that anchors it to the content frame; when the solver finds the selection
  unsatisfiable the ranks of the views in the core are raised, and only the new candidates are
  added. The lemmas show what a call hands out.
\<close>

section \<open>State and construction\<close>

type_synonym constraint_map = "int \<Rightarrow> constraint_data option"

record candidate_constraints =
  cn_scorer :: "attr_scorer option"
  cn_views :: "z3_view list"
  constraints_added :: "int list"
  constraints_max_rank :: "int list"
  constraints_selected :: "int set list"
  prohibited_constraints :: constraint_map
  cn_anchors :: "int list"

definition IsProhibitedConstraint :: "candidate_constraints \<Rightarrow> view list \<Rightarrow> attribute \<Rightarrow> bool option" where
  "IsProhibitedConstraint c vs a =
     do { src \<leftarrow> vec_at vs (attr_src a);
          case prohibited_constraints c (view_pos src) of
            None \<Rightarrow> Some False
          | Some d \<Rightarrow>
              do { prim \<leftarrow> vec_at vs (tgt_primary a);
                   matchingSecondary \<leftarrow>
                     (case tgt_secondary a of None \<Rightarrow> Some (cd_secondary d = - 1)
                      | Some j \<Rightarrow> do { sec \<leftarrow> vec_at vs j; Some (view_pos sec = cd_secondary d) });
                   Some (cd_type d = attr_type a \<and> cd_size d = attr_view_size a \<and>
                         view_pos prim = cd_primary d \<and> matchingSecondary) } }"

definition is_root_anchor :: "view list \<Rightarrow> attribute \<Rightarrow> bool option" where
  "is_root_anchor vs a =
     do { prim \<leftarrow> vec_at vs (tgt_primary a);
          if IsCenterAnchor (attr_type a)
          then do { j \<leftarrow> tgt_secondary a; sec \<leftarrow> vec_at vs j; Some (view_id prim = 0 \<and> view_id sec = 0) }
          else Some (view_id prim = 0) }"

text \<open>Whether a candidate is allowed and not prohibited.\<close>

definition eligible :: "candidate_constraints \<Rightarrow> attr_scorer \<Rightarrow> attribute \<Rightarrow> bool option" where
  "eligible c sc a =
     do { al \<leftarrow> scorer_IsAllowed sc a;
          if \<not> al then Some False
          else do { p \<leftarrow> IsProhibitedConstraint c (as_views sc) a; Some (\<not> p) } }"

text \<open>The inner loop of \<^verbatim>\<open>InitAnchor\<close>: the first rank whose candidate anchors the view.\<close>

primrec anchor_loop :: "candidate_constraints \<Rightarrow> attr_scorer \<Rightarrow> int \<Rightarrow> int list \<Rightarrow> int option" where
  "anchor_loop c sc p [] = Some (- 1)"
| "anchor_loop c sc p (rank # ranks) =
     do { r \<leftarrow> scorer_GetAttr sc p rank;
          a \<leftarrow> r;
          el \<leftarrow> eligible c sc a;
          if \<not> el then anchor_loop c sc p ranks
          else do { anchor \<leftarrow> is_root_anchor (as_views sc) a;
                    if anchor then Some rank else anchor_loop c sc p ranks } }"

definition anchor_step :: "candidate_constraints \<Rightarrow> nat \<Rightarrow> candidate_constraints option" where
  "anchor_step c i =
     do { sc \<leftarrow> cn_scorer c;
          v \<leftarrow> vec_at (cn_views c) i;
          n \<leftarrow> scorer_NumConstraints sc (zv_pos v);
          rank \<leftarrow> anchor_loop c sc (zv_pos v) (map int [0..<n]);
          as \<leftarrow> (if rank = - 1 then Some (cn_anchors c) else vec_set (cn_anchors c) i rank);
          a \<leftarrow> vec_at as i;
          CHECK (a \<noteq> - 1);
          Some (c\<lparr>cn_anchors := as\<rparr>) }"

definition InitAnchor :: "candidate_constraints \<Rightarrow> candidate_constraints option" where
  "InitAnchor c =
     do { as \<leftarrow> vec_set (cn_anchors c) 0 0;
          fold_opt anchor_step (c\<lparr>cn_anchors := as\<rparr>) [1..<length (cn_views c)] }"

definition CandidateConstraints :: "attr_scorer option \<Rightarrow> z3_view list \<Rightarrow> candidate_constraints option" where
  "CandidateConstraints sc zs =
     InitAnchor \<lparr>cn_scorer = sc, cn_views = zs, constraints_added = replicate (length zs) 0,
       constraints_max_rank = replicate (length zs) 0, constraints_selected = replicate (length zs) {},
       prohibited_constraints = Map.empty, cn_anchors = replicate (length zs) (- 1)\<rparr>"

section \<open>Operations\<close>

definition IncreaseRank :: "int \<Rightarrow> candidate_constraints \<Rightarrow> candidate_constraints" where
  "IncreaseRank k c = c\<lparr>constraints_max_rank := map (\<lambda>e. e + k) (constraints_max_rank c)\<rparr>"

definition IncreaseRank_view :: "candidate_constraints \<Rightarrow> z3_view \<Rightarrow> int \<Rightarrow> candidate_constraints option" where
  "IncreaseRank_view c v k =
     do { r \<leftarrow> vec_at_int (constraints_max_rank c) (zv_pos v);
          rs \<leftarrow> vec_set (constraints_max_rank c) (nat (zv_pos v)) (r + k);
          Some (c\<lparr>constraints_max_rank := rs\<rparr>) }"

text \<open>\<^verbatim>\<open>FinishAdding\<close> and the resets run over vectors of one length.\<close>

definition FinishAdding :: "candidate_constraints \<Rightarrow> candidate_constraints" where
  "FinishAdding c = c\<lparr>constraints_added := take (length (constraints_added c)) (constraints_max_rank c)\<rparr>"

definition ResetAdding :: "candidate_constraints \<Rightarrow> candidate_constraints" where
  "ResetAdding c = c\<lparr>constraints_added := replicate (length (constraints_added c)) 0\<rparr>"

definition ResetAnchor :: "candidate_constraints \<Rightarrow> candidate_constraints" where
  "ResetAnchor c = c\<lparr>cn_anchors := replicate (length (cn_anchors c)) (- 1)\<rparr>"

definition SetProhibitedConstraintMap :: "candidate_constraints \<Rightarrow> constraint_map \<Rightarrow> candidate_constraints" where
  "SetProhibitedConstraintMap c p = c\<lparr>prohibited_constraints := p\<rparr>"

definition RecomputeEntries :: "candidate_constraints \<Rightarrow> candidate_constraints option" where
  "RecomputeEntries c = InitAnchor (ResetAnchor (ResetAdding c))"

text \<open>\<^verbatim>\<open>GetAttributes\<close>: the candidates handed out and their ranks (\<^verbatim>\<open>constraints_selected\<close>).\<close>

primrec attributes_loop ::
    "candidate_constraints \<Rightarrow> attr_scorer \<Rightarrow> int \<Rightarrow> int \<Rightarrow> int list \<Rightarrow> (int \<times> attribute) list option" where
  "attributes_loop c sc p anchor [] = Some []"
| "attributes_loop c sc p anchor (rank # ranks) =
     do { r \<leftarrow> scorer_GetAttr sc p rank;
          case r of
            None \<Rightarrow> Some []
          | Some a \<Rightarrow>
              do { el \<leftarrow> eligible c sc a;
                   rest \<leftarrow> attributes_loop c sc p anchor ranks;
                   Some (if \<not> el \<or> rank = anchor then rest else (rank, a) # rest) } }"

definition ranked_attributes :: "candidate_constraints \<Rightarrow> z3_view \<Rightarrow> (int \<times> attribute) list option" where
  "ranked_attributes c v =
     do { sc \<leftarrow> cn_scorer c;
          added \<leftarrow> vec_at_int (constraints_added c) (zv_pos v);
          max_rank \<leftarrow> vec_at_int (constraints_max_rank c) (zv_pos v);
          anchor \<leftarrow> vec_at_int (cn_anchors c) (zv_pos v);
          first \<leftarrow> (if added = 0
                    then do { r \<leftarrow> scorer_GetAttr sc (zv_pos v) anchor; a \<leftarrow> r; Some [(anchor, a)] }
                    else Some []);
          rest \<leftarrow> attributes_loop c sc (zv_pos v) anchor [added..max_rank - 1];
          Some (first @ rest) }"

definition GetAttributes :: "candidate_constraints \<Rightarrow> z3_view \<Rightarrow> (candidate_constraints \<times> attribute list) option" where
  "GetAttributes c v =
     do { ras \<leftarrow> ranked_attributes c v;
          old \<leftarrow> vec_at_int (constraints_selected c) (zv_pos v);
          sel \<leftarrow> vec_set (constraints_selected c) (nat (zv_pos v)) (old \<union> set (map fst ras));
          Some (c\<lparr>constraints_selected := sel\<rparr>, map snd ras) }"

definition ShouldAdd :: "candidate_constraints \<Rightarrow> z3_view \<Rightarrow> string \<Rightarrow> bool option" where
  "ShouldAdd c v name =
     (case cn_scorer c of
        None \<Rightarrow> Some True
      | Some sc \<Rightarrow>
          do { added \<leftarrow> vec_at_int (constraints_added c) (zv_pos v);
               max_rank \<leftarrow> vec_at_int (constraints_max_rank c) (zv_pos v);
               if added = max_rank then Some False
               else do { rank \<leftarrow> scorer_GetRank sc name max_rank;
                         Some (fst rank \<ge> added \<and> fst rank < max_rank) } })"

section \<open>What the scorer promises\<close>

text \<open>
  The cache has a non-empty list of well-formed candidates for every view but the content frame.
\<close>

definition scorer_ok :: "attr_scorer \<Rightarrow> nat \<Rightarrow> orientation \<Rightarrow> bool" where
  "scorer_ok sc n oi \<longleftrightarrow>
     length (as_views sc) = n \<and> 2 \<le> n \<and>
     (\<forall>i < n. view_pos (as_views sc ! i) = int i \<and> (view_id (as_views sc ! i) = 0) = (i = 0)) \<and>
     length (candidate_attrs (as_cache sc)) = n - 1 \<and> square n (allowed_targets (as_cache sc)) \<and>
     (\<forall>k < n - 1. \<forall>a \<in> set (candidate_attrs (as_cache sc) ! k).
        attribute_ok n (Suc k) oi a \<and> (IsRelationalAnchor (attr_type a) \<longrightarrow> attr_view_size a = FIXED))"

abbreviation cands_at :: "attr_scorer \<Rightarrow> nat \<Rightarrow> attribute list" where
  "cands_at sc i \<equiv> candidate_attrs (as_cache sc) ! (i - 1)"

lemma scorer_cands:
  assumes "scorer_ok sc n oi" "0 < i" "i < n"
  shows "candidates_of (as_cache sc) (int i) = Some (cands_at sc i)"
    "a \<in> set (cands_at sc i) \<Longrightarrow> attribute_ok n i oi a"
    "a \<in> set (cands_at sc i) \<Longrightarrow> IsRelationalAnchor (attr_type a) \<Longrightarrow> attr_view_size a = FIXED"
proof -
  obtain k where k: "i = Suc k" using assms(2) by (cases i) auto
  show "candidates_of (as_cache sc) (int i) = Some (cands_at sc i)"
    using assms(1,3) by (simp add: candidates_of_def k scorer_ok_def)
  have "k < n - 1" using assms(3) k by simp
  then have "\<forall>a \<in> set (cands_at sc i). attribute_ok n i oi a \<and> (IsRelationalAnchor (attr_type a) \<longrightarrow> attr_view_size a = FIXED)"
    using assms(1) unfolding scorer_ok_def k by simp
  then show "a \<in> set (cands_at sc i) \<Longrightarrow> attribute_ok n i oi a"
    "a \<in> set (cands_at sc i) \<Longrightarrow> IsRelationalAnchor (attr_type a) \<Longrightarrow> attr_view_size a = FIXED"
    by blast+
qed

lemma scorer_GetAttr_at:
  assumes "scorer_ok sc n oi" "0 < i" "i < n" "0 \<le> r"
  shows "scorer_GetAttr sc (int i) r =
    Some (if r < int (length (cands_at sc i)) then Some (cands_at sc i ! nat r) else None)"
  using scorer_cands(1) [OF assms(1-3)] assms(4)
  by (auto simp: scorer_GetAttr_def GetAttr_def vec_at_int_def vec_at_def)

lemma IsAllowed_total:
  assumes "scorer_ok sc n oi" "attribute_ok n i oi a" "i < n"
  shows "\<exists>b. scorer_IsAllowed sc a = Some b"
proof -
  have src: "attr_src a = i" and oi: "ConstraintTypeToOrientation (attr_type a) = Some oi"
    using assms(2) by (auto simp: attribute_ok_def)
  have len: "length (as_views sc) = n" and pos: "\<forall>i < n. view_pos (as_views sc ! i) = int i"
    and sq: "square n (allowed_targets (as_cache sc))"
    using assms(1) by (simp_all add: scorer_ok_def)
  note at = square_at(1) [OF sq assms(3)]
  from assms(2) show ?thesis
  proof (cases rule: ok_targets)
    case relational
    with at [OF relational(3)] show ?thesis
      using src oi len pos assms(3) by (auto simp: scorer_IsAllowed_def IsAllowed_def IsValid_def)
  next
    case (center j)
    with at [OF center(3)] at [OF center(4)] show ?thesis
      using src oi len pos assms(3) by (auto simp: scorer_IsAllowed_def IsAllowed_def IsValid_def)
  qed
qed

lemma eligible_total:
  assumes "scorer_ok sc n oi" "attribute_ok n i oi a" "i < n"
  shows "\<exists>b. eligible c sc a = Some b"
proof -
  obtain b where b: "scorer_IsAllowed sc a = Some b" using IsAllowed_total [OF assms] by blast
  have "\<exists>p. IsProhibitedConstraint c (as_views sc) a = Some p"
    using assms(1,3) assms(2)
    by (auto simp: IsProhibitedConstraint_def scorer_ok_def attribute_ok_def split: option.split)
  with b show ?thesis by (auto simp: eligible_def)
qed

text \<open>An eligible candidate passes the validity check of the encoder.\<close>

lemma eligible_valid: "eligible c sc a = Some True \<Longrightarrow> IsValid (as_views sc) a = Some True"
  by (auto simp: eligible_def scorer_IsAllowed_def IsAllowed_def bind_Some_iff split: if_splits)

section \<open>What a call hands out\<close>

lemma attributes_loop_result:
  assumes "scorer_ok sc n oi" "0 < i" "i < n" "\<forall>r \<in> set ranks. 0 \<le> r" "sorted ranks"
  shows "attributes_loop c sc (int i) anchor ranks =
    Some (map (\<lambda>r. (r, cands_at sc i ! nat r))
      (filter (\<lambda>r. r < int (length (cands_at sc i)) \<and> r \<noteq> anchor \<and> eligible c sc (cands_at sc i ! nat r) = Some True) ranks))"
  using assms(4,5)
proof (induction ranks)
  case (Cons r ranks)
  show ?case
  proof (cases "r < int (length (cands_at sc i))")
    case True
    then have "cands_at sc i ! nat r \<in> set (cands_at sc i)"
      using Cons.prems by (intro nth_mem) auto
    then obtain b where "eligible c sc (cands_at sc i ! nat r) = Some b"
      using eligible_total [OF assms(1) _ assms(3)] scorer_cands(2) [OF assms(1-3)] by blast
    with True Cons scorer_GetAttr_at [OF assms(1-3), of r] show ?thesis by (cases b) auto
  next
    case False
    then have "\<forall>x \<in> set ranks. \<not> x < int (length (cands_at sc i))" using Cons.prems by fastforce
    then have "filter (\<lambda>r. r < int (length (cands_at sc i)) \<and> r \<noteq> anchor \<and>
        eligible c sc (cands_at sc i ! nat r) = Some True) ranks = []"
      by (simp add: filter_empty_conv)
    with False Cons.prems scorer_GetAttr_at [OF assms(1-3), of r] show ?thesis by simp
  qed
qed simp

text \<open>
  The state between calls: the vectors have an entry per view and every view has an anchor, an
  eligible candidate whose targets are the content frame.
\<close>

definition root_targets :: "attribute \<Rightarrow> bool" where
  "root_targets a \<longleftrightarrow> (\<forall>j \<in> set (attr_targets a). j = 0)"

definition anchor_ok :: "candidate_constraints \<Rightarrow> attr_scorer \<Rightarrow> nat \<Rightarrow> int \<Rightarrow> bool" where
  "anchor_ok c sc i r \<longleftrightarrow>
     0 \<le> r \<and> r < int (length (cands_at sc i)) \<and> eligible c sc (cands_at sc i ! nat r) = Some True \<and>
     root_targets (cands_at sc i ! nat r)"

definition cand_ok :: "candidate_constraints \<Rightarrow> attr_scorer \<Rightarrow> nat \<Rightarrow> orientation \<Rightarrow> bool" where
  "cand_ok c sc n oi \<longleftrightarrow>
     cn_scorer c = Some sc \<and> scorer_ok sc n oi \<and>
     length (constraints_added c) = n \<and> length (constraints_max_rank c) = n \<and>
     length (constraints_selected c) = n \<and> length (cn_anchors c) = n \<and>
     (\<forall>i < n. 0 \<le> constraints_added c ! i \<and> constraints_added c ! i \<le> constraints_max_rank c ! i \<and> (0 < i \<longrightarrow> anchor_ok c sc i (cn_anchors c ! i)))"

text \<open>The ranks handed out for the view at \<open>i\<close>.\<close>

definition offered_ranks :: "candidate_constraints \<Rightarrow> attr_scorer \<Rightarrow> nat \<Rightarrow> int list" where
  "offered_ranks c sc i =
     (if constraints_added c ! i = 0 then [cn_anchors c ! i] else []) @
     filter (\<lambda>r. r < int (length (cands_at sc i)) \<and> r \<noteq> cn_anchors c ! i \<and>
         eligible c sc (cands_at sc i ! nat r) = Some True)
       [constraints_added c ! i..constraints_max_rank c ! i - 1]"

definition offered :: "candidate_constraints \<Rightarrow> attr_scorer \<Rightarrow> nat \<Rightarrow> attribute list" where
  "offered c sc i = map (\<lambda>r. cands_at sc i ! nat r) (offered_ranks c sc i)"

lemma ranked_attributes_result:
  assumes "cand_ok c sc n oi" "0 < i" "i < n" "zv_pos v = int i"
  shows "ranked_attributes c v = Some (map (\<lambda>r. (r, cands_at sc i ! nat r)) (offered_ranks c sc i))"
proof -
  have sc: "cn_scorer c = Some sc" "scorer_ok sc n oi" and len: "length (constraints_added c) = n"
    "length (constraints_max_rank c) = n" "length (cn_anchors c) = n"
    and anchor: "anchor_ok c sc i (cn_anchors c ! i)" and added: "0 \<le> constraints_added c ! i"
    using assms(1-3) by (auto simp: cand_ok_def)
  have "attributes_loop c sc (int i) (cn_anchors c ! i) [constraints_added c ! i..constraints_max_rank c ! i - 1] =
      Some (map (\<lambda>r. (r, cands_at sc i ! nat r)) (filter (\<lambda>r. r < int (length (cands_at sc i)) \<and>
        r \<noteq> cn_anchors c ! i \<and> eligible c sc (cands_at sc i ! nat r) = Some True)
        [constraints_added c ! i..constraints_max_rank c ! i - 1]))"
    using added by (intro attributes_loop_result [OF sc(2) assms(2,3)]) auto
  then show ?thesis
    using assms(3,4) sc len anchor scorer_GetAttr_at [OF sc(2) assms(2,3), of "cn_anchors c ! i"]
    by (simp add: ranked_attributes_def offered_ranks_def anchor_ok_def)
qed

definition same_candidates :: "candidate_constraints \<Rightarrow> candidate_constraints \<Rightarrow> bool" where
  "same_candidates c d \<longleftrightarrow> (\<exists>s. d = c\<lparr>constraints_selected := s\<rparr> \<and> length s = length (constraints_selected c))"

lemma IsProhibited_selected [simp]:
  "IsProhibitedConstraint (c\<lparr>constraints_selected := s\<rparr>) vs a = IsProhibitedConstraint c vs a"
  by (simp add: IsProhibitedConstraint_def cong: option.case_cong)

lemma eligible_selected [simp]: "eligible (c\<lparr>constraints_selected := s\<rparr>) sc a = eligible c sc a"
  by (simp add: eligible_def cong: if_cong)

lemma same_candidates_refl: "same_candidates c c"
  unfolding same_candidates_def by (rule exI [of _ "constraints_selected c"]) simp

lemma same_candidates_trans: "same_candidates c d \<Longrightarrow> same_candidates d e \<Longrightarrow> same_candidates c e"
  by (auto simp: same_candidates_def)

lemma same_candidates_ok:
  assumes "same_candidates c d"
  shows "cand_ok c sc n oi \<Longrightarrow> cand_ok d sc n oi" "offered d sc i = offered c sc i"
  using assms by (auto simp: same_candidates_def cand_ok_def anchor_ok_def offered_def offered_ranks_def)

lemma GetAttributes_result:
  assumes "cand_ok c sc n oi" "0 < i" "i < n" "zv_pos v = int i"
  shows "\<exists>d. GetAttributes c v = Some (d, offered c sc i) \<and> same_candidates c d"
  using ranked_attributes_result [OF assms] assms
  by (auto simp: GetAttributes_def offered_def cand_ok_def vec_set_def same_candidates_def comp_def)

lemma offered_ok:
  assumes "cand_ok c sc n oi" "0 < i" "i < n" "a \<in> set (offered c sc i)"
  shows "attribute_ok n i oi a" "IsRelationalAnchor (attr_type a) \<Longrightarrow> attr_view_size a = FIXED"
    "IsValid (as_views sc) a = Some True"
proof -
  have sc: "scorer_ok sc n oi" and anchor: "anchor_ok c sc i (cn_anchors c ! i)" and added: "0 \<le> constraints_added c ! i"
    using assms(1-3) by (auto simp: cand_ok_def)
  from assms(4) anchor added obtain r where r: "a = cands_at sc i ! nat r" "0 \<le> r" "r < int (length (cands_at sc i))"
      "eligible c sc a = Some True"
    by (auto simp: offered_def offered_ranks_def anchor_ok_def split: if_splits)
  then have "a \<in> set (cands_at sc i)" by simp
  then show "attribute_ok n i oi a" "IsRelationalAnchor (attr_type a) \<Longrightarrow> attr_view_size a = FIXED"
    using scorer_cands [OF sc assms(2,3)] by blast+
  show "IsValid (as_views sc) a = Some True" using r(4) by (rule eligible_valid)
qed


section \<open>Construction and updates\<close>

lemma AttrScorer_result:
  assumes "synth_ready vs oi" "model_answers model vs"
  shows "\<exists>sc. AttrScorer model vs oi = Some sc \<and> as_views sc = vs \<and> scorer_ok sc (length vs) oi \<and>
    (\<forall>k < length vs - 1. \<exists>a \<in> set (candidate_attrs (as_cache sc) ! k). root_aligned oi a) \<and>
    prune_inv (length vs) (candidate_attrs (as_cache sc)) {} (allowed_targets (as_cache sc))"
proof -
  obtain c where c: "ConstraintCache model vs oi = Some c" "length (candidate_attrs c) = length vs - 1"
    "\<forall>k < length vs - 1. candidates_ok vs oi (Suc k) (candidate_attrs c ! k)"
    "prune_inv (length vs) (candidate_attrs c) {} (allowed_targets c)"
    using ConstraintCache_result [OF assms] by blast
  have frame: "(view_id (vs ! i) = 0) = (i = 0)" "view_pos (vs ! i) = int i" if "i < length vs" for i
    using synth_ready_frame [OF assms(1) that] assms(1) that by (simp_all add: is_content_frame_def synth_ready_def)
  have "scorer_ok \<lparr>as_cache = c, as_views = vs\<rparr> (length vs) oi"
    using assms(1) frame c by (auto simp: scorer_ok_def synth_ready_def candidates_ok_def prune_inv_def generated_ok_def)
  moreover have "\<forall>k < length vs - 1. \<exists>a \<in> set (candidate_attrs c ! k). root_aligned oi a"
    using c(3) by (simp add: candidates_ok_def)
  ultimately show ?thesis using c by (simp add: AttrScorer_def)
qed

lemma root_aligned_eligible:
  assumes "scorer_ok sc n oi" "prune_inv n (candidate_attrs (as_cache sc)) {} (allowed_targets (as_cache sc))"
    and "0 < i" "i < n" "r < length (cands_at sc i)" "root_aligned oi (cands_at sc i ! r)"
    and "prohibited_constraints c = Map.empty" "view_view_size (as_views sc ! i) oi = None"
  shows "eligible c sc (cands_at sc i ! r) = Some True"
proof -
  let ?a = "cands_at sc i ! r"
  have ok: "attribute_ok n i oi ?a" using scorer_cands(2) [OF assms(1,3,4)] assms(5) by simp
  have rel: "IsRelationalAnchor (attr_type ?a)" "attr_type ?a \<in> {L2L, T2T}" "tgt_primary ?a = 0"
    using assms(6) by (auto simp: root_aligned_def start_type_def)
  have "allowed_targets (as_cache sc) ! i ! 0"
    using assms(1,2) rel(1,3) assms(3,4,5) unfolding prune_inv_def
    by (cases i) (auto simp: scorer_ok_def)
  moreover have "length (allowed_targets (as_cache sc)) = n" "length (allowed_targets (as_cache sc) ! i) = n"
    using assms(1,4) by (auto simp: scorer_ok_def square_def)
  moreover have "length (as_views sc) = n" "view_pos (as_views sc ! i) = int i" "view_pos (as_views sc ! 0) = 0"
    using assms(1,4) by (auto simp: scorer_ok_def)
  ultimately have "scorer_IsAllowed sc ?a = Some True"
    using ok rel assms(4,8)
    by (auto simp: scorer_IsAllowed_def IsAllowed_def IsValid_def attribute_ok_def allowed_at_def vec_at_int_def)
  then show ?thesis
    using assms(1,4,7) ok by (simp add: eligible_def IsProhibitedConstraint_def attribute_ok_def scorer_ok_def)
qed

lemma is_root_anchor_result:
  assumes "scorer_ok sc n oi" "attribute_ok n i oi a"
  shows "is_root_anchor (as_views sc) a = Some (root_targets a)"
  using assms(2)
proof (cases rule: ok_targets)
  case relational
  then have "\<not> IsCenterAnchor (attr_type a)" by (cases "attr_type a") (simp_all add: IsCenterAnchor_def)
  with relational assms(1) show ?thesis by (simp add: is_root_anchor_def root_targets_def scorer_ok_def)
next
  case (center j)
  then have "IsCenterAnchor (attr_type a)"
    by (cases "attr_type a") (simp_all add: IsCenterAnchor_def)
  with center assms(1) show ?thesis by (simp add: is_root_anchor_def root_targets_def scorer_ok_def)
qed

lemma anchor_loop_result:
  assumes "scorer_ok sc n oi" "0 < i" "i < n" "\<forall>r \<in> set ranks. 0 \<le> r \<and> r < int (length (cands_at sc i))"
    and "\<exists>r \<in> set ranks. anchor_ok c sc i r"
  shows "\<exists>r. anchor_loop c sc (int i) ranks = Some r \<and> anchor_ok c sc i r"
  using assms(4,5)
proof (induction ranks)
  case (Cons r ranks)
  let ?a = "cands_at sc i ! nat r"
  have r: "0 \<le> r" "r < int (length (cands_at sc i))" using Cons.prems(1) by simp_all
  then have ok: "attribute_ok n i oi ?a"
    by (intro scorer_cands(2) [OF assms(1-3)] nth_mem) simp
  obtain b where b: "eligible c sc ?a = Some b" using eligible_total [OF assms(1) ok assms(3)] by blast
  note step = b r scorer_GetAttr_at [OF assms(1-3) r(1)] is_root_anchor_result [OF assms(1) ok]
  show ?case
  proof (cases "anchor_ok c sc i r")
    case True
    with step show ?thesis by (simp add: anchor_ok_def)
  next
    case False
    with Cons have "\<exists>r. anchor_loop c sc (int i) ranks = Some r \<and> anchor_ok c sc i r" by simp
    with False step show ?thesis by (auto simp: anchor_ok_def)
  qed
qed simp

lemma anchor_ok_fields:
  "anchor_ok (c\<lparr>cn_anchors := as\<rparr>) sc i r = anchor_ok c sc i r"
proof -
  have "IsProhibitedConstraint (c\<lparr>cn_anchors := as\<rparr>) vs a = IsProhibitedConstraint c vs a" for vs a
    by (simp add: IsProhibitedConstraint_def cong: option.case_cong)
  then show ?thesis by (simp add: anchor_ok_def eligible_def cong: if_cong)
qed

lemma InitAnchor_result:
  assumes "scorer_ok sc n oi" "cn_scorer c = Some sc" "length (cn_views c) = n" "length (cn_anchors c) = n"
    and "\<forall>i < n. zv_pos (cn_views c ! i) = int i"
    and "\<forall>i. 0 < i \<and> i < n \<longrightarrow> (\<exists>r. anchor_ok c sc i r)"
  shows "\<exists>as. InitAnchor c = Some (c\<lparr>cn_anchors := as\<rparr>) \<and> length as = n \<and>
    (\<forall>i. 0 < i \<and> i < n \<longrightarrow> anchor_ok c sc i (as ! i))"
proof -
  let ?d = "c\<lparr>cn_anchors := (cn_anchors c)[0 := 0]\<rparr>"
  have step: "\<exists>as. fold_opt anchor_step ?d [1..<k] = Some (c\<lparr>cn_anchors := as\<rparr>) \<and> length as = n \<and>
      (\<forall>i. 0 < i \<and> i < k \<longrightarrow> anchor_ok c sc i (as ! i))" if "k \<le> n" for k
    using that
  proof (induction k)
    case 0
    then show ?case using assms(4) by (intro exI [of _ "(cn_anchors c)[0 := 0]"]) simp
  next
    case (Suc k)
    then obtain as where as: "fold_opt anchor_step ?d [1..<k] = Some (c\<lparr>cn_anchors := as\<rparr>)" "length as = n"
      "\<forall>i. 0 < i \<and> i < k \<longrightarrow> anchor_ok c sc i (as ! i)" by auto
    show ?case
    proof (cases "k = 0")
      case True
      then show ?thesis using assms(4) by (intro exI [of _ "(cn_anchors c)[0 := 0]"]) simp
    next
      case False
      with Suc.prems have k: "0 < k" "k < n" by simp_all
      let ?e = "c\<lparr>cn_anchors := as\<rparr>"
      obtain r0 where "anchor_ok c sc k r0" using assms(6) k by blast
      then have "\<exists>r \<in> set (map int [0..<length (cands_at sc k)]). anchor_ok ?e sc k r"
        unfolding anchor_ok_fields by (intro bexI [of _ r0]) (auto simp: anchor_ok_def image_iff intro!: bexI [of _ "nat r0"])
      then obtain r where r: "anchor_loop ?e sc (int k) (map int [0..<length (cands_at sc k)]) = Some r"
          "anchor_ok c sc k r"
        using anchor_loop_result [OF assms(1) k, of "map int [0..<length (cands_at sc k)]" ?e]
        by (auto simp: anchor_ok_fields)
      then have "r \<noteq> - 1" by (auto simp: anchor_ok_def)
      then have "anchor_step ?e k = Some (c\<lparr>cn_anchors := as[k := r]\<rparr>)"
        using assms(2,3,5) k as(2) r scorer_cands(1) [OF assms(1) k]
        by (simp add: anchor_step_def scorer_NumConstraints_def NumConstraints_def vec_set_def)
      moreover have "[1..<Suc k] = [1..<k] @ [k]" using k by simp
      ultimately show ?thesis
        using as r(2) k by (intro exI [of _ "as[k := r]"])
          (auto simp: fold_opt_append nth_list_update less_Suc_eq simp del: upt_Suc)
    qed
  qed
  have "0 < n" using assms(1) by (simp add: scorer_ok_def)
  with step [of n] assms(3,4) show ?thesis by (simp add: InitAnchor_def vec_set_def)
qed

lemma CandidateConstraints_result:
  assumes "synth_ready vs oi" "model_answers model vs" "\<forall>i < length vs. view_view_size (vs ! i) oi = None"
    and "length zs = length vs" "\<forall>i < length vs. zv_pos (zs ! i) = int i"
  shows "\<exists>sc c. AttrScorer model vs oi = Some sc \<and> as_views sc = vs \<and>
    CandidateConstraints (Some sc) zs = Some c \<and> cand_ok c sc (length vs) oi \<and>
    constraints_added c = replicate (length vs) 0 \<and> constraints_max_rank c = replicate (length vs) 0"
proof -
  let ?n = "length vs"
  obtain sc where sc: "AttrScorer model vs oi = Some sc" "as_views sc = vs" "scorer_ok sc ?n oi"
    "\<forall>k < ?n - 1. \<exists>a \<in> set (candidate_attrs (as_cache sc) ! k). root_aligned oi a"
    "prune_inv ?n (candidate_attrs (as_cache sc)) {} (allowed_targets (as_cache sc))"
    using AttrScorer_result [OF assms(1,2)] by blast
  let ?c = "\<lparr>cn_scorer = Some sc, cn_views = zs, constraints_added = replicate ?n 0,
       constraints_max_rank = replicate ?n 0, constraints_selected = replicate ?n {},
       prohibited_constraints = Map.empty, cn_anchors = replicate ?n (- 1)\<rparr>"
  have "\<exists>r. anchor_ok ?c sc i r" if i: "0 < i" "i < ?n" for i
  proof -
    have "i - 1 < ?n - 1" using i by linarith
    then obtain a where "a \<in> set (cands_at sc i)" "root_aligned oi a" using sc(4) by blast
    then obtain r where r: "r < length (cands_at sc i)" "root_aligned oi (cands_at sc i ! r)"
      by (auto simp: in_set_conv_nth)
    have "eligible ?c sc (cands_at sc i ! r) = Some True"
      using root_aligned_eligible [OF sc(3,5) i r, of ?c] assms(3) i sc(2) by simp
    moreover have "root_targets (cands_at sc i ! r)"
      using r(2) by (simp add: root_targets_def root_aligned_targets)
    ultimately show ?thesis using r(1) by (intro exI [of _ "int r"]) (simp add: anchor_ok_def)
  qed
  then obtain as where as: "InitAnchor ?c = Some (?c\<lparr>cn_anchors := as\<rparr>)" "length as = ?n"
    "\<forall>i. 0 < i \<and> i < ?n \<longrightarrow> anchor_ok ?c sc i (as ! i)"
    using InitAnchor_result [OF sc(3), of ?c] assms(4,5) by auto
  then have "cand_ok (?c\<lparr>cn_anchors := as\<rparr>) sc ?n oi"
    using sc(3) anchor_ok_fields [of as ?c sc] by (simp add: cand_ok_def)
  with as sc(1,2) assms(4) show ?thesis by (simp add: CandidateConstraints_def)
qed

text \<open>The operations between two calls.\<close>

lemma eligible_fields [simp]:
  "eligible (c\<lparr>constraints_max_rank := ms\<rparr>) sc a = eligible c sc a"
  "eligible (c\<lparr>constraints_added := ms\<rparr>) sc a = eligible c sc a"
proof -
  have "IsProhibitedConstraint (c\<lparr>constraints_max_rank := ms\<rparr>) vs a = IsProhibitedConstraint c vs a"
    "IsProhibitedConstraint (c\<lparr>constraints_added := ms\<rparr>) vs a = IsProhibitedConstraint c vs a" for vs
    by (simp_all add: IsProhibitedConstraint_def cong: option.case_cong)
  then show "eligible (c\<lparr>constraints_max_rank := ms\<rparr>) sc a = eligible c sc a"
    "eligible (c\<lparr>constraints_added := ms\<rparr>) sc a = eligible c sc a"
    by (simp_all add: eligible_def cong: if_cong)
qed

lemma cand_ok_updates:
  assumes "cand_ok c sc n oi"
  shows "0 \<le> k \<Longrightarrow> cand_ok (IncreaseRank k c) sc n oi"
    "cand_ok (FinishAdding c) sc n oi" "cand_ok (ResetAdding c) sc n oi"
  using assms by (auto simp: cand_ok_def IncreaseRank_def FinishAdding_def ResetAdding_def anchor_ok_def
      intro: order_trans)

lemma IncreaseRank_view_result:
  assumes "cand_ok c sc n oi" "i < n" "zv_pos v = int i" "0 \<le> k"
  shows "IncreaseRank_view c v k = Some (c\<lparr>constraints_max_rank := (constraints_max_rank c)[i := constraints_max_rank c ! i + k]\<rparr>)"
    "cand_ok (c\<lparr>constraints_max_rank := (constraints_max_rank c)[i := constraints_max_rank c ! i + k]\<rparr>) sc n oi"
proof -
  show "IncreaseRank_view c v k = Some (c\<lparr>constraints_max_rank := (constraints_max_rank c)[i := constraints_max_rank c ! i + k]\<rparr>)"
    using assms by (simp add: IncreaseRank_view_def cand_ok_def vec_set_def)
  show "cand_ok (c\<lparr>constraints_max_rank := (constraints_max_rank c)[i := constraints_max_rank c ! i + k]\<rparr>) sc n oi"
    using assms by (auto simp: cand_ok_def anchor_ok_def nth_list_update intro: order_trans)
qed

lemma offered_ranks_distinct:
  assumes "cand_ok c sc n oi" "0 < i" "i < n"
  shows "distinct (offered_ranks c sc i)"
  by (simp add: offered_ranks_def)

text \<open>
  C35. Raising the rank of a view after a round hands out exactly the candidates that were missing:
  what the first call and the call after the raise hand out is what one call with the raised rank
  would have handed out, in the same order. In particular no candidate is handed out twice.
\<close>

theorem GetAttributes_incremental:
  assumes "cand_ok c sc n oi" "0 < i" "i < n" "zv_pos v = int i" "0 < constraints_max_rank c ! i" "0 \<le> k"
  shows "\<exists>c1 as1 d e as2 f g as. GetAttributes c v = Some (c1, as1) \<and>
    IncreaseRank_view (FinishAdding c1) v k = Some d \<and> GetAttributes d v = Some (e, as2) \<and>
    IncreaseRank_view c v k = Some f \<and> GetAttributes f v = Some (g, as) \<and> as = as1 @ as2"
proof -
  let ?m = "constraints_max_rank c ! i"
  obtain c1 where c1: "GetAttributes c v = Some (c1, offered c sc i)" "same_candidates c c1"
    using GetAttributes_result [OF assms(1-4)] by blast
  note ok1 = cand_ok_updates(2) [OF same_candidates_ok(1) [OF c1(2) assms(1)]]
  note inc1 = IncreaseRank_view_result [OF ok1 assms(3,4,6)]
  let ?d = "(FinishAdding c1)\<lparr>constraints_max_rank := (constraints_max_rank (FinishAdding c1))
      [i := constraints_max_rank (FinishAdding c1) ! i + k]\<rparr>"
  obtain e where e: "GetAttributes ?d v = Some (e, offered ?d sc i)"
    using GetAttributes_result [OF inc1(2) assms(2,3,4)] by blast
  note inc2 = IncreaseRank_view_result [OF assms(1,3,4,6)]
  let ?f = "c\<lparr>constraints_max_rank := (constraints_max_rank c)[i := ?m + k]\<rparr>"
  obtain g where g: "GetAttributes ?f v = Some (g, offered ?f sc i)"
    using GetAttributes_result [OF inc2(2) assms(2,3,4)] by blast
  have added: "0 \<le> constraints_added c ! i" "constraints_added c ! i \<le> ?m"
    and len: "length (constraints_added c) = n" "length (constraints_max_rank c) = n"
    using assms(1,3) by (auto simp: cand_ok_def)
  have "[constraints_added c ! i..?m + k - 1] = [constraints_added c ! i..?m - 1] @ [?m..?m + k - 1]"
    using upto_split1 [of "constraints_added c ! i" ?m "?m + k - 1"] added assms(6)
      upto_split1 [of "constraints_added c ! i" "?m" "?m + k - 1"]
    by (cases "k = 0") auto
  then have "offered ?f sc i = offered c sc i @ offered ?d sc i"
    using c1(2) len assms(3,5)
    by (auto simp: same_candidates_def offered_def offered_ranks_def FinishAdding_def)
  with c1(1) inc1(1) e inc2(1) g show ?thesis by blast
qed

lemma offered_first:
  assumes "cand_ok c sc n oi" "0 < i" "i < n" "constraints_added c ! i = 0"
  shows "\<exists>a as. offered c sc i = a # as \<and> root_targets a"
  using assms by (auto simp: offered_def offered_ranks_def cand_ok_def anchor_ok_def)

text \<open>
  C34. For an app without constraints whose views do not start before the content frame and have no
  prescribed sizes the candidates can be set up, and the first call for a view hands out valid
  constraints of that view, the first of which refers to the content frame only.
\<close>

theorem CandidateConstraints_anchored:
  assumes "synth_ready vs oi" "model_answers model vs" "\<forall>i < length vs. view_view_size (vs ! i) oi = None"
    and "length zs = length vs" "\<forall>i < length vs. zv_pos (zs ! i) = int i" "0 \<le> k"
  shows "\<exists>sc c. AttrScorer model vs oi = Some sc \<and> CandidateConstraints (Some sc) zs = Some c \<and>
    (\<forall>i. 0 < i \<and> i < length vs \<longrightarrow>
       (\<exists>d a as. GetAttributes (IncreaseRank k c) (zs ! i) = Some (d, a # as) \<and> root_targets a \<and>
          (\<forall>b \<in> set (a # as). attribute_ok (length vs) i oi b \<and> IsValid vs b = Some True)))"
proof -
  obtain sc c where c: "AttrScorer model vs oi = Some sc" "as_views sc = vs" "CandidateConstraints (Some sc) zs = Some c"
    "cand_ok c sc (length vs) oi" "constraints_added c = replicate (length vs) 0"
    using CandidateConstraints_result [OF assms(1-5)] by blast
  note ok = cand_ok_updates(1) [OF c(4) assms(6)]
  have "\<exists>d a as. GetAttributes (IncreaseRank k c) (zs ! i) = Some (d, a # as) \<and> root_targets a \<and>
      (\<forall>b \<in> set (a # as). attribute_ok (length vs) i oi b \<and> IsValid vs b = Some True)"
    if i: "0 < i" "i < length vs" for i
  proof -
    have "constraints_added (IncreaseRank k c) ! i = 0" using c(5) i(2) by (simp add: IncreaseRank_def)
    then obtain a as where a: "offered (IncreaseRank k c) sc i = a # as" "root_targets a"
      using offered_first [OF ok i] by blast
    obtain d where "GetAttributes (IncreaseRank k c) (zs ! i) = Some (d, a # as)"
      using GetAttributes_result [OF ok i] assms(5) i(2) a(1) by auto
    with a offered_ok [OF ok i] c(2) show ?thesis by auto
  qed
  with c(1,3) show ?thesis by blast
qed

text \<open>Both on the views of the sample app.\<close>

lemma sample_candidates:
  shows "synth_ready (app_views sample_plain) HORIZONTAL" "model_answers (\<lambda>vs a. Some 0) (app_views sample_plain)"
    "\<forall>i < length (app_views sample_plain). view_view_size (app_views sample_plain ! i) HORIZONTAL = None"
    "length sample_z3_views = length (app_views sample_plain)"
    "\<forall>i < length (app_views sample_plain). zv_pos (sample_z3_views ! i) = int i"
  using sample_plain_blank
  by (auto simp: blank_app_def model_answers_def sample_plain_def View_make_def sample_z3_views_def
      sample_z3_view_pos nth_Cons split: nat.split)

lemma CandidateConstraints_anchored_witness:
  "\<exists>sc c d a. AttrScorer (\<lambda>vs a. Some 0) (app_views sample_plain) HORIZONTAL = Some sc \<and>
     CandidateConstraints (Some sc) sample_z3_views = Some c \<and>
     GetAttributes (IncreaseRank 5 c) (sample_z3_views ! 2) = Some d \<and> root_targets (snd d ! 0)"
proof -
  obtain sc c where c: "AttrScorer (\<lambda>vs a. Some 0) (app_views sample_plain) HORIZONTAL = Some sc"
      "CandidateConstraints (Some sc) sample_z3_views = Some c"
    and all: "\<forall>i. 0 < i \<and> i < length (app_views sample_plain) \<longrightarrow>
       (\<exists>d a as. GetAttributes (IncreaseRank 5 c) (sample_z3_views ! i) = Some (d, a # as) \<and> root_targets a \<and>
          (\<forall>b \<in> set (a # as). attribute_ok (length (app_views sample_plain)) i HORIZONTAL b \<and>
             IsValid (app_views sample_plain) b = Some True))"
    using CandidateConstraints_anchored [OF sample_candidates, of 5, OF zero_le_numeral] by (elim exE conjE) (rule that)
  have "0 < (2 :: nat) \<and> 2 < length (app_views sample_plain)" by (simp add: sample_plain_def)
  with all obtain d a as where "GetAttributes (IncreaseRank 5 c) (sample_z3_views ! 2) = Some (d, a # as)" "root_targets a"
    by blast
  with c show ?thesis by (metis nth_Cons_0 snd_conv)
qed

lemma GetAttributes_incremental_witness:
  "\<exists>c c1 as1 d e as2 f g as. GetAttributes c (sample_z3_views ! 2) = Some (c1, as1) \<and>
     IncreaseRank_view (FinishAdding c1) (sample_z3_views ! 2) 10 = Some d \<and>
     GetAttributes d (sample_z3_views ! 2) = Some (e, as2) \<and>
     IncreaseRank_view c (sample_z3_views ! 2) 10 = Some f \<and>
     GetAttributes f (sample_z3_views ! 2) = Some (g, as) \<and> as = as1 @ as2"
proof -
  obtain sc c where c: "cand_ok c sc (length (app_views sample_plain)) HORIZONTAL"
      "constraints_max_rank c = replicate (length (app_views sample_plain)) 0"
    using CandidateConstraints_result [OF sample_candidates] by blast
  have len: "length (app_views sample_plain) = 3" by (simp add: sample_plain_def)
  have "zv_pos (sample_z3_views ! 2) = int 2" using sample_candidates(5) len by simp
  moreover have "0 < constraints_max_rank (IncreaseRank 5 c) ! 2" using c(2) len by (simp add: IncreaseRank_def)
  ultimately show ?thesis
    using GetAttributes_incremental [OF cand_ok_updates(1) [OF c(1), of 5], of 2 "sample_z3_views ! 2" 10] len
    by (simp del: One_nat_def) blast
qed

end
