(* ===== verification/Smt_Encoding.thy ===== *)
theory Smt_Encoding
  imports Smt_Candidates
begin

text \<open>
  How \<^verbatim>\<open>FullSynthesis\<close> of \<^verbatim>\<open>z3inference.h\<close> encodes the synthesis problem: constraints on the
  positions, margins and biases, an anchor number per view, one Boolean constant per candidate
  constraint that implies its encoding, and \<^verbatim>\<open>FinishedAddingConstraints\<close>, which asks for exactly
  one candidate per view. The encoder threads the list of assertions and the views, whose vector
  of constants grows. The lemmas give the meaning of each group of assertions in terms of the
  model alone, and show that a model selects constraints without circular references.
\<close>

section \<open>Positions, anchors, selection\<close>

abbreviation NumGe :: "z3_num \<Rightarrow> z3_num \<Rightarrow> z3_bool" where
  "NumGe a b \<equiv> NumLe b a"

definition position_assertions :: "bool \<Rightarrow> z3_view \<Rightarrow> assertions" where
  "position_assertions fixed_bias v =
     [NumGe (margin_start_v v) (IntVal 0), NumGe (margin_end_v v) (IntVal 0),
      NumEq (position_start_v v) (IntVal (zv_start v)), NumEq (position_end_v v) (IntVal (zv_end v))] @
     (if fixed_bias then [NumEq (GetBiasExpr v) (NumVal (1 / 2))]
      else [NumGe (GetBiasExpr v) (IntVal 0), NumLe (GetBiasExpr v) (IntVal 1)])"

definition AddPositionConstraints :: "assertions \<Rightarrow> z3_view list \<Rightarrow> bool \<Rightarrow> assertions" where
  "AddPositionConstraints s zs fixed_bias = s @ concat (map (position_assertions fixed_bias) zs)"

definition anchor_assertion :: "z3_view \<Rightarrow> z3_bool" where
  "anchor_assertion v =
     (if zv_pos v = 0 then NumEq (GetAnchorExpr v) (IntVal 0) else NumLt (IntVal 0) (GetAnchorExpr v))"

definition AddAnchorConstraints :: "assertions \<Rightarrow> z3_view list \<Rightarrow> assertions" where
  "AddAnchorConstraints s zs = s @ map anchor_assertion zs"

definition FinishedAddingConstraints_view :: "assertions \<Rightarrow> z3_view \<Rightarrow> assertions option" where
  "FinishedAddingConstraints_view s v =
     do { CHECK (length (zv_constraints v) \<ge> 1);
          Some (s @ [Implies (GetConstraintsSatisfied v)
                       (PbEq (zv_constraints v) (replicate (length (zv_constraints v)) 1) 1)]) }"

definition FinishedAddingConstraints :: "assertions \<Rightarrow> z3_view list \<Rightarrow> assertions option" where
  "FinishedAddingConstraints s zs =
     fold_opt (\<lambda>s v. if zv_pos v = 0 then Some s else FinishedAddingConstraints_view s v) s zs"

definition fixed_position_assertions :: "z3_view \<Rightarrow> assertions" where
  "fixed_position_assertions v =
     [NumEq (position_start_v v) (IntVal (zv_start v)), NumEq (position_end_v v) (IntVal (zv_end v))]"

text \<open>\<^verbatim>\<open>addBlockingConstraints\<close>: not all views where they were.\<close>

definition addBlockingConstraints :: "assertions \<Rightarrow> z3_view list \<Rightarrow> assertions option" where
  "addBlockingConstraints s zs =
     do { root \<leftarrow> vec_at zs 0;
          let x = BoolConst ''x_empty_expr'';
          let old = foldl (\<lambda>e v. if zv_pos v = 0 then e
                 else And (And e (NumEq (position_start_v v) (IntVal (zv_start v))))
                        (NumEq (position_end_v v) (IntVal (zv_end v)))) x zs;
          Some (s @ fixed_position_assertions root @ [x, Neg old]) }"

text \<open>The constants that are assumed by a check.\<close>

definition GetAssumptions :: "z3_view list \<Rightarrow> assertions" where
  "GetAssumptions zs = map GetConstraintsSatisfied (filter (\<lambda>v. zv_pos v \<noteq> 0) zs)"

section \<open>All constraints between views\<close>

text \<open>
  The three generators of every constraint of a kind, with a filter on the name that may itself
  add assertions. \<open>src\<close> is a reference into the vector of views, given by its position.
\<close>

type_synonym enc_state = "z3_view list \<times> assertions"
type_synonym name_filter = "assertions \<Rightarrow> string \<Rightarrow> z3_view \<Rightarrow> (assertions \<times> bool) option"

definition name_of_constraint ::
    "z3_view \<Rightarrow> constraint_type \<Rightarrow> view_size \<Rightarrow> z3_view \<Rightarrow> z3_view option \<Rightarrow> string option" where
  "name_of_constraint v t sz l sec =
     (case sec of None \<Rightarrow> ConstraintName v t sz l | Some r \<Rightarrow> ConstraintName2 v t sz l r)"

definition anchor_equation :: "z3_view \<Rightarrow> z3_view \<Rightarrow> z3_view option \<Rightarrow> z3_bool" where
  "anchor_equation src l sec =
     NumEq (GetAnchorExpr src)
       (NumAdd (case sec of None \<Rightarrow> GetAnchorExpr l | Some r \<Rightarrow> NumAdd (GetAnchorExpr l) (GetAnchorExpr r)) (IntVal 1))"

definition opt_at :: "'a list \<Rightarrow> nat option \<Rightarrow> 'a option option" where
  "opt_at xs k = (case k of None \<Rightarrow> Some None | Some j \<Rightarrow> map_option Some (vec_at xs j))"

definition add_encoded ::
    "name_filter \<Rightarrow> orientation \<Rightarrow> view_size \<Rightarrow> nat \<Rightarrow> nat \<Rightarrow> nat option \<Rightarrow> enc_state \<Rightarrow> encoded_type \<Rightarrow> enc_state option" where
  "add_encoded filt oi sz i j k st c =
     (let zs = fst st; t = GetType c oi in
      do { src \<leftarrow> vec_at zs i; l \<leftarrow> vec_at zs j; sec \<leftarrow> opt_at zs k;
           name \<leftarrow> name_of_constraint src t sz l sec;
           r \<leftarrow> filt (snd st) name src;
           if \<not> snd r then Some (zs, fst r)
           else do { value \<leftarrow> snd c src l sec;
                     Some (zs[i := src\<lparr>zv_constraints := zv_constraints src @ [name]\<rparr>],
                           fst r @ [Implies (BoolConst name) (And value (anchor_equation src l sec))]) } })"

definition AddFixedSizeRelationalConstraint ::
    "name_filter \<Rightarrow> orientation \<Rightarrow> nat \<Rightarrow> enc_state \<Rightarrow> enc_state option" where
  "AddFixedSizeRelationalConstraint filt oi i st =
     fold_opt (\<lambda>st j.
       do { src \<leftarrow> vec_at (fst st) i; tgt \<leftarrow> vec_at (fst st) j;
            if same_z3_view src tgt then Some st
            else fold_opt (\<lambda>st c. if zv_pos tgt = 0 \<and> GetType c oi \<in> {T2B, B2T, L2R, R2L} then Some st
                                  else add_encoded filt oi FIXED i j None st c) st RELATIONAL_FIXED_SIZE })
       st [0..<length (fst st)]"

definition centering_excluded :: "constraint_type \<Rightarrow> z3_view \<Rightarrow> z3_view \<Rightarrow> bool" where
  "centering_excluded t l r \<longleftrightarrow>
     t \<in> {L2RxR2L, T2BxB2T} \<and> same_z3_view l r \<or>
     zv_pos l = 0 \<and> zv_pos r = 0 \<and> t \<in> {L2LxR2L, L2RxR2R, T2TxB2T, T2BxB2B}"

definition add_centering ::
    "name_filter \<Rightarrow> orientation \<Rightarrow> view_size \<Rightarrow> encoded_type list \<Rightarrow> nat \<Rightarrow> enc_state \<Rightarrow> enc_state option" where
  "add_centering filt oi sz cs i st =
     fold_opt (\<lambda>st j. fold_opt (\<lambda>st k.
       do { src \<leftarrow> vec_at (fst st) i; l \<leftarrow> vec_at (fst st) j; r \<leftarrow> vec_at (fst st) k;
            if same_z3_view l src \<or> same_z3_view r src then Some st
            else fold_opt (\<lambda>st c. if centering_excluded (GetType c oi) l r then Some st
                                  else add_encoded filt oi sz i j (Some k) st c) st cs })
       st [0..<length (fst st)]) st [0..<length (fst st)]"

definition AddFixedSizeCenteringConstraint ::
    "name_filter \<Rightarrow> orientation \<Rightarrow> nat \<Rightarrow> enc_state \<Rightarrow> enc_state option" where
  "AddFixedSizeCenteringConstraint filt oi i st = add_centering filt oi FIXED CENTERING_FIXED_SIZE i st"

definition AddMatchConstraintCenteringConstraint ::
    "name_filter \<Rightarrow> orientation \<Rightarrow> nat \<Rightarrow> enc_state \<Rightarrow> enc_state option" where
  "AddMatchConstraintCenteringConstraint filt oi i st =
     add_centering filt oi MATCH_CONSTRAINT CENTERING_MATCH_CONSTRAINT i st"

definition ForEachNonRootView :: "(nat \<Rightarrow> enc_state \<Rightarrow> enc_state option) \<Rightarrow> enc_state \<Rightarrow> enc_state option" where
  "ForEachNonRootView fn st =
     fold_opt (\<lambda>st i. do { v \<leftarrow> vec_at (fst st) i; if zv_pos v = 0 then Some st else fn i st })
       st [0..<length (fst st)]"

definition keep_all :: name_filter where
  "keep_all s name src = Some (s, True)"

section \<open>The candidates\<close>

text \<open>
  \<^verbatim>\<open>findView\<close>: the solver's view for a view of the app. The views of the attributes are those of
  the scorer (\<open>vs\<close>).
\<close>

definition findView_z3 :: "view list \<Rightarrow> nat \<Rightarrow> nat option" where
  "findView_z3 vs i = do { v \<leftarrow> vec_at vs i; CHECK (view_pos v \<ge> 0); Some (nat (view_pos v)) }"

definition ValidConstraint :: "constraint_type \<Rightarrow> z3_view \<Rightarrow> z3_view option \<Rightarrow> bool option" where
  "ValidConstraint t l sec =
     (if IsRelationalAnchor t then Some (\<not> (zv_pos l = 0 \<and> t \<in> {T2B, B2T, L2R, R2L}))
      else do { r \<leftarrow> sec; Some (\<not> centering_excluded t l r) })"

text \<open>\<^verbatim>\<open>StringPrintf("%f", p)\<close> read back by \<^verbatim>\<open>real_val\<close>: six decimals.\<close>

definition six_decimals :: "real \<Rightarrow> real" where
  "six_decimals p = cround (p * 10 ^ 6) / 10 ^ 6"

record resolved =
  rs_src :: nat
  rs_value :: z3_bool
  rs_views :: "z3_view list"
  rs_name :: string
  rs_anchor :: z3_bool

text \<open>What both encoders of attributes do first: find the views, encode, add the constant.\<close>

definition resolve_attribute :: "view list \<Rightarrow> z3_view list \<Rightarrow> bool \<Rightarrow> attribute \<Rightarrow> resolved option" where
  "resolve_attribute vs zs check_valid a =
     do { i \<leftarrow> findView_z3 vs (attr_src a); src \<leftarrow> vec_at zs i;
          j \<leftarrow> findView_z3 vs (tgt_primary a); l \<leftarrow> vec_at zs j;
          sec \<leftarrow> (case tgt_secondary a of None \<Rightarrow> Some None
                  | Some q \<Rightarrow> do { k \<leftarrow> findView_z3 vs q; map_option Some (vec_at zs k) });
          valid \<leftarrow> ValidConstraint (attr_type a) l sec;
          CHECK (\<not> check_valid \<or> valid);
          enc \<leftarrow> ResolveAttr a;
          value \<leftarrow> enc src l sec;
          sec' \<leftarrow> (if IsRelationalAnchor (attr_type a) then Some None else do { r \<leftarrow> sec; Some (Some r) });
          name \<leftarrow> name_of_constraint src (attr_type a)
                   (if IsRelationalAnchor (attr_type a) then FIXED else attr_view_size a) l sec';
          Some \<lparr>rs_src = i, rs_value = value,
                rs_views = zs[i := src\<lparr>zv_constraints := zv_constraints src @ [name]\<rparr>], rs_name = name,
                rs_anchor = anchor_equation src l sec'\<rparr> }"

definition syn_attribute ::
    "view list \<Rightarrow> bool \<Rightarrow> enc_state \<Rightarrow> attribute \<Rightarrow> enc_state option" where
  "syn_attribute vs opt st a =
     do { r \<leftarrow> resolve_attribute vs (fst st) True a;
          src \<leftarrow> vec_at (fst st) (rs_src r);
          Some (rs_views r,
                snd st @ [Implies (BoolConst (rs_name r)) (And (rs_value r) (rs_anchor r))] @
                (if opt then [Implies (BoolConst (rs_name r)) (NumEq (GetCostExpr src) (NumVal (six_decimals (attr_prob a))))]
                 else [])) }"

definition view_size_of :: "view list \<Rightarrow> orientation \<Rightarrow> int \<Rightarrow> int option" where
  "view_size_of vs oi i =
     do { v \<leftarrow> vec_at_int vs i; Some (if oi = HORIZONTAL then rect_width v else rect_height v) }"

definition size_assertion :: "view list \<Rightarrow> orientation \<Rightarrow> z3_view \<Rightarrow> attribute \<Rightarrow> z3_bool option" where
  "size_assertion app_vs oi src a =
     (if attr_view_size a = FIXED
      then do { size \<leftarrow> view_size_of app_vs oi (zv_pos src);
                Some (NumEq (NumAdd (position_start_v src) (IntVal size)) (position_end_v src)) }
      else Some (NumGe (NumSub (position_end_v src) (position_start_v src)) (IntVal 0)))"

definition gen_attribute ::
    "view list \<Rightarrow> view list \<Rightarrow> orientation \<Rightarrow> enc_state \<Rightarrow> attribute \<Rightarrow> enc_state option" where
  "gen_attribute vs app_vs oi st a =
     do { r \<leftarrow> resolve_attribute vs (fst st) False a;
          src \<leftarrow> vec_at (fst st) (rs_src r);
          size \<leftarrow> size_assertion app_vs oi src a;
          Some (rs_views r, snd st @ [Implies (BoolConst (rs_name r)) (And (rs_value r) size)]) }"

text \<open>The loop over the views and their candidates; the candidates note what they hand out.\<close>

definition each_candidate ::
    "(view list \<Rightarrow> enc_state \<Rightarrow> attribute \<Rightarrow> enc_state option) \<Rightarrow> candidate_constraints \<Rightarrow> enc_state \<Rightarrow>
      (candidate_constraints \<times> enc_state) option" where
  "each_candidate add c st =
     fold_opt (\<lambda>cs i.
       do { v \<leftarrow> vec_at (fst (snd cs)) i;
            if zv_pos v = 0 then Some cs
            else do { r \<leftarrow> GetAttributes (fst cs) v;
                      sc \<leftarrow> cn_scorer (fst cs);
                      st' \<leftarrow> fold_opt (add (as_views sc)) (snd cs) (snd r);
                      Some (fst r, st') } })
       (c, st) [0..<length (fst st)]"

definition AddSynAttributes ::
    "bool \<Rightarrow> candidate_constraints \<Rightarrow> enc_state \<Rightarrow> (candidate_constraints \<times> enc_state) option" where
  "AddSynAttributes opt c st = each_candidate (\<lambda>vs. syn_attribute vs opt) c st"

definition AddGenAttributes ::
    "view list \<Rightarrow> orientation \<Rightarrow> candidate_constraints \<Rightarrow> enc_state \<Rightarrow> (candidate_constraints \<times> enc_state) option" where
  "AddGenAttributes app_vs oi c st = each_candidate (\<lambda>vs. gen_attribute vs app_vs oi) c st"

text \<open>
  \<^verbatim>\<open>AddSynConstraints\<close> and \<^verbatim>\<open>AddGenConstraints\<close>: the same through the generators of all constraints.
  The third filter of \<^verbatim>\<open>AddGenConstraints\<close> uses a \<^verbatim>\<open>cond\<close> that it does not declare; it is a
  parameter here.
\<close>

definition syn_filter :: "bool \<Rightarrow> candidate_constraints \<Rightarrow> name_filter" where
  "syn_filter opt c s name src =
     do { add \<leftarrow> ShouldAdd c src name;
          if \<not> add then Some (s, False)
          else if opt then
            do { sc \<leftarrow> cn_scorer c; r \<leftarrow> scorer_GetRank sc name (- 1);
                 Some (s @ [Implies (BoolConst name) (NumEq (GetCostExpr src) (NumVal (six_decimals (snd r))))], True) }
          else Some (s, True) }"

definition AddSynConstraints ::
    "bool \<Rightarrow> orientation \<Rightarrow> candidate_constraints \<Rightarrow> enc_state \<Rightarrow> enc_state option" where
  "AddSynConstraints opt oi c st =
     do { st1 \<leftarrow> ForEachNonRootView (AddFixedSizeRelationalConstraint (syn_filter opt c) oi) st;
          st2 \<leftarrow> ForEachNonRootView (AddFixedSizeCenteringConstraint (syn_filter opt c) oi) st1;
          ForEachNonRootView (AddMatchConstraintCenteringConstraint (syn_filter opt c) oi) st2 }"

definition gen_fixed_filter ::
    "(z3_view \<Rightarrow> string \<Rightarrow> bool option) \<Rightarrow> view list \<Rightarrow> orientation \<Rightarrow> name_filter" where
  "gen_fixed_filter should_add app_vs oi s name src =
     do { add \<leftarrow> should_add src name;
          if \<not> add then Some (s, False)
          else do { value \<leftarrow> view_size_of app_vs oi (zv_pos src);
                    Some (s @ [Implies (BoolConst name)
                           (NumEq (NumAdd (position_start_v src) (IntVal value)) (position_end_v src))], True) } }"

definition gen_match_filter :: "z3_bool \<Rightarrow> (z3_view \<Rightarrow> string \<Rightarrow> bool option) \<Rightarrow> name_filter" where
  "gen_match_filter outer_cond should_add s name src =
     do { add \<leftarrow> should_add src name;
          if \<not> add then Some (s, False)
          else Some (s @ [Implies outer_cond
                       (NumGe (NumSub (position_end_v src) (position_start_v src)) (IntVal 0))], True) }"

definition gen_constraints ::
    "z3_bool \<Rightarrow> (z3_view \<Rightarrow> string \<Rightarrow> bool option) \<Rightarrow> view list \<Rightarrow> orientation \<Rightarrow> enc_state \<Rightarrow> enc_state option" where
  "gen_constraints outer_cond should_add app_vs oi st =
     do { st1 \<leftarrow> ForEachNonRootView (AddFixedSizeRelationalConstraint (gen_fixed_filter should_add app_vs oi) oi) st;
          st2 \<leftarrow> ForEachNonRootView (AddFixedSizeCenteringConstraint (gen_fixed_filter should_add app_vs oi) oi) st1;
          ForEachNonRootView (AddMatchConstraintCenteringConstraint (gen_match_filter outer_cond should_add) oi) st2 }"

definition AddGenConstraints ::
    "z3_bool \<Rightarrow> view list \<Rightarrow> orientation \<Rightarrow> candidate_constraints \<Rightarrow> enc_state \<Rightarrow> enc_state option" where
  "AddGenConstraints outer_cond app_vs oi c st = gen_constraints outer_cond (ShouldAdd c) app_vs oi st"

section \<open>Models read by name\<close>

text \<open>What a model says about the views, margins, biases and anchors of a device.\<close>

definition model_positions :: "z3_model \<Rightarrow> orientation \<Rightarrow> int \<Rightarrow> nat \<Rightarrow> int \<times> int" where
  "model_positions m oi d i =
     (int_interp m (name2 ''start_'' (unique_id_value (int i) oi) d),
      int_interp m (name2 ''end_'' (unique_id_value (int i) oi) d))"

definition model_attr :: "z3_model \<Rightarrow> orientation \<Rightarrow> attribute \<Rightarrow> attribute" where
  "model_attr m oi a =
     (let u = unique_id_value (int (attr_src a)) oi in
      a\<lparr>value_primary := int_interp m (name1 ''mstart_'' u), value_secondary := int_interp m (name1 ''mend_'' u),
        attr_bias := real_interp m (name1 ''bias_'' u)\<rparr>)"

definition model_anchor :: "z3_model \<Rightarrow> orientation \<Rightarrow> nat \<Rightarrow> int" where
  "model_anchor m oi i = int_interp m (name1 ''anchor_'' (unique_id_value (int i) oi))"

definition model_cost :: "z3_model \<Rightarrow> orientation \<Rightarrow> nat \<Rightarrow> real" where
  "model_cost m oi i = real_interp m (name1 ''cost_'' (unique_id_value (int i) oi))"

definition attr_data :: "orientation \<Rightarrow> attribute \<Rightarrow> constraint_data" where
  "attr_data oi a =
     \<lparr>cd_type = attr_type a, cd_size = attr_view_size a, cd_orientation = oi, cd_src = int (attr_src a),
      cd_primary = int (tgt_primary a),
      cd_secondary = (case tgt_secondary a of None \<Rightarrow> - 1 | Some j \<Rightarrow> int j)\<rparr>"

definition attr_name :: "orientation \<Rightarrow> attribute \<Rightarrow> string" where
  "attr_name oi a = the (constraint_data_name (attr_data oi a))"

lemma made_view_positions: "made_view oi d i v \<Longrightarrow> zv_interval m v = model_positions m oi d i"
  by (simp add: made_view_def zv_interval_def model_positions_def)

lemma made_views_positions:
  "made_views oi d zs \<Longrightarrow> i < length zs \<Longrightarrow> zv_positions m zs i = model_positions m oi d i"
  by (simp add: made_views_def zv_positions_def made_view_positions)

lemma made_view_model_attr:
  "made_view oi d i v \<Longrightarrow> attr_src a = i \<Longrightarrow> with_model m v a = model_attr m oi a"
  by (simp add: made_view_def with_model_def model_attr_def Let_def GetBiasExpr_def zv_uid_def)

lemma model_attr_fields [simp]:
  "attr_type (model_attr m oi a) = attr_type a" "attr_view_size (model_attr m oi a) = attr_view_size a"
  "attr_src (model_attr m oi a) = attr_src a" "tgt_primary (model_attr m oi a) = tgt_primary a"
  "tgt_secondary (model_attr m oi a) = tgt_secondary a" "attr_prob (model_attr m oi a) = attr_prob a"
  by (simp_all add: model_attr_def Let_def)

lemma attr_targets_model [simp]: "attr_targets (model_attr m oi a) = attr_targets a"
  by (simp add: attr_targets_def cong: option.case_cong)

lemma ok_range:
  assumes "attribute_ok n i oi a" "i < n"
  shows "attr_src a < n" "tgt_primary a < n" "tgt_secondary a = Some j \<Longrightarrow> j < n"
    "(tgt_secondary a = None) = IsRelationalAnchor (attr_type a)" "attr_type a \<noteq> LAST"
    "ConstraintTypeToOrientation (attr_type a) = Some oi"
  using assms by (auto simp: attribute_ok_def split: option.splits)

lemma placed_cong:
  assumes "attribute_ok n i oi a" "i < n" "\<And>j. j < n \<Longrightarrow> P j = Q j"
    and b: "attr_type b = attr_type a" "attr_src b = attr_src a" "tgt_primary b = tgt_primary a"
      "tgt_secondary b = tgt_secondary a"
  shows "placed P b = placed Q b" "side_conditions P b = side_conditions Q b"
proof -
  have eq: "P (attr_src b) = Q (attr_src b)" "P (tgt_primary b) = Q (tgt_primary b)" "P 0 = Q 0"
    using ok_range [OF assms(1,2)] assms(2,3) b by auto
  have sec: "P j = Q j" if "tgt_secondary b = Some j" for j
    using ok_range(3) [OF assms(1,2)] assms(3) b(4) that by simp
  show "placed P b = placed Q b"
    unfolding placed_def Let_def anchor_pos_def eq by (auto simp: sec split: option.split)
  show "side_conditions P b = side_conditions Q b" unfolding side_conditions_def eq ..
qed

text \<open>A candidate's clause: it is placed and its side conditions hold.\<close>

definition candidate_holds :: "z3_model \<Rightarrow> orientation \<Rightarrow> int \<Rightarrow> attribute \<Rightarrow> bool" where
  "candidate_holds m oi d a \<longleftrightarrow>
     placed (model_positions m oi d) (model_attr m oi a) \<and> side_conditions (model_positions m oi d) (model_attr m oi a)"

lemma encoding_meaning:
  assumes "made_views oi d zs" "attribute_ok (length zs) i oi a" "i < length zs"
    and "IsRelationalAnchor (attr_type a) \<Longrightarrow> attr_view_size a = FIXED"
  shows "\<exists>enc e. ResolveAttr a = Some enc \<and>
    enc (zs ! i) (zs ! tgt_primary a) (map_option ((!) zs) (tgt_secondary a)) = Some e \<and>
    (\<forall>m. holds m e \<longleftrightarrow> candidate_holds m oi d a)"
proof -
  have made: "made_view oi d i (zs ! i)" using assms(1,3) by (simp add: made_views_def)
  have src: "attr_src a = i" using assms(2) by (simp add: attribute_ok_def)
  have meaning: "placed (zv_positions m zs) (with_model m (zs ! i) a) = placed (model_positions m oi d) (model_attr m oi a)"
    "side_conditions (zv_positions m zs) (with_model m (zs ! i) a) = side_conditions (model_positions m oi d) (model_attr m oi a)" for m
    using placed_cong [OF assms(2,3), where P = "zv_positions m zs" and Q = "model_positions m oi d" and
        b = "model_attr m oi a"] made_views_positions [OF assms(1)] made_view_model_attr [OF made src, of m] by simp_all
  have "attr_view_size a = FIXED \<or> \<not> IsRelationalAnchor (attr_type a)" using assms(4) by blast
  from ResolveAttr_result [OF assms(1-3) this] obtain enc e where e: "ResolveAttr a = Some enc"
    "enc (zs ! i) (zs ! tgt_primary a) (map_option ((!) zs) (tgt_secondary a)) = Some e" by blast
  have "holds m e \<longleftrightarrow> candidate_holds m oi d a" for m
    using ResolveAttr_result [OF assms(1-3) \<open>attr_view_size a = FIXED \<or> _\<close>, of m] e meaning [of m]
    by (simp add: candidate_holds_def)
  with e show ?thesis by blast
qed

section \<open>One candidate\<close>

text \<open>What the views of an app, of its scorer and of the solver have in common.\<close>

definition scorer_views :: "view list \<Rightarrow> nat \<Rightarrow> bool" where
  "scorer_views vs n \<longleftrightarrow> length vs = n \<and>
     (\<forall>i < n. view_pos (vs ! i) = int i \<and> (view_id (vs ! i) = 0) = (i = 0))"

lemma scorer_ok_views: "scorer_ok sc n oi \<Longrightarrow> scorer_views (as_views sc) n"
  by (simp add: scorer_ok_def scorer_views_def)

lemma findView_z3_at: "scorer_views vs n \<Longrightarrow> i < n \<Longrightarrow> findView_z3 vs i = Some i"
  by (simp add: findView_z3_def scorer_views_def)

definition push_name :: "z3_view list \<Rightarrow> nat \<Rightarrow> string \<Rightarrow> z3_view list" where
  "push_name zs i name = zs[i := (zs ! i)\<lparr>zv_constraints := zv_constraints (zs ! i) @ [name]\<rparr>]"

definition anchor_follows :: "z3_model \<Rightarrow> orientation \<Rightarrow> attribute \<Rightarrow> bool" where
  "anchor_follows m oi a \<longleftrightarrow>
     model_anchor m oi (attr_src a) = sum_list (map (model_anchor m oi) (attr_targets a)) + 1"

lemma anchor_value: "made_view oi d i v \<Longrightarrow> num_value m (GetAnchorExpr v) = real_of_int (model_anchor m oi i)"
  by (simp add: GetAnchorExpr_def zv_uid_def made_view_def model_anchor_def)

lemma made_view_pos: "made_view oi d i v \<Longrightarrow> zv_pos v = int i \<and> zv_orientation v = oi \<and> i < 1000"
  by (simp add: made_view_def)

lemma constraint_data_name_ok:
  "attribute_ok n i oi a \<Longrightarrow> i < n \<Longrightarrow> n \<le> 1000 \<Longrightarrow> constraint_data_ok (attr_data oi a)"
  using ok_range [of n i oi a] by (auto simp: constraint_data_ok_def attr_data_def position32_def split: option.split)

lemma attr_name_Some:
  assumes "attribute_ok n i oi a" "i < n" "n \<le> 1000"
  shows "constraint_data_name (attr_data oi a) = Some (attr_name oi a)" "ConstraintData (attr_name oi a) = Some (attr_data oi a)"
  using name_codec.dec_enc [OF constraint_data_name_ok [OF assms]] by (auto simp: attr_name_def)

lemma ValidConstraint_IsValid:
  assumes "scorer_views vs n" "made_views oi d zs" "length zs = n" "attribute_ok n i oj a" "i < n"
    and "IsValid vs a = Some True"
  shows "ValidConstraint (attr_type a) (zs ! tgt_primary a) (map_option ((!) zs) (tgt_secondary a)) = Some True"
proof -
  have pos: "zv_pos (zs ! j) = int j" if "j < n" for j using assms(2,3) that by (simp add: made_views_def made_view_def)
  have vpos: "view_pos (vs ! j) = int j" "length vs = n" if "j < n" for j using assms(1) that by (simp_all add: scorer_views_def)
  from assms(4) show ?thesis
  proof (cases rule: ok_targets)
    case relational
    with assms(6) pos vpos show ?thesis by (auto simp: ValidConstraint_def IsValid_def)
  next
    case (center j)
    with assms(6) pos vpos show ?thesis
      by (auto simp: ValidConstraint_def IsValid_def centering_excluded_def same_z3_view_def view_eq_def split: if_splits)
  qed
qed

lemma resolve_attribute_result:
  assumes "scorer_views vs n" "made_views oi d zs" "length zs = n" "n \<le> 1000" "attribute_ok n i oi a" "i < n"
    and "IsValid vs a = Some True" "IsRelationalAnchor (attr_type a) \<Longrightarrow> attr_view_size a = FIXED"
  shows "\<exists>r. resolve_attribute vs zs check a = Some r \<and> rs_src r = i \<and> rs_name r = attr_name oi a \<and>
    rs_views r = push_name zs i (attr_name oi a) \<and>
    (\<forall>m. holds m (rs_value r) = candidate_holds m oi d a) \<and> (\<forall>m. holds m (rs_anchor r) = anchor_follows m oi a)"
proof -
  have src: "attr_src a = i" using assms(5) by (simp add: attribute_ok_def)
  note range = ok_range [OF assms(5,6)]
  have made: "made_view oi d j (zs ! j)" if "j < n" for j using assms(2,3) that by (simp add: made_views_def)
  have valid: "ValidConstraint (attr_type a) (zs ! tgt_primary a) (map_option ((!) zs) (tgt_secondary a)) = Some True"
    by (rule ValidConstraint_IsValid [OF assms(1,2,3,5,6,7)])
  obtain enc e where e: "ResolveAttr a = Some enc"
    "enc (zs ! i) (zs ! tgt_primary a) (map_option ((!) zs) (tgt_secondary a)) = Some e"
    "\<forall>m. holds m e \<longleftrightarrow> candidate_holds m oi d a"
    using encoding_meaning [OF assms(2) _ _ assms(8)] assms(3,5,6) by blast
  note find = findView_z3_at [OF assms(1)]
  note anchors = anchor_value [OF made, of _ _]
  from assms(5) show ?thesis
  proof (cases rule: ok_targets)
    case relational
    have "ConstraintName (zs ! i) (attr_type a) (attr_view_size a) (zs ! tgt_primary a) = Some (attr_name oi a)"
      using attr_name_Some(1) [OF assms(5,6,4)] relational made_view_pos [OF made [OF assms(6)]]
        made_view_pos [OF made [OF range(2)]] src
      by (simp add: ConstraintName_data attr_data_def)
    moreover have "holds m (anchor_equation (zs ! i) (zs ! tgt_primary a) None) = anchor_follows m oi a" for m
      using anchors [OF assms(6)] anchors [OF range(2)] relational src
      by (simp add: anchor_equation_def anchor_follows_def add.commute) linarith
    ultimately show ?thesis
      using relational e valid assms(3,6) find [OF assms(6)] find [OF range(2)] src assms(8)
      by (simp add: resolve_attribute_def name_of_constraint_def push_name_def)
  next
    case (center j)
    have "ConstraintName2 (zs ! i) (attr_type a) (attr_view_size a) (zs ! tgt_primary a) (zs ! j) = Some (attr_name oi a)"
      using attr_name_Some(1) [OF assms(5,6,4)] center made_view_pos [OF made [OF assms(6)]]
        made_view_pos [OF made [OF range(2)]] made_view_pos [OF made [OF center(4)]] src
      by (simp add: ConstraintName_data attr_data_def)
    moreover have "holds m (anchor_equation (zs ! i) (zs ! tgt_primary a) (Some (zs ! j))) = anchor_follows m oi a" for m
      using anchors [OF assms(6)] anchors [OF range(2)] anchors [OF center(4)] center src
      by (simp add: anchor_equation_def anchor_follows_def) linarith
    ultimately show ?thesis
      using center e valid assms(3,6) find [OF assms(6)] find [OF range(2)] find [OF center(4)] src
      by (simp add: resolve_attribute_def name_of_constraint_def push_name_def)
  qed
qed

lemma push_name_facts:
  assumes "i < length zs"
  shows "length (push_name zs i name) = length zs" "made_views oi d zs \<Longrightarrow> made_views oi d (push_name zs i name)"
    "zv_constraints (push_name zs i name ! j) = (if j = i then zv_constraints (zs ! i) @ [name] else zv_constraints (zs ! j))"
    "zv_start (push_name zs i name ! j) = zv_start (zs ! j)" "zv_end (push_name zs i name ! j) = zv_end (zs ! j)"
    "satisfied_id (push_name zs i name ! j) = satisfied_id (zs ! j)"
  using assms by (auto simp: push_name_def made_views_def made_view_def nth_list_update)

section \<open>All candidates\<close>

text \<open>The views after a round: the same, with more constants.\<close>

definition views_extended :: "z3_view list \<Rightarrow> z3_view list \<Rightarrow> (nat \<Rightarrow> string list) \<Rightarrow> bool" where
  "views_extended zs zs' f \<longleftrightarrow> length zs' = length zs \<and>
     (\<forall>i < length zs. zs' ! i = (zs ! i)\<lparr>zv_constraints := zv_constraints (zs ! i) @ f i\<rparr>)"

lemma views_extended_refl: "views_extended zs zs (\<lambda>_. [])"
  by (simp add: views_extended_def)

lemma views_extended_trans:
  "views_extended zs zs' f \<Longrightarrow> views_extended zs' zs'' g \<Longrightarrow> views_extended zs zs'' (\<lambda>i. f i @ g i)"
  by (simp add: views_extended_def)

lemma views_extended_cong:
  "views_extended zs zs' f \<Longrightarrow> (\<And>i. i < length zs \<Longrightarrow> f i = g i) \<Longrightarrow> views_extended zs zs' g"
  by (simp add: views_extended_def)

lemma views_extended_push:
  "i < length zs \<Longrightarrow> views_extended zs (push_name zs i name) (\<lambda>j. if j = i then [name] else [])"
  by (simp add: views_extended_def push_name_def nth_list_update)

lemma views_extended_made: "views_extended zs zs' f \<Longrightarrow> made_views oi d zs \<Longrightarrow> made_views oi d zs'"
  by (simp add: views_extended_def made_views_def made_view_def)

lemma views_extended_length: "views_extended zs zs' f \<Longrightarrow> length zs' = length zs"
  by (simp add: views_extended_def)

text \<open>
  Both encoders of candidates keep one contract: a candidate's constant is added to its view, and
  the new assertions mean a clause over the model.
\<close>

locale candidate_encoder =
  fixes add :: "view list \<Rightarrow> enc_state \<Rightarrow> attribute \<Rightarrow> enc_state option"
    and oi :: orientation and d :: int and max_views :: nat
    and clause :: "z3_model \<Rightarrow> attribute \<Rightarrow> bool"
  assumes add_step:
    "scorer_views vs n \<Longrightarrow> made_views oi d zs \<Longrightarrow> length zs = n \<Longrightarrow> n \<le> max_views \<Longrightarrow>
     attribute_ok n i oi a \<Longrightarrow> i < n \<Longrightarrow> IsValid vs a = Some True \<Longrightarrow>
     (IsRelationalAnchor (attr_type a) \<longrightarrow> attr_view_size a = FIXED) \<Longrightarrow>
     \<exists>t. add vs (zs, s) a = Some (push_name zs i (attr_name oi a), s @ t) \<and> (\<forall>m. satisfies m t = clause m a)"
begin

lemma add_all:
  assumes "scorer_views vs n" "made_views oi d zs" "length zs = n" "n \<le> max_views" "i < n"
    and "\<forall>a \<in> set as. attribute_ok n i oi a \<and> IsValid vs a = Some True \<and>
       (IsRelationalAnchor (attr_type a) \<longrightarrow> attr_view_size a = FIXED)"
  shows "\<exists>zs' t. fold_opt (add vs) (zs, s) as = Some (zs', s @ t) \<and>
    views_extended zs zs' (\<lambda>j. if j = i then map (attr_name oi) as else []) \<and>
    (\<forall>m. satisfies m t = (\<forall>a \<in> set as. clause m a))"
  using assms(2,3,6)
proof (induction as arbitrary: zs s)
  case Nil
  then show ?case using views_extended_refl [of zs] by (auto intro!: exI [of _ "[]"] simp: views_extended_def)
next
  case (Cons a as)
  obtain t where t: "add vs (zs, s) a = Some (push_name zs i (attr_name oi a), s @ t)"
    "\<forall>m. satisfies m t = clause m a"
    using add_step [OF assms(1) Cons.prems(1,2) assms(4) _ assms(5), of a s] Cons.prems(3) by auto
  have i: "i < length zs" using assms(5) Cons.prems(2) by simp
  obtain zs' u where u: "fold_opt (add vs) (push_name zs i (attr_name oi a), s @ t) as = Some (zs', (s @ t) @ u)"
    "views_extended (push_name zs i (attr_name oi a)) zs' (\<lambda>j. if j = i then map (attr_name oi) as else [])"
    "\<forall>m. satisfies m u = (\<forall>a \<in> set as. clause m a)"
    using Cons.IH [of "push_name zs i (attr_name oi a)" "s @ t"] push_name_facts(1,2) [OF i] Cons.prems by auto
  have "views_extended zs zs' (\<lambda>j. if j = i then map (attr_name oi) (a # as) else [])"
    by (rule views_extended_cong [OF views_extended_trans [OF views_extended_push [OF i] u(2)]]) simp
  with t u(1,3) show ?case by (intro exI [of _ zs'] exI [of _ "t @ u"]) simp
qed

lemma each_result:
  assumes "cand_ok c sc n oi" "made_views oi d zs" "length zs = n" "n \<le> max_views"
  shows "\<exists>c' zs' t. each_candidate add c (zs, s) = Some (c', zs', s @ t) \<and> same_candidates c c' \<and>
    views_extended zs zs' (\<lambda>i. if i = 0 then [] else map (attr_name oi) (offered c sc i)) \<and>
    (\<forall>m. satisfies m t = (\<forall>i a. 0 < i \<and> i < n \<and> a \<in> set (offered c sc i) \<longrightarrow> clause m a))"
proof -
  let ?body = "\<lambda>cs i.
       do { v \<leftarrow> vec_at (fst (snd cs)) i;
            if zv_pos v = 0 then Some cs
            else do { r \<leftarrow> GetAttributes (fst cs) v;
                      sc \<leftarrow> cn_scorer (fst cs);
                      st' \<leftarrow> fold_opt (add (as_views sc)) (snd cs) (snd r);
                      Some (fst r, st') } }"
  have sc: "scorer_ok sc n oi" "cn_scorer c = Some sc" using assms(1) by (simp_all add: cand_ok_def)
  have "\<exists>c' zs' t. fold_opt ?body (c, zs, s) [0..<k] = Some (c', zs', s @ t) \<and> same_candidates c c' \<and>
    views_extended zs zs' (\<lambda>i. if 0 < i \<and> i < k then map (attr_name oi) (offered c sc i) else []) \<and>
    (\<forall>m. satisfies m t = (\<forall>i a. 0 < i \<and> i < k \<and> a \<in> set (offered c sc i) \<longrightarrow> clause m a))" if "k \<le> n" for k
    using that
  proof (induction k)
    case 0
    then show ?case using views_extended_refl [of zs] same_candidates_refl [of c]
      by (auto intro!: exI [of _ "[]"])
  next
    case (Suc k)
    then obtain c' zs' t where IH: "fold_opt ?body (c, zs, s) [0..<k] = Some (c', zs', s @ t)" "same_candidates c c'"
      "views_extended zs zs' (\<lambda>i. if 0 < i \<and> i < k then map (attr_name oi) (offered c sc i) else [])"
      "\<forall>m. satisfies m t = (\<forall>i a. 0 < i \<and> i < k \<and> a \<in> set (offered c sc i) \<longrightarrow> clause m a)" by auto
    have k: "k < n" using Suc.prems by simp
    have len: "length zs' = n" using views_extended_length [OF IH(3)] assms(3) by simp
    have made: "made_views oi d zs'" by (rule views_extended_made [OF IH(3) assms(2)])
    have pos: "zv_pos (zs' ! k) = int k" using made k len by (simp add: made_views_def made_view_def)
    show ?case
    proof (cases "k = 0")
      case True
      have "views_extended zs zs' (\<lambda>i. if 0 < i \<and> i < Suc k then map (attr_name oi) (offered c sc i) else [])"
        by (rule views_extended_cong [OF IH(3)]) (use True in auto)
      moreover have "?body (c', zs', s @ t) k = Some (c', zs', s @ t)" using True len k pos by simp
      then have "fold_opt ?body (c, zs, s) [0..<Suc k] = Some (c', zs', s @ t)"
        using IH(1) by (simp add: fold_opt_append)
      moreover have "\<forall>m. satisfies m t = (\<forall>i a. 0 < i \<and> i < Suc k \<and> a \<in> set (offered c sc i) \<longrightarrow> clause m a)"
        using IH(4) True by simp
      ultimately show ?thesis using IH(2) by blast
    next
      case False
      then have k0: "0 < k" by simp
      note ok' = same_candidates_ok [OF IH(2)]
      obtain c2 where c2: "GetAttributes c' (zs' ! k) = Some (c2, offered c sc k)" "same_candidates c' c2"
        using GetAttributes_result [OF ok'(1) [OF assms(1)] k0 k pos] ok'(2) [of sc k] by auto
      have as: "\<forall>a \<in> set (offered c sc k). attribute_ok n k oi a \<and> IsValid (as_views sc) a = Some True \<and>
          (IsRelationalAnchor (attr_type a) \<longrightarrow> attr_view_size a = FIXED)"
        using offered_ok [OF assms(1) k0 k] by blast
      obtain zs2 u where u: "fold_opt (add (as_views sc)) (zs', s @ t) (offered c sc k) = Some (zs2, (s @ t) @ u)"
        "views_extended zs' zs2 (\<lambda>j. if j = k then map (attr_name oi) (offered c sc k) else [])"
        "\<forall>m. satisfies m u = (\<forall>a \<in> set (offered c sc k). clause m a)"
        using add_all [OF scorer_ok_views [OF sc(1)] made len assms(4) k as] by blast
      have "?body (c', zs', s @ t) k = Some (c2, zs2, s @ (t @ u))"
        using c2 u(1) pos k0 k len sc(2) IH(2) by (auto simp: same_candidates_def)
      then have "fold_opt ?body (c, zs, s) [0..<Suc k] = Some (c2, zs2, s @ (t @ u))"
        using IH(1) by (simp add: fold_opt_append)
      moreover have "views_extended zs zs2 (\<lambda>i. if 0 < i \<and> i < Suc k then map (attr_name oi) (offered c sc i) else [])"
        by (rule views_extended_cong [OF views_extended_trans [OF IH(3) u(2)]]) (use k0 in \<open>auto simp: less_Suc_eq\<close>)
      moreover have "\<forall>m. satisfies m (t @ u) = (\<forall>i a. 0 < i \<and> i < Suc k \<and> a \<in> set (offered c sc i) \<longrightarrow> clause m a)"
        using IH(4) u(3) k0 by (auto simp: less_Suc_eq)
      ultimately show ?thesis using same_candidates_trans [OF IH(2) c2(2)] by blast
    qed
  qed
  from this [of n] assms(3) obtain c' zs' t where "each_candidate add c (zs, s) = Some (c', zs', s @ t)" "same_candidates c c'"
    and e: "views_extended zs zs' (\<lambda>i. if 0 < i \<and> i < n then map (attr_name oi) (offered c sc i) else [])"
    and "\<forall>m. satisfies m t = (\<forall>i a. 0 < i \<and> i < n \<and> a \<in> set (offered c sc i) \<longrightarrow> clause m a)"
    by (auto simp: each_candidate_def)
  moreover have "views_extended zs zs' (\<lambda>i. if i = 0 then [] else map (attr_name oi) (offered c sc i))"
    by (rule views_extended_cong [OF e]) (use assms(3) in simp)
  ultimately show ?thesis by blast
qed

end

text \<open>The clause of a candidate for the reference screen, and for the screen of a device.\<close>

definition syn_clause :: "bool \<Rightarrow> orientation \<Rightarrow> z3_model \<Rightarrow> attribute \<Rightarrow> bool" where
  "syn_clause opt oi m a \<longleftrightarrow>
     (bool_interp m (attr_name oi a) \<longrightarrow>
        candidate_holds m oi 0 a \<and> anchor_follows m oi a \<and>
        (opt \<longrightarrow> model_cost m oi (attr_src a) = six_decimals (attr_prob a)))"

definition size_kept :: "view list \<Rightarrow> orientation \<Rightarrow> (nat \<Rightarrow> int \<times> int) \<Rightarrow> attribute \<Rightarrow> bool" where
  "size_kept app_vs oi P a \<longleftrightarrow>
     (let s = P (attr_src a); r = view_interval app_vs oi (attr_src a) in
      if attr_view_size a = FIXED then snd s - fst s = snd r - fst r else fst s \<le> snd s)"

definition gen_clause :: "view list \<Rightarrow> orientation \<Rightarrow> int \<Rightarrow> z3_model \<Rightarrow> attribute \<Rightarrow> bool" where
  "gen_clause app_vs oi d m a \<longleftrightarrow>
     (bool_interp m (attr_name oi a) \<longrightarrow>
        candidate_holds m oi d a \<and> size_kept app_vs oi (model_positions m oi d) a)"

interpretation syn_encoder: candidate_encoder "\<lambda>vs. syn_attribute vs opt" oi 0 1000 "syn_clause opt oi" for opt oi
proof
  fix vs n zs i a s
  assume a: "scorer_views vs n" "made_views oi 0 zs" "length zs = n" "n \<le> 1000" "attribute_ok n i oi a" "i < n"
    "IsValid vs a = Some True" "IsRelationalAnchor (attr_type a) \<longrightarrow> attr_view_size a = FIXED"
  then obtain r where r: "resolve_attribute vs zs True a = Some r" "rs_src r = i" "rs_name r = attr_name oi a"
    "rs_views r = push_name zs i (attr_name oi a)"
    "\<forall>m. holds m (rs_value r) = candidate_holds m oi 0 a" "\<forall>m. holds m (rs_anchor r) = anchor_follows m oi a"
    using resolve_attribute_result [OF a(1-7), of True] by blast
  have made: "made_view oi 0 i (zs ! i)" using a(2,3,6) by (simp add: made_views_def)
  have cost: "num_value m (GetCostExpr (zs ! i)) = model_cost m oi (attr_src a)" for m
    using made_view_pos [OF made] a(5) by (simp add: GetCostExpr_def zv_uid_def model_cost_def attribute_ok_def)
  show "\<exists>t. syn_attribute vs opt (zs, s) a = Some (push_name zs i (attr_name oi a), s @ t) \<and>
      (\<forall>m. satisfies m t = syn_clause opt oi m a)"
    using r a(3,6) cost by (auto simp: syn_attribute_def syn_clause_def)
qed

interpretation gen_encoder:
  candidate_encoder "\<lambda>vs. gen_attribute vs app_vs oi" oi d "min 1000 (length app_vs)" "gen_clause app_vs oi d" for app_vs oi d
proof
  fix vs n zs i a s
  assume a: "scorer_views vs n" "made_views oi d zs" "length zs = n" "n \<le> min 1000 (length app_vs)" "attribute_ok n i oi a" "i < n"
    "IsValid vs a = Some True" "IsRelationalAnchor (attr_type a) \<longrightarrow> attr_view_size a = FIXED"
  then obtain r where r: "resolve_attribute vs zs False a = Some r" "rs_src r = i" "rs_name r = attr_name oi a"
    "rs_views r = push_name zs i (attr_name oi a)" "\<forall>m. holds m (rs_value r) = candidate_holds m oi d a"
    using resolve_attribute_result [OF a(1-3) _ a(5-7), of False] by auto
  have made: "made_view oi d i (zs ! i)" using a(2,3,6) by (simp add: made_views_def)
  have src: "attr_src a = i" using a(5) by (simp add: attribute_ok_def)
  have len: "i < length app_vs" using a(4,6) by simp
  note vals = made_view_values(1,2) [OF made] made_view_positions [OF made]
  obtain e where e: "size_assertion app_vs oi (zs ! i) a = Some e"
    "\<forall>m. holds m e = size_kept app_vs oi (model_positions m oi d) a"
  proof (cases "attr_view_size a = FIXED")
    case True
    have "view_size_of app_vs oi (int i) = Some (snd (view_interval app_vs oi i) - fst (view_interval app_vs oi i))"
      using len by (simp add: view_size_of_def view_interval_def rect_width_def rect_height_def)
    with True show thesis
      using that made_view_pos [OF made] vals src
      by (auto simp: size_assertion_def size_kept_def Let_def simp flip: of_int_add of_int_diff) linarith
  next
    case False
    then show thesis
      using that vals src by (simp add: size_assertion_def size_kept_def Let_def flip: of_int_diff)
  qed
  show "\<exists>t. gen_attribute vs app_vs oi (zs, s) a = Some (push_name zs i (attr_name oi a), s @ t) \<and>
      (\<forall>m. satisfies m t = gen_clause app_vs oi d m a)"
    using r a(3,6) e by (auto simp: gen_attribute_def gen_clause_def)
qed

section \<open>The reference screen\<close>

text \<open>The calls that every synthesis of the program starts with, for one orientation.\<close>

definition encode_reference ::
    "bool \<Rightarrow> candidate_constraints \<Rightarrow> z3_view list \<Rightarrow> assertions \<Rightarrow> (candidate_constraints \<times> enc_state) option" where
  "encode_reference opt c zs s =
     do { r \<leftarrow> AddSynAttributes opt c (zs, AddAnchorConstraints (AddPositionConstraints s zs True) zs);
          s' \<leftarrow> FinishedAddingConstraints (snd (snd r)) (fst (snd r));
          Some (fst r, fst (snd r), s') }"

lemma satisfies_map: "satisfies m (map f xs) \<longleftrightarrow> (\<forall>i < length xs. holds m (f (xs ! i)))"
  by (simp add: satisfies_def list_all_length)

lemma position_assertions_meaning:
  assumes "made_view oi d i v"
  shows "satisfies m (position_assertions True v) \<longleftrightarrow>
    0 \<le> int_interp m (name1 ''mstart_'' (unique_id_value (int i) oi)) \<and>
    0 \<le> int_interp m (name1 ''mend_'' (unique_id_value (int i) oi)) \<and>
    real_interp m (name1 ''bias_'' (unique_id_value (int i) oi)) = 1 / 2 \<and>
    model_positions m oi d i = (zv_start v, zv_end v)"
  using assms by (auto simp: position_assertions_def made_view_def model_positions_def GetBiasExpr_def zv_uid_def)

lemma AddPositionConstraints_meaning:
  assumes "made_views oi d zs"
  shows "satisfies m (AddPositionConstraints s zs True) \<longleftrightarrow> satisfies m s \<and>
    (\<forall>i < length zs. 0 \<le> int_interp m (name1 ''mstart_'' (unique_id_value (int i) oi)) \<and>
      0 \<le> int_interp m (name1 ''mend_'' (unique_id_value (int i) oi)) \<and>
      real_interp m (name1 ''bias_'' (unique_id_value (int i) oi)) = 1 / 2 \<and>
      model_positions m oi d i = (zv_start (zs ! i), zv_end (zs ! i)))"
proof -
  have "satisfies m (position_assertions True (zs ! i)) \<longleftrightarrow>
      0 \<le> int_interp m (name1 ''mstart_'' (unique_id_value (int i) oi)) \<and>
      0 \<le> int_interp m (name1 ''mend_'' (unique_id_value (int i) oi)) \<and>
      real_interp m (name1 ''bias_'' (unique_id_value (int i) oi)) = 1 / 2 \<and>
      model_positions m oi d i = (zv_start (zs ! i), zv_end (zs ! i))" if "i < length zs" for i
    by (rule position_assertions_meaning) (use assms that in \<open>simp add: made_views_def\<close>)
  then show ?thesis by (simp add: AddPositionConstraints_def satisfies_concat all_set_conv_all_nth)
qed

lemma AddAnchorConstraints_meaning:
  assumes "made_views oi d zs"
  shows "satisfies m (AddAnchorConstraints s zs) \<longleftrightarrow> satisfies m s \<and>
    (\<forall>i < length zs. if i = 0 then model_anchor m oi i = 0 else 0 < model_anchor m oi i)"
proof -
  have "holds m (anchor_assertion (zs ! i)) \<longleftrightarrow> (if i = 0 then model_anchor m oi i = 0 else 0 < model_anchor m oi i)"
    if "i < length zs" for i
  proof -
    have made: "made_view oi d i (zs ! i)" using assms that by (simp add: made_views_def)
    show ?thesis using made_view_pos [OF made] anchor_value [OF made, of m] by (cases "i = 0") (simp_all add: anchor_assertion_def)
  qed
  then show ?thesis by (simp add: AddAnchorConstraints_def satisfies_map)
qed

text \<open>The constant of a view that asks for exactly one of its constraints.\<close>

definition satisfied_const :: "orientation \<Rightarrow> nat \<Rightarrow> int \<Rightarrow> string" where
  "satisfied_const oi i k = name2 ''satisfied_'' (unique_id_value (int i) oi) k"

lemma GetConstraintsSatisfied_made:
  "made_view oi d i v \<Longrightarrow> GetConstraintsSatisfied v = BoolConst (satisfied_const oi i (satisfied_id v))"
  by (simp add: GetConstraintsSatisfied_def satisfied_const_def made_view_def zv_uid_def)

definition selects_one :: "z3_model \<Rightarrow> orientation \<Rightarrow> z3_view list \<Rightarrow> nat \<Rightarrow> bool" where
  "selects_one m oi zs i \<longleftrightarrow>
     (bool_interp m (satisfied_const oi i (satisfied_id (zs ! i))) \<longrightarrow>
        exactly_one (map (bool_interp m) (zv_constraints (zs ! i))))"

lemma FinishedAddingConstraints_result:
  assumes "made_views oi d zs" "\<forall>i. 0 < i \<and> i < length zs \<longrightarrow> zv_constraints (zs ! i) \<noteq> []"
  shows "\<exists>t. FinishedAddingConstraints s zs = Some (s @ t) \<and>
    (\<forall>m. satisfies m t \<longleftrightarrow> (\<forall>i. 0 < i \<and> i < length zs \<longrightarrow> selects_one m oi zs i))"
proof -
  let ?f = "\<lambda>s v. if zv_pos v = 0 then Some s else FinishedAddingConstraints_view s v"
  have "\<exists>t. fold_opt ?f s (take k zs) = Some (s @ t) \<and>
      (\<forall>m. satisfies m t \<longleftrightarrow> (\<forall>i. 0 < i \<and> i < k \<longrightarrow> selects_one m oi zs i))" if "k \<le> length zs" for k
    using that
  proof (induction k)
    case (Suc k)
    then obtain t where t: "fold_opt ?f s (take k zs) = Some (s @ t)"
      "\<forall>m. satisfies m t \<longleftrightarrow> (\<forall>i. 0 < i \<and> i < k \<longrightarrow> selects_one m oi zs i)" by auto
    have k: "k < length zs" using Suc.prems by simp
    have made: "made_view oi d k (zs ! k)" using assms(1) k by (simp add: made_views_def)
    note pos = made_view_pos [OF made]
    have split: "take (Suc k) zs = take k zs @ [zs ! k]" using k by (rule take_Suc_conv_app_nth)
    show ?case
    proof (cases "k = 0")
      case True
      have "fold_opt ?f s (take (Suc k) zs) = Some (s @ t)"
        unfolding split fold_opt_append t(1) using pos True by simp
      then show ?thesis using t(2) True by (auto simp: less_Suc_eq)
    next
      case False
      then have ne: "1 \<le> length (zv_constraints (zs ! k))"
        using assms(2) k by (simp add: Suc_le_eq)
      let ?a = "Implies (GetConstraintsSatisfied (zs ! k))
          (PbEq (zv_constraints (zs ! k)) (replicate (length (zv_constraints (zs ! k))) 1) 1)"
      have "fold_opt ?f s (take (Suc k) zs) = Some (s @ (t @ [?a]))"
        using t(1) pos False ne by (simp add: split fold_opt_append FinishedAddingConstraints_view_def)
      moreover have "holds m ?a \<longleftrightarrow> selects_one m oi zs k" for m
        by (simp only: holds.simps(1,8) PbEq_one GetConstraintsSatisfied_made [OF made] selects_one_def)
      ultimately show ?thesis using t(2) False
        by (intro exI [of _ "t @ [?a]"]) (simp del: holds.simps add: less_Suc_eq all_conj_distrib, blast)
    qed
  qed (auto intro: exI [of _ "[]"])
  from this [of "length zs"] show ?thesis by (simp add: FinishedAddingConstraints_def)
qed

text \<open>What the assertions of the reference screen say of a model.\<close>

definition reference_model ::
    "bool \<Rightarrow> orientation \<Rightarrow> z3_view list \<Rightarrow> (nat \<Rightarrow> attribute list) \<Rightarrow> z3_model \<Rightarrow> bool" where
  "reference_model opt oi zs offers m \<longleftrightarrow>
     (\<forall>i < length zs. 0 \<le> int_interp m (name1 ''mstart_'' (unique_id_value (int i) oi)) \<and>
        0 \<le> int_interp m (name1 ''mend_'' (unique_id_value (int i) oi)) \<and>
        real_interp m (name1 ''bias_'' (unique_id_value (int i) oi)) = 1 / 2 \<and>
        model_positions m oi 0 i = (zv_start (zs ! i), zv_end (zs ! i))) \<and>
     (\<forall>i < length zs. if i = 0 then model_anchor m oi i = 0 else 0 < model_anchor m oi i) \<and>
     (\<forall>i a. 0 < i \<and> i < length zs \<and> a \<in> set (offers i) \<longrightarrow> syn_clause opt oi m a) \<and>
     (\<forall>i. 0 < i \<and> i < length zs \<and> bool_interp m (satisfied_const oi i (satisfied_id (zs ! i))) \<longrightarrow>
        exactly_one (map (\<lambda>a. bool_interp m (attr_name oi a)) (offers i)))"

lemma encode_reference_result:
  assumes "cand_ok c sc n oi" "made_views oi 0 zs" "length zs = n" "n \<le> 1000"
    and "\<forall>i < n. constraints_added c ! i = 0 \<and> zv_constraints (zs ! i) = []"
  shows "\<exists>c' zs' t. encode_reference opt c zs s = Some (c', zs', s @ t) \<and> same_candidates c c' \<and>
    views_extended zs zs' (\<lambda>i. if i = 0 then [] else map (attr_name oi) (offered c sc i)) \<and>
    (\<forall>m. satisfies m t \<longleftrightarrow> reference_model opt oi zs (offered c sc) m)"
proof -
  define u where "u = concat (map (position_assertions True) zs)"
  define v where "v = map anchor_assertion zs"
  have uv: "AddAnchorConstraints (AddPositionConstraints s zs True) zs = s @ u @ v"
    by (simp add: AddAnchorConstraints_def AddPositionConstraints_def u_def v_def)
  obtain c' zs' t where t: "AddSynAttributes opt c (zs, s @ u @ v) = Some (c', zs', (s @ u @ v) @ t)" "same_candidates c c'"
    "views_extended zs zs' (\<lambda>i. if i = 0 then [] else map (attr_name oi) (offered c sc i))"
    "\<forall>m. satisfies m t = (\<forall>i a. 0 < i \<and> i < n \<and> a \<in> set (offered c sc i) \<longrightarrow> syn_clause opt oi m a)"
    using syn_encoder.each_result [OF assms(1-4), of opt "s @ u @ v"]
    by (auto simp: AddSynAttributes_def)
  note made = views_extended_made [OF t(3) assms(2)]
  have len: "length zs' = n" using views_extended_length [OF t(3)] assms(3) by simp
  have cons: "zv_constraints (zs' ! i) = map (attr_name oi) (offered c sc i)" "satisfied_id (zs' ! i) = satisfied_id (zs ! i)"
    if "0 < i" "i < n" for i
    using t(3) assms(3,5) that by (simp_all add: views_extended_def)
  have "\<forall>i. 0 < i \<and> i < length zs' \<longrightarrow> zv_constraints (zs' ! i) \<noteq> []"
  proof (intro allI impI)
    fix i assume "0 < i \<and> i < length zs'"
    then have i: "0 < i" "i < n" using len by simp_all
    then obtain a as where "offered c sc i = a # as" using offered_first [OF assms(1) i] assms(5) by blast
    with cons(1) [OF i] show "zv_constraints (zs' ! i) \<noteq> []" by simp
  qed
  from FinishedAddingConstraints_result [OF made this, of "(s @ u @ v) @ t"] obtain w where
    w: "FinishedAddingConstraints ((s @ u @ v) @ t) zs' = Some (((s @ u @ v) @ t) @ w)"
    "\<forall>m. satisfies m w \<longleftrightarrow> (\<forall>i. 0 < i \<and> i < length zs' \<longrightarrow> selects_one m oi zs' i)" by blast
  have "satisfies m w \<longleftrightarrow> (\<forall>i. 0 < i \<and> i < n \<and> bool_interp m (satisfied_const oi i (satisfied_id (zs ! i))) \<longrightarrow>
      exactly_one (map (\<lambda>a. bool_interp m (attr_name oi a)) (offered c sc i)))" for m
    using w(2) len cons by (auto simp: selects_one_def comp_def)
  moreover have "satisfies m u \<longleftrightarrow> (\<forall>i < length zs. 0 \<le> int_interp m (name1 ''mstart_'' (unique_id_value (int i) oi)) \<and>
        0 \<le> int_interp m (name1 ''mend_'' (unique_id_value (int i) oi)) \<and>
        real_interp m (name1 ''bias_'' (unique_id_value (int i) oi)) = 1 / 2 \<and>
        model_positions m oi 0 i = (zv_start (zs ! i), zv_end (zs ! i)))" for m
    using AddPositionConstraints_meaning [OF assms(2), of m "[]"] by (simp add: AddPositionConstraints_def u_def)
  moreover have "satisfies m v \<longleftrightarrow> (\<forall>i < length zs. if i = 0 then model_anchor m oi i = 0 else 0 < model_anchor m oi i)" for m
    using AddAnchorConstraints_meaning [OF assms(2), of m "[]"] by (simp add: AddAnchorConstraints_def v_def)
  ultimately have "satisfies m (u @ v @ t @ w) \<longleftrightarrow> reference_model opt oi zs (offered c sc) m" for m
    using t(4) assms(3) by (simp only: satisfies_simps reference_model_def)
  moreover have "encode_reference opt c zs s = Some (c', zs', s @ (u @ v @ t @ w))"
    using t(1) w(1) by (simp add: encode_reference_def uv)
  ultimately show ?thesis using t(2,3) by blast
qed

section \<open>Selected constraints\<close>

text \<open>The selected candidate of a view, and the references between views that the selection makes.\<close>

definition selects :: "z3_model \<Rightarrow> orientation \<Rightarrow> attribute list \<Rightarrow> attribute \<Rightarrow> bool" where
  "selects m oi as a \<longleftrightarrow> a \<in> set as \<and> bool_interp m (attr_name oi a)"

definition selection_edges :: "z3_model \<Rightarrow> orientation \<Rightarrow> nat \<Rightarrow> (nat \<Rightarrow> attribute list) \<Rightarrow> (nat \<times> nat) set" where
  "selection_edges m oi n offers =
     {(i, j). 0 < i \<and> i < n \<and> (\<exists>a. selects m oi (offers i) a \<and> j \<in> set (attr_targets a))}"

lemma exactly_one_map:
  assumes "exactly_one (map f xs)"
  shows "\<exists>a. a \<in> set xs \<and> f a \<and> find f xs = Some a" "a \<in> set xs \<Longrightarrow> f a \<Longrightarrow> find f xs = Some a"
proof -
  have "(\<exists>a. a \<in> set xs \<and> f a \<and> find f xs = Some a) \<and> (\<forall>a \<in> set xs. f a \<longrightarrow> find f xs = Some a)"
    using assms
  proof (induction xs)
    case Nil
    then show ?case by (simp add: exactly_one_def)
  next
    case (Cons x xs)
    then show ?case by (cases "f x") (auto simp: exactly_one_Cons)
  qed
  then show "\<exists>a. a \<in> set xs \<and> f a \<and> find f xs = Some a" "a \<in> set xs \<Longrightarrow> f a \<Longrightarrow> find f xs = Some a"
    by blast+
qed

lemma sum_list_member_le:
  fixes f :: "nat \<Rightarrow> int"
  assumes "\<forall>x \<in> set xs. 0 \<le> f x" "y \<in> set xs"
  shows "f y \<le> sum_list (map f xs)"
  using assms
proof (induction xs)
  case (Cons x xs)
  then have "0 \<le> sum_list (map f xs)" by (intro sum_list_nonneg) auto
  with Cons show ?case by auto
qed simp

lemma selection_descends:
  assumes "reference_model opt oi zs offers m"
    and "\<And>i a. 0 < i \<Longrightarrow> i < length zs \<Longrightarrow> a \<in> set (offers i) \<Longrightarrow> attribute_ok (length zs) i oi a"
    and "(i, j) \<in> selection_edges m oi (length zs) offers"
  shows "0 \<le> model_anchor m oi j \<and> model_anchor m oi j < model_anchor m oi i"
proof -
  obtain a where i: "0 < i" "i < length zs" and a: "a \<in> set (offers i)" "bool_interp m (attr_name oi a)"
    "j \<in> set (attr_targets a)"
    using assms(3) by (auto simp: selection_edges_def selects_def)
  have ok: "attribute_ok (length zs) i oi a" by (rule assms(2) [OF i a(1)])
  have pos: "0 \<le> model_anchor m oi k" if "k < length zs" for k
    using assms(1) that unfolding reference_model_def by (metis less_imp_le order_refl)
  have targets: "\<forall>k \<in> set (attr_targets a). k < length zs" using ok by (rule ok_targets) auto
  have "anchor_follows m oi a"
    using assms(1) i a by (auto simp: reference_model_def syn_clause_def)
  then have "model_anchor m oi i = sum_list (map (model_anchor m oi) (attr_targets a)) + 1"
    using ok by (simp add: anchor_follows_def attribute_ok_def)
  moreover have "model_anchor m oi j \<le> sum_list (map (model_anchor m oi) (attr_targets a))"
    using sum_list_member_le [of "attr_targets a" "model_anchor m oi" j] a(3) targets pos by blast
  ultimately show ?thesis using pos targets a(3) by auto
qed

lemma acyclic_measure:
  assumes "\<And>i j. (i, j) \<in> r \<Longrightarrow> f j < (f i :: nat)"
  shows "acyclic r"
proof -
  have "r \<subseteq> (inv_image less_than f)\<inverse>" using assms by auto
  moreover have "wf (inv_image less_than f)" by simp
  ultimately show ?thesis by (meson acyclic_converse acyclic_subset wf_acyclic)
qed

lemma selection_acyclic:
  assumes "reference_model opt oi zs offers m"
    and "\<And>i a. 0 < i \<Longrightarrow> i < length zs \<Longrightarrow> a \<in> set (offers i) \<Longrightarrow> attribute_ok (length zs) i oi a"
  shows "acyclic (selection_edges m oi (length zs) offers)"
proof (rule acyclic_measure [where f = "\<lambda>i. nat (model_anchor m oi i)"])
  fix i j assume "(i, j) \<in> selection_edges m oi (length zs) offers"
  from selection_descends [OF assms this] show "nat (model_anchor m oi j) < nat (model_anchor m oi i)" by auto
qed

end
