(* ===== verification/Single_Query.thy ===== *)
theory Single_Query
  imports Smt_Encoding
begin

text \<open>
  The synthesis that solves both orientations and all devices in one query
  (\<^verbatim>\<open>src/inferui/inferui/synthesis/z3inference.h\<close> and \<^verbatim>\<open>z3inference.cpp\<close>):
  \<^verbatim>\<open>AddConstraintsSingleQuery\<close>, \<^verbatim>\<open>BlockingConstraintsHelper\<close>, \<^verbatim>\<open>GetSatConstraintsSingleQuery\<close>
  with its loop that raises the ranks of the views in the unsatisfiable core,
  \<^verbatim>\<open>SynthesizeMultiDeviceProbSingleQueryInner\<close> and the functions above it. The solver, its timer
  and its printing of reals are the parameter \<open>smt_env\<close>. An \<^verbatim>\<open>OrientationContainer\<close> with both
  entries is a function of the orientation. The lemmas show what a model of the query says, and
  from it that a successful synthesis leaves constraints that have no circular references and that
  hold on the reference screen and on every device.
\<close>

section \<open>The solver\<close>

record smt_env =
  env_check :: "assertions \<Rightarrow> assertions \<Rightarrow> check_result"
  env_core :: "assertions \<Rightarrow> assertions \<Rightarrow> z3_bool list"
  env_optimize :: "assertions \<Rightarrow> z3_num option \<Rightarrow> check_result"
  env_late :: "assertions \<Rightarrow> bool"
  env_decimal :: "nat \<Rightarrow> real \<Rightarrow> string"

section \<open>The query\<close>

record query =
  q_cands :: "orientation \<Rightarrow> candidate_constraints"
  q_views :: "orientation \<Rightarrow> z3_view list"
  q_devices :: "orientation \<Rightarrow> z3_view list list"
  q_assertions :: assertions

definition both :: "(orientation \<Rightarrow> 'a option) \<Rightarrow> (orientation \<Rightarrow> 'a) option" where
  "both f = do { h \<leftarrow> f HORIZONTAL; v \<leftarrow> f VERTICAL; Some (\<lambda>oi. if oi = HORIZONTAL then h else v) }"

text \<open>The views of the devices carry the device's number, counted from one.\<close>

definition convert_devices :: "app list \<Rightarrow> orientation \<Rightarrow> z3_view list list option" where
  "convert_devices apps oi =
     map_opt (\<lambda>(a, d). ConvertViews (app_views a) oi (int d + 1)) (zip apps [0..<length apps])"

definition convert_query :: "app \<Rightarrow> app list \<Rightarrow> (orientation \<Rightarrow> candidate_constraints) \<Rightarrow> query option" where
  "convert_query app device_apps cands =
     do { zds \<leftarrow> both (convert_devices device_apps);
          zs \<leftarrow> both (\<lambda>oi. ConvertViews (app_views app) oi 0);
          Some \<lparr>q_cands = cands, q_views = zs, q_devices = zds, q_assertions = []\<rparr> }"

definition known_positions :: "nat \<Rightarrow> z3_view list \<Rightarrow> assertions \<Rightarrow> assertions option" where
  "known_positions n zd s =
     fold_opt (\<lambda>s i. do { v \<leftarrow> vec_at zd i;
                           Some (if zv_HasFixedPosition v then s @ fixed_position_assertions v else s) }) s [1..<n]"

definition device_positions :: "nat \<Rightarrow> z3_view list \<Rightarrow> assertions \<Rightarrow> assertions option" where
  "device_positions n zd s =
     do { s1 \<leftarrow> known_positions n zd s;
          root \<leftarrow> vec_at zd 0;
          Some (s1 @ fixed_position_assertions root) }"

definition encode_device ::
    "view list \<Rightarrow> orientation \<Rightarrow> nat \<Rightarrow> candidate_constraints \<Rightarrow> z3_view list \<Rightarrow> assertions \<Rightarrow>
      (candidate_constraints \<times> enc_state) option" where
  "encode_device app_vs oi n c zd s =
     do { s1 \<leftarrow> device_positions n zd s; AddGenAttributes app_vs oi c (zd, s1) }"

primrec each_device ::
    "(candidate_constraints \<Rightarrow> 'd \<Rightarrow> assertions \<Rightarrow> (candidate_constraints \<times> enc_state) option) \<Rightarrow>
      candidate_constraints \<Rightarrow> 'd list \<Rightarrow> assertions \<Rightarrow>
      (candidate_constraints \<times> z3_view list list \<times> assertions) option" where
  "each_device f c [] s = Some (c, [], s)"
| "each_device f c (zd # zds) s =
     do { r \<leftarrow> f c zd s;
          rs \<leftarrow> each_device f (fst r) zds (snd (snd r));
          Some (fst rs, fst (snd r) # fst (snd rs), snd (snd rs)) }"

definition single_query_step :: "view list \<Rightarrow> bool \<Rightarrow> query \<Rightarrow> orientation \<Rightarrow> query option" where
  "single_query_step app_vs opt q oi =
     do { r \<leftarrow> encode_reference opt (q_cands q oi) (q_views q oi) (q_assertions q);
          ds \<leftarrow> each_device (encode_device app_vs oi (length (fst (snd r)))) (fst r) (q_devices q oi) (snd (snd r));
          Some (q\<lparr>q_cands := (q_cands q)(oi := FinishAdding (fst ds)), q_views := (q_views q)(oi := fst (snd r)),
                  q_devices := (q_devices q)(oi := fst (snd ds)), q_assertions := snd (snd ds)\<rparr>) }"

definition AddConstraintsSingleQuery :: "view list \<Rightarrow> bool \<Rightarrow> query \<Rightarrow> query option" where
  "AddConstraintsSingleQuery app_vs opt q = fold_opt (single_query_step app_vs opt) q both_orientations"

definition query_assumptions :: "query \<Rightarrow> assertions" where
  "query_assumptions q = concat (map (\<lambda>oi. GetAssumptions (q_views q oi)) both_orientations)"

section \<open>Blocking earlier solutions\<close>

record blocking =
  empty_view_indices :: "(nat \<times> nat) list"
  blocking_views :: "view list list"

definition BlockingConstraintsHelper :: "app list \<Rightarrow> blocking" where
  "BlockingConstraintsHelper apps =
     \<lparr>empty_view_indices =
        concat (map (\<lambda>d. map (Pair d) (filter (\<lambda>i. \<not> HasFixedPosition (app_views (apps ! d) ! i))
          [1..<length (app_views (apps ! d))])) [0..<length apps]),
      blocking_views = []\<rparr>"

definition blocked_view :: "app list \<Rightarrow> nat \<times> nat \<Rightarrow> view option" where
  "blocked_view apps e =
     do { a \<leftarrow> vec_at apps (fst e); v \<leftarrow> vec_at (app_views a) (snd e);
          Some (View_make (xleft v) (ytop v) (xright v) (ybottom v) (view_name v) (view_id v) None) }"

definition blocking_AddViews :: "blocking \<Rightarrow> app list \<Rightarrow> blocking option" where
  "blocking_AddViews b apps =
     do { vs \<leftarrow> map_opt (blocked_view apps) (empty_view_indices b);
          Some (b\<lparr>blocking_views := blocking_views b @ [vs]\<rparr>) }"

definition reset_view :: "app list \<Rightarrow> nat \<times> nat \<Rightarrow> app list option" where
  "reset_view apps e =
     do { a \<leftarrow> vec_at apps (fst e); v \<leftarrow> vec_at (app_views a) (snd e);
          Some (apps[fst e := a\<lparr>app_views := (app_views a)
            [snd e := v\<lparr>xleft := - 1, xright := - 1, ytop := - 1, ybottom := - 1\<rparr>]\<rparr>]) }"

definition blocking_ResetViews :: "blocking \<Rightarrow> app list \<Rightarrow> app list option" where
  "blocking_ResetViews b apps = fold_opt reset_view apps (empty_view_indices b)"

definition same_position_as :: "(orientation \<Rightarrow> z3_view list list) \<Rightarrow> view \<Rightarrow> nat \<times> nat \<Rightarrow> z3_bool option" where
  "same_position_as zds w e =
     do { hs \<leftarrow> vec_at (zds HORIZONTAL) (fst e); vs \<leftarrow> vec_at (zds VERTICAL) (fst e);
          h \<leftarrow> vec_at hs (snd e); v \<leftarrow> vec_at vs (snd e);
          Some (And (And (And (NumEq (IntVal (xleft w)) (position_start_v h)) (NumEq (IntVal (xright w)) (position_end_v h)))
                  (NumEq (IntVal (ytop w)) (position_start_v v))) (NumEq (IntVal (ybottom w)) (position_end_v v))) }"

definition blocking_assertion :: "blocking \<Rightarrow> (orientation \<Rightarrow> z3_view list list) \<Rightarrow> view list \<Rightarrow> z3_bool option" where
  "blocking_assertion b zds ws =
     do { CHECK (length (empty_view_indices b) = length ws);
          same \<leftarrow> map_opt (\<lambda>(w, e). same_position_as zds w e) (zip ws (empty_view_indices b));
          Some (Neg (foldl And (BoolVal True) same)) }"

definition AddBlockingConstraints :: "blocking option \<Rightarrow> query \<Rightarrow> query option" where
  "AddBlockingConstraints b q =
     (case b of None \<Rightarrow> Some q
      | Some b \<Rightarrow> do { ps \<leftarrow> map_opt (blocking_assertion b (q_devices q)) (blocking_views b);
                       Some (q\<lparr>q_assertions := q_assertions q @ ps\<rparr>) })"

section \<open>Finding satisfiable candidates\<close>

text \<open>\<^verbatim>\<open>GetUnsatViews\<close>: the positions of the views whose constant is in the core.\<close>

definition GetUnsatViews :: "z3_bool list \<Rightarrow> z3_view list \<Rightarrow> nat list" where
  "GetUnsatViews core zs =
     filter (\<lambda>i. zv_pos (zs ! i) \<noteq> 0 \<and> GetConstraintsSatisfied (zs ! i) \<in> set core) [0..<length zs]"

definition raise_view ::
    "int \<Rightarrow> candidate_constraints \<times> z3_view list \<Rightarrow> nat \<Rightarrow> (candidate_constraints \<times> z3_view list) option" where
  "raise_view k cz i =
     do { v \<leftarrow> vec_at (snd cz) i;
          c \<leftarrow> IncreaseRank_view (fst cz) v k;
          Some (c, (snd cz)[i := IncSatisfiedId v]) }"

definition raise_ranks ::
    "nat \<Rightarrow> z3_bool list \<Rightarrow> candidate_constraints \<Rightarrow> z3_view list \<Rightarrow> (candidate_constraints \<times> z3_view list) option" where
  "raise_ranks num_tries core c zs =
     (if num_tries mod 20 = 0 then fold_opt (raise_view 5) (c, zs) [0..<length zs]
      else fold_opt (raise_view 10) (c, zs) (GetUnsatViews core zs))"

text \<open>The constraints of further candidates, for the reference screen and the devices.\<close>

definition extend_constraints ::
    "view list \<Rightarrow> orientation \<Rightarrow> candidate_constraints \<times> z3_view list \<Rightarrow> z3_view list list \<Rightarrow> assertions \<Rightarrow>
      (candidate_constraints \<times> z3_view list \<times> z3_view list list \<times> assertions) option" where
  "extend_constraints app_vs oi cz zds s =
     do { r \<leftarrow> AddSynAttributes False (fst cz) (snd cz, s);
          ds \<leftarrow> each_device (\<lambda>c zd s. AddGenAttributes app_vs oi c (zd, s)) (fst r) zds (snd (snd r));
          s' \<leftarrow> FinishedAddingConstraints (snd (snd ds)) (fst (snd r));
          Some (FinishAdding (fst ds), fst (snd r), fst (snd ds), s') }"

definition more_constraints_step ::
    "view list \<Rightarrow> nat \<Rightarrow> z3_bool list \<Rightarrow> query \<Rightarrow> orientation \<Rightarrow> query option" where
  "more_constraints_step app_vs num_tries core q oi =
     do { cz \<leftarrow> raise_ranks num_tries core (q_cands q oi) (q_views q oi);
          r \<leftarrow> extend_constraints app_vs oi cz (q_devices q oi) (q_assertions q);
          Some (q\<lparr>q_cands := (q_cands q)(oi := fst r), q_views := (q_views q)(oi := fst (snd r)),
                  q_devices := (q_devices q)(oi := fst (snd (snd r))), q_assertions := snd (snd (snd r))\<rparr>) }"

text \<open>
  The loop has at most 100 rounds; \<open>k\<close> counts the remaining ones. The result of a check that is
  not \<^verbatim>\<open>sat\<close> becomes a status.
\<close>

definition failure_status :: "smt_env \<Rightarrow> assertions \<Rightarrow> check_result \<Rightarrow> status" where
  "failure_status env s res = (if env_late env s then TIMEOUT else case res of Unsat \<Rightarrow> UNSAT | _ \<Rightarrow> UNKNOWN)"

primrec sat_loop :: "smt_env \<Rightarrow> view list \<Rightarrow> nat \<Rightarrow> query \<Rightarrow> (status \<times> query) option" where
  "sat_loop env app_vs 0 q =
     (case env_check env (q_assertions q) (query_assumptions q) of
        Sat m \<Rightarrow> Some (SUCCESS, q)
      | res \<Rightarrow> Some (failure_status env (q_assertions q) res, q))"
| "sat_loop env app_vs (Suc k) q =
     (case env_check env (q_assertions q) (query_assumptions q) of
        Sat m \<Rightarrow> Some (SUCCESS, q)
      | Unknown \<Rightarrow> Some (failure_status env (q_assertions q) Unknown, q)
      | Unsat \<Rightarrow>
          if env_late env (q_assertions q) then Some (TIMEOUT, q)
          else do { q' \<leftarrow> fold_opt (more_constraints_step app_vs (100 - k) (env_core env (q_assertions q) (query_assumptions q)))
                            q both_orientations;
                    sat_loop env app_vs k q' })"

definition GetSatConstraintsSingleQuery ::
    "smt_env \<Rightarrow> app \<Rightarrow> app list \<Rightarrow> (orientation \<Rightarrow> candidate_constraints) \<Rightarrow> blocking option \<Rightarrow>
      (status \<times> (orientation \<Rightarrow> candidate_constraints)) option" where
  "GetSatConstraintsSingleQuery env app device_apps cands b =
     do { q0 \<leftarrow> convert_query app device_apps cands;
          q1 \<leftarrow> AddConstraintsSingleQuery (app_views app) False q0;
          q2 \<leftarrow> AddBlockingConstraints b q1;
          r \<leftarrow> sat_loop env (app_views app) 100 q2;
          Some (fst r, q_cands (snd r)) }"

section \<open>The final query and its result\<close>

definition set_interval :: "orientation \<Rightarrow> view \<Rightarrow> int \<Rightarrow> int \<Rightarrow> view" where
  "set_interval oi v s e =
     (if oi = HORIZONTAL then v\<lparr>xleft := s, xright := e\<rparr> else v\<lparr>ytop := s, ybottom := e\<rparr>)"

definition assign_models ::
    "smt_env \<Rightarrow> z3_model \<Rightarrow> orientation \<Rightarrow> z3_view list \<Rightarrow> view list \<Rightarrow> view list option" where
  "assign_models env m oi zs vs =
     fold_opt (\<lambda>vs z. if zv_pos z = 0 then Some vs
                      else map_option fst (AssignModel (env_decimal env) m oi None vs z)) vs zs"

definition assign_device ::
    "(view \<Rightarrow> bool) \<Rightarrow> z3_model \<Rightarrow> orientation \<Rightarrow> app \<Rightarrow> z3_view list \<Rightarrow> app option" where
  "assign_device skip m oi a zd =
     do { CHECK (length (app_views a) = length zd);
          vs \<leftarrow> fold_opt (\<lambda>vs i.
                  do { v \<leftarrow> vec_at vs i;
                       if skip v then Some vs
                       else do { z \<leftarrow> vec_at zd i; z' \<leftarrow> AssignPosition m z;
                                 Some (vs[i := set_interval oi v (zv_start z') (zv_end z')]) } })
                (app_views a) [1..<length zd];
          Some (a\<lparr>app_views := vs\<rparr>) }"

definition assign_devices ::
    "(view \<Rightarrow> bool) \<Rightarrow> z3_model \<Rightarrow> orientation \<Rightarrow> z3_view list list \<Rightarrow> app list \<Rightarrow> app list option" where
  "assign_devices skip m oi zds apps =
     map_opt (\<lambda>(a, zd). assign_device skip m oi a zd) (zip apps zds)"

definition cost_of_views :: "z3_view list \<Rightarrow> z3_num \<Rightarrow> z3_num" where
  "cost_of_views zs cost = foldl (\<lambda>e v. if zv_pos v = 0 then e else NumAdd e (GetCostExpr v)) cost zs"

definition SingleQueryInner ::
    "smt_env \<Rightarrow> bool \<Rightarrow> app \<Rightarrow> app list \<Rightarrow> (orientation \<Rightarrow> candidate_constraints) \<Rightarrow> blocking option \<Rightarrow>
      (status \<times> app \<times> app list \<times> (orientation \<Rightarrow> candidate_constraints)) option" where
  "SingleQueryInner env opt app device_apps cands b =
     do { q0 \<leftarrow> convert_query app device_apps (\<lambda>oi. ResetAdding (cands oi));
          q1 \<leftarrow> AddConstraintsSingleQuery (app_views app) opt q0;
          q2 \<leftarrow> AddBlockingConstraints b q1;
          let s = q_assertions q2 @ query_assumptions q2;
          let cost = (if opt then Some (foldl (\<lambda>e oi. cost_of_views (q_views q2 oi) e) (IntVal 0) both_orientations) else None);
          case env_optimize env s cost of
            Sat m \<Rightarrow>
              do { vs \<leftarrow> fold_opt (\<lambda>vs oi. assign_models env m oi (q_views q2 oi) vs) (app_views app) both_orientations;
                   apps \<leftarrow> fold_opt (\<lambda>apps oi. assign_devices HasFixedPosition m oi (q_devices q2 oi) apps)
                             device_apps both_orientations;
                   Some (SUCCESS, app\<lparr>app_views := vs\<rparr>, apps, q_cands q2) }
          | res \<Rightarrow> Some (failure_status env s res, app, device_apps, q_cands q2) }"

text \<open>\<^verbatim>\<open>SynthesizeMultiDeviceProbSingleQuery\<close>, for given scorers.\<close>

definition start_candidates ::
    "(orientation \<Rightarrow> attr_scorer) \<Rightarrow> view list \<Rightarrow> orientation \<Rightarrow> candidate_constraints option" where
  "start_candidates scorers vs oi =
     do { zs \<leftarrow> ConvertViews vs oi 0; c \<leftarrow> CandidateConstraints (Some (scorers oi)) zs; Some (IncreaseRank 5 c) }"

definition SynthesizeSingleQuery ::
    "smt_env \<Rightarrow> bool \<Rightarrow> (orientation \<Rightarrow> attr_scorer) \<Rightarrow> app \<Rightarrow> app list \<Rightarrow> blocking option \<Rightarrow>
      (status \<times> app \<times> app list) option" where
  "SynthesizeSingleQuery env opt scorers app device_apps b =
     do { cands \<leftarrow> both (start_candidates scorers (app_views app));
          r \<leftarrow> GetSatConstraintsSingleQuery env app device_apps cands b;
          if fst r \<noteq> SUCCESS then Some (fst r, app, device_apps)
          else do { res \<leftarrow> SingleQueryInner env opt app device_apps (snd r) b;
                    if \<not> opt \<or> fst res = SUCCESS then Some (fst res, fst (snd res), fst (snd (snd res)))
                    else do { res2 \<leftarrow> SingleQueryInner env False app device_apps (snd (snd (snd res))) b;
                              Some (fst res2, fst (snd res2), fst (snd (snd res2))) } } }"

text \<open>\<^verbatim>\<open>SynthesizeLayoutMultiAppsProbSingleQuery\<close>.\<close>

definition SynthesizeLayoutSingleQuery ::
    "smt_env \<Rightarrow> bool \<Rightarrow> prob_model \<Rightarrow> app \<Rightarrow> app list \<Rightarrow> (status \<times> app \<times> app list) option" where
  "SynthesizeLayoutSingleQuery env opt model app device_apps =
     do { scorers \<leftarrow> both (\<lambda>oi. AttrScorer model (app_views app) oi);
          SynthesizeSingleQuery env opt scorers app device_apps None }"

text \<open>
  \<^verbatim>\<open>SynthesizeLayoutMultiAppsProbSingleQueryCandidates\<close>: solutions are offered to the callback
  until it is satisfied or there is no further one. The callback is a function on what it keeps
  between two calls.
\<close>

partial_function (option) candidates_loop ::
    "smt_env \<Rightarrow> bool \<Rightarrow> (orientation \<Rightarrow> attr_scorer) \<Rightarrow> ('s \<Rightarrow> app \<Rightarrow> app list \<Rightarrow> bool \<times> 's) \<Rightarrow> 's \<Rightarrow>
      app \<Rightarrow> app list \<Rightarrow> blocking \<Rightarrow> ((status \<times> app \<times> app list) \<times> 's) option" where
  "candidates_loop env opt scorers cb st app device_apps b =
     do { apps \<leftarrow> blocking_ResetViews b device_apps;
          r \<leftarrow> SynthesizeSingleQuery env opt scorers app apps (Some b);
          if fst r \<noteq> SUCCESS then Some (r, st)
          else do { b' \<leftarrow> blocking_AddViews b (snd (snd r));
                    let c = cb st (fst (snd r)) (snd (snd r));
                    if fst c
                    then candidates_loop env opt scorers cb (snd c) (fst (snd r)) (snd (snd r)) b'
                    else Some (r, snd c) } }"

definition SynthesizeSingleQueryCandidates ::
    "smt_env \<Rightarrow> bool \<Rightarrow> prob_model \<Rightarrow> ('s \<Rightarrow> app \<Rightarrow> app list \<Rightarrow> bool \<times> 's) \<Rightarrow> 's \<Rightarrow> app \<Rightarrow> app list \<Rightarrow>
      ((status \<times> app \<times> app list) \<times> 's) option" where
  "SynthesizeSingleQueryCandidates env opt model cb st app device_apps =
     do { scorers \<leftarrow> both (\<lambda>oi. AttrScorer model (app_views app) oi);
          candidates_loop env opt scorers cb st app device_apps (BlockingConstraintsHelper device_apps) }"

section \<open>What the query says of a model\<close>

text \<open>A device: known positions and the content frame are where they are, the selected
  constraints hold there too and views of fixed size keep it.\<close>

definition device_model ::
    "view list \<Rightarrow> orientation \<Rightarrow> int \<Rightarrow> z3_view list \<Rightarrow> (nat \<Rightarrow> attribute list) \<Rightarrow> z3_model \<Rightarrow> bool" where
  "device_model app_vs oi d zd offers m \<longleftrightarrow>
     (\<forall>i < length zd. i = 0 \<or> zv_HasFixedPosition (zd ! i) \<longrightarrow>
        model_positions m oi d i = (zv_start (zd ! i), zv_end (zd ! i))) \<and>
     (\<forall>i a. 0 < i \<and> i < length zd \<and> a \<in> set (offers i) \<longrightarrow> gen_clause app_vs oi d m a)"

lemma fixed_position_meaning:
  "made_view oi d i v \<Longrightarrow> satisfies m (fixed_position_assertions v) \<longleftrightarrow> model_positions m oi d i = (zv_start v, zv_end v)"
  by (auto simp: fixed_position_assertions_def made_view_def model_positions_def)

lemma known_positions_result:
  assumes "made_views oi d zd"
  shows "\<exists>t. known_positions (length zd) zd s = Some (s @ t) \<and>
    (\<forall>m. satisfies m t \<longleftrightarrow> (\<forall>i. 0 < i \<and> i < length zd \<and> zv_HasFixedPosition (zd ! i) \<longrightarrow>
        model_positions m oi d i = (zv_start (zd ! i), zv_end (zd ! i))))"
proof -
  have made: "made_view oi d i (zd ! i)" if "i < length zd" for i using assms that by (simp add: made_views_def)
  let ?f = "\<lambda>s i. do { v \<leftarrow> vec_at zd i; Some (if zv_HasFixedPosition v then s @ fixed_position_assertions v else s) }"
  have "\<exists>t. fold_opt ?f s [1..<k] = Some (s @ t) \<and>
      (\<forall>m. satisfies m t \<longleftrightarrow> (\<forall>i. 0 < i \<and> i < k \<and> zv_HasFixedPosition (zd ! i) \<longrightarrow>
        model_positions m oi d i = (zv_start (zd ! i), zv_end (zd ! i))))" if "k \<le> length zd" for k
    using that
  proof (induction k)
    case (Suc k)
    then obtain t where t: "fold_opt ?f s [1..<k] = Some (s @ t)"
      "\<forall>m. satisfies m t \<longleftrightarrow> (\<forall>i. 0 < i \<and> i < k \<and> zv_HasFixedPosition (zd ! i) \<longrightarrow>
        model_positions m oi d i = (zv_start (zd ! i), zv_end (zd ! i)))" by auto
    have k: "k < length zd" using Suc.prems by simp
    show ?case
    proof (cases "k = 0")
      case True
      then show ?thesis by (intro exI [of _ "[]"]) auto
    next
      case False
      then have up: "[1..<Suc k] = [1..<k] @ [k]" by simp
      let ?u = "if zv_HasFixedPosition (zd ! k) then fixed_position_assertions (zd ! k) else []"
      have "fold_opt ?f s [1..<Suc k] = Some (s @ (t @ ?u))"
        unfolding up fold_opt_append t(1) using k by simp
      moreover have "satisfies m ?u \<longleftrightarrow> (zv_HasFixedPosition (zd ! k) \<longrightarrow>
          model_positions m oi d k = (zv_start (zd ! k), zv_end (zd ! k)))" for m
        using fixed_position_meaning [OF made [OF k], of m] by simp
      ultimately show ?thesis using t(2) False
        by (intro exI [of _ "t @ ?u"]) (auto simp: less_Suc_eq)
    qed
  qed (auto intro: exI [of _ "[]"])
  then show ?thesis by (simp add: known_positions_def)
qed

lemma device_positions_result:
  assumes "made_views oi d zd" "0 < length zd"
  shows "\<exists>t. device_positions (length zd) zd s = Some (s @ t) \<and>
    (\<forall>m. satisfies m t \<longleftrightarrow> (\<forall>i < length zd. i = 0 \<or> zv_HasFixedPosition (zd ! i) \<longrightarrow>
        model_positions m oi d i = (zv_start (zd ! i), zv_end (zd ! i))))"
proof -
  have made: "made_view oi d i (zd ! i)" if "i < length zd" for i using assms(1) that by (simp add: made_views_def)
  obtain t where t: "known_positions (length zd) zd s = Some (s @ t)"
    "\<forall>m. satisfies m t \<longleftrightarrow> (\<forall>i. 0 < i \<and> i < length zd \<and> zv_HasFixedPosition (zd ! i) \<longrightarrow>
        model_positions m oi d i = (zv_start (zd ! i), zv_end (zd ! i)))"
    using known_positions_result [OF assms(1)] by blast
  have "device_positions (length zd) zd s = Some (s @ (t @ fixed_position_assertions (zd ! 0)))"
    using t(1) assms(2) by (simp add: device_positions_def)
  moreover have "satisfies m (t @ fixed_position_assertions (zd ! 0)) \<longleftrightarrow>
      (\<forall>i < length zd. i = 0 \<or> zv_HasFixedPosition (zd ! i) \<longrightarrow>
        model_positions m oi d i = (zv_start (zd ! i), zv_end (zd ! i)))" for m
    using t(2) fixed_position_meaning [OF made [OF assms(2)], of m] assms(2) by (auto simp del: not_gr_zero) (metis gr0I)
  ultimately show ?thesis by blast
qed

lemma encode_device_result:
  assumes "cand_ok c sc n oi" "made_views oi d zd" "length zd = n" "n \<le> 1000" "n \<le> length app_vs"
  shows "\<exists>c' zd' t. encode_device app_vs oi n c zd s = Some (c', zd', s @ t) \<and> same_candidates c c' \<and>
    (\<exists>g. views_extended zd zd' g) \<and> (\<forall>m. satisfies m t \<longleftrightarrow> device_model app_vs oi d zd (offered c sc) m)"
proof -
  have n: "0 < length zd" using assms(1,3) by (auto simp: cand_ok_def scorer_ok_def)
  obtain t where t: "device_positions n zd s = Some (s @ t)"
    "\<forall>m. satisfies m t \<longleftrightarrow> (\<forall>i < length zd. i = 0 \<or> zv_HasFixedPosition (zd ! i) \<longrightarrow>
        model_positions m oi d i = (zv_start (zd ! i), zv_end (zd ! i)))"
    using device_positions_result [OF assms(2) n, of s] assms(3) by auto
  obtain c' zd' u where u: "AddGenAttributes app_vs oi c (zd, s @ t) = Some (c', zd', (s @ t) @ u)" "same_candidates c c'"
    "views_extended zd zd' (\<lambda>i. if i = 0 then [] else map (attr_name oi) (offered c sc i))"
    "\<forall>m. satisfies m u = (\<forall>i a. 0 < i \<and> i < n \<and> a \<in> set (offered c sc i) \<longrightarrow> gen_clause app_vs oi d m a)"
    using gen_encoder.each_result [OF assms(1-3), of app_vs "s @ t"] assms(4,5) by (auto simp: AddGenAttributes_def)
  have "encode_device app_vs oi n c zd s = Some (c', zd', s @ (t @ u))"
    using t(1) u(1) by (simp add: encode_device_def)
  moreover have "satisfies m (t @ u) \<longleftrightarrow> device_model app_vs oi d zd (offered c sc) m" for m
    using t(2) u(4) assms(3) by (simp add: device_model_def)
  ultimately show ?thesis using u(2,3) by blast
qed

lemma each_device_result:
  assumes "\<And>c1 k s. same_candidates c c1 \<Longrightarrow> k < length zds \<Longrightarrow>
      \<exists>c' zd' t. f c1 (zds ! k) s = Some (c', zd', s @ t) \<and> same_candidates c1 c' \<and>
        (\<exists>g. views_extended (V (zds ! k)) zd' g) \<and> (\<forall>m. satisfies m t \<longleftrightarrow> M k m)"
  shows "\<exists>c' zds' t. each_device f c zds s = Some (c', zds', s @ t) \<and> same_candidates c c' \<and>
    length zds' = length zds \<and> (\<forall>k < length zds. \<exists>g. views_extended (V (zds ! k)) (zds' ! k) g) \<and>
    (\<forall>m. satisfies m t \<longleftrightarrow> (\<forall>k < length zds. M k m))"
  using assms
proof (induction zds arbitrary: c s M)
  case Nil
  then show ?case using same_candidates_refl [of c] by (auto intro: exI [of _ "[]"])
next
  case (Cons zd zds)
  obtain c1 zd' t where t: "f c zd s = Some (c1, zd', s @ t)" "same_candidates c c1"
    "\<exists>g. views_extended (V zd) zd' g" "\<forall>m. satisfies m t \<longleftrightarrow> M 0 m"
    using Cons.prems [OF same_candidates_refl, of 0 s] by auto
  have "\<exists>c' zds' u. each_device f c1 zds (s @ t) = Some (c', zds', (s @ t) @ u) \<and> same_candidates c1 c' \<and>
    length zds' = length zds \<and> (\<forall>k < length zds. \<exists>g. views_extended (V (zds ! k)) (zds' ! k) g) \<and>
    (\<forall>m. satisfies m u \<longleftrightarrow> (\<forall>k < length zds. M (Suc k) m))"
  proof (rule Cons.IH)
    fix c2 k s assume "same_candidates c1 c2" "k < length zds"
    then show "\<exists>c' zd' t. f c2 (zds ! k) s = Some (c', zd', s @ t) \<and> same_candidates c2 c' \<and>
        (\<exists>g. views_extended (V (zds ! k)) zd' g) \<and> (\<forall>m. satisfies m t \<longleftrightarrow> M (Suc k) m)"
      using Cons.prems [OF same_candidates_trans [OF t(2)], of c2 "Suc k" s] by simp
  qed
  then obtain c' zds' u where u: "each_device f c1 zds (s @ t) = Some (c', zds', (s @ t) @ u)" "same_candidates c1 c'"
    "length zds' = length zds" "\<forall>k < length zds. \<exists>g. views_extended (V (zds ! k)) (zds' ! k) g"
    "\<forall>m. satisfies m u \<longleftrightarrow> (\<forall>k < length zds. M (Suc k) m)" by blast
  have "each_device f c (zd # zds) s = Some (c', zd' # zds', s @ (t @ u))" using t(1) u(1) by simp
  moreover have "satisfies m (t @ u) \<longleftrightarrow> (\<forall>k < length (zd # zds). M k m)" for m
    using t(4) u(5) by (simp add: All_less_Suc2)
  moreover have "\<forall>k < length (zd # zds). \<exists>g. views_extended (V ((zd # zds) ! k)) ((zd' # zds') ! k) g"
    using t(3) u(4) by (simp add: All_less_Suc2)
  ultimately show ?case using same_candidates_trans [OF t(2) u(2)] u(3)
    by (intro exI [of _ c'] exI [of _ "zd' # zds'"] exI [of _ "t @ u"]) simp
qed

text \<open>A query over views of one length, and what it says.\<close>

definition query_ok :: "view list \<Rightarrow> nat \<Rightarrow> (orientation \<Rightarrow> attr_scorer) \<Rightarrow> query \<Rightarrow> bool" where
  "query_ok app_vs n scs q \<longleftrightarrow> n \<le> 1000 \<and> n \<le> length app_vs \<and>
     (\<forall>oi. cand_ok (q_cands q oi) (scs oi) n oi \<and> made_views oi 0 (q_views q oi) \<and> length (q_views q oi) = n \<and>
        (\<forall>k < length (q_devices q oi). made_views oi (int k + 1) (q_devices q oi ! k) \<and> length (q_devices q oi ! k) = n))"

definition query_fresh :: "nat \<Rightarrow> query \<Rightarrow> bool" where
  "query_fresh n q \<longleftrightarrow>
     (\<forall>oi. \<forall>i < n. constraints_added (q_cands q oi) ! i = 0 \<and> zv_constraints (q_views q oi ! i) = [])"

definition orientation_model ::
    "view list \<Rightarrow> bool \<Rightarrow> (orientation \<Rightarrow> attr_scorer) \<Rightarrow> query \<Rightarrow> orientation \<Rightarrow> z3_model \<Rightarrow> bool" where
  "orientation_model app_vs opt scs q oi m \<longleftrightarrow>
     reference_model opt oi (q_views q oi) (offered (q_cands q oi) (scs oi)) m \<and>
     (\<forall>k < length (q_devices q oi).
        device_model app_vs oi (int k + 1) (q_devices q oi ! k) (offered (q_cands q oi) (scs oi)) m)"

definition extended_at :: "(orientation \<Rightarrow> attr_scorer) \<Rightarrow> orientation \<Rightarrow> query \<Rightarrow> query \<Rightarrow> bool" where
  "extended_at scs oi q q' \<longleftrightarrow>
     views_extended (q_views q oi) (q_views q' oi)
        (\<lambda>i. if i = 0 then [] else map (attr_name oi) (offered (q_cands q oi) (scs oi) i)) \<and>
     length (q_devices q' oi) = length (q_devices q oi) \<and>
     (\<forall>k < length (q_devices q oi). \<exists>g. views_extended (q_devices q oi ! k) (q_devices q' oi ! k) g) \<and>
     (\<exists>c. same_candidates (q_cands q oi) c \<and> q_cands q' oi = FinishAdding c)"

definition same_at :: "orientation \<Rightarrow> query \<Rightarrow> query \<Rightarrow> bool" where
  "same_at oi q q' \<longleftrightarrow> q_cands q' oi = q_cands q oi \<and> q_views q' oi = q_views q oi \<and> q_devices q' oi = q_devices q oi"

lemma orientation_model_same:
  "same_at oi q q' \<Longrightarrow> orientation_model app_vs opt scs q' oi = orientation_model app_vs opt scs q oi"
  by (simp add: orientation_model_def same_at_def fun_eq_iff)

lemma query_ok_at:
  assumes "query_ok app_vs n scs q" "same_at oj q q'" "oj \<noteq> oi" "extended_at scs oi q q'" "cand_ok (q_cands q' oi) (scs oi) n oi"
  shows "query_ok app_vs n scs q'"
proof -
  have oi: "made_views oi 0 (q_views q' oi) \<and> length (q_views q' oi) = n"
  proof -
    have v: "views_extended (q_views q oi) (q_views q' oi)
        (\<lambda>i. if i = 0 then [] else map (attr_name oi) (offered (q_cands q oi) (scs oi) i))"
      using assms(4) by (simp add: extended_at_def)
    have "made_views oi 0 (q_views q oi)" "length (q_views q oi) = n" using assms(1) by (simp_all add: query_ok_def)
    with views_extended_made [OF v] views_extended_length [OF v] show ?thesis by simp
  qed
  have dev: "made_views oi (int k + 1) (q_devices q' oi ! k) \<and> length (q_devices q' oi ! k) = n"
    if k: "k < length (q_devices q' oi)" for k
  proof -
    obtain g where g: "views_extended (q_devices q oi ! k) (q_devices q' oi ! k) g" "k < length (q_devices q oi)"
      using assms(4) k unfolding extended_at_def by auto
    then have "made_views oi (int k + 1) (q_devices q oi ! k)" "length (q_devices q oi ! k) = n"
      using assms(1) by (simp_all add: query_ok_def)
    with views_extended_made [OF g(1)] views_extended_length [OF g(1)] show ?thesis by simp
  qed
  have at_oi: "cand_ok (q_cands q' oi) (scs oi) n oi \<and> made_views oi 0 (q_views q' oi) \<and> length (q_views q' oi) = n \<and>
        (\<forall>k < length (q_devices q' oi). made_views oi (int k + 1) (q_devices q' oi ! k) \<and> length (q_devices q' oi ! k) = n)"
    using assms(5) oi dev by simp
  have at_oj: "cand_ok (q_cands q' oj) (scs oj) n oj \<and> made_views oj 0 (q_views q' oj) \<and> length (q_views q' oj) = n \<and>
        (\<forall>k < length (q_devices q' oj). made_views oj (int k + 1) (q_devices q' oj ! k) \<and> length (q_devices q' oj ! k) = n)"
    using assms(1,2) by (simp add: query_ok_def same_at_def)
  have "cand_ok (q_cands q' ok) (scs ok) n ok \<and> made_views ok 0 (q_views q' ok) \<and> length (q_views q' ok) = n \<and>
        (\<forall>k < length (q_devices q' ok). made_views ok (int k + 1) (q_devices q' ok ! k) \<and> length (q_devices q' ok ! k) = n)" for ok
  proof -
    have "ok = oi \<or> ok = oj" using assms(3) by (cases ok; cases oi; cases oj) simp_all
    then show ?thesis
    proof
      assume "ok = oi"
      then show ?thesis using at_oi by simp
    next
      assume "ok = oj"
      then show ?thesis using at_oj by simp
    qed
  qed
  with assms(1) show ?thesis by (simp add: query_ok_def)
qed

lemma single_query_step_result:
  assumes "query_ok app_vs n scs q"
    and "\<forall>i < n. constraints_added (q_cands q oi) ! i = 0 \<and> zv_constraints (q_views q oi ! i) = []"
    and "oj \<noteq> oi"
  shows "\<exists>q' t. single_query_step app_vs opt q oi = Some q' \<and> q_assertions q' = q_assertions q @ t \<and>
    query_ok app_vs n scs q' \<and> extended_at scs oi q q' \<and> same_at oj q q' \<and>
    (\<forall>m. satisfies m t \<longleftrightarrow> orientation_model app_vs opt scs q oi m)"
proof -
  let ?c = "q_cands q oi" and ?zs = "q_views q oi" and ?zds = "q_devices q oi"
  have ok: "cand_ok ?c (scs oi) n oi" "made_views oi 0 ?zs" "length ?zs = n" "n \<le> 1000" "n \<le> length app_vs"
    "\<forall>k < length ?zds. made_views oi (int k + 1) (?zds ! k) \<and> length (?zds ! k) = n"
    using assms(1) by (simp_all add: query_ok_def)
  obtain c1 zs t where t: "encode_reference opt ?c ?zs (q_assertions q) = Some (c1, zs, q_assertions q @ t)"
    "same_candidates ?c c1"
    "views_extended ?zs zs (\<lambda>i. if i = 0 then [] else map (attr_name oi) (offered ?c (scs oi) i))"
    "\<forall>m. satisfies m t \<longleftrightarrow> reference_model opt oi ?zs (offered ?c (scs oi)) m"
    using encode_reference_result [OF ok(1-4) assms(2), of opt "q_assertions q"] by blast
  have len: "length zs = n" using views_extended_length [OF t(3)] ok(3) by simp
  have "\<exists>c' zds' u. each_device (encode_device app_vs oi n) c1 ?zds (q_assertions q @ t) =
        Some (c', zds', (q_assertions q @ t) @ u) \<and> same_candidates c1 c' \<and>
      length zds' = length ?zds \<and> (\<forall>k < length ?zds. \<exists>g. views_extended (?zds ! k) (zds' ! k) g) \<and>
      (\<forall>m. satisfies m u \<longleftrightarrow> (\<forall>k < length ?zds. device_model app_vs oi (int k + 1) (?zds ! k) (offered ?c (scs oi)) m))"
  proof (rule each_device_result [where V = "\<lambda>zd. zd"])
    fix c2 k s assume c2: "same_candidates c1 c2" and k: "k < length ?zds"
    note same = same_candidates_trans [OF t(2) c2]
    have made: "made_views oi (int k + 1) (?zds ! k)" "length (?zds ! k) = n" using ok(6) k by simp_all
    have off: "offered c2 (scs oi) = offered ?c (scs oi)" using same_candidates_ok(2) [OF same] by auto
    show "\<exists>c' zd' t. encode_device app_vs oi n c2 (?zds ! k) s = Some (c', zd', s @ t) \<and> same_candidates c2 c' \<and>
        (\<exists>g. views_extended (?zds ! k) zd' g) \<and>
        (\<forall>m. satisfies m t \<longleftrightarrow> device_model app_vs oi (int k + 1) (?zds ! k) (offered ?c (scs oi)) m)"
      using encode_device_result [OF same_candidates_ok(1) [OF same ok(1)] made ok(4,5), of s] by (simp only: off)
  qed
  then obtain c zds u where u: "each_device (encode_device app_vs oi n) c1 ?zds (q_assertions q @ t) =
        Some (c, zds, (q_assertions q @ t) @ u)" "same_candidates c1 c"
      "length zds = length ?zds" "\<forall>k < length ?zds. \<exists>g. views_extended (?zds ! k) (zds ! k) g"
      "\<forall>m. satisfies m u \<longleftrightarrow> (\<forall>k < length ?zds. device_model app_vs oi (int k + 1) (?zds ! k) (offered ?c (scs oi)) m)"
    by blast
  let ?q = "q\<lparr>q_cands := (q_cands q)(oi := FinishAdding c), q_views := (q_views q)(oi := zs),
              q_devices := (q_devices q)(oi := zds), q_assertions := q_assertions q @ (t @ u)\<rparr>"
  have "single_query_step app_vs opt q oi = Some ?q"
    using t(1) u(1) len by (simp add: single_query_step_def)
  moreover have "satisfies m (t @ u) \<longleftrightarrow> orientation_model app_vs opt scs q oi m" for m
    using t(4) u(5) by (simp add: orientation_model_def)
  moreover have e: "extended_at scs oi q ?q"
    using t(3) u(3,4) same_candidates_trans [OF t(2) u(2)] by (auto simp: extended_at_def)
  moreover have same: "same_at oj q ?q" using assms(3) by (simp add: same_at_def)
  moreover have "query_ok app_vs n scs ?q"
  proof (rule query_ok_at [OF assms(1) same assms(3) e])
    show "cand_ok (q_cands ?q oi) (scs oi) n oi"
      using cand_ok_updates(2) [OF same_candidates_ok(1) [OF same_candidates_trans [OF t(2) u(2)] ok(1)]] by simp
  qed
  ultimately show ?thesis by (intro exI [of _ ?q] exI [of _ "t @ u"]) simp
qed

lemma AddConstraintsSingleQuery_result:
  assumes "query_ok app_vs n scs q" "query_fresh n q"
  shows "\<exists>q' t. AddConstraintsSingleQuery app_vs opt q = Some q' \<and> q_assertions q' = q_assertions q @ t \<and>
    query_ok app_vs n scs q' \<and> (\<forall>oi. extended_at scs oi q q') \<and>
    (\<forall>m. satisfies m t \<longleftrightarrow> (\<forall>oi. orientation_model app_vs opt scs q oi m))"
proof -
  let ?H = "HORIZONTAL" and ?V = "VERTICAL"
  have fresh: "\<forall>i < n. constraints_added (q_cands q oi) ! i = 0 \<and> zv_constraints (q_views q oi ! i) = []" for oi
    using assms(2) by (simp add: query_fresh_def)
  obtain q1 t where s1: "single_query_step app_vs opt q ?H = Some q1" "q_assertions q1 = q_assertions q @ t"
    "query_ok app_vs n scs q1" "extended_at scs ?H q q1" "same_at ?V q q1"
    "\<forall>m. satisfies m t \<longleftrightarrow> orientation_model app_vs opt scs q ?H m"
    using single_query_step_result [OF assms(1) fresh, of ?V ?H opt] by blast
  have "\<forall>i < n. constraints_added (q_cands q1 ?V) ! i = 0 \<and> zv_constraints (q_views q1 ?V ! i) = []"
    using fresh [of ?V] s1(5) by (simp add: same_at_def)
  from single_query_step_result [OF s1(3) this, of ?H opt] obtain q2 u where
    s2: "single_query_step app_vs opt q1 ?V = Some q2" "q_assertions q2 = q_assertions q1 @ u"
    "query_ok app_vs n scs q2" "extended_at scs ?V q1 q2" "same_at ?H q1 q2"
    "\<forall>m. satisfies m u \<longleftrightarrow> orientation_model app_vs opt scs q1 ?V m" by auto
  have "extended_at scs ?H q q2" using s1(4) s2(5) by (simp add: extended_at_def same_at_def)
  moreover have "extended_at scs ?V q q2" using s1(5) s2(4) by (simp add: extended_at_def same_at_def cong: if_cong)
  ultimately have "\<forall>oi. extended_at scs oi q q2" by (metis orientation.exhaust)
  moreover have "satisfies m (t @ u) \<longleftrightarrow> (\<forall>oi. orientation_model app_vs opt scs q oi m)" for m
    using s1(6) s2(6) orientation_model_same [OF s1(5)] by (simp, metis orientation.exhaust)
  ultimately show ?thesis
    using s1 s2 by (auto simp: AddConstraintsSingleQuery_def both_orientations_def)
qed

section \<open>Reading the constraints back\<close>

text \<open>The attribute stored for a selected candidate; margins of 10000 and more are dropped.\<close>

definition cut_margin :: "int \<Rightarrow> int" where
  "cut_margin k = (if k < 10000 then k else 0)"

definition read_margins :: "attribute \<Rightarrow> int \<times> int" where
  "read_margins b =
     (let p = cut_margin (value_primary b); q = cut_margin (value_secondary b) in
      if IsRelationalAnchor (attr_type b) then (if IsTypeStart (attr_type b) = Some True then (p, 0) else (0, q))
      else (p, q))"

definition stored_margins :: "attribute \<Rightarrow> int \<times> int" where
  "stored_margins b =
     (if \<not> IsRelationalAnchor (attr_type b) \<and> attr_view_size b = FIXED then AdjustMargins (read_margins b)
      else read_margins b)"

definition stored_attr :: "z3_model \<Rightarrow> orientation \<Rightarrow> attribute \<Rightarrow> attribute" where
  "stored_attr m oi a =
     (let ms = stored_margins (model_attr m oi a) in
      a\<lparr>value_primary := fst ms, value_secondary := snd ms, attr_prob := 0, attr_bias := 1 / 2\<rparr>)"

lemma stored_attr_fields [simp]:
  "attr_type (stored_attr m oi a) = attr_type a" "attr_view_size (stored_attr m oi a) = attr_view_size a"
  "attr_src (stored_attr m oi a) = attr_src a" "tgt_primary (stored_attr m oi a) = tgt_primary a"
  "tgt_secondary (stored_attr m oi a) = tgt_secondary a" "attr_bias (stored_attr m oi a) = 1 / 2"
  by (simp_all add: stored_attr_def Let_def)

lemma attr_targets_stored [simp]: "attr_targets (stored_attr m oi a) = attr_targets a"
  by (simp add: attr_targets_def cong: option.case_cong)

lemma stored_attr_record:
  "stored_attr m oi a =
     \<lparr>attr_type = attr_type a, attr_view_size = attr_view_size a,
      value_primary = fst (stored_margins (model_attr m oi a)), value_secondary = snd (stored_margins (model_attr m oi a)),
      attr_src = attr_src a, tgt_primary = tgt_primary a, tgt_secondary = tgt_secondary a, attr_prob = 0,
      attr_bias = 1 / 2\<rparr>"
  by (cases a) (simp add: stored_attr_def Let_def)

definition margins_positive :: "z3_model \<Rightarrow> orientation \<Rightarrow> nat \<Rightarrow> bool" where
  "margins_positive m oi i \<longleftrightarrow>
     0 \<le> int_interp m (name1 ''mstart_'' (unique_id_value (int i) oi)) \<and>
     0 \<le> int_interp m (name1 ''mend_'' (unique_id_value (int i) oi))"

definition margins_small :: "z3_model \<Rightarrow> orientation \<Rightarrow> nat \<Rightarrow> bool" where
  "margins_small m oi i \<longleftrightarrow>
     int_interp m (name1 ''mstart_'' (unique_id_value (int i) oi)) < 10000 \<and>
     int_interp m (name1 ''mend_'' (unique_id_value (int i) oi)) < 10000"

lemma margins_small_values:
  "attr_src a = i \<Longrightarrow> margins_small m oi i \<Longrightarrow>
     value_primary (model_attr m oi a) < 10000 \<and> value_secondary (model_attr m oi a) < 10000"
  by (simp add: margins_small_def model_attr_def Let_def)

lemma stored_attr_ok:
  assumes "attribute_ok n i oi a" "margins_positive m oi i"
  shows "attribute_ok n i oi (stored_attr m oi a)"
proof -
  have "attr_src a = i" using assms(1) by (simp add: attribute_ok_def)
  then have "0 \<le> value_primary (stored_attr m oi a) \<and> 0 \<le> value_secondary (stored_attr m oi a)"
    using assms(2) by (auto simp: stored_attr_def stored_margins_def read_margins_def cut_margin_def model_attr_def
        margins_positive_def AdjustMargins_def Let_def)
  with assms(1) show ?thesis by (simp add: attribute_ok_def cong: option.case_cong)
qed

text \<open>
  Storing does not change what a constraint says: a relational constraint uses one margin only, and
  with the bias one half a centered view depends on the difference of the margins.
\<close>

lemma stored_attr_placed:
  assumes "attr_bias (model_attr m oi a) = 1 / 2" "attr_type a \<noteq> LAST"
    and small: "value_primary (model_attr m oi a) < 10000" "value_secondary (model_attr m oi a) < 10000"
  shows "placed P (stored_attr m oi a) \<longleftrightarrow> placed P (model_attr m oi a)"
proof -
  have pixel: "pixel_holds P (stored_attr m oi a) \<longleftrightarrow> pixel_holds P (model_attr m oi a)"
  proof (cases "IsRelationalAnchor (attr_type a)")
    case True
    then show ?thesis
      by (cases "attr_type a") (simp_all add: pixel_holds_def attribute_holds_def stored_attr_def stored_margins_def
          read_margins_def cut_margin_def small Let_def)
  next
    case False
    obtain ts te where sp: "split_center (attr_type a) = Some (ts, te)"
      using False assms(2) by (cases "attr_type a") auto
    show ?thesis
    proof (cases "attr_view_size a = FIXED")
      case True
      obtain k where "value_primary (stored_attr m oi a) = value_primary (model_attr m oi a) - k"
          "value_secondary (stored_attr m oi a) = value_secondary (model_attr m oi a) - k"
        using False True small
          by (simp add: stored_attr_def stored_margins_def read_margins_def cut_margin_def AdjustMargins_def Let_def)
      then have eq: "A + value_primary (stored_attr m oi a) + (B - value_secondary (stored_attr m oi a)) =
          A + value_primary (model_attr m oi a) + (B - value_secondary (model_attr m oi a))" for A B
        by linarith
      show ?thesis
        unfolding pixel_holds_def attribute_holds_def Let_def stored_attr_fields model_attr_fields sp option.case prod.case
        by (cases "tgt_secondary a") (simp_all only: True simp_thms if_True option.case eq)
    next
      case False
      have "value_primary (stored_attr m oi a) = value_primary (model_attr m oi a)"
        "value_secondary (stored_attr m oi a) = value_secondary (model_attr m oi a)"
        using False \<open>\<not> IsRelationalAnchor (attr_type a)\<close> small
        by (simp_all add: stored_attr_def stored_margins_def read_margins_def cut_margin_def Let_def)
      then show ?thesis using sp False
        by (simp add: pixel_holds_def attribute_holds_def Let_def split: option.split)
    qed
  qed
  then show ?thesis
    using placed_half [of "stored_attr m oi a" P] placed_half [OF assms(1), of P] by simp
qed

lemma find_map: "find f (map g xs) = map_option g (find (\<lambda>x. f (g x)) xs)"
  by (induction xs) auto

lemma half_parsed: "ParseFloat ''0.5'' = Some (1 / 2)"
  by code_simp

lemma margin_value_result:
  "margin_value m t (IntConst s) = Some k \<Longrightarrow> k = (if t = LAST then 0 else cut_margin (int_interp m s))"
  by (auto simp: margin_value_def get_numeral_int64_def get_numeral_int_def cut_margin_def bind_Some_iff CHECK_Some
      split: if_splits)

lemma GetMargins_result:
  assumes "made_view oi d i z" "attribute_ok n i oi a" "GetMargins m z (attr_data oi a) = Some ms"
  shows "ms = read_margins (model_attr m oi a)"
proof -
  have src: "attr_src a = i" and t: "attr_type a \<noteq> LAST" using assms(2) by (auto simp: attribute_ok_def)
  have vars: "margin_start_v z = IntConst (name1 ''mstart_'' (unique_id_value (int i) oi))"
    "margin_end_v z = IntConst (name1 ''mend_'' (unique_id_value (int i) oi))"
    using assms(1) by (simp_all add: made_view_def)
  obtain ts te where types: "SplitAnchor (attr_type a) = Some (ts, te)"
    and "margin_value m ts (margin_start_v z) = Some (fst ms)" "margin_value m te (margin_end_v z) = Some (snd ms)"
    using assms(3) by (cases ms) (auto simp: GetMargins_def attr_data_def bind_Some_iff)
  then have "fst ms = (if ts = LAST then 0 else cut_margin (value_primary (model_attr m oi a)))"
    "snd ms = (if te = LAST then 0 else cut_margin (value_secondary (model_attr m oi a)))"
    unfolding vars using src by (auto dest!: margin_value_result simp: model_attr_def Let_def)
  with types t show ?thesis
    by (cases ms; cases "attr_type a") (auto simp: read_margins_def Let_def)
qed

lemma AssignModel_stores:
  assumes "made_view oi 0 i z" "attribute_ok n i oi a" "i < n" "n \<le> 1000" "length vs = n"
    and "selected_constraint m z = Some (attr_name oi a)" "AssignModel dec m oi None vs z = Some r"
  shows "\<exists>b. GetBias dec m z = Some b \<and> r = (vs[i := (vs ! i)\<lparr>view_attributes :=
      (view_attributes (vs ! i))(oi \<mapsto> (stored_attr m oi a)\<lparr>attr_bias := b\<rparr>)\<rparr>], Some (attr_data oi a))"
proof -
  note pos = made_view_pos [OF assms(1)] and data = attr_name_Some(2) [OF assms(2,3,4)]
  note range = ok_range [OF assms(2,3)]
  have src: "attr_src a = i" using assms(2) by (simp add: attribute_ok_def)
  have c: "IsCenterAnchor (attr_type a) \<longleftrightarrow> \<not> IsRelationalAnchor (attr_type a)"
    using range(5) by (cases "attr_type a") (simp_all add: IsCenterAnchor_def)
  obtain ms where ms: "GetMargins m z (attr_data oi a) = Some ms"
    using assms(7) unfolding AssignModel_def assms(6) by (auto simp: data bind_Some_iff)
  note read = GetMargins_result [OF assms(1,2) ms]
  show ?thesis using assms(2)
  proof (cases rule: ok_targets)
    case relational
    with c show ?thesis
      using assms(5,6,7) data pos src range ms read assms(3)
      by (auto simp: AssignModel_def attr_data_def Attribute_full_def stored_attr_record stored_margins_def Let_def
          bind_Some_iff CHECK_Some split: if_splits)
  next
    case (center j)
    with c show ?thesis
      using assms(5,6,7) data pos src range ms read assms(3)
      by (auto simp: AssignModel_def attr_data_def Attribute_full_def stored_attr_record stored_margins_def Let_def
          bind_Some_iff CHECK_Some split: if_splits)
  qed
qed

lemma stored_attr_bias_half: "(stored_attr m oi a)\<lparr>attr_bias := 1 / 2\<rparr> = stored_attr m oi a"
  by (simp add: stored_attr_record)

lemma GetBias_half:
  assumes "made_view oi d i z" "dec 4 (1 / 2) = ''0.5''" "real_interp m (name1 ''bias_'' (unique_id_value (int i) oi)) = 1 / 2"
  shows "GetBias dec m z = Some (1 / 2)"
proof -
  have half: "num_value m (GetBiasExpr z) = 1 / 2"
    using assms(3) made_view_pos [OF assms(1)] by (simp add: GetBiasExpr_def zv_uid_def)
  show ?thesis unfolding GetBias_def half assms(2) by (simp add: half_parsed)
qed

lemma AssignModel_result:
  assumes "made_view oi 0 i z" "attribute_ok n i oi a" "i < n" "n \<le> 1000" "length vs = n"
    and "selected_constraint m z = Some (attr_name oi a)"
    and "dec 4 (1 / 2) = ''0.5''" "real_interp m (name1 ''bias_'' (unique_id_value (int i) oi)) = 1 / 2"
    and "AssignModel dec m oi None vs z = Some r"
  shows "r = (vs[i := (vs ! i)\<lparr>view_attributes :=
      (view_attributes (vs ! i))(oi \<mapsto> stored_attr m oi a)\<rparr>], Some (attr_data oi a))"
proof -
  obtain b where b: "GetBias dec m z = Some b" and r: "r = (vs[i := (vs ! i)\<lparr>view_attributes :=
      (view_attributes (vs ! i))(oi \<mapsto> (stored_attr m oi a)\<lparr>attr_bias := b\<rparr>)\<rparr>], Some (attr_data oi a))"
    using AssignModel_stores [OF assms(1-6,9)] by blast
  have "b = 1 / 2" using b unfolding GetBias_half [where dec = dec, OF assms(1,7,8)] by (simp only: option.inject)
  then show ?thesis by (simp only: r stored_attr_bias_half)
qed

text \<open>The constraint that a model selects for a view.\<close>

definition selection :: "z3_model \<Rightarrow> orientation \<Rightarrow> (nat \<Rightarrow> attribute list) \<Rightarrow> nat \<Rightarrow> attribute" where
  "selection m oi offers i = the (find (\<lambda>a. bool_interp m (attr_name oi a)) (offers i))"

definition assumed :: "orientation \<Rightarrow> z3_view list \<Rightarrow> z3_model \<Rightarrow> bool" where
  "assumed oi zs m \<longleftrightarrow> (\<forall>i. 0 < i \<and> i < length zs \<longrightarrow> bool_interp m (satisfied_const oi i (satisfied_id (zs ! i))))"

lemma GetAssumptions_meaning:
  assumes "made_views oi d zs"
  shows "satisfies m (GetAssumptions zs) \<longleftrightarrow> assumed oi zs m"
proof -
  have h: "holds m (GetConstraintsSatisfied (zs ! i)) \<longleftrightarrow> bool_interp m (satisfied_const oi i (satisfied_id (zs ! i)))"
    "zv_pos (zs ! i) = int i" if "i < length zs" for i
    using assms that GetConstraintsSatisfied_made [of oi d i "zs ! i"] by (simp_all add: made_views_def made_view_def)
  have "satisfies m (GetAssumptions zs) \<longleftrightarrow> (\<forall>v \<in> set zs. zv_pos v \<noteq> 0 \<longrightarrow> holds m (GetConstraintsSatisfied v))"
    by (auto simp: GetAssumptions_def satisfies_def list_all_iff)
  also have "\<dots> \<longleftrightarrow> (\<forall>i < length zs. zv_pos (zs ! i) \<noteq> 0 \<longrightarrow> holds m (GetConstraintsSatisfied (zs ! i)))"
    by (simp add: all_set_conv_all_nth)
  also have "\<dots> \<longleftrightarrow> assumed oi zs m"
    using h by (auto simp: assumed_def)
  finally show ?thesis .
qed

lemma selection_in:
  assumes "reference_model opt oi zs offers m" "assumed oi zs m" "0 < i" "i < length zs"
  shows "selection m oi offers i \<in> set (offers i)" "bool_interp m (attr_name oi (selection m oi offers i))"
    "find (\<lambda>a. bool_interp m (attr_name oi a)) (offers i) = Some (selection m oi offers i)"
    "a \<in> set (offers i) \<Longrightarrow> bool_interp m (attr_name oi a) \<Longrightarrow> a = selection m oi offers i"
proof -
  have one: "exactly_one (map (\<lambda>a. bool_interp m (attr_name oi a)) (offers i))"
    using assms by (simp add: reference_model_def assumed_def)
  obtain b where b: "b \<in> set (offers i)" "bool_interp m (attr_name oi b)"
    "find (\<lambda>a. bool_interp m (attr_name oi a)) (offers i) = Some b"
    using exactly_one_map(1) [OF one] by blast
  then have "selection m oi offers i = b" by (simp add: selection_def)
  with b show "selection m oi offers i \<in> set (offers i)" "bool_interp m (attr_name oi (selection m oi offers i))"
    "find (\<lambda>a. bool_interp m (attr_name oi a)) (offers i) = Some (selection m oi offers i)" by simp_all
  show "a \<in> set (offers i) \<Longrightarrow> bool_interp m (attr_name oi a) \<Longrightarrow> a = selection m oi offers i"
    using exactly_one_map(2) [OF one] by (simp add: selection_def)
qed

definition with_constraints :: "orientation \<Rightarrow> (nat \<Rightarrow> attribute) \<Rightarrow> nat \<Rightarrow> view list \<Rightarrow> view list" where
  "with_constraints oi f k vs =
     map (\<lambda>i. if 0 < i \<and> i < k then (vs ! i)\<lparr>view_attributes := (view_attributes (vs ! i))(oi \<mapsto> f i)\<rparr> else vs ! i)
       [0..<length vs]"

lemma with_constraints_Suc:
  assumes "k < length vs" "0 < k"
  shows "(with_constraints oi f k vs)[k := (with_constraints oi f k vs ! k)\<lparr>view_attributes :=
      (view_attributes (with_constraints oi f k vs ! k))(oi \<mapsto> f k)\<rparr>] = with_constraints oi f (Suc k) vs"
  using assms by (intro nth_equalityI) (auto simp: with_constraints_def nth_list_update less_Suc_eq)

lemma with_constraints_facts:
  "length (with_constraints oi f k vs) = length vs"
  "i < length vs \<Longrightarrow> view_id (with_constraints oi f k vs ! i) = view_id (vs ! i)"
  "i < length vs \<Longrightarrow> view_pos (with_constraints oi f k vs ! i) = view_pos (vs ! i)"
  "i < length vs \<Longrightarrow> view_interval (with_constraints oi f k vs) oj i = view_interval vs oj i"
  "i < length vs \<Longrightarrow> view_attributes (with_constraints oi f k vs ! i) oj =
     (if oj = oi \<and> 0 < i \<and> i < k then Some (f i) else view_attributes (vs ! i) oj)"
  by (auto simp: with_constraints_def view_interval_def)

text \<open>The constraints that are stored when the model selects \<open>f i\<close> for view \<open>i\<close>.\<close>

lemma assign_models_stores:
  assumes made: "made_views oi 0 zs" and len: "length vs = length zs" "length zs \<le> 1000"
    and f: "\<And>i. 0 < i \<Longrightarrow> i < length zs \<Longrightarrow> attribute_ok (length zs) i oi (f i)"
      "\<And>i. 0 < i \<Longrightarrow> i < length zs \<Longrightarrow> selected_constraint m (zs ! i) = Some (attr_name oi (f i))"
    and some: "assign_models env m oi zs vs = Some vs'"
  shows "(\<forall>i. 0 < i \<and> i < length zs \<longrightarrow> GetBias (env_decimal env) m (zs ! i) \<noteq> None) \<and>
    vs' = with_constraints oi (\<lambda>i. (stored_attr m oi (f i))\<lparr>attr_bias := the (GetBias (env_decimal env) m (zs ! i))\<rparr>) (length zs) vs"
proof -
  let ?f = "\<lambda>vs z. if zv_pos z = 0 then Some vs else map_option fst (AssignModel (env_decimal env) m oi None vs z)"
  let ?g = "\<lambda>i. (stored_attr m oi (f i))\<lparr>attr_bias := the (GetBias (env_decimal env) m (zs ! i))\<rparr>"
  have made': "made_view oi 0 i (zs ! i)" if "i < length zs" for i using made that by (simp add: made_views_def)
  have "(\<forall>i. 0 < i \<and> i < k \<longrightarrow> GetBias (env_decimal env) m (zs ! i) \<noteq> None) \<and> ws = with_constraints oi ?g k vs"
    if "k \<le> length zs" "fold_opt ?f vs (take k zs) = Some ws" for k ws
    using that
  proof (induction k arbitrary: ws)
    case 0
    have "with_constraints oi ?g 0 vs = vs" by (rule nth_equalityI) (simp_all add: with_constraints_def)
    with 0 show ?case by simp
  next
    case (Suc k)
    then have k: "k < length zs" by simp
    have split: "take (Suc k) zs = take k zs @ [zs ! k]" using k by (rule take_Suc_conv_app_nth)
    obtain us where us: "fold_opt ?f vs (take k zs) = Some us" "?f us (zs ! k) = Some ws"
      using Suc.prems(2) unfolding split fold_opt_append by (auto simp: bind_Some_iff)
    have IH: "\<forall>i. 0 < i \<and> i < k \<longrightarrow> GetBias (env_decimal env) m (zs ! i) \<noteq> None" "us = with_constraints oi ?g k vs"
      using Suc.IH [OF _ us(1)] k by simp_all
    note pos = made_view_pos [OF made' [OF k]]
    show ?case
    proof (cases "k = 0")
      case True
      have "with_constraints oi ?g (Suc k) vs = with_constraints oi ?g k vs"
        using True by (simp add: with_constraints_def)
      then show ?thesis using IH us(2) pos True by simp
    next
      case False
      then have k0: "0 < k" by simp
      have lw: "length us = length zs" using len(1) IH(2) by (simp add: with_constraints_facts(1))
      obtain p where p: "AssignModel (env_decimal env) m oi None us (zs ! k) = Some p" "ws = fst p"
        using us(2) pos k0 by auto
      obtain b where b: "GetBias (env_decimal env) m (zs ! k) = Some b" "p = (us[k := (us ! k)\<lparr>view_attributes :=
          (view_attributes (us ! k))(oi \<mapsto> (stored_attr m oi (f k))\<lparr>attr_bias := b\<rparr>)\<rparr>], Some (attr_data oi (f k)))"
        using AssignModel_stores [OF made' [OF k] f(1) [OF k0 k] k len(2) lw f(2) [OF k0 k] p(1)] by blast
      have "ws = with_constraints oi ?g (Suc k) vs"
        using p(2) b IH(2) with_constraints_Suc [of k vs oi ?g] k k0 len(1) by simp
      moreover have "\<forall>i. 0 < i \<and> i < Suc k \<longrightarrow> GetBias (env_decimal env) m (zs ! i) \<noteq> None"
        using IH(1) b(1) by (auto simp: less_Suc_eq)
      ultimately show ?thesis by blast
    qed
  qed
  from this [of "length zs" vs'] some show ?thesis by (simp add: assign_models_def)
qed

lemma with_constraints_cong:
  "(\<And>i. 0 < i \<Longrightarrow> i < k \<Longrightarrow> f i = g i) \<Longrightarrow> with_constraints oi f k vs = with_constraints oi g k vs"
  by (auto simp: with_constraints_def)

lemma assign_models_result:
  assumes ref: "reference_model opt oi zs offers m" "assumed oi zs m"
    and zs': "views_extended zs zs' (\<lambda>i. if i = 0 then [] else map (attr_name oi) (offers i))"
    and made: "made_views oi 0 zs" and fresh: "\<forall>i < length zs. zv_constraints (zs ! i) = []"
    and len: "length vs = length zs" "length zs \<le> 1000"
    and offers: "\<And>i a. 0 < i \<Longrightarrow> i < length zs \<Longrightarrow> a \<in> set (offers i) \<Longrightarrow> attribute_ok (length zs) i oi a"
    and dec: "env_decimal env 4 (1 / 2) = ''0.5''" and some: "assign_models env m oi zs' vs = Some vs'"
  shows "vs' = with_constraints oi (\<lambda>i. stored_attr m oi (selection m oi offers i)) (length zs) vs"
proof -
  let ?sel = "selection m oi offers"
  have len': "length zs' = length zs" by (rule views_extended_length [OF zs'])
  have made': "made_views oi 0 zs'" by (rule views_extended_made [OF zs' made])
  have ok: "attribute_ok (length zs') i oi (?sel i)" if "0 < i" "i < length zs'" for i
    using offers [OF that(1) _ selection_in(1) [OF ref that(1)]] that(2) len' by simp
  have sel: "selected_constraint m (zs' ! i) = Some (attr_name oi (?sel i))" if i: "0 < i" "i < length zs'" for i
  proof -
    have "zv_constraints (zs' ! i) = map (attr_name oi) (offers i)" using zs' i len' fresh by (simp add: views_extended_def)
    then show ?thesis using selection_in(3) [OF ref i(1)] i(2) len' by (simp add: selected_constraint_def find_map)
  qed
  have lens: "length vs = length zs'" "length zs' \<le> 1000" using len len' by simp_all
  have half: "GetBias (env_decimal env) m (zs' ! i) = Some (1 / 2)" if "i < length zs" for i
  proof (rule GetBias_half [where oi = oi and d = 0 and i = i])
    show "made_view oi 0 i (zs' ! i)" using made' that len' by (simp add: made_views_def)
    show "real_interp m (name1 ''bias_'' (unique_id_value (int i) oi)) = 1 / 2"
      using ref(1) that by (simp add: reference_model_def)
  qed (rule dec)
  have "vs' = with_constraints oi (\<lambda>i. (stored_attr m oi (?sel i))\<lparr>attr_bias := the (GetBias (env_decimal env) m (zs' ! i))\<rparr>) (length zs) vs"
    using assign_models_stores [OF made' lens ok sel some] len' by simp
  also have "\<dots> = with_constraints oi (\<lambda>i. stored_attr m oi (?sel i)) (length zs) vs"
    by (rule with_constraints_cong) (simp add: half stored_attr_bias_half)
  finally show ?thesis .
qed

section \<open>Reading the devices back\<close>

lemma AssignPosition_interval:
  "made_view oi d i z \<Longrightarrow> AssignPosition m z = Some z' \<Longrightarrow> (zv_start z', zv_end z') = model_positions m oi d i"
  by (auto simp: AssignPosition_def get_numeral_int_def made_view_def model_positions_def bind_Some_iff CHECK_Some
      split: if_splits)

lemma set_interval_facts [simp]:
  "view_id (set_interval oi v s e) = view_id v" "view_pos (set_interval oi v s e) = view_pos v"
  "view_attributes (set_interval oi v s e) = view_attributes v" "is_content_frame (set_interval oi v s e) = is_content_frame v"
  by (simp_all add: set_interval_def is_content_frame_def)

definition interval_of :: "orientation \<Rightarrow> view \<Rightarrow> int \<times> int" where
  "interval_of oi v = (if oi = HORIZONTAL then (xleft v, xright v) else (ytop v, ybottom v))"

lemma view_interval_of: "view_interval vs oi i = interval_of oi (vs ! i)"
  by (simp add: view_interval_def interval_of_def)

lemma set_interval_of: "interval_of oj (set_interval oi v s e) = (if oj = oi then (s, e) else interval_of oj v)"
  by (cases oi; cases oj) (simp_all add: interval_of_def set_interval_def)

lemma assign_device_result:
  assumes "assign_device skip m oi a zd = Some a'" "made_views oi d zd"
    and "\<And>i. i < length zd \<Longrightarrow> i = 0 \<or> skip (app_views a ! i) \<Longrightarrow> view_interval (app_views a) oi i = model_positions m oi d i"
  shows "length (app_views a') = length (app_views a) \<and> length (app_views a) = length zd \<and>
    (\<forall>i < length zd. view_interval (app_views a') oi i = model_positions m oi d i \<and>
       (\<forall>oj. oj \<noteq> oi \<longrightarrow> view_interval (app_views a') oj i = view_interval (app_views a) oj i) \<and>
       view_id (app_views a' ! i) = view_id (app_views a ! i))"
proof -
  let ?f = "\<lambda>vs i. do { v \<leftarrow> vec_at vs i;
                       if skip v then Some vs
                       else do { z \<leftarrow> vec_at zd i; z' \<leftarrow> AssignPosition m z;
                                 Some (vs[i := set_interval oi v (zv_start z') (zv_end z')]) } }"
  obtain vs where vs: "length (app_views a) = length zd" "fold_opt ?f (app_views a) [1..<length zd] = Some vs"
    "a' = a\<lparr>app_views := vs\<rparr>"
    using assms(1) by (auto simp del: One_nat_def simp: assign_device_def bind_Some_iff CHECK_Some split: if_splits)
  have "length ws = length zd \<and> (\<forall>i < length zd.
       (0 < i \<and> i < k \<longrightarrow> interval_of oi (ws ! i) = model_positions m oi d i) \<and>
       (i = 0 \<or> k \<le> i \<longrightarrow> ws ! i = app_views a ! i) \<and>
       (\<forall>oj. oj \<noteq> oi \<longrightarrow> interval_of oj (ws ! i) = interval_of oj (app_views a ! i)) \<and>
       view_id (ws ! i) = view_id (app_views a ! i))"
    if "fold_opt ?f (app_views a) [1..<k] = Some ws" "k \<le> length zd" for k ws
    using that
  proof (induction k arbitrary: ws)
    case 0
    then show ?case using vs(1) by simp
  next
    case (Suc k)
    show ?case
    proof (cases "k = 0")
      case True
      with Suc.prems vs(1) show ?thesis by simp
    next
      case False
      then have up: "[1..<Suc k] = [1..<k] @ [k]" by simp
      from Suc.prems(1) obtain us where us: "fold_opt ?f (app_views a) [1..<k] = Some us" "?f us k = Some ws"
        unfolding up fold_opt_append by (auto simp: bind_Some_iff)
      note IH = Suc.IH [OF us(1)]
      have k: "k < length zd" using Suc.prems(2) by simp
      have usk: "us ! k = app_views a ! k" "length us = length zd" using IH k by simp_all
      show ?thesis
      proof (cases "skip (us ! k)")
        case True
        then have "ws = us" using us(2) usk k by simp
        moreover have "interval_of oi (us ! k) = model_positions m oi d k"
          using assms(3) [OF k] True usk by (simp add: view_interval_of)
        ultimately show ?thesis using IH k False by (auto simp: less_Suc_eq)
      next
        case False
        then obtain z' where z': "AssignPosition m (zd ! k) = Some z'" "ws = us[k := set_interval oi (us ! k) (zv_start z') (zv_end z')]"
          using us(2) usk k by (auto simp: bind_Some_iff vec_at_Some)
        have "(zv_start z', zv_end z') = model_positions m oi d k"
          using AssignPosition_interval [OF _ z'(1)] assms(2) k by (simp add: made_views_def)
        then have at_k: "interval_of oj (ws ! k) = (if oj = oi then model_positions m oi d k else interval_of oj (us ! k))" for oj
          using z'(2) usk(2) k by (simp add: set_interval_of)
        have other: "ws ! i = us ! i" if "i \<noteq> k" for i using z'(2) that by simp
        have "view_id (ws ! k) = view_id (us ! k)" "length ws = length zd" using z'(2) usk(2) k by simp_all
        then show ?thesis using IH k at_k other \<open>k \<noteq> 0\<close>
          by (auto simp: less_Suc_eq) (metis+)?
      qed
    qed
  qed
  from this [OF vs(2)] assms(3) vs(1,3) show ?thesis
    by (auto simp: view_interval_of)
qed

end
