(* ===== verification/Query_Solution.thy ===== *)
theory Query_Solution
  imports Single_Query
begin

text \<open>
  What \<^verbatim>\<open>SynthesizeMultiDeviceProbSingleQuery\<close> gives: the query of an app and its devices is
  well-formed, raising the ranks keeps it so, hence the search for satisfiable candidates returns
  for every answer of the solver; a successful final query is a solution on the reference screen
  and on every device.
\<close>

section \<open>The composition\<close>

definition views_ok :: "nat \<Rightarrow> view list \<Rightarrow> bool" where
  "views_ok n vs \<longleftrightarrow> length vs = n \<and> (\<forall>i < n. view_pos (vs ! i) = int i)"

definition devices_ok :: "nat \<Rightarrow> app list \<Rightarrow> bool" where
  "devices_ok n apps \<longleftrightarrow> (\<forall>k < length apps. views_ok n (app_views (apps ! k)))"

definition query_intervals :: "app \<Rightarrow> app list \<Rightarrow> query \<Rightarrow> bool" where
  "query_intervals app apps q \<longleftrightarrow>
     (\<forall>oi. \<forall>i < length (app_views app).
        (zv_start (q_views q oi ! i), zv_end (q_views q oi ! i)) = view_interval (app_views app) oi i) \<and>
     (\<forall>oi. length (q_devices q oi) = length apps) \<and>
     (\<forall>oi. \<forall>k < length apps. \<forall>i < length (app_views (apps ! k)).
        (zv_start (q_devices q oi ! k ! i), zv_end (q_devices q oi ! k ! i)) = view_interval (app_views (apps ! k)) oi i)"

lemma both_Some: "both f = Some g \<longleftrightarrow> (\<forall>oi. f oi = Some (g oi))"
proof
  assume "both f = Some g"
  then obtain h v where "f HORIZONTAL = Some h" "f VERTICAL = Some v" "g = (\<lambda>oi. if oi = HORIZONTAL then h else v)"
    by (auto simp: both_def bind_Some_iff)
  then show "\<forall>oi. f oi = Some (g oi)" by (metis orientation.exhaust orientation.distinct(1))
next
  assume "\<forall>oi. f oi = Some (g oi)"
  then show "both f = Some g"
    by (auto simp: both_def fun_eq_iff) (metis orientation.exhaust)
qed

lemma both_total:
  assumes "\<forall>oi. \<exists>y. f oi = Some y"
  shows "\<exists>g. both f = Some g"
proof -
  obtain g where "\<forall>oi. f oi = Some (g oi)" using assms by metis
  then show ?thesis using both_Some by blast
qed

lemma convert_devices_result:
  assumes "convert_devices apps oi = Some zds" "devices_ok n apps"
  shows "length zds = length apps"
    "k < length apps \<Longrightarrow> made_views oi (int k + 1) (zds ! k) \<and> length (zds ! k) = n"
    "k < length apps \<Longrightarrow> i < n \<Longrightarrow> (zv_start (zds ! k ! i), zv_end (zds ! k ! i)) = view_interval (app_views (apps ! k)) oi i"
proof -
  show len: "length zds = length apps"
    using map_opt_length [OF assms(1) [unfolded convert_devices_def]] by simp
  have conv: "ConvertViews (app_views (apps ! k)) oi (int k + 1) = Some (zds ! k)" if "k < length apps" for k
    using map_opt_nth [OF assms(1) [unfolded convert_devices_def], of k] that by simp
  have ok: "\<forall>i < length (app_views (apps ! k)). view_pos (app_views (apps ! k) ! i) = int i"
    "length (app_views (apps ! k)) = n" if "k < length apps" for k
    using assms(2) that by (simp_all add: devices_ok_def views_ok_def)
  show "k < length apps \<Longrightarrow> made_views oi (int k + 1) (zds ! k) \<and> length (zds ! k) = n"
    using ConvertViews_result(1,2) [OF conv ok(1)] ok(2) by simp
  show "k < length apps \<Longrightarrow> i < n \<Longrightarrow> (zv_start (zds ! k ! i), zv_end (zds ! k ! i)) = view_interval (app_views (apps ! k)) oi i"
    using ConvertViews_result(3) [OF conv ok(1)] ok(2) by simp
qed

lemma convert_query_result:
  assumes "convert_query app apps cands = Some q" "views_ok n (app_views app)" "n \<le> 1000" "devices_ok n apps"
    and "\<forall>oi. cand_ok (cands oi) (scs oi) n oi"
  shows "query_ok (app_views app) n scs q" "q_assertions q = []" "q_cands q = cands" "query_intervals app apps q"
    "i < n \<Longrightarrow> zv_constraints (q_views q oi ! i) = []" "i < n \<Longrightarrow> satisfied_id (q_views q oi ! i) = 0"
proof -
  from assms(1) obtain zds zs where q: "\<forall>oi. convert_devices apps oi = Some (zds oi)"
    "\<forall>oi. ConvertViews (app_views app) oi 0 = Some (zs oi)"
    "q = \<lparr>q_cands = cands, q_views = zs, q_devices = zds, q_assertions = []\<rparr>"
    by (auto simp: convert_query_def bind_Some_iff both_Some)
  have ok: "length (app_views app) = n" "\<forall>i < length (app_views app). view_pos (app_views app ! i) = int i"
    using assms(2) by (simp_all add: views_ok_def)
  note views = ConvertViews_result [OF q(2) [rule_format] ok(2), unfolded ok(1)]
  note devs = convert_devices_result [OF q(1) [rule_format] assms(4)]
  show "query_ok (app_views app) n scs q"
    using assms(3,5) ok(1) views(1,2) devs(1,2) by (simp add: query_ok_def q(3))
  show "q_assertions q = []" "q_cands q = cands" by (simp_all add: q(3))
  have "length (app_views (apps ! k)) = n" if "k < length apps" for k
    using assms(4) that by (simp add: devices_ok_def views_ok_def)
  then show "query_intervals app apps q"
    using views(3) devs(1,3) ok(1) by (simp add: query_intervals_def q(3))
  show "i < n \<Longrightarrow> zv_constraints (q_views q oi ! i) = []" "i < n \<Longrightarrow> satisfied_id (q_views q oi ! i) = 0"
    using views(4) by (simp_all add: q(3))
qed

lemma convert_query_total:
  assumes "views_ok n (app_views app)" "n \<le> 1000" "devices_ok n apps"
  shows "\<exists>q. convert_query app apps cands = Some q"
proof -
  have "\<exists>zs. ConvertViews (app_views app) oi 0 = Some zs" for oi
    using assms(1,2) by (intro ConvertViews_total) (simp_all add: views_ok_def)
  moreover have "\<exists>zds. convert_devices apps oi = Some zds" for oi
    unfolding convert_devices_def map_opt_Some_iff
    using assms(2,3) by (auto simp: in_set_zip devices_ok_def views_ok_def intro!: ConvertViews_total)
  ultimately obtain zs zds where "both (\<lambda>oi. ConvertViews (app_views app) oi 0) = Some zs" "both (convert_devices apps) = Some zds"
    using both_total [of "\<lambda>oi. ConvertViews (app_views app) oi 0"] both_total [of "convert_devices apps"] by blast
  then show ?thesis by (simp add: convert_query_def)
qed

lemma AddBlockingConstraints_Some:
  "AddBlockingConstraints b q = Some q' \<Longrightarrow> \<exists>t. q' = q\<lparr>q_assertions := q_assertions q @ t\<rparr>"
  by (auto simp: AddBlockingConstraints_def bind_Some_iff split: option.splits intro: exI [of _ "[]"])

text \<open>Raising the ranks keeps the query well-formed.\<close>

lemma raise_view_result:
  assumes "cand_ok c sc n oi" "made_views oi d zs" "length zs = n" "i < n" "0 \<le> k"
  shows "\<exists>c' zs'. raise_view k (c, zs) i = Some (c', zs') \<and> cand_ok c' sc n oi \<and> made_views oi d zs' \<and> length zs' = n"
proof -
  have made: "made_view oi d i (zs ! i)" using assms by (simp add: made_views_def)
  have "made_view oi d i (IncSatisfiedId (zs ! i))"
    using made by (simp add: made_view_def IncSatisfiedId_def)
  then have "made_views oi d (zs[i := IncSatisfiedId (zs ! i)])"
    using assms(2) unfolding made_views_def by (metis length_list_update nth_list_update_eq nth_list_update_neq)
  moreover have "zv_pos (zs ! i) = int i" using made by (simp add: made_view_def)
  note IncreaseRank_view_result [OF assms(1,4) this assms(5)]
  ultimately show ?thesis using assms(3,4) by (simp add: raise_view_def)
qed

lemma raise_ranks_result:
  assumes "cand_ok c sc n oi" "made_views oi d zs" "length zs = n"
  shows "\<exists>c' zs'. raise_ranks k core c zs = Some (c', zs') \<and> cand_ok c' sc n oi \<and> made_views oi d zs' \<and> length zs' = n"
proof -
  have step: "\<exists>cz'. fold_opt (raise_view k) (c, zs) ks = Some cz' \<and>
      cand_ok (fst cz') sc n oi \<and> made_views oi d (snd cz') \<and> length (snd cz') = n"
    if "set ks \<subseteq> {..<n}" "0 \<le> k" for k ks
  proof (rule fold_opt_total)
    show "cand_ok (fst (c, zs)) sc n oi \<and> made_views oi d (snd (c, zs)) \<and> length (snd (c, zs)) = n"
      using assms by simp
    fix cz i assume cz: "cand_ok (fst cz) sc n oi \<and> made_views oi d (snd cz) \<and> length (snd cz) = n" and "i \<in> set ks"
    then have "i < n" using that(1) by auto
    then show "\<exists>cz'. raise_view k cz i = Some cz' \<and> cand_ok (fst cz') sc n oi \<and> made_views oi d (snd cz') \<and> length (snd cz') = n"
      using raise_view_result [of "fst cz" sc n oi d "snd cz" i k] cz that(2) by auto
  qed
  show ?thesis
    using step [of "[0..<length zs]" 5] step [of "GetUnsatViews core zs" 10] assms(3)
    by (auto simp: raise_ranks_def GetUnsatViews_def subset_iff)
qed


definition query_named :: "nat \<Rightarrow> query \<Rightarrow> bool" where
  "query_named n q \<longleftrightarrow> (\<forall>oi i. 0 < i \<and> i < n \<longrightarrow> zv_constraints (q_views q oi ! i) \<noteq> [])"

lemma raise_view_names:
  assumes "raise_view k cz i = Some cz'"
  shows "length (snd cz') = length (snd cz) \<and> (\<forall>j < length (snd cz). zv_constraints (snd cz' ! j) = zv_constraints (snd cz ! j))"
  using assms by (auto simp: raise_view_def bind_Some_iff vec_at_Some nth_list_update IncSatisfiedId_def)

lemma raise_ranks_names:
  assumes "raise_ranks k core c zs = Some (c', zs')"
  shows "\<forall>j < length zs. zv_constraints (zs' ! j) = zv_constraints (zs ! j)"
proof -
  have "length (snd cz') = length zs \<and> (\<forall>j < length zs. zv_constraints (snd cz' ! j) = zv_constraints (zs ! j))"
    if "fold_opt (raise_view k) (c, zs) ks = Some cz'" for k ks cz'
    by (rule fold_opt_inv [where P = "\<lambda>cz. length (snd cz) = length zs \<and>
          (\<forall>j < length zs. zv_constraints (snd cz ! j) = zv_constraints (zs ! j))", OF that])
      (use raise_view_names in \<open>fastforce+\<close>)
  from this [of _ _ "(c', zs')"] assms show ?thesis by (simp add: raise_ranks_def split: if_splits)
qed

lemma query_ok_put:
  assumes "query_ok app_vs n scs q" "cand_ok c (scs oi) n oi" "made_views oi 0 zs" "length zs = n"
    and "\<forall>k < length zds. made_views oi (int k + 1) (zds ! k) \<and> length (zds ! k) = n"
  shows "query_ok app_vs n scs (q\<lparr>q_cands := (q_cands q)(oi := c), q_views := (q_views q)(oi := zs),
      q_devices := (q_devices q)(oi := zds), q_assertions := s\<rparr>)"
  using assms by (simp add: query_ok_def)

lemma extend_constraints_result:
  assumes "cand_ok c sc n oi" "made_views oi 0 zs" "length zs = n" "n \<le> 1000" "n \<le> length app_vs"
    and "\<forall>k < length zds. made_views oi (D k) (zds ! k) \<and> length (zds ! k) = n"
    and named: "\<And>i. 0 < i \<Longrightarrow> i < n \<Longrightarrow> zv_constraints (zs ! i) \<noteq> []"
  shows "\<exists>c' zs' zds' s'. extend_constraints app_vs oi (c, zs) zds s = Some (c', zs', zds', s') \<and> cand_ok c' sc n oi \<and>
    made_views oi 0 zs' \<and> length zs' = n \<and> length zds' = length zds \<and>
    (\<forall>k < length zds. made_views oi (D k) (zds' ! k) \<and> length (zds' ! k) = n) \<and>
    (\<forall>i. 0 < i \<and> i < n \<longrightarrow> zv_constraints (zs' ! i) \<noteq> [])"
proof -
  obtain c1 zs1 t where syn: "AddSynAttributes False c (zs, s) = Some (c1, zs1, s @ t)" "same_candidates c c1"
    "views_extended zs zs1 (\<lambda>i. if i = 0 then [] else map (attr_name oi) (offered c sc i))"
    using syn_encoder.each_result [OF assms(1-4), of False s] by (auto simp: AddSynAttributes_def)
  note made = views_extended_made [OF syn(3) assms(2)]
  have len: "length zs1 = n" using views_extended_length [OF syn(3)] assms(3) by simp
  have names: "zv_constraints (zs1 ! i) \<noteq> []" if "0 < i" "i < n" for i
    using syn(3) named that assms(3) by (simp add: views_extended_def)
  note ok1 = same_candidates_ok(1) [OF syn(2) assms(1)]
  have "\<exists>c' zds' u. each_device (\<lambda>c zd s. AddGenAttributes app_vs oi c (zd, s)) c1 zds (s @ t) =
        Some (c', zds', (s @ t) @ u) \<and> same_candidates c1 c' \<and>
      length zds' = length zds \<and> (\<forall>k < length zds. \<exists>g. views_extended (zds ! k) (zds' ! k) g) \<and>
      (\<forall>m. satisfies m u \<longleftrightarrow> (\<forall>k < length zds. \<forall>i a. 0 < i \<and> i < n \<and>
          a \<in> set (offered c1 sc i) \<longrightarrow> gen_clause app_vs oi (D k) m a))"
  proof (rule each_device_result [where V = "\<lambda>zd. zd"])
    fix c2 k s assume c2: "same_candidates c1 c2" and k: "k < length zds"
    have off: "offered c2 sc = offered c1 sc" using same_candidates_ok(2) [OF c2] by auto
    show "\<exists>c' zd' t. AddGenAttributes app_vs oi c2 (zds ! k, s) = Some (c', zd', s @ t) \<and> same_candidates c2 c' \<and>
        (\<exists>g. views_extended (zds ! k) zd' g) \<and> (\<forall>m. satisfies m t \<longleftrightarrow> (\<forall>i a. 0 < i \<and> i < n \<and>
          a \<in> set (offered c1 sc i) \<longrightarrow> gen_clause app_vs oi (D k) m a))"
      using gen_encoder.each_result [OF same_candidates_ok(1) [OF c2 ok1], of "D k" "zds ! k" app_vs s]
        assms(4-6) k unfolding off AddGenAttributes_def by auto
  qed
  then obtain c' zds' u where gen: "each_device (\<lambda>c zd s. AddGenAttributes app_vs oi c (zd, s)) c1 zds (s @ t) =
      Some (c', zds', (s @ t) @ u)" "same_candidates c1 c'"
      "length zds' = length zds" "\<forall>k < length zds. \<exists>g. views_extended (zds ! k) (zds' ! k) g" by blast
  obtain w where w: "FinishedAddingConstraints ((s @ t) @ u) zs1 = Some (((s @ t) @ u) @ w)"
    using FinishedAddingConstraints_result [OF made, of "(s @ t) @ u"] names len by blast
  have devs: "\<forall>k < length zds. made_views oi (D k) (zds' ! k) \<and> length (zds' ! k) = n"
    using gen(4) assms(6) views_extended_made views_extended_length by metis
  have "extend_constraints app_vs oi (c, zs) zds s = Some (FinishAdding c', zs1, zds', ((s @ t) @ u) @ w)"
    using syn(1) gen(1) w by (simp add: extend_constraints_def)
  moreover have "cand_ok (FinishAdding c') sc n oi"
    by (rule cand_ok_updates(2) [OF same_candidates_ok(1) [OF gen(2) ok1]])
  ultimately show ?thesis using made len gen(3) devs names by blast
qed

lemma more_constraints_step_result:
  assumes "query_ok app_vs n scs q" "query_named n q"
  shows "\<exists>q'. more_constraints_step app_vs num_tries core q oi = Some q' \<and> query_ok app_vs n scs q' \<and> query_named n q'"
proof -
  have ok: "cand_ok (q_cands q oi) (scs oi) n oi" "made_views oi 0 (q_views q oi)" "length (q_views q oi) = n"
    "n \<le> 1000" "n \<le> length app_vs"
    "\<forall>k < length (q_devices q oi). made_views oi (int k + 1) (q_devices q oi ! k) \<and> length (q_devices q oi ! k) = n"
    using assms(1) by (simp_all add: query_ok_def)
  obtain c zs where raised: "raise_ranks num_tries core (q_cands q oi) (q_views q oi) = Some (c, zs)"
    "cand_ok c (scs oi) n oi" "made_views oi 0 zs" "length zs = n"
    using raise_ranks_result [OF ok(1-3)] by blast
  have named: "zv_constraints (zs ! i) \<noteq> []" if "0 < i" "i < n" for i
    using raise_ranks_names [OF raised(1)] assms(2) that ok(3) by (simp add: query_named_def)
  obtain c' zs' zds' s' where r: "extend_constraints app_vs oi (c, zs) (q_devices q oi) (q_assertions q) = Some (c', zs', zds', s')"
    "cand_ok c' (scs oi) n oi" "made_views oi 0 zs'" "length zs' = n" "length zds' = length (q_devices q oi)"
    "\<forall>k < length (q_devices q oi). made_views oi (int k + 1) (zds' ! k) \<and> length (zds' ! k) = n"
    "\<forall>i. 0 < i \<and> i < n \<longrightarrow> zv_constraints (zs' ! i) \<noteq> []"
    using extend_constraints_result [OF raised(2-4) ok(4-6) named] by blast
  let ?q = "q\<lparr>q_cands := (q_cands q)(oi := c'), q_views := (q_views q)(oi := zs'),
      q_devices := (q_devices q)(oi := zds'), q_assertions := s'\<rparr>"
  have "more_constraints_step app_vs num_tries core q oi = Some ?q"
    using raised(1) r(1) by (simp add: more_constraints_step_def)
  moreover have "query_ok app_vs n scs ?q"
    by (rule query_ok_put [OF assms(1) r(2-4)]) (use r(5,6) in simp)
  moreover have "query_named n ?q" using assms(2) r(7) by (simp add: query_named_def)
  ultimately show ?thesis by blast
qed

text \<open>The search for candidates returns, whatever the solver answers.\<close>

lemma sat_loop_result:
  assumes "query_ok app_vs n scs q" "query_named n q"
  shows "\<exists>st q'. sat_loop env app_vs k q = Some (st, q') \<and> query_ok app_vs n scs q'"
  using assms
proof (induction k arbitrary: q)
  case 0
  then show ?case by (cases "env_check env (q_assertions q) (query_assumptions q)") auto
next
  case (Suc k)
  have "\<exists>q'. fold_opt (more_constraints_step app_vs (100 - k) core) q both_orientations = Some q' \<and>
      query_ok app_vs n scs q' \<and> query_named n q'" for core
    by (rule fold_opt_total) (use Suc.prems more_constraints_step_result in \<open>blast+\<close>)
  then obtain q' where q': "fold_opt (more_constraints_step app_vs (100 - k)
      (env_core env (q_assertions q) (query_assumptions q))) q both_orientations = Some q'"
    "query_ok app_vs n scs q'" "query_named n q'" by blast
  show ?case
  proof (cases "env_check env (q_assertions q) (query_assumptions q)")
    case Unsat
    then show ?thesis using Suc.IH [OF q'(2,3)] q'(1) Suc.prems by simp
  qed (use Suc.prems in auto)
qed

section \<open>What a successful query gives\<close>

text \<open>
  A solution: in every orientation each view but the content frame has a constraint of its own, the
  references are acyclic, the reference screen is as before, known positions of the devices are
  kept, and every constraint holds on the reference screen and on all devices, where views of fixed
  size keep it.

  The code stores margins of 10000 and more as 0. A constraint that the solver gave such margins is
  then the cut version of one that holds everywhere (\<open>cut_version\<close>). This needs two places of the
  reference screen that are 10000 apart, or a view of fixed size that is centered between different
  anchors (\<open>free_center\<close>): only there the query leaves the margins unbounded.
\<close>

definition reference_edges :: "view list \<Rightarrow> orientation \<Rightarrow> (nat \<times> nat) set" where
  "reference_edges vs oi =
     {(i, j). 0 < i \<and> i < length vs \<and> (\<exists>a. view_attributes (vs ! i) oi = Some a \<and> j \<in> set (attr_targets a))}"

definition satisfied_on :: "view list \<Rightarrow> nat \<Rightarrow> (nat \<Rightarrow> nat \<Rightarrow> int \<times> int) \<Rightarrow> orientation \<Rightarrow> attribute \<Rightarrow> bool" where
  "satisfied_on vs K Q oi a \<longleftrightarrow> pixel_holds (view_interval vs oi) a \<and> (\<forall>k < K. pixel_holds (Q k) a)"

definition far_apart :: "view list \<Rightarrow> orientation \<Rightarrow> bool" where
  "far_apart vs oi \<longleftrightarrow>
     (\<exists>i < length vs. \<exists>j < length vs.
        10000 \<le> max (fst (view_interval vs oi i)) (snd (view_interval vs oi i)) -
          min (fst (view_interval vs oi j)) (snd (view_interval vs oi j)))"

definition free_center :: "attribute \<Rightarrow> bool" where
  "free_center a \<longleftrightarrow> attr_view_size a = FIXED \<and> \<not> IsRelationalAnchor (attr_type a) \<and>
     \<not> (attr_type a \<in> {L2LxR2R, T2TxB2B} \<and> tgt_primary a = 0 \<and> tgt_secondary a = Some 0) \<and>
     \<not> (attr_type a \<in> {L2LxR2L, L2RxR2R, T2TxB2T, T2BxB2B} \<and> tgt_secondary a = Some (tgt_primary a))"

definition cut_version :: "view list \<Rightarrow> nat \<Rightarrow> (nat \<Rightarrow> nat \<Rightarrow> int \<times> int) \<Rightarrow> orientation \<Rightarrow> attribute \<Rightarrow> bool" where
  "cut_version vs K Q oi a \<longleftrightarrow> (far_apart vs oi \<or> free_center a) \<and>
     (\<exists>p q. 0 \<le> p \<and> 0 \<le> q \<and> 10000 \<le> max p q \<and>
        (value_primary a, value_secondary a) = stored_margins (a\<lparr>value_primary := p, value_secondary := q\<rparr>) \<and>
        satisfied_on vs K Q oi (a\<lparr>value_primary := p, value_secondary := q\<rparr>))"

definition holds_on :: "view list \<Rightarrow> nat \<Rightarrow> (nat \<Rightarrow> nat \<Rightarrow> int \<times> int) \<Rightarrow> orientation \<Rightarrow> attribute \<Rightarrow> bool" where
  "holds_on vs K Q oi a \<longleftrightarrow>
     (satisfied_on vs K Q oi a \<or> cut_version vs K Q oi a) \<and> (\<forall>k < K. size_kept vs oi (Q k) a)"

definition solution :: "app \<Rightarrow> app list \<Rightarrow> app \<Rightarrow> app list \<Rightarrow> orientation \<Rightarrow> bool" where
  "solution app apps app' apps' oi \<longleftrightarrow>
     acyclic (reference_edges (app_views app') oi) \<and>
     (\<forall>i. 0 < i \<and> i < length (app_views app) \<longrightarrow>
        (\<exists>a. view_attributes (app_views app' ! i) oi = Some a \<and> attribute_ok (length (app_views app)) i oi a \<and>
           holds_on (app_views app) (length apps) (\<lambda>k. view_interval (app_views (apps' ! k)) oi) oi a)) \<and>
     length (app_views app') = length (app_views app) \<and>
     (\<forall>i < length (app_views app). view_interval (app_views app') oi i = view_interval (app_views app) oi i) \<and>
     length apps' = length apps \<and>
     (\<forall>k < length apps. \<forall>i < length (app_views (apps ! k)). i = 0 \<or> HasFixedPosition (app_views (apps ! k) ! i) \<longrightarrow>
        view_interval (app_views (apps' ! k)) oi i = view_interval (app_views (apps ! k)) oi i)"

definition sound_env :: "smt_env \<Rightarrow> bool" where
  "sound_env env \<longleftrightarrow>
     (\<forall>s cost m. env_optimize env s cost = Sat m \<longrightarrow> satisfies m s) \<and> env_decimal env 4 (1 / 2) = ''0.5''"

lemma pixel_holds_cong:
  assumes "attribute_ok n i oi a" "i < n" "\<And>j. j < n \<Longrightarrow> P j = Q j" "attr_bias a = 1 / 2"
  shows "pixel_holds P a = pixel_holds Q a"
  using placed_cong(1) [OF assms(1-3), where b = a] placed_half [OF assms(4)] by simp

lemma size_kept_cong:
  "P (attr_src a) = Q (attr_src b) \<Longrightarrow> attr_src a = attr_src b \<Longrightarrow> attr_view_size a = attr_view_size b \<Longrightarrow>
     size_kept vs oi P a = size_kept vs oi Q b"
  by (simp add: size_kept_def)

lemma pixel_holds_fields:
  assumes "attr_type a = attr_type b" "attr_view_size a = attr_view_size b" "attr_src a = attr_src b"
    "tgt_primary a = tgt_primary b" "tgt_secondary a = tgt_secondary b"
    "value_primary a = value_primary b" "value_secondary a = value_secondary b"
  shows "pixel_holds P a = pixel_holds P b"
  using assms by (simp add: pixel_holds_def attribute_holds_def Let_def cong: option.case_cong)

lemma pixel_holds_same:
  assumes "attribute_ok n i oi a" "i < n" "\<And>j. j < n \<Longrightarrow> P j = Q j"
  shows "pixel_holds P a = pixel_holds Q a"
proof -
  let ?b = "a\<lparr>attr_bias := 1 / 2\<rparr>"
  have "pixel_holds R ?b = pixel_holds R a" for R by (rule pixel_holds_fields) simp_all
  moreover have "attribute_ok n i oi ?b" using assms(1) by (simp add: attribute_ok_def cong: option.case_cong)
  from pixel_holds_cong [OF this assms(2,3)] have "pixel_holds P ?b = pixel_holds Q ?b" by simp
  ultimately show ?thesis by simp
qed

lemma attribute_ok_margins:
  "attribute_ok n i oi a \<Longrightarrow> 0 \<le> p \<Longrightarrow> 0 \<le> q \<Longrightarrow> attribute_ok n i oi (a\<lparr>value_primary := p, value_secondary := q\<rparr>)"
  by (simp add: attribute_ok_def cong: option.case_cong)

text \<open>Whether a constraint holds depends on the positions of the views only.\<close>

lemma holds_on_cong:
  assumes "attribute_ok (length vs) i oi a" "i < length vs" "length ws = length vs"
    and "\<And>j. j < length vs \<Longrightarrow> view_interval ws oi j = view_interval vs oi j"
    and "\<And>k j. k < K \<Longrightarrow> j < length vs \<Longrightarrow> Q' k j = Q k j"
  shows "holds_on ws K Q' oi a = holds_on vs K Q oi a"
proof -
  have sat: "satisfied_on ws K Q' oi b = satisfied_on vs K Q oi b" if "attribute_ok (length vs) i oi b" for b
  proof -
    have "pixel_holds (view_interval ws oi) b = pixel_holds (view_interval vs oi) b"
      by (rule pixel_holds_same [OF that assms(2)]) (rule assms(4))
    moreover have "pixel_holds (Q' k) b = pixel_holds (Q k) b" if "k < K" for k
      by (rule pixel_holds_same [OF \<open>attribute_ok (length vs) i oi b\<close> assms(2)]) (rule assms(5) [OF that])
    ultimately show ?thesis by (simp add: satisfied_on_def)
  qed
  have far: "far_apart ws oi = far_apart vs oi" unfolding far_apart_def assms(3) using assms(4) by (simp cong: conj_cong)
  have cut: "cut_version ws K Q' oi a = cut_version vs K Q oi a"
    unfolding cut_version_def far using sat [OF attribute_ok_margins [OF assms(1)]] by (simp cong: conj_cong)
  have src: "attr_src a = i" using assms(1) by (simp add: attribute_ok_def)
  have "size_kept ws oi (Q' k) a = size_kept vs oi (Q k) a" if "k < K" for k
    using assms(4) [OF assms(2)] assms(5) [OF that assms(2)] by (simp add: size_kept_def src)
  with sat [OF assms(1)] cut show ?thesis by (simp add: holds_on_def)
qed

lemma holds_on_fields:
  assumes "attr_type a = attr_type b" "attr_view_size a = attr_view_size b" "attr_src a = attr_src b"
    "tgt_primary a = tgt_primary b" "tgt_secondary a = tgt_secondary b"
    "value_primary a = value_primary b" "value_secondary a = value_secondary b"
  shows "holds_on vs K Q oi a = holds_on vs K Q oi b"
proof -
  have "satisfied_on vs K Q oi a = satisfied_on vs K Q oi b" using pixel_holds_fields [OF assms] by (simp add: satisfied_on_def)
  moreover have "satisfied_on vs K Q oi (a\<lparr>value_primary := p, value_secondary := q\<rparr>) =
      satisfied_on vs K Q oi (b\<lparr>value_primary := p, value_secondary := q\<rparr>)" for p q
  proof -
    have "pixel_holds P (a\<lparr>value_primary := p, value_secondary := q\<rparr>) = pixel_holds P (b\<lparr>value_primary := p, value_secondary := q\<rparr>)" for P
      by (rule pixel_holds_fields) (simp_all add: assms)
    then show ?thesis by (simp add: satisfied_on_def)
  qed
  moreover have "stored_margins (a\<lparr>value_primary := p, value_secondary := q\<rparr>) =
      stored_margins (b\<lparr>value_primary := p, value_secondary := q\<rparr>)" for p q
    using assms by (simp add: stored_margins_def read_margins_def Let_def)
  ultimately show ?thesis
    using assms unfolding holds_on_def cut_version_def free_center_def size_kept_def by simp
qed

text \<open>Margins below 10000 are stored so that the constraint says what it said in the model.\<close>

definition uncut :: "attribute \<Rightarrow> bool" where
  "uncut b \<longleftrightarrow>
     (if IsRelationalAnchor (attr_type b)
      then if IsTypeStart (attr_type b) = Some True then value_primary b < 10000 else value_secondary b < 10000
      else value_primary b < 10000 \<and> value_secondary b < 10000)"

lemma stored_uncut:
  assumes "attr_bias (model_attr m oi a) = 1 / 2" "attr_type a \<noteq> LAST" "uncut (model_attr m oi a)"
  shows "pixel_holds P (stored_attr m oi a) \<longleftrightarrow> pixel_holds P (model_attr m oi a)"
proof (cases "IsRelationalAnchor (attr_type a)")
  case True
  then show ?thesis using assms(3)
    by (cases "attr_type a") (simp_all add: uncut_def pixel_holds_def attribute_holds_def stored_attr_def stored_margins_def
        read_margins_def cut_margin_def Let_def)
next
  case False
  with assms(3) have "value_primary (model_attr m oi a) < 10000" "value_secondary (model_attr m oi a) < 10000"
    by (simp_all add: uncut_def)
  from stored_attr_placed [OF assms(1,2) this, of P] show ?thesis
    using placed_half [of "stored_attr m oi a" P] placed_half [OF assms(1), of P] by simp
qed

lemma far_apartI:
  assumes "i < length vs" "j < length vs" "x \<in> {fst (view_interval vs oi i), snd (view_interval vs oi i)}"
    "y \<in> {fst (view_interval vs oi j), snd (view_interval vs oi j)}" "10000 \<le> x - y"
  shows "far_apart vs oi"
proof -
  have "10000 \<le> max (fst (view_interval vs oi i)) (snd (view_interval vs oi i)) -
      min (fst (view_interval vs oi j)) (snd (view_interval vs oi j))"
    using assms(3-5) by auto
  with assms(1,2) show ?thesis unfolding far_apart_def by blast
qed

lemma anchor_ends: "anchor_pos P t j \<in> {fst (P j), snd (P j)}"
  by (simp add: anchor_pos_def)

text \<open>Larger margins need a wide screen, unless the query does not bound them.\<close>

lemma cut_margins_far:
  assumes ok: "attribute_ok (length vs) i oi b" "i < length vs"
    and holds: "pixel_holds (view_interval vs oi) b" "side_conditions (view_interval vs oi) b" and cut: "\<not> uncut b"
  shows "far_apart vs oi \<or> free_center b"
proof -
  let ?I = "view_interval vs oi" and ?t = "attr_type b"
  have src: "attr_src b = i" "tgt_primary b < length vs" and last: "?t \<noteq> LAST" using ok by (auto simp: attribute_ok_def)
  have z: "0 < length vs" using ok(2) by linarith
  note far = far_apartI [of _ vs _ _ oi]
  show ?thesis
  proof (cases "IsRelationalAnchor ?t")
    case rel: True
    then have sp: "split_center ?t = None" by (cases ?t) simp_all
    show ?thesis
    proof (cases "IsTypeStart ?t = Some True")
      case True
      with rel sp holds(1) have "fst (?I i) = anchor_pos ?I ?t (tgt_primary b) + value_primary b"
        by (simp add: pixel_holds_def attribute_holds_def Let_def src)
      then have "10000 \<le> fst (?I i) - anchor_pos ?I ?t (tgt_primary b)" using cut rel True by (simp add: uncut_def)
      from far [OF ok(2) src(2) _ anchor_ends [of ?I ?t "tgt_primary b"] this] show ?thesis by simp
    next
      case False
      with rel sp holds(1) have "snd (?I i) = anchor_pos ?I ?t (tgt_primary b) - value_secondary b"
        by (simp add: pixel_holds_def attribute_holds_def Let_def src)
      then have "10000 \<le> anchor_pos ?I ?t (tgt_primary b) - snd (?I i)" using cut rel False by (simp add: uncut_def)
      from far [OF src(2) ok(2) anchor_ends [of ?I ?t "tgt_primary b"] _ this] show ?thesis by simp
    qed
  next
    case center: False
    then obtain ts te q where sp: "split_center ?t = Some (ts, te)" "tgt_secondary b = Some q" "q < length vs"
      using last ok(1) by (cases ?t) (auto simp: attribute_ok_def split: option.splits)
    have big: "10000 \<le> value_primary b \<or> 10000 \<le> value_secondary b" using cut center by (auto simp: uncut_def)
    show ?thesis
    proof (cases "attr_view_size b = FIXED")
      case False
      then have "?I i = (anchor_pos ?I ts (tgt_primary b) + value_primary b, anchor_pos ?I te q - value_secondary b)"
        using holds(1) sp by (simp add: pixel_holds_def attribute_holds_def Let_def src)
      with big have "10000 \<le> fst (?I i) - anchor_pos ?I ts (tgt_primary b) \<or> 10000 \<le> anchor_pos ?I te q - snd (?I i)"
        by (metis add_diff_cancel_left' diff_diff_eq2 add.commute fst_conv snd_conv)
      then show ?thesis
        using far [OF ok(2) src(2) _ anchor_ends [of ?I ts "tgt_primary b"]] far [OF sp(3) ok(2) anchor_ends [of ?I te q]] by blast
    next
      case fixed: True
      show ?thesis
      proof (rule disjCI)
        assume "\<not> free_center b"
        with fixed center have "(?t \<in> {L2LxR2R, T2TxB2B} \<and> tgt_primary b = 0 \<and> tgt_secondary b = Some 0) \<or>
            (?t \<in> {L2LxR2L, L2RxR2R, T2TxB2T, T2BxB2B} \<and> tgt_secondary b = Some (tgt_primary b))"
          by (simp only: free_center_def simp_thms) argo
        then show "far_apart vs oi"
        proof (elim disjE)
          assume "?t \<in> {L2LxR2R, T2TxB2B} \<and> tgt_primary b = 0 \<and> tgt_secondary b = Some 0"
          with holds(2) fixed have "value_primary b \<le> fst (?I i) - fst (?I 0)" "value_secondary b \<le> snd (?I 0) - snd (?I i)"
            by (auto simp: side_conditions_def src)
          with big have "10000 \<le> fst (?I i) - fst (?I 0) \<or> 10000 \<le> snd (?I 0) - snd (?I i)" by linarith
          then show ?thesis using far [OF ok(2) z] far [OF z ok(2)] by blast
        next
          assume "?t \<in> {L2LxR2L, L2RxR2R, T2TxB2T, T2BxB2B} \<and> tgt_secondary b = Some (tgt_primary b)"
          with holds(2) fixed have "value_primary b = 0" "value_secondary b = 0" unfolding side_conditions_def by blast+
          with big show ?thesis by simp
        qed
      qed
    qed
  qed
qed

lemma side_conditions_cong:
  assumes "attribute_ok n i oi a" "i < n" "\<And>j. j < n \<Longrightarrow> P j = Q j"
  shows "side_conditions P a = side_conditions Q a"
proof -
  have "P (attr_src a) = Q (attr_src a)" "P 0 = Q 0" using assms by (auto simp: attribute_ok_def)
  then show ?thesis by (simp add: side_conditions_def)
qed

lemma stored_holds:
  assumes ok: "attribute_ok (length vs) i oi a" "i < length vs"
    and half: "attr_bias (model_attr m oi a) = 1 / 2" and pos: "margins_positive m oi i"
    and on_ref: "candidate_holds m oi 0 a" "\<And>j. j < length vs \<Longrightarrow> model_positions m oi 0 j = view_interval vs oi j"
    and on_dev: "\<And>k. k < K \<Longrightarrow> candidate_holds m oi (D k) a \<and> size_kept vs oi (model_positions m oi (D k)) a"
    and Q: "\<And>k j. k < K \<Longrightarrow> j < length vs \<Longrightarrow> Q k j = model_positions m oi (D k) j"
  shows "holds_on vs K Q oi (stored_attr m oi a)"
proof -
  let ?b = "model_attr m oi a" and ?s = "stored_attr m oi a"
  have src: "attr_src a = i" "attr_type a \<noteq> LAST" using ok by (auto simp: attribute_ok_def)
  have nonneg: "0 \<le> value_primary ?b" "0 \<le> value_secondary ?b"
    using pos src(1) by (simp_all add: margins_positive_def model_attr_def Let_def)
  then have okb: "attribute_ok (length vs) i oi ?b" using ok(1) by (simp add: attribute_ok_def cong: option.case_cong)
  have ref: "pixel_holds (view_interval vs oi) ?b" "side_conditions (view_interval vs oi) ?b"
    using on_ref(1) placed_half [OF half, of "model_positions m oi 0"] pixel_holds_same [OF okb ok(2) on_ref(2)]
      side_conditions_cong [OF okb ok(2) on_ref(2)] by (simp_all add: candidate_holds_def)
  have dev: "pixel_holds (Q k) ?b" if "k < K" for k
    using on_dev [OF that] placed_half [OF half, of "model_positions m oi (D k)"] pixel_holds_same [OF okb ok(2) Q [OF that]]
    by (simp add: candidate_holds_def)
  have "satisfied_on vs K Q oi ?s \<or> cut_version vs K Q oi ?s"
  proof (cases "uncut ?b")
    case True
    then show ?thesis using stored_uncut [OF half src(2) True] ref(1) dev by (simp add: satisfied_on_def)
  next
    case cut: False
    let ?c = "?s\<lparr>value_primary := value_primary ?b, value_secondary := value_secondary ?b\<rparr>"
    have "pixel_holds P ?c = pixel_holds P ?b" for P by (rule pixel_holds_fields) simp_all
    then have "satisfied_on vs K Q oi ?c" using ref(1) dev by (simp add: satisfied_on_def)
    moreover have "far_apart vs oi \<or> free_center ?s"
      using cut_margins_far [OF okb ok(2) ref cut] by (simp add: free_center_def)
    moreover have "10000 \<le> max (value_primary ?b) (value_secondary ?b)" using cut by (auto simp: uncut_def split: if_splits)
    moreover have "(value_primary ?s, value_secondary ?s) = stored_margins ?c"
      by (simp add: stored_attr_def Let_def stored_margins_def read_margins_def)
    ultimately show ?thesis unfolding cut_version_def using nonneg by blast
  qed
  moreover have "size_kept vs oi (Q k) ?s" if "k < K" for k
    using size_kept_cong [of "Q k" ?s "model_positions m oi (D k)" a vs oi] on_dev [OF that] Q [OF that ok(2)] src by simp
  ultimately show ?thesis by (simp add: holds_on_def)
qed

lemma stored_edges:
  assumes "\<And>i. 0 < i \<Longrightarrow> i < length vs \<Longrightarrow> view_attributes (vs ! i) oi = Some (stored_attr m oi (f i))"
    and "\<And>i. 0 < i \<Longrightarrow> i < length vs \<Longrightarrow> selects m oi (offers i) (f i)"
  shows "reference_edges vs oi \<subseteq> selection_edges m oi (length vs) offers"
proof (rule subrelI)
  fix i j assume "(i, j) \<in> reference_edges vs oi"
  then obtain a where a: "0 < i" "i < length vs" "view_attributes (vs ! i) oi = Some a" "j \<in> set (attr_targets a)"
    by (auto simp: reference_edges_def)
  with assms(1) [OF a(1,2)] assms(2) [OF a(1,2)] show "(i, j) \<in> selection_edges m oi (length vs) offers"
    by (auto simp: selection_edges_def)
qed

text \<open>Both orientations of the devices are written one after the other.\<close>

lemma HasFixedPosition_intervals:
  "HasFixedPosition v \<longleftrightarrow> (\<forall>oi. fst (interval_of oi v) \<noteq> - 1 \<and> snd (interval_of oi v) \<noteq> - 1)"
proof -
  have "(\<forall>oi. P oi) \<longleftrightarrow> P HORIZONTAL \<and> P VERTICAL" for P by (metis orientation.exhaust)
  then show ?thesis by (auto simp: HasFixedPosition_def interval_of_def)
qed

lemma assign_both_result:
  assumes dev: "\<And>oi. made_views oi d (zd oi)" "\<And>oi. length (zd oi) = length (app_views a)"
    and start: "\<And>oi i. i < length (app_views a) \<Longrightarrow> (zv_start (zd oi ! i), zv_end (zd oi ! i)) = view_interval (app_views a) oi i"
    and model: "\<And>oi i. i < length (app_views a) \<Longrightarrow> i = 0 \<or> zv_HasFixedPosition (zd oi ! i) \<Longrightarrow>
        model_positions m oi d i = (zv_start (zd oi ! i), zv_end (zd oi ! i))"
    and h: "assign_device HasFixedPosition m HORIZONTAL a (zd HORIZONTAL) = Some a1"
    and v: "assign_device HasFixedPosition m VERTICAL a1 (zd VERTICAL) = Some a2"
  shows "length (app_views a2) = length (app_views a)"
    "i < length (app_views a) \<Longrightarrow> view_interval (app_views a2) oi i = model_positions m oi d i"
proof -
  let ?n = "length (app_views a)"
  have skip: "model_positions m oi d i = view_interval (app_views b) oi i"
    if "i < ?n" "i = 0 \<or> HasFixedPosition (app_views b ! i)" "view_interval (app_views b) oi i = view_interval (app_views a) oi i"
    for oi i b
  proof -
    have "zv_HasFixedPosition (zd oi ! i)" if "HasFixedPosition (app_views b ! i)"
      using that start [OF \<open>i < ?n\<close>, of oi] \<open>view_interval (app_views b) oi i = view_interval (app_views a) oi i\<close>
      by (metis HasFixedPosition_intervals fst_conv snd_conv view_interval_of zv_HasFixedPosition_def)
    with that model [OF that(1), of oi] start [OF that(1), of oi] show ?thesis by auto
  qed
  have h': "length (app_views a1) = ?n \<and> length (app_views a) = length (zd HORIZONTAL) \<and>
    (\<forall>i < length (zd HORIZONTAL). view_interval (app_views a1) HORIZONTAL i = model_positions m HORIZONTAL d i \<and>
       (\<forall>oj. oj \<noteq> HORIZONTAL \<longrightarrow> view_interval (app_views a1) oj i = view_interval (app_views a) oj i) \<and>
       view_id (app_views a1 ! i) = view_id (app_views a ! i))"
    by (rule assign_device_result [OF h dev(1)]) (use skip [of _ a HORIZONTAL] dev(2) in \<open>auto simp del: One_nat_def\<close>)
  have before: "view_interval (app_views a1) VERTICAL i = view_interval (app_views a) VERTICAL i" if "i < ?n" for i
    using h' that dev(2) [of HORIZONTAL] by simp
  have v': "length (app_views a2) = length (app_views a1) \<and> length (app_views a1) = length (zd VERTICAL) \<and>
    (\<forall>i < length (zd VERTICAL). view_interval (app_views a2) VERTICAL i = model_positions m VERTICAL d i \<and>
       (\<forall>oj. oj \<noteq> VERTICAL \<longrightarrow> view_interval (app_views a2) oj i = view_interval (app_views a1) oj i) \<and>
       view_id (app_views a2 ! i) = view_id (app_views a1 ! i))"
  proof (rule assign_device_result [OF v dev(1)])
    fix i assume "i < length (zd VERTICAL)" "i = 0 \<or> HasFixedPosition (app_views a1 ! i)"
    with skip [of i a1 VERTICAL] before [of i] dev(2) [of VERTICAL]
    show "view_interval (app_views a1) VERTICAL i = model_positions m VERTICAL d i" by metis
  qed
  have len: "length (app_views a2) = ?n" using h' v' by (elim conjE) (simp only:)
  then show "length (app_views a2) = ?n" .
  have hi: "view_interval (app_views a1) HORIZONTAL i = model_positions m HORIZONTAL d i" if "i < ?n" for i
    using h' that by (elim conjE) (simp only:)
  have vi: "view_interval (app_views a2) VERTICAL i = model_positions m VERTICAL d i"
    "view_interval (app_views a2) HORIZONTAL i = view_interval (app_views a1) HORIZONTAL i" if "i < ?n" for i
    using v' that dev(2) [of VERTICAL] by (elim conjE, simp only: orientation.distinct simp_thms)+
  show "i < ?n \<Longrightarrow> view_interval (app_views a2) oi i = model_positions m oi d i"
    using hi vi by (cases oi) simp_all
qed

lemma assign_devices_result:
  assumes "fold_opt (\<lambda>apps oi. assign_devices HasFixedPosition m oi (zds oi) apps) apps both_orientations = Some apps'"
    and "\<And>oi. length (zds oi) = length apps"
  shows "length apps' = length apps"
    "k < length apps \<Longrightarrow> \<exists>a1. assign_device HasFixedPosition m HORIZONTAL (apps ! k) (zds HORIZONTAL ! k) = Some a1 \<and>
       assign_device HasFixedPosition m VERTICAL a1 (zds VERTICAL ! k) = Some (apps' ! k)"
proof -
  obtain apps1 where "assign_devices HasFixedPosition m HORIZONTAL (zds HORIZONTAL) apps = Some apps1"
      "assign_devices HasFixedPosition m VERTICAL (zds VERTICAL) apps1 = Some apps'"
    using assms(1) by (auto simp: both_orientations_def bind_Some_iff)
  note r = this [unfolded assign_devices_def]
  have len: "length apps1 = length apps" "length apps' = length apps"
    using map_opt_length [OF r(1)] map_opt_length [OF r(2)] assms(2) by simp_all
  then show "length apps' = length apps" by simp
  show "k < length apps \<Longrightarrow> \<exists>a1. assign_device HasFixedPosition m HORIZONTAL (apps ! k) (zds HORIZONTAL ! k) = Some a1 \<and>
       assign_device HasFixedPosition m VERTICAL a1 (zds VERTICAL ! k) = Some (apps' ! k)"
    using map_opt_nth [OF r(1), of k] map_opt_nth [OF r(2), of k] len assms(2) by simp
qed


text \<open>
  One orientation of the result, for any layouts \<open>Q\<close> that a model gives to \<open>K\<close> devices with the
  numbers \<open>D\<close>.
\<close>

definition constrained :: "view list \<Rightarrow> view list \<Rightarrow> nat \<Rightarrow> (nat \<Rightarrow> nat \<Rightarrow> int \<times> int) \<Rightarrow> orientation \<Rightarrow> bool" where
  "constrained vs vs' K Q oi \<longleftrightarrow>
     acyclic (reference_edges vs' oi) \<and>
     (\<forall>i. 0 < i \<and> i < length vs \<longrightarrow>
        (\<exists>a. view_attributes (vs' ! i) oi = Some a \<and> attribute_ok (length vs) i oi a \<and> holds_on vs K Q oi a)) \<and>
     length vs' = length vs \<and> (\<forall>i < length vs. view_interval vs' oi i = view_interval vs oi i)"

lemma orientation_constrained:
  assumes cands: "cand_ok c sc n oi" and zs: "length zs = n" and vs: "length vs = n"
    and at: "\<And>i. i < n \<Longrightarrow> (zv_start (zs ! i), zv_end (zs ! i)) = view_interval vs oi i"
    and ref: "reference_model opt oi zs (offered c sc) m" "assumed oi zs m"
    and dev: "\<And>k i a. k < K \<Longrightarrow> 0 < i \<Longrightarrow> i < n \<Longrightarrow> a \<in> set (offered c sc i) \<Longrightarrow> gen_clause vs oi (D k) m a"
    and attrs: "\<And>i. 0 < i \<Longrightarrow> i < n \<Longrightarrow> view_attributes (vs' ! i) oi = Some (stored_attr m oi (selection m oi (offered c sc) i))"
    and same: "length vs' = n" "\<And>i. i < n \<Longrightarrow> view_interval vs' oi i = view_interval vs oi i"
    and Q: "\<And>k i. k < K \<Longrightarrow> i < n \<Longrightarrow> Q k i = model_positions m oi (D k) i"
  shows "constrained vs vs' K Q oi"
proof -
  let ?offers = "offered c sc"
  let ?sel = "selection m oi ?offers"
  have bias: "real_interp m (name1 ''bias_'' (unique_id_value (int i) oi)) = 1 / 2" and pos: "margins_positive m oi i"
    and ref_at: "model_positions m oi 0 i = view_interval vs oi i" if "i < n" for i
    using ref that zs at by (simp_all add: reference_model_def margins_positive_def)
  have sel: "?sel i \<in> set (?offers i)" "bool_interp m (attr_name oi (?sel i))" "attribute_ok n i oi (?sel i)"
    if "0 < i" "i < n" for i
    using selection_in(1,2) [OF ref that(1)] that zs offered_ok(1) [OF cands that] by simp_all
  have half: "attr_bias (model_attr m oi (?sel i)) = 1 / 2" if "0 < i" "i < n" for i
    using sel(3) [OF that] bias [OF that(2)] by (simp add: model_attr_def attribute_ok_def Let_def)
  have on_ref: "candidate_holds m oi 0 (?sel i)" if "0 < i" "i < n" for i
    using ref(1) sel(1,2) [OF that] that zs by (auto simp: reference_model_def syn_clause_def)
  have on_dev: "candidate_holds m oi (D k) (?sel i)" "size_kept vs oi (model_positions m oi (D k)) (?sel i)"
    if "0 < i" "i < n" "k < K" for i k
    using dev [OF that(3,1,2) sel(1) [OF that(1,2)]] sel(2) [OF that(1,2)] by (simp_all add: gen_clause_def)
  have solved: "holds_on vs K Q oi (stored_attr m oi (?sel i))" if i: "0 < i" "i < n" for i
    by (rule stored_holds [where D = D, OF _ _ half [OF i] pos [OF i(2)] on_ref [OF i]])
      (use sel(3) [OF i] i ref_at on_dev Q vs in simp_all)
  have "reference_edges vs' oi \<subseteq> selection_edges m oi (length vs') ?offers"
    by (rule stored_edges [of _ oi m ?sel]) (use attrs sel same(1) in \<open>auto simp: selects_def\<close>)
  then have "acyclic (reference_edges vs' oi)"
    using selection_acyclic [OF ref(1)] offered_ok(1) [OF cands] zs same(1) by (auto intro: acyclic_subset)
  then show ?thesis
    using attrs stored_attr_ok [OF sel(3) pos] solved same vs by (simp add: constrained_def)
qed

lemma orientation_solved:
  assumes n: "views_ok n (app_views app)" "n \<le> 1000" and dn: "devices_ok n apps"
    and q: "query_ok (app_views app) n scs q" "query_intervals app apps q"
    and model: "orientation_model (app_views app) opt scs q oi m" "assumed oi (q_views q oi) m"
    and attrs: "\<And>i. 0 < i \<Longrightarrow> i < n \<Longrightarrow> view_attributes (app_views app' ! i) oi =
        Some (stored_attr m oi (selection m oi (offered (q_cands q oi) (scs oi)) i))"
    and same: "length (app_views app') = n" "\<And>i. i < n \<Longrightarrow> view_interval (app_views app') oi i = view_interval (app_views app) oi i"
    and devs: "length apps' = length apps"
      "\<And>k i. k < length apps \<Longrightarrow> i < n \<Longrightarrow> view_interval (app_views (apps' ! k)) oi i = model_positions m oi (int k + 1) i"
  shows "solution app apps app' apps' oi"
proof -
  let ?zds = "q_devices q oi" and ?offers = "offered (q_cands q oi) (scs oi)"
  have len: "length (app_views app) = n" using n(1) by (simp add: views_ok_def)
  have lens: "length (app_views (apps ! k)) = n" if "k < length apps" for k
    using dn that by (simp add: devices_ok_def views_ok_def)
  have cands: "cand_ok (q_cands q oi) (scs oi) n oi" and zs: "length (q_views q oi) = n" "length ?zds = length apps"
    and lzd: "\<And>k. k < length apps \<Longrightarrow> length (?zds ! k) = n"
    using q by (simp_all add: query_ok_def query_intervals_def)
  have ref: "reference_model opt oi (q_views q oi) ?offers m"
    and dev: "\<And>k. k < length apps \<Longrightarrow> device_model (app_views app) oi (int k + 1) (?zds ! k) ?offers m"
    using model(1) zs(2) by (simp_all add: orientation_model_def)
  have "constrained (app_views app) (app_views app') (length apps) (\<lambda>k. view_interval (app_views (apps' ! k)) oi) oi"
  proof (rule orientation_constrained [OF cands zs(1) len _ ref model(2) _ attrs same devs(2)])
    show "(zv_start (q_views q oi ! i), zv_end (q_views q oi ! i)) = view_interval (app_views app) oi i" if "i < n" for i
      using q(2) that len by (simp add: query_intervals_def)
    show "gen_clause (app_views app) oi (int k + 1) m a" if "k < length apps" "0 < i" "i < n" "a \<in> set (?offers i)" for k i a
      using dev [OF that(1)] that lzd [OF that(1)] by (simp add: device_model_def)
  qed
  moreover have "view_interval (app_views (apps' ! k)) oi i = view_interval (app_views (apps ! k)) oi i"
    if "k < length apps" "i < n" "i = 0 \<or> HasFixedPosition (app_views (apps ! k) ! i)" for k i
  proof -
    have z: "(zv_start (?zds ! k ! i), zv_end (?zds ! k ! i)) = view_interval (app_views (apps ! k)) oi i"
      using q(2) that lens [OF that(1)] by (simp add: query_intervals_def)
    have "i = 0 \<or> zv_HasFixedPosition (?zds ! k ! i)"
      using that(3) z by (metis HasFixedPosition_intervals fst_conv snd_conv view_interval_of zv_HasFixedPosition_def)
    with dev [OF that(1)] that(2) lzd [OF that(1)]
    have "model_positions m oi (int k + 1) i = (zv_start (?zds ! k ! i), zv_end (?zds ! k ! i))"
      by (auto simp: device_model_def)
    with z devs(2) [OF that(1,2)] show ?thesis by simp
  qed
  ultimately show ?thesis
    using devs(1) lens by (simp add: solution_def constrained_def)
qed


lemma query_fresh_start:
  assumes "\<forall>oi. cand_ok (q_cands q oi) (scs oi) n oi" "q_cands q = (\<lambda>oi. ResetAdding (cands oi))"
    and "\<And>oi i. i < n \<Longrightarrow> zv_constraints (q_views q oi ! i) = []"
  shows "query_fresh n q"
  using assms by (auto simp: query_fresh_def cand_ok_def ResetAdding_def)

lemma assumed_extended: "views_extended zs zs' g \<Longrightarrow> assumed oi zs' m = assumed oi zs m"
  by (auto simp: assumed_def views_extended_def)

lemma query_assumptions_meaning:
  assumes "query_ok app_vs n scs q"
  shows "satisfies m (query_assumptions q) \<longleftrightarrow> (\<forall>oi. assumed oi (q_views q oi) m)"
proof -
  have "satisfies m (GetAssumptions (q_views q oi)) \<longleftrightarrow> assumed oi (q_views q oi) m" for oi
    using assms GetAssumptions_meaning [of oi 0 "q_views q oi"] by (simp add: query_ok_def)
  moreover have "(\<forall>oi. P oi) \<longleftrightarrow> P HORIZONTAL \<and> P VERTICAL" for P by (metis orientation.exhaust)
  ultimately show ?thesis
    by (simp add: query_assumptions_def both_orientations_def)
qed

text \<open>The two runs over the views of the app.\<close>

lemma assign_both_models:
  assumes "fold_opt (\<lambda>vs oi. assign_models env m oi (zs' oi) vs) vs both_orientations = Some vs'"
    and "\<And>oi ws ws'. assign_models env m oi (zs' oi) ws = Some ws' \<Longrightarrow> length ws = n \<Longrightarrow> ws' = with_constraints oi (f oi) n ws"
    and "length vs = n"
  shows "length vs' = n" "0 < i \<Longrightarrow> i < n \<Longrightarrow> view_attributes (vs' ! i) oi = Some (f oi i)"
    "i < n \<Longrightarrow> view_interval vs' oi i = view_interval vs oi i"
proof -
  obtain vs1 where vs1: "assign_models env m HORIZONTAL (zs' HORIZONTAL) vs = Some vs1"
      "assign_models env m VERTICAL (zs' VERTICAL) vs1 = Some vs'"
    using assms(1) by (auto simp: both_orientations_def bind_Some_iff)
  have "vs1 = with_constraints HORIZONTAL (f HORIZONTAL) n vs" by (rule assms(2) [OF vs1(1) assms(3)])
  moreover from this have "vs' = with_constraints VERTICAL (f VERTICAL) n vs1"
    using assms(2) [OF vs1(2)] assms(3) by (simp add: with_constraints_facts(1))
  ultimately show "length vs' = n" "0 < i \<Longrightarrow> i < n \<Longrightarrow> view_attributes (vs' ! i) oi = Some (f oi i)"
    "i < n \<Longrightarrow> view_interval vs' oi i = view_interval vs oi i"
    using assms(3) by (cases oi; simp add: with_constraints_facts)+
qed

text \<open>The blocked positions: a model of the blocking constraints moves some view.\<close>

definition blocking_ok :: "nat \<Rightarrow> nat \<Rightarrow> blocking \<Rightarrow> bool" where
  "blocking_ok n k b \<longleftrightarrow>
     (\<forall>e \<in> set (empty_view_indices b). fst e < k \<and> snd e < n) \<and>
     (\<forall>ws \<in> set (blocking_views b). length ws = length (empty_view_indices b))"

definition at_position :: "z3_model \<Rightarrow> view \<Rightarrow> nat \<times> nat \<Rightarrow> bool" where
  "at_position m w e \<longleftrightarrow> (\<forall>oi. interval_of oi w = model_positions m oi (int (fst e) + 1) (snd e))"

lemma same_position_as_result:
  assumes "query_ok app_vs n scs q" "\<forall>oi. length (q_devices q oi) = k" "fst e < k" "snd e < n"
  shows "\<exists>p. same_position_as (q_devices q) w e = Some p \<and> (\<forall>m. holds m p \<longleftrightarrow> at_position m w e)"
proof -
  let ?z = "\<lambda>oi. q_devices q oi ! fst e ! snd e"
  have made: "made_view oi (int (fst e) + 1) (snd e) (?z oi)" "length (q_devices q oi ! fst e) = n" for oi
    using assms by (simp_all add: query_ok_def made_views_def)
  then have pos: "position_start_v (?z oi) = IntConst (name2 ''start_'' (unique_id_value (int (snd e)) oi) (int (fst e) + 1))"
    "position_end_v (?z oi) = IntConst (name2 ''end_'' (unique_id_value (int (snd e)) oi) (int (fst e) + 1))" for oi
    by (simp_all add: made_view_def)
  have all: "(\<forall>oi. P oi) \<longleftrightarrow> P HORIZONTAL \<and> P VERTICAL" for P by (metis orientation.exhaust)
  show ?thesis
    using assms(2-4) made(2)
    by (auto simp: same_position_as_def at_position_def all pos interval_of_def model_positions_def)
qed

lemma holds_conjunction: "holds m (foldl And p ps) \<longleftrightarrow> holds m p \<and> (\<forall>x \<in> set ps. holds m x)"
  by (induction ps arbitrary: p) auto

lemma blocking_assertion_result:
  assumes "query_ok app_vs n scs q" "\<forall>oi. length (q_devices q oi) = k" "blocking_ok n k b" "ws \<in> set (blocking_views b)"
  shows "\<exists>p. blocking_assertion b (q_devices q) ws = Some p \<and>
    (\<forall>m. holds m p \<longleftrightarrow> (\<exists>j < length ws. \<not> at_position m (ws ! j) (empty_view_indices b ! j)))"
proof -
  let ?es = "empty_view_indices b"
  have len: "length ?es = length ws" using assms(3,4) by (simp add: blocking_ok_def)
  have "\<exists>p. same_position_as (q_devices q) (ws ! j) (?es ! j) = Some p \<and> (\<forall>m. holds m p \<longleftrightarrow> at_position m (ws ! j) (?es ! j))"
    if "j < length ws" for j
    using same_position_as_result [OF assms(1,2)] assms(3) that len by (simp add: blocking_ok_def)
  then obtain g where g: "\<And>j. j < length ws \<Longrightarrow> same_position_as (q_devices q) (ws ! j) (?es ! j) = Some (g j) \<and>
      (\<forall>m. holds m (g j) \<longleftrightarrow> at_position m (ws ! j) (?es ! j))" by metis
  let ?f = "\<lambda>(w, e). same_position_as (q_devices q) w e"
  have "\<exists>ps. map_opt ?f (zip ws ?es) = Some ps"
    unfolding map_opt_Some_iff using g len by (fastforce simp: in_set_zip)
  then obtain ps where ps: "map_opt ?f (zip ws ?es) = Some ps" by blast
  have lps: "length ps = length ws" using map_opt_length [OF ps] len by simp
  have at: "ps ! j = g j" if "j < length ws" for j
    using map_opt_nth [OF ps, of j] g [OF that] that len by simp
  have "holds m (Neg (foldl And (BoolVal True) ps)) \<longleftrightarrow> (\<exists>j < length ws. \<not> at_position m (ws ! j) (?es ! j))" for m
    using g at lps by (auto simp: holds_conjunction all_set_conv_all_nth)
  moreover have "blocking_assertion b (q_devices q) ws = Some (Neg (foldl And (BoolVal True) ps))"
    using ps len by (simp add: blocking_assertion_def)
  ultimately show ?thesis by blast
qed

lemma AddBlockingConstraints_result:
  assumes "query_ok app_vs n scs q" "\<forall>oi. length (q_devices q oi) = k" "blocking_ok n k b"
  shows "\<exists>t. AddBlockingConstraints (Some b) q = Some (q\<lparr>q_assertions := q_assertions q @ t\<rparr>) \<and>
    (\<forall>m. satisfies m t \<longleftrightarrow> (\<forall>ws \<in> set (blocking_views b). \<exists>j < length ws. \<not> at_position m (ws ! j) (empty_view_indices b ! j)))"
proof -
  let ?f = "blocking_assertion b (q_devices q)"
  have "\<exists>ps. map_opt ?f (blocking_views b) = Some ps"
    unfolding map_opt_Some_iff using blocking_assertion_result [OF assms] by blast
  then obtain ps where ps: "map_opt ?f (blocking_views b) = Some ps" by blast
  note len = map_opt_length [OF ps]
  have "holds m (ps ! i) \<longleftrightarrow> (\<exists>j < length (blocking_views b ! i). \<not> at_position m (blocking_views b ! i ! j) (empty_view_indices b ! j))"
    if "i < length ps" for i m
    using blocking_assertion_result [OF assms, of "blocking_views b ! i"] map_opt_nth [OF ps, of i] that len by auto
  then have "satisfies m ps \<longleftrightarrow> (\<forall>ws \<in> set (blocking_views b). \<exists>j < length ws. \<not> at_position m (ws ! j) (empty_view_indices b ! j))" for m
    using len by (auto simp: satisfies_def list_all_length all_set_conv_all_nth)
  then show ?thesis using ps by (auto simp: AddBlockingConstraints_def)
qed

definition moves_some :: "blocking \<Rightarrow> app list \<Rightarrow> bool" where
  "moves_some b apps \<longleftrightarrow>
     (\<forall>ws \<in> set (blocking_views b). \<exists>j < length ws. \<exists>oi. interval_of oi (ws ! j) \<noteq>
        view_interval (app_views (apps ! fst (empty_view_indices b ! j))) oi (snd (empty_view_indices b ! j)))"

definition query_answer :: "blocking option \<Rightarrow> app \<Rightarrow> app list \<Rightarrow> app \<Rightarrow> app list \<Rightarrow> bool" where
  "query_answer b app apps app' apps' \<longleftrightarrow>
     (\<forall>oi. solution app apps app' apps' oi) \<and>
     (case b of None \<Rightarrow> True
      | Some b \<Rightarrow> blocking_ok (length (app_views app)) (length apps) b \<longrightarrow> moves_some b apps')"

lemma SingleQueryInner_result:
  assumes env: "sound_env env" and n: "views_ok n (app_views app)" "n \<le> 1000" and dn: "devices_ok n apps"
    and cands: "\<forall>oi. cand_ok (cands oi) (scs oi) n oi"
    and result: "SingleQueryInner env opt app apps cands b = Some (SUCCESS, app', apps', cands')"
  shows "query_answer b app apps app' apps'"
proof -
  let ?cands = "\<lambda>oi. ResetAdding (cands oi)"
  have reset: "\<forall>oi. cand_ok (?cands oi) (scs oi) n oi" using cands cand_ok_updates(3) by blast
  obtain q0 q1 q2 where q: "convert_query app apps ?cands = Some q0"
      "AddConstraintsSingleQuery (app_views app) opt q0 = Some q1" "AddBlockingConstraints b q1 = Some q2"
    using result by (auto simp: SingleQueryInner_def bind_Some_iff)
  note q0 = convert_query_result [OF q(1) n dn reset]
  have "\<forall>oi. cand_ok (q_cands q0 oi) (scs oi) n oi" using reset q0(3) by simp
  note fresh = query_fresh_start [OF this q0(3) q0(5)]
  obtain q1' t where q1': "AddConstraintsSingleQuery (app_views app) opt q0 = Some q1'" "q_assertions q1' = q_assertions q0 @ t"
    "query_ok (app_views app) n scs q1'" "\<forall>oi. extended_at scs oi q0 q1'"
    "\<forall>m. satisfies m t \<longleftrightarrow> (\<forall>oi. orientation_model (app_views app) opt scs q0 oi m)"
    using AddConstraintsSingleQuery_result [OF q0(1) fresh, where opt = opt] by blast
  have "q1' = q1" using q1'(1) q(2) by simp
  note q1 = q1' [unfolded this]
  obtain u where u: "q2 = q1\<lparr>q_assertions := q_assertions q1 @ u\<rparr>" using AddBlockingConstraints_Some [OF q(3)] by blast
  define s where "s = q_assertions q2 @ query_assumptions q2"
  obtain cost m vs where m: "env_optimize env s cost = Sat m"
    and vs: "fold_opt (\<lambda>vs oi. assign_models env m oi (q_views q2 oi) vs) (app_views app) both_orientations = Some vs"
      "app' = app\<lparr>app_views := vs\<rparr>"
    and devs: "fold_opt (\<lambda>apps oi. assign_devices HasFixedPosition m oi (q_devices q2 oi) apps) apps both_orientations = Some apps'"
  proof -
    define cost where "cost = (if opt then Some (foldl (\<lambda>e oi. cost_of_views (q_views q2 oi) e) (IntVal 0) both_orientations) else None)"
    have r: "(case env_optimize env s cost of
            Sat m \<Rightarrow>
              do { vs \<leftarrow> fold_opt (\<lambda>vs oi. assign_models env m oi (q_views q2 oi) vs) (app_views app) both_orientations;
                   apps' \<leftarrow> fold_opt (\<lambda>apps oi. assign_devices HasFixedPosition m oi (q_devices q2 oi) apps)
                             apps both_orientations;
                   Some (SUCCESS, app\<lparr>app_views := vs\<rparr>, apps', q_cands q2) }
          | res \<Rightarrow> Some (failure_status env s res, app, apps, q_cands q2)) = Some (SUCCESS, app', apps', cands')"
      using result unfolding SingleQueryInner_def q Option.bind.simps(2) Let_def s_def cost_def .
    have fail: "failure_status env s res \<noteq> SUCCESS" for res by (simp add: failure_status_def split: check_result.split)
    show thesis
    proof (cases "env_optimize env s cost")
      case (Sat m)
      with r that show thesis by (auto simp: bind_Some_iff)
    qed (use r fail in auto)
  qed
  have "satisfies m s" using env m by (simp add: sound_env_def)
  then have sat: "satisfies m t" "satisfies m (query_assumptions q1)"
    using q1(2) by (simp_all add: s_def u query_assumptions_def)
  have om: "orientation_model (app_views app) opt scs q0 oi m" for oi using q1(5) sat(1) by blast
  have ext: "views_extended (q_views q0 oi) (q_views q1 oi)
        (\<lambda>i. if i = 0 then [] else map (attr_name oi) (offered (q_cands q0 oi) (scs oi) i))"
    "length (q_devices q1 oi) = length (q_devices q0 oi)" for oi
    using q1(4) by (simp_all add: extended_at_def)
  have assumed: "assumed oi (q_views q0 oi) m" for oi
    using query_assumptions_meaning [OF q1(3)] sat(2) assumed_extended [OF ext(1)] by blast
  have ok0: "made_views oi 0 (q_views q0 oi)" "length (q_views q0 oi) = n" "cand_ok (q_cands q0 oi) (scs oi) n oi"
    "\<forall>k < length (q_devices q0 oi). length (q_devices q0 oi ! k) = n" for oi
    using q0(1) by (simp_all add: query_ok_def)
  have ref: "reference_model opt oi (q_views q0 oi) (offered (q_cands q0 oi) (scs oi)) m" for oi
    using om by (simp add: orientation_model_def)
  have dec: "env_decimal env 4 (1 / 2) = ''0.5''" using env by (simp add: sound_env_def)
  let ?f = "\<lambda>oi i. stored_attr m oi (selection m oi (offered (q_cands q0 oi) (scs oi)) i)"
  have assign: "ws' = with_constraints oi (?f oi) n ws" if "assign_models env m oi (q_views q2 oi) ws = Some ws'" "length ws = n" for oi ws ws'
  proof -
    have fresh: "\<forall>i < length (q_views q0 oi). zv_constraints (q_views q0 oi ! i) = []" using q0(5) ok0(2) by simp
    have offers: "attribute_ok (length (q_views q0 oi)) i oi a"
      if "0 < i" "i < length (q_views q0 oi)" "a \<in> set (offered (q_cands q0 oi) (scs oi) i)" for i a
      using offered_ok(1) [OF ok0(3)] that ok0(2) by simp
    show ?thesis
      using assign_models_result [OF ref assumed ext(1) ok0(1) fresh _ _ offers dec, of ws ws'] that ok0(2) n(2) u by simp
  qed
  have len: "length (app_views app) = n" using n(1) by (simp add: views_ok_def)
  note both = assign_both_models [OF vs(1) assign len]
  have dlen: "length (q_devices q2 oi) = length apps" for oi
    using ext(2) q0(4) u by (simp add: query_intervals_def)
  note dev = assign_devices_result [OF devs dlen]
  have lens: "length (app_views (apps ! k)) = n" if "k < length apps" for k
    using dn that by (simp add: devices_ok_def views_ok_def)
  have placed: "view_interval (app_views (apps' ! k)) oi i = model_positions m oi (int k + 1) i"
    if k: "k < length apps" and i: "i < n" for k i oi
  proof -
    obtain a1 where a1: "assign_device HasFixedPosition m HORIZONTAL (apps ! k) (q_devices q2 HORIZONTAL ! k) = Some a1"
       "assign_device HasFixedPosition m VERTICAL a1 (q_devices q2 VERTICAL ! k) = Some (apps' ! k)"
      using dev(2) [OF k] by blast
    have k0: "k < length (q_devices q0 oj)" for oj using k q0(4) by (simp add: query_intervals_def)
    obtain g where g: "\<And>oj. views_extended (q_devices q0 oj ! k) (q_devices q1 oj ! k) (g oj)"
    proof -
      have "\<forall>oj. \<exists>g. views_extended (q_devices q0 oj ! k) (q_devices q1 oj ! k) g"
        using q1(4) k0 unfolding extended_at_def by blast
      from choice [OF this] that show thesis by blast
    qed
    have made: "made_views oj (int k + 1) (q_devices q2 oj ! k)" "length (q_devices q2 oj ! k) = n" for oj
      using q1(3) ext(2) k0 u by (simp_all add: query_ok_def)
    have same: "zv_start (q_devices q2 oj ! k ! j) = zv_start (q_devices q0 oj ! k ! j)"
      "zv_end (q_devices q2 oj ! k ! j) = zv_end (q_devices q0 oj ! k ! j)" if "j < n" for oj j
      using g [of oj] u that ok0(4) k0 by (simp_all add: views_extended_def)
    have dm: "device_model (app_views app) oj (int k + 1) (q_devices q0 oj ! k) (offered (q_cands q0 oj) (scs oj)) m" for oj
      using om [of oj] k0 by (simp add: orientation_model_def)
    show ?thesis
    proof (rule assign_both_result(2) [OF made(1) _ _ _ a1])
      show "length (q_devices q2 oj ! k) = length (app_views (apps ! k))" for oj using made(2) lens [OF k] by simp
      show "(zv_start (q_devices q2 oj ! k ! j), zv_end (q_devices q2 oj ! k ! j)) = view_interval (app_views (apps ! k)) oj j"
        if "j < length (app_views (apps ! k))" for oj j
      proof -
        have j: "j < n" using that lens [OF k] by simp
        have "(zv_start (q_devices q0 oj ! k ! j), zv_end (q_devices q0 oj ! k ! j)) = view_interval (app_views (apps ! k)) oj j"
          using q0(4) k that unfolding query_intervals_def by blast
        then show ?thesis by (simp only: same [OF j])
      qed
      show "model_positions m oj (int k + 1) j = (zv_start (q_devices q2 oj ! k ! j), zv_end (q_devices q2 oj ! k ! j))"
        if "j < length (app_views (apps ! k))" "j = 0 \<or> zv_HasFixedPosition (q_devices q2 oj ! k ! j)" for oj j
      proof -
        have j: "j < n" using that(1) lens [OF k] by simp
        have "j = 0 \<or> zv_HasFixedPosition (q_devices q0 oj ! k ! j)"
          using that(2) by (simp add: zv_HasFixedPosition_def same [OF j])
        then have "model_positions m oj (int k + 1) j = (zv_start (q_devices q0 oj ! k ! j), zv_end (q_devices q0 oj ! k ! j))"
          using dm [of oj] j ok0(4) k0 unfolding device_model_def by metis
        then show ?thesis by (simp only: same [OF j])
      qed
      show "i < length (app_views (apps ! k))" using i lens [OF k] by simp
    qed
  qed
  have "solution app apps app' apps' oi" for oi
    by (rule orientation_solved [OF n dn q0(1,4) om assumed _ _ _ dev(1) placed]) (use both vs(2) in simp_all)
  moreover have "moves_some bl apps'" if bl: "b = Some bl" "blocking_ok n (length apps) bl" for bl
  proof -
    have lens: "\<forall>oi. length (q_devices q1 oi) = length apps" using dlen u by simp
    obtain v where v: "q2 = q1\<lparr>q_assertions := q_assertions q1 @ v\<rparr>"
      "\<forall>m. satisfies m v \<longleftrightarrow> (\<forall>ws \<in> set (blocking_views bl). \<exists>j < length ws. \<not> at_position m (ws ! j) (empty_view_indices bl ! j))"
      using AddBlockingConstraints_result [OF q1(3) lens bl(2)] q(3) bl(1) by auto
    have "satisfies m (q_assertions q2)" using \<open>satisfies m s\<close> by (simp add: s_def)
    then have "satisfies m v" by (simp add: v(1))
    show ?thesis
      unfolding moves_some_def
    proof
      fix ws assume ws: "ws \<in> set (blocking_views bl)"
      then obtain j where j: "j < length ws" "\<not> at_position m (ws ! j) (empty_view_indices bl ! j)"
        using v(2) \<open>satisfies m v\<close> by blast
      then have "fst (empty_view_indices bl ! j) < length apps" "snd (empty_view_indices bl ! j) < n"
        using bl(2) ws by (auto simp: blocking_ok_def)
      from placed [OF this] j show "\<exists>j < length ws. \<exists>oi. interval_of oi (ws ! j) \<noteq>
          view_interval (app_views (apps' ! fst (empty_view_indices bl ! j))) oi (snd (empty_view_indices bl ! j))"
        unfolding at_position_def by (metis of_nat_Suc)
    qed
  qed
  ultimately show ?thesis using len by (auto simp: query_answer_def split: option.split)
qed

section \<open>The whole query\<close>

lemma AddConstraintsSingleQuery_named:
  assumes "query_ok app_vs n scs q" "query_fresh n q" "AddConstraintsSingleQuery app_vs opt q = Some q'"
  shows "query_ok app_vs n scs q' \<and> query_named n q'"
proof -
  obtain t where r: "query_ok app_vs n scs q'" "\<forall>oi. extended_at scs oi q q'"
    using AddConstraintsSingleQuery_result [OF assms(1,2), where opt = opt] assms(3) by auto
  have "zv_constraints (q_views q' oi ! i) \<noteq> []" if i: "0 < i" "i < n" for oi i
  proof -
    have "cand_ok (q_cands q oi) (scs oi) n oi" "length (q_views q oi) = n" using assms(1) by (simp_all add: query_ok_def)
    moreover have "constraints_added (q_cands q oi) ! i = 0" using assms(2) i by (simp add: query_fresh_def)
    ultimately show ?thesis
      using offered_first [of "q_cands q oi" "scs oi" n oi i] r(2) i by (auto simp: extended_at_def views_extended_def)
  qed
  with r(1) show ?thesis by (simp add: query_named_def)
qed

lemma query_changed_assertions:
  "query_ok app_vs n scs (q\<lparr>q_assertions := s\<rparr>) = query_ok app_vs n scs q" "query_named n (q\<lparr>q_assertions := s\<rparr>) = query_named n q"
  by (simp_all add: query_ok_def query_named_def)

lemma GetSatConstraintsSingleQuery_result:
  assumes n: "views_ok n (app_views app)" "n \<le> 1000" and dn: "devices_ok n apps"
    and cands: "\<forall>oi. cand_ok (cands oi) (scs oi) n oi" "\<forall>oi. \<forall>i < n. constraints_added (cands oi) ! i = 0"
    and b: "\<And>q. query_ok (app_views app) n scs q \<Longrightarrow> (\<forall>oi. length (q_devices q oi) = length apps) \<Longrightarrow>
      \<exists>q'. AddBlockingConstraints b q = Some q'"
  shows "\<exists>st cands'. GetSatConstraintsSingleQuery env app apps cands b = Some (st, cands') \<and>
    (\<forall>oi. cand_ok (cands' oi) (scs oi) n oi)"
proof -
  obtain q0 where c: "convert_query app apps cands = Some q0" using convert_query_total [OF n dn] by blast
  note q0 = convert_query_result [OF c n dn cands(1)]
  have fresh: "query_fresh n q0" using cands(2) q0(3,5) by (simp add: query_fresh_def)
  obtain q1 where q1: "AddConstraintsSingleQuery (app_views app) False q0 = Some q1" "\<forall>oi. extended_at scs oi q0 q1"
    using AddConstraintsSingleQuery_result [OF q0(1) fresh, where opt = False] by blast
  note ok1 = AddConstraintsSingleQuery_named [OF q0(1) fresh q1(1)]
  have "\<forall>oi. length (q_devices q1 oi) = length apps"
    using q1(2) q0(4) by (simp add: extended_at_def query_intervals_def)
  then obtain q2 where q2: "AddBlockingConstraints b q1 = Some q2" using b ok1 by blast
  obtain t where t: "q2 = q1\<lparr>q_assertions := q_assertions q1 @ t\<rparr>" using AddBlockingConstraints_Some [OF q2] by blast
  obtain st q' where "sat_loop env (app_views app) 100 q2 = Some (st, q')" "query_ok (app_views app) n scs q'"
    using sat_loop_result [of "app_views app" n scs q2 env 100] ok1 by (auto simp: t query_changed_assertions)
  then show ?thesis using c q1(1) q2 by (simp add: GetSatConstraintsSingleQuery_def query_ok_def)
qed

text \<open>The same when the blocking constraints cannot be added: then there is no result.\<close>

lemma GetSatConstraintsSingleQuery_cands:
  assumes n: "views_ok n (app_views app)" "n \<le> 1000" and dn: "devices_ok n apps"
    and cands: "\<forall>oi. cand_ok (cands oi) (scs oi) n oi" "\<forall>oi. \<forall>i < n. constraints_added (cands oi) ! i = 0"
    and "GetSatConstraintsSingleQuery env app apps cands b = Some (st, cands')"
  shows "\<forall>oi. cand_ok (cands' oi) (scs oi) n oi"
proof -
  obtain q0 q1 q2 q' where q: "convert_query app apps cands = Some q0" "AddConstraintsSingleQuery (app_views app) False q0 = Some q1"
      "AddBlockingConstraints b q1 = Some q2" "sat_loop env (app_views app) 100 q2 = Some (st, q')" "cands' = q_cands q'"
    using assms(6) by (auto simp: GetSatConstraintsSingleQuery_def bind_Some_iff)
  note q0 = convert_query_result [OF q(1) n dn cands(1)]
  have fresh: "query_fresh n q0" using cands(2) q0(3,5) by (simp add: query_fresh_def)
  note ok1 = AddConstraintsSingleQuery_named [OF q0(1) fresh q(2)]
  obtain t where t: "q2 = q1\<lparr>q_assertions := q_assertions q1 @ t\<rparr>" using AddBlockingConstraints_Some [OF q(3)] by blast
  have "query_ok (app_views app) n scs q'"
    using sat_loop_result [of "app_views app" n scs q2 env 100] ok1 q(4) by (auto simp: t query_changed_assertions)
  with q(5) show ?thesis by (simp add: query_ok_def)
qed

text \<open>The candidates of a fresh app.\<close>

lemma start_candidates_result:
  assumes "blank_app app" "model_answers model (app_views app)" "length (app_views app) \<le> 1000"
    and "\<forall>oi. \<forall>i < length (app_views app). view_view_size (app_views app ! i) oi = None"
  shows "\<exists>scs cands. both (AttrScorer model (app_views app)) = Some scs \<and>
    both (start_candidates scs (app_views app)) = Some cands \<and>
    (\<forall>oi. cand_ok (cands oi) (scs oi) (length (app_views app)) oi) \<and>
    (\<forall>oi. \<forall>i < length (app_views app). constraints_added (cands oi) ! i = 0)"
proof -
  let ?vs = "app_views app" and ?n = "length (app_views app)"
  have ready: "synth_ready ?vs oi" for oi using assms(1) by (cases oi) (simp_all add: blank_app_def)
  then have pos: "\<forall>i < ?n. view_pos (?vs ! i) = int i" by (simp add: synth_ready_def)
  have "\<exists>sc c. AttrScorer model ?vs oi = Some sc \<and> cand_ok c sc ?n oi \<and> (\<forall>i < ?n. constraints_added c ! i = 0) \<and>
      (\<forall>scs. scs oi = sc \<longrightarrow> start_candidates scs ?vs oi = Some c)" for oi
  proof -
    obtain zs where zs: "ConvertViews ?vs oi 0 = Some zs" using ConvertViews_total [OF assms(3) pos] by blast
    note z = ConvertViews_result [OF zs pos]
    have "\<forall>i < ?n. zv_pos (zs ! i) = int i" using z(1,2) by (auto simp: made_views_def dest: made_view_pos)
    from CandidateConstraints_result [OF ready assms(2) _ z(1) this] assms(4)
    obtain sc c where "AttrScorer model ?vs oi = Some sc" "CandidateConstraints (Some sc) zs = Some c" "cand_ok c sc ?n oi"
      "constraints_added c = replicate ?n 0" by blast
    then show ?thesis
      using zs cand_ok_updates(1) [of c sc ?n oi 5] by (auto simp: start_candidates_def IncreaseRank_def)
  qed
  then obtain scs cands where s: "\<And>oi. AttrScorer model ?vs oi = Some (scs oi)" "\<And>oi. cand_ok (cands oi) (scs oi) ?n oi"
    "\<And>oi. \<forall>i < ?n. constraints_added (cands oi) ! i = 0"
    "\<And>oi. \<forall>scs'. scs' oi = scs oi \<longrightarrow> start_candidates scs' ?vs oi = Some (cands oi)" by metis
  then have "both (AttrScorer model ?vs) = Some scs" "both (start_candidates scs ?vs) = Some cands"
    by (simp_all add: both_Some)
  with s(2,3) show ?thesis by blast
qed

lemma SingleQueryInner_cands:
  assumes n: "views_ok n (app_views app)" "n \<le> 1000" and dn: "devices_ok n apps"
    and cands: "\<forall>oi. cand_ok (cands oi) (scs oi) n oi"
    and result: "SingleQueryInner env opt app apps cands b = Some (st, app', apps', cands')"
  shows "\<forall>oi. cand_ok (cands' oi) (scs oi) n oi"
proof -
  let ?cands = "\<lambda>oi. ResetAdding (cands oi)"
  have reset: "\<forall>oi. cand_ok (?cands oi) (scs oi) n oi" using cands cand_ok_updates(3) by blast
  obtain q0 q1 q2 where q: "convert_query app apps ?cands = Some q0"
      "AddConstraintsSingleQuery (app_views app) opt q0 = Some q1" "AddBlockingConstraints b q1 = Some q2"
    using result by (auto simp: SingleQueryInner_def bind_Some_iff)
  note q0 = convert_query_result [OF q(1) n dn reset]
  have "\<forall>oi. cand_ok (q_cands q0 oi) (scs oi) n oi" using reset q0(3) by simp
  note ok1 = AddConstraintsSingleQuery_named [OF q0(1) query_fresh_start [OF this q0(3) q0(5)] q(2)]
  obtain t where t: "q2 = q1\<lparr>q_assertions := q_assertions q1 @ t\<rparr>" using AddBlockingConstraints_Some [OF q(3)] by blast
  have "cands' = q_cands q2"
    using result q by (auto simp: SingleQueryInner_def bind_Some_iff Let_def split: check_result.splits)
  with ok1 t show ?thesis by (simp add: query_ok_def)
qed

lemma SynthesizeSingleQuery_result:
  assumes env: "sound_env env" and n: "views_ok n (app_views app)" "n \<le> 1000" and dn: "devices_ok n apps"
    and cands: "both (start_candidates scs (app_views app)) = Some cands" "\<forall>oi. cand_ok (cands oi) (scs oi) n oi"
      "\<forall>oi. \<forall>i < n. constraints_added (cands oi) ! i = 0"
    and result: "SynthesizeSingleQuery env opt scs app apps b = Some (SUCCESS, app', apps')"
  shows "query_answer b app apps app' apps'"
proof -
  from result cands(1) obtain r where r: "GetSatConstraintsSingleQuery env app apps cands b = Some r"
      "(if fst r \<noteq> SUCCESS then Some (fst r, app, apps)
          else do { res \<leftarrow> SingleQueryInner env opt app apps (snd r) b;
                    if \<not> opt \<or> fst res = SUCCESS then Some (fst res, fst (snd res), fst (snd (snd res)))
                    else do { res2 \<leftarrow> SingleQueryInner env False app apps (snd (snd (snd res))) b;
                              Some (fst res2, fst (snd res2), fst (snd (snd res2))) } }) = Some (SUCCESS, app', apps')"
    unfolding SynthesizeSingleQuery_def by (auto simp: bind_Some_iff)
  have c1: "\<forall>oi. cand_ok (snd r oi) (scs oi) n oi"
    using GetSatConstraintsSingleQuery_cands [OF n dn cands(2,3), of env b "fst r" "snd r"] r(1) by simp
  from r(2) obtain res where res: "SingleQueryInner env opt app apps (snd r) b = Some res"
    and rest: "(if \<not> opt \<or> fst res = SUCCESS then Some (fst res, fst (snd res), fst (snd (snd res)))
        else do { res2 \<leftarrow> SingleQueryInner env False app apps (snd (snd (snd res))) b;
                  Some (fst res2, fst (snd res2), fst (snd (snd res2))) }) = Some (SUCCESS, app', apps')"
    by (auto simp: bind_Some_iff split: if_splits)
  show ?thesis
  proof (cases "\<not> opt \<or> fst res = SUCCESS")
    case True
    then have "SingleQueryInner env opt app apps (snd r) b = Some (SUCCESS, app', apps', snd (snd (snd res)))"
      using res rest by (cases res) auto
    from SingleQueryInner_result [OF env n dn c1 this] show ?thesis by blast
  next
    case False
    have c2: "\<forall>oi. cand_ok (snd (snd (snd res)) oi) (scs oi) n oi"
      using SingleQueryInner_cands [OF n dn c1, of env opt b "fst res" "fst (snd res)" "fst (snd (snd res))"
          "snd (snd (snd res))"] res by simp
    from rest False obtain res2 where "SingleQueryInner env False app apps (snd (snd (snd res))) b = Some res2"
        "fst res2 = SUCCESS" "fst (snd res2) = app'" "fst (snd (snd res2)) = apps'"
      by (auto simp: bind_Some_iff)
    then have "SingleQueryInner env False app apps (snd (snd (snd res))) b = Some (SUCCESS, app', apps', snd (snd (snd res2)))"
      by (cases res2) auto
    from SingleQueryInner_result [OF env n dn c2 this] show ?thesis by blast
  qed
qed

section \<open>When a query succeeds\<close>

definition numbers_fit :: "nat \<Rightarrow> nat \<Rightarrow> z3_model \<Rightarrow> bool" where
  "numbers_fit n devices m \<longleftrightarrow>
     (\<forall>oi. \<forall>i < n. margins_small m oi i \<and> (\<forall>d \<le> devices. int32 (fst (model_positions m oi (int d) i)) \<and>
        int32 (snd (model_positions m oi (int d) i))))"

lemma margin_value_small:
  "0 \<le> int_interp m s \<Longrightarrow> int_interp m s < 10000 \<Longrightarrow> \<exists>k. margin_value m t (IntConst s) = Some k"
  by (simp add: margin_value_def get_numeral_int64_def get_numeral_int_def int32_def)

lemma GetMargins_total:
  assumes "made_view oi d i z" "attribute_ok n i oi a" "margins_positive m oi i" "margins_small m oi i"
  shows "GetMargins m z (attr_data oi a) = Some (read_margins (model_attr m oi a))"
proof -
  have vars: "margin_start_v z = IntConst (name1 ''mstart_'' (unique_id_value (int i) oi))"
    "margin_end_v z = IntConst (name1 ''mend_'' (unique_id_value (int i) oi))"
    using assms(1) by (simp_all add: made_view_def)
  have some: "\<exists>k. margin_value m t (margin_start_v z) = Some k" "\<exists>k. margin_value m t (margin_end_v z) = Some k" for t
    unfolding vars using assms(3,4) by (simp_all add: margins_positive_def margins_small_def margin_value_small)
  have "attr_type a \<noteq> LAST" using assms(2) by (auto simp: attribute_ok_def)
  then obtain ts where "SplitAnchor (attr_type a) = Some ts" by (cases "attr_type a") auto
  with some obtain ms where "GetMargins m z (attr_data oi a) = Some ms"
    by (auto simp: GetMargins_def attr_data_def) (metis bind.bind_lunit)
  with GetMargins_result [OF assms(1,2)] show ?thesis by simp
qed

lemma AssignModel_total:
  assumes "made_view oi 0 i z" "attribute_ok n i oi a" "i < n" "n \<le> 1000" "length vs = n"
    and "selected_constraint m z = Some (attr_name oi a)"
    and "dec 4 (1 / 2) = ''0.5''" "real_interp m (name1 ''bias_'' (unique_id_value (int i) oi)) = 1 / 2"
    and "margins_positive m oi i" "margins_small m oi i"
  shows "\<exists>r. AssignModel dec m oi None vs z = Some r"
proof -
  note pos = made_view_pos [OF assms(1)] and data = attr_name_Some(2) [OF assms(2,3,4)]
  note range = ok_range [OF assms(2,3)]
  have src: "attr_src a = i" using assms(2) by (simp add: attribute_ok_def)
  have half: "num_value m (GetBiasExpr z) = 1 / 2"
    using assms(8) pos by (simp add: GetBiasExpr_def zv_uid_def)
  have bias: "GetBias dec m z = Some (1 / 2)"
    unfolding GetBias_def half assms(7) by (simp add: half_parsed)
  have c: "IsCenterAnchor (attr_type a) \<longleftrightarrow> \<not> IsRelationalAnchor (attr_type a)"
    using range(5) by (cases "attr_type a") (simp_all add: IsCenterAnchor_def)
  have nonneg: "0 \<le> fst (stored_margins (model_attr m oi a))" "0 \<le> snd (stored_margins (model_attr m oi a))"
    using stored_attr_ok [OF assms(2,9)] by (simp_all add: attribute_ok_def stored_attr_record)
  note ms = GetMargins_total [OF assms(1,2,9,10)]
  show ?thesis using assms(2)
  proof (cases rule: ok_targets)
    case relational
    with c nonneg show ?thesis
      using assms(5,6) data pos bias src range ms assms(3)
      by (simp add: AssignModel_def attr_data_def Attribute_full_def stored_margins_def Let_def)
  next
    case (center j)
    with c nonneg show ?thesis
      using assms(5,6) data pos bias src range ms assms(3)
      by (simp add: AssignModel_def attr_data_def Attribute_full_def stored_margins_def Let_def)
  qed
qed

lemma assign_models_total:
  assumes ref: "reference_model opt oi zs offers m" "assumed oi zs m"
    and zs': "views_extended zs zs' (\<lambda>i. if i = 0 then [] else map (attr_name oi) (offers i))"
    and made: "made_views oi 0 zs" and fresh: "\<forall>i < length zs. zv_constraints (zs ! i) = []"
    and len: "length vs = length zs" "length zs \<le> 1000"
    and offers: "\<And>i a. 0 < i \<Longrightarrow> i < length zs \<Longrightarrow> a \<in> set (offers i) \<Longrightarrow> attribute_ok (length zs) i oi a"
    and dec: "env_decimal env 4 (1 / 2) = ''0.5''" and small: "\<forall>i < length zs. margins_small m oi i"
  shows "\<exists>vs'. assign_models env m oi zs' vs = Some vs'"
proof -
  let ?f = "\<lambda>vs z. if zv_pos z = 0 then Some vs else map_option fst (AssignModel (env_decimal env) m oi None vs z)"
  have len': "length zs' = length zs" by (rule views_extended_length [OF zs'])
  have "\<exists>vs'. fold_opt ?f vs zs' = Some vs' \<and> length vs' = length zs"
  proof (rule fold_opt_total)
    show "length vs = length zs" by (rule len)
    fix ws :: "view list" and z assume ws: "length ws = length zs" and "z \<in> set zs'"
    then obtain i where i: "i < length zs" "z = zs' ! i" using len' by (auto simp: in_set_conv_nth)
    have made': "made_view oi 0 i z" using views_extended_made [OF zs' made] len' i by (simp add: made_views_def)
    show "\<exists>vs'. ?f ws z = Some vs' \<and> length vs' = length zs"
    proof (cases "i = 0")
      case True
      then show ?thesis using made_view_pos [OF made'] ws by simp
    next
      case False
      then have i0: "0 < i" by simp
      note sel = selection_in [OF ref i0 i(1)]
      let ?a = "selection m oi offers i"
      have ok: "attribute_ok (length zs) i oi ?a" by (rule offers [OF i0 i(1) sel(1)])
      have "zv_constraints z = map (attr_name oi) (offers i)"
        using zs' i i0 fresh by (simp add: views_extended_def)
      then have chosen: "selected_constraint m z = Some (attr_name oi ?a)"
        using sel(3) by (simp add: selected_constraint_def find_map)
      have bias: "real_interp m (name1 ''bias_'' (unique_id_value (int i) oi)) = 1 / 2"
        and pos: "margins_positive m oi i"
        using ref(1) i(1) by (simp_all add: reference_model_def margins_positive_def)
      obtain r where r: "AssignModel (env_decimal env) m oi None ws z = Some r"
        using AssignModel_total [where dec = "env_decimal env", OF made' ok i(1) len(2) ws chosen dec bias pos] small i(1) by blast
      show ?thesis
        using AssignModel_result [OF made' ok i(1) len(2) ws chosen dec bias r] r made_view_pos [OF made'] i0 ws by simp
    qed
  qed
  then show ?thesis by (auto simp: assign_models_def)
qed

lemma AssignPosition_total:
  assumes "made_view oi d i z" "int32 (fst (model_positions m oi d i))" "int32 (snd (model_positions m oi d i))"
  shows "\<exists>z'. AssignPosition m z = Some z'"
  using assms by (simp add: AssignPosition_def get_numeral_int_def made_view_def model_positions_def)

lemma assign_device_total:
  assumes "made_views oi d zd" "length (app_views a) = length zd"
    and "\<forall>i < length zd. int32 (fst (model_positions m oi d i)) \<and> int32 (snd (model_positions m oi d i))"
  shows "\<exists>a'. assign_device skip m oi a zd = Some a' \<and> length (app_views a') = length (app_views a)"
proof -
  let ?f = "\<lambda>vs i. do { v \<leftarrow> vec_at vs i;
                       if skip v then Some vs
                       else do { z \<leftarrow> vec_at zd i; z' \<leftarrow> AssignPosition m z;
                                 Some (vs[i := set_interval oi v (zv_start z') (zv_end z')]) } }"
  have "\<exists>vs. fold_opt ?f (app_views a) [1..<length zd] = Some vs \<and> length vs = length zd"
  proof (rule fold_opt_total)
    fix vs :: "view list" and i assume vs: "length vs = length zd" and "i \<in> set [1..<length zd]"
    then have i: "i < length zd" by simp
    have "\<exists>z'. AssignPosition m (zd ! i) = Some z'"
      using AssignPosition_total [of oi d i "zd ! i" m] assms(1,3) i by (simp add: made_views_def)
    then show "\<exists>vs'. ?f vs i = Some vs' \<and> length vs' = length zd" using i vs by auto
  qed (rule assms(2))
  then show ?thesis using assms(2) by (auto simp: assign_device_def)
qed


text \<open>
  A model of the query: it satisfies what the query says about every orientation and selects a
  candidate for every view.
\<close>

definition query_model ::
    "view list \<Rightarrow> bool \<Rightarrow> (orientation \<Rightarrow> attr_scorer) \<Rightarrow> query \<Rightarrow> z3_model \<Rightarrow> bool" where
  "query_model app_vs opt scs q m \<longleftrightarrow>
     (\<forall>oi. orientation_model app_vs opt scs q oi m \<and> assumed oi (q_views q oi) m)"

text \<open>
  What is documented of the solver: \<open>sat\<close> comes with a model of the assertions, and \<open>unsat\<close> means
  that there is none. It may answer \<open>unknown\<close> to anything (\<open>gave_up\<close>: to a query that has the model \<open>m\<close>).
\<close>

definition truthful :: "smt_env \<Rightarrow> bool" where
  "truthful env \<longleftrightarrow> sound_env env \<and>
     (\<forall>s t m. env_check env s t = Unsat \<longrightarrow> \<not> satisfies m (s @ t)) \<and>
     (\<forall>s cost m. env_optimize env s cost = Unsat \<longrightarrow> \<not> satisfies m s)"

definition gave_up :: "smt_env \<Rightarrow> z3_model \<Rightarrow> bool" where
  "gave_up env m \<longleftrightarrow>
     (\<exists>s t. satisfies m (s @ t) \<and> env_check env s t = Unknown) \<or>
     (\<exists>s cost. satisfies m s \<and> env_optimize env s cost = Unknown)"

text \<open>The solvers of the examples: whatever a fixed model satisfies is answered with it.\<close>

definition answers_with :: "smt_env \<Rightarrow> z3_model \<Rightarrow> bool" where
  "answers_with env m \<longleftrightarrow>
     (\<forall>s t. satisfies m (s @ t) \<longrightarrow> env_check env s t = Sat m) \<and>
     (\<forall>s cost. satisfies m s \<longrightarrow> env_optimize env s cost = Sat m) \<and> env_decimal env 4 (1 / 2) = ''0.5''"

text \<open>Such a model also obeys the blocking constraints: some view is not at its blocked position.\<close>

definition blocking_model :: "nat \<Rightarrow> nat \<Rightarrow> blocking option \<Rightarrow> z3_model \<Rightarrow> bool" where
  "blocking_model n k b m \<longleftrightarrow>
     (case b of None \<Rightarrow> True
      | Some b \<Rightarrow> blocking_ok n k b \<and>
          (\<forall>ws \<in> set (blocking_views b). \<exists>j < length ws. \<not> at_position m (ws ! j) (empty_view_indices b ! j)))"

lemma blocking_model_satisfies:
  assumes "query_ok app_vs n scs q" "\<forall>oi. length (q_devices q oi) = k" "blocking_model n k b m"
  shows "\<exists>t. AddBlockingConstraints b q = Some (q\<lparr>q_assertions := q_assertions q @ t\<rparr>) \<and> satisfies m t"
proof (cases b)
  case None
  then show ?thesis by (intro exI [of _ "[]"]) (simp add: AddBlockingConstraints_def satisfies_def)
next
  case (Some bl)
  then show ?thesis
    using AddBlockingConstraints_result [OF assms(1,2), of bl] assms(3) by (auto simp: blocking_model_def)
qed

text \<open>A model whose numbers fit the types that they are read into can be assigned.\<close>

lemma query_assigned:
  assumes n: "views_ok n (app_views app)" "n \<le> 1000" and dn: "devices_ok n apps"
    and q0: "query_ok (app_views app) n scs q0" "query_intervals app apps q0"
      "\<And>oi i. i < n \<Longrightarrow> zv_constraints (q_views q0 oi ! i) = []"
    and q1: "query_ok (app_views app) n scs q1"
    and ext: "\<And>oi. views_extended (q_views q0 oi) (q_views q1 oi)
        (\<lambda>i. if i = 0 then [] else map (attr_name oi) (offered (q_cands q0 oi) (scs oi) i))"
      "\<And>oi. length (q_devices q1 oi) = length (q_devices q0 oi)"
    and om: "\<And>oi. orientation_model (app_views app) opt scs q0 oi m" and assumed: "\<And>oi. assumed oi (q_views q0 oi) m"
    and fit: "numbers_fit n (length apps) m" and dec: "env_decimal env 4 (1 / 2) = ''0.5''"
  shows "\<exists>vs'. fold_opt (\<lambda>vs oi. assign_models env m oi (q_views q1 oi) vs) (app_views app) both_orientations = Some vs'"
    "\<exists>apps'. fold_opt (\<lambda>apps oi. assign_devices HasFixedPosition m oi (q_devices q1 oi) apps) apps both_orientations = Some apps'"
proof -
  have ok0: "made_views oi 0 (q_views q0 oi)" "length (q_views q0 oi) = n" "cand_ok (q_cands q0 oi) (scs oi) n oi" for oi
    using q0(1) by (simp_all add: query_ok_def)
  have ref: "reference_model opt oi (q_views q0 oi) (offered (q_cands q0 oi) (scs oi)) m" for oi
    using om by (simp add: orientation_model_def)
  have one: "\<exists>vs'. assign_models env m oi (q_views q1 oi) vs = Some vs' \<and> length vs' = n" if "length vs = n" for oi vs
  proof -
    have none: "\<forall>i < length (q_views q0 oi). zv_constraints (q_views q0 oi ! i) = []" using q0(3) ok0(2) by simp
    have offers: "attribute_ok (length (q_views q0 oi)) i oi a"
      if "0 < i" "i < length (q_views q0 oi)" "a \<in> set (offered (q_cands q0 oi) (scs oi) i)" for i a
      using offered_ok(1) [OF ok0(3)] that ok0(2) by simp
    have small: "\<forall>i < length (q_views q0 oi). margins_small m oi i" using fit ok0(2) by (simp add: numbers_fit_def)
    have len: "length vs = length (q_views q0 oi)" "length (q_views q0 oi) \<le> 1000" using that ok0(2) n(2) by simp_all
    obtain vs' where vs': "assign_models env m oi (q_views q1 oi) vs = Some vs'"
      using assign_models_total [OF ref assumed ext(1) ok0(1) none len offers dec small] by blast
    with assign_models_result [OF ref assumed ext(1) ok0(1) none len offers dec vs'] that
    show ?thesis by (simp add: with_constraints_facts(1))
  qed
  have "\<exists>vs'. fold_opt (\<lambda>vs oi. assign_models env m oi (q_views q1 oi) vs) (app_views app) both_orientations = Some vs' \<and> length vs' = n"
    by (rule fold_opt_total) (use n(1) one in \<open>auto simp: views_ok_def\<close>)
  then obtain vs' where vs': "fold_opt (\<lambda>vs oi. assign_models env m oi (q_views q1 oi) vs) (app_views app) both_orientations = Some vs'"
    by blast
  have dlen: "length (q_devices q1 oi) = length apps" for oi using ext(2) q0(2) by (simp add: query_intervals_def)
  have dev: "\<exists>as'. assign_devices HasFixedPosition m oi (q_devices q1 oi) as = Some as' \<and> length as' = length apps \<and>
      (\<forall>k < length apps. length (app_views (as' ! k)) = n)"
    if "length as = length apps" "\<forall>k < length apps. length (app_views (as ! k)) = n" for oi and as :: "app list"
  proof -
    have "\<exists>a'. assign_device HasFixedPosition m oi (as ! k) (q_devices q1 oi ! k) = Some a' \<and> length (app_views a') = n"
      if k: "k < length apps" for k
    proof -
      have "made_views oi (int k + 1) (q_devices q1 oi ! k)" "length (q_devices q1 oi ! k) = n"
        using q1 k dlen by (simp_all add: query_ok_def)
      moreover have "int32 (fst (model_positions m oi (int k + 1) i)) \<and> int32 (snd (model_positions m oi (int k + 1) i))"
        if "i < n" for i
        using fit k that unfolding numbers_fit_def by (metis Suc_leI of_nat_Suc add.commute)
      ultimately show ?thesis
        using assign_device_total [of oi "int k + 1" "q_devices q1 oi ! k" "as ! k" m HasFixedPosition]
          \<open>\<forall>k < length apps. length (app_views (as ! k)) = n\<close> k by simp
    qed
    then obtain g where g: "\<And>k. k < length apps \<Longrightarrow> assign_device HasFixedPosition m oi (as ! k) (q_devices q1 oi ! k) = Some (g k) \<and>
        length (app_views (g k)) = n" by metis
    have "\<exists>as'. assign_devices HasFixedPosition m oi (q_devices q1 oi) as = Some as'"
      unfolding assign_devices_def map_opt_Some_iff using g that(1) dlen by (fastforce simp: in_set_zip)
    then obtain as' where as': "assign_devices HasFixedPosition m oi (q_devices q1 oi) as = Some as'" by blast
    note r = as' [unfolded assign_devices_def]
    have "length as' = length apps" using map_opt_length [OF r] that(1) dlen by simp
    moreover have "as' ! k = g k" if "k < length apps" for k
      using map_opt_nth [OF r, of k] g [OF that] that \<open>length as = length apps\<close> dlen by simp
    ultimately show ?thesis using as' g by simp
  qed
  have "\<exists>as'. fold_opt (\<lambda>apps oi. assign_devices HasFixedPosition m oi (q_devices q1 oi) apps) apps both_orientations = Some as' \<and>
      length as' = length apps \<and> (\<forall>k < length apps. length (app_views (as' ! k)) = n)"
    by (rule fold_opt_total) (use dn dev in \<open>auto simp: devices_ok_def views_ok_def\<close>)
  then obtain apps' where apps': "fold_opt (\<lambda>apps oi. assign_devices HasFixedPosition m oi (q_devices q1 oi) apps) apps both_orientations = Some apps'"
    by blast
  show "\<exists>vs'. fold_opt (\<lambda>vs oi. assign_models env m oi (q_views q1 oi) vs) (app_views app) both_orientations = Some vs'"
    "\<exists>apps'. fold_opt (\<lambda>apps oi. assign_devices HasFixedPosition m oi (q_devices q1 oi) apps) apps both_orientations = Some apps'"
    using vs' apps' by blast+
qed

lemma offered_again:
  assumes "same_candidates c d" "constraints_added c ! i = 0" "i < length (constraints_added c)"
    and "length (constraints_max_rank c) = length (constraints_added c)"
  shows "offered (ResetAdding (FinishAdding d)) sc i = offered c sc i"
proof -
  obtain s where d: "d = c\<lparr>constraints_selected := s\<rparr>" using assms(1) by (auto simp: same_candidates_def)
  have reset: "eligible (ResetAdding (FinishAdding d)) sc a = eligible c sc a" for a
    by (simp add: d ResetAdding_def FinishAdding_def eligible_def IsProhibitedConstraint_def cong: if_cong option.case_cong)
  have "constraints_added (ResetAdding (FinishAdding d)) ! i = 0" "cn_anchors (ResetAdding (FinishAdding d)) = cn_anchors c"
    "constraints_max_rank (ResetAdding (FinishAdding d)) = constraints_max_rank c"
    using assms(3,4) by (simp_all add: d ResetAdding_def FinishAdding_def)
  with assms(2) show ?thesis unfolding offered_def offered_ranks_def reset by simp
qed

lemma query_model_again:
  assumes "query_model app_vs opt scs q m" "q_views q' = q_views q" "q_devices q' = q_devices q"
    and "\<And>oi i. i < n \<Longrightarrow> offered (q_cands q' oi) (scs oi) i = offered (q_cands q oi) (scs oi) i"
    and "\<And>oi. length (q_views q oi) = n" "\<And>oi k. k < length (q_devices q oi) \<Longrightarrow> length (q_devices q oi ! k) = n"
  shows "query_model app_vs opt scs q' m"
proof -
  have "reference_model opt oi (q_views q oi) (offered (q_cands q' oi) (scs oi)) m =
      reference_model opt oi (q_views q oi) (offered (q_cands q oi) (scs oi)) m" for oi
    unfolding reference_model_def using assms(4,5) by (simp cong: conj_cong)
  moreover have "device_model app_vs oi (int k + 1) (q_devices q oi ! k) (offered (q_cands q' oi) (scs oi)) m =
      device_model app_vs oi (int k + 1) (q_devices q oi ! k) (offered (q_cands q oi) (scs oi)) m"
    if "k < length (q_devices q oi)" for oi k
    unfolding device_model_def using assms(4) assms(6) [OF that] by (simp cong: conj_cong)
  ultimately show ?thesis using assms(1-3) by (simp add: query_model_def orientation_model_def)
qed

lemma query_model_plain: "query_model app_vs opt scs q m \<Longrightarrow> query_model app_vs False scs q m"
  by (simp add: query_model_def orientation_model_def reference_model_def syn_clause_def)

text \<open>
  The ways in which a query with a model can end: with a solution, with the solver having given up,
  or with a model of the solver whose numbers do not fit.
\<close>

definition outcome ::
    "smt_env \<Rightarrow> nat \<Rightarrow> (orientation \<Rightarrow> attr_scorer) \<Rightarrow> app \<Rightarrow> app list \<Rightarrow> query \<Rightarrow> z3_model \<Rightarrow>
      (status \<times> app \<times> app list) option \<Rightarrow> bool" where
  "outcome env n scs app apps q m r \<longleftrightarrow>
     (\<exists>app' apps'. r = Some (SUCCESS, app', apps')) \<or>
     (\<exists>st. r = Some (st, app, apps) \<and> st \<in> {UNKNOWN, TIMEOUT} \<and> gave_up env m) \<or>
     r = None \<and> (\<exists>s cost m'. env_optimize env s cost = Sat m' \<and> query_model (app_views app) False scs q m' \<and>
       \<not> numbers_fit n (length apps) m')"

lemma outcome_query:
  assumes "outcome env n scs app apps q' m r"
    and "\<And>m'. query_model (app_views app) False scs q' m' \<Longrightarrow> query_model (app_views app) False scs q m'"
  shows "outcome env n scs app apps q m r"
  using assms unfolding outcome_def by blast

lemma failure_unknown: "failure_status env s Unknown \<in> {UNKNOWN, TIMEOUT}"
  by (simp add: failure_status_def)

lemma SingleQueryInner_outcome:
  assumes env: "truthful env" and n: "views_ok n (app_views app)" "n \<le> 1000" and dn: "devices_ok n apps"
    and cands: "\<forall>oi. cand_ok (cands oi) (scs oi) n oi"
    and q: "convert_query app apps (\<lambda>oi. ResetAdding (cands oi)) = Some q0" "query_model (app_views app) opt scs q0 m"
    and b: "blocking_model n (length apps) b m"
  shows "outcome env n scs app apps q0 m (map_option (\<lambda>r. (fst r, fst (snd r), fst (snd (snd r)))) (SingleQueryInner env opt app apps cands b))"
proof -
  have reset: "\<forall>oi. cand_ok (ResetAdding (cands oi)) (scs oi) n oi" using cands cand_ok_updates(3) by blast
  note q0 = convert_query_result [OF q(1) n dn reset]
  have "\<forall>oi. cand_ok (q_cands q0 oi) (scs oi) n oi" using reset q0(3) by simp
  note fresh = query_fresh_start [OF this q0(3) q0(5)]
  obtain q1 t where q1: "AddConstraintsSingleQuery (app_views app) opt q0 = Some q1" "q_assertions q1 = q_assertions q0 @ t"
    "query_ok (app_views app) n scs q1" "\<forall>oi. extended_at scs oi q0 q1"
    "\<forall>m. satisfies m t \<longleftrightarrow> (\<forall>oi. orientation_model (app_views app) opt scs q0 oi m)"
    using AddConstraintsSingleQuery_result [OF q0(1) fresh, where opt = opt] by blast
  have ext: "views_extended (q_views q0 oi) (q_views q1 oi)
        (\<lambda>i. if i = 0 then [] else map (attr_name oi) (offered (q_cands q0 oi) (scs oi) i))"
    "length (q_devices q1 oi) = length (q_devices q0 oi)" for oi
    using q1(4) by (simp_all add: extended_at_def)
  have "\<forall>oi. length (q_devices q1 oi) = length apps" using ext(2) q0(4) by (simp add: query_intervals_def)
  from blocking_model_satisfies [OF q1(3) this b] obtain v where
    v: "AddBlockingConstraints b q1 = Some (q1\<lparr>q_assertions := q_assertions q1 @ v\<rparr>)" "satisfies m v" by blast
  define s where "s = q_assertions q1 @ v @ query_assumptions q1"
  define cost where
    "cost = (if opt then Some (foldl (\<lambda>e oi. cost_of_views (q_views q1 oi) e) (IntVal 0) both_orientations) else None)"
  let ?vs = "\<lambda>m. fold_opt (\<lambda>vs oi. assign_models env m oi (q_views q1 oi) vs) (app_views app) both_orientations"
  let ?as = "\<lambda>m. fold_opt (\<lambda>apps oi. assign_devices HasFixedPosition m oi (q_devices q1 oi) apps) apps both_orientations"
  have run: "SingleQueryInner env opt app apps cands b =
      (case env_optimize env s cost of
         Sat m \<Rightarrow> do { vs \<leftarrow> ?vs m; apps \<leftarrow> ?as m; Some (SUCCESS, app\<lparr>app_views := vs\<rparr>, apps, q_cands q1) }
       | res \<Rightarrow> Some (failure_status env s res, app, apps, q_cands q1))"
    by (simp add: SingleQueryInner_def q(1) q1(1) v(1) s_def cost_def query_assumptions_def Let_def split: check_result.split)
  have assumed: "(\<forall>oi. assumed oi (q_views q1 oi) m') \<longleftrightarrow> (\<forall>oi. assumed oi (q_views q0 oi) m')" for m'
    using assumed_extended [OF ext(1)] by simp
  have meaning: "satisfies m' s \<longleftrightarrow> query_model (app_views app) opt scs q0 m' \<and> satisfies m' v" for m'
    using q1(2,5) q0(2) query_assumptions_meaning [OF q1(3)] assumed [of m'] by (auto simp: s_def query_model_def)
  then have sat: "satisfies m s" using q(2) v(2) by blast
  show ?thesis
  proof (cases "env_optimize env s cost")
    case Unsat
    with env sat show ?thesis unfolding truthful_def by blast
  next
    case Unknown
    then have "gave_up env m" using sat unfolding gave_up_def by blast
    then show ?thesis using failure_unknown by (simp add: outcome_def run Unknown)
  next
    case (Sat m')
    have "satisfies m' s" using env Sat unfolding truthful_def sound_env_def by blast
    then have m': "query_model (app_views app) opt scs q0 m'" using meaning by blast
    have dec: "env_decimal env 4 (1 / 2) = ''0.5''" using env by (simp add: truthful_def sound_env_def)
    show ?thesis
    proof (cases "?vs m' \<noteq> None \<and> ?as m' \<noteq> None")
      case True
      then show ?thesis by (auto simp: outcome_def run Sat)
    next
      case False
      have om: "orientation_model (app_views app) opt scs q0 oi m'" and am: "assumed oi (q_views q0 oi) m'" for oi
        using m' by (simp_all add: query_model_def)
      have "\<not> numbers_fit n (length apps) m'"
        using query_assigned [OF n dn q0(1,4,5) q1(3) ext om am _ dec] False by auto
      moreover have "SingleQueryInner env opt app apps cands b = None"
        using False by (auto simp: run Sat bind_eq_None_conv)
      ultimately show ?thesis using query_model_plain [OF m'] Sat unfolding outcome_def by auto
    qed
  qed
qed

lemma SingleQueryInner_offers:
  assumes n: "views_ok n (app_views app)" "n \<le> 1000" and dn: "devices_ok n apps"
    and cands: "\<forall>oi. cand_ok (cands oi) (scs oi) n oi"
    and result: "SingleQueryInner env opt app apps cands b = Some (st, app', apps', cands')" and i: "i < n"
  shows "offered (ResetAdding (cands' oi)) (scs oi) i = offered (ResetAdding (cands oi)) (scs oi) i"
proof -
  let ?cands = "\<lambda>oi. ResetAdding (cands oi)"
  have reset: "\<forall>oi. cand_ok (?cands oi) (scs oi) n oi" using cands cand_ok_updates(3) by blast
  obtain q0 q1 q2 where q: "convert_query app apps ?cands = Some q0"
      "AddConstraintsSingleQuery (app_views app) opt q0 = Some q1" "AddBlockingConstraints b q1 = Some q2"
    using result by (auto simp: SingleQueryInner_def bind_Some_iff)
  note q0 = convert_query_result [OF q(1) n dn reset]
  have "\<forall>oi. cand_ok (q_cands q0 oi) (scs oi) n oi" using reset q0(3) by simp
  note fresh = query_fresh_start [OF this q0(3) q0(5)]
  obtain q1' where "AddConstraintsSingleQuery (app_views app) opt q0 = Some q1'" "\<forall>oi. extended_at scs oi q0 q1'"
    using AddConstraintsSingleQuery_result [OF q0(1) fresh, where opt = opt] by blast
  then obtain c where c: "same_candidates (?cands oi) c" "q_cands q1 oi = FinishAdding c"
    using q(2) q0(3) by (auto simp: extended_at_def)
  obtain t where t: "q2 = q1\<lparr>q_assertions := q_assertions q1 @ t\<rparr>" using AddBlockingConstraints_Some [OF q(3)] by blast
  have "cands' = q_cands q2"
    using result q by (auto simp: SingleQueryInner_def bind_Some_iff Let_def split: check_result.splits)
  then have "cands' oi = FinishAdding c" by (simp add: t c(2))
  moreover have "cand_ok (?cands oi) (scs oi) n oi" using reset by blast
  moreover have "constraints_added (?cands oi) ! i = 0" using cands i by (simp add: cand_ok_def ResetAdding_def)
  ultimately show ?thesis using offered_again [OF c(1)] i by (simp add: cand_ok_def)
qed

lemma SynthesizeSingleQuery_outcome:
  assumes env: "truthful env" and n: "views_ok n (app_views app)" "n \<le> 1000" and dn: "devices_ok n apps"
    and cands: "both (start_candidates scs (app_views app)) = Some cands" "\<forall>oi. cand_ok (cands oi) (scs oi) n oi"
      "\<forall>oi. \<forall>i < n. constraints_added (cands oi) ! i = 0"
    and q: "convert_query app apps cands = Some q0" "query_model (app_views app) opt scs q0 m"
    and b: "blocking_model n (length apps) b m"
  shows "outcome env n scs app apps q0 m (SynthesizeSingleQuery env opt scs app apps b)"
proof -
  note q0 = convert_query_result [OF q(1) n dn cands(2)]
  have fresh: "query_fresh n q0" using cands(3) q0(3,5) by (simp add: query_fresh_def)
  obtain q1 t where q1: "AddConstraintsSingleQuery (app_views app) False q0 = Some q1" "q_assertions q1 = q_assertions q0 @ t"
    "query_ok (app_views app) n scs q1" "\<forall>oi. extended_at scs oi q0 q1"
    "\<forall>m. satisfies m t \<longleftrightarrow> (\<forall>oi. orientation_model (app_views app) False scs q0 oi m)"
    using AddConstraintsSingleQuery_result [OF q0(1) fresh, where opt = False] by blast
  have ext: "views_extended (q_views q0 oi) (q_views q1 oi)
        (\<lambda>i. if i = 0 then [] else map (attr_name oi) (offered (q_cands q0 oi) (scs oi) i))" for oi
    using q1(4) by (simp add: extended_at_def)
  have "\<forall>oi. length (q_devices q1 oi) = length apps" using q1(4) q0(4) by (simp add: query_intervals_def extended_at_def)
  from blocking_model_satisfies [OF q1(3) this b] obtain v where
    v: "AddBlockingConstraints b q1 = Some (q1\<lparr>q_assertions := q_assertions q1 @ v\<rparr>)" "satisfies m v" by blast
  let ?q2 = "q1\<lparr>q_assertions := q_assertions q1 @ v\<rparr>"
  have sat: "satisfies m (q_assertions ?q2 @ query_assumptions ?q2)"
    using q1(2,5) query_model_plain [OF q(2)] q0(2) query_assumptions_meaning [OF q1(3)] assumed_extended [OF ext] v(2)
    by (simp add: query_model_def query_assumptions_def)
  have found: "GetSatConstraintsSingleQuery env app apps cands b =
      map_option (\<lambda>r. (fst r, q_cands (snd r))) (sat_loop env (app_views app) 100 ?q2)"
    by (cases "sat_loop env (app_views app) 100 ?q2") (simp_all add: GetSatConstraintsSingleQuery_def q(1) q1(1) v(1))
  show ?thesis
  proof (cases "env_check env (q_assertions ?q2) (query_assumptions ?q2)")
    case Unsat
    with env sat show ?thesis unfolding truthful_def by blast
  next
    case Unknown
    have "sat_loop env (app_views app) 100 ?q2 = Some (failure_status env (q_assertions ?q2) Unknown, ?q2)"
      by (simp only: numeral_eq_Suc sat_loop.simps Unknown check_result.case)
    moreover have "failure_status env (q_assertions ?q2) Unknown \<noteq> SUCCESS" using failure_unknown by (metis empty_iff insert_iff status.distinct)
    moreover have "gave_up env m" using Unknown sat unfolding gave_up_def by blast
    ultimately show ?thesis
      using failure_unknown by (simp add: SynthesizeSingleQuery_def cands(1) found outcome_def)
  next
    case (Sat m0)
    have "sat_loop env (app_views app) 100 ?q2 = Some (SUCCESS, ?q2)"
      by (simp only: numeral_eq_Suc sat_loop.simps Sat check_result.case)
    then have first: "GetSatConstraintsSingleQuery env app apps cands b = Some (SUCCESS, q_cands q1)" by (simp add: found)
    have c1: "\<forall>oi. cand_ok (q_cands q1 oi) (scs oi) n oi" using q1(3) by (simp add: query_ok_def)
    have lens: "length (q_views q0 oi) = n" "k < length (q_devices q0 oi) \<Longrightarrow> length (q_devices q0 oi ! k) = n" for oi k
      using q0(1) by (simp_all add: query_ok_def)
    have again: "query_model (app_views app) opt' scs q' m' \<longleftrightarrow> query_model (app_views app) opt' scs q0 m'"
      if q': "convert_query app apps (\<lambda>oi. ResetAdding (cs oi)) = Some q'"
        and offers: "\<And>oi i. i < n \<Longrightarrow> offered (ResetAdding (cs oi)) (scs oi) i = offered (cands oi) (scs oi) i"
      for cs q' opt' m'
    proof -
      have same: "q_views q' = q_views q0" "q_devices q' = q_devices q0" "q_cands q' = (\<lambda>oi. ResetAdding (cs oi))"
        using q(1) q' by (auto simp: convert_query_def bind_Some_iff)
      have "offered (q_cands q' oi) (scs oi) i = offered (q_cands q0 oi) (scs oi) i" if "i < n" for oi i
        using offers [OF that] by (simp add: same(3) q0(3))
      then show ?thesis
        using query_model_again [of "app_views app" opt' scs q0 m' q' n] query_model_again [of "app_views app" opt' scs q' m' q0 n]
          same(1,2) lens by auto
    qed
    have offers1: "offered (ResetAdding (q_cands q1 oi)) (scs oi) i = offered (cands oi) (scs oi) i" if "i < n" for oi i
    proof -
      obtain c where c: "same_candidates (q_cands q0 oi) c" "q_cands q1 oi = FinishAdding c"
        using q1(4) by (auto simp: extended_at_def)
      have "cand_ok (q_cands q0 oi) (scs oi) n oi" "constraints_added (q_cands q0 oi) ! i = 0"
        using cands(2,3) q0(3) that by simp_all
      then show ?thesis using offered_again [OF c(1)] that by (simp add: c(2) cand_ok_def q0(3))
    qed
    obtain q0' where q0': "convert_query app apps (\<lambda>oi. ResetAdding (q_cands q1 oi)) = Some q0'"
      using convert_query_total [OF n dn] by blast
    note same1 = again [OF q0' offers1]
    let ?inner = "SingleQueryInner env opt app apps (q_cands q1) b"
    have o1: "outcome env n scs app apps q0 m (map_option (\<lambda>r. (fst r, fst (snd r), fst (snd (snd r)))) ?inner)"
      by (rule outcome_query [OF SingleQueryInner_outcome [OF env n dn c1 q0' _ b]]) (use same1 q(2) in simp_all)
    show ?thesis
    proof (cases "opt \<and> (\<exists>r. ?inner = Some r \<and> fst r \<noteq> SUCCESS)")
      case False
      then have "SynthesizeSingleQuery env opt scs app apps b = map_option (\<lambda>r. (fst r, fst (snd r), fst (snd (snd r)))) ?inner"
        by (cases ?inner) (auto simp: SynthesizeSingleQuery_def cands(1) first)
      with o1 show ?thesis by simp
    next
      case True
      then obtain st a as cs where inner: "?inner = Some (st, a, as, cs)" "st \<noteq> SUCCESS" by (metis prod_cases4 fst_conv)
      have c2: "\<forall>oi. cand_ok (cs oi) (scs oi) n oi" by (rule SingleQueryInner_cands [OF n dn c1 inner(1)])
      have offers2: "offered (ResetAdding (cs oi)) (scs oi) i = offered (cands oi) (scs oi) i" if "i < n" for oi i
        using SingleQueryInner_offers [OF n dn c1 inner(1) that] offers1 [OF that] by simp
      obtain q0'' where q0'': "convert_query app apps (\<lambda>oi. ResetAdding (cs oi)) = Some q0''"
        using convert_query_total [OF n dn] by blast
      note same2 = again [OF q0'' offers2]
      have "SynthesizeSingleQuery env opt scs app apps b =
          map_option (\<lambda>r. (fst r, fst (snd r), fst (snd (snd r)))) (SingleQueryInner env False app apps cs b)"
        using True inner by (cases "SingleQueryInner env False app apps cs b") (simp_all add: SynthesizeSingleQuery_def cands(1) first)
      moreover have "outcome env n scs app apps q0 m
          (map_option (\<lambda>r. (fst r, fst (snd r), fst (snd (snd r)))) (SingleQueryInner env False app apps cs b))"
        by (rule outcome_query [OF SingleQueryInner_outcome [OF env n dn c2 q0'' _ b]])
          (use same2 query_model_plain [OF q(2)] in simp_all)
      ultimately show ?thesis by simp
    qed
  qed
qed

text \<open>A solver that answers with a fitting model leads to a success.\<close>

lemma SynthesizeSingleQuery_success:
  assumes env: "truthful env" "\<not> gave_up env m"
      "\<And>s cost m'. env_optimize env s cost = Sat m' \<Longrightarrow> numbers_fit n (length apps) m'"
    and n: "views_ok n (app_views app)" "n \<le> 1000" and dn: "devices_ok n apps"
    and cands: "both (start_candidates scs (app_views app)) = Some cands" "\<forall>oi. cand_ok (cands oi) (scs oi) n oi"
      "\<forall>oi. \<forall>i < n. constraints_added (cands oi) ! i = 0"
    and q: "convert_query app apps cands = Some q0" "query_model (app_views app) opt scs q0 m"
    and b: "blocking_model n (length apps) b m"
  shows "\<exists>app' apps'. SynthesizeSingleQuery env opt scs app apps b = Some (SUCCESS, app', apps')"
  using SynthesizeSingleQuery_outcome [OF env(1) n dn cands q b] env(2,3) unfolding outcome_def by blast

end
