(* ===== verification/Query_Properties.thy ===== *)
theory Query_Properties
  imports Query_Solution
begin

text \<open>
  The properties of the synthesis in one query, and a small app with one device on which they are
  shown to apply: a solver that knows one model answers with it.
\<close>

section \<open>A sample query\<close>

definition pair_app :: app where
  "pair_app =
     \<lparr>seq_id_to_pos = [0, 1], app_resizable = [False, False],
      app_views = [(View_make 0 0 100 200 ''root'' 0 None)\<lparr>view_pos := 0\<rparr>,
        (View_make 10 20 50 40 ''A'' 1 None)\<lparr>view_pos := 1\<rparr>]\<rparr>"

definition pair_device :: app where
  "pair_device =
     \<lparr>seq_id_to_pos = [0, 1], app_resizable = [False, False],
      app_views = [(View_make 0 0 120 240 ''root'' 0 None)\<lparr>view_pos := 0\<rparr>,
        (View_make (-1) (-1) (-1) (-1) ''A'' 1 None)\<lparr>view_pos := 1\<rparr>]\<rparr>"

definition pair_model :: z3_model where
  "pair_model =
     \<lparr>int_interp = (\<lambda>s. case map_of
        [(''end_0_0'', 100), (''start_1_0'', 10), (''end_1_0'', 50),
         (''end_1000_0'', 200), (''start_1001_0'', 20), (''end_1001_0'', 40),
         (''end_0_1'', 120), (''start_1_1'', 10), (''end_1_1'', 50),
         (''end_1000_1'', 240), (''start_1001_1'', 20), (''end_1001_1'', 40),
         (''mstart_1'', 10), (''mstart_1001'', 20), (''anchor_1'', 1), (''anchor_1001'', 1)] s of Some i \<Rightarrow> i | None \<Rightarrow> 0),
      real_interp = (\<lambda>s. 1 / 2),
      bool_interp = (\<lambda>s. s \<in> set [''L2L_2_0_1_0'', ''T2T_2_1_1_0'', ''satisfied_1_0'', ''satisfied_1001_0''])\<rparr>"

definition pair_env :: smt_env where
  "pair_env =
     \<lparr>env_check = (\<lambda>s t. if satisfies pair_model (s @ t) then Sat pair_model else Unknown),
      env_core = (\<lambda>s t. []),
      env_optimize = (\<lambda>s cost. if satisfies pair_model s then Sat pair_model else Unknown),
      env_late = (\<lambda>s. False), env_decimal = (\<lambda>k r. ''0.5'')\<rparr>"
definition pair_offers :: "orientation \<Rightarrow> attribute list" where
  "pair_offers oi =
     (let h = oi = HORIZONTAL;
          mk = (\<lambda>t s p q j. \<lparr>attr_type = t, attr_view_size = s, value_primary = p, value_secondary = q, attr_src = 1,
            tgt_primary = 0, tgt_secondary = j, attr_prob = 0, attr_bias = 1 / 2\<rparr>) in
      if h then [mk L2L FIXED 10 0 None, mk R2R FIXED 0 50 None, mk L2LxR2R FIXED 0 40 (Some 0),
        mk L2LxR2R MATCH_CONSTRAINT 10 50 (Some 0)]
      else [mk T2T FIXED 20 0 None, mk B2B FIXED 0 160 None, mk T2TxB2B FIXED 0 140 (Some 0),
        mk T2TxB2B MATCH_CONSTRAINT 20 160 (Some 0)])"

lemma pair_offered:
  "AttrScorer (\<lambda>vs a. Some 0) (app_views pair_app) oi \<bind>
     (\<lambda>sc. start_candidates (\<lambda>_. sc) (app_views pair_app) oi \<bind> (\<lambda>c. Some (offered c sc 1))) = Some (pair_offers oi)"
  by (induction oi) code_simp+

lemma pair_selects:
  "map (\<lambda>a. bool_interp pair_model (attr_name oi a)) (pair_offers oi) = [True, False, False, False]"
  by (induction oi) code_simp+

lemma pair_positions:
  "model_positions pair_model HORIZONTAL 0 0 = (0, 100)" "model_positions pair_model HORIZONTAL 0 1 = (10, 50)"
  "model_positions pair_model HORIZONTAL 1 0 = (0, 120)" "model_positions pair_model HORIZONTAL 1 1 = (10, 50)"
  "model_positions pair_model VERTICAL 0 0 = (0, 200)" "model_positions pair_model VERTICAL 0 1 = (20, 40)"
  "model_positions pair_model VERTICAL 1 0 = (0, 240)" "model_positions pair_model VERTICAL 1 1 = (20, 40)"
  by code_simp+

lemma pair_margins:
  "int_interp pair_model (name1 ''mstart_'' (unique_id_value 0 HORIZONTAL)) = 0"
  "int_interp pair_model (name1 ''mstart_'' (unique_id_value 1 HORIZONTAL)) = 10"
  "int_interp pair_model (name1 ''mstart_'' (unique_id_value 0 VERTICAL)) = 0"
  "int_interp pair_model (name1 ''mstart_'' (unique_id_value 1 VERTICAL)) = 20"
  "int_interp pair_model (name1 ''mend_'' (unique_id_value i oi)) = 0"
  "real_interp pair_model s = 1 / 2"
  by (code_simp, code_simp, code_simp, code_simp) (simp_all add: pair_model_def name1_def)

lemma pair_anchors:
  "model_anchor pair_model HORIZONTAL 0 = 0" "model_anchor pair_model HORIZONTAL 1 = 1"
  "model_anchor pair_model VERTICAL 0 = 0" "model_anchor pair_model VERTICAL 1 = 1"
  "bool_interp pair_model (satisfied_const HORIZONTAL 1 0)" "bool_interp pair_model (satisfied_const VERTICAL 1 0)"
  by code_simp+

lemmas pair_facts = pair_positions pair_margins pair_anchors

lemma pair_first: "hd (pair_offers oi) = \<lparr>attr_type = (if oi = HORIZONTAL then L2L else T2T), attr_view_size = FIXED,
   value_primary = (if oi = HORIZONTAL then 10 else 20), value_secondary = 0, attr_src = 1,
            tgt_primary = 0, tgt_secondary = None, attr_prob = 0, attr_bias = 1 / 2\<rparr>"
  by (simp add: pair_offers_def Let_def)

lemma pair_clauses:
  "candidate_holds pair_model oi 0 (hd (pair_offers oi))" "anchor_follows pair_model oi (hd (pair_offers oi))"
  "candidate_holds pair_model oi 1 (hd (pair_offers oi))"
  "size_kept (app_views pair_app) oi (model_positions pair_model oi 1) (hd (pair_offers oi))"
  by (cases oi; simp del: One_nat_def add: pair_first candidate_holds_def placed_def side_conditions_def
      anchor_follows_def size_kept_def model_attr_def anchor_pos_def to_start_def attr_targets_def view_interval_def
      pair_app_def View_make_def Let_def pair_facts)+

lemma pair_reference:
  assumes "i < 2"
  shows "0 \<le> int_interp pair_model (name1 ''mstart_'' (unique_id_value (int i) oi))"
      "0 \<le> int_interp pair_model (name1 ''mend_'' (unique_id_value (int i) oi))"
      "model_positions pair_model oi 0 i = view_interval (app_views pair_app) oi i"
      "if i = 0 then model_anchor pair_model oi i = 0 else 0 < model_anchor pair_model oi i"
      "margins_small pair_model oi i"
proof -
  have "i = 0 \<or> i = 1" using assms by linarith
  then show "0 \<le> int_interp pair_model (name1 ''mstart_'' (unique_id_value (int i) oi))"
      "0 \<le> int_interp pair_model (name1 ''mend_'' (unique_id_value (int i) oi))"
      "model_positions pair_model oi 0 i = view_interval (app_views pair_app) oi i"
      "if i = 0 then model_anchor pair_model oi i = 0 else 0 < model_anchor pair_model oi i"
      "margins_small pair_model oi i"
    by (cases oi; auto simp del: One_nat_def simp: pair_facts margins_small_def view_interval_def pair_app_def View_make_def)+
qed

lemma pair_numbers: "numbers_fit 2 1 pair_model"
proof -
  have "int32 (fst (model_positions pair_model oi (int d) i)) \<and> int32 (snd (model_positions pair_model oi (int d) i))"
    if "i < 2" "d \<le> 1" for oi i d
  proof -
    have "i = 0 \<or> i = 1" "d = 0 \<or> d = 1" using that by linarith+
    then show ?thesis by (cases oi; auto simp del: One_nat_def simp: pair_facts int32_def)
  qed
  then show ?thesis using pair_reference(5) by (simp add: numbers_fit_def)
qed

lemma pair_plain:
  "blank_app pair_app" "model_answers (\<lambda>vs a. Some 0) (app_views pair_app)"
  "\<forall>oi. \<forall>i < length (app_views pair_app). view_view_size (app_views pair_app ! i) oi = None"
  "length (app_views pair_app) = 2" "devices_ok 2 [pair_device]" "views_ok 2 (app_views pair_app)"
  by (auto simp: blank_app_def synth_ready_def model_answers_def pair_app_def pair_device_def View_make_def
      is_content_frame_def view_interval_def devices_ok_def views_ok_def nth_Cons split: nat.splits)


lemma pair_candidates:
  obtains scs cands q where "both (AttrScorer (\<lambda>vs a. Some 0) (app_views pair_app)) = Some scs"
    "both (start_candidates scs (app_views pair_app)) = Some cands" "\<forall>oi. cand_ok (cands oi) (scs oi) 2 oi"
    "\<forall>oi. \<forall>i < 2. constraints_added (cands oi) ! i = 0"
    "convert_query pair_app [pair_device] cands = Some q" "query_model (app_views pair_app) False scs q pair_model"
proof -
  obtain scs cands where c: "both (AttrScorer (\<lambda>vs a. Some 0) (app_views pair_app)) = Some scs"
    "both (start_candidates scs (app_views pair_app)) = Some cands" "\<forall>oi. cand_ok (cands oi) (scs oi) 2 oi"
    "\<forall>oi. \<forall>i < 2. constraints_added (cands oi) ! i = 0"
    using start_candidates_result [OF pair_plain(1,2) _ pair_plain(3)] pair_plain(4) by auto
  obtain q where q: "convert_query pair_app [pair_device] cands = Some q"
    using convert_query_total [OF pair_plain(6) _ pair_plain(5)] by auto
  note q' = convert_query_result [OF q pair_plain(6) _ pair_plain(5) c(3), simplified]
  have offers: "offered (cands oi) (scs oi) 1 = pair_offers oi" for oi
  proof -
    have "start_candidates scs (app_views pair_app) oi = Some (cands oi)" using c(2) by (simp add: both_Some)
    then have "start_candidates (\<lambda>_. scs oi) (app_views pair_app) oi = Some (cands oi)"
      by (simp add: start_candidates_def)
    with pair_offered [of oi] c(1) show ?thesis by (simp add: both_Some)
  qed
  have iv: "(zv_start (q_views q oi ! i), zv_end (q_views q oi ! i)) = view_interval (app_views pair_app) oi i" if "i < 2" for oi i
    using q'(4) that pair_plain(4) by (simp add: query_intervals_def)
  have dv: "(zv_start (q_devices q oi ! 0 ! i), zv_end (q_devices q oi ! 0 ! i)) = view_interval (app_views pair_device) oi i"
    if "i < 2" for oi i
    using q'(4) that pair_plain(5) by (simp add: query_intervals_def devices_ok_def views_ok_def)
  have lens: "length (q_views q oi) = 2" "length (q_devices q oi) = 1" "length (q_devices q oi ! 0) = 2" for oi
    using q'(1,4) by (simp_all add: query_ok_def query_intervals_def)
  have first: "a = hd (pair_offers oi)" if "a \<in> set (pair_offers oi)" "bool_interp pair_model (attr_name oi a)" for oi a
    using pair_selects [of oi] that by (cases oi) (auto simp: pair_offers_def Let_def)
  have one: "i = 1" if "0 < i" "i < 2" for i :: nat using that by linarith
  have ref: "reference_model False oi (q_views q oi) (offered (q_cands q oi) (scs oi)) pair_model" for oi
  proof -
    have "syn_clause False oi pair_model a" if "a \<in> set (pair_offers oi)" for a
      using first [OF that] pair_clauses(1,2) [of oi] by (auto simp: syn_clause_def)
    moreover have "exactly_one (map (\<lambda>a. bool_interp pair_model (attr_name oi a)) (pair_offers oi))"
      unfolding pair_selects by (simp add: exactly_one_Cons)
    moreover have "offered (q_cands q oi) (scs oi) i = pair_offers oi" if "0 < i" "i < 2" for i
      using offers [of oi] q'(3) one [OF that] by simp
    moreover have "model_positions pair_model oi 0 i = (zv_start (q_views q oi ! i), zv_end (q_views q oi ! i))" if "i < 2" for i
      using pair_reference(3) [OF that] iv [OF that] by simp
    ultimately show ?thesis
      unfolding reference_model_def lens(1) using pair_reference(1,2,4) pair_margins(6) by (intro conjI allI impI; (elim conjE)?; simp)
  qed
  have dev: "device_model (app_views pair_app) oi 1 (q_devices q oi ! 0) (offered (q_cands q oi) (scs oi)) pair_model" for oi
  proof -
    have free: "\<not> zv_HasFixedPosition (q_devices q oi ! 0 ! 1)"
      using dv [of 1 oi] by (auto simp: zv_HasFixedPosition_def view_interval_def pair_device_def View_make_def split: if_splits)
    have root: "model_positions pair_model oi 1 0 = (zv_start (q_devices q oi ! 0 ! 0), zv_end (q_devices q oi ! 0 ! 0))"
      using dv [of 0 oi] by (cases oi) (simp_all add: pair_facts view_interval_def pair_device_def View_make_def)
    show ?thesis
      unfolding device_model_def lens(3)
    proof (intro conjI allI impI)
      fix i assume i: "i < (2 :: nat)" and fixed: "i = 0 \<or> zv_HasFixedPosition (q_devices q oi ! 0 ! i)"
      then have "i = 0" using free one [of i] by (metis gr0I)
      then show "model_positions pair_model oi 1 i = (zv_start (q_devices q oi ! 0 ! i), zv_end (q_devices q oi ! 0 ! i))"
        using root by simp
    next
      fix i a assume "0 < i \<and> i < (2 :: nat) \<and> a \<in> set (offered (q_cands q oi) (scs oi) i)"
      then have "i = 1" "a \<in> set (offered (q_cands q oi) (scs oi) i)" using one by blast+
      then have "a \<in> set (pair_offers oi)" using offers [of oi] q'(3) by simp
      then show "gen_clause (app_views pair_app) oi 1 pair_model a"
        using first pair_clauses(3,4) [of oi] by (auto simp: gen_clause_def)
    qed
  qed
  have "assumed oi (q_views q oi) pair_model" for oi
  proof -
    have "bool_interp pair_model (satisfied_const oi 1 0)" using pair_anchors(5,6) by (cases oi) simp_all
    moreover have "satisfied_id (q_views q oi ! 1) = 0" using q'(6) [of 1 oi] by simp
    moreover have "i = 1" if "0 < i \<and> i < length (q_views q oi)" for i using that lens(1) one by simp
    ultimately show ?thesis unfolding assumed_def by metis
  qed
  then have "query_model (app_views pair_app) False scs q pair_model"
    using ref dev lens(2) by (simp add: query_model_def orientation_model_def)
  with c q that show thesis by blast
qed

lemma pair_env_sound: "sound_env pair_env" "answers_with pair_env pair_model"
  by (simp_all add: sound_env_def answers_with_def pair_env_def)

lemma pair_env_decides: "truthful pair_env" "\<not> gave_up pair_env pair_model"
    "env_optimize pair_env s cost = Sat m \<Longrightarrow> numbers_fit 2 1 m"
  using pair_env_sound(1) pair_numbers by (auto simp: truthful_def gave_up_def pair_env_def split: if_splits)

definition pair_block :: blocking where
  "pair_block = \<lparr>empty_view_indices = [(0, 1)],
     blocking_views = [[(View_make 10 20 50 60 ''A'' 1 None)\<lparr>view_pos := 1\<rparr>]]\<rparr>"

lemma pair_block_model: "blocking_model 2 1 (Some pair_block) pair_model"
proof -
  have "\<not> at_position pair_model ((View_make 10 20 50 60 ''A'' 1 None)\<lparr>view_pos := 1\<rparr>) (0, 1)"
    by (auto simp del: One_nat_def simp: at_position_def pair_facts interval_of_def View_make_def intro!: exI [of _ VERTICAL])
  then show ?thesis by (simp add: blocking_model_def blocking_ok_def pair_block_def)
qed

lemma pair_query:
  assumes "blocking_model 2 1 b pair_model"
  obtains scs cands app' apps' where
    "both (AttrScorer (\<lambda>vs a. Some 0) (app_views pair_app)) = Some scs"
    "SynthesizeSingleQuery pair_env False scs pair_app [pair_device] b = Some (SUCCESS, app', apps')"
proof -
  obtain scs cands q where c: "both (AttrScorer (\<lambda>vs a. Some 0) (app_views pair_app)) = Some scs"
    "both (start_candidates scs (app_views pair_app)) = Some cands" "\<forall>oi. cand_ok (cands oi) (scs oi) 2 oi"
    "\<forall>oi. \<forall>i < 2. constraints_added (cands oi) ! i = 0"
    "convert_query pair_app [pair_device] cands = Some q" "query_model (app_views pair_app) False scs q pair_model"
    by (rule pair_candidates)
  have "(2 :: nat) \<le> 1000" "blocking_model 2 (length [pair_device]) b pair_model" using assms by simp_all
  from SynthesizeSingleQuery_success [OF pair_env_decides(1,2) _ pair_plain(6) this(1) pair_plain(5) c(2-6) this(2)]
  show thesis using c(1) that pair_env_decides(3) by auto
qed

lemma blank_app_views_ok: "blank_app app \<Longrightarrow> views_ok (length (app_views app)) (app_views app)"
  by (simp add: views_ok_def blank_app_def synth_ready_def)

section \<open>The properties\<close>

text \<open>
  C1. When the synthesis in one query reports success for an app without constraints, and the
  models that the solver returns satisfy what it was asked, then in both orientations every view
  has a constraint, the references are acyclic, all constraints hold on the reference screen and
  on every device, views of fixed size keep it, and positions known before are unchanged. A
  constraint fails to hold only as the cut version of one that holds everywhere, with margins of at
  least 10000 that were stored as 0: on screens with places 10000 apart, and for views of fixed size
  that are centered between different anchors.
\<close>

theorem SynthesizeLayoutSingleQuery_solution:
  assumes "sound_env env" "blank_app app" "model_answers model (app_views app)" "length (app_views app) \<le> 1000"
    and "\<forall>oi. \<forall>i < length (app_views app). view_view_size (app_views app ! i) oi = None"
    and "devices_ok (length (app_views app)) apps"
    and "SynthesizeLayoutSingleQuery env opt model app apps = Some (SUCCESS, app', apps')"
  shows "\<forall>oi. solution app apps app' apps' oi"
proof -
  obtain scs cands where c: "both (AttrScorer model (app_views app)) = Some scs"
    "both (start_candidates scs (app_views app)) = Some cands"
    "\<forall>oi. cand_ok (cands oi) (scs oi) (length (app_views app)) oi"
    "\<forall>oi. \<forall>i < length (app_views app). constraints_added (cands oi) ! i = 0"
    using start_candidates_result [OF assms(2-5)] by blast
  have "SynthesizeSingleQuery env opt scs app apps None = Some (SUCCESS, app', apps')"
    using assms(7) c(1) by (simp add: SynthesizeLayoutSingleQuery_def)
  from SynthesizeSingleQuery_result [OF assms(1) blank_app_views_ok [OF assms(2)] assms(4,6) c(2-4) this]
  show ?thesis by (auto simp: query_answer_def)
qed

lemma SynthesizeLayoutSingleQuery_solution_witness:
  "\<exists>app' apps'. SynthesizeLayoutSingleQuery pair_env False (\<lambda>vs a. Some 0) pair_app [pair_device] = Some (SUCCESS, app', apps') \<and>
     solution pair_app [pair_device] app' apps' HORIZONTAL \<and> solution pair_app [pair_device] app' apps' VERTICAL"
proof -
  have "blocking_model 2 1 None pair_model" by (simp add: blocking_model_def)
  then obtain app' apps' where r: "SynthesizeLayoutSingleQuery pair_env False (\<lambda>vs a. Some 0) pair_app [pair_device] = Some (SUCCESS, app', apps')"
    by (rule pair_query) (auto simp: SynthesizeLayoutSingleQuery_def)
  have "length (app_views pair_app) \<le> 1000" "devices_ok (length (app_views pair_app)) [pair_device]"
    using pair_plain(4,5) by simp_all
  from SynthesizeLayoutSingleQuery_solution [OF pair_env_sound(1) pair_plain(1,2) this(1) pair_plain(3) this(2) r] r
  show ?thesis by blast
qed

text \<open>
  C6. With blocking constraints the query never repeats a blocked layout: in every blocked list of
  views some view has moved, on the device and at the position the list names, in one of the two
  orientations.
\<close>

theorem SynthesizeSingleQuery_blocked:
  assumes "sound_env env" "blank_app app" "model_answers model (app_views app)" "length (app_views app) \<le> 1000"
    and "\<forall>oi. \<forall>i < length (app_views app). view_view_size (app_views app ! i) oi = None"
    and "devices_ok (length (app_views app)) apps" "blocking_ok (length (app_views app)) (length apps) b"
    and "both (AttrScorer model (app_views app)) = Some scs"
    and "SynthesizeSingleQuery env opt scs app apps (Some b) = Some (SUCCESS, app', apps')"
  shows "moves_some b apps'"
proof -
  obtain scs' cands where c: "both (AttrScorer model (app_views app)) = Some scs'"
    "both (start_candidates scs' (app_views app)) = Some cands"
    "\<forall>oi. cand_ok (cands oi) (scs' oi) (length (app_views app)) oi"
    "\<forall>oi. \<forall>i < length (app_views app). constraints_added (cands oi) ! i = 0"
    using start_candidates_result [OF assms(2-5)] by blast
  have "SynthesizeSingleQuery env opt scs' app apps (Some b) = Some (SUCCESS, app', apps')"
    using assms(8,9) c(1) by simp
  from SynthesizeSingleQuery_result [OF assms(1) blank_app_views_ok [OF assms(2)] assms(4,6) c(2-4) this] assms(7)
  show ?thesis by (auto simp: query_answer_def)
qed

lemma SynthesizeSingleQuery_blocked_witness:
  "\<exists>scs app' apps'. SynthesizeSingleQuery pair_env False scs pair_app [pair_device] (Some pair_block) = Some (SUCCESS, app', apps') \<and>
     moves_some pair_block apps'"
proof -
  obtain scs app' apps' where r: "both (AttrScorer (\<lambda>vs a. Some 0) (app_views pair_app)) = Some scs"
    "SynthesizeSingleQuery pair_env False scs pair_app [pair_device] (Some pair_block) = Some (SUCCESS, app', apps')"
    by (rule pair_query [OF pair_block_model])
  have "length (app_views pair_app) \<le> 1000" "devices_ok (length (app_views pair_app)) [pair_device]"
    "blocking_ok (length (app_views pair_app)) (length [pair_device]) pair_block"
    using pair_plain(4,5) pair_block_model by (simp_all add: blocking_model_def)
  from SynthesizeSingleQuery_blocked [OF pair_env_sound(1) pair_plain(1,2) this(1) pair_plain(3) this(2,3) r] r(2)
  show ?thesis by blast
qed

text \<open>
  C5. The synthesis in one query finds what there is: when the candidate constraints offered first,
  the positions of the screen and of the devices and the blocking constraints have a model, and the
  solver is right when it answers \<open>sat\<close> or \<open>unsat\<close>, the query never ends as unsatisfiable. It reports
  success, unless the solver gave up on a query that this model satisfies (the status is unknown or
  timeout and nothing was changed), or answered with a model of the constraints whose numbers do not
  fit the integers that they are read into, which ends the program.
\<close>

theorem SynthesizeSingleQuery_finds:
  assumes "truthful env" "blank_app app" "model_answers model (app_views app)" "length (app_views app) \<le> 1000"
    and "\<forall>oi. \<forall>i < length (app_views app). view_view_size (app_views app ! i) oi = None"
    and "devices_ok (length (app_views app)) apps" "blocking_model (length (app_views app)) (length apps) b m"
    and "both (AttrScorer model (app_views app)) = Some scs" "both (start_candidates scs (app_views app)) = Some cands"
    and "convert_query app apps cands = Some q" "query_model (app_views app) opt scs q m"
  shows "(\<exists>app' apps'. SynthesizeSingleQuery env opt scs app apps b = Some (SUCCESS, app', apps')) \<or>
    (\<exists>st. SynthesizeSingleQuery env opt scs app apps b = Some (st, app, apps) \<and> st \<in> {UNKNOWN, TIMEOUT} \<and> gave_up env m) \<or>
    SynthesizeSingleQuery env opt scs app apps b = None \<and>
      (\<exists>s cost m'. env_optimize env s cost = Sat m' \<and> query_model (app_views app) False scs q m' \<and>
         \<not> numbers_fit (length (app_views app)) (length apps) m')"
proof -
  obtain scs' cands' where c: "both (AttrScorer model (app_views app)) = Some scs'"
    "both (start_candidates scs' (app_views app)) = Some cands'"
    "\<forall>oi. cand_ok (cands' oi) (scs' oi) (length (app_views app)) oi"
    "\<forall>oi. \<forall>i < length (app_views app). constraints_added (cands' oi) ! i = 0"
    using start_candidates_result [OF assms(2-5)] by blast
  then have "scs' = scs" "cands' = cands" using assms(8,9) by auto
  with c have "\<forall>oi. cand_ok (cands oi) (scs oi) (length (app_views app)) oi"
    "\<forall>oi. \<forall>i < length (app_views app). constraints_added (cands oi) ! i = 0" by simp_all
  from SynthesizeSingleQuery_outcome [OF assms(1) blank_app_views_ok [OF assms(2)] assms(4,6,9) this assms(10,11,7)]
  show ?thesis unfolding outcome_def .
qed

lemma SynthesizeSingleQuery_finds_witness:
  "\<exists>scs app' apps'. SynthesizeSingleQuery pair_env False scs pair_app [pair_device] (Some pair_block) = Some (SUCCESS, app', apps')"
proof -
  obtain scs cands q where c: "both (AttrScorer (\<lambda>vs a. Some 0) (app_views pair_app)) = Some scs"
    "both (start_candidates scs (app_views pair_app)) = Some cands" "\<forall>oi. cand_ok (cands oi) (scs oi) 2 oi"
    "\<forall>oi. \<forall>i < 2. constraints_added (cands oi) ! i = 0"
    "convert_query pair_app [pair_device] cands = Some q" "query_model (app_views pair_app) False scs q pair_model"
    by (rule pair_candidates)
  have n: "length (app_views pair_app) = 2" "length [pair_device] = 1" using pair_plain(4) by simp_all
  have "length (app_views pair_app) \<le> 1000" "devices_ok (length (app_views pair_app)) [pair_device]"
    "blocking_model (length (app_views pair_app)) (length [pair_device]) (Some pair_block) pair_model"
    using pair_plain(4,5) pair_block_model by simp_all
  from SynthesizeSingleQuery_finds [OF pair_env_decides(1) pair_plain(1,2) this(1) pair_plain(3) this(2,3) c(1,2,5,6)]
  show ?thesis using pair_env_decides(2,3) unfolding n by blast
qed

text \<open>
  C9. The search for satisfiable candidates returns a status whatever the solver answers: no
  \<^verbatim>\<open>CHECK\<close> fails and the number of rounds is bounded.
\<close>

theorem GetSatConstraintsSingleQuery_returns:
  assumes "blank_app app" "model_answers model (app_views app)" "length (app_views app) \<le> 1000"
    and "\<forall>oi. \<forall>i < length (app_views app). view_view_size (app_views app ! i) oi = None"
    and "devices_ok (length (app_views app)) apps"
    and "both (AttrScorer model (app_views app)) = Some scs" "both (start_candidates scs (app_views app)) = Some cands"
  shows "\<exists>status cands'. GetSatConstraintsSingleQuery env app apps cands None = Some (status, cands')"
proof -
  obtain scs' cands' where c: "both (AttrScorer model (app_views app)) = Some scs'"
    "both (start_candidates scs' (app_views app)) = Some cands'"
    "\<forall>oi. cand_ok (cands' oi) (scs' oi) (length (app_views app)) oi"
    "\<forall>oi. \<forall>i < length (app_views app). constraints_added (cands' oi) ! i = 0"
    using start_candidates_result [OF assms(1-4)] by blast
  have same: "scs' = scs" "cands' = cands" using c(1,2) assms(6,7) by auto
  have "synth_ready (app_views app) HORIZONTAL" using assms(1) by (simp add: blank_app_def)
  then have pos: "views_ok (length (app_views app)) (app_views app)" by (simp add: views_ok_def synth_ready_def)
  show ?thesis
    using GetSatConstraintsSingleQuery_result [OF pos assms(3,5) c(3,4), of None env]
    by (auto simp: same AddBlockingConstraints_def)
qed

lemma GetSatConstraintsSingleQuery_returns_witness:
  "\<exists>scs cands status cands'. both (start_candidates scs (app_views pair_app)) = Some cands \<and>
     GetSatConstraintsSingleQuery (pair_env\<lparr>env_check := \<lambda>s t. Unsat\<rparr>) pair_app [pair_device] cands None = Some (status, cands')"
proof -
  obtain scs cands q where c: "both (AttrScorer (\<lambda>vs a. Some 0) (app_views pair_app)) = Some scs"
    "both (start_candidates scs (app_views pair_app)) = Some cands" by (rule pair_candidates)
  have "length (app_views pair_app) \<le> 1000" "devices_ok (length (app_views pair_app)) [pair_device]"
    using pair_plain(4,5) by simp_all
  from GetSatConstraintsSingleQuery_returns [OF pair_plain(1,2) this(1) pair_plain(3) this(2) c] c(2) show ?thesis by blast
qed

text \<open>
  Large margins are dropped before they are compared: a centered view of fixed size keeps only
  the difference of its margins, but when the first margin is 10000 or more and the second one is
  smaller, \<^verbatim>\<open>GetMargins\<close> reads the first as 0, so that the stored pair is not the difference.
\<close>

theorem GetMargins_cuts:
  assumes "made_view oi d i z" "attribute_ok n i oi a" "\<not> IsRelationalAnchor (attr_type a)"
    and "value_primary (model_attr m oi a) = p" "value_secondary (model_attr m oi a) = q"
    and "10000 \<le> p" "p < 2 ^ 63" "0 \<le> q" "q < 10000"
  shows "GetMargins m z (attr_data oi a) = Some (0, q) \<and> AdjustMargins (0, q) = (0, q) \<and> AdjustMargins (p, q) = (p - q, 0)"
proof -
  have src: "attr_src a = i" and t: "attr_type a \<noteq> LAST" using assms(2) by (auto simp: attribute_ok_def)
  obtain ts te where sp: "SplitAnchor (attr_type a) = Some (ts, te)" "ts \<noteq> LAST" "te \<noteq> LAST"
    using assms(3) t by (cases "attr_type a") auto
  have "int_interp m (name1 ''mstart_'' (unique_id_value (int i) oi)) = p"
    "int_interp m (name1 ''mend_'' (unique_id_value (int i) oi)) = q"
    using assms(4,5) src by (simp_all add: model_attr_def Let_def)
  then have "margin_value m ts (margin_start_v z) = Some 0" "margin_value m te (margin_end_v z) = Some q"
    using assms(1,6-9) sp(2,3)
    by (simp_all add: made_view_def margin_value_def get_numeral_int64_def get_numeral_int_def int32_def)
  then show ?thesis using sp(1) assms(6,8,9) by (simp add: GetMargins_def attr_data_def AdjustMargins_def)
qed

definition wide_model :: z3_model where
  "wide_model = pair_model\<lparr>int_interp := (\<lambda>s. if s = ''mstart_1'' then 10010 else if s = ''mend_1'' then 10 else 0)\<rparr>"

lemma GetMargins_cuts_witness:
  "\<exists>z. Z3View 1 HORIZONTAL 0 10 50 = Some z \<and>
     GetMargins wide_model z (attr_data HORIZONTAL (pair_offers HORIZONTAL ! 2)) = Some (0, 10) \<and>
     AdjustMargins (0, 10) = (0, 10) \<and> AdjustMargins (10010, 10) = (10000, 0)"
proof -
  obtain z where z: "Z3View 1 HORIZONTAL 0 10 50 = Some z" by (simp add: Z3View_def unique_id_def)
  have "made_view HORIZONTAL 0 1 z" using Z3View_Some [OF z] by (simp add: made_view_def)
  moreover have "attribute_ok 2 1 HORIZONTAL (pair_offers HORIZONTAL ! 2)"
    by (simp add: attribute_ok_def pair_offers_def Let_def)
  moreover have "value_primary (model_attr wide_model HORIZONTAL (pair_offers HORIZONTAL ! 2)) = 10010"
    "value_secondary (model_attr wide_model HORIZONTAL (pair_offers HORIZONTAL ! 2)) = 10"
    by code_simp+
  ultimately show ?thesis
    using GetMargins_cuts [of HORIZONTAL 0 1 z 2 "pair_offers HORIZONTAL ! 2" wide_model 10010 10] z
    by (simp add: pair_offers_def Let_def)
qed

end
