(* ===== verification/All_Constraints.thy ===== *)
theory All_Constraints
  imports Smt_Encoding
begin

text \<open>
  What the three generators of all constraints of \<^verbatim>\<open>FullSynthesis\<close> add for a filter: every
  constant they push onto a view belongs to a well-formed constraint of that view that the filter
  kept, and together with the constant the assertions demand that the constraint holds and that
  the anchors follow it. The invariant is kept by every step, so it holds after each loop.
\<close>

section \<open>The invariant\<close>

definition clause_says :: "orientation \<Rightarrow> int \<Rightarrow> nat \<Rightarrow> nat \<Rightarrow> assertions \<Rightarrow> string \<Rightarrow> bool" where
  "clause_says oi d n i s nm \<longleftrightarrow>
     (\<exists>a. attribute_ok n i oi a \<and> nm = attr_name oi a \<and>
       (IsRelationalAnchor (attr_type a) \<longrightarrow> attr_view_size a = FIXED) \<and>
       (\<forall>m. satisfies m s \<longrightarrow> bool_interp m nm \<longrightarrow> candidate_holds m oi d a \<and> anchor_follows m oi a))"

definition encoded :: "orientation \<Rightarrow> int \<Rightarrow> nat \<Rightarrow> (string \<Rightarrow> bool) \<Rightarrow> assertions \<Rightarrow> enc_state \<Rightarrow> bool" where
  "encoded oi d n kept s0 st \<longleftrightarrow>
     made_views oi d (fst st) \<and> length (fst st) = n \<and> set s0 \<subseteq> set (snd st) \<and>
     (\<forall>i < n. \<forall>nm \<in> set (zv_constraints (fst st ! i)). kept nm \<and> clause_says oi d n i (snd st) nm)"

text \<open>A filter may add assertions; the names it keeps satisfy a condition.\<close>

definition keeping :: "(string \<Rightarrow> bool) \<Rightarrow> name_filter \<Rightarrow> bool" where
  "keeping kept filt \<longleftrightarrow>
     (\<forall>s name src r. filt s name src = Some r \<longrightarrow> set s \<subseteq> set (fst r) \<and> (snd r \<longrightarrow> kept name))"

lemma clause_says_mono: "clause_says oi d n i s nm \<Longrightarrow> set s \<subseteq> set s' \<Longrightarrow> clause_says oi d n i s' nm"
  unfolding clause_says_def using satisfies_subset by (elim exE conjE) (intro exI conjI; blast)

lemma encoded_more: "encoded oi d n kept s0 (zs, s) \<Longrightarrow> set s \<subseteq> set s' \<Longrightarrow> encoded oi d n kept s0 (zs, s')"
  unfolding encoded_def using clause_says_mono by (simp, blast)

section \<open>One constraint\<close>

text \<open>The constraint that an entry of the tables stands for.\<close>

definition entry_attr :: "orientation \<Rightarrow> view_size \<Rightarrow> nat \<Rightarrow> nat \<Rightarrow> nat option \<Rightarrow> encoded_type \<Rightarrow> attribute" where
  "entry_attr oi sz i j k c =
     \<lparr>attr_type = GetType c oi, attr_view_size = sz, value_primary = 0, value_secondary = 0, attr_src = i,
      tgt_primary = j, tgt_secondary = k, attr_prob = 0, attr_bias = 1 / 2\<rparr>"

definition entry_of :: "view_size \<Rightarrow> nat option \<Rightarrow> encoded_type \<Rightarrow> bool" where
  "entry_of sz k c \<longleftrightarrow>
     (k = None \<and> sz = FIXED \<and> c \<in> set RELATIONAL_FIXED_SIZE \<or>
      k \<noteq> None \<and> sz = FIXED \<and> c \<in> set CENTERING_FIXED_SIZE \<or>
      k \<noteq> None \<and> sz = MATCH_CONSTRAINT \<and> c \<in> set CENTERING_MATCH_CONSTRAINT)"

lemma entry_facts:
  assumes "entry_of sz k c" "j < n" "\<And>q. k = Some q \<Longrightarrow> q < n"
  shows "attribute_ok n i oi (entry_attr oi sz i j k c)" "ResolveAttr (entry_attr oi sz i j k c) = Some (snd c)"
    "IsRelationalAnchor (GetType c oi) = (k = None)"
    "IsRelationalAnchor (GetType c oi) \<Longrightarrow> sz = FIXED"
  using assms
  by (cases oi; cases k; auto simp: entry_of_def entry_attr_def attribute_ok_def GetType_def RELATIONAL_FIXED_SIZE_def
      CENTERING_FIXED_SIZE_def CENTERING_MATCH_CONSTRAINT_def ResolveAttr_def fixed_size_constraints_def
      dynamic_size_constraints_def vec_at_int_def IsRelationalAnchor_def)+

lemma name_of_made:
  assumes "made_views oi d zs" "length zs = n" "n \<le> 1000" "attribute_ok n i oi a" "i < n"
  shows "name_of_constraint (zs ! i) (attr_type a) (attr_view_size a) (zs ! tgt_primary a)
      (map_option ((!) zs) (tgt_secondary a)) = Some (attr_name oi a)"
    "holds m (anchor_equation (zs ! i) (zs ! tgt_primary a) (map_option ((!) zs) (tgt_secondary a))) = anchor_follows m oi a"
proof -
  have src: "attr_src a = i" using assms(4) by (simp add: attribute_ok_def)
  note range = ok_range [OF assms(4,5)]
  have made: "made_view oi d j (zs ! j)" if "j < n" for j using assms(1,2) that by (simp add: made_views_def)
  note anchors = anchor_value [OF made]
  from assms(4) have "name_of_constraint (zs ! i) (attr_type a) (attr_view_size a) (zs ! tgt_primary a)
      (map_option ((!) zs) (tgt_secondary a)) = Some (attr_name oi a) \<and>
    holds m (anchor_equation (zs ! i) (zs ! tgt_primary a) (map_option ((!) zs) (tgt_secondary a))) = anchor_follows m oi a"
  proof (cases rule: ok_targets)
    case relational
    then show ?thesis
      using attr_name_Some(1) [OF assms(4,5,3)] made_view_pos [OF made [OF assms(5)]]
        made_view_pos [OF made [OF range(2)]] src anchors [OF assms(5)] anchors [OF range(2)]
      by (simp add: ConstraintName_data attr_data_def name_of_constraint_def anchor_equation_def anchor_follows_def) linarith
  next
    case (center j)
    then show ?thesis
      using attr_name_Some(1) [OF assms(4,5,3)] made_view_pos [OF made [OF assms(5)]]
        made_view_pos [OF made [OF range(2)]] made_view_pos [OF made [OF center(4)]] src
        anchors [OF assms(5)] anchors [OF range(2)] anchors [OF center(4)]
      by (simp add: ConstraintName_data attr_data_def name_of_constraint_def anchor_equation_def anchor_follows_def) linarith
  qed
  then show "name_of_constraint (zs ! i) (attr_type a) (attr_view_size a) (zs ! tgt_primary a)
      (map_option ((!) zs) (tgt_secondary a)) = Some (attr_name oi a)"
    "holds m (anchor_equation (zs ! i) (zs ! tgt_primary a) (map_option ((!) zs) (tgt_secondary a))) = anchor_follows m oi a"
    by blast+
qed

lemma add_encoded_kept:
  assumes inv: "encoded oi d n kept s0 st" and filt: "keeping kept filt" and n: "n \<le> 1000"
    and entry: "entry_of sz k c" and step: "add_encoded filt oi sz i j k st c = Some st'"
  shows "encoded oi d n kept s0 st'"
proof -
  obtain zs s where st: "st = (zs, s)" by (cases st)
  have zs: "made_views oi d zs" "length zs = n" using inv by (simp_all add: encoded_def st)
  obtain sec name r where step': "i < n" "j < n" "opt_at zs k = Some sec"
      "name_of_constraint (zs ! i) (GetType c oi) sz (zs ! j) sec = Some name" "filt s name (zs ! i) = Some r"
      "(if \<not> snd r then Some (zs, fst r)
        else do { value \<leftarrow> snd c (zs ! i) (zs ! j) sec;
                  Some (zs[i := (zs ! i)\<lparr>zv_constraints := zv_constraints (zs ! i) @ [name]\<rparr>],
                    fst r @ [Implies (BoolConst name) (And value (anchor_equation (zs ! i) (zs ! j) sec))]) }) = Some st'"
    using step zs(2) by (auto simp: add_encoded_def st Let_def bind_Some_iff vec_at_Some)
  have more: "set s \<subseteq> set (fst r)" "snd r \<Longrightarrow> kept name" using filt step'(5) unfolding keeping_def by blast+
  have sec: "sec = map_option ((!) zs) k" "q < n" if "k = Some q" for q
    using step'(3) zs(2) that by (auto simp: opt_at_def vec_at_Some)
  have sec': "sec = map_option ((!) zs) k" using step'(3) sec by (cases k) (auto simp: opt_at_def)
  let ?a = "entry_attr oi sz i j k c"
  have facts: "attribute_ok n i oi ?a" "ResolveAttr ?a = Some (snd c)"
    "IsRelationalAnchor (GetType c oi) = (k = None)" "IsRelationalAnchor (GetType c oi) \<Longrightarrow> sz = FIXED"
    using entry_facts [OF entry step'(2)] sec(2) by blast+
  have fields: "attr_type ?a = GetType c oi" "attr_view_size ?a = sz" "tgt_primary ?a = j" "tgt_secondary ?a = k"
    by (simp_all add: entry_attr_def)
  have name: "name = attr_name oi ?a"
    using name_of_made(1) [OF zs n facts(1) step'(1)] step'(4) by (simp add: fields sec')
  show ?thesis
  proof (cases "snd r")
    case False
    then have "st' = (zs, fst r)" using step'(6) by simp
    then show ?thesis using encoded_more [OF inv [unfolded st] more(1)] by simp
  next
    case True
    have "\<exists>enc e. ResolveAttr ?a = Some enc \<and> enc (zs ! i) (zs ! tgt_primary ?a) (map_option ((!) zs) (tgt_secondary ?a)) = Some e \<and>
      (\<forall>m. holds m e \<longleftrightarrow> candidate_holds m oi d ?a)"
      by (rule encoding_meaning [OF zs(1)]) (use zs(2) facts step'(1) fields in simp_all)
    then obtain e where e: "snd c (zs ! i) (zs ! j) sec = Some e" "\<And>m. holds m e \<longleftrightarrow> candidate_holds m oi d ?a"
      unfolding fields sec' facts(2) by blast
    let ?s = "fst r @ [Implies (BoolConst name) (And e (anchor_equation (zs ! i) (zs ! j) sec))]"
    have st': "st' = (push_name zs i name, ?s)" using step'(6) True e(1) by (simp add: push_name_def)
    have "bool_interp m name \<longrightarrow> candidate_holds m oi d ?a \<and> anchor_follows m oi ?a" if "satisfies m ?s" for m
      using that e(2) [of m] name_of_made(2) [OF zs n facts(1) step'(1), of m] by (simp add: fields sec')
    then have new: "clause_says oi d n i ?s name"
      unfolding clause_says_def using facts name by (intro exI [of _ ?a]) (auto simp: entry_attr_def)
    have "encoded oi d n kept s0 (zs, ?s)" by (rule encoded_more [OF inv [unfolded st]]) (use more(1) in auto)
    then show ?thesis
      unfolding st' encoded_def using new more(2) [OF True] step'(1) zs(2) push_name_facts [of i zs]
      by (auto split: if_splits)
  qed
qed

section \<open>The loops\<close>

lemma AddFixedSizeRelational_kept:
  assumes "encoded oi d n kept s0 st" "keeping kept filt" "n \<le> 1000"
    and "AddFixedSizeRelationalConstraint filt oi i st = Some st'"
  shows "encoded oi d n kept s0 st'"
  using assms(4) unfolding AddFixedSizeRelationalConstraint_def
proof (rule fold_opt_inv [where P = "encoded oi d n kept s0"])
  fix st j st' assume inv: "encoded oi d n kept s0 st"
    and step: "do { src \<leftarrow> vec_at (fst st) i; tgt \<leftarrow> vec_at (fst st) j;
            if same_z3_view src tgt then Some st
            else fold_opt (\<lambda>st c. if zv_pos tgt = 0 \<and> GetType c oi \<in> {T2B, B2T, L2R, R2L} then Some st
                                  else add_encoded filt oi FIXED i j None st c) st RELATIONAL_FIXED_SIZE } = Some st'"
  then obtain src tgt where "(if same_z3_view src tgt then Some st
      else fold_opt (\<lambda>st c. if zv_pos tgt = 0 \<and> GetType c oi \<in> {T2B, B2T, L2R, R2L} then Some st
                                  else add_encoded filt oi FIXED i j None st c) st RELATIONAL_FIXED_SIZE) = Some st'"
    unfolding bind_Some_iff by blast
  note step = this
  show "encoded oi d n kept s0 st'"
  proof (cases "same_z3_view src tgt")
    case False
    show ?thesis using step [unfolded if_not_P [OF False]]
    proof (rule fold_opt_inv [where P = "encoded oi d n kept s0"])
      fix st c st' assume inv: "encoded oi d n kept s0 st" and c: "c \<in> set RELATIONAL_FIXED_SIZE"
        and step: "(if zv_pos tgt = 0 \<and> GetType c oi \<in> {T2B, B2T, L2R, R2L} then Some st
                                  else add_encoded filt oi FIXED i j None st c) = Some st'"
      have "entry_of FIXED None c" using c by (simp add: entry_of_def)
      with step show "encoded oi d n kept s0 st'"
        using add_encoded_kept [OF inv assms(2,3)] inv by (metis option.inject)
    qed (rule inv)
  qed (use inv step in simp)
qed (rule assms(1))

lemma add_centering_kept:
  assumes "encoded oi d n kept s0 st" "keeping kept filt" "n \<le> 1000"
    and entries: "\<forall>c \<in> set cs. \<forall>k. entry_of sz (Some k) c"
    and "add_centering filt oi sz cs i st = Some st'"
  shows "encoded oi d n kept s0 st'"
  using assms(5) unfolding add_centering_def
proof (rule fold_opt_inv [where P = "encoded oi d n kept s0"])
  let ?body = "\<lambda>j st k. do { src \<leftarrow> vec_at (fst st) i; l \<leftarrow> vec_at (fst st) j; r \<leftarrow> vec_at (fst st) k;
            if same_z3_view l src \<or> same_z3_view r src then Some st
            else fold_opt (\<lambda>st c. if centering_excluded (GetType c oi) l r then Some st
                                  else add_encoded filt oi sz i j (Some k) st c) st cs }"
  fix st j st' assume inv: "encoded oi d n kept s0 st" and step: "fold_opt (?body j) st [0..<length (fst st)] = Some st'"
  from step show "encoded oi d n kept s0 st'"
  proof (rule fold_opt_inv [where P = "encoded oi d n kept s0"])
    fix st k st' assume inv: "encoded oi d n kept s0 st" and step: "?body j st k = Some st'"
    then obtain src l r where "(if same_z3_view l src \<or> same_z3_view r src then Some st
        else fold_opt (\<lambda>st c. if centering_excluded (GetType c oi) l r then Some st
                                  else add_encoded filt oi sz i j (Some k) st c) st cs) = Some st'"
      unfolding bind_Some_iff by blast
    note step = this
    show "encoded oi d n kept s0 st'"
    proof (cases "same_z3_view l src \<or> same_z3_view r src")
      case False
      show ?thesis using step [unfolded if_not_P [OF False]]
      proof (rule fold_opt_inv [where P = "encoded oi d n kept s0"])
        fix st c st' assume inv: "encoded oi d n kept s0 st" and c: "c \<in> set cs"
          and step: "(if centering_excluded (GetType c oi) l r then Some st
                                  else add_encoded filt oi sz i j (Some k) st c) = Some st'"
        have "entry_of sz (Some k) c" using entries c by blast
        with step show "encoded oi d n kept s0 st'"
          using add_encoded_kept [OF inv assms(2,3)] inv by (metis option.inject)
      qed (rule inv)
    qed (use inv step in simp)
  qed (rule inv)
qed (rule assms(1))

lemma AddCentering_kept:
  assumes "encoded oi d n kept s0 st" "keeping kept filt" "n \<le> 1000"
  shows "AddFixedSizeCenteringConstraint filt oi i st = Some st' \<Longrightarrow> encoded oi d n kept s0 st'"
    "AddMatchConstraintCenteringConstraint filt oi i st = Some st' \<Longrightarrow> encoded oi d n kept s0 st'"
proof -
  have "\<forall>c \<in> set CENTERING_FIXED_SIZE. \<forall>k. entry_of FIXED (Some k) c"
    "\<forall>c \<in> set CENTERING_MATCH_CONSTRAINT. \<forall>k. entry_of MATCH_CONSTRAINT (Some k) c"
    by (simp_all add: entry_of_def)
  note kept = this [THEN add_centering_kept [OF assms]]
  show "AddFixedSizeCenteringConstraint filt oi i st = Some st' \<Longrightarrow> encoded oi d n kept s0 st'"
    unfolding AddFixedSizeCenteringConstraint_def by (rule kept(1))
  show "AddMatchConstraintCenteringConstraint filt oi i st = Some st' \<Longrightarrow> encoded oi d n kept s0 st'"
    unfolding AddMatchConstraintCenteringConstraint_def by (rule kept(2))
qed

lemma ForEachNonRootView_kept:
  assumes "encoded oi d n kept s0 st" "ForEachNonRootView fn st = Some st'"
    and "\<And>i st st'. encoded oi d n kept s0 st \<Longrightarrow> fn i st = Some st' \<Longrightarrow> encoded oi d n kept s0 st'"
  shows "encoded oi d n kept s0 st'"
  using assms(2) unfolding ForEachNonRootView_def
proof (rule fold_opt_inv [where P = "encoded oi d n kept s0"])
  fix st i st' assume "encoded oi d n kept s0 st"
    "do { v \<leftarrow> vec_at (fst st) i; if zv_pos v = 0 then Some st else fn i st } = Some st'"
  then show "encoded oi d n kept s0 st'" by (auto simp: bind_Some_iff intro: assms(3) split: if_splits)
qed (rule assms(1))

text \<open>The three generators one after the other.\<close>

lemma all_constraints_kept:
  assumes "encoded oi d n kept s0 st" "keeping kept f1" "keeping kept f2" "keeping kept f3" "n \<le> 1000"
    and "do { st1 \<leftarrow> ForEachNonRootView (AddFixedSizeRelationalConstraint f1 oi) st;
              st2 \<leftarrow> ForEachNonRootView (AddFixedSizeCenteringConstraint f2 oi) st1;
              ForEachNonRootView (AddMatchConstraintCenteringConstraint f3 oi) st2 } = Some st'"
  shows "encoded oi d n kept s0 st'"
proof -
  obtain st1 st2 where s: "ForEachNonRootView (AddFixedSizeRelationalConstraint f1 oi) st = Some st1"
    "ForEachNonRootView (AddFixedSizeCenteringConstraint f2 oi) st1 = Some st2"
    "ForEachNonRootView (AddMatchConstraintCenteringConstraint f3 oi) st2 = Some st'"
    using assms(6) by (auto simp: bind_Some_iff)
  have "encoded oi d n kept s0 st1"
    by (rule ForEachNonRootView_kept [OF assms(1) s(1)]) (rule AddFixedSizeRelational_kept [OF _ assms(2,5)])
  then have "encoded oi d n kept s0 st2"
    by (rule ForEachNonRootView_kept [OF _ s(2)]) (rule AddCentering_kept(1) [OF _ assms(3,5)])
  then show ?thesis
    by (rule ForEachNonRootView_kept [OF _ s(3)]) (rule AddCentering_kept(2) [OF _ assms(4,5)])
qed

end
