(* ===== verification/App_Properties.thy ===== *)
theory App_Properties
  imports Query_Solution Prob_Models
begin

text \<open>
  The robustness properties of \<^verbatim>\<open>z3inference.h\<close>: what \<^verbatim>\<open>FullSynthesis\<close> asserts about the layout
  of a further device relative to the reference screen (\<^verbatim>\<open>AssertNotOutOfBounds\<close>,
  \<^verbatim>\<open>AssertKeepsIntersection\<close>, \<^verbatim>\<open>AssertKeepsMargins\<close>, \<^verbatim>\<open>AssertKeepsSizeRatio\<close>,
  \<^verbatim>\<open>AssertKeepsCentering\<close>), the class \<^verbatim>\<open>AppProperties\<close>, which checks the same of two finished
  layouts by solver queries, and the resizing of the reference screen to a device. The lemmas say
  which relation between the two layouts a query decides.
\<close>

section \<open>Resizing a screen\<close>

text \<open>\<^verbatim>\<open>TryResizeView\<close> of \<^verbatim>\<open>z3inference.cpp\<close>: whether and how the content frame follows the device.\<close>

definition follows_device :: "app \<Rightarrow> device \<Rightarrow> orientation \<Rightarrow> bool option" where
  "follows_device ref_app device oi =
     do { r \<leftarrow> IsResizable ref_app oi;
          if r then Some True
          else do { root \<leftarrow> vec_at (app_views ref_app) 0;
                    Some (if oi = HORIZONTAL then dev_width device < rect_width root
                          else dev_height device < rect_height root) } }"

definition TryResizeView :: "app \<Rightarrow> view \<Rightarrow> device \<Rightarrow> device \<Rightarrow> orientation \<Rightarrow> (bool \<times> view) option" where
  "TryResizeView ref_app new_root ref_device device oi =
     do { resized \<leftarrow> follows_device ref_app device oi;
          Some (resized,
                if \<not> resized then new_root
                else if oi = HORIZONTAL
                then new_root\<lparr>xright := xright new_root + (dev_width device - dev_width ref_device)\<rparr>
                else new_root\<lparr>ybottom := ybottom new_root + (dev_height device - dev_height ref_device)\<rparr>) }"

definition blank_view :: "view \<Rightarrow> view" where
  "blank_view v = View_make (- 1) (- 1) (- 1) (- 1) (view_name v) (view_id v) None"

text \<open>The views without positions, except for the content frame.\<close>

definition frame_only :: "(view \<Rightarrow> view) \<Rightarrow> app \<Rightarrow> app" where
  "frame_only f ref = AddViews App_empty (map (\<lambda>v. if is_content_frame v then f v else blank_view v) (app_views ref))"

definition ResizeApp :: "app \<Rightarrow> device \<Rightarrow> device \<Rightarrow> app option" where
  "ResizeApp ref ref_device target_device =
     (let app = frame_only View_fresh ref in
      do { root \<leftarrow> vec_at (app_views app) 0;
           h \<leftarrow> TryResizeView ref root ref_device target_device HORIZONTAL;
           v \<leftarrow> TryResizeView ref (snd h) ref_device target_device VERTICAL;
           Some (app\<lparr>app_views := (app_views app)[0 := snd v]\<rparr>) })"

definition resize_offset :: "int \<Rightarrow> real \<Rightarrow> int" where
  "resize_offset w ratio = (let offset = to_int (real_of_int w * ratio) in offset - offset smod 2)"

definition ResizeApp_ratio :: "app \<Rightarrow> real \<Rightarrow> app option" where
  "ResizeApp_ratio ref ratio =
     do { frame \<leftarrow> vec_at (app_views ref) 0;
          let x = resize_offset (rect_width frame) ratio;
          let y = resize_offset (rect_height frame) ratio;
          Some (frame_only (\<lambda>v. View_make (xleft v) (ytop v) (xright v + x) (ybottom v + y) (view_name v) (view_id v) None) ref) }"

lemma frame_only_views:
  "length (app_views (frame_only f ref)) = length (app_views ref)"
  "i < length (app_views ref) \<Longrightarrow> app_views (frame_only f ref) ! i =
     (if is_content_frame (app_views ref ! i) then f (app_views ref ! i) else blank_view (app_views ref ! i))\<lparr>view_pos := int i\<rparr>"
  by (simp_all add: frame_only_def App_empty_def AddViews_nth)

lemma frame_only_ok: "views_ok n (app_views ref) \<Longrightarrow> views_ok n (app_views (frame_only f ref))"
  by (simp add: views_ok_def frame_only_views)

section \<open>The assertions\<close>

definition out_of_bounds_assertions :: "z3_view \<Rightarrow> z3_view \<Rightarrow> assertions" where
  "out_of_bounds_assertions frame v =
     [NumGe (position_start_v v) (position_start_v frame), NumLe (position_end_v v) (position_end_v frame)]"

definition AssertNotOutOfBounds :: "assertions \<Rightarrow> z3_view list \<Rightarrow> assertions option" where
  "AssertNotOutOfBounds s zs =
     do { root \<leftarrow> vec_at zs 0;
          Some (s @ concat (map (\<lambda>v. if zv_pos v = 0 \<or> zv_HasFixedPosition v then [] else out_of_bounds_assertions root v) zs)) }"

text \<open>The order of two ends is kept, equality included.\<close>

definition keep_order :: "int \<Rightarrow> int \<Rightarrow> z3_num \<Rightarrow> z3_num \<Rightarrow> z3_bool" where
  "keep_order a b x y = (if a = b then NumEq x y else if a < b then NumLt x y else NumLt y x)"

definition both_fixed :: "z3_view \<Rightarrow> z3_view \<Rightarrow> bool" where
  "both_fixed v w \<longleftrightarrow> zv_HasFixedPosition v \<and> zv_HasFixedPosition w"

definition intersections_at :: "view list \<Rightarrow> nat \<Rightarrow> nat \<Rightarrow> nat option" where
  "intersections_at vs i j = do { v \<leftarrow> vec_at vs i; w \<leftarrow> vec_at vs j; Some (NumIntersections v w vs) }"

definition keeps_intersection_pair ::
    "view list \<Rightarrow> z3_view list \<Rightarrow> z3_view list \<Rightarrow> nat \<times> nat \<Rightarrow> assertions option" where
  "keeps_intersection_pair ref_vs zr za p =
     do { src_ref \<leftarrow> vec_at zr (fst p); tgt_ref \<leftarrow> vec_at zr (snd p);
          if both_fixed src_ref tgt_ref then Some []
          else do { src_app \<leftarrow> vec_at za (fst p); tgt_app \<leftarrow> vec_at za (snd p);
                    k \<leftarrow> intersections_at ref_vs (fst p) (snd p);
                    Some (if k > 0 then []
                          else [keep_order (zv_start src_ref) (zv_start tgt_ref) (position_start_v src_app) (position_start_v tgt_app),
                                keep_order (zv_start src_ref) (zv_end tgt_ref) (position_start_v src_app) (position_end_v tgt_app),
                                keep_order (zv_end src_ref) (zv_start tgt_ref) (position_end_v src_app) (position_start_v tgt_app),
                                keep_order (zv_end src_ref) (zv_end tgt_ref) (position_end_v src_app) (position_end_v tgt_app)]) } }"

definition AssertKeepsIntersection ::
    "assertions \<Rightarrow> view list \<Rightarrow> z3_view list \<Rightarrow> z3_view list \<Rightarrow> assertions option" where
  "AssertKeepsIntersection s ref_vs zr za =
     do { CHECK (length zr = length za);
          as \<leftarrow> map_opt (keeps_intersection_pair ref_vs zr za)
                  (concat (map (\<lambda>i. map (Pair i) [Suc i..<length zr]) [1..<length zr]));
          Some (s @ concat as) }"

text \<open>
  The two ends at which a pair of intervals is aligned: the facing ends of disjoint intervals, the
  nearer pair of ends when one contains the other, and \<open>(-1, -1)\<close> otherwise.
\<close>

definition AlignmentPoints :: "int \<Rightarrow> int \<Rightarrow> int \<Rightarrow> int \<Rightarrow> int \<times> int" where
  "AlignmentPoints xl xr yl yr =
     (if xr \<le> yl then (xr, yl)
      else if yr \<le> xl then (xl, yr)
      else if xl \<le> yl \<and> yr \<le> xr then
        (if \<bar>xl - yl\<bar> < \<bar>xr - yr\<bar> then (xl, yl) else (xr, yr))
      else if yl \<le> xl \<and> xr \<le> yr then
        (if \<bar>xl - yl\<bar> < \<bar>xr - yr\<bar> then (xl, yl) else (xr, yr))
      else (- 1, - 1))"

definition kept_margins :: "int list" where
  "kept_margins = [0, 8, 14, 16, 20, 24, 30, 32, 48]"

definition same_distance :: "z3_num \<Rightarrow> z3_num \<Rightarrow> z3_num \<Rightarrow> z3_num \<Rightarrow> z3_bool" where
  "same_distance a b x y = NumEq (NumSub a b) (NumSub x y)"

definition keeps_margins_pair ::
    "view list \<Rightarrow> z3_view list \<Rightarrow> z3_view list \<Rightarrow> nat \<times> nat \<Rightarrow> assertions option" where
  "keeps_margins_pair ref_vs zr za p =
     do { src_ref \<leftarrow> vec_at zr (fst p); tgt_ref \<leftarrow> vec_at zr (snd p);
          if both_fixed src_ref tgt_ref then Some []
          else let points = AlignmentPoints (zv_start src_ref) (zv_end src_ref) (zv_start tgt_ref) (zv_end tgt_ref) in
            if fst points = - 1 \<or> \<bar>fst points - snd points\<bar> \<notin> set kept_margins then Some []
            else do { k \<leftarrow> intersections_at ref_vs (fst p) (snd p);
                      if k > 0 then Some []
                      else do { src_app \<leftarrow> vec_at za (fst p); tgt_app \<leftarrow> vec_at za (snd p);
                                Some [if zv_start src_ref = fst points \<and> zv_start tgt_ref = snd points
                                      then same_distance (position_start_v src_ref) (position_start_v tgt_ref)
                                             (position_start_v src_app) (position_start_v tgt_app)
                                      else if zv_start src_ref = fst points \<and> zv_end tgt_ref = snd points
                                      then same_distance (position_start_v src_ref) (position_end_v tgt_ref)
                                             (position_start_v src_app) (position_end_v tgt_app)
                                      else if zv_end src_ref = fst points \<and> zv_start tgt_ref = snd points
                                      then same_distance (position_end_v src_ref) (position_start_v tgt_ref)
                                             (position_end_v src_app) (position_start_v tgt_app)
                                      else same_distance (position_end_v src_ref) (position_end_v tgt_ref)
                                             (position_end_v src_app) (position_end_v tgt_app)] } } }"

definition AssertKeepsMargins ::
    "assertions \<Rightarrow> view list \<Rightarrow> z3_view list \<Rightarrow> z3_view list \<Rightarrow> assertions option" where
  "AssertKeepsMargins s ref_vs zr za =
     do { CHECK (length zr = length za);
          as \<leftarrow> map_opt (keeps_margins_pair ref_vs zr za)
                  (concat (map (\<lambda>i. map (Pair i) [0..<i]) [1..<length zr]));
          Some (s @ concat as) }"

text \<open>The ratios in the order of the set, the first that fits is kept.\<close>

definition ratios_frac :: "(int \<times> int) list" where
  "ratios_frac = [(1, 1), (3, 4), (4, 3), (9, 16), (16, 9)]"

definition keeps_ratio_view ::
    "view list \<Rightarrow> z3_view list \<Rightarrow> z3_view list \<Rightarrow> view list \<Rightarrow> nat \<Rightarrow> assertions option" where
  "keeps_ratio_view ref_vs zr za app_vs i =
     do { v \<leftarrow> vec_at ref_vs i; z \<leftarrow> vec_at zr i;
          if zv_HasFixedPosition z then Some []
          else (case find (\<lambda>r. rect_width v * fst r = rect_height v * snd r) ratios_frac of
                  None \<Rightarrow> Some []
                | Some r \<Rightarrow>
                    do { h \<leftarrow> vec_at za i; w \<leftarrow> vec_at app_vs i;
                         Some [NumEq (NumMul (NumSub (position_end_v h) (position_start_v h)) (IntVal (fst r)))
                                 (IntVal ((ybottom w - ytop w) * snd r))] }) }"

definition AssertKeepsSizeRatio ::
    "assertions \<Rightarrow> view list \<Rightarrow> z3_view list \<Rightarrow> z3_view list \<Rightarrow> view list \<Rightarrow> assertions option" where
  "AssertKeepsSizeRatio s ref_vs zr za app_vs =
     do { as \<leftarrow> map_opt (keeps_ratio_view ref_vs zr za app_vs) [1..<length zr]; Some (s @ concat as) }"

definition center_sum :: "z3_view \<Rightarrow> int" where
  "center_sum v = zv_start v + zv_end v"

definition center_expr :: "z3_view \<Rightarrow> z3_num" where
  "center_expr v = NumAdd (position_start_v v) (position_end_v v)"

definition keeps_center_frame :: "z3_view list \<Rightarrow> z3_view list \<Rightarrow> nat \<Rightarrow> assertions option" where
  "keeps_center_frame zr za i =
     do { src_ref \<leftarrow> vec_at zr i; src_app \<leftarrow> vec_at za i; root_ref \<leftarrow> vec_at zr 0; root_app \<leftarrow> vec_at za 0;
          Some (if center_sum src_ref = center_sum root_ref then [NumEq (center_expr src_app) (center_expr root_app)] else []) }"

definition keeps_center_single :: "z3_view list \<Rightarrow> z3_view list \<Rightarrow> nat \<Rightarrow> nat \<Rightarrow> assertions option" where
  "keeps_center_single zr za i l =
     do { src_ref \<leftarrow> vec_at zr i; src_app \<leftarrow> vec_at za i; tgt_ref \<leftarrow> vec_at zr l; tgt_app \<leftarrow> vec_at za l;
          Some (if both_fixed src_ref tgt_ref then []
                else if center_sum src_ref = center_sum tgt_ref then [NumEq (center_expr src_app) (center_expr tgt_app)] else []) }"

definition keeps_center_between ::
    "view list \<Rightarrow> z3_view list \<Rightarrow> z3_view list \<Rightarrow> nat \<Rightarrow> nat \<times> nat \<Rightarrow> assertions option" where
  "keeps_center_between vs zr za i p =
     (if i = fst p \<or> i = snd p then Some []
      else do { src_ref \<leftarrow> vec_at zr i; src_app \<leftarrow> vec_at za i;
                l_ref \<leftarrow> vec_at zr (fst p); l_app \<leftarrow> vec_at za (fst p);
                r_ref \<leftarrow> vec_at zr (snd p); r_app \<leftarrow> vec_at za (snd p);
                kl \<leftarrow> intersections_at vs i (fst p);
                kr \<leftarrow> (if kl > 0 then Some 0 else intersections_at vs i (snd p));
                Some (if kl > 0 \<or> kr > 0 then []
                      else if center_sum src_ref = zv_start l_ref + zv_end r_ref
                      then [NumEq (center_expr src_app) (NumAdd (position_start_v l_app) (position_end_v r_app))]
                      else if center_sum src_ref = zv_end l_ref + zv_start r_ref
                      then [NumEq (center_expr src_app) (NumAdd (position_end_v l_app) (position_start_v r_app))]
                      else []) })"

definition keeps_center_view ::
    "view list \<Rightarrow> z3_view list \<Rightarrow> z3_view list \<Rightarrow> nat \<Rightarrow> assertions option" where
  "keeps_center_view vs zr za i =
     do { frame \<leftarrow> keeps_center_frame zr za i;
          single \<leftarrow> map_opt (keeps_center_single zr za i) [Suc i..<length zr];
          between \<leftarrow> map_opt (keeps_center_between vs zr za i)
                       (concat (map (\<lambda>l. map (Pair l) [Suc l..<length zr]) [0..<length zr]));
          Some (frame @ concat single @ concat between) }"

definition AssertKeepsCentering ::
    "assertions \<Rightarrow> view list \<Rightarrow> z3_view list \<Rightarrow> z3_view list \<Rightarrow> assertions option" where
  "AssertKeepsCentering s vs zr za =
     do { CHECK (length zr = length za);
          as \<leftarrow> map_opt (keeps_center_view vs zr za) [1..<length zr];
          Some (s @ concat as) }"

section \<open>AppProperties\<close>

definition GenBoundConditions :: "z3_view list \<Rightarrow> assertions option" where
  "GenBoundConditions zs =
     do { root \<leftarrow> vec_at zs 0;
          Some (concat (map (\<lambda>v. if zv_pos v = 0 then [] else out_of_bounds_assertions root v) zs)) }"

definition pin_positions :: "z3_view list \<Rightarrow> assertions" where
  "pin_positions zs = concat (map fixed_position_assertions zs)"

definition is_sat :: "check_result \<Rightarrow> bool" where
  "is_sat r = (case r of Sat m \<Rightarrow> True | _ \<Rightarrow> False)"

definition bounds_query :: "app \<Rightarrow> orientation \<Rightarrow> assertions option" where
  "bounds_query app oi =
     do { zs \<leftarrow> ConvertViews (app_views app) oi 0;
          as \<leftarrow> GenBoundConditions zs;
          Some (pin_positions zs @ as) }"

text \<open>The positions of both apps, the second under the names of a device.\<close>

definition two_app_query ::
    "(assertions \<Rightarrow> z3_view list \<Rightarrow> z3_view list \<Rightarrow> assertions option) \<Rightarrow> app \<Rightarrow> app \<Rightarrow> orientation \<Rightarrow> assertions option" where
  "two_app_query add ref app oi =
     do { zr \<leftarrow> ConvertViews (app_views ref) oi 0;
          za \<leftarrow> ConvertViews (app_views app) oi 1;
          add (pin_positions zr @ pin_positions za) zr za }"

definition intersection_query :: "app \<Rightarrow> app \<Rightarrow> orientation \<Rightarrow> assertions option" where
  "intersection_query ref app oi = two_app_query (\<lambda>s. AssertKeepsIntersection s (app_views ref)) ref app oi"

definition centering_query :: "app \<Rightarrow> app \<Rightarrow> orientation \<Rightarrow> assertions option" where
  "centering_query ref app oi = two_app_query (\<lambda>s. AssertKeepsCentering s (app_views ref)) ref app oi"

definition margins_query :: "app \<Rightarrow> app \<Rightarrow> orientation \<Rightarrow> assertions option" where
  "margins_query ref app oi = two_app_query (\<lambda>s. AssertKeepsMargins s (app_views ref)) ref app oi"

definition ratio_query :: "app \<Rightarrow> app \<Rightarrow> assertions option" where
  "ratio_query ref app =
     two_app_query (\<lambda>s zr za. AssertKeepsSizeRatio s (app_views ref) zr za (app_views app)) ref app HORIZONTAL"

definition run_query :: "smt_env \<Rightarrow> assertions option \<Rightarrow> bool option" where
  "run_query env q = do { s \<leftarrow> q; Some (is_sat (env_check env s [])) }"

text \<open>Both orientations, the second only when the first succeeds.\<close>

definition both_checks :: "(orientation \<Rightarrow> bool option) \<Rightarrow> bool option" where
  "both_checks f = do { h \<leftarrow> f HORIZONTAL; if h then f VERTICAL else Some False }"

definition CheckBounds :: "smt_env \<Rightarrow> app \<Rightarrow> bool option" where
  "CheckBounds env app = both_checks (\<lambda>oi. run_query env (bounds_query app oi))"

definition CheckIntersection :: "smt_env \<Rightarrow> app \<Rightarrow> app \<Rightarrow> bool option" where
  "CheckIntersection env ref app = both_checks (\<lambda>oi. run_query env (intersection_query ref app oi))"

definition CheckCentering :: "smt_env \<Rightarrow> app \<Rightarrow> app \<Rightarrow> bool option" where
  "CheckCentering env ref app = both_checks (\<lambda>oi. run_query env (centering_query ref app oi))"

definition CheckMargins :: "smt_env \<Rightarrow> app \<Rightarrow> app \<Rightarrow> bool option" where
  "CheckMargins env ref app = both_checks (\<lambda>oi. run_query env (margins_query ref app oi))"

definition CheckSizeRatio :: "smt_env \<Rightarrow> app \<Rightarrow> app \<Rightarrow> bool option" where
  "CheckSizeRatio env ref app = run_query env (ratio_query ref app)"

text \<open>
  One of the two quotients exceeds two. A division by zero is an infinity or not a number, and
  \<^verbatim>\<open>std::max\<close> returns its first argument when the comparison is false.
\<close>

definition ratio_exceeds :: "int \<Rightarrow> int \<Rightarrow> bool" where
  "ratio_exceeds a b =
     (if a = 0 \<or> b = 0 then a > 0 \<or> b > 0
      else max (real_of_int a / real_of_int b) (real_of_int b / real_of_int a) > 2)"

definition resizing_violated :: "view \<Rightarrow> view \<Rightarrow> bool" where
  "resizing_violated v w \<longleftrightarrow>
     ratio_exceeds (rect_width v) (rect_width w) \<or> ratio_exceeds (rect_height v) (rect_height w)"

definition CheckAllProperties :: "smt_env \<Rightarrow> app \<Rightarrow> app \<Rightarrow> bool option" where
  "CheckAllProperties env ref app =
     do { b1 \<leftarrow> CheckBounds env ref;
          b2 \<leftarrow> (if b1 then CheckBounds env app else Some False);
          i \<leftarrow> CheckIntersection env ref app;
          c \<leftarrow> CheckCentering env ref app;
          m \<leftarrow> CheckMargins env ref app;
          r \<leftarrow> CheckSizeRatio env ref app;
          violated \<leftarrow> map_opt (\<lambda>k. do { v \<leftarrow> vec_at (app_views app) k; w \<leftarrow> vec_at (app_views ref) k;
                                         Some (resizing_violated v w) }) [0..<length (app_views app)];
          Some (b2 \<and> i \<and> c \<and> m \<and> r \<and> length (app_views app) = length (app_views ref) \<and> True \<notin> set violated) }"

section \<open>What the queries say\<close>

text \<open>The solver answers \<^verbatim>\<open>sat\<close> to a query exactly when it has a model.\<close>

definition decides :: "smt_env \<Rightarrow> assertions \<Rightarrow> bool" where
  "decides env s \<longleftrightarrow> ((\<exists>m. env_check env s [] = Sat m) \<longleftrightarrow> (\<exists>m. satisfies m s))"

lemma run_query_iff: "q = Some s \<Longrightarrow> decides env s \<Longrightarrow> run_query env q = Some (\<exists>m. satisfies m s)"
  by (auto simp: run_query_def decides_def is_sat_def split: check_result.splits)

lemma show_int_inj: "0 \<le> i \<Longrightarrow> 0 \<le> j \<Longrightarrow> show_int i = show_int j \<longleftrightarrow> i = j"
  by (simp add: show_int_nat show_nat_inj) linarith

lemma show_int_no_separator: "0 \<le> i \<Longrightarrow> CHR ''_'' \<notin> set (show_int i)"
  using show_nat_digits [of "CHR ''_''" "nat i"] by (auto simp: show_int_nat is_digit_def)

lemma split_at_separator:
  assumes "x @ c # y = x' @ c # y'" "c \<notin> set x" "c \<notin> set x'"
  shows "x = x' \<and> y = y'"
  using assms
proof (induction x arbitrary: x')
  case Nil
  then show ?case by (cases x') auto
next
  case (Cons a x)
  then show ?case by (cases x') auto
qed

lemma name2_inj:
  assumes "0 \<le> i" "0 \<le> j" "0 \<le> d" "0 \<le> e" "name2 p i d = name2 p j e"
  shows "i = j \<and> d = e"
proof -
  have "show_int i @ CHR ''_'' # show_int d = show_int j @ CHR ''_'' # show_int e"
    using assms(5) by (simp add: name2_def)
  from split_at_separator [OF this show_int_no_separator show_int_no_separator] assms(1-4)
  show ?thesis by (simp add: show_int_inj)
qed

lemma unique_id_value_nonneg: "0 \<le> unique_id_value (int i) oi"
  by (simp add: unique_id_value_def)

lemma unique_id_value_inj: "unique_id_value (int i) oi = unique_id_value (int j) oi \<longleftrightarrow> i = j"
  by (simp add: unique_id_value_def)

text \<open>Every choice of positions is that of some model.\<close>

lemma positions_realised: "\<exists>m. \<forall>d i. model_positions m oi (int d) i = P d i"
proof -
  define end_of where "end_of = (\<lambda>(b, d, i). name2 (if b then ''start_'' else ''end_'') (unique_id_value (int i) oi) (int d))"
  have "inj end_of"
  proof (rule injI)
    fix x y assume eq: "end_of x = end_of y"
    obtain b d i where x: "x = (b, d, i)" by (cases x)
    obtain c e j where y: "y = (c, e, j)" by (cases y)
    have "hd (end_of x) = (if b then CHR ''s'' else CHR ''e'')" "hd (end_of y) = (if c then CHR ''s'' else CHR ''e'')"
      by (simp_all add: x y end_of_def name2_def)
    with eq have "(if b then CHR ''s'' else CHR ''e'') = (if c then CHR ''s'' else CHR ''e'')" by metis
    then have "b = c" by (cases b; cases c; simp)
    with eq have "name2 (if b then ''start_'' else ''end_'') (unique_id_value (int i) oi) (int d) =
        name2 (if b then ''start_'' else ''end_'') (unique_id_value (int j) oi) (int e)"
      by (simp only: x y end_of_def prod.case)
    from name2_inj [OF unique_id_value_nonneg unique_id_value_nonneg of_nat_0_le_iff of_nat_0_le_iff this]
    have "i = j" "d = e" by (simp_all add: unique_id_value_inj)
    then show "x = y" using \<open>b = c\<close> by (simp add: x y)
  qed
  then have inv: "inv end_of (end_of x) = x" for x by simp
  let ?f = "\<lambda>(b, d, i). if b then fst (P d i) else snd (P d i)"
  let ?m = "\<lparr>int_interp = \<lambda>s. ?f (inv end_of s), real_interp = \<lambda>s. 0, bool_interp = \<lambda>s. False\<rparr>"
  have "name2 ''start_'' (unique_id_value (int i) oi) (int d) = end_of (True, d, i)"
    "name2 ''end_'' (unique_id_value (int i) oi) (int d) = end_of (False, d, i)" for d i
    by (simp_all add: end_of_def)
  then have "model_positions ?m oi (int d) i = P d i" for d i
    by (simp add: model_positions_def inv)
  then show ?thesis by blast
qed

lemma pin_positions_meaning:
  assumes "made_views oi d zs"
  shows "satisfies m (pin_positions zs) \<longleftrightarrow> (\<forall>i < length zs. model_positions m oi d i = (zv_start (zs ! i), zv_end (zs ! i)))"
proof -
  have "satisfies m (fixed_position_assertions (zs ! i)) \<longleftrightarrow> model_positions m oi d i = (zv_start (zs ! i), zv_end (zs ! i))"
    if "i < length zs" for i
    using assms that by (intro fixed_position_meaning) (simp add: made_views_def)
  then show ?thesis by (simp add: pin_positions_def satisfies_concat all_set_conv_all_nth)
qed

lemma satisfies_map_opt:
  assumes "map_opt f xs = Some ass"
  shows "satisfies m (concat ass) \<longleftrightarrow> (\<forall>x \<in> set xs. satisfies m (the (f x)))"
proof -
  have "the (f (xs ! i)) = ass ! i" if "i < length xs" for i using map_opt_nth [OF assms that] by simp
  then show ?thesis using map_opt_length [OF assms] by (simp add: satisfies_concat all_set_conv_all_nth)
qed

lemma satisfies_concat_map:
  "satisfies m (concat (map f xs)) \<longleftrightarrow> (\<forall>i < length xs. satisfies m (f (xs ! i)))"
  by (simp add: satisfies_concat all_set_conv_all_nth)

lemma out_of_bounds_meaning:
  assumes "made_view oi d 0 f" "made_view oi d i z"
  shows "satisfies m (out_of_bounds_assertions f z) \<longleftrightarrow>
    fst (model_positions m oi d 0) \<le> fst (model_positions m oi d i) \<and>
    snd (model_positions m oi d i) \<le> snd (model_positions m oi d 0)"
  using assms by (simp add: out_of_bounds_assertions_def made_view_def model_positions_def)

definition in_bounds :: "view list \<Rightarrow> orientation \<Rightarrow> bool" where
  "in_bounds vs oi \<longleftrightarrow>
     (\<forall>i < length vs. fst (view_interval vs oi 0) \<le> fst (view_interval vs oi i) \<and>
        snd (view_interval vs oi i) \<le> snd (view_interval vs oi 0))"

lemma bounds_query_meaning:
  assumes "views_ok n (app_views app)" "bounds_query app oi = Some s"
  shows "(\<exists>m. satisfies m s) \<longleftrightarrow> in_bounds (app_views app) oi"
proof -
  let ?vs = "app_views app"
  have pos: "\<forall>i < length ?vs. view_pos (?vs ! i) = int i" using assms(1) by (simp add: views_ok_def)
  obtain zs as where q: "ConvertViews ?vs oi 0 = Some zs" "GenBoundConditions zs = Some as" "s = pin_positions zs @ as"
    using assms(2) by (auto simp: bounds_query_def bind_Some_iff)
  note z = ConvertViews_result [OF q(1) pos]
  have as: "0 < length zs" "as = concat (map (\<lambda>v. if zv_pos v = 0 then [] else out_of_bounds_assertions (zs ! 0) v) zs)"
    using q(2) by (auto simp: GenBoundConditions_def bind_Some_iff vec_at_Some)
  have made: "made_view oi 0 i (zs ! i)" if "i < length zs" for i using z(2) that by (simp add: made_views_def)
  have "satisfies m as \<longleftrightarrow> (\<forall>i < length zs. i = 0 \<or>
      fst (model_positions m oi 0 0) \<le> fst (model_positions m oi 0 i) \<and>
      snd (model_positions m oi 0 i) \<le> snd (model_positions m oi 0 0))" for m
  proof -
    have "satisfies m (if zv_pos (zs ! i) = 0 then [] else out_of_bounds_assertions (zs ! 0) (zs ! i)) \<longleftrightarrow> i = 0 \<or>
      fst (model_positions m oi 0 0) \<le> fst (model_positions m oi 0 i) \<and>
      snd (model_positions m oi 0 i) \<le> snd (model_positions m oi 0 0)" if "i < length zs" for i
      using out_of_bounds_meaning [OF made [OF as(1)] made [OF that]] made_view_pos [OF made [OF that]] by auto
    then show ?thesis unfolding as(2) satisfies_concat_map by blast
  qed
  moreover have "satisfies m (pin_positions zs) \<longleftrightarrow> (\<forall>i < length zs. model_positions m oi 0 i = view_interval ?vs oi i)" for m
    using pin_positions_meaning [OF z(2)] z(1,3) by simp
  ultimately have "satisfies m s \<longleftrightarrow> (\<forall>i < length zs. model_positions m oi 0 i = view_interval ?vs oi i) \<and> in_bounds ?vs oi" for m
    unfolding q(3) satisfies_simps in_bounds_def z(1) [symmetric] using as(1) by fastforce
  then show ?thesis using positions_realised [of oi "\<lambda>d i. view_interval ?vs oi i"] by (metis of_nat_0)
qed

lemma two_app_query_meaning:
  assumes "views_ok n (app_views ref)" "views_ok n (app_views app)" "two_app_query add ref app oi = Some s"
    and add: "\<And>s0 zr za t. \<lbrakk>made_views oi 0 zr; made_views oi 1 za; length zr = n; length za = n;
      \<forall>i < n. (zv_start (zr ! i), zv_end (zr ! i)) = view_interval (app_views ref) oi i; add s0 zr za = Some t\<rbrakk> \<Longrightarrow>
      \<exists>as. t = s0 @ as \<and> (\<forall>m. (\<forall>i < n. model_positions m oi 0 i = view_interval (app_views ref) oi i) \<longrightarrow>
        (\<forall>i < n. model_positions m oi 1 i = view_interval (app_views app) oi i) \<longrightarrow> (satisfies m as \<longleftrightarrow> K))"
  shows "(\<exists>m. satisfies m s) \<longleftrightarrow> K"
proof -
  let ?I = "view_interval (app_views ref) oi" and ?J = "view_interval (app_views app) oi"
  obtain zr za where z: "ConvertViews (app_views ref) oi 0 = Some zr" "ConvertViews (app_views app) oi 1 = Some za"
    "add (pin_positions zr @ pin_positions za) zr za = Some s"
    using assms(3) by (auto simp: two_app_query_def bind_Some_iff)
  have pos: "\<forall>i < length (app_views ref). view_pos (app_views ref ! i) = int i" "length (app_views ref) = n"
    "\<forall>i < length (app_views app). view_pos (app_views app ! i) = int i" "length (app_views app) = n"
    using assms(1,2) by (simp_all add: views_ok_def)
  note r = ConvertViews_result [OF z(1) pos(1), unfolded pos(2)] and a = ConvertViews_result [OF z(2) pos(3), unfolded pos(4)]
  have "\<forall>i < n. (zv_start (zr ! i), zv_end (zr ! i)) = ?I i" using r(3) by blast
  from add [OF r(2) a(2) r(1) a(1) this z(3)] obtain as where as: "s = (pin_positions zr @ pin_positions za) @ as"
    "\<And>m. \<forall>i < n. model_positions m oi 0 i = ?I i \<Longrightarrow> \<forall>i < n. model_positions m oi 1 i = ?J i \<Longrightarrow> satisfies m as \<longleftrightarrow> K"
    by blast
  have pins: "satisfies m (pin_positions zr) \<longleftrightarrow> (\<forall>i < n. model_positions m oi 0 i = ?I i)"
    "satisfies m (pin_positions za) \<longleftrightarrow> (\<forall>i < n. model_positions m oi 1 i = ?J i)" for m
    using pin_positions_meaning [OF r(2)] pin_positions_meaning [OF a(2)] r(1,3) a(1,3) by simp_all
  have "satisfies m s \<longleftrightarrow> (\<forall>i < n. model_positions m oi 0 i = ?I i) \<and> (\<forall>i < n. model_positions m oi 1 i = ?J i) \<and> K" for m
    unfolding as(1) satisfies_simps pins using as(2) by blast
  moreover obtain m where "\<forall>d i. model_positions m oi (int d) i = (if d = 0 then ?I i else ?J i)"
    using positions_realised [of oi "\<lambda>d i. if d = 0 then ?I i else ?J i"] by (elim exE)
  then have "\<forall>i < n. model_positions m oi 0 i = ?I i" "\<forall>i < n. model_positions m oi 1 i = ?J i"
    by (metis of_nat_0, metis of_nat_1 zero_neq_one)
  ultimately show ?thesis by blast
qed

lemma two_app_query_total:
  assumes "views_ok n (app_views ref)" "views_ok n (app_views app)" "n \<le> 1000"
    and "\<And>s0 zr za. \<lbrakk>length zr = n; length za = n\<rbrakk> \<Longrightarrow> \<exists>t. add s0 zr za = Some t"
  shows "\<exists>s. two_app_query add ref app oi = Some s"
proof -
  obtain zr za where z: "ConvertViews (app_views ref) oi 0 = Some zr" "ConvertViews (app_views app) oi 1 = Some za"
    using ConvertViews_total [of "app_views ref" 0 oi] ConvertViews_total [of "app_views app" 1 oi] assms(1-3)
    by (auto simp: views_ok_def)
  then have "length zr = n" "length za = n"
    using ConvertViews_result(1) [OF z(1)] ConvertViews_result(1) [OF z(2)] assms(1,2) by (simp_all add: views_ok_def)
  with assms(4) z show ?thesis by (simp add: two_app_query_def)
qed

section \<open>Properties that are not checked\<close>

text \<open>
  The assertions skip a pair of views, or a view, whose positions on the reference screen are
  known. They are known for every finished screen, so nothing is asserted.
\<close>

definition all_fixed :: "z3_view list \<Rightarrow> bool" where
  "all_fixed zs \<longleftrightarrow> (\<forall>z \<in> set zs. zv_HasFixedPosition z)"

lemma map_opt_nothing: "(\<And>x. x \<in> set xs \<Longrightarrow> f x = Some []) \<Longrightarrow> map_opt f xs = Some (map (\<lambda>_. []) xs)"
  by (rule map_opt_Some_map)

lemma concat_nothing [simp]: "concat (map (\<lambda>_. []) xs) = []"
  by (induction xs) auto

lemma asserts_nothing:
  assumes "all_fixed zr"
  shows "length zr = length za \<Longrightarrow> AssertKeepsIntersection s vs zr za = Some s"
    "length zr = length za \<Longrightarrow> AssertKeepsMargins s vs zr za = Some s"
    "length zr = length vs \<Longrightarrow> AssertKeepsSizeRatio s vs zr za ws = Some s"
proof -
  have fixed: "both_fixed (zr ! i) (zr ! j)" "zv_HasFixedPosition (zr ! i)" if "i < length zr" "j < length zr" for i j
    using assms that by (simp_all add: all_fixed_def both_fixed_def)
  show "AssertKeepsIntersection s vs zr za = Some s" if "length zr = length za"
    using that by (subst AssertKeepsIntersection_def, subst map_opt_nothing) (auto simp: keeps_intersection_pair_def fixed)
  show "AssertKeepsMargins s vs zr za = Some s" if "length zr = length za"
    using that by (subst AssertKeepsMargins_def, subst map_opt_nothing) (auto simp: keeps_margins_pair_def fixed)
  show "AssertKeepsSizeRatio s vs zr za ws = Some s" if "length zr = length vs"
    using that by (subst AssertKeepsSizeRatio_def, subst map_opt_nothing) (auto simp: keeps_ratio_view_def fixed)
qed

definition positions_known :: "view list \<Rightarrow> bool" where
  "positions_known vs \<longleftrightarrow>
     (\<forall>oi. \<forall>i < length vs. fst (view_interval vs oi i) \<noteq> - 1 \<and> snd (view_interval vs oi i) \<noteq> - 1)"

definition positions_query :: "app \<Rightarrow> app \<Rightarrow> orientation \<Rightarrow> assertions option" where
  "positions_query ref app oi = two_app_query (\<lambda>s zr za. Some s) ref app oi"

lemma queries_ask_nothing:
  assumes "views_ok n (app_views ref)" "views_ok n (app_views app)" "positions_known (app_views ref)"
  shows "intersection_query ref app oi = positions_query ref app oi"
    "margins_query ref app oi = positions_query ref app oi"
    "ratio_query ref app = positions_query ref app HORIZONTAL"
proof -
  have eq: "two_app_query add ref app oi = positions_query ref app oi"
    if add: "\<And>s zr za. \<lbrakk>all_fixed zr; length zr = n; length za = n\<rbrakk> \<Longrightarrow> add s zr za = Some s" for add oi
  proof (cases "ConvertViews (app_views ref) oi 0")
    case None
    then show ?thesis by (simp add: positions_query_def two_app_query_def)
  next
    case (Some zr)
    show ?thesis
    proof (cases "ConvertViews (app_views app) oi 1")
      case None
      with Some show ?thesis by (simp add: positions_query_def two_app_query_def)
    next
      case za: (Some za)
      have pos: "\<forall>i < length (app_views ref). view_pos (app_views ref ! i) = int i" "length (app_views ref) = n"
        "\<forall>i < length (app_views app). view_pos (app_views app ! i) = int i" "length (app_views app) = n"
        using assms(1,2) by (simp_all add: views_ok_def)
      note r = ConvertViews_result [OF Some pos(1)] and a = ConvertViews_result [OF za pos(3)]
      have "zv_HasFixedPosition (zr ! i)" if "i < length zr" for i
        using r(3) [of i] r(1) that assms(3) unfolding positions_known_def zv_HasFixedPosition_def by (metis fst_conv snd_conv)
      then have "all_fixed zr" by (auto simp: all_fixed_def in_set_conv_nth)
      with add r(1) a(1) pos show ?thesis by (simp add: Some za positions_query_def two_app_query_def)
    qed
  qed
  have len: "length (app_views ref) = n" using assms(1) by (simp add: views_ok_def)
  show "intersection_query ref app oi = positions_query ref app oi"
    unfolding intersection_query_def by (rule eq) (simp add: asserts_nothing)
  show "margins_query ref app oi = positions_query ref app oi"
    unfolding margins_query_def by (rule eq) (simp add: asserts_nothing)
  show "ratio_query ref app = positions_query ref app HORIZONTAL"
    unfolding ratio_query_def by (rule eq) (simp add: asserts_nothing len)
qed

section \<open>Centering\<close>

text \<open>What the assertions about centering demand of two layouts, with intervals \<open>I\<close> and \<open>J\<close>.\<close>

definition mid :: "int \<times> int \<Rightarrow> int" where
  "mid p = fst p + snd p"

definition known_interval :: "int \<times> int \<Rightarrow> bool" where
  "known_interval p \<longleftrightarrow> fst p \<noteq> - 1 \<and> snd p \<noteq> - 1"

definition unobstructed :: "view list \<Rightarrow> nat \<Rightarrow> nat \<Rightarrow> bool" where
  "unobstructed vs i j \<longleftrightarrow> NumIntersections (vs ! i) (vs ! j) vs = 0"

definition keeps_centering_at :: "view list \<Rightarrow> (nat \<Rightarrow> int \<times> int) \<Rightarrow> (nat \<Rightarrow> int \<times> int) \<Rightarrow> nat \<Rightarrow> bool" where
  "keeps_centering_at vs I J i \<longleftrightarrow>
     (mid (I i) = mid (I 0) \<longrightarrow> mid (J i) = mid (J 0)) \<and>
     (\<forall>l. i < l \<and> l < length vs \<and> \<not> (known_interval (I i) \<and> known_interval (I l)) \<and> mid (I i) = mid (I l) \<longrightarrow> mid (J i) = mid (J l)) \<and>
     (\<forall>l r. l < r \<and> r < length vs \<and> i \<noteq> l \<and> i \<noteq> r \<and> unobstructed vs i l \<and> unobstructed vs i r \<longrightarrow>
        (if mid (I i) = fst (I l) + snd (I r) then mid (J i) = fst (J l) + snd (J r)
         else mid (I i) = snd (I l) + fst (I r) \<longrightarrow> mid (J i) = snd (J l) + fst (J r)))"

definition keeps_centering :: "view list \<Rightarrow> (nat \<Rightarrow> int \<times> int) \<Rightarrow> (nat \<Rightarrow> int \<times> int) \<Rightarrow> bool" where
  "keeps_centering vs I J \<longleftrightarrow> (\<forall>i. 0 < i \<and> i < length vs \<longrightarrow> keeps_centering_at vs I J i)"

lemma center_expr_value:
  assumes "made_view oi d i z" "model_positions m oi d i = p"
  shows "num_value m (center_expr z) = real_of_int (mid p)"
    "num_value m (position_start_v z) = real_of_int (fst p)" "num_value m (position_end_v z) = real_of_int (snd p)"
  using assms by (auto simp: center_expr_def made_view_def model_positions_def mid_def)

lemma map_opt_meaning:
  assumes "map_opt f xs = Some ass" "\<And>x. x \<in> set xs \<Longrightarrow> \<exists>as. f x = Some as \<and> (satisfies m as \<longleftrightarrow> P x)"
  shows "satisfies m (concat ass) \<longleftrightarrow> (\<forall>x \<in> set xs. P x)"
proof -
  have "satisfies m (the (f x)) \<longleftrightarrow> P x" if "x \<in> set xs" for x using assms(2) [OF that] by auto
  then show ?thesis unfolding satisfies_map_opt [OF assms(1)] by blast
qed

lemma keeps_center_view_meaning:
  assumes zr: "length zr = length vs" "\<forall>i < length vs. (zv_start (zr ! i), zv_end (zr ! i)) = I i"
    and za: "made_views oi d za" "length za = length vs" "\<forall>i < length vs. model_positions m oi d i = J i"
    and i: "0 < i" "i < length vs"
  shows "\<exists>as. keeps_center_view vs zr za i = Some as \<and> (satisfies m as \<longleftrightarrow> keeps_centering_at vs I J i)"
proof -
  let ?n = "length vs"
  have I: "zv_start (zr ! k) = fst (I k)" "zv_end (zr ! k) = snd (I k)" "center_sum (zr ! k) = mid (I k)"
    "zv_HasFixedPosition (zr ! k) \<longleftrightarrow> known_interval (I k)" if "k < ?n" for k
    using zr(2) that by (auto simp: center_sum_def mid_def known_interval_def zv_HasFixedPosition_def) (metis fst_conv snd_conv)+
  have J: "num_value m (center_expr (za ! k)) = real_of_int (mid (J k))"
    "num_value m (position_start_v (za ! k)) = real_of_int (fst (J k))"
    "num_value m (position_end_v (za ! k)) = real_of_int (snd (J k))" if "k < ?n" for k
    using za that center_expr_value [of oi d k "za ! k" m "J k"] by (simp_all add: made_views_def)
  have n0: "0 < ?n" using i by linarith
  have frame: "\<exists>as. keeps_center_frame zr za i = Some as \<and>
      (satisfies m as \<longleftrightarrow> (mid (I i) = mid (I 0) \<longrightarrow> mid (J i) = mid (J 0)))"
    using i n0 zr(1) za(2) by (simp add: keeps_center_frame_def I J)
  have single: "\<exists>as. keeps_center_single zr za i l = Some as \<and> (satisfies m as \<longleftrightarrow>
      (\<not> (known_interval (I i) \<and> known_interval (I l)) \<and> mid (I i) = mid (I l) \<longrightarrow> mid (J i) = mid (J l)))" if "l < ?n" for l
    using i that zr(1) za(2) by (simp add: keeps_center_single_def both_fixed_def I J)
  have between: "\<exists>as. keeps_center_between vs zr za i p = Some as \<and> (satisfies m as \<longleftrightarrow>
      (i \<noteq> fst p \<and> i \<noteq> snd p \<and> unobstructed vs i (fst p) \<and> unobstructed vs i (snd p) \<longrightarrow>
        (if mid (I i) = fst (I (fst p)) + snd (I (snd p)) then mid (J i) = fst (J (fst p)) + snd (J (snd p))
         else mid (I i) = snd (I (fst p)) + fst (I (snd p)) \<longrightarrow> mid (J i) = snd (J (fst p)) + fst (J (snd p)))))"
    if "fst p < ?n" "snd p < ?n" for p
    using i that zr(1) za(2)
    by (simp add: keeps_center_between_def intersections_at_def unobstructed_def I J) linarith
  let ?ls = "[Suc i..<?n]" and ?ps = "concat (map (\<lambda>l. map (Pair l) [Suc l..<?n]) [0..<?n])"
  obtain f where f: "keeps_center_frame zr za i = Some f" "satisfies m f \<longleftrightarrow> (mid (I i) = mid (I 0) \<longrightarrow> mid (J i) = mid (J 0))"
    using frame by blast
  have "\<exists>ss. map_opt (keeps_center_single zr za i) ?ls = Some ss"
    unfolding map_opt_Some_iff using single by fastforce
  then obtain ss where ss: "map_opt (keeps_center_single zr za i) ?ls = Some ss" by blast
  have ps: "p \<in> set ?ps \<longleftrightarrow> fst p < snd p \<and> snd p < ?n" for p
    by (cases p) (auto simp: image_iff intro!: bexI [of _ "fst p"])
  have "\<exists>y. keeps_center_between vs zr za i p = Some y" if "p \<in> set ?ps" for p
  proof -
    have "fst p < ?n" "snd p < ?n" using that unfolding ps by linarith+
    from between [OF this] show ?thesis by blast
  qed
  then have "\<exists>bs. map_opt (keeps_center_between vs zr za i) ?ps = Some bs"
    unfolding map_opt_Some_iff by blast
  then obtain bs where bs: "map_opt (keeps_center_between vs zr za i) ?ps = Some bs" by blast
  have 1: "satisfies m (concat ss) \<longleftrightarrow> (\<forall>l \<in> set ?ls. \<not> (known_interval (I i) \<and> known_interval (I l)) \<and> mid (I i) = mid (I l) \<longrightarrow> mid (J i) = mid (J l))"
    by (rule map_opt_meaning [OF ss]) (use single in simp)
  have 2: "satisfies m (concat bs) \<longleftrightarrow> (\<forall>p \<in> set ?ps. i \<noteq> fst p \<and> i \<noteq> snd p \<and> unobstructed vs i (fst p) \<and> unobstructed vs i (snd p) \<longrightarrow>
        (if mid (I i) = fst (I (fst p)) + snd (I (snd p)) then mid (J i) = fst (J (fst p)) + snd (J (snd p))
         else mid (I i) = snd (I (fst p)) + fst (I (snd p)) \<longrightarrow> mid (J i) = snd (J (fst p)) + fst (J (snd p))))"
  proof (rule map_opt_meaning [OF bs])
    fix p assume "p \<in> set ?ps"
    then have "fst p < ?n" "snd p < ?n" using ps by fastforce+
    then show "\<exists>as. keeps_center_between vs zr za i p = Some as \<and> (satisfies m as \<longleftrightarrow>
      (i \<noteq> fst p \<and> i \<noteq> snd p \<and> unobstructed vs i (fst p) \<and> unobstructed vs i (snd p) \<longrightarrow>
        (if mid (I i) = fst (I (fst p)) + snd (I (snd p)) then mid (J i) = fst (J (fst p)) + snd (J (snd p))
         else mid (I i) = snd (I (fst p)) + fst (I (snd p)) \<longrightarrow> mid (J i) = snd (J (fst p)) + fst (J (snd p)))))"
      by (rule between)
  qed
  have "keeps_center_view vs zr za i = Some (f @ concat ss @ concat bs)"
    using f(1) ss bs zr(1) by (simp add: keeps_center_view_def)
  moreover have "satisfies m (f @ concat ss @ concat bs) \<longleftrightarrow> keeps_centering_at vs I J i"
    unfolding satisfies_simps f(2) 1 2 ps Ball_def keeps_centering_at_def split_paired_All fst_conv snd_conv
      set_upt atLeastLessThan_iff Suc_le_eq by blast
  ultimately show ?thesis by blast
qed

lemma AssertKeepsCentering_result:
  assumes zr: "length zr = length vs" "\<forall>i < length vs. (zv_start (zr ! i), zv_end (zr ! i)) = I i"
    and za: "made_views oi d za" "length za = length vs"
  shows "\<exists>t. AssertKeepsCentering s vs zr za = Some (s @ t) \<and>
    (\<forall>m. satisfies m t \<longleftrightarrow> keeps_centering vs I (model_positions m oi d))"
proof -
  have one: "\<exists>as. keeps_center_view vs zr za i = Some as \<and>
      (satisfies m as \<longleftrightarrow> keeps_centering_at vs I (model_positions m oi d) i)" if "i \<in> set [1..<length zr]" for i m
    using keeps_center_view_meaning [OF zr za, of m "model_positions m oi d" i] that zr(1) by auto
  then have "\<exists>ass. map_opt (keeps_center_view vs zr za) [1..<length zr] = Some ass"
    unfolding map_opt_Some_iff by blast
  then obtain ass where ass: "map_opt (keeps_center_view vs zr za) [1..<length zr] = Some ass" by blast
  have "satisfies m (concat ass) \<longleftrightarrow> keeps_centering vs I (model_positions m oi d)" for m
    using map_opt_meaning [OF ass one, of m] zr(1) by (auto simp: keeps_centering_def Suc_le_eq)
  with ass zr(1) za(2) show ?thesis by (simp add: AssertKeepsCentering_def)
qed

lemma keeps_centering_cong:
  assumes "\<And>i. i < length vs \<Longrightarrow> J i = J' i"
  shows "keeps_centering vs I J = keeps_centering vs I J'"
proof -
  have "keeps_centering_at vs I J i = keeps_centering_at vs I J' i" if i: "0 < i" "i < length vs" for i
  proof -
    have n0: "0 < length vs" using i by linarith
    have lt: "l < length vs" if "l < r" "r < length vs" for l r using that by linarith
    show ?thesis
      unfolding keeps_centering_at_def assms [OF i(2)] assms [OF n0]
      using assms lt by (intro conj_cong all_cong1 imp_cong refl) auto
  qed
  then show ?thesis by (simp add: keeps_centering_def)
qed

lemma centering_query_result:
  assumes ok: "views_ok n (app_views ref)" "views_ok n (app_views app)" "n \<le> 1000"
  shows "\<exists>s. centering_query ref app oi = Some s \<and>
    ((\<exists>m. satisfies m s) \<longleftrightarrow>
      keeps_centering (app_views ref) (view_interval (app_views ref) oi) (view_interval (app_views app) oi))"
proof -
  let ?vs = "app_views ref" and ?I = "view_interval (app_views ref) oi" and ?J = "view_interval (app_views app) oi"
  let ?add = "\<lambda>s. AssertKeepsCentering s ?vs"
  have len: "length ?vs = n" using ok(1) by (simp add: views_ok_def)
  obtain zr za where z: "ConvertViews ?vs oi 0 = Some zr" "ConvertViews (app_views app) oi 1 = Some za"
    using ConvertViews_total [of ?vs 0 oi] ConvertViews_total [of "app_views app" 1 oi] ok by (auto simp: views_ok_def)
  have pos: "\<forall>i < length ?vs. view_pos (?vs ! i) = int i" "\<forall>i < length (app_views app). view_pos (app_views app ! i) = int i"
    "length (app_views app) = n"
    using ok(1,2) by (simp_all add: views_ok_def)
  note r = ConvertViews_result [OF z(1) pos(1), unfolded len] and a = ConvertViews_result [OF z(2) pos(2), unfolded pos(3)]
  have "\<exists>s. two_app_query ?add ref app oi = Some s"
    using AssertKeepsCentering_result [of zr ?vs ?I oi 1 za "pin_positions zr @ pin_positions za"] r(1,3) a(1,2) z len
    by (auto simp: two_app_query_def)
  then obtain s where s: "two_app_query ?add ref app oi = Some s" by blast
  have "(\<exists>m. satisfies m s) \<longleftrightarrow> keeps_centering ?vs ?I ?J"
  proof (rule two_app_query_meaning [OF ok(1,2) s])
    fix s0 zr za t
    assume z: "made_views oi 0 zr" "made_views oi 1 za" "length zr = n" "length za = n"
      "\<forall>i < n. (zv_start (zr ! i), zv_end (zr ! i)) = ?I i" "?add s0 zr za = Some t"
    obtain u where u: "t = s0 @ u" "\<forall>m. satisfies m u \<longleftrightarrow> keeps_centering ?vs ?I (model_positions m oi 1)"
      using AssertKeepsCentering_result [of zr ?vs ?I oi 1 za s0] z len by auto
    have "satisfies m u \<longleftrightarrow> keeps_centering ?vs ?I ?J" if "\<forall>i < n. model_positions m oi 1 i = ?J i" for m
      using u(2) keeps_centering_cong [of ?vs "model_positions m oi 1" ?J ?I] that len by simp
    with u(1) show "\<exists>as. t = s0 @ as \<and> (\<forall>m. (\<forall>i < n. model_positions m oi 0 i = ?I i) \<longrightarrow>
        (\<forall>i < n. model_positions m oi 1 i = ?J i) \<longrightarrow> satisfies m as = keeps_centering ?vs ?I ?J)" by blast
  qed
  with s show ?thesis by (simp add: centering_query_def)
qed

lemma both_checks_Some: "f HORIZONTAL = Some a \<Longrightarrow> f VERTICAL = Some b \<Longrightarrow> both_checks f = Some (a \<and> b)"
  by (simp add: both_checks_def)

section \<open>Two sample layouts\<close>

definition frame_app :: "int \<Rightarrow> int \<Rightarrow> int \<Rightarrow> int \<Rightarrow> app" where
  "frame_app w h l r =
     \<lparr>seq_id_to_pos = [0, 1], app_resizable = [False, False],
      app_views = [(View_make 0 0 w h ''root'' 0 None)\<lparr>view_pos := 0\<rparr>,
        (View_make l 20 r 50 ''A'' 1 None)\<lparr>view_pos := 1\<rparr>]\<rparr>"

definition sat_env :: smt_env where
  "sat_env =
     (let m = \<lparr>int_interp = (\<lambda>s. 0), real_interp = (\<lambda>s. 0), bool_interp = (\<lambda>s. False)\<rparr> in
      \<lparr>env_check = (\<lambda>s t. Sat m), env_core = (\<lambda>s t. []), env_optimize = (\<lambda>s c. Sat m), env_late = (\<lambda>s. False),
       env_decimal = (\<lambda>k r. ''0.5'')\<rparr>)"

lemma sat_env_decides: "\<exists>m. satisfies m s \<Longrightarrow> decides sat_env s"
  by (simp add: decides_def sat_env_def Let_def)

lemma frame_app_ok [simp]: "views_ok 2 (app_views (frame_app w h l r))"
  by (auto simp: views_ok_def frame_app_def nth_Cons split: nat.split)

lemma frame_app_length [simp]: "length (app_views (frame_app w h l r)) = 2"
  by (simp add: frame_app_def)

lemma frame_app_intervals:
  "view_interval (app_views (frame_app w h l r)) HORIZONTAL 0 = (0, w)"
  "view_interval (app_views (frame_app w h l r)) HORIZONTAL (Suc 0) = (l, r)"
  "view_interval (app_views (frame_app w h l r)) VERTICAL 0 = (0, h)"
  "view_interval (app_views (frame_app w h l r)) VERTICAL (Suc 0) = (20, 50)"
  by (simp_all add: view_interval_def frame_app_def View_make_def)

lemma less_two: "i < (2 :: nat) \<longleftrightarrow> i = 0 \<or> i = Suc 0"
  by linarith

lemma frame_app_centering:
  "keeps_centering (app_views (frame_app 100 200 30 70)) (view_interval (app_views (frame_app 100 200 30 70)) oi)
     (view_interval (app_views (frame_app 160 240 50 110)) oi)"
proof -
  have "False" if "l < r" "r < 2" "Suc 0 \<noteq> l" "Suc 0 \<noteq> r" for l r :: nat using that by linarith
  then show ?thesis
    by (cases oi) (auto simp: keeps_centering_def keeps_centering_at_def less_two frame_app_intervals mid_def)
qed

section \<open>The properties\<close>

text \<open>
  C14. With a solver that decides its queries \<^verbatim>\<open>CheckCentering\<close> is true exactly when, in both
  orientations, views centered in the frame stay so and views centered between two others that
  no third view separates from them stay so, for all apps with the same number of views.
\<close>

theorem CheckCentering_iff:
  assumes "views_ok n (app_views ref)" "views_ok n (app_views app)" "n \<le> 1000"
    and "\<forall>oi s. centering_query ref app oi = Some s \<longrightarrow> decides env s"
  shows "CheckCentering env ref app = Some (\<forall>oi. keeps_centering (app_views ref)
    (view_interval (app_views ref) oi) (view_interval (app_views app) oi))"
proof -
  have "run_query env (centering_query ref app oi) = Some (keeps_centering (app_views ref)
      (view_interval (app_views ref) oi) (view_interval (app_views app) oi))" for oi
  proof -
    obtain s where s: "centering_query ref app oi = Some s" "(\<exists>m. satisfies m s) \<longleftrightarrow> keeps_centering (app_views ref)
      (view_interval (app_views ref) oi) (view_interval (app_views app) oi)"
      using centering_query_result [OF assms(1-3), of oi] by blast
    then show ?thesis using run_query_iff [OF s(1)] assms(4) by simp
  qed
  then have "CheckCentering env ref app = Some (keeps_centering (app_views ref)
      (view_interval (app_views ref) HORIZONTAL) (view_interval (app_views app) HORIZONTAL) \<and>
      keeps_centering (app_views ref) (view_interval (app_views ref) VERTICAL) (view_interval (app_views app) VERTICAL))"
    unfolding CheckCentering_def by (intro both_checks_Some)
  then show ?thesis by (simp add: all_orientations)
qed

lemma CheckCentering_iff_witness:
  "CheckCentering sat_env (frame_app 100 200 30 70) (frame_app 160 240 50 110) = Some True"
proof -
  let ?r = "frame_app 100 200 30 70" and ?a = "frame_app 160 240 50 110"
  have "decides sat_env s" if "centering_query ?r ?a oi = Some s" for oi s
    using centering_query_result [of 2 ?r ?a oi] that frame_app_centering by (intro sat_env_decides) auto
  then show ?thesis
    using CheckCentering_iff [of 2 ?r ?a sat_env] frame_app_centering by simp
qed

text \<open>
  C13. The checks of intersections, margins and size ratios ask nothing: when the positions of the
  reference screen are known, as they are for every finished layout, they succeed for every app
  with as many views, whatever its positions.
\<close>

theorem AppProperties_unchecked:
  assumes "views_ok n (app_views ref)" "views_ok n (app_views app)" "n \<le> 1000" "positions_known (app_views ref)"
    and "\<forall>oi s. positions_query ref app oi = Some s \<longrightarrow> decides env s"
  shows "CheckIntersection env ref app = Some True \<and> CheckMargins env ref app = Some True \<and>
    CheckSizeRatio env ref app = Some True"
proof -
  have "run_query env (positions_query ref app oi) = Some True" for oi
  proof -
    have "\<exists>s. positions_query ref app oi = Some s"
      unfolding positions_query_def by (rule two_app_query_total [OF assms(1-3)]) simp
    then obtain s where s: "positions_query ref app oi = Some s" by blast
    have "(\<exists>m. satisfies m s) \<longleftrightarrow> True"
      by (rule two_app_query_meaning [OF assms(1,2) s [unfolded positions_query_def]]) simp
    then show ?thesis using run_query_iff [OF s] assms(5) s by simp
  qed
  then show ?thesis
    unfolding CheckIntersection_def CheckMargins_def CheckSizeRatio_def queries_ask_nothing [OF assms(1,2,4)]
    by (simp add: both_checks_def)
qed

lemma AppProperties_unchecked_witness:
  "CheckIntersection sat_env (frame_app 100 200 30 70) (frame_app 160 240 (- 50) 300) = Some True \<and>
   CheckMargins sat_env (frame_app 100 200 30 70) (frame_app 160 240 (- 50) 300) = Some True \<and>
   CheckSizeRatio sat_env (frame_app 100 200 30 70) (frame_app 160 240 (- 50) 300) = Some True"
proof -
  let ?r = "frame_app 100 200 30 70" and ?a = "frame_app 160 240 (- 50) 300"
  have "decides sat_env s" if s: "positions_query ?r ?a oi = Some s" for oi s
    using two_app_query_meaning [OF frame_app_ok frame_app_ok s [unfolded positions_query_def], of True]
    by (intro sat_env_decides) simp
  moreover have "positions_known (app_views ?r)"
    by (auto simp: positions_known_def less_two all_orientations frame_app_intervals)
  ultimately show ?thesis using AppProperties_unchecked [of 2 ?r ?a sat_env] by simp
qed

text \<open>
  With a solver that decides its queries \<^verbatim>\<open>CheckBounds\<close> is true exactly when all views lie
  within the content frame in both orientations.
\<close>

theorem CheckBounds_iff:
  assumes "views_ok n (app_views app)" "0 < n" "n \<le> 1000"
    and "\<forall>oi s. bounds_query app oi = Some s \<longrightarrow> decides env s"
  shows "CheckBounds env app = Some (\<forall>oi. in_bounds (app_views app) oi)"
proof -
  have "run_query env (bounds_query app oi) = Some (in_bounds (app_views app) oi)" for oi
  proof -
    obtain zs where zs: "ConvertViews (app_views app) oi 0 = Some zs"
      using ConvertViews_total [of "app_views app" 0 oi] assms(1,3) by (auto simp: views_ok_def)
    then have "length zs = n" using ConvertViews_result(1) [OF zs] assms(1) by (simp add: views_ok_def)
    then obtain s where "bounds_query app oi = Some s" using zs assms(2) by (auto simp: bounds_query_def GenBoundConditions_def)
    with run_query_iff [OF this] bounds_query_meaning [OF assms(1) this] assms(4) show ?thesis by simp
  qed
  then have "CheckBounds env app = Some (in_bounds (app_views app) HORIZONTAL \<and> in_bounds (app_views app) VERTICAL)"
    unfolding CheckBounds_def by (intro both_checks_Some)
  then show ?thesis by (simp add: all_orientations)
qed

lemma CheckBounds_iff_witness: "CheckBounds sat_env (frame_app 100 200 30 70) = Some True"
proof -
  let ?r = "frame_app 100 200 30 70"
  have bounds: "in_bounds (app_views ?r) oi" for oi
    by (cases oi) (auto simp: in_bounds_def less_two frame_app_intervals)
  then have "decides sat_env s" if s: "bounds_query ?r oi = Some s" for oi s
    using bounds_query_meaning [OF frame_app_ok s] by (intro sat_env_decides) simp
  with bounds show ?thesis using CheckBounds_iff [of 2 ?r sat_env] by simp
qed

end
