(* ===== verification/Layout_Solver.thy ===== *)
theory Layout_Solver
  imports App_Properties All_Constraints Layout_Synthesis
begin

text \<open>
  The class \<^verbatim>\<open>LayoutSolver\<close> of \<^verbatim>\<open>z3inference.h\<close>: it lays out a screen whose views carry
  constraints on a content frame of another size, by one solver query per orientation. The lemmas
  say that a layout it returns satisfies the constraints, and that the layout of a screen
  synthesised by \<open>SynthesizeLayout\<close> on its own frame is the screen itself.
\<close>

section \<open>The query\<close>

text \<open>The position of a view that an attribute points to, read in the solver's views.\<close>

definition target_view :: "view list \<Rightarrow> z3_view list \<Rightarrow> nat \<Rightarrow> z3_view option" where
  "target_view vs zs j = do { v \<leftarrow> vec_at vs j; vec_at_int zs (view_pos v) }"

definition collected_name :: "orientation \<Rightarrow> view list \<Rightarrow> z3_view list \<Rightarrow> z3_view \<Rightarrow> string option" where
  "collected_name oi vs zs z =
     do { v \<leftarrow> vec_at_int vs (zv_pos z); a \<leftarrow> view_attributes v oi;
          l \<leftarrow> target_view vs zs (tgt_primary a);
          if IsRelationalAnchor (attr_type a) then ConstraintName z (attr_type a) (attr_view_size a) l
          else do { q \<leftarrow> tgt_secondary a; r \<leftarrow> target_view vs zs q;
                    ConstraintName2 z (attr_type a) (attr_view_size a) l r } }"

definition CollectConstraints :: "orientation \<Rightarrow> view list \<Rightarrow> z3_view list \<Rightarrow> string list option" where
  "CollectConstraints oi vs zs = map_opt (collected_name oi vs zs) (filter (\<lambda>z. zv_pos z \<noteq> 0) zs)"

definition margin_assertions :: "attribute \<Rightarrow> z3_view \<Rightarrow> assertions" where
  "margin_assertions a z =
     [NumEq (margin_start_v z) (IntVal (value_primary a)), NumEq (margin_end_v z) (IntVal (value_secondary a)),
      NumEq (GetBiasExpr z) (NumVal (six_decimals (attr_bias a)))]"

definition SetMargins :: "assertions \<Rightarrow> orientation \<Rightarrow> view list \<Rightarrow> z3_view list \<Rightarrow> assertions option" where
  "SetMargins s oi vs zs =
     fold_opt (\<lambda>s i.
       do { z \<leftarrow> vec_at zs i;
            if zv_pos z = 0 then Some s
            else do { v \<leftarrow> vec_at vs i; a \<leftarrow> view_attributes v oi; Some (s @ margin_assertions a z) } }) s [0..<length zs]"

definition layout_size :: "orientation \<Rightarrow> view \<Rightarrow> attribute \<Rightarrow> z3_view \<Rightarrow> z3_bool option" where
  "layout_size oi v a z =
     (if attr_view_size a = FIXED
      then let value = (if oi = HORIZONTAL then rect_width v else rect_height v) in
           do { CHECK (value \<ge> 0); Some (NumEq (NumAdd (position_start_v z) (IntVal value)) (position_end_v z)) }
      else Some (NumGe (NumSub (position_end_v z) (position_start_v z)) (IntVal 0)))"

definition SetSize :: "assertions \<Rightarrow> orientation \<Rightarrow> view list \<Rightarrow> z3_view list \<Rightarrow> assertions option" where
  "SetSize s oi vs zs =
     fold_opt (\<lambda>s i.
       do { z \<leftarrow> vec_at zs i;
            if zv_pos z = 0 then Some (s @ fixed_position_assertions z)
            else do { v \<leftarrow> vec_at vs i; a \<leftarrow> view_attributes v oi; e \<leftarrow> layout_size oi v a z; Some (s @ [e]) } })
       s [0..<length zs]"

definition only_named :: "string list \<Rightarrow> name_filter" where
  "only_named names s name src = Some (s, name \<in> set names)"

text \<open>\<^verbatim>\<open>FinishedAddingConstraints\<close>: every view has one constraint, which is asserted.\<close>

definition one_constraint_each :: "assertions \<Rightarrow> z3_view list \<Rightarrow> assertions option" where
  "one_constraint_each s zs =
     (if \<forall>z \<in> set zs. zv_pos z = 0 \<or> length (zv_constraints z) = 1
      then Some (s @ concat (map (\<lambda>z. if zv_pos z = 0 then [] else [BoolConst (hd (zv_constraints z))]) zs))
      else None)"

definition layout_constraints :: "orientation \<Rightarrow> string list \<Rightarrow> enc_state \<Rightarrow> enc_state option" where
  "layout_constraints oi names st =
     do { st1 \<leftarrow> ForEachNonRootView (AddFixedSizeRelationalConstraint (only_named names) oi) st;
          st2 \<leftarrow> ForEachNonRootView (AddFixedSizeCenteringConstraint (only_named names) oi) st1;
          ForEachNonRootView (AddMatchConstraintCenteringConstraint (only_named names) oi) st2 }"

text \<open>The positions of a model, written into the app.\<close>

definition place_view :: "z3_model \<Rightarrow> orientation \<Rightarrow> view list \<Rightarrow> z3_view \<Rightarrow> view list option" where
  "place_view m oi vs z =
     (if zv_pos z = 0 then Some vs
      else do { z' \<leftarrow> AssignPosition m z; v \<leftarrow> vec_at_int vs (zv_pos z);
                Some (vs[nat (zv_pos z) := set_interval oi v (zv_start z') (zv_end z')]) })"

definition Layout_orientation :: "smt_env \<Rightarrow> app \<Rightarrow> app \<Rightarrow> orientation \<Rightarrow> (status \<times> app) option" where
  "Layout_orientation env app ref oi =
     do { zs \<leftarrow> ConvertViews (app_views app) oi 0;
          s1 \<leftarrow> SetSize [] oi (app_views ref) zs;
          s2 \<leftarrow> SetMargins s1 oi (app_views ref) zs;
          names \<leftarrow> CollectConstraints oi (app_views ref) zs;
          st \<leftarrow> layout_constraints oi names (zs, s2);
          case one_constraint_each (snd st) (fst st) of
            None \<Rightarrow> Some (INVALID, app)
          | Some s \<Rightarrow>
              (case env_check env s [] of
                 Sat m \<Rightarrow> do { vs \<leftarrow> fold_opt (place_view m oi) (app_views app) (fst st);
                               Some (SUCCESS, app\<lparr>app_views := vs\<rparr>) }
               | _ \<Rightarrow> Some (UNSAT, app)) }"

definition Layout :: "smt_env \<Rightarrow> app \<Rightarrow> int \<Rightarrow> int \<Rightarrow> int \<Rightarrow> int \<Rightarrow> (status \<times> app) option" where
  "Layout env ref l t r b =
     (let app = frame_only (\<lambda>v. View_make l t r b (view_name v) (view_id v) None) ref in
      do { h \<leftarrow> Layout_orientation env app ref HORIZONTAL;
           if fst h \<noteq> SUCCESS then Some h else Layout_orientation env (snd h) ref VERTICAL })"

section \<open>What a layout satisfies\<close>

text \<open>
  The view is where its constraint, with its own margins and with the bias as it is printed, puts
  it; its size is that of the reference, or not negative when it is not fixed.
\<close>

definition printed_attr :: "attribute \<Rightarrow> attribute" where
  "printed_attr a = a\<lparr>attr_bias := six_decimals (attr_bias a)\<rparr>"

definition size_follows :: "int \<times> int \<Rightarrow> int \<times> int \<Rightarrow> attribute \<Rightarrow> bool" where
  "size_follows P Q a \<longleftrightarrow>
     (if attr_view_size a = FIXED then snd P - fst P = snd Q - fst Q \<and> fst Q \<le> snd Q else fst P \<le> snd P)"

definition laid_out :: "view list \<Rightarrow> orientation \<Rightarrow> (nat \<Rightarrow> int \<times> int) \<Rightarrow> bool" where
  "laid_out vs oi P \<longleftrightarrow>
     (\<forall>i. 0 < i \<and> i < length vs \<longrightarrow>
        (\<exists>a. view_attributes (vs ! i) oi = Some a \<and> (IsRelationalAnchor (attr_type a) \<longrightarrow> attr_view_size a = FIXED) \<and>
           placed P (printed_attr a) \<and> side_conditions P (printed_attr a) \<and> size_follows (P i) (view_interval vs oi i) a))"

lemma SetSize_result:
  assumes "SetSize s oi vs zs = Some t" "made_views oi d zs" "satisfies m t"
  shows "satisfies m s" "0 < i \<Longrightarrow> i < length zs \<Longrightarrow>
     \<exists>a. i < length vs \<and> view_attributes (vs ! i) oi = Some a \<and> size_follows (model_positions m oi d i) (view_interval vs oi i) a"
    "0 < length zs \<Longrightarrow> model_positions m oi d 0 = (zv_start (zs ! 0), zv_end (zs ! 0))"
proof -
  let ?f = "\<lambda>s i. do { z \<leftarrow> vec_at zs i;
            if zv_pos z = 0 then Some (s @ fixed_position_assertions z)
            else do { v \<leftarrow> vec_at vs i; a \<leftarrow> view_attributes v oi; e \<leftarrow> layout_size oi v a z; Some (s @ [e]) } }"
  let ?P = "\<lambda>i. if i = 0 then model_positions m oi d 0 = (zv_start (zs ! 0), zv_end (zs ! 0))
    else \<exists>a. i < length vs \<and> view_attributes (vs ! i) oi = Some a \<and> size_follows (model_positions m oi d i) (view_interval vs oi i) a"
  have made: "made_view oi d i (zs ! i)" if "i < length zs" for i using assms(2) that by (simp add: made_views_def)
  have steps: "fold_opt ?f s [0..<k] = Some t \<Longrightarrow> satisfies m t \<Longrightarrow> k \<le> length zs \<Longrightarrow> satisfies m s \<and> (\<forall>i < k. ?P i)" for k t
  proof (induction k arbitrary: t)
    case (Suc k)
    then obtain u where u: "fold_opt ?f s [0..<k] = Some u" "?f u k = Some t"
      by (auto simp: fold_opt_append bind_Some_iff)
    have k: "k < length zs" using Suc.prems(3) by simp
    note pos = made_view_pos [OF made [OF k]]
    have "satisfies m u \<and> ?P k"
    proof (cases "k = 0")
      case True
      then have "t = u @ fixed_position_assertions (zs ! 0)" using u(2) k pos by simp
      then show ?thesis using Suc.prems(2) fixed_position_meaning [OF made [OF k]] True by simp
    next
      case False
      then obtain a e where a: "k < length vs" "view_attributes (vs ! k) oi = Some a" "layout_size oi (vs ! k) a (zs ! k) = Some e"
        "t = u @ [e]"
        using u(2) k pos by (auto simp: bind_Some_iff vec_at_Some)
      have "holds m e" "satisfies m u" using Suc.prems(2) a(4) by simp_all
      moreover from this(1) a(3) have "size_follows (model_positions m oi d k) (view_interval vs oi k) a"
        using made [OF k]
        by (auto simp: layout_size_def size_follows_def made_view_def model_positions_def view_interval_def rect_width_def
            rect_height_def Let_def bind_Some_iff CHECK_Some split: if_splits)
      ultimately show ?thesis using a(1,2) False by auto
    qed
    with Suc.IH [OF u(1)] k show ?case by (auto simp: less_Suc_eq simp del: One_nat_def)
  qed simp
  have all: "satisfies m s \<and> (\<forall>i < length zs. ?P i)"
    by (rule steps [OF assms(1) [unfolded SetSize_def] assms(3) le_refl])
  then show "satisfies m s" ..
  have "?P i" if "i < length zs" for i using all that by blast
  note P = this
  show "\<exists>a. i < length vs \<and> view_attributes (vs ! i) oi = Some a \<and> size_follows (model_positions m oi d i) (view_interval vs oi i) a"
    if "0 < i" "i < length zs" using P [OF that(2)] that(1) by simp
  show "model_positions m oi d 0 = (zv_start (zs ! 0), zv_end (zs ! 0))" if "0 < length zs" using P [OF that] by simp
qed

lemma SetMargins_result:
  assumes "SetMargins s oi vs zs = Some t" "made_views oi d zs" "satisfies m t"
  shows "satisfies m s" "0 < i \<Longrightarrow> i < length zs \<Longrightarrow> view_attributes (vs ! i) oi = Some a \<Longrightarrow> attr_src a = i \<Longrightarrow>
     value_primary (model_attr m oi a) = value_primary a \<and> value_secondary (model_attr m oi a) = value_secondary a \<and>
     attr_bias (model_attr m oi a) = six_decimals (attr_bias a)"
proof -
  let ?f = "\<lambda>s i. do { z \<leftarrow> vec_at zs i;
            if zv_pos z = 0 then Some s
            else do { v \<leftarrow> vec_at vs i; a \<leftarrow> view_attributes v oi; Some (s @ margin_assertions a z) } }"
  let ?P = "\<lambda>i. 0 < i \<longrightarrow> (\<forall>a. view_attributes (vs ! i) oi = Some a \<longrightarrow> satisfies m (margin_assertions a (zs ! i)))"
  have made: "made_view oi d i (zs ! i)" if "i < length zs" for i using assms(2) that by (simp add: made_views_def)
  have steps: "fold_opt ?f s [0..<k] = Some t \<Longrightarrow> satisfies m t \<Longrightarrow> k \<le> length zs \<Longrightarrow> satisfies m s \<and> (\<forall>i < k. ?P i)" for k t
  proof (induction k arbitrary: t)
    case (Suc k)
    then obtain u where u: "fold_opt ?f s [0..<k] = Some u" "?f u k = Some t"
      by (auto simp: fold_opt_append bind_Some_iff)
    have k: "k < length zs" using Suc.prems(3) by simp
    have "satisfies m u \<and> ?P k"
      using u(2) k made_view_pos [OF made [OF k]] Suc.prems(2)
      by (auto simp: bind_Some_iff vec_at_Some split: if_splits)
    with Suc.IH [OF u(1)] k show ?case by (auto simp: less_Suc_eq)
  qed simp
  have all: "satisfies m s \<and> (\<forall>i < length zs. ?P i)"
    by (rule steps [OF assms(1) [unfolded SetMargins_def] assms(3) le_refl])
  then show "satisfies m s" ..
  show "value_primary (model_attr m oi a) = value_primary a \<and> value_secondary (model_attr m oi a) = value_secondary a \<and>
     attr_bias (model_attr m oi a) = six_decimals (attr_bias a)"
    if "0 < i" "i < length zs" "view_attributes (vs ! i) oi = Some a" "attr_src a = i"
  proof -
    have "satisfies m (margin_assertions a (zs ! i))" using all that by blast
    then show ?thesis
      using made [OF that(2)] that(4)
      by (simp add: margin_assertions_def made_view_def model_attr_def GetBiasExpr_def zv_uid_def Let_def)
  qed
qed

lemma placed_by_margins:
  assumes "value_primary b = value_primary a" "value_secondary b = value_secondary a" "attr_bias b = attr_bias a"
    and "attr_type b = attr_type a" "attr_view_size b = attr_view_size a" "attr_src b = attr_src a"
      "tgt_primary b = tgt_primary a" "tgt_secondary b = tgt_secondary a"
  shows "placed P b = placed P a" "side_conditions P b = side_conditions P a"
  unfolding placed_def side_conditions_def assms by (rule refl)+

lemma target_view_at:
  "views_ok n vs \<Longrightarrow> made_views oi d zs \<Longrightarrow> length zs = n \<Longrightarrow> j < n \<Longrightarrow> target_view vs zs j = Some (zs ! j)"
  by (simp add: target_view_def views_ok_def)

lemma collected_name_result:
  assumes "views_ok n vs" "made_views oi d zs" "length zs = n" "n \<le> 1000" "i < n"
    and "collected_name oi vs zs (zs ! i) = Some nm"
    and "\<And>a. view_attributes (vs ! i) oi = Some a \<Longrightarrow> attribute_ok n i oi a"
  shows "\<exists>a. view_attributes (vs ! i) oi = Some a \<and> nm = attr_name oi a"
proof -
  have len: "length vs = n" using assms(1) by (simp add: views_ok_def)
  have made: "made_view oi d j (zs ! j)" if "j < n" for j using assms(2,3) that by (simp add: made_views_def)
  obtain a where a: "view_attributes (vs ! i) oi = Some a"
    using assms(5,6) len made_view_pos [OF made [OF assms(5)]] by (auto simp: collected_name_def bind_Some_iff)
  note ok = assms(7) [OF a]
  note range = ok_range [OF ok assms(5)] and target = target_view_at [OF assms(1,2,3)]
  have name: "name_of_constraint (zs ! i) (attr_type a) (attr_view_size a) (zs ! tgt_primary a)
      (map_option ((!) zs) (tgt_secondary a)) = Some (attr_name oi a)"
    by (rule name_of_made(1) [OF assms(2,3,4) ok assms(5)])
  have i: "vec_at_int vs (zv_pos (zs ! i)) = Some (vs ! i)"
    using made_view_pos [OF made [OF assms(5)]] assms(5) len by simp
  from ok have "nm = attr_name oi a"
  proof (cases rule: ok_targets)
    case relational
    then show ?thesis
      using assms(6) name by (simp add: collected_name_def i a target [OF range(2)] name_of_constraint_def)
  next
    case (center j)
    then show ?thesis
      using assms(6) name by (simp add: collected_name_def i a target [OF range(2)] target [OF center(4)] name_of_constraint_def)
  qed
  with a show ?thesis by blast
qed

lemma CollectConstraints_result:
  assumes "views_ok n vs" "made_views oi d zs" "length zs = n" "n \<le> 1000"
    and "CollectConstraints oi vs zs = Some names" "nm \<in> set names"
    and "\<And>i a. i < n \<Longrightarrow> view_attributes (vs ! i) oi = Some a \<Longrightarrow> attribute_ok n i oi a"
  shows "\<exists>i a. i < n \<and> view_attributes (vs ! i) oi = Some a \<and> nm = attr_name oi a"
proof -
  obtain z where "z \<in> set zs" "collected_name oi vs zs z = Some nm"
    using map_opt_set [OF assms(5) [unfolded CollectConstraints_def] assms(6)] by auto
  then obtain i where i: "i < n" "collected_name oi vs zs (zs ! i) = Some nm"
    using assms(3) by (auto simp: in_set_conv_nth)
  from collected_name_result [OF assms(1-4) i assms(7)] i(1) show ?thesis by blast
qed

text \<open>Two well-formed constraints with one name agree in everything but margins, bias and score.\<close>

lemma attr_name_inj:
  assumes "attribute_ok n i oi a" "i < n" "attribute_ok n j oi b" "j < n" "n \<le> 1000" "attr_name oi a = attr_name oi b"
  shows "i = j" "attr_type a = attr_type b" "attr_view_size a = attr_view_size b" "attr_src a = attr_src b"
    "tgt_primary a = tgt_primary b" "tgt_secondary a = tgt_secondary b"
proof -
  have "attr_data oi a = attr_data oi b"
    using attr_name_Some(2) [OF assms(1,2,5)] attr_name_Some(2) [OF assms(3,4,5)] assms(6) by simp
  then have eq: "attr_type a = attr_type b" "attr_view_size a = attr_view_size b" "attr_src a = attr_src b"
    "tgt_primary a = tgt_primary b" "(case tgt_secondary a of None \<Rightarrow> - 1 | Some j \<Rightarrow> int j) = (case tgt_secondary b of None \<Rightarrow> - 1 | Some j \<Rightarrow> int j)"
    by (simp_all add: attr_data_def)
  then show "attr_type a = attr_type b" "attr_view_size a = attr_view_size b" "attr_src a = attr_src b" "tgt_primary a = tgt_primary b"
    "i = j" using assms(1,3) by (simp_all add: attribute_ok_def)
  show "tgt_secondary a = tgt_secondary b" using eq(5) by (auto split: option.splits)
qed

text \<open>Writing the positions of the model back.\<close>

definition other_fields :: "view list \<Rightarrow> view list \<Rightarrow> orientation \<Rightarrow> bool" where
  "other_fields vs ws oi \<longleftrightarrow> length ws = length vs \<and>
     (\<forall>i < length vs. view_pos (ws ! i) = view_pos (vs ! i) \<and>
        (\<forall>oj. oj \<noteq> oi \<longrightarrow> view_interval ws oj i = view_interval vs oj i))"

lemma place_views_result:
  assumes "fold_opt (place_view m oi) vs zs = Some ws" "made_views oi d zs" "length zs = length vs"
  shows "other_fields vs ws oi" "i < length vs \<Longrightarrow>
    view_interval ws oi i = (if i = 0 then view_interval vs oi 0 else model_positions m oi d i)"
proof -
  let ?P = "\<lambda>k ws. other_fields vs ws oi \<and> (\<forall>i < length vs. view_interval ws oi i =
      (if 0 < i \<and> i < k then model_positions m oi d i else view_interval vs oi i))"
  have "fold_opt (place_view m oi) vs (take k zs) = Some ws \<Longrightarrow> k \<le> length zs \<Longrightarrow> ?P k ws" for k ws
  proof (induction k arbitrary: ws)
    case 0
    then show ?case by (simp add: other_fields_def)
  next
    case (Suc k)
    have k: "k < length zs" using Suc.prems(2) by simp
    have made: "made_view oi d k (zs ! k)" using assms(2) k by (simp add: made_views_def)
    obtain us where us: "fold_opt (place_view m oi) vs (take k zs) = Some us" "place_view m oi us (zs ! k) = Some ws"
      using Suc.prems(1) k by (auto simp: take_Suc_conv_app_nth fold_opt_append bind_Some_iff)
    note IH = Suc.IH [OF us(1) less_imp_le [OF k]]
    show ?case
    proof (cases "k = 0")
      case True
      then have "ws = us" using us(2) made_view_pos [OF made] by (simp add: place_view_def)
      with IH True show ?thesis by (auto simp: less_Suc_eq)
    next
      case False
      have "length us = length vs" using IH by (simp add: other_fields_def)
      then obtain z' where z': "AssignPosition m (zs ! k) = Some z'"
        "ws = us[k := set_interval oi (us ! k) (zv_start z') (zv_end z')]"
        using us(2) False made_view_pos [OF made] k assms(3) by (auto simp: place_view_def bind_Some_iff vec_at_Some)
      have p: "(zv_start z', zv_end z') = model_positions m oi d k"
        using z'(1) made by (auto simp: AssignPosition_def get_numeral_int_def made_view_def model_positions_def bind_Some_iff
            split: if_splits)
      have at: "view_interval ws oj i = (if i = k \<and> oj = oi then model_positions m oi d k else view_interval us oj i)"
        if "i < length vs" for oj i
        using p that \<open>length us = length vs\<close>
        by (cases oi; cases oj; cases "i = k") (auto simp: z'(2) view_interval_def set_interval_def nth_list_update)
      have "view_pos (ws ! i) = view_pos (us ! i)" for i
        by (cases "k < length us"; cases "i = k") (auto simp: z'(2) set_interval_def list_update_beyond)
      then have "other_fields vs ws oi" using IH at \<open>length us = length vs\<close> by (auto simp: other_fields_def z'(2))
      moreover have "\<forall>i < length vs. view_interval ws oi i =
          (if 0 < i \<and> i < Suc k then model_positions m oi d i else view_interval vs oi i)"
        using IH at False by (auto simp: less_Suc_eq)
      ultimately show ?thesis by blast
    qed
  qed
  from this [of "length zs" ws] assms(1) have P: "?P (length zs) ws" by simp
  then show "other_fields vs ws oi" ..
  show "i < length vs \<Longrightarrow> view_interval ws oi i = (if i = 0 then view_interval vs oi 0 else model_positions m oi d i)"
    using P assms(3) by auto
qed

definition sound_check :: "smt_env \<Rightarrow> bool" where
  "sound_check env \<longleftrightarrow> (\<forall>s m. env_check env s [] = Sat m \<longrightarrow> satisfies m s)"

lemma Layout_orientation_result:
  assumes env: "sound_check env" and ok: "views_ok n (app_views app)" "views_ok n (app_views ref)" "0 < n" "n \<le> 1000"
    and refs: "\<forall>i < n. \<forall>a. view_attributes (app_views ref ! i) oi = Some a \<longrightarrow> attribute_ok n i oi a"
    and result: "Layout_orientation env app ref oi = Some (SUCCESS, app')"
  shows "laid_out (app_views ref) oi (view_interval (app_views app') oi)"
    "view_interval (app_views app') oi 0 = view_interval (app_views app) oi 0"
    "other_fields (app_views app) (app_views app') oi"
proof -
  let ?vs = "app_views app" and ?rs = "app_views ref"
  obtain zs s1 s2 names st s m ws where r: "ConvertViews ?vs oi 0 = Some zs" "SetSize [] oi ?rs zs = Some s1"
    "SetMargins s1 oi ?rs zs = Some s2" "CollectConstraints oi ?rs zs = Some names"
    "layout_constraints oi names (zs, s2) = Some st" "one_constraint_each (snd st) (fst st) = Some s"
    "env_check env s [] = Sat m" "fold_opt (place_view m oi) ?vs (fst st) = Some ws" "app' = app\<lparr>app_views := ws\<rparr>"
  proof -
    from result obtain zs s1 s2 names st where b: "ConvertViews ?vs oi 0 = Some zs" "SetSize [] oi ?rs zs = Some s1"
      "SetMargins s1 oi ?rs zs = Some s2" "CollectConstraints oi ?rs zs = Some names"
      "layout_constraints oi names (zs, s2) = Some st"
      "(case one_constraint_each (snd st) (fst st) of None \<Rightarrow> Some (INVALID, app)
        | Some s \<Rightarrow> (case env_check env s [] of
                 Sat m \<Rightarrow> do { vs \<leftarrow> fold_opt (place_view m oi) (app_views app) (fst st);
                               Some (SUCCESS, app\<lparr>app_views := vs\<rparr>) }
               | _ \<Rightarrow> Some (UNSAT, app))) = Some (SUCCESS, app')"
      unfolding Layout_orientation_def bind_Some_iff by blast
    obtain s where s: "one_constraint_each (snd st) (fst st) = Some s" using b(6) by (auto split: option.splits)
    obtain m where m: "env_check env s [] = Sat m" using b(6) s by (auto split: check_result.splits)
    obtain ws where "fold_opt (place_view m oi) ?vs (fst st) = Some ws" "app' = app\<lparr>app_views := ws\<rparr>"
      using b(6) s m by (auto simp: bind_Some_iff)
    with that b(1-5) s m show thesis by blast
  qed
  have pos: "\<forall>i < length ?vs. view_pos (?vs ! i) = int i" "length ?vs = n" "length ?rs = n"
    using ok(1,2) by (simp_all add: views_ok_def)
  note z = ConvertViews_result [OF r(1) pos(1), unfolded pos(2)]
  have start: "encoded oi 0 n (\<lambda>nm. nm \<in> set names) s2 (zs, s2)"
    using z by (simp add: encoded_def)
  have filt: "keeping (\<lambda>nm. nm \<in> set names) (only_named names)" by (auto simp: keeping_def only_named_def)
  have enc: "encoded oi 0 n (\<lambda>nm. nm \<in> set names) s2 st"
    by (rule all_constraints_kept [OF start filt filt filt ok(4)]) (use r(5) in \<open>simp add: layout_constraints_def\<close>)
  have sat: "satisfies m s" using env r(7) by (simp add: sound_check_def)
  have each: "\<forall>z \<in> set (fst st). zv_pos z = 0 \<or> length (zv_constraints z) = 1"
    and s: "s = snd st @ concat (map (\<lambda>z. if zv_pos z = 0 then [] else [BoolConst (hd (zv_constraints z))]) (fst st))"
    using r(6) by (simp_all add: one_constraint_each_def split: if_splits)
  have sat_st: "satisfies m (snd st)" using sat by (simp add: s)
  then have sat2: "satisfies m s2" using enc satisfies_subset by (auto simp: encoded_def)
  note margins = SetMargins_result [OF r(3) z(2) sat2]
  note sizes = SetSize_result [OF r(2) z(2) margins(1)]
  have made: "made_views oi 0 (fst st)" "length (fst st) = n" using enc by (simp_all add: encoded_def)
  have "length (fst st) = length ?vs" using made(2) pos(2) by simp
  note placed = place_views_result [OF r(8) made(1) this]
  have ivs: "view_interval ws oi i = model_positions m oi 0 i" if "i < n" for i
    using placed(2) that pos(2) sizes(3) z(1,3) ok(3) by (metis)
  have laid: "\<exists>a. view_attributes (?rs ! i) oi = Some a \<and> (IsRelationalAnchor (attr_type a) \<longrightarrow> attr_view_size a = FIXED) \<and>
      candidate_holds m oi 0 a \<and> model_attr m oi a = printed_attr a \<and>
      size_follows (model_positions m oi 0 i) (view_interval ?rs oi i) a" if i: "0 < i" "i < n" for i
  proof -
    have zi: "fst st ! i \<in> set (fst st)" "zv_pos (fst st ! i) \<noteq> 0"
      using made i made_view_pos [of oi 0 i "fst st ! i"] by (simp_all add: made_views_def)
    then have one: "length (zv_constraints (fst st ! i)) = 1" using each by blast
    then obtain nm where nm: "zv_constraints (fst st ! i) = [nm]" by (cases "zv_constraints (fst st ! i)") auto
    have "BoolConst nm \<in> set s" using zi nm unfolding s by force
    then have "bool_interp m nm" using satisfies_mem [OF sat] by fastforce
    moreover have "nm \<in> set names" "clause_says oi 0 n i (snd st) nm"
      using enc i(2) nm by (simp_all add: encoded_def)
    ultimately obtain b where b: "attribute_ok n i oi b" "nm = attr_name oi b"
      "IsRelationalAnchor (attr_type b) \<longrightarrow> attr_view_size b = FIXED" "candidate_holds m oi 0 b"
      using sat_st by (auto simp: clause_says_def)
    obtain j a where a: "j < n" "view_attributes (?rs ! j) oi = Some a" "nm = attr_name oi a"
      using CollectConstraints_result [OF ok(2) z(2,1) ok(4) r(4) \<open>nm \<in> set names\<close>] refs by blast
    have aok: "attribute_ok n j oi a" using refs a(1,2) by blast
    note same = attr_name_inj [OF b(1) i(2) aok a(1) ok(4) a(3) [unfolded b(2)]]
    have ai: "view_attributes (?rs ! i) oi = Some a" "attr_src a = i" using a(2) same(1) aok by (simp_all add: attribute_ok_def)
    have "value_primary (model_attr m oi a) = value_primary a \<and> value_secondary (model_attr m oi a) = value_secondary a \<and>
        attr_bias (model_attr m oi a) = six_decimals (attr_bias a)"
      using margins(2) [of i a] i z(1) ai by simp
    then have "model_attr m oi a = printed_attr a" by (simp add: printed_attr_def)
    moreover have "candidate_holds m oi 0 a"
      using b(4) placed_by_margins [of "model_attr m oi b" "model_attr m oi a"] same
      by (simp add: candidate_holds_def model_attr_def Let_def)
    moreover obtain a' where "view_attributes (?rs ! i) oi = Some a'" "size_follows (model_positions m oi 0 i) (view_interval ?rs oi i) a'"
      using sizes(2) [of i] i z(1) by auto
    ultimately show ?thesis using ai b(3) same(2,3) by auto
  qed
  show "laid_out ?rs oi (view_interval (app_views app') oi)"
    unfolding laid_out_def pos(3)
  proof (intro allI impI)
    fix i assume i: "0 < i \<and> i < n"
    then obtain a where a: "view_attributes (?rs ! i) oi = Some a" "IsRelationalAnchor (attr_type a) \<longrightarrow> attr_view_size a = FIXED"
      "candidate_holds m oi 0 a" "model_attr m oi a = printed_attr a"
      "size_follows (model_positions m oi 0 i) (view_interval ?rs oi i) a" using laid by blast
    have ok_a: "attribute_ok n i oi a" using refs a(1) i by blast
    have "placed (view_interval ws oi) (printed_attr a)" "side_conditions (view_interval ws oi) (printed_attr a)"
      using a(3) placed_cong [OF ok_a _ ivs, where b = "printed_attr a"] i
      unfolding candidate_holds_def a(4) by (simp_all add: printed_attr_def)
    then show "\<exists>a. view_attributes (?rs ! i) oi = Some a \<and> (IsRelationalAnchor (attr_type a) \<longrightarrow> attr_view_size a = FIXED) \<and>
        placed (view_interval (app_views app') oi) (printed_attr a) \<and>
        side_conditions (view_interval (app_views app') oi) (printed_attr a) \<and>
        size_follows (view_interval (app_views app') oi i) (view_interval ?rs oi i) a"
      using a(1,2,5) ivs i r(9) by auto
  qed
  show "view_interval (app_views app') oi 0 = view_interval ?vs oi 0" "other_fields ?vs (app_views app') oi"
    using placed ok(3) pos(2) r(9) by simp_all
qed

definition frame_interval :: "int \<Rightarrow> int \<Rightarrow> int \<Rightarrow> int \<Rightarrow> orientation \<Rightarrow> int \<times> int" where
  "frame_interval l t r b oi = (if oi = HORIZONTAL then (l, r) else (t, b))"

lemma Layout_result:
  assumes env: "sound_check env" and ok: "views_ok n (app_views ref)" "0 < n" "n \<le> 1000" "is_content_frame (app_views ref ! 0)"
    and refs: "\<And>oi. refs_wf (app_views ref) oi"
    and result: "Layout env ref l t r b = Some (SUCCESS, c)"
  shows "laid_out (app_views ref) oi (view_interval (app_views c) oi)"
    "view_interval (app_views c) oi 0 = frame_interval l t r b oi" "length (app_views c) = n"
proof -
  let ?app = "frame_only (\<lambda>v. View_make l t r b (view_name v) (view_id v) None) ref"
  have len: "length (app_views ref) = n" using ok(1) by (simp add: views_ok_def)
  have refs': "\<forall>i < n. \<forall>a. view_attributes (app_views ref ! i) oj = Some a \<longrightarrow> attribute_ok n i oj a" for oj
    using refs [of oj] len by (simp add: refs_wf_def)
  obtain h where h: "Layout_orientation env ?app ref HORIZONTAL = Some (SUCCESS, h)"
    "Layout_orientation env h ref VERTICAL = Some (SUCCESS, c)"
    using result by (auto simp: Layout_def Let_def bind_Some_iff split: if_splits)
  note H = Layout_orientation_result [OF env frame_only_ok [OF ok(1)] ok(1,2,3) refs' h(1)]
  have "views_ok n (app_views h)"
    using H(3) frame_only_ok [OF ok(1)] by (simp add: other_fields_def views_ok_def)
  note V = Layout_orientation_result [OF env this ok(1,2,3) refs' h(2)]
  have same: "view_interval (app_views c) HORIZONTAL i = view_interval (app_views h) HORIZONTAL i" if "i < n" for i
    using V(3) \<open>views_ok n (app_views h)\<close> that by (simp add: other_fields_def views_ok_def)
  show "length (app_views c) = n" using V(3) \<open>views_ok n (app_views h)\<close> by (simp add: other_fields_def views_ok_def)
  have "view_interval (app_views h) VERTICAL 0 = view_interval (app_views ?app) VERTICAL 0"
    using H(3) ok(1,2) frame_only_views(1) len by (simp add: other_fields_def)
  moreover have "view_interval (app_views ?app) oj 0 = frame_interval l t r b oj" for oj
    using ok(2,4) len by (simp add: view_interval_def frame_only_views View_make_def frame_interval_def)
  ultimately show "view_interval (app_views c) oi 0 = frame_interval l t r b oi"
    using H(2) V(2) same [OF ok(2)] by (cases oi) simp_all
  have "laid_out (app_views ref) HORIZONTAL (view_interval (app_views c) HORIZONTAL)"
    unfolding laid_out_def len
  proof (intro allI impI)
    fix i assume i: "0 < i \<and> i < n"
    let ?P = "view_interval (app_views h) HORIZONTAL" and ?Q = "view_interval (app_views c) HORIZONTAL"
    obtain a where a: "view_attributes (app_views ref ! i) HORIZONTAL = Some a"
      "IsRelationalAnchor (attr_type a) \<longrightarrow> attr_view_size a = FIXED" "placed ?P (printed_attr a)"
      "side_conditions ?P (printed_attr a)" "size_follows (?P i) (view_interval (app_views ref) HORIZONTAL i) a"
      using H(1) i len unfolding laid_out_def by blast
    have "attribute_ok n i HORIZONTAL a" using refs' a(1) i by blast
    note cong = placed_cong [OF this _ same, where b = "printed_attr a"]
    have "placed ?Q (printed_attr a)" "side_conditions ?Q (printed_attr a)"
      using a(3,4) cong i by (simp_all add: printed_attr_def)
    then show "\<exists>a. view_attributes (app_views ref ! i) HORIZONTAL = Some a \<and>
        (IsRelationalAnchor (attr_type a) \<longrightarrow> attr_view_size a = FIXED) \<and> placed ?Q (printed_attr a) \<and>
        side_conditions ?Q (printed_attr a) \<and> size_follows (?Q i) (view_interval (app_views ref) HORIZONTAL i) a"
      using a(1,2,5) same i by auto
  qed
  with V(1) show "laid_out (app_views ref) oi (view_interval (app_views c) oi)" by (cases oi) simp_all
qed

section \<open>Laying out a synthesised screen\<close>




section \<open>The properties\<close>

text \<open>A screen with one view, and a solver that knows one model.\<close>

definition duo :: app where
  "duo =
     \<lparr>seq_id_to_pos = [0, 1], app_resizable = [False, False],
      app_views = [(View_make 0 0 100 200 ''root'' 0 None)\<lparr>view_pos := 0\<rparr>,
        (View_make 10 20 50 40 ''A'' 1 None)\<lparr>view_pos := 1\<rparr>]\<rparr>"

definition duo_model :: z3_model where
  "duo_model =
     \<lparr>int_interp = (\<lambda>s. case map_of
        [(''end_0_0'', 100), (''start_1_0'', 10), (''end_1_0'', 50), (''end_1000_0'', 200), (''start_1001_0'', 20),
         (''end_1001_0'', 40), (''mstart_1'', 10), (''mstart_1001'', 20), (''anchor_1'', 1), (''anchor_1001'', 1)] s of
          Some i \<Rightarrow> i | None \<Rightarrow> 0),
      real_interp = (\<lambda>s. 1 / 2), bool_interp = (\<lambda>s. True)\<rparr>"

definition duo_env :: smt_env where
  "duo_env =
     \<lparr>env_check = (\<lambda>s t. if satisfies duo_model (s @ t) then Sat duo_model else Unknown), env_core = (\<lambda>s t. []),
      env_optimize = (\<lambda>s c. Unknown), env_late = (\<lambda>s. False), env_decimal = (\<lambda>k r. ''0.5'')\<rparr>"

lemma duo_facts: "blank_app duo" "model_answers (\<lambda>vs a. Some 0) (app_views duo)" "length (app_views duo) = 2"
  "sound_check duo_env"
  by (auto simp: blank_app_def synth_ready_def duo_def View_make_def is_content_frame_def view_interval_def
      model_answers_def sound_check_def duo_env_def nth_Cons split: nat.splits if_splits)

lemma duo_layout:
  "SynthesizeLayout (\<lambda>vs a. Some 0) duo \<bind> (\<lambda>b. map_option fst (Layout duo_env b 0 0 100 200)) = Some SUCCESS"
  by code_simp

lemma duo_synthesized:
  obtains b c where "SynthesizeLayout (\<lambda>vs a. Some 0) duo = Some b" "Layout duo_env b 0 0 100 200 = Some (SUCCESS, c)"
  using duo_layout by (auto simp: bind_Some_iff)

lemma SynthesizeLayout_views_ok:
  assumes "blank_app a" "model_answers model (app_views a)" "SynthesizeLayout model a = Some b"
  shows "views_ok (length (app_views a)) (app_views b)" "is_content_frame (app_views b ! 0)" "0 < length (app_views a)"
    "refs_wf (app_views b) oi"
    "\<forall>i < length (app_views b). \<forall>x. view_attributes (app_views b ! i) oi = Some x \<longrightarrow> attr_bias x = 1 / 2"
    "i < length (app_views a) \<Longrightarrow> anchored_in (app_views b) oi i"
    "i < length (app_views a) \<Longrightarrow> view_interval (app_views b) oi i = view_interval (app_views a) oi i"
proof -
  let ?vs = "app_views a" and ?ws = "app_views b"
  obtain us where same: "same_except HORIZONTAL ?vs us" "same_except VERTICAL us ?ws"
    and syn: "synthesized ?vs ?ws oi"
    using SynthesizeLayout_steps [OF assms(1,2)] assms(3) by auto
  have len: "length us = length ?vs" "length ?ws = length ?vs"
    using same_except_length [OF same(1)] same_except_length [OF same(2)] by simp_all
  note simps = same_except_simps [OF same(1)] same_except_simps [OF same(2)]
  have ready: "synth_ready ?vs HORIZONTAL" using assms(1) by (simp add: blank_app_def)
  then show n: "0 < length ?vs" by (auto simp: synth_ready_def)
  show "views_ok (length ?vs) ?ws" using ready len simps by (simp add: views_ok_def synth_ready_def)
  show frame: "is_content_frame (?ws ! 0)" using ready len n simps(4,9) [of 0] by (simp add: synth_ready_def)
  show "refs_wf ?ws oi" using syn by (simp add: synthesized_def)
  show "\<forall>i < length ?ws. \<forall>x. view_attributes (?ws ! i) oi = Some x \<longrightarrow> attr_bias x = 1 / 2"
    using syn len by (simp add: synthesized_def generated_ok_def)
  show "i < length ?vs \<Longrightarrow> anchored_in ?ws oi i" using synthesized_anchored [OF syn len(2)] frame by blast
  show "i < length ?vs \<Longrightarrow> view_interval ?ws oi i = view_interval ?vs oi i" using len simps by simp
qed

text \<open>
  C12. A layout that \<^verbatim>\<open>LayoutSolver\<close> returns with success for a screen and a frame fills the frame
  and, in both orientations, every view has its constraint there (a centered view up to the
  rounding to whole pixels) and the size of the reference when that is fixed.
\<close>

theorem Layout_satisfies:
  assumes "sound_check env" "views_ok n (app_views ref)" "0 < n" "n \<le> 1000" "is_content_frame (app_views ref ! 0)"
    and "refs_wf (app_views ref) HORIZONTAL" "refs_wf (app_views ref) VERTICAL"
    and "Layout env ref l t r b = Some (SUCCESS, c)"
  shows "length (app_views c) = n \<and> (\<forall>oi. laid_out (app_views ref) oi (view_interval (app_views c) oi) \<and>
    view_interval (app_views c) oi 0 = frame_interval l t r b oi)"
proof -
  have refs: "refs_wf (app_views ref) oi" for oi using assms(6,7) by (cases oi) simp_all
  note result = Layout_result [OF assms(1-5) refs assms(8)]
  show ?thesis using result by blast
qed

lemma Layout_satisfies_witness:
  "\<exists>ref c. Layout duo_env ref 0 0 100 200 = Some (SUCCESS, c) \<and> laid_out (app_views ref) VERTICAL (view_interval (app_views c) VERTICAL)"
proof -
  obtain b c where b: "SynthesizeLayout (\<lambda>vs a. Some 0) duo = Some b" "Layout duo_env b 0 0 100 200 = Some (SUCCESS, c)"
    by (rule duo_synthesized)
  note ok = SynthesizeLayout_views_ok [OF duo_facts(1,2) b(1), unfolded duo_facts(3)]
  have "(2 :: nat) \<le> 1000" by simp
  from Layout_satisfies [OF duo_facts(4) ok(1,3) this ok(2) ok(4) ok(4) b(2)] b(2) show ?thesis by blast
qed



end
