(* ===== verification/Multi_Device.thy ===== *)
theory Multi_Device
  imports App_Properties All_Constraints
begin

text \<open>
  The synthesis that solves one orientation at a time
  (\<^verbatim>\<open>src/inferui/inferui/synthesis/z3inference.cpp\<close>): \<^verbatim>\<open>Synthesize\<close> for a single screen,
  \<^verbatim>\<open>SynthesizeMultiDevice\<close> with all constraints and several devices, and
  \<^verbatim>\<open>SynthesizeMultiDeviceProb\<close>, which first looks for satisfiable candidates
  (\<^verbatim>\<open>GetSatConstraints\<close>), with the functions that run it for the vertical and then the horizontal
  orientation. The lemmas give what a model of each query says about the reference screen and the
  devices, the robustness properties included, and show that the search for candidates returns.
\<close>

section \<open>One screen\<close>

definition keep_all_constraints :: "orientation \<Rightarrow> enc_state \<Rightarrow> enc_state option" where
  "keep_all_constraints oi st =
     do { st1 \<leftarrow> ForEachNonRootView (AddFixedSizeRelationalConstraint keep_all oi) st;
          st2 \<leftarrow> ForEachNonRootView (AddFixedSizeCenteringConstraint keep_all oi) st1;
          ForEachNonRootView (AddMatchConstraintCenteringConstraint keep_all oi) st2 }"

text \<open>\<^verbatim>\<open>Synthesize\<close>; here the bias of a view is free in the unit interval.\<close>

definition FullSynthesis_Synthesize :: "smt_env \<Rightarrow> app \<Rightarrow> orientation \<Rightarrow> (status \<times> app) option" where
  "FullSynthesis_Synthesize env app oi =
     do { zs \<leftarrow> ConvertViews (app_views app) oi 0;
          st \<leftarrow> keep_all_constraints oi (zs, AddAnchorConstraints (AddPositionConstraints [] zs False) zs);
          s \<leftarrow> FinishedAddingConstraints (snd st) (fst st);
          case env_check env s (GetAssumptions (fst st)) of
            Sat m \<Rightarrow> do { vs \<leftarrow> assign_models env m oi (fst st) (app_views app); Some (SUCCESS, app\<lparr>app_views := vs\<rparr>) }
          | res \<Rightarrow> Some (failure_status env s res, app) }"

definition FullSynthesis_SynthesizeLayout :: "smt_env \<Rightarrow> app \<Rightarrow> (status \<times> app) option" where
  "FullSynthesis_SynthesizeLayout env app =
     do { h \<leftarrow> FullSynthesis_Synthesize env app HORIZONTAL;
          if fst h = SUCCESS then FullSynthesis_Synthesize env (snd h) VERTICAL else Some h }"

section \<open>All constraints on several devices\<close>

text \<open>The size of a view on a device stays between half and twice the size on the reference screen.\<close>

definition size_range :: "bool \<Rightarrow> z3_view list \<Rightarrow> z3_view list \<Rightarrow> nat \<Rightarrow> assertions option" where
  "size_range skip_fixed zs zd i =
     do { r \<leftarrow> vec_at zs i;
          let w = zv_end r - zv_start r;
          if skip_fixed \<and> zv_HasFixedPosition r \<or> w \<le> 0 then Some []
          else do { d \<leftarrow> vec_at zd i;
                    let size = NumSub (position_end_v d) (position_start_v d);
                    Some [And (NumLt (IntVal (w sdiv 2)) size) (NumLt size (IntVal (w * 2)))] } }"

definition size_ranges :: "bool \<Rightarrow> assertions \<Rightarrow> z3_view list \<Rightarrow> z3_view list \<Rightarrow> assertions option" where
  "size_ranges skip_fixed s zs zd =
     do { as \<leftarrow> map_opt (size_range skip_fixed zs zd) [1..<length zs]; Some (s @ concat as) }"

definition robust_assertions ::
    "bool \<Rightarrow> app \<Rightarrow> orientation \<Rightarrow> z3_view list \<Rightarrow> app \<Rightarrow> z3_view list \<Rightarrow> assertions \<Rightarrow> assertions option" where
  "robust_assertions skip_fixed app oi zs device_app zd s =
     do { s1 \<leftarrow> size_ranges skip_fixed s zs zd;
          s2 \<leftarrow> AssertNotOutOfBounds s1 zd;
          s3 \<leftarrow> AssertKeepsIntersection s2 (app_views app) zs zd;
          s4 \<leftarrow> AssertKeepsCentering s3 (app_views app) zs zd;
          s5 \<leftarrow> AssertKeepsMargins s4 (app_views app) zs zd;
          if oi = HORIZONTAL then AssertKeepsSizeRatio s5 (app_views app) zs zd (app_views device_app) else Some s5 }"

text \<open>
  One device of \<^verbatim>\<open>SynthesizeMultiDevice\<close>. The filter of the third generator uses a name \<^verbatim>\<open>cond\<close>
  that the source does not declare; it is a parameter.
\<close>

definition encode_all_device ::
    "z3_bool \<Rightarrow> app \<Rightarrow> orientation \<Rightarrow> z3_view list \<Rightarrow> app \<Rightarrow> z3_view list \<Rightarrow> assertions \<Rightarrow> enc_state option" where
  "encode_all_device outer_cond app oi zs device_app zd s =
     do { root \<leftarrow> vec_at zd 0;
          s1 \<leftarrow> robust_assertions False app oi zs device_app zd (s @ fixed_position_assertions root);
          gen_constraints outer_cond (\<lambda>src name. Some True) (app_views app) oi (zd, s1) }"

definition encode_all_devices ::
    "z3_bool \<Rightarrow> app \<Rightarrow> orientation \<Rightarrow> z3_view list \<Rightarrow> (app \<times> z3_view list) list \<Rightarrow> assertions \<Rightarrow>
      (z3_view list list \<times> assertions) option" where
  "encode_all_devices outer_cond app oi zs devs s =
     fold_opt (\<lambda>st d. do { e \<leftarrow> encode_all_device outer_cond app oi zs (fst d) (snd d) (snd st);
                            Some (fst st @ [fst e], snd e) }) ([], s) devs"

definition SynthesizeMultiDevice ::
    "smt_env \<Rightarrow> z3_bool \<Rightarrow> attr_scorer option \<Rightarrow> app \<Rightarrow> orientation \<Rightarrow> app list \<Rightarrow> (status \<times> app \<times> app list) option" where
  "SynthesizeMultiDevice env outer_cond scorer app oi device_apps =
     do { CHECK (scorer = None);
          zs \<leftarrow> ConvertViews (app_views app) oi 0;
          st \<leftarrow> keep_all_constraints oi (zs, AddAnchorConstraints (AddPositionConstraints [] zs False) zs);
          zds \<leftarrow> convert_devices device_apps oi;
          ds \<leftarrow> encode_all_devices outer_cond app oi (fst st) (zip device_apps zds) (snd st);
          s \<leftarrow> FinishedAddingConstraints (snd ds) (fst st);
          case env_check env s (GetAssumptions (fst st)) of
            Sat m \<Rightarrow>
              do { vs \<leftarrow> assign_models env m oi (fst st) (app_views app);
                   apps \<leftarrow> assign_devices (\<lambda>_. False) m oi (fst ds) device_apps;
                   Some (SUCCESS, app\<lparr>app_views := vs\<rparr>, apps) }
          | res \<Rightarrow> Some (failure_status env s res, app, device_apps) }"

text \<open>A synthesis of one orientation, run for the vertical and on success for the horizontal one.\<close>

definition vertical_then_horizontal ::
    "(orientation \<Rightarrow> app \<Rightarrow> app list \<Rightarrow> (status \<times> app \<times> app list) option) \<Rightarrow> app \<Rightarrow> app list \<Rightarrow>
      (status \<times> app \<times> app list) option" where
  "vertical_then_horizontal f app apps =
     do { v \<leftarrow> f VERTICAL app apps;
          if fst v = SUCCESS then f HORIZONTAL (fst (snd v)) (snd (snd v)) else Some v }"

definition resize_devices :: "app \<Rightarrow> device \<Rightarrow> device list \<Rightarrow> app list option" where
  "resize_devices app ref_device devices = map_opt (\<lambda>d. ResizeApp app ref_device d) devices"

text \<open>\<^verbatim>\<open>SynthesizeLayoutMultiDevice\<close>, without and with a probability model.\<close>

definition SynthesizeLayoutMultiDevice ::
    "smt_env \<Rightarrow> z3_bool \<Rightarrow> app \<Rightarrow> device \<Rightarrow> device list \<Rightarrow> (status \<times> app \<times> app list) option" where
  "SynthesizeLayoutMultiDevice env outer_cond app ref_device devices =
     do { apps \<leftarrow> resize_devices app ref_device devices;
          vertical_then_horizontal (\<lambda>oi a ds. SynthesizeMultiDevice env outer_cond None a oi ds) app apps }"

definition SynthesizeLayoutMultiDevice_model ::
    "smt_env \<Rightarrow> z3_bool \<Rightarrow> prob_model \<Rightarrow> app \<Rightarrow> device \<Rightarrow> device list \<Rightarrow> (status \<times> app \<times> app list) option" where
  "SynthesizeLayoutMultiDevice_model env outer_cond model app ref_device devices =
     do { apps \<leftarrow> resize_devices app ref_device devices;
          scorers \<leftarrow> both (\<lambda>oi. AttrScorer model (app_views app) oi);
          vertical_then_horizontal (\<lambda>oi a ds. SynthesizeMultiDevice env outer_cond (Some (scorers oi)) a oi ds) app apps }"

section \<open>Satisfiable candidates for several devices\<close>

record device_query =
  dq_cands :: candidate_constraints
  dq_views :: "z3_view list"
  dq_devices :: "z3_view list list"
  dq_assertions :: assertions

definition encode_prob_device ::
    "bool \<Rightarrow> bool \<Rightarrow> app \<Rightarrow> orientation \<Rightarrow> z3_view list \<Rightarrow> candidate_constraints \<Rightarrow> app \<times> z3_view list \<Rightarrow> assertions \<Rightarrow>
      (candidate_constraints \<times> enc_state) option" where
  "encode_prob_device user_input robust app oi zs c d s =
     do { root \<leftarrow> vec_at (snd d) 0;
          let s1 = s @ fixed_position_assertions root;
          s2 \<leftarrow> (if user_input then known_positions (length zs) (snd d) s1 else Some s1);
          s3 \<leftarrow> (if robust then robust_assertions True app oi zs (fst d) (snd d) s2 else Some s2);
          AddGenAttributes (app_views app) oi c (snd d, s3) }"

definition device_constraints ::
    "bool \<Rightarrow> bool \<Rightarrow> bool \<Rightarrow> app \<Rightarrow> orientation \<Rightarrow> app list \<Rightarrow> candidate_constraints \<Rightarrow> device_query option" where
  "device_constraints opt user_input robust app oi device_apps cands =
     do { zs \<leftarrow> ConvertViews (app_views app) oi 0;
          r \<leftarrow> encode_reference opt cands zs [];
          zds \<leftarrow> convert_devices device_apps oi;
          ds \<leftarrow> each_device (encode_prob_device user_input robust app oi (fst (snd r))) (fst r)
                  (zip device_apps zds) (snd (snd r));
          Some \<lparr>dq_cands = fst ds, dq_views = fst (snd r), dq_devices = fst (snd ds), dq_assertions = snd (snd ds)\<rparr> }"

text \<open>The ranks of the views in the core are raised by ten.\<close>

definition raise_unsat ::
    "z3_bool list \<Rightarrow> candidate_constraints \<Rightarrow> z3_view list \<Rightarrow> (candidate_constraints \<times> z3_view list) option" where
  "raise_unsat core c zs = fold_opt (raise_view 10) (c, zs) (GetUnsatViews core zs)"

definition more_device_constraints ::
    "view list \<Rightarrow> orientation \<Rightarrow> z3_bool list \<Rightarrow> device_query \<Rightarrow> device_query option" where
  "more_device_constraints app_vs oi core q =
     do { cz \<leftarrow> raise_unsat core (dq_cands q) (dq_views q);
          r \<leftarrow> extend_constraints app_vs oi cz (dq_devices q) (dq_assertions q);
          Some \<lparr>dq_cands = fst r, dq_views = fst (snd r), dq_devices = fst (snd (snd r)),
                dq_assertions = snd (snd (snd r))\<rparr> }"

text \<open>
  The loop of \<^verbatim>\<open>GetSatConstraints\<close> has at most 50 rounds; \<open>k\<close> counts the remaining ones and
  \<open>add_more\<close> adds constraints for a core.
\<close>

primrec device_sat_loop ::
    "smt_env \<Rightarrow> (z3_bool list \<Rightarrow> device_query \<Rightarrow> device_query option) \<Rightarrow> nat \<Rightarrow> device_query \<Rightarrow> (status \<times> device_query) option" where
  "device_sat_loop env add_more 0 q =
     (case env_check env (dq_assertions q) (GetAssumptions (dq_views q)) of
        Sat m \<Rightarrow> Some (SUCCESS, q)
      | res \<Rightarrow> Some (failure_status env (dq_assertions q) res, q))"
| "device_sat_loop env add_more (Suc k) q =
     (case env_check env (dq_assertions q) (GetAssumptions (dq_views q)) of
        Sat m \<Rightarrow> Some (SUCCESS, q)
      | Unknown \<Rightarrow> Some (failure_status env (dq_assertions q) Unknown, q)
      | Unsat \<Rightarrow>
          if env_late env (dq_assertions q) then Some (TIMEOUT, q)
          else do { q' \<leftarrow> add_more (env_core env (dq_assertions q) (GetAssumptions (dq_views q))) q;
                    device_sat_loop env add_more k q' })"

definition GetSatConstraints ::
    "smt_env \<Rightarrow> bool \<Rightarrow> bool \<Rightarrow> attr_scorer \<Rightarrow> app \<Rightarrow> orientation \<Rightarrow> app list \<Rightarrow>
      (status \<times> candidate_constraints) option" where
  "GetSatConstraints env user_input robust scorer app oi device_apps =
     do { c \<leftarrow> start_candidates (\<lambda>_. scorer) (app_views app) oi;
          q \<leftarrow> device_constraints False user_input robust app oi device_apps c;
          r \<leftarrow> device_sat_loop env (more_device_constraints (app_views app) oi) 50 (q\<lparr>dq_cands := FinishAdding (dq_cands q)\<rparr>);
          Some (fst r, dq_cands (snd r)) }"

definition SynthesizeMultiDeviceProb ::
    "smt_env \<Rightarrow> bool \<Rightarrow> bool \<Rightarrow> bool \<Rightarrow> attr_scorer \<Rightarrow> orientation \<Rightarrow> app \<Rightarrow> app list \<Rightarrow> (status \<times> app \<times> app list) option" where
  "SynthesizeMultiDeviceProb env user_input robust opt scorer oi app device_apps =
     do { r \<leftarrow> GetSatConstraints env user_input robust scorer app oi device_apps;
          if fst r \<noteq> SUCCESS then Some (fst r, app, device_apps)
          else do {
            q \<leftarrow> device_constraints opt user_input robust app oi device_apps (ResetAdding (snd r));
            let s = dq_assertions q @ GetAssumptions (dq_views q);
            let cost = (if opt then Some (cost_of_views (dq_views q) (IntVal 0)) else None);
            case env_optimize env s cost of
              Sat m \<Rightarrow>
                do { vs \<leftarrow> assign_models env m oi (dq_views q) (app_views app);
                     apps \<leftarrow> (if user_input then Some device_apps
                              else assign_devices (\<lambda>_. False) m oi (dq_devices q) device_apps);
                     Some (SUCCESS, app\<lparr>app_views := vs\<rparr>, apps) }
            | res \<Rightarrow> Some (failure_status env s res, app, device_apps) } }"

section \<open>The callers\<close>

text \<open>\<^verbatim>\<open>SynthesizeLayoutMultiDeviceProb\<close>, for given layouts of the devices and for their sizes.\<close>

definition SynthesizeLayoutMultiDeviceProb_apps ::
    "smt_env \<Rightarrow> bool \<Rightarrow> prob_model \<Rightarrow> app \<Rightarrow> app list \<Rightarrow> (status \<times> app \<times> app list) option" where
  "SynthesizeLayoutMultiDeviceProb_apps env opt model app device_apps =
     do { scorers \<leftarrow> both (\<lambda>oi. AttrScorer model (app_views app) oi);
          vertical_then_horizontal
            (\<lambda>oi a ds. SynthesizeMultiDeviceProb env True (device_apps \<noteq> []) opt (scorers oi) oi a ds) app device_apps }"

definition SynthesizeLayoutMultiDeviceProb ::
    "smt_env \<Rightarrow> bool \<Rightarrow> prob_model \<Rightarrow> app \<Rightarrow> device \<Rightarrow> device list \<Rightarrow> (status \<times> app \<times> app list) option" where
  "SynthesizeLayoutMultiDeviceProb env opt model app ref_device devices =
     do { apps \<leftarrow> resize_devices app ref_device devices;
          scorers \<leftarrow> both (\<lambda>oi. AttrScorer model (app_views app) oi);
          vertical_then_horizontal
            (\<lambda>oi a ds. SynthesizeMultiDeviceProb env False (devices \<noteq> []) opt (scorers oi) oi a ds) app apps }"

definition SynthesizeLayoutMultiAppsProb ::
    "smt_env \<Rightarrow> bool \<Rightarrow> prob_model \<Rightarrow> app \<Rightarrow> app list \<Rightarrow> (status \<times> app \<times> app list) option" where
  "SynthesizeLayoutMultiAppsProb env opt model app device_apps =
     do { scorers \<leftarrow> both (\<lambda>oi. AttrScorer model (app_views app) oi);
          vertical_then_horizontal
            (\<lambda>oi a ds. SynthesizeMultiDeviceProb env True False opt (scorers oi) oi a ds) app device_apps }"

text \<open>
  \<^verbatim>\<open>SynthesizeLayoutMultiDeviceProbUser\<close>: the callback may change the layouts of the devices, which
  it shares with the caller.
\<close>

partial_function (option) prob_user_loop ::
    "smt_env \<Rightarrow> bool \<Rightarrow> bool \<Rightarrow> (orientation \<Rightarrow> attr_scorer) \<Rightarrow> ('s \<Rightarrow> app \<Rightarrow> app list \<Rightarrow> bool \<times> app list \<times> 's) \<Rightarrow> 's \<Rightarrow>
      app \<Rightarrow> app list \<Rightarrow> (status \<times> app \<times> app list) option" where
  "prob_user_loop env opt robust scorers cb st app device_apps =
     do { r \<leftarrow> vertical_then_horizontal
                 (\<lambda>oi a ds. SynthesizeMultiDeviceProb env True robust opt (scorers oi) oi a ds) app device_apps;
          if fst r \<noteq> SUCCESS then Some r
          else let c = cb st (fst (snd r)) (snd (snd r)) in
            if fst c then prob_user_loop env opt robust scorers cb (snd (snd c)) (fst (snd r)) (fst (snd c)) else Some r }"

definition SynthesizeLayoutMultiDeviceProbUser ::
    "smt_env \<Rightarrow> bool \<Rightarrow> bool \<Rightarrow> prob_model \<Rightarrow> ('s \<Rightarrow> app \<Rightarrow> app list \<Rightarrow> bool \<times> app list \<times> 's) \<Rightarrow> 's \<Rightarrow> app \<Rightarrow> app list \<Rightarrow>
      (status \<times> app \<times> app list) option" where
  "SynthesizeLayoutMultiDeviceProbUser env opt robust model cb st app device_apps =
     do { scorers \<leftarrow> both (\<lambda>oi. AttrScorer model (app_views app) oi);
          prob_user_loop env opt robust scorers cb st app device_apps }"

section \<open>What the queries say\<close>

text \<open>
  A layout \<open>J\<close> of a device, given by the intervals \<open>K\<close>: the content frame and, on request, the views
  with known positions are in place; it is robust when the other views stay in the content frame and
  what is centered on the reference screen remains so.
\<close>

definition inside_frame :: "(nat \<Rightarrow> int \<times> int) \<Rightarrow> nat \<Rightarrow> bool" where
  "inside_frame J i \<longleftrightarrow> fst (J 0) \<le> fst (J i) \<and> snd (J i) \<le> snd (J 0)"

definition robust_layout :: "view list \<Rightarrow> orientation \<Rightarrow> (nat \<Rightarrow> int \<times> int) \<Rightarrow> (nat \<Rightarrow> int \<times> int) \<Rightarrow> bool" where
  "robust_layout vs oi K J \<longleftrightarrow>
     (\<forall>i < length vs. i = 0 \<or> known_interval (K i) \<or> inside_frame J i) \<and> keeps_centering vs (view_interval vs oi) J"

definition device_placed ::
    "bool \<Rightarrow> bool \<Rightarrow> view list \<Rightarrow> orientation \<Rightarrow> (nat \<Rightarrow> int \<times> int) \<Rightarrow> (nat \<Rightarrow> int \<times> int) \<Rightarrow> bool" where
  "device_placed user_input robust vs oi K J \<longleftrightarrow>
     (\<forall>i < length vs. i = 0 \<or> user_input \<and> known_interval (K i) \<longrightarrow> J i = K i) \<and>
     (robust \<longrightarrow> robust_layout vs oi K J)"

definition prob_device_model ::
    "bool \<Rightarrow> bool \<Rightarrow> view list \<Rightarrow> orientation \<Rightarrow> int \<Rightarrow> (nat \<Rightarrow> int \<times> int) \<Rightarrow> (nat \<Rightarrow> attribute list) \<Rightarrow> z3_model \<Rightarrow> bool" where
  "prob_device_model user_input robust vs oi d K offers m \<longleftrightarrow>
     device_placed user_input robust vs oi K (model_positions m oi d) \<and>
     (\<forall>i a. 0 < i \<and> i < length vs \<and> a \<in> set (offers i) \<longrightarrow> gen_clause vs oi d m a)"

lemma zero_or_more:
  assumes "0 < (n :: nat)"
  shows "(\<forall>i < n. i = 0 \<or> b \<and> P i \<longrightarrow> Q i) \<longleftrightarrow> Q 0 \<and> (b \<longrightarrow> (\<forall>i. 0 < i \<and> i < n \<and> P i \<longrightarrow> Q i))"
proof
  assume "\<forall>i < n. i = 0 \<or> b \<and> P i \<longrightarrow> Q i"
  with assms show "Q 0 \<and> (b \<longrightarrow> (\<forall>i. 0 < i \<and> i < n \<and> P i \<longrightarrow> Q i))" by simp
next
  assume q: "Q 0 \<and> (b \<longrightarrow> (\<forall>i. 0 < i \<and> i < n \<and> P i \<longrightarrow> Q i))"
  show "\<forall>i < n. i = 0 \<or> b \<and> P i \<longrightarrow> Q i"
  proof (intro allI impI)
    fix i assume "i < n" "i = 0 \<or> b \<and> P i"
    with q show "Q i" by (cases "i = 0") simp_all
  qed
qed

lemma AssertNotOutOfBounds_result:
  assumes "made_views oi d zd" "0 < length zd"
  shows "\<exists>t. AssertNotOutOfBounds s zd = Some (s @ t) \<and>
    (\<forall>m. satisfies m t \<longleftrightarrow> (\<forall>i < length zd. i = 0 \<or> zv_HasFixedPosition (zd ! i) \<or>
        inside_frame (model_positions m oi d) i))"
proof -
  let ?f = "\<lambda>v. if zv_pos v = 0 \<or> zv_HasFixedPosition v then [] else out_of_bounds_assertions (zd ! 0) v"
  have made: "made_view oi d i (zd ! i)" if "i < length zd" for i using assms(1) that by (simp add: made_views_def)
  have "satisfies m (?f (zd ! i)) \<longleftrightarrow> i = 0 \<or> zv_HasFixedPosition (zd ! i) \<or> inside_frame (model_positions m oi d) i"
    if "i < length zd" for m i
    using out_of_bounds_meaning [OF made [OF assms(2)] made [OF that], of m] made_view_pos [OF made [OF that]]
    by (auto simp: inside_frame_def)
  then have "satisfies m (concat (map ?f zd)) \<longleftrightarrow> (\<forall>i < length zd. i = 0 \<or> zv_HasFixedPosition (zd ! i) \<or>
        inside_frame (model_positions m oi d) i)" for m
    unfolding satisfies_concat_map by blast
  then show ?thesis using assms(2) by (auto simp: AssertNotOutOfBounds_def)
qed

lemma size_ranges_nothing:
  assumes "all_fixed zs"
  shows "size_ranges True s zs zd = Some s"
proof -
  have "zv_HasFixedPosition (zs ! i)" if "i < length zs" for i using assms that by (simp add: all_fixed_def)
  then have "map_opt (size_range True zs zd) [1..<length zs] = Some (map (\<lambda>_. []) [1..<length zs])"
    by (intro map_opt_nothing) (simp add: size_range_def)
  then show ?thesis by (simp add: size_ranges_def)
qed

lemma robust_assertions_result:
  assumes zs: "all_fixed zs" "length zs = length vs" "\<forall>i < length vs. (zv_start (zs ! i), zv_end (zs ! i)) = view_interval vs oi i"
    and zd: "made_views oi d zd" "length zd = length vs" "0 < length vs" "app_views app = vs"
  shows "\<exists>t. robust_assertions True app oi zs a zd s = Some (s @ t) \<and>
    (\<forall>m. satisfies m t \<longleftrightarrow> robust_layout vs oi (\<lambda>i. (zv_start (zd ! i), zv_end (zd ! i))) (model_positions m oi d))"
proof -
  obtain t where t: "AssertNotOutOfBounds s zd = Some (s @ t)"
    "\<forall>m. satisfies m t \<longleftrightarrow> (\<forall>i < length zd. i = 0 \<or> zv_HasFixedPosition (zd ! i) \<or> inside_frame (model_positions m oi d) i)"
    using AssertNotOutOfBounds_result [OF zd(1), of s] zd(2,3) by auto
  obtain u where u: "AssertKeepsCentering (s @ t) vs zs zd = Some ((s @ t) @ u)"
    "\<forall>m. satisfies m u \<longleftrightarrow> keeps_centering vs (view_interval vs oi) (model_positions m oi d)"
    using AssertKeepsCentering_result [OF zs(2,3) zd(1,2), of "s @ t"] by blast
  have len: "length zs = length zd" using zs(2) zd(2) by simp
  note skips = size_ranges_nothing [OF zs(1)] asserts_nothing(1,2) [OF zs(1) len] asserts_nothing(3) [OF zs(1,2)]
  have "robust_assertions True app oi zs a zd s = Some (s @ (t @ u))"
    unfolding robust_assertions_def zd(4) skips(1) Option.bind.simps t(1) skips(2) u(1) skips(3) skips(4) by simp
  moreover have "satisfies m (t @ u) \<longleftrightarrow> robust_layout vs oi (\<lambda>i. (zv_start (zd ! i), zv_end (zd ! i))) (model_positions m oi d)" for m
    using t(2) u(2) zd(2) by (simp add: robust_layout_def known_interval_def zv_HasFixedPosition_def)
  ultimately show ?thesis by blast
qed

lemma encode_prob_device_result:
  assumes "cand_ok c sc n oi" "made_views oi d zd" "length zd = n" "n \<le> 1000" and app: "app_views app = vs" "length vs = n"
    and zs: "all_fixed zs" "length zs = n" "\<forall>i < n. (zv_start (zs ! i), zv_end (zs ! i)) = view_interval vs oi i"
  shows "\<exists>c' zd' t. encode_prob_device user_input robust app oi zs c (a, zd) s = Some (c', zd', s @ t) \<and> same_candidates c c' \<and>
    (\<exists>g. views_extended zd zd' g) \<and>
    (\<forall>m. satisfies m t \<longleftrightarrow>
       prob_device_model user_input robust vs oi d (\<lambda>i. (zv_start (zd ! i), zv_end (zd ! i))) (offered c sc) m)"
proof -
  let ?K = "\<lambda>i. (zv_start (zd ! i), zv_end (zd ! i))"
  have n: "0 < n" using assms(1) by (auto simp: cand_ok_def scorer_ok_def)
  let ?r = "fixed_position_assertions (zd ! 0)"
  have root: "satisfies m ?r \<longleftrightarrow> model_positions m oi d 0 = ?K 0" for m
    using fixed_position_meaning [of oi d 0 "zd ! 0" m] assms(2,3) n by (simp add: made_views_def)
  obtain t where t: "(if user_input then known_positions (length zs) zd (s @ ?r) else Some (s @ ?r)) = Some ((s @ ?r) @ t)"
    "\<forall>m. satisfies m t \<longleftrightarrow> (user_input \<longrightarrow> (\<forall>i. 0 < i \<and> i < n \<and> known_interval (?K i) \<longrightarrow> model_positions m oi d i = ?K i))"
  proof (cases user_input)
    case True
    then show thesis
      using known_positions_result [OF assms(2), of "s @ ?r"] assms(3) zs(2) that
      by (auto simp: zv_HasFixedPosition_def known_interval_def)
  next
    case False
    then show thesis using that [of "[]"] by (simp add: satisfies_def)
  qed
  obtain u where u: "(if robust then robust_assertions True app oi zs a zd ((s @ ?r) @ t) else Some ((s @ ?r) @ t)) = Some (((s @ ?r) @ t) @ u)"
    "\<forall>m. satisfies m u \<longleftrightarrow> (robust \<longrightarrow> robust_layout vs oi ?K (model_positions m oi d))"
  proof (cases robust)
    case True
    then show thesis
      using robust_assertions_result [of zs vs oi d zd app a "(s @ ?r) @ t"] assms(2,3) app zs n that by auto
  next
    case False
    then show thesis using that [of "[]"] by (simp add: satisfies_def)
  qed
  obtain c' zd' v where v: "AddGenAttributes vs oi c (zd, ((s @ ?r) @ t) @ u) = Some (c', zd', (((s @ ?r) @ t) @ u) @ v)"
    "same_candidates c c'" "views_extended zd zd' (\<lambda>i. if i = 0 then [] else map (attr_name oi) (offered c sc i))"
    "\<forall>m. satisfies m v = (\<forall>i a. 0 < i \<and> i < n \<and> a \<in> set (offered c sc i) \<longrightarrow> gen_clause vs oi d m a)"
    using gen_encoder.each_result [OF assms(1-3), of vs "((s @ ?r) @ t) @ u"] assms(4) app(2) by (auto simp: AddGenAttributes_def)
  have "vec_at zd 0 = Some (zd ! 0)" using assms(3) n by simp
  then have "encode_prob_device user_input robust app oi zs c (a, zd) s = Some (c', zd', s @ (?r @ t @ u @ v))"
    unfolding encode_prob_device_def Let_def fst_conv snd_conv app(1)
    by (simp only: Option.bind.simps t(1) u(1) v(1)) simp
  moreover have "satisfies m (?r @ t @ u @ v) \<longleftrightarrow> prob_device_model user_input robust vs oi d ?K (offered c sc) m" for m
    unfolding satisfies_simps root t(2) [rule_format] u(2) [rule_format] v(4) [rule_format]
      prob_device_model_def device_placed_def app(2) zero_or_more [OF n] by blast
  ultimately show ?thesis using v(2,3) by blast
qed

lemma prob_device_model_cong:
  assumes "\<And>i. i < length vs \<Longrightarrow> K i = K' i"
  shows "prob_device_model u r vs oi d K offers m = prob_device_model u r vs oi d K' offers m"
  unfolding prob_device_model_def device_placed_def robust_layout_def using assms by (simp cong: conj_cong)

text \<open>An app whose reference positions are known, with devices, and candidates that are fresh.\<close>

definition prob_input :: "nat \<Rightarrow> orientation \<Rightarrow> app \<Rightarrow> app list \<Rightarrow> bool" where
  "prob_input n oi app apps \<longleftrightarrow>
     views_ok n (app_views app) \<and> n \<le> 1000 \<and> devices_ok n apps \<and>
     (\<forall>i < n. known_interval (view_interval (app_views app) oi i))"

definition prob_query_model ::
    "bool \<Rightarrow> bool \<Rightarrow> bool \<Rightarrow> app \<Rightarrow> orientation \<Rightarrow> app list \<Rightarrow> z3_view list \<Rightarrow> (nat \<Rightarrow> attribute list) \<Rightarrow> z3_model \<Rightarrow> bool" where
  "prob_query_model opt user_input robust app oi apps zs offers m \<longleftrightarrow>
     reference_model opt oi zs offers m \<and>
     (\<forall>k < length apps. prob_device_model user_input robust (app_views app) oi (int k + 1)
        (view_interval (app_views (apps ! k)) oi) offers m)"

lemma device_constraints_result:
  assumes ok: "prob_input n oi app apps" and c: "cand_ok c sc n oi" "\<forall>i < n. constraints_added c ! i = 0"
    and zs: "ConvertViews (app_views app) oi 0 = Some zs"
  shows "\<exists>q zds. device_constraints opt user_input robust app oi apps c = Some q \<and> same_candidates c (dq_cands q) \<and>
    convert_devices apps oi = Some zds \<and>
    views_extended zs (dq_views q) (\<lambda>i. if i = 0 then [] else map (attr_name oi) (offered c sc i)) \<and>
    length (dq_devices q) = length apps \<and> (\<forall>k < length apps. \<exists>g. views_extended (zds ! k) (dq_devices q ! k) g) \<and>
    (\<forall>m. satisfies m (dq_assertions q) \<longleftrightarrow> prob_query_model opt user_input robust app oi apps zs (offered c sc) m)"
proof -
  let ?vs = "app_views app"
  have n: "length ?vs = n" "\<forall>i < length ?vs. view_pos (?vs ! i) = int i" "n \<le> 1000" and dn: "devices_ok n apps"
    and known: "\<forall>i < n. known_interval (view_interval ?vs oi i)"
    using ok by (simp_all add: prob_input_def views_ok_def)
  note z = ConvertViews_result [OF zs n(2), unfolded n(1)]
  obtain c1 zs1 t where t: "encode_reference opt c zs [] = Some (c1, zs1, [] @ t)" "same_candidates c c1"
    "views_extended zs zs1 (\<lambda>i. if i = 0 then [] else map (attr_name oi) (offered c sc i))"
    "\<forall>m. satisfies m t \<longleftrightarrow> reference_model opt oi zs (offered c sc) m"
    using encode_reference_result [OF c(1) z(2,1) n(3), of opt "[]"] c(2) z(4) by auto
  have zs1: "length zs1 = n" "\<forall>i < n. (zv_start (zs1 ! i), zv_end (zs1 ! i)) = view_interval ?vs oi i"
    using views_extended_length [OF t(3)] z(1,3) t(3) by (simp_all add: views_extended_def)
  have "zv_HasFixedPosition (zs1 ! i)" if "i < n" for i
    using zs1(2) known that unfolding known_interval_def zv_HasFixedPosition_def by (metis fst_conv snd_conv)
  then have fixed: "all_fixed zs1" using zs1(1) by (auto simp: all_fixed_def in_set_conv_nth)
  have "\<exists>zds. convert_devices apps oi = Some zds"
    unfolding convert_devices_def map_opt_Some_iff
    using n(3) dn by (auto simp: in_set_zip devices_ok_def views_ok_def intro!: ConvertViews_total)
  then obtain zds where zds: "convert_devices apps oi = Some zds" by blast
  note devs = convert_devices_result [OF zds dn]
  let ?ds = "zip apps zds"
  let ?M = "\<lambda>k m. prob_device_model user_input robust ?vs oi (int k + 1) (view_interval (app_views (apps ! k)) oi) (offered c sc) m"
  have "\<exists>c' zds' u. each_device (encode_prob_device user_input robust app oi zs1) c1 ?ds t = Some (c', zds', t @ u) \<and>
      same_candidates c1 c' \<and> length zds' = length ?ds \<and> (\<forall>k < length ?ds. \<exists>g. views_extended (snd (?ds ! k)) (zds' ! k) g) \<and>
      (\<forall>m. satisfies m u \<longleftrightarrow> (\<forall>k < length ?ds. ?M k m))"
  proof (rule each_device_result)
    fix c2 k s assume c2: "same_candidates c1 c2" and "k < length ?ds"
    then have k: "k < length apps" by simp
    note same = same_candidates_trans [OF t(2) c2]
    have off: "offered c2 sc = offered c sc" using same_candidates_ok(2) [OF same] by auto
    have at: "?ds ! k = (apps ! k, zds ! k)" using k devs(1) by simp
    have made: "made_views oi (int k + 1) (zds ! k)" "length (zds ! k) = n" using devs(2) [OF k] by simp_all
    have K: "prob_device_model user_input robust ?vs oi (int k + 1) (\<lambda>i. (zv_start (zds ! k ! i), zv_end (zds ! k ! i)))
        (offered c sc) m = ?M k m" for m
      using devs(3) [OF k] n(1) by (intro prob_device_model_cong) simp
    show "\<exists>c' zd' t. encode_prob_device user_input robust app oi zs1 c2 (?ds ! k) s = Some (c', zd', s @ t) \<and>
        same_candidates c2 c' \<and> (\<exists>g. views_extended (snd (?ds ! k)) zd' g) \<and> (\<forall>m. satisfies m t \<longleftrightarrow> ?M k m)"
      using encode_prob_device_result [OF same_candidates_ok(1) [OF same c(1)] made n(3) refl n(1) fixed zs1,
          of user_input robust "apps ! k" s]
      unfolding off K at snd_conv .
  qed
  then obtain c' zds' u where u: "each_device (encode_prob_device user_input robust app oi zs1) c1 ?ds t = Some (c', zds', t @ u)"
    "same_candidates c1 c'" "length zds' = length apps" "\<forall>k < length apps. \<exists>g. views_extended (zds ! k) (zds' ! k) g"
    "\<forall>m. satisfies m u \<longleftrightarrow> (\<forall>k < length apps. ?M k m)"
    using devs(1) by auto
  let ?q = "\<lparr>dq_cands = c', dq_views = zs1, dq_devices = zds', dq_assertions = t @ u\<rparr>"
  have "device_constraints opt user_input robust app oi apps c = Some ?q"
    using zs t(1) zds u(1) by (simp add: device_constraints_def)
  moreover have "satisfies m (t @ u) \<longleftrightarrow> prob_query_model opt user_input robust app oi apps zs (offered c sc) m" for m
    using t(4) u(5) by (simp add: prob_query_model_def)
  ultimately show ?thesis
    using same_candidates_trans [OF t(2) u(2)] zds t(3) u(3,4) by (intro exI [of _ ?q] exI [of _ zds]) simp
qed

section \<open>The search for candidates\<close>

text \<open>Here the devices have the numbers \<open>D\<close>.\<close>

definition device_query_ok :: "nat \<Rightarrow> orientation \<Rightarrow> attr_scorer \<Rightarrow> (nat \<Rightarrow> int) \<Rightarrow> device_query \<Rightarrow> bool" where
  "device_query_ok n oi sc D q \<longleftrightarrow>
     cand_ok (dq_cands q) sc n oi \<and> made_views oi 0 (dq_views q) \<and> length (dq_views q) = n \<and>
     (\<forall>k < length (dq_devices q). made_views oi (D k) (dq_devices q ! k) \<and> length (dq_devices q ! k) = n) \<and>
     (\<forall>i. 0 < i \<and> i < n \<longrightarrow> zv_constraints (dq_views q ! i) \<noteq> [])"

lemma raise_unsat_result:
  assumes "cand_ok c sc n oi" "made_views oi d zs" "length zs = n"
  shows "\<exists>c' zs'. raise_unsat core c zs = Some (c', zs') \<and> cand_ok c' sc n oi \<and> made_views oi d zs' \<and> length zs' = n \<and>
    (\<forall>j < n. zv_constraints (zs' ! j) = zv_constraints (zs ! j))"
proof -
  have "raise_unsat core c zs = raise_ranks 1 core c zs" by (simp add: raise_unsat_def raise_ranks_def)
  with raise_ranks_result [OF assms, of 1 core] raise_ranks_names [of 1 core c zs] assms(3) show ?thesis by metis
qed

lemma more_device_constraints_result:
  assumes "device_query_ok n oi sc D q" "n \<le> 1000" "n \<le> length app_vs"
  shows "\<exists>q'. more_device_constraints app_vs oi core q = Some q' \<and> device_query_ok n oi sc D q'"
proof -
  have ok: "cand_ok (dq_cands q) sc n oi" "made_views oi 0 (dq_views q)" "length (dq_views q) = n"
    "\<forall>k < length (dq_devices q). made_views oi (D k) (dq_devices q ! k) \<and> length (dq_devices q ! k) = n"
    "\<And>i. 0 < i \<Longrightarrow> i < n \<Longrightarrow> zv_constraints (dq_views q ! i) \<noteq> []"
    using assms(1) by (simp_all add: device_query_ok_def)
  obtain c zs where raised: "raise_unsat core (dq_cands q) (dq_views q) = Some (c, zs)" "cand_ok c sc n oi"
    "made_views oi 0 zs" "length zs = n" "\<forall>j < n. zv_constraints (zs ! j) = zv_constraints (dq_views q ! j)"
    using raise_unsat_result [OF ok(1-3)] by blast
  have "zv_constraints (zs ! i) \<noteq> []" if "0 < i" "i < n" for i using raised(5) ok(5) that by simp
  from extend_constraints_result [OF raised(2-4) assms(2,3) ok(4) this, of "dq_assertions q"] raised(1)
  show ?thesis by (auto simp: more_device_constraints_def device_query_ok_def)
qed

lemma device_sat_loop_result:
  assumes "P q" "\<And>core q. P q \<Longrightarrow> \<exists>q'. add_more core q = Some q' \<and> P q'"
  shows "\<exists>st q'. device_sat_loop env add_more k q = Some (st, q') \<and> P q'"
  using assms(1)
proof (induction k arbitrary: q)
  case 0
  then show ?case by (cases "env_check env (dq_assertions q) (GetAssumptions (dq_views q))") auto
next
  case (Suc k)
  obtain q' where q': "add_more (env_core env (dq_assertions q) (GetAssumptions (dq_views q))) q = Some q'" "P q'"
    using assms(2) [OF Suc.prems] by blast
  show ?case
  proof (cases "env_check env (dq_assertions q) (GetAssumptions (dq_views q))")
    case Unsat
    then show ?thesis using Suc.IH [OF q'(2)] q'(1) Suc.prems by simp
  qed (use Suc.prems in auto)
qed

text \<open>A scorer that gives well-formed candidates for the app.\<close>

definition scorer_fits :: "nat \<Rightarrow> orientation \<Rightarrow> attr_scorer \<Rightarrow> app \<Rightarrow> bool" where
  "scorer_fits n oi sc app \<longleftrightarrow>
     (\<exists>c. start_candidates (\<lambda>_. sc) (app_views app) oi = Some c \<and> cand_ok c sc n oi \<and> (\<forall>i < n. constraints_added c ! i = 0))"

lemma GetSatConstraints_result:
  assumes ok: "prob_input n oi app apps" and sc: "scorer_fits n oi sc app"
  shows "\<exists>st c. GetSatConstraints env user_input robust sc app oi apps = Some (st, c) \<and> cand_ok c sc n oi"
proof -
  obtain c where c: "start_candidates (\<lambda>_. sc) (app_views app) oi = Some c" "cand_ok c sc n oi" "\<forall>i < n. constraints_added c ! i = 0"
    using sc by (auto simp: scorer_fits_def)
  obtain zs where zs: "ConvertViews (app_views app) oi 0 = Some zs" using c(1) by (auto simp: start_candidates_def bind_Some_iff)
  have n: "n \<le> 1000" "length (app_views app) = n" "\<forall>i < length (app_views app). view_pos (app_views app ! i) = int i"
    and dn: "devices_ok n apps"
    using ok by (simp_all add: prob_input_def views_ok_def)
  obtain q zds where q: "device_constraints False user_input robust app oi apps c = Some q" "same_candidates c (dq_cands q)"
    "convert_devices apps oi = Some zds"
    "views_extended zs (dq_views q) (\<lambda>i. if i = 0 then [] else map (attr_name oi) (offered c sc i))"
    "length (dq_devices q) = length apps" "\<forall>k < length apps. \<exists>g. views_extended (zds ! k) (dq_devices q ! k) g"
    using device_constraints_result [OF ok c(2,3) zs, of False user_input robust] by blast
  note z = ConvertViews_result [OF zs n(3), unfolded n(2)] and devs = convert_devices_result [OF q(3) dn]
  have "device_query_ok n oi sc (\<lambda>k. int k + 1) (q\<lparr>dq_cands := FinishAdding (dq_cands q)\<rparr>)"
  proof -
    have "zv_constraints (dq_views q ! i) \<noteq> []" if i: "0 < i" "i < n" for i
      using offered_first [OF c(2) i] c(3) i q(4) z(1) by (auto simp: views_extended_def)
    moreover have "made_views oi (int k + 1) (dq_devices q ! k) \<and> length (dq_devices q ! k) = n" if "k < length apps" for k
      using q(6) devs(2) [OF that] that views_extended_made views_extended_length by metis
    ultimately show ?thesis
      using cand_ok_updates(2) [OF same_candidates_ok(1) [OF q(2) c(2)]] views_extended_made [OF q(4) z(2)]
        views_extended_length [OF q(4)] z(1) q(5) by (simp add: device_query_ok_def)
  qed
  moreover have "\<exists>q'. more_device_constraints (app_views app) oi core q = Some q' \<and> device_query_ok n oi sc (\<lambda>k. int k + 1) q'"
    if "device_query_ok n oi sc (\<lambda>k. int k + 1) q" for core q
    using more_device_constraints_result [OF that n(1)] n(2) by simp
  ultimately obtain st q' where "device_sat_loop env (more_device_constraints (app_views app) oi) 50
      (q\<lparr>dq_cands := FinishAdding (dq_cands q)\<rparr>) = Some (st, q')" "device_query_ok n oi sc (\<lambda>k. int k + 1) q'"
    using device_sat_loop_result [where P = "device_query_ok n oi sc (\<lambda>k. int k + 1)"] by blast
  then show ?thesis using c(1) q(1) by (simp add: GetSatConstraints_def device_query_ok_def)
qed

section \<open>What a success gives\<close>

text \<open>What does not depend on the borders of a view stays.\<close>

lemma assign_device_keeps:
  assumes "assign_device skip m oi a zd = Some a'" "\<And>v p q. f (set_interval oi v p q) = f v"
  shows "map f (app_views a') = map f (app_views a)"
proof -
  let ?f = "\<lambda>vs i. do { v \<leftarrow> vec_at vs i;
                       if skip v then Some vs
                       else do { z \<leftarrow> vec_at zd i; z' \<leftarrow> AssignPosition m z;
                                 Some (vs[i := set_interval oi v (zv_start z') (zv_end z')]) } }"
  obtain vs where vs: "fold_opt ?f (app_views a) [1..<length zd] = Some vs" "a' = a\<lparr>app_views := vs\<rparr>"
    using assms(1) by (auto simp del: One_nat_def simp: assign_device_def bind_Some_iff CHECK_Some split: if_splits)
  have keep: "map f (ws[i := set_interval oi (ws ! i) p q]) = map f ws" if "i < length ws" for ws i p q
    using that assms(2) by (simp add: map_update) (metis length_map list_update_id nth_map)
  have "map f vs = map f (app_views a)"
    by (rule fold_opt_inv [where P = "\<lambda>ws. map f ws = map f (app_views a)", OF vs(1)])
      (auto simp del: map_update simp: bind_Some_iff vec_at_Some keep split: if_splits)
  with vs(2) show ?thesis by simp
qed

lemma assign_devices_keep:
  assumes "assign_devices skip m oi zds apps = Some apps'" "length zds = length apps" "\<And>v p q. f (set_interval oi v p q) = f v"
  shows "k < length apps \<Longrightarrow> map f (app_views (apps' ! k)) = map f (app_views (apps ! k))"
  using assign_device_keeps [OF _ assms(3), of skip m "apps ! k" "zds ! k" "apps' ! k"]
    map_opt_nth [OF assms(1) [unfolded assign_devices_def], of k] assms(2) by simp

definition devices_moved ::
    "orientation \<Rightarrow> nat \<Rightarrow> (nat \<Rightarrow> nat \<Rightarrow> int \<times> int) \<Rightarrow> app list \<Rightarrow> app list \<Rightarrow> bool" where
  "devices_moved oi n Q apps apps' \<longleftrightarrow>
     length apps' = length apps \<and> devices_ok n apps' \<and>
     (\<forall>k < length apps. \<forall>i < n. view_interval (app_views (apps' ! k)) oi i = Q k i \<and>
        (\<forall>oj. oj \<noteq> oi \<longrightarrow> view_interval (app_views (apps' ! k)) oj i = view_interval (app_views (apps ! k)) oj i))"

lemma assign_devices_moved:
  assumes "assign_devices (\<lambda>_. False) m oi zds apps = Some apps'" "devices_ok n apps" "length zds = length apps"
    and "\<And>k. k < length apps \<Longrightarrow> made_views oi (D k) (zds ! k)"
    and "\<And>k. k < length apps \<Longrightarrow> view_interval (app_views (apps ! k)) oi 0 = model_positions m oi (D k) 0"
  shows "devices_moved oi n (\<lambda>k. model_positions m oi (D k)) apps apps'"
proof -
  note r = assms(1) [unfolded assign_devices_def]
  have len: "length apps' = length apps" using map_opt_length [OF r] assms(3) by simp
  have one: "views_ok n (app_views (apps' ! k)) \<and>
      (\<forall>i < n. view_interval (app_views (apps' ! k)) oi i = model_positions m oi (D k) i \<and>
        (\<forall>oj. oj \<noteq> oi \<longrightarrow> view_interval (app_views (apps' ! k)) oj i = view_interval (app_views (apps ! k)) oj i))"
    if k: "k < length apps" for k
  proof -
    have a: "assign_device (\<lambda>_. False) m oi (apps ! k) (zds ! k) = Some (apps' ! k)"
      using map_opt_nth [OF r, of k] k assms(3) by simp
    have ok: "views_ok n (app_views (apps ! k))" using assms(2) k by (simp add: devices_ok_def)
    have res: "length (app_views (apps' ! k)) = length (app_views (apps ! k)) \<and> length (app_views (apps ! k)) = length (zds ! k) \<and>
      (\<forall>i < length (zds ! k). view_interval (app_views (apps' ! k)) oi i = model_positions m oi (D k) i \<and>
       (\<forall>oj. oj \<noteq> oi \<longrightarrow> view_interval (app_views (apps' ! k)) oj i = view_interval (app_views (apps ! k)) oj i) \<and>
       view_id (app_views (apps' ! k) ! i) = view_id (app_views (apps ! k) ! i))"
      by (rule assign_device_result [OF a assms(4) [OF k]]) (use assms(5) [OF k] in auto)
    have "view_pos (app_views (apps' ! k) ! i) = view_pos (app_views (apps ! k) ! i)" if "i < n" for i
      using assign_device_keeps [OF a, of view_pos] res ok that by (metis nth_map set_interval_facts(2) views_ok_def)
    with res ok show ?thesis by (simp add: views_ok_def)
  qed
  with len show ?thesis by (simp add: devices_moved_def devices_ok_def)
qed

definition prob_answer ::
    "bool \<Rightarrow> bool \<Rightarrow> nat \<Rightarrow> orientation \<Rightarrow> app \<Rightarrow> app list \<Rightarrow> (nat \<Rightarrow> nat \<Rightarrow> int \<times> int) \<Rightarrow> app \<Rightarrow> app list \<Rightarrow> bool" where
  "prob_answer user_input robust n oi app apps Q app' apps' \<longleftrightarrow>
     (\<exists>f. app' = app\<lparr>app_views := with_constraints oi f n (app_views app)\<rparr>) \<and>
     constrained (app_views app) (app_views app') (length apps) Q oi \<and>
     (\<forall>k < length apps. device_placed user_input robust (app_views app) oi (view_interval (app_views (apps ! k)) oi) (Q k)) \<and>
     (if user_input then apps' = apps else devices_moved oi n Q apps apps')"

lemma SynthesizeMultiDeviceProb_result:
  assumes env: "sound_env env" and ok: "prob_input n oi app apps" and sc: "scorer_fits n oi sc app"
    and result: "SynthesizeMultiDeviceProb env user_input robust opt sc oi app apps = Some (SUCCESS, app', apps')"
  shows "\<exists>Q. prob_answer user_input robust n oi app apps Q app' apps'"
proof -
  let ?vs = "app_views app"
  have n: "n \<le> 1000" "length ?vs = n" "\<forall>i < length ?vs. view_pos (?vs ! i) = int i" and dn: "devices_ok n apps"
    using ok by (simp_all add: prob_input_def views_ok_def)
  obtain st c where c: "GetSatConstraints env user_input robust sc app oi apps = Some (st, c)" "cand_ok c sc n oi"
    using GetSatConstraints_result [OF ok sc] by blast
  have n0: "0 < n" using c(2) by (auto simp: cand_ok_def scorer_ok_def)
  let ?c = "ResetAdding c"
  have c0: "cand_ok ?c sc n oi" "\<forall>i < n. constraints_added ?c ! i = 0"
    using c(2) cand_ok_updates(3) [OF c(2)] by (auto simp: cand_ok_def ResetAdding_def)
  obtain zs where zs: "ConvertViews ?vs oi 0 = Some zs"
    using ConvertViews_total [of ?vs 0 oi] n by auto
  note z = ConvertViews_result [OF zs n(3), unfolded n(2)]
  obtain q zds where q: "device_constraints opt user_input robust app oi apps ?c = Some q" "same_candidates ?c (dq_cands q)"
    "convert_devices apps oi = Some zds"
    "views_extended zs (dq_views q) (\<lambda>i. if i = 0 then [] else map (attr_name oi) (offered ?c sc i))"
    "length (dq_devices q) = length apps" "\<forall>k < length apps. \<exists>g. views_extended (zds ! k) (dq_devices q ! k) g"
    "\<forall>m. satisfies m (dq_assertions q) \<longleftrightarrow> prob_query_model opt user_input robust app oi apps zs (offered ?c sc) m"
    using device_constraints_result [OF ok c0 zs] by blast
  note devs = convert_devices_result [OF q(3) dn]
  define s where "s = dq_assertions q @ GetAssumptions (dq_views q)"
  obtain cost m vs' where m: "env_optimize env s cost = Sat m"
    and vs': "assign_models env m oi (dq_views q) ?vs = Some vs'" "app' = app\<lparr>app_views := vs'\<rparr>"
    and apps': "(if user_input then Some apps else assign_devices (\<lambda>_. False) m oi (dq_devices q) apps) = Some apps'"
  proof -
    define cost where "cost = (if opt then Some (cost_of_views (dq_views q) (IntVal 0)) else None)"
    have "st = SUCCESS" using result c(1) by (auto simp: SynthesizeMultiDeviceProb_def split: if_splits)
    then have r: "(case env_optimize env s cost of
              Sat m \<Rightarrow>
                do { vs \<leftarrow> assign_models env m oi (dq_views q) ?vs;
                     apps \<leftarrow> (if user_input then Some apps else assign_devices (\<lambda>_. False) m oi (dq_devices q) apps);
                     Some (SUCCESS, app\<lparr>app_views := vs\<rparr>, apps) }
            | res \<Rightarrow> Some (failure_status env s res, app, apps)) = Some (SUCCESS, app', apps')"
      using result unfolding SynthesizeMultiDeviceProb_def c(1) s_def cost_def Let_def by (simp add: q(1))
    have fail: "failure_status env s res \<noteq> SUCCESS" for res by (simp add: failure_status_def split: check_result.split)
    show thesis
    proof (cases "env_optimize env s cost")
      case (Sat m)
      with r that show thesis by (auto simp: bind_Some_iff)
    qed (use r fail in auto)
  qed
  have "satisfies m s" using env m by (simp add: sound_env_def)
  then have sat: "satisfies m (dq_assertions q)" "satisfies m (GetAssumptions (dq_views q))" by (simp_all add: s_def)
  then have ref: "reference_model opt oi zs (offered ?c sc) m"
    and dev: "\<And>k. k < length apps \<Longrightarrow> prob_device_model user_input robust ?vs oi (int k + 1)
        (view_interval (app_views (apps ! k)) oi) (offered ?c sc) m"
    using q(7) by (simp_all add: prob_query_model_def)
  have assumed: "assumed oi zs m"
    using sat(2) GetAssumptions_meaning [OF views_extended_made [OF q(4) z(2)]] assumed_extended [OF q(4)] by blast
  have dec: "env_decimal env 4 (1 / 2) = ''0.5''" using env by (simp add: sound_env_def)
  let ?f = "\<lambda>i. stored_attr m oi (selection m oi (offered ?c sc) i)"
  have offers: "attribute_ok (length zs) i oi a" if "0 < i" "i < length zs" "a \<in> set (offered ?c sc i)" for i a
    using offered_ok(1) [OF c0(1)] that z(1) by simp
  have fresh: "\<forall>i < length zs. zv_constraints (zs ! i) = []" and lens: "length ?vs = length zs" "length zs \<le> 1000"
    using z(1,4) n by simp_all
  have "vs' = with_constraints oi ?f n ?vs"
    using assign_models_result [OF ref assumed q(4) z(2) fresh lens offers dec vs'(1)] z(1) by simp
  note app' = vs'(2) [unfolded this]
  let ?Q = "\<lambda>k. model_positions m oi (int k + 1)"
  have "constrained ?vs (app_views app') (length apps) ?Q oi"
  proof (rule orientation_constrained [where D = "\<lambda>k. int k + 1", OF c0(1) z(1) n(2) z(3) ref assumed])
    show "gen_clause ?vs oi (int k + 1) m a" if "k < length apps" "0 < i" "i < n" "a \<in> set (offered ?c sc i)" for k i a
      using dev [OF that(1)] that n(2) by (simp add: prob_device_model_def)
  qed (use n(2) in \<open>simp_all add: app' with_constraints_facts\<close>)
  moreover have placed: "device_placed user_input robust ?vs oi (view_interval (app_views (apps ! k)) oi) (?Q k)"
    if "k < length apps" for k
    using dev [OF that] by (simp add: prob_device_model_def)
  moreover have "if user_input then apps' = apps else devices_moved oi n ?Q apps apps'"
  proof (cases user_input)
    case False
    have "devices_moved oi n ?Q apps apps'"
    proof (rule assign_devices_moved [where D = "\<lambda>k. int k + 1", OF _ dn q(5)])
      show "assign_devices (\<lambda>_. False) m oi (dq_devices q) apps = Some apps'" using apps' False by simp
      show "made_views oi (int k + 1) (dq_devices q ! k)" if "k < length apps" for k
        using q(6) devs(2) [OF that] that views_extended_made by metis
      show "view_interval (app_views (apps ! k)) oi 0 = model_positions m oi (int k + 1) 0" if "k < length apps" for k
        using placed [OF that] n(2) n0 by (simp add: device_placed_def)
    qed
    with False show ?thesis by simp
  qed (use apps' in simp)
  ultimately have "prob_answer user_input robust n oi app apps ?Q app' apps'"
    unfolding prob_answer_def using app' by blast
  then show ?thesis by blast
qed

section \<open>Both orientations\<close>

text \<open>The same views with other constraints.\<close>

definition same_views :: "view list \<Rightarrow> view list \<Rightarrow> bool" where
  "same_views vs ws \<longleftrightarrow> length ws = length vs \<and> (\<forall>i < length vs. \<exists>A. ws ! i = (vs ! i)\<lparr>view_attributes := A\<rparr>)"

lemma same_views_refl: "same_views vs vs"
proof -
  have "\<exists>A. v = v\<lparr>view_attributes := A\<rparr>" for v :: view by (rule exI [of _ "view_attributes v"]) simp
  then show ?thesis by (simp add: same_views_def)
qed

lemma same_views_with_constraints: "same_views vs (with_constraints oi f n vs)"
proof -
  have "\<exists>A. v = v\<lparr>view_attributes := A\<rparr>" for v :: view by (rule exI [of _ "view_attributes v"]) simp
  then show ?thesis by (auto simp: same_views_def with_constraints_def)
qed

lemma same_views_interval: "same_views vs ws \<Longrightarrow> i < length vs \<Longrightarrow> view_interval ws oi i = view_interval vs oi i"
  by (auto simp: same_views_def view_interval_def)

lemma same_views_unobstructed:
  assumes "same_views vs ws" "i < length vs" "j < length vs"
  shows "unobstructed ws i j \<longleftrightarrow> unobstructed vs i j"
proof -
  obtain A where A: "\<And>k. k < length vs \<Longrightarrow> ws ! k = (vs ! k)\<lparr>view_attributes := A k\<rparr>" and len: "length ws = length vs"
    using assms(1) unfolding same_views_def by metis
  have eqs: "view_eq (v\<lparr>view_attributes := B\<rparr>) w = view_eq v w" "view_eq v (w\<lparr>view_attributes := B\<rparr>) = view_eq v w"
    "seg_IntersectsLoose s (v\<lparr>view_attributes := B\<rparr>) = seg_IntersectsLoose s v" for v w :: view and B s
    by (simp_all add: view_eq_def seg_IntersectsLoose_def intersects_loose_def corner_sides_def)
  have "NumIntersections (ws ! i) (ws ! j) ws = NumIntersections (vs ! i) (vs ! j) vs"
    using assms(2,3) len
    by (auto simp: NumIntersections_def Let_def length_filter_conv_card A eqs intro!: arg_cong [where f = card])
  then show ?thesis by (simp add: unobstructed_def)
qed

lemma same_views_centering:
  assumes "same_views vs ws" "\<And>i. i < length vs \<Longrightarrow> I i = I' i"
  shows "keeps_centering ws I J = keeps_centering vs I' J"
proof -
  have len: "length ws = length vs" using assms(1) by (simp add: same_views_def)
  have "keeps_centering_at ws I J i = keeps_centering_at vs I' J i" if i: "0 < i" "i < length vs" for i
  proof -
    have n0: "0 < length vs" using i by linarith
    have lt: "l < length vs" if "l < r" "r < length vs" for l r using that by linarith
    show ?thesis
      unfolding keeps_centering_at_def len assms(2) [OF i(2)] assms(2) [OF n0]
      using same_views_unobstructed [OF assms(1) i(2)] assms(2) lt
      by (intro conj_cong all_cong1 imp_cong refl) auto
  qed
  then show ?thesis by (simp add: keeps_centering_def len)
qed

lemma same_views_placed:
  assumes "same_views vs ws" "\<And>i. i < length vs \<Longrightarrow> K i = K' i"
  shows "device_placed u r ws oi K J = device_placed u r vs oi K' J"
proof -
  have len: "length ws = length vs" using assms(1) by (simp add: same_views_def)
  have "keeps_centering ws (view_interval ws oi) J = keeps_centering vs (view_interval vs oi) J"
    by (rule same_views_centering [OF assms(1)]) (rule same_views_interval [OF assms(1)])
  then show ?thesis
    unfolding device_placed_def robust_layout_def len using assms(2) by (simp cong: conj_cong)
qed

lemma constrained_same:
  assumes c: "constrained ws ws' K Q oi" and start: "same_views vs ws"
    and last: "length vs' = length ws'" "\<And>i. i < length ws' \<Longrightarrow> view_attributes (vs' ! i) oi = view_attributes (ws' ! i) oi"
      "\<And>i. i < length ws' \<Longrightarrow> view_interval vs' oi i = view_interval ws' oi i"
  shows "constrained vs vs' K Q oi"
proof -
  have len: "length ws = length vs" "length ws' = length vs" using c start by (simp_all add: constrained_def same_views_def)
  have "reference_edges vs' oi = reference_edges ws' oi" using last(1,2) by (auto simp: reference_edges_def)
  moreover have "holds_on vs K Q oi a" if "holds_on ws K Q oi a" "attribute_ok (length vs) i oi a" "i < length vs" for a i
    using that(1) holds_on_cong [OF that(2,3) len(1) same_views_interval [OF start], where K = K and Q = Q and Q' = Q] by simp
  moreover have "\<exists>a. view_attributes (vs' ! i) oi = Some a \<and> attribute_ok (length vs) i oi a \<and> holds_on ws K Q oi a"
    if "0 < i" "i < length vs" for i
    using c that len last(2) by (simp add: constrained_def)
  moreover have "view_interval vs' oi i = view_interval vs oi i" if "i < length vs" for i
    using c that len last(3) same_views_interval [OF start that] by (simp add: constrained_def)
  moreover have "acyclic (reference_edges ws' oi)" using c by (simp add: constrained_def)
  ultimately show ?thesis using len last(1) unfolding constrained_def by (metis (no_types))
qed

lemma map_opt_pointwise:
  assumes "length xs = length ys" "\<And>i. i < length xs \<Longrightarrow> f (xs ! i) = g (ys ! i)"
  shows "map_opt f xs = map_opt g ys"
  using assms
proof (induction xs ys rule: list_induct2)
  case (Cons x xs y ys)
  from Cons.prems [of 0] have "f x = g y" by simp
  moreover have "f (xs ! i) = g (ys ! i)" if "i < length xs" for i using Cons.prems [of "Suc i"] that by simp
  ultimately show ?case using Cons.IH by simp
qed simp

lemma same_views_convert: "same_views vs ws \<Longrightarrow> ConvertViews ws oi d = ConvertViews vs oi d"
  unfolding ConvertViews_def
  by (rule map_opt_pointwise) (auto simp: same_views_def)

lemma same_views_ok: "same_views vs ws \<Longrightarrow> views_ok n vs \<Longrightarrow> views_ok n ws"
  by (auto simp: same_views_def views_ok_def)

lemma scorer_fits_same:
  "same_views (app_views a) (app_views b) \<Longrightarrow> scorer_fits n oi sc a \<Longrightarrow> scorer_fits n oi sc b"
  by (simp add: scorer_fits_def start_candidates_def same_views_convert)

text \<open>
  What was found for one orientation: the constraints of the app, and layouts \<open>Q\<close> of the devices, in
  which the devices are left unless they are input.
\<close>

definition layouts_found ::
    "bool \<Rightarrow> bool \<Rightarrow> app \<Rightarrow> app list \<Rightarrow> app \<Rightarrow> app list \<Rightarrow> orientation \<Rightarrow> (nat \<Rightarrow> nat \<Rightarrow> int \<times> int) \<Rightarrow> bool" where
  "layouts_found user_input robust app apps app' apps' oi Q \<longleftrightarrow>
     constrained (app_views app) (app_views app') (length apps) Q oi \<and>
     (\<forall>k < length apps. device_placed user_input robust (app_views app) oi (view_interval (app_views (apps ! k)) oi) (Q k)) \<and>
     length apps' = length apps \<and>
     (if user_input then apps' = apps
      else \<forall>k < length apps. \<forall>i < length (app_views app). view_interval (app_views (apps' ! k)) oi i = Q k i)"

lemma both_orientations_found:
  assumes ok: "views_ok n (app_views app)" "devices_ok n apps"
    and v: "prob_answer u r n VERTICAL app apps Q1 app1 apps1"
    and h: "prob_answer u r n HORIZONTAL app1 apps1 Q2 app2 apps2"
  shows "layouts_found u r app apps app2 apps2 VERTICAL Q1" "layouts_found u r app apps app2 apps2 HORIZONTAL Q2"
proof -
  let ?vs = "app_views app" and ?vs1 = "app_views app1" and ?vs2 = "app_views app2"
  obtain f where f: "?vs1 = with_constraints VERTICAL f n ?vs" using v by (auto simp: prob_answer_def)
  obtain g where g: "?vs2 = with_constraints HORIZONTAL g n ?vs1" using h by (auto simp: prob_answer_def)
  have same: "same_views ?vs ?vs1" "same_views ?vs1 ?vs2" using f g same_views_with_constraints by metis+
  have n: "length ?vs = n" "length ?vs1 = n" "length ?vs2 = n"
    using ok(1) same by (simp_all add: views_ok_def same_views_def)
  have c1: "constrained ?vs ?vs1 (length apps) Q1 VERTICAL" and c2: "constrained ?vs1 ?vs2 (length apps1) Q2 HORIZONTAL"
    using v h by (simp_all add: prob_answer_def)
  have len: "length apps1 = length apps" "length apps2 = length apps"
    using v h by (auto simp: prob_answer_def devices_moved_def split: if_splits)
  have "constrained ?vs ?vs2 (length apps) Q1 VERTICAL"
    by (rule constrained_same [OF c1 same_views_refl])
      (use n in \<open>auto simp: g with_constraints_facts same_views_interval [OF same(2)]\<close>)
  moreover have "constrained ?vs ?vs2 (length apps) Q2 HORIZONTAL"
    using constrained_same [OF c2 same(1)] len(1) by simp
  moreover have "\<forall>k < length apps. device_placed u r ?vs VERTICAL (view_interval (app_views (apps ! k)) VERTICAL) (Q1 k)"
    using v by (simp add: prob_answer_def)
  moreover have "\<forall>k < length apps. device_placed u r ?vs HORIZONTAL (view_interval (app_views (apps ! k)) HORIZONTAL) (Q2 k)"
  proof (intro allI impI)
    fix k assume k: "k < length apps"
    have placed: "device_placed u r ?vs1 HORIZONTAL (view_interval (app_views (apps1 ! k)) HORIZONTAL) (Q2 k)"
      using h k len by (simp add: prob_answer_def)
    have "view_interval (app_views (apps1 ! k)) HORIZONTAL i = view_interval (app_views (apps ! k)) HORIZONTAL i" if "i < n" for i
      using v k that by (auto simp: prob_answer_def devices_moved_def split: if_splits)
    with placed show "device_placed u r ?vs HORIZONTAL (view_interval (app_views (apps ! k)) HORIZONTAL) (Q2 k)"
      using same_views_placed [OF same(1)] n(1) by (metis (no_types, lifting))
  qed
  moreover have "if u then apps2 = apps else (\<forall>k < length apps. \<forall>i < n. view_interval (app_views (apps2 ! k)) VERTICAL i = Q1 k i \<and>
      view_interval (app_views (apps2 ! k)) HORIZONTAL i = Q2 k i)"
    using v h len by (auto simp: prob_answer_def devices_moved_def split: if_splits)
  ultimately show "layouts_found u r app apps app2 apps2 VERTICAL Q1" "layouts_found u r app apps app2 apps2 HORIZONTAL Q2"
    using len(2) n(1) by (simp_all add: layouts_found_def split: if_splits)
qed

lemma vertical_then_horizontal_found:
  assumes env: "sound_env env" and n: "views_ok n (app_views app)" "n \<le> 1000" "devices_ok n apps" "positions_known (app_views app)"
    and sc: "\<And>oi. scorer_fits n oi (scs oi) app"
    and result: "vertical_then_horizontal (\<lambda>oi a ds. SynthesizeMultiDeviceProb env user_input robust opt (scs oi) oi a ds) app apps =
      Some (SUCCESS, app', apps')"
  shows "\<exists>Q. layouts_found user_input robust app apps app' apps' oi Q"
proof -
  let ?f = "\<lambda>oi a ds. SynthesizeMultiDeviceProb env user_input robust opt (scs oi) oi a ds"
  obtain r where r: "?f VERTICAL app apps = Some r"
    "(if fst r = SUCCESS then ?f HORIZONTAL (fst (snd r)) (snd (snd r)) else Some r) = Some (SUCCESS, app', apps')"
    using result by (auto simp: vertical_then_horizontal_def bind_Some_iff)
  obtain app1 apps1 where r1: "r = (SUCCESS, app1, apps1)" using r(2) by (cases r) (auto split: if_splits)
  have v: "?f VERTICAL app apps = Some (SUCCESS, app1, apps1)" and h: "?f HORIZONTAL app1 apps1 = Some (SUCCESS, app', apps')"
    using r by (simp_all add: r1)
  have known: "known_interval (view_interval (app_views app) oi i)" if "i < n" for oi i
    using n(1,4) that by (simp add: positions_known_def known_interval_def views_ok_def)
  have ok: "prob_input n oi app apps" for oi using n(1-3) known by (simp add: prob_input_def)
  obtain Q1 where a1: "prob_answer user_input robust n VERTICAL app apps Q1 app1 apps1"
    using SynthesizeMultiDeviceProb_result [OF env ok sc v] by blast
  obtain f where "app_views app1 = with_constraints VERTICAL f n (app_views app)"
    using a1 by (auto simp: prob_answer_def)
  then have same: "same_views (app_views app) (app_views app1)" using same_views_with_constraints by metis
  have "devices_ok n apps1" using a1 n(3) by (auto simp: prob_answer_def devices_moved_def split: if_splits)
  then have "prob_input n HORIZONTAL app1 apps1"
    using same_views_ok [OF same n(1)] n(1,2) known same_views_interval [OF same]
    by (simp add: prob_input_def) (simp add: views_ok_def)
  from SynthesizeMultiDeviceProb_result [OF env this scorer_fits_same [OF same sc] h] obtain Q2 where
    "prob_answer user_input robust n HORIZONTAL app1 apps1 Q2 app' apps'" by blast
  from both_orientations_found [OF n(1,3) a1 this] show ?thesis by (cases oi) blast+
qed

lemma constrained_layouts:
  assumes "constrained vs vs' K Q oi" "\<And>k i. k < K \<Longrightarrow> i < length vs \<Longrightarrow> Q' k i = Q k i"
  shows "constrained vs vs' K Q' oi"
proof -
  have "holds_on vs K Q' oi a" if "holds_on vs K Q oi a" "attribute_ok (length vs) i oi a" "i < length vs" for a i
    using that(1) holds_on_cong [OF that(2,3) refl refl assms(2)] by simp
  with assms(1) show ?thesis unfolding constrained_def by meson
qed

text \<open>The resized devices: only the content frame has a position.\<close>

lemma ResizeApp_result:
  assumes "ResizeApp app d0 d1 = Some a" "views_ok n (app_views app)" "blank_app app"
  shows "views_ok n (app_views a)" "0 < i \<Longrightarrow> i < n \<Longrightarrow> view_interval (app_views a) oi i = (- 1, - 1)"
proof -
  let ?f = "frame_only View_fresh app"
  have keep: "view_pos (snd p) = view_pos w" if "TryResizeView app w d0 d1 oi = Some p" for w oi p
    using that by (auto simp: TryResizeView_def bind_Some_iff split: if_splits)
  obtain h w where w: "TryResizeView app (app_views ?f ! 0) d0 d1 HORIZONTAL = Some h" "0 < length (app_views ?f)"
      "TryResizeView app (snd h) d0 d1 VERTICAL = Some w" "a = ?f\<lparr>app_views := (app_views ?f)[0 := snd w]\<rparr>"
    using assms(1) by (auto simp: ResizeApp_def bind_Some_iff Let_def vec_at_Some)
  define v where "v = snd w"
  note a = w(4) [folded v_def]
  have v: "view_pos v = view_pos (app_views ?f ! 0)" "0 < length (app_views ?f)"
    using keep [OF w(1)] keep [OF w(3)] w(2) by (simp_all add: v_def)
  have n: "length (app_views app) = n" using assms(2) by (simp add: views_ok_def)
  have ready: "synth_ready (app_views app) HORIZONTAL" using assms(3) by (simp add: blank_app_def)
  show "views_ok n (app_views a)"
    using frame_only_ok [OF assms(2), of View_fresh] v by (auto simp: a views_ok_def nth_list_update)
  show "view_interval (app_views a) oi i = (- 1, - 1)" if "0 < i" "i < n"
    using that frame_only_views(2) [of i app View_fresh] synth_ready_frame [OF ready, of i] n
    by (simp add: a view_interval_def blank_view_def View_make_def)
qed

lemma ResizeApp_fresh:
  assumes "ResizeApp app d0 d1 = Some a"
  shows "map view_id (app_views a) = map view_id (app_views app)" "i < length (app_views a) \<Longrightarrow> view_attributes (app_views a ! i) oi = None"
proof -
  let ?f = "frame_only View_fresh app"
  obtain h v where v: "TryResizeView app (app_views ?f ! 0) d0 d1 HORIZONTAL = Some h" "0 < length (app_views ?f)"
      "TryResizeView app (snd h) d0 d1 VERTICAL = Some v" "a = ?f\<lparr>app_views := (app_views ?f)[0 := snd v]\<rparr>"
    using assms(1) by (auto simp: ResizeApp_def bind_Some_iff Let_def vec_at_Some)
  have keep: "view_id (snd p) = view_id w \<and> view_attributes (snd p) = view_attributes w" if "TryResizeView app w d0 d1 oi = Some p" for w oi p
    using that by (auto simp: TryResizeView_def bind_Some_iff split: if_splits)
  have fresh: "view_id (app_views ?f ! j) = view_id (app_views app ! j)" "view_attributes (app_views ?f ! j) oi = None"
    if "j < length (app_views app)" for j oi
    using that by (simp_all add: frame_only_views View_fresh_def blank_view_def View_make_def)
  have "view_id (snd v) = view_id (app_views app ! 0)" "view_attributes (snd v) oi = None" for oi
    using keep [OF v(1)] keep [OF v(3)] fresh [of 0] v(2) by (simp_all add: frame_only_views(1))
  with fresh v(2) have at: "view_id (app_views a ! i) = view_id (app_views app ! i) \<and> view_attributes (app_views a ! i) oi = None"
    if "i < length (app_views app)" for i oi
    using that by (simp add: v(4) frame_only_views(1) nth_list_update)
  have len: "length (app_views a) = length (app_views app)" by (simp add: v(4) frame_only_views(1))
  show "map view_id (app_views a) = map view_id (app_views app)" by (rule nth_equalityI) (simp_all add: len at)
  show "i < length (app_views a) \<Longrightarrow> view_attributes (app_views a ! i) oi = None" using at len by simp
qed

lemma resize_devices_result:
  assumes "resize_devices app d0 ds = Some apps" "views_ok n (app_views app)" "blank_app app"
  shows "length apps = length ds" "devices_ok n apps"
    "k < length apps \<Longrightarrow> 0 < i \<Longrightarrow> i < n \<Longrightarrow> view_interval (app_views (apps ! k)) oi i = (- 1, - 1)"
proof -
  note r = assms(1) [unfolded resize_devices_def]
  show len: "length apps = length ds" by (rule map_opt_length [OF r])
  have "ResizeApp app d0 (ds ! k) = Some (apps ! k)" if "k < length apps" for k
    using map_opt_nth [OF r, of k] that len by simp
  note one = ResizeApp_result [OF this assms(2,3)]
  show "devices_ok n apps" using one(1) by (simp add: devices_ok_def)
  show "k < length apps \<Longrightarrow> 0 < i \<Longrightarrow> i < n \<Longrightarrow> view_interval (app_views (apps ! k)) oi i = (- 1, - 1)"
    by (rule one(2))
qed

lemma scorers_fit:
  assumes "blank_app app" "model_answers model (app_views app)" "length (app_views app) \<le> 1000"
    and "\<forall>oi. \<forall>i < length (app_views app). view_view_size (app_views app ! i) oi = None"
    and "both (AttrScorer model (app_views app)) = Some scs"
  shows "scorer_fits (length (app_views app)) oi (scs oi) app"
proof -
  obtain cands where c: "both (start_candidates scs (app_views app)) = Some cands"
    "cand_ok (cands oi) (scs oi) (length (app_views app)) oi" "\<forall>i < length (app_views app). constraints_added (cands oi) ! i = 0"
    using start_candidates_result [OF assms(1-4)] assms(5) by auto
  then have "start_candidates scs (app_views app) oi = Some (cands oi)" by (simp add: both_Some)
  then have "start_candidates (\<lambda>_. scs oi) (app_views app) oi = Some (cands oi)" by (simp add: start_candidates_def)
  with c(2,3) show ?thesis by (auto simp: scorer_fits_def)
qed

lemma SynthesizeLayoutMultiDeviceProb_result:
  assumes env: "sound_env env" and app: "blank_app app" "model_answers model (app_views app)" "length (app_views app) \<le> 1000"
      "\<forall>oi. \<forall>i < length (app_views app). view_view_size (app_views app ! i) oi = None" "positions_known (app_views app)"
    and result: "SynthesizeLayoutMultiDeviceProb env opt model app d0 ds = Some (SUCCESS, app', apps')"
  shows "\<exists>apps. resize_devices app d0 ds = Some apps \<and> length apps' = length ds \<and>
    constrained (app_views app) (app_views app') (length ds) (\<lambda>k. view_interval (app_views (apps' ! k)) oi) oi \<and>
    (\<forall>k < length ds. view_interval (app_views (apps' ! k)) oi 0 = view_interval (app_views (apps ! k)) oi 0 \<and>
       (\<forall>i < length (app_views app). inside_frame (view_interval (app_views (apps' ! k)) oi) i) \<and>
       keeps_centering (app_views app) (view_interval (app_views app) oi) (view_interval (app_views (apps' ! k)) oi))"
proof -
  let ?vs = "app_views app" and ?n = "length (app_views app)"
  let ?J = "\<lambda>k. view_interval (app_views (apps' ! k)) oi"
  have n: "views_ok ?n ?vs" using app(1) by (simp add: views_ok_def blank_app_def synth_ready_def)
  have "2 \<le> ?n" using app(1) by (simp add: blank_app_def synth_ready_def)
  then have n0: "0 < ?n" by linarith
  obtain apps scs where r: "resize_devices app d0 ds = Some apps" "both (\<lambda>oi. AttrScorer model ?vs oi) = Some scs"
    "vertical_then_horizontal (\<lambda>oi a es. SynthesizeMultiDeviceProb env False (ds \<noteq> []) opt (scs oi) oi a es) app apps =
       Some (SUCCESS, app', apps')"
    using result by (auto simp: SynthesizeLayoutMultiDeviceProb_def bind_Some_iff)
  note devs = resize_devices_result [OF r(1) n app(1)]
  have "scorer_fits ?n oi (scs oi) app" for oi by (rule scorers_fit [OF app(1-4)]) (use r(2) in simp)
  from vertical_then_horizontal_found [OF env n app(3) devs(2) app(5) this r(3)] obtain Q where
    f: "layouts_found False (ds \<noteq> []) app apps app' apps' oi Q" by blast
  have J: "?J k i = Q k i" if "k < length ds" "i < ?n" for k i using f that devs(1) by (simp add: layouts_found_def)
  have "constrained ?vs (app_views app') (length ds) ?J oi"
    by (rule constrained_layouts) (use f devs(1) J in \<open>auto simp: layouts_found_def\<close>)
  moreover have "?J k 0 = view_interval (app_views (apps ! k)) oi 0 \<and> (\<forall>i < ?n. inside_frame (?J k) i) \<and>
      keeps_centering ?vs (view_interval ?vs oi) (?J k)" if k: "k < length ds" for k
  proof -
    have placed: "device_placed False True ?vs oi (view_interval (app_views (apps ! k)) oi) (Q k)"
    proof -
      have "ds \<noteq> []" using k by auto
      with f k devs(1) show ?thesis by (simp add: layouts_found_def)
    qed
    have "inside_frame (Q k) i" if "i < ?n" for i
    proof (cases "i = 0")
      case False
      then have "\<not> known_interval (view_interval (app_views (apps ! k)) oi i)"
        using devs(3) [of k i oi] k devs(1) that by (simp add: known_interval_def)
      with placed False that show ?thesis unfolding device_placed_def robust_layout_def by blast
    qed (simp add: inside_frame_def)
    moreover have "keeps_centering ?vs (view_interval ?vs oi) (?J k) = keeps_centering ?vs (view_interval ?vs oi) (Q k)"
      by (rule keeps_centering_cong) (rule J [OF k])
    ultimately show ?thesis using placed J [OF k] n0 by (simp add: device_placed_def robust_layout_def inside_frame_def)
  qed
  ultimately show ?thesis using r(1) f devs(1) by (intro exI [of _ apps]) (simp add: layouts_found_def)
qed

section \<open>When a query succeeds\<close>

lemma prob_query_model_cong:
  assumes "\<And>i. 0 < i \<Longrightarrow> i < n \<Longrightarrow> offers i = offers' i" "length zs = n" "length (app_views app) = n"
  shows "prob_query_model opt u r app oi apps zs offers m = prob_query_model opt u r app oi apps zs offers' m"
  unfolding prob_query_model_def prob_device_model_def reference_model_def using assms by (simp cong: conj_cong)

lemma prob_query_model_plain:
  "prob_query_model opt u r app oi apps zs offers m \<Longrightarrow> prob_query_model False u r app oi apps zs offers m"
  by (simp add: prob_query_model_def reference_model_def syn_clause_def)

lemma numbers_fit_device:
  "numbers_fit n K m \<Longrightarrow> k < K \<Longrightarrow> i < n \<Longrightarrow>
     int32 (fst (model_positions m oi (int k + 1) i)) \<and> int32 (snd (model_positions m oi (int k + 1) i))"
  unfolding numbers_fit_def by (metis Suc_leI of_nat_Suc add.commute)

lemma assign_devices_total:
  assumes "length zds = length apps" "\<And>k. k < length apps \<Longrightarrow> made_views oi (D k) (zds ! k) \<and> length (zds ! k) = n"
    and "devices_ok n apps"
    and fit: "\<And>k i. k < length apps \<Longrightarrow> i < n \<Longrightarrow> int32 (fst (model_positions m oi (D k) i)) \<and> int32 (snd (model_positions m oi (D k) i))"
  shows "\<exists>apps'. assign_devices skip m oi zds apps = Some apps'"
proof -
  have "\<exists>a'. assign_device skip m oi (apps ! k) (zds ! k) = Some a'" if k: "k < length apps" for k
  proof -
    show ?thesis
      using assign_device_total [of oi "D k" "zds ! k" "apps ! k" m skip] assms(2) [OF k] assms(3) fit [OF k] k
      by (auto simp: devices_ok_def views_ok_def)
  qed
  then show ?thesis
    unfolding assign_devices_def map_opt_Some_iff using assms(1) by (fastforce simp: in_set_zip)
qed

lemma SynthesizeMultiDeviceProb_success:
  assumes env: "answers_with env m" and ok: "prob_input n oi app apps"
    and c: "start_candidates (\<lambda>_. sc) (app_views app) oi = Some c" "cand_ok c sc n oi" "\<forall>i < n. constraints_added c ! i = 0"
    and zs: "ConvertViews (app_views app) oi 0 = Some zs"
    and m: "prob_query_model opt user_input robust app oi apps zs (offered c sc) m" "assumed oi zs m" "numbers_fit n (length apps) m"
  shows "\<exists>app' apps'. SynthesizeMultiDeviceProb env user_input robust opt sc oi app apps = Some (SUCCESS, app', apps')"
proof -
  let ?vs = "app_views app"
  have n: "n \<le> 1000" "length ?vs = n" "\<forall>i < length ?vs. view_pos (?vs ! i) = int i" and dn: "devices_ok n apps"
    using ok by (simp_all add: prob_input_def views_ok_def)
  note z = ConvertViews_result [OF zs n(3), unfolded n(2)]
  have sat: "satisfies m (dq_assertions q @ GetAssumptions (dq_views q))"
    if "satisfies m (dq_assertions q)" "views_extended zs (dq_views q) g" for q g
    using that m(2) GetAssumptions_meaning [OF views_extended_made [OF that(2) z(2)]] assumed_extended [OF that(2)] by simp
  obtain q zds where q: "device_constraints False user_input robust app oi apps c = Some q" "same_candidates c (dq_cands q)"
    "views_extended zs (dq_views q) (\<lambda>i. if i = 0 then [] else map (attr_name oi) (offered c sc i))"
    "\<forall>m. satisfies m (dq_assertions q) \<longleftrightarrow> prob_query_model False user_input robust app oi apps zs (offered c sc) m"
    using device_constraints_result [OF ok c(2,3) zs, of False user_input robust] by blast
  have "satisfies m (dq_assertions q @ GetAssumptions (dq_views q))"
    using sat q(3,4) prob_query_model_plain [OF m(1)] by blast
  then have "device_sat_loop env (more_device_constraints ?vs oi) 50 (q\<lparr>dq_cands := FinishAdding (dq_cands q)\<rparr>) =
      Some (SUCCESS, q\<lparr>dq_cands := FinishAdding (dq_cands q)\<rparr>)"
    using env by (simp add: answers_with_def numeral_eq_Suc)
  then have get: "GetSatConstraints env user_input robust sc app oi apps = Some (SUCCESS, FinishAdding (dq_cands q))"
    using c(1) q(1) by (simp add: GetSatConstraints_def)
  let ?c = "ResetAdding (FinishAdding (dq_cands q))"
  have c1: "cand_ok ?c sc n oi" "\<forall>i < n. constraints_added ?c ! i = 0"
  proof -
    have "cand_ok (FinishAdding (dq_cands q)) sc n oi" by (rule cand_ok_updates(2) [OF same_candidates_ok(1) [OF q(2) c(2)]])
    then show "cand_ok ?c sc n oi" "\<forall>i < n. constraints_added ?c ! i = 0"
      using cand_ok_updates(3) by (auto simp: cand_ok_def ResetAdding_def)
  qed
  have off: "offered ?c sc i = offered c sc i" if "i < n" for i
    using offered_again [OF q(2)] c(2,3) that by (simp add: cand_ok_def)
  have m': "prob_query_model opt user_input robust app oi apps zs (offered ?c sc) m"
    using m(1) prob_query_model_cong [of n "offered ?c sc" "offered c sc" zs app] off z(1) n(2) by blast
  obtain q' zds where q': "device_constraints opt user_input robust app oi apps ?c = Some q'"
    "convert_devices apps oi = Some zds"
    "views_extended zs (dq_views q') (\<lambda>i. if i = 0 then [] else map (attr_name oi) (offered ?c sc i))"
    "length (dq_devices q') = length apps" "\<forall>k < length apps. \<exists>g. views_extended (zds ! k) (dq_devices q' ! k) g"
    "\<forall>m. satisfies m (dq_assertions q') \<longleftrightarrow> prob_query_model opt user_input robust app oi apps zs (offered ?c sc) m"
    using device_constraints_result [OF ok c1 zs, of opt user_input robust] by blast
  have "satisfies m (dq_assertions q' @ GetAssumptions (dq_views q'))" using sat q'(3,6) m' by blast
  then have opt: "env_optimize env (dq_assertions q' @ GetAssumptions (dq_views q')) cost = Sat m" for cost
    using env by (simp add: answers_with_def)
  have ref: "reference_model opt oi zs (offered ?c sc) m" using m' by (simp add: prob_query_model_def)
  have offers: "attribute_ok (length zs) i oi a" if "0 < i" "i < length zs" "a \<in> set (offered ?c sc i)" for i a
    using offered_ok(1) [OF c1(1)] that z(1) by simp
  have fresh: "\<forall>i < length zs. zv_constraints (zs ! i) = []" and lens: "length ?vs = length zs" "length zs \<le> 1000"
    and small: "\<forall>i < length zs. margins_small m oi i"
    using z(1,4) n m(3) by (simp_all add: numbers_fit_def)
  have dec: "env_decimal env 4 (1 / 2) = ''0.5''" using env by (simp add: answers_with_def)
  obtain vs' where vs': "assign_models env m oi (dq_views q') ?vs = Some vs'"
    using assign_models_total [OF ref m(2) q'(3) z(2) fresh lens offers dec small] by blast
  have devs: "made_views oi (int k + 1) (dq_devices q' ! k) \<and> length (dq_devices q' ! k) = n" if "k < length apps" for k
    using q'(5) convert_devices_result(2) [OF q'(2) dn that] that views_extended_made views_extended_length by metis
  obtain apps' where "assign_devices (\<lambda>_. False) m oi (dq_devices q') apps = Some apps'"
    using assign_devices_total [where D = "\<lambda>k. int k + 1", OF q'(4) devs dn numbers_fit_device [OF m(3)]] by blast
  then show ?thesis
    using get q'(1) opt vs' by (cases user_input) (simp_all add: SynthesizeMultiDeviceProb_def Let_def)
qed

lemma vertical_then_horizontal_success:
  assumes env: "answers_with env m" "sound_env env"
    and n: "views_ok n (app_views app)" "n \<le> 1000" "devices_ok n apps" "positions_known (app_views app)"
    and c: "\<And>oi. start_candidates (\<lambda>_. scs oi) (app_views app) oi = Some (cands oi)"
      "\<And>oi. cand_ok (cands oi) (scs oi) n oi" "\<And>oi. \<forall>i < n. constraints_added (cands oi) ! i = 0"
    and zs: "\<And>oi. ConvertViews (app_views app) oi 0 = Some (zs oi)"
    and m: "\<And>oi. prob_query_model opt user_input robust app oi apps (zs oi) (offered (cands oi) (scs oi)) m"
      "\<And>oi. assumed oi (zs oi) m" "numbers_fit n (length apps) m"
  shows "\<exists>app' apps'. vertical_then_horizontal (\<lambda>oi a ds. SynthesizeMultiDeviceProb env user_input robust opt (scs oi) oi a ds) app apps =
      Some (SUCCESS, app', apps')"
proof -
  let ?f = "\<lambda>oi a ds. SynthesizeMultiDeviceProb env user_input robust opt (scs oi) oi a ds"
  have len: "length (app_views app) = n" using n(1) by (simp add: views_ok_def)
  have known: "known_interval (view_interval (app_views app) oi i)" if "i < n" for oi i
    using n(4) len that by (simp add: positions_known_def known_interval_def)
  have ok: "prob_input n oi app apps" for oi using n(1-3) known by (simp add: prob_input_def)
  obtain app1 apps1 where v: "?f VERTICAL app apps = Some (SUCCESS, app1, apps1)"
    using SynthesizeMultiDeviceProb_success [OF env(1) ok c(1-3) zs m(1,2,3)] by blast
  have fits: "scorer_fits n oi (scs oi) app" for oi using c by (auto simp: scorer_fits_def)
  obtain Q1 where a1: "prob_answer user_input robust n VERTICAL app apps Q1 app1 apps1"
    using SynthesizeMultiDeviceProb_result [OF env(2) ok fits v] by blast
  obtain f where "app_views app1 = with_constraints VERTICAL f n (app_views app)"
    using a1 by (auto simp: prob_answer_def)
  then have same: "same_views (app_views app) (app_views app1)" using same_views_with_constraints by metis
  have len1: "length (app_views app1) = n" using same len by (simp add: same_views_def)
  have d1: "devices_ok n apps1" "length apps1 = length apps"
    using a1 n(3) by (auto simp: prob_answer_def devices_moved_def split: if_splits)
  have K: "view_interval (app_views (apps1 ! k)) HORIZONTAL i = view_interval (app_views (apps ! k)) HORIZONTAL i"
    if "k < length apps" "i < n" for k i
    using a1 that by (auto simp: prob_answer_def devices_moved_def split: if_splits)
  have ok1: "prob_input n HORIZONTAL app1 apps1"
    using same_views_ok [OF same n(1)] n(2) d1(1) known same_views_interval [OF same] len by (simp add: prob_input_def)
  have same_model: "prob_query_model opt user_input robust app1 HORIZONTAL apps1 (zs HORIZONTAL) (offered (cands HORIZONTAL) (scs HORIZONTAL)) m"
  proof -
    have "prob_device_model user_input robust (app_views app1) HORIZONTAL (int k + 1)
        (view_interval (app_views (apps1 ! k)) HORIZONTAL) (offered (cands HORIZONTAL) (scs HORIZONTAL)) m"
      if k: "k < length apps" for k
    proof -
      have old: "prob_device_model user_input robust (app_views app) HORIZONTAL (int k + 1)
        (view_interval (app_views (apps ! k)) HORIZONTAL) (offered (cands HORIZONTAL) (scs HORIZONTAL)) m"
        using m(1) [of HORIZONTAL] k by (simp add: prob_query_model_def)
      have "device_placed user_input robust (app_views app1) HORIZONTAL (view_interval (app_views (apps1 ! k)) HORIZONTAL)
          (model_positions m HORIZONTAL (int k + 1)) =
        device_placed user_input robust (app_views app) HORIZONTAL (view_interval (app_views (apps ! k)) HORIZONTAL)
          (model_positions m HORIZONTAL (int k + 1))"
        by (rule same_views_placed [OF same]) (use K k len in simp)
      moreover have "gen_clause (app_views app1) HORIZONTAL d m a = gen_clause (app_views app) HORIZONTAL d m a"
        if "0 < i" "i < n" "a \<in> set (offered (cands HORIZONTAL) (scs HORIZONTAL) i)" for d a i
      proof -
        have "attr_src a = i" using offered_ok(1) [OF c(2) that] by (simp add: attribute_ok_def)
        then show ?thesis
          using same_views_interval [OF same, of i HORIZONTAL] that(2) len by (simp add: gen_clause_def size_kept_def)
      qed
      ultimately show ?thesis using old len len1 unfolding prob_device_model_def by metis
    qed
    with m(1) [of HORIZONTAL] d1(2) show ?thesis by (simp add: prob_query_model_def)
  qed
  have start: "start_candidates (\<lambda>_. scs HORIZONTAL) (app_views app1) HORIZONTAL = Some (cands HORIZONTAL)"
    "ConvertViews (app_views app1) HORIZONTAL 0 = Some (zs HORIZONTAL)"
    using c(1) zs by (simp_all add: start_candidates_def same_views_convert [OF same])
  have "numbers_fit n (length apps1) m" using m(3) d1(2) by simp
  from SynthesizeMultiDeviceProb_success [OF env(1) ok1 start(1) c(2,3) start(2) same_model m(2) this] v
  show ?thesis by (auto simp: vertical_then_horizontal_def)
qed

text \<open>\<^verbatim>\<open>SynthesizeLayoutMultiDevice\<close> with a probability model hands its scorer on and always aborts.\<close>

lemma SynthesizeLayoutMultiDevice_model_aborts:
  "SynthesizeLayoutMultiDevice_model env outer_cond model app d0 ds = None"
  by (simp add: SynthesizeLayoutMultiDevice_model_def vertical_then_horizontal_def SynthesizeMultiDevice_def)

end
