(* ===== verification/Device_Properties.thy ===== *)
theory Device_Properties
  imports Multi_Device Query_Properties
begin

text \<open>
  The properties of the synthesis that solves one orientation at a time, shown to apply to the
  sample screen of \<^theory_text>\<open>Query_Properties\<close>, resized to a larger device.
\<close>

section \<open>A sample screen and device\<close>

definition pair_screen :: app where
  "pair_screen = pair_app\<lparr>app_resizable := [True, True]\<rparr>"

definition small_device :: device where
  "small_device = \<lparr>dev_width = 100, dev_height = 200\<rparr>"

definition large_device :: device where
  "large_device = \<lparr>dev_width = 120, dev_height = 240\<rparr>"

lemma pair_screen_views [simp]: "app_views pair_screen = app_views pair_app"
  by (simp add: pair_screen_def)

lemma pair_resized:
  "\<exists>a. resize_devices pair_screen small_device [large_device] = Some [a] \<and>
     view_interval (app_views a) HORIZONTAL 0 = (0, 120) \<and> view_interval (app_views a) VERTICAL 0 = (0, 240)"
proof -
  have "map_option (map (\<lambda>a. (view_interval (app_views a) HORIZONTAL 0, view_interval (app_views a) VERTICAL 0)))
      (resize_devices pair_screen small_device [large_device]) = Some [((0, 120), (0, 240))]"
    by code_simp
  then show ?thesis by (auto simp: map_option_case split: option.splits)
qed

lemma pair_known: "positions_known (app_views pair_app)"
  unfolding positions_known_def all_orientations pair_plain(4) less_two
  by (auto simp: view_interval_def pair_app_def View_make_def)

lemma pair_screen_plain:
  "blank_app pair_screen" "model_answers (\<lambda>vs a. Some 0) (app_views pair_screen)" "length (app_views pair_screen) = 2"
  "\<forall>oi. \<forall>i < length (app_views pair_screen). view_view_size (app_views pair_screen ! i) oi = None"
  "views_ok 2 (app_views pair_screen)" "positions_known (app_views pair_screen)"
  using pair_plain pair_known by (simp_all add: blank_app_def)

lemma pair_robust: "robust_layout (app_views pair_app) oi K (model_positions pair_model oi 1)"
proof -
  have "keeps_centering_at (app_views pair_app) (view_interval (app_views pair_app) oi) (model_positions pair_model oi 1) 1"
    unfolding keeps_centering_at_def pair_plain(4)
    by (cases oi) (auto simp: mid_def view_interval_def pair_app_def View_make_def less_2_cases_iff)
  moreover have "i = 1" if "0 < i \<and> i < 2" for i :: nat using that by linarith
  moreover have "inside_frame (model_positions pair_model oi 1) 1"
    by (cases oi) (simp_all del: One_nat_def add: inside_frame_def pair_positions)
  moreover have "i = 0 \<or> i = 1" if "i < 2" for i :: nat using that by linarith
  ultimately show ?thesis unfolding robust_layout_def keeps_centering_def pair_plain(4) by metis
qed

lemma pair_found:
  "\<exists>app' apps'. SynthesizeLayoutMultiDeviceProb pair_env False (\<lambda>vs a. Some 0) pair_screen small_device [large_device] =
     Some (SUCCESS, app', apps')"
proof -
  obtain a where a: "resize_devices pair_screen small_device [large_device] = Some [a]"
    "view_interval (app_views a) HORIZONTAL 0 = (0, 120)" "view_interval (app_views a) VERTICAL 0 = (0, 240)"
    using pair_resized by blast
  obtain scs cands q where c: "both (AttrScorer (\<lambda>vs a. Some 0) (app_views pair_app)) = Some scs"
    "both (start_candidates scs (app_views pair_app)) = Some cands" "\<forall>oi. cand_ok (cands oi) (scs oi) 2 oi"
    "\<forall>oi. \<forall>i < 2. constraints_added (cands oi) ! i = 0"
    "convert_query pair_app [pair_device] cands = Some q" "query_model (app_views pair_app) False scs q pair_model"
    by (rule pair_candidates)
  have q: "ConvertViews (app_views pair_app) oi 0 = Some (q_views q oi)" "q_cands q = cands" for oi
    using c(5) by (auto simp: convert_query_def bind_Some_iff both_Some)
  note q0 = convert_query_result [OF c(5) pair_plain(6) _ pair_plain(5) c(3), simplified]
  have lens: "length (q_devices q oi) = 1" "length (q_devices q oi ! 0) = 2" for oi
    using q0(1,4) by (simp_all add: query_ok_def query_intervals_def)
  have "start_candidates scs (app_views pair_app) oi = Some (cands oi)" for oi using c(2) by (simp add: both_Some)
  then have start: "start_candidates (\<lambda>_. scs oi) (app_views pair_screen) oi = Some (cands oi)" for oi
    by (simp add: start_candidates_def)
  have dev: "prob_device_model False True (app_views pair_app) oi 1 (view_interval (app_views a) oi)
      (offered (cands oi) (scs oi)) pair_model" for oi
  proof -
    have "device_model (app_views pair_app) oi 1 (q_devices q oi ! 0) (offered (cands oi) (scs oi)) pair_model"
      using c(6) lens(1) q(2) by (simp add: query_model_def orientation_model_def)
    then have gen: "\<forall>i b. 0 < i \<and> i < 2 \<and> b \<in> set (offered (cands oi) (scs oi) i) \<longrightarrow> gen_clause (app_views pair_app) oi 1 pair_model b"
      using lens(2) by (simp add: device_model_def)
    have "model_positions pair_model oi 1 0 = view_interval (app_views a) oi 0"
      using a(2,3) by (cases oi) (simp_all del: One_nat_def add: pair_positions)
    with gen pair_robust show ?thesis
      unfolding prob_device_model_def device_placed_def pair_plain(4) by blast
  qed
  have model: "prob_query_model False False True pair_screen oi [a] (q_views q oi) (offered (cands oi) (scs oi)) pair_model" for oi
    using c(6) dev [of oi] q(2) by (simp add: prob_query_model_def query_model_def orientation_model_def)
  have assumed: "assumed oi (q_views q oi) pair_model" for oi using c(6) by (simp add: query_model_def)
  have fit: "numbers_fit 2 (length [a]) pair_model" using pair_numbers by simp
  have fresh: "\<forall>i < 2. constraints_added (cands oi) ! i = 0" for oi using c(4) by blast
  have n: "(2 :: nat) \<le> 1000" by simp
  have devs: "devices_ok 2 [a]" by (rule resize_devices_result(2) [OF a(1) pair_screen_plain(5,1)])
  have views: "ConvertViews (app_views pair_screen) oi 0 = Some (q_views q oi)" for oi using q(1) by simp
  from vertical_then_horizontal_success [OF pair_env_sound(2,1) pair_screen_plain(5) n devs pair_screen_plain(6) start
      c(3) [rule_format] fresh views model assumed fit] a(1) c(1)
  show ?thesis by (simp add: SynthesizeLayoutMultiDeviceProb_def)
qed

section \<open>The properties\<close>

text \<open>
  C2. When the synthesis for a list of devices reports success for an app without constraints whose
  positions are known, and the models that the solver returns satisfy what it was asked, then the
  devices are laid out in frames of their resized screens, every view lies inside its frame, and what
  was centered on the reference screen is centered on every device. In both orientations every view
  has a constraint, the references are acyclic, the constraints hold on the reference screen and in
  the layouts of the devices, and views of fixed size keep it. A constraint whose margins of 10000
  and more were stored as 0 holds with those; there is one only if two places of the screen are 10000
  apart, or for a view of fixed size centered between different anchors.
\<close>

theorem SynthesizeLayoutMultiDeviceProb_robust:
  assumes "sound_env env" "blank_app app" "model_answers model (app_views app)" "length (app_views app) \<le> 1000"
    and "\<forall>oi. \<forall>i < length (app_views app). view_view_size (app_views app ! i) oi = None"
    and "positions_known (app_views app)"
    and "SynthesizeLayoutMultiDeviceProb env opt model app d0 ds = Some (SUCCESS, app', apps')"
  shows "\<exists>apps. resize_devices app d0 ds = Some apps \<and> length apps' = length ds \<and>
    constrained (app_views app) (app_views app') (length ds) (\<lambda>k. view_interval (app_views (apps' ! k)) oi) oi \<and>
    (\<forall>k < length ds. view_interval (app_views (apps' ! k)) oi 0 = view_interval (app_views (apps ! k)) oi 0 \<and>
       (\<forall>i < length (app_views app). inside_frame (view_interval (app_views (apps' ! k)) oi) i) \<and>
       keeps_centering (app_views app) (view_interval (app_views app) oi) (view_interval (app_views (apps' ! k)) oi))"
  by (rule SynthesizeLayoutMultiDeviceProb_result [OF assms])

lemma SynthesizeLayoutMultiDeviceProb_robust_witness:
  "\<exists>app' apps'. SynthesizeLayoutMultiDeviceProb pair_env False (\<lambda>vs a. Some 0) pair_screen small_device [large_device] =
       Some (SUCCESS, app', apps') \<and>
     constrained (app_views pair_app) (app_views app') 1 (\<lambda>k. view_interval (app_views (apps' ! k)) HORIZONTAL) HORIZONTAL \<and>
     inside_frame (view_interval (app_views (apps' ! 0)) HORIZONTAL) 1"
proof -
  obtain app' apps' where r: "SynthesizeLayoutMultiDeviceProb pair_env False (\<lambda>vs a. Some 0) pair_screen small_device [large_device] =
       Some (SUCCESS, app', apps')" using pair_found by blast
  have len: "length (app_views pair_screen) \<le> 1000" using pair_screen_plain(3) by simp
  from SynthesizeLayoutMultiDeviceProb_robust [OF pair_env_sound(1) pair_screen_plain(1,2) len pair_screen_plain(4,6) r, of HORIZONTAL]
  show ?thesis using r pair_screen_plain(3) by auto
qed

text \<open>
  C10. The search for satisfiable candidates for several devices returns a status and well-formed
  candidates whatever the solver answers: no \<^verbatim>\<open>CHECK\<close> fails, no vector is accessed out of range and
  the number of rounds is bounded.
\<close>

theorem GetSatConstraints_returns:
  assumes "blank_app app" "model_answers model (app_views app)" "length (app_views app) \<le> 1000"
    and "\<forall>oi. \<forall>i < length (app_views app). view_view_size (app_views app ! i) oi = None"
    and "positions_known (app_views app)" "devices_ok (length (app_views app)) apps"
    and "AttrScorer model (app_views app) oi = Some sc"
  shows "\<exists>st c. GetSatConstraints env user_input robust sc app oi apps = Some (st, c) \<and>
    cand_ok c sc (length (app_views app)) oi"
proof -
  let ?n = "length (app_views app)"
  obtain scs where scs: "both (AttrScorer model (app_views app)) = Some scs"
    using start_candidates_result [OF assms(1-4)] by blast
  then have "scs oi = sc" using assms(7) by (simp add: both_Some)
  then have "scorer_fits ?n oi sc app" using scorers_fit [OF assms(1-4) scs, of oi] by simp
  moreover have "prob_input ?n oi app apps"
    using blank_app_views_ok [OF assms(1)] assms(3,5,6) by (simp add: prob_input_def positions_known_def known_interval_def)
  ultimately show ?thesis using GetSatConstraints_result by blast
qed

lemma GetSatConstraints_returns_witness:
  "\<exists>sc st c. AttrScorer (\<lambda>vs a. Some 0) (app_views pair_screen) HORIZONTAL = Some sc \<and>
     GetSatConstraints (pair_env\<lparr>env_check := \<lambda>s t. Unsat\<rparr>) False True sc pair_screen HORIZONTAL [pair_device] = Some (st, c)"
proof -
  obtain scs cands q where "both (AttrScorer (\<lambda>vs a. Some 0) (app_views pair_app)) = Some scs" by (rule pair_candidates)
  then have sc: "AttrScorer (\<lambda>vs a. Some 0) (app_views pair_screen) HORIZONTAL = Some (scs HORIZONTAL)" by (simp add: both_Some)
  have "length (app_views pair_screen) \<le> 1000" "devices_ok (length (app_views pair_screen)) [pair_device]"
    using pair_screen_plain(3) pair_plain(5) by simp_all
  from GetSatConstraints_returns [OF pair_screen_plain(1,2) this(1) pair_screen_plain(4,6) this(2) sc] sc show ?thesis by blast
qed

end
