(* ===== verification/Syn_Helper.thy ===== *)
theory Syn_Helper
  imports Ref_Graph
begin

text \<open>
  \<^verbatim>\<open>src/inferui/inferui/model/syn_helper.cpp\<close>: the exchange of screens and layouts as JSON, the
  comparison of an app with its rendering, and the two repairs \<^verbatim>\<open>NormalizeMargins\<close> and
  \<^verbatim>\<open>TryFixInconsistencies\<close>, which change margins of an app until the layout service renders it
  as the synthesizer placed it. The service is a parameter from JSON to JSON (\<open>None\<close>: no answer that
  can be parsed). Reading the files of a directory is not modelled.
\<close>

section \<open>Reading JSON\<close>

text \<open>
  \<^verbatim>\<open>value[key]\<close> and \<^verbatim>\<open>value[index]\<close> give null for what is missing, on null too; any other kind of value
  is an assertion of the library. The model does not iterate over the members of an object.
\<close>

definition json_field :: "json \<Rightarrow> string \<Rightarrow> json option" where
  "json_field j k =
     (case j of
        JNull \<Rightarrow> Some JNull
      | JObject m \<Rightarrow> Some (case m k of None \<Rightarrow> JNull | Some v \<Rightarrow> v)
      | _ \<Rightarrow> None)"

definition json_at :: "json \<Rightarrow> nat \<Rightarrow> json option" where
  "json_at j i =
     (case j of
        JNull \<Rightarrow> Some JNull
      | JArray js \<Rightarrow> Some (if i < length js then js ! i else JNull)
      | _ \<Rightarrow> None)"

definition json_isMember :: "json \<Rightarrow> string \<Rightarrow> bool option" where
  "json_isMember j k =
     (case j of JNull \<Rightarrow> Some False | JObject m \<Rightarrow> Some (m k \<noteq> None) | _ \<Rightarrow> None)"

definition json_elements :: "json \<Rightarrow> json list option" where
  "json_elements j = (case j of JArray js \<Rightarrow> Some js | JObject m \<Rightarrow> None | _ \<Rightarrow> Some [])"

definition json_int_at :: "json \<Rightarrow> nat \<Rightarrow> int option" where
  "json_int_at j i = do { x \<leftarrow> json_at j i; as_int (Some x) }"

text \<open>\<^verbatim>\<open>asString\<close>; the texts of real numbers are not modelled.\<close>

definition as_string :: "json \<Rightarrow> string option" where
  "as_string j =
     (case j of
        JNull \<Rightarrow> Some []
      | JBool b \<Rightarrow> Some (if b then ''true'' else ''false'')
      | JInt i \<Rightarrow> Some (show_int i)
      | JString s \<Rightarrow> Some s
      | _ \<Rightarrow> None)"

definition as_real :: "json \<Rightarrow> real option" where
  "as_real j =
     (case j of
        JNull \<Rightarrow> Some 0
      | JBool b \<Rightarrow> Some (if b then 1 else 0)
      | JInt i \<Rightarrow> Some (of_int i)
      | JReal r \<Rightarrow> Some r
      | _ \<Rightarrow> None)"

section \<open>Screens as JSON\<close>

definition DeviceToJson :: "device \<Rightarrow> json" where
  "DeviceToJson d = JArray [JInt (dev_width d), JInt (dev_height d)]"

definition ViewToJson :: "view \<Rightarrow> json" where
  "ViewToJson v = JArray [JInt (xleft v), JInt (ytop v), JInt (xright v), JInt (ybottom v)]"

definition AppToJson :: "app \<Rightarrow> json" where
  "AppToJson a = JArray (map ViewToJson (filter (\<lambda>v. \<not> is_content_frame v) (app_views a)))"

definition ScreenToJson :: "app \<Rightarrow> device \<Rightarrow> json" where
  "ScreenToJson a d = JObject [''resolution'' \<mapsto> DeviceToJson d, ''views'' \<mapsto> AppToJson a]"

definition ToJson :: "app \<Rightarrow> app list \<Rightarrow> device \<Rightarrow> device list \<Rightarrow> json option" where
  "ToJson a apps ref_device devices =
     do { CHECK (length devices = length apps);
          Some (JObject [''screens'' \<mapsto>
            JArray (ScreenToJson a ref_device # map (\<lambda>(b, d). ScreenToJson b d) (zip apps devices))]) }"

definition AddScreenToJson :: "app \<Rightarrow> device \<Rightarrow> json \<Rightarrow> json option" where
  "AddScreenToJson a d data =
     (let add = (\<lambda>m. case m ''screens'' of
            None \<Rightarrow> Some (JObject (m(''screens'' \<mapsto> JArray [ScreenToJson a d])))
          | Some (JArray js) \<Rightarrow> Some (JObject (m(''screens'' \<mapsto> JArray (js @ [ScreenToJson a d]))))
          | Some JNull \<Rightarrow> Some (JObject (m(''screens'' \<mapsto> JArray [ScreenToJson a d])))
          | _ \<Rightarrow> None)
      in case data of JNull \<Rightarrow> add Map.empty | JObject m \<Rightarrow> add m | _ \<Rightarrow> None)"

definition screen_device :: "json \<Rightarrow> device option" where
  "screen_device screen =
     do { r \<leftarrow> json_field screen ''resolution'';
          w \<leftarrow> json_int_at r 0;
          h \<leftarrow> json_int_at r 1;
          Some \<lparr>dev_width = w, dev_height = h\<rparr> }"

text \<open>One view of \<^verbatim>\<open>CuJsonToAppRaw\<close>; a view that covers the whole screen is skipped.\<close>

definition raw_view_step :: "device \<Rightarrow> app \<Rightarrow> json \<Rightarrow> app option" where
  "raw_view_step d a view =
     do { l \<leftarrow> json_int_at view 0;
          t \<leftarrow> json_int_at view 1;
          r \<leftarrow> json_int_at view 2;
          b \<leftarrow> json_int_at view 3;
          if l = 0 \<and> t = 0 \<and> r = dev_width d \<and> b = dev_height d then Some a
          else Some (AddView a (View_named l t r b ''frog'' (int (length (app_views a))) ''frog'')) }"

definition CuJsonToAppRaw :: "json \<Rightarrow> app option" where
  "CuJsonToAppRaw screen =
     do { d \<leftarrow> screen_device screen;
          views \<leftarrow> json_field screen ''views'';
          js \<leftarrow> json_elements views;
          a \<leftarrow> fold_opt (raw_view_step d)
                 (AddView App_empty (View_named 0 0 (dev_width d) (dev_height d) ''parent'' 0 ''parent'')) js;
          Some (setResizable a [True, True]) }"

text \<open>
  \<^verbatim>\<open>JsonToApps\<close> appends to the given apps and devices. Three screens must be ordered by their width,
  and the middle one becomes the reference.
\<close>

record json_apps =
  ja_app :: app
  ja_apps :: "app list"
  ja_ref :: device
  ja_devices :: "device list"

definition add_screen :: "json_apps \<Rightarrow> json \<Rightarrow> json_apps option" where
  "add_screen s screen =
     do { d \<leftarrow> screen_device screen;
          a \<leftarrow> CuJsonToAppRaw screen;
          Some (s\<lparr>ja_apps := ja_apps s @ [a], ja_devices := ja_devices s @ [d]\<rparr>) }"

definition set_reference :: "json_apps \<Rightarrow> json \<Rightarrow> json_apps option" where
  "set_reference s screen =
     do { a \<leftarrow> CuJsonToAppRaw screen;
          d \<leftarrow> screen_device screen;
          Some (s\<lparr>ja_app := a, ja_ref := d\<rparr>) }"

definition read_screens :: "json_apps \<Rightarrow> json list \<Rightarrow> json_apps option" where
  "read_screens s screens =
     (case screens of
        [small, middle, big] \<Rightarrow>
          do { ds \<leftarrow> screen_device small;
               dm \<leftarrow> screen_device middle;
               db \<leftarrow> screen_device big;
               CHECK (dev_width ds < dev_width dm \<and> dev_width dm < dev_width db);
               s1 \<leftarrow> set_reference s middle;
               s2 \<leftarrow> add_screen s1 small;
               add_screen s2 big }
      | [] \<Rightarrow> Some s
      | first # rest \<Rightarrow> do { s1 \<leftarrow> set_reference s first; fold_opt add_screen s1 rest })"

definition JsonToApps :: "json \<Rightarrow> json_apps \<Rightarrow> (int \<times> json_apps) option" where
  "JsonToApps request s =
     do { named \<leftarrow> json_isMember request ''id'';
          text \<leftarrow> (if named then do { j \<leftarrow> json_field request ''id''; as_string j } else Some ''-1'');
          idx \<leftarrow> ParseInt32 text;
          list \<leftarrow> json_field request ''screens'';
          screens \<leftarrow> json_elements list;
          r \<leftarrow> read_screens s screens;
          Some (idx, r) }"

section \<open>Comparing an app with its rendering\<close>

definition ViewMatch :: "view \<Rightarrow> view \<Rightarrow> bool" where
  "ViewMatch a b \<longleftrightarrow> xleft a = xleft b \<and> xright a = xright b \<and> ytop a = ytop b \<and> ybottom a = ybottom b"

definition AppMatch :: "app \<Rightarrow> app \<Rightarrow> bool" where
  "AppMatch ref_app syn_app \<longleftrightarrow>
     length (app_views ref_app) = length (app_views syn_app) \<and>
     list_all (\<lambda>(v, w). ViewMatch v w) (zip (app_views ref_app) (app_views syn_app))"

definition borders_differ :: "orientation \<Rightarrow> view \<Rightarrow> view \<Rightarrow> bool" where
  "borders_differ oi v w \<longleftrightarrow>
     oi = HORIZONTAL \<and> (xleft v \<noteq> xleft w \<or> xright v \<noteq> xright w) \<or>
     oi = VERTICAL \<and> (ytop v \<noteq> ytop w \<or> ybottom v \<noteq> ybottom w)"

definition FindNonMatchingViews :: "app \<Rightarrow> app \<Rightarrow> orientation \<Rightarrow> int list option" where
  "FindNonMatchingViews ref_app syn_app oi =
     do { CHECK (length (app_views ref_app) = length (app_views syn_app));
          Some (map (\<lambda>(v, w). view_id v)
            (filter (\<lambda>(v, w). borders_differ oi v w) (zip (app_views ref_app) (app_views syn_app)))) }"

text \<open>\<^verbatim>\<open>JsonToView\<close> and \<^verbatim>\<open>JsonToApp\<close> read the answer of the layout service.\<close>

definition JsonToView :: "json \<Rightarrow> view option" where
  "JsonToView value =
     do { loc \<leftarrow> json_field value ''location'';
          x \<leftarrow> json_int_at loc 0;
          y \<leftarrow> json_int_at loc 1;
          w \<leftarrow> json_int_at loc 2;
          h \<leftarrow> json_int_at loc 3;
          j \<leftarrow> json_field value ''id'';
          text \<leftarrow> as_string j;
          named \<leftarrow> json_isMember value ''id'';
          i \<leftarrow> (if named then parseViewSeqID text else Some 0);
          Some (View_make x y (w + x) (h + y) text i None) }"

definition JsonToApp :: "json \<Rightarrow> app option" where
  "JsonToApp layout =
     do { frame \<leftarrow> json_field layout ''content_frame'';
          v \<leftarrow> JsonToView frame;
          list \<leftarrow> json_field layout ''components'';
          js \<leftarrow> json_elements list;
          vs \<leftarrow> map_opt JsonToView js;
          Some (AddViews App_empty (v # vs)) }"

text \<open>\<^verbatim>\<open>JsonToApp(solver.sendPost(app.ToJSON()))\<close>.\<close>

type_synonym layout_service = "json \<Rightarrow> json option"

definition rendered :: "layout_service \<Rightarrow> app \<Rightarrow> app option" where
  "rendered render a = do { j \<leftarrow> App_ToJSON a OUTPUT_XML; r \<leftarrow> render j; JsonToApp r }"

section \<open>Independent views\<close>

text \<open>\<^verbatim>\<open>std::set_intersection\<close> of two sorted ranges.\<close>

fun set_intersection :: "int list \<Rightarrow> int list \<Rightarrow> int list" where
  "set_intersection (x # xs) (y # ys) =
     (if x < y then set_intersection xs (y # ys)
      else if y < x then set_intersection (x # xs) ys
      else x # set_intersection xs ys)"
| "set_intersection xs ys = []"

definition IsIndependent :: "view list \<Rightarrow> nat \<Rightarrow> orientation \<Rightarrow> int list \<Rightarrow> bool option" where
  "IsIndependent vs i oi ids =
     do { nodes \<leftarrow> ReferencedNodes vs oi i;
          Some (length (set_intersection ids (sorted_list_of_set nodes)) = 1) }"

section \<open>Normalising margins\<close>

definition unnormalized :: "attribute \<Rightarrow> bool" where
  "unnormalized a \<longleftrightarrow>
     value_primary a = 0 \<and> value_secondary a = 1 \<or> value_primary a = 1 \<and> value_secondary a = 0"

definition unnormalized_ids :: "orientation \<Rightarrow> int set \<Rightarrow> view \<Rightarrow> int list option" where
  "unnormalized_ids oi resolved v =
     (if view_id v \<in> resolved \<or> is_content_frame v then Some []
      else do { a \<leftarrow> GetAttribute v oi; Some (if unnormalized a then [view_id v] else []) })"

definition FindUnnormalizedAttributes :: "app \<Rightarrow> orientation \<Rightarrow> int set \<Rightarrow> int list option" where
  "FindUnnormalizedAttributes a oi resolved =
     map_option concat (map_opt (unnormalized_ids oi resolved) (app_views a))"

definition HasUnnormalizedAttributes :: "app \<Rightarrow> bool option" where
  "HasUnnormalizedAttributes a =
     do { h \<leftarrow> FindUnnormalizedAttributes a HORIZONTAL {};
          if h \<noteq> [] then Some True
          else do { v \<leftarrow> FindUnnormalizedAttributes a VERTICAL {}; Some (v \<noteq> []) } }"

text \<open>The first of the ids whose view refers to no other of them.\<close>

fun first_independent :: "app \<Rightarrow> orientation \<Rightarrow> int list \<Rightarrow> int list \<Rightarrow> nat option option" where
  "first_independent a oi ids [] = Some None"
| "first_independent a oi ids (k # ks) =
     do { i \<leftarrow> findView a k;
          b \<leftarrow> IsIndependent (app_views a) i oi ids;
          if b then Some (Some i) else first_independent a oi ids ks }"

definition clear_margins :: "attribute \<Rightarrow> attribute" where
  "clear_margins a = (if unnormalized a then a\<lparr>value_primary := 0, value_secondary := 0\<rparr> else a)"

definition clear_view :: "app \<Rightarrow> orientation \<Rightarrow> nat \<Rightarrow> app option" where
  "clear_view a oi i =
     do { v \<leftarrow> vec_at (app_views a) i;
          x \<leftarrow> view_attributes v oi;
          Some (a\<lparr>app_views := (app_views a)[i := v\<lparr>view_attributes := (view_attributes v)(oi \<mapsto> clear_margins x)\<rparr>]\<rparr>) }"

text \<open>
  A state of the loop: the app of the caller, the working copy and the resolved ids. A change that
  the service does not confirm is taken back, but its id stays resolved.
\<close>

record normalize_state =
  ns_ref :: app
  ns_app :: app
  ns_resolved :: "int set"

definition normalize_node :: "orientation \<Rightarrow> int list \<Rightarrow> normalize_state \<Rightarrow> normalize_state option" where
  "normalize_node oi ids st =
     do { r \<leftarrow> first_independent (ns_app st) oi ids ids;
          case r of
            None \<Rightarrow> Some st
          | Some i \<Rightarrow>
              do { a \<leftarrow> clear_view (ns_app st) oi i;
                   Some (st\<lparr>ns_app := a, ns_resolved := insert (view_id (app_views a ! i)) (ns_resolved st)\<rparr>) } }"

definition confirm :: "layout_service \<Rightarrow> normalize_state \<Rightarrow> normalize_state option" where
  "confirm render st =
     do { r \<leftarrow> rendered render (ns_app st);
          if AppMatch (ns_app st) r then do { a \<leftarrow> App_copy (ns_app st); Some (st\<lparr>ns_ref := a\<rparr>) }
          else do { a \<leftarrow> App_copy (ns_ref st); Some (st\<lparr>ns_app := a\<rparr>) } }"

partial_function (option) normalize_loop ::
    "layout_service \<Rightarrow> orientation \<Rightarrow> normalize_state \<Rightarrow> normalize_state option" where
  "normalize_loop render oi st =
     do { ids \<leftarrow> FindUnnormalizedAttributes (ns_app st) oi (ns_resolved st);
          if ids = [] then Some st
          else do { st1 \<leftarrow> normalize_node oi ids st;
                    st2 \<leftarrow> confirm render st1;
                    normalize_loop render oi st2 } }"

declare normalize_loop.simps [code]

definition NormalizeMargins :: "layout_service \<Rightarrow> app \<Rightarrow> app option" where
  "NormalizeMargins render ref_app =
     do { b \<leftarrow> HasUnnormalizedAttributes ref_app;
          if \<not> b then Some ref_app
          else do {
            a \<leftarrow> App_copy ref_app;
            r \<leftarrow> rendered render a;
            if \<not> AppMatch a r then Some ref_app
            else do {
              h \<leftarrow> normalize_loop render HORIZONTAL \<lparr>ns_ref = ref_app, ns_app = a, ns_resolved = {}\<rparr>;
              v \<leftarrow> normalize_loop render VERTICAL (h\<lparr>ns_resolved := {}\<rparr>);
              Some (ns_ref v) } } }"

section \<open>Repairing inconsistencies\<close>

definition view_start :: "orientation \<Rightarrow> view \<Rightarrow> int" where
  "view_start oi v = (case oi of HORIZONTAL \<Rightarrow> xleft v | VERTICAL \<Rightarrow> ytop v)"

definition TryFixNode :: "view \<Rightarrow> view \<Rightarrow> orientation \<Rightarrow> view option" where
  "TryFixNode v r oi =
     do { a \<leftarrow> view_attributes v oi;
          Some (if value_primary a = 0 \<and> value_secondary a > 0
                then v\<lparr>view_attributes := (view_attributes v)(oi \<mapsto>
                       a\<lparr>value_secondary := value_secondary a - (view_start oi v - view_start oi r)\<rparr>)\<rparr>
                else v) }"

definition fix_view :: "app \<Rightarrow> orientation \<Rightarrow> int list \<Rightarrow> app \<Rightarrow> int \<Rightarrow> app option" where
  "fix_view rendered_app oi ids a k =
     do { i \<leftarrow> findView a k;
          j \<leftarrow> findView rendered_app k;
          let v = app_views a ! i;
          let r = app_views rendered_app ! j;
          if \<bar>view_start oi v - view_start oi r\<bar> = 1 then
            do { b \<leftarrow> IsIndependent (app_views a) i oi ids;
                 if b then do { w \<leftarrow> TryFixNode v r oi; Some (a\<lparr>app_views := (app_views a)[i := w]\<rparr>) } else Some a }
          else Some a }"

partial_function (option) fix_loop ::
    "layout_service \<Rightarrow> orientation \<Rightarrow> app \<Rightarrow> app \<Rightarrow> int list \<Rightarrow> (bool \<times> app \<times> app) option" where
  "fix_loop render oi a rendered_app ids =
     (if ids = [] then Some (True, a, rendered_app)
      else do { a1 \<leftarrow> fold_opt (fix_view rendered_app oi ids) a ids;
                r1 \<leftarrow> rendered render a1;
                cids \<leftarrow> FindNonMatchingViews a1 r1 oi;
                if length cids = length ids then Some (False, a1, r1)
                else fix_loop render oi a1 r1 cids })"

declare fix_loop.simps [code]

definition TryFixInconsistencies :: "layout_service \<Rightarrow> app \<Rightarrow> (bool \<times> app) option" where
  "TryFixInconsistencies render ref_app =
     do { a \<leftarrow> App_copy ref_app;
          r \<leftarrow> rendered render a;
          if AppMatch a r then Some (True, ref_app)
          else do {
            hids \<leftarrow> FindNonMatchingViews a r HORIZONTAL;
            h \<leftarrow> fix_loop render HORIZONTAL a r hids;
            if \<not> fst h then Some (False, ref_app)
            else do {
              vids \<leftarrow> FindNonMatchingViews (fst (snd h)) (snd (snd h)) VERTICAL;
              v \<leftarrow> fix_loop render VERTICAL (fst (snd h)) (snd (snd h)) vids;
              if \<not> fst v then Some (False, ref_app)
              else do { b \<leftarrow> App_copy (fst (snd v)); Some (True, b) } } } }"

section \<open>Apps without positions, scaled apps, texts\<close>

definition blank_copy :: "view \<Rightarrow> view" where
  "blank_copy v = View_make (- 1) (- 1) (- 1) (- 1) (view_name v) (view_id v) None"

definition EmptyApp_device :: "app \<Rightarrow> device \<Rightarrow> app" where
  "EmptyApp_device ref_app d =
     AddViews App_empty (map (\<lambda>v.
       if is_content_frame v
       then View_make (xleft v) (ytop v) (xleft v + dev_width d) (ytop v + dev_height d) (view_name v) (view_id v) None
       else blank_copy v) (app_views ref_app))"

definition EmptyApp :: "app \<Rightarrow> app" where
  "EmptyApp ref_app =
     AddViews App_empty (map (\<lambda>v. if is_content_frame v then View_fresh v else blank_copy v) (app_views ref_app))"

text \<open>The comparison of a size with an \<^verbatim>\<open>int\<close> is unsigned: a negative number keeps all views.\<close>

definition KeepFirstNViews :: "app \<Rightarrow> int \<Rightarrow> app" where
  "KeepFirstNViews ref_app n =
     AddViews App_empty (map View_fresh (if n < 0 then app_views ref_app else take (nat n) (app_views ref_app)))"

definition scale_int :: "real \<Rightarrow> int \<Rightarrow> int" where
  "scale_int f i = to_int (of_int i * f)"

definition scale_attribute :: "real \<Rightarrow> attribute \<Rightarrow> attribute" where
  "scale_attribute f a = a\<lparr>value_primary := scale_int f (value_primary a), value_secondary := scale_int f (value_secondary a)\<rparr>"

definition ScaleAttributes :: "app \<Rightarrow> real \<Rightarrow> app" where
  "ScaleAttributes a f =
     a\<lparr>app_views := map (\<lambda>v. v\<lparr>
        view_attributes := (\<lambda>oi. map_option (scale_attribute f) (view_attributes v oi)),
        view_padding := \<lparr>pad_left = scale_int f (pad_left (view_padding v)), pad_right = scale_int f (pad_right (view_padding v)),
          pad_top = scale_int f (pad_top (view_padding v)), pad_bottom = scale_int f (pad_bottom (view_padding v))\<rparr>\<rparr>)
       (app_views a)\<rparr>"

text \<open>\<^verbatim>\<open>eraseSubString\<close> removes the first occurrence.\<close>

fun eraseSubString :: "string \<Rightarrow> string \<Rightarrow> string" where
  "eraseSubString [] erased = []"
| "eraseSubString (c # cs) erased =
     (if take (length erased) (c # cs) = erased then drop (length erased) (c # cs)
      else c # eraseSubString cs erased)"

definition view_line :: "view \<Rightarrow> string" where
  "view_line v =
     show_int (xleft v) @ '', '' @ show_int (ytop v) @ '', '' @ show_int (rect_width v) @ '', '' @ show_int (rect_height v)"

fun join_lines :: "string list \<Rightarrow> string" where
  "join_lines [] = []"
| "join_lines [l] = l"
| "join_lines (l # ls) = l @ CHR 0x0A # join_lines ls"

definition appToString :: "app \<Rightarrow> string" where
  "appToString a = join_lines (map view_line (app_views a))"

text \<open>\<^verbatim>\<open>writeAppData\<close> gives the files it writes, in order: names and contents.\<close>

type_synonym text_file = "string \<times> string"

definition candidate_name :: "string \<Rightarrow> nat \<Rightarrow> nat \<Rightarrow> nat \<Rightarrow> nat \<Rightarrow> string" where
  "candidate_name prefix i num_views j label =
     prefix @ ''-'' @ show_nat i @ ''-'' @ show_nat num_views @ ''-'' @ show_nat j @ ''_'' @ show_nat label @ ''.txt''"

definition device_files :: "string \<Rightarrow> nat \<Rightarrow> app list list \<Rightarrow> app \<Rightarrow> nat \<Rightarrow> text_file list option" where
  "device_files prefix num_views cands full_target i =
     (let target = KeepFirstNViews full_target (int num_views) in
      do { cs \<leftarrow> map_opt (\<lambda>c. vec_at c i) cands;
           let ms = map (\<lambda>c. AppMatch c target) cs;
           let fs = map (\<lambda>j. (candidate_name prefix i num_views j (if ms ! j then 1 else 0), appToString (cs ! j)))
                     [0..<length cs];
           Some (if list_ex (\<lambda>b. b) ms then fs
                 else fs @ [(candidate_name prefix i num_views (length cands) 1, appToString target)]) })"

definition writeAppData :: "string \<Rightarrow> string \<Rightarrow> app list list \<Rightarrow> app list \<Rightarrow> app \<Rightarrow> text_file list option" where
  "writeAppData prefix name cands targets original =
     do { c0 \<leftarrow> vec_at cands 0;
          CHECK (length c0 = length targets);
          c00 \<leftarrow> vec_at c0 0;
          let n = length (app_views c00);
          fs \<leftarrow> map_opt (\<lambda>i. device_files (prefix @ name) n cands (targets ! i) i) [0..<length targets];
          Some (concat fs @ [(prefix @ name @ ''-'' @ show_nat n @ ''-original.txt'',
                              appToString (KeepFirstNViews original (int n)))]) }"

text \<open>\<^verbatim>\<open>askOracle\<close>: the request sent to the oracle, and the score in its answer.\<close>

definition oracle_request :: "app \<Rightarrow> device \<Rightarrow> string \<Rightarrow> string \<Rightarrow> string \<Rightarrow> app \<Rightarrow> app \<Rightarrow> json" where
  "oracle_request cand d oracle_type dataset filename target original =
     JObject [''model'' \<mapsto> JString oracle_type, ''dataset'' \<mapsto> JString dataset, ''generateData'' \<mapsto> JBool False,
       ''devices'' \<mapsto> JArray [JObject [
          ''layouts'' \<mapsto> JArray [App_ToCoordinatesJSON cand],
          ''target'' \<mapsto> App_ToCoordinatesJSON target,
          ''original'' \<mapsto> App_ToCoordinatesJSON original,
          ''filename'' \<mapsto> JString (eraseSubString filename ''.txt''),
          ''dimensions'' \<mapsto> DeviceToJson d]]]"

definition askOracle ::
    "(json \<Rightarrow> json option) \<Rightarrow> app \<Rightarrow> device \<Rightarrow> string \<Rightarrow> string \<Rightarrow> string \<Rightarrow> app \<Rightarrow> app \<Rightarrow> real option" where
  "askOracle oracle cand d oracle_type dataset filename target original =
     do { r \<leftarrow> oracle (oracle_request cand d oracle_type dataset filename target original);
          scores \<leftarrow> json_field r ''scores'';
          s \<leftarrow> json_at scores 0;
          as_real s }"

end
