(* ===== verification/Syn_Properties.thy ===== *)
theory Syn_Properties
  imports Syn_Helper
begin

text \<open>
  What the exchange and the repairs of \<^verbatim>\<open>syn_helper.cpp\<close> promise. Screens written as JSON are read
  back with the same geometry, unless there are three of them. A well-formed layout can always be
  written for the layout service. \<^verbatim>\<open>NormalizeMargins\<close> returns on every acyclic layout, clears only
  margins of one pixel, and its result is rendered in place. \<^verbatim>\<open>TryFixInconsistencies\<close> moves second
  margins only; a success is rendered in place too, unless vertical margins were moved.
\<close>

section \<open>The exchange of screens\<close>

definition borders :: "view \<Rightarrow> int \<times> int \<times> int \<times> int" where
  "borders v = (xleft v, ytop v, xright v, ybottom v)"

definition inner_views :: "app \<Rightarrow> view list" where
  "inner_views a = filter (\<lambda>v. \<not> is_content_frame v) (app_views a)"

text \<open>The app read for a screen: the frame, then the views in order, numbered from 0.\<close>

definition screen_read :: "app \<Rightarrow> device \<Rightarrow> app \<Rightarrow> bool" where
  "screen_read a d r \<longleftrightarrow>
     map borders (app_views r) = (0, 0, dev_width d, dev_height d) # map borders (inner_views a) \<and>
     map view_id (app_views r) = map int [0..<Suc (length (inner_views a))] \<and>
     app_resizable r = [True, True]"

text \<open>No view but the frame covers the whole screen.\<close>

definition screen_visible :: "app \<Rightarrow> device \<Rightarrow> bool" where
  "screen_visible a d \<longleftrightarrow> (0, 0, dev_width d, dev_height d) \<notin> borders ` set (inner_views a)"

lemma json_int_at_view:
  "json_int_at (ViewToJson v) 0 = Some (xleft v)" "json_int_at (ViewToJson v) (Suc 0) = Some (ytop v)"
  "json_int_at (ViewToJson v) 2 = Some (xright v)" "json_int_at (ViewToJson v) 3 = Some (ybottom v)"
  by (simp_all add: json_int_at_def json_at_def ViewToJson_def as_int_def numeral_2_eq_2 numeral_3_eq_3)

lemma screen_device_written: "screen_device (ScreenToJson a d) = Some d"
  by (cases d) (simp add: screen_device_def ScreenToJson_def DeviceToJson_def json_field_def json_int_at_def
      json_at_def as_int_def)

lemma View_named_simps [simp]:
  "borders (View_named l t r b n i x) = (l, t, r, b)" "view_id (View_named l t r b n i x) = i"
  "borders (v\<lparr>view_pos := p\<rparr>) = borders v"
  by (simp_all add: borders_def View_named_def View_make_def)

lemma raw_views_read:
  assumes "(0, 0, dev_width d, dev_height d) \<notin> borders ` set vs"
    and "map view_id (app_views a) = map int [0..<length (app_views a)]"
  shows "\<exists>r. fold_opt (raw_view_step d) a (map ViewToJson vs) = Some r \<and>
    map borders (app_views r) = map borders (app_views a) @ map borders vs \<and>
    map view_id (app_views r) = map int [0..<length (app_views a) + length vs]"
  using assms
proof (induction vs arbitrary: a)
  case (Cons v vs)
  let ?v = "View_named (xleft v) (ytop v) (xright v) (ybottom v) ''frog'' (int (length (app_views a))) ''frog''"
  have step: "raw_view_step d a (ViewToJson v) = Some (AddView a ?v)"
    using Cons.prems(1) by (auto simp: raw_view_step_def json_int_at_view borders_def)
  have "\<exists>r. fold_opt (raw_view_step d) (AddView a ?v) (map ViewToJson vs) = Some r \<and>
    map borders (app_views r) = map borders (app_views (AddView a ?v)) @ map borders vs \<and>
    map view_id (app_views r) = map int [0..<length (app_views (AddView a ?v)) + length vs]"
    by (rule Cons.IH) (use Cons.prems in auto)
  then show ?case
    using step by (auto simp: borders_def [of v])
qed simp

lemma CuJsonToAppRaw_written:
  assumes "screen_visible a d"
  shows "\<exists>r. CuJsonToAppRaw (ScreenToJson a d) = Some r \<and> screen_read a d r"
proof -
  let ?a = "AddView App_empty (View_named 0 0 (dev_width d) (dev_height d) ''parent'' 0 ''parent'')"
  have start: "map borders (app_views ?a) = [(0, 0, dev_width d, dev_height d)]"
    "map view_id (app_views ?a) = map int [0..<length (app_views ?a)]" "length (app_views ?a) = 1"
    by (simp_all add: App_empty_def)
  obtain r where r: "fold_opt (raw_view_step d) ?a (map ViewToJson (inner_views a)) = Some r"
    "map borders (app_views r) = map borders (app_views ?a) @ map borders (inner_views a)"
    "map view_id (app_views r) = map int [0..<length (app_views ?a) + length (inner_views a)]"
    using raw_views_read [OF _ start(2)] assms unfolding screen_visible_def by blast
  have "CuJsonToAppRaw (ScreenToJson a d) = Some (setResizable r [True, True])"
    unfolding CuJsonToAppRaw_def screen_device_written
    using r(1) by (simp add: ScreenToJson_def AppToJson_def json_field_def json_elements_def inner_views_def)
  moreover have "screen_read a d (setResizable r [True, True])"
    using r(2,3) unfolding screen_read_def start by (simp add: setResizable_def)
  ultimately show ?thesis by blast
qed

lemma add_screen_written:
  assumes "screen_visible a d"
  shows "\<exists>r. add_screen s (ScreenToJson a d) = Some (s\<lparr>ja_apps := ja_apps s @ [r], ja_devices := ja_devices s @ [d]\<rparr>) \<and>
    screen_read a d r"
  using CuJsonToAppRaw_written [OF assms] by (auto simp: add_screen_def screen_device_written)

lemma set_reference_written:
  assumes "screen_visible a d"
  shows "\<exists>r. set_reference s (ScreenToJson a d) = Some (s\<lparr>ja_app := r, ja_ref := d\<rparr>) \<and> screen_read a d r"
  using CuJsonToAppRaw_written [OF assms] by (auto simp: set_reference_def screen_device_written)


lemma ParseInt32_minus_one: "ParseInt32 ''-1'' = Some (- 1)"
  by code_simp

lemma ToJson_screens:
  assumes "length devices = length apps"
  shows "\<exists>j. ToJson a apps ref_device devices = Some j \<and>
    (\<forall>s. JsonToApps j s = map_option (Pair (- 1))
       (read_screens s (ScreenToJson a ref_device # map (\<lambda>(b, d). ScreenToJson b d) (zip apps devices))))"
proof -
  let ?l = "ScreenToJson a ref_device # map (\<lambda>(b, d). ScreenToJson b d) (zip apps devices)"
  let ?j = "JObject [''screens'' \<mapsto> JArray ?l]"
  have "JsonToApps ?j s = map_option (Pair (- 1)) (read_screens s ?l)" for s
    by (cases "read_screens s ?l")
      (simp_all add: JsonToApps_def json_isMember_def json_field_def json_elements_def ParseInt32_minus_one)
  moreover have "ToJson a apps ref_device devices = Some ?j" using assms by (simp add: ToJson_def)
  ultimately show ?thesis by blast
qed


lemma three_screens_exchanged:
  assumes "screen_visible a ref_device" "screen_visible b d" "screen_visible c e"
  shows "\<exists>j. ToJson a [b, c] ref_device [d, e] = Some j \<and>
    (if dev_width ref_device < dev_width d \<and> dev_width d < dev_width e
     then \<exists>ra rb rc. JsonToApps j s = Some (- 1, s\<lparr>ja_app := rb, ja_apps := ja_apps s @ [ra, rc], ja_ref := d,
            ja_devices := ja_devices s @ [ref_device, e]\<rparr>) \<and>
          screen_read a ref_device ra \<and> screen_read b d rb \<and> screen_read c e rc
     else JsonToApps j s = None)"
proof -
  obtain j where j: "ToJson a [b, c] ref_device [d, e] = Some j" and read: "JsonToApps j s = map_option (Pair (- 1))
       (read_screens s [ScreenToJson a ref_device, ScreenToJson b d, ScreenToJson c e])"
    using ToJson_screens [of "[d, e]" "[b, c]" a ref_device] by auto
  obtain rb where rb: "set_reference s (ScreenToJson b d) = Some (s\<lparr>ja_app := rb, ja_ref := d\<rparr>)" "screen_read b d rb"
    using set_reference_written [OF assms(2)] by blast
  obtain ra where ra: "add_screen (s\<lparr>ja_app := rb, ja_ref := d\<rparr>) (ScreenToJson a ref_device) =
      Some (s\<lparr>ja_app := rb, ja_ref := d, ja_apps := ja_apps s @ [ra], ja_devices := ja_devices s @ [ref_device]\<rparr>)"
    "screen_read a ref_device ra"
    using add_screen_written [OF assms(1), of "s\<lparr>ja_app := rb, ja_ref := d\<rparr>"] by auto
  obtain rc where rc: "add_screen (s\<lparr>ja_app := rb, ja_ref := d, ja_apps := ja_apps s @ [ra],
        ja_devices := ja_devices s @ [ref_device]\<rparr>) (ScreenToJson c e) =
      Some (s\<lparr>ja_app := rb, ja_ref := d, ja_apps := ja_apps s @ [ra, rc], ja_devices := ja_devices s @ [ref_device, e]\<rparr>)"
    "screen_read c e rc"
    using add_screen_written [OF assms(3), of "s\<lparr>ja_app := rb, ja_ref := d, ja_apps := ja_apps s @ [ra],
        ja_devices := ja_devices s @ [ref_device]\<rparr>"] by auto
  show ?thesis
  proof (cases "dev_width ref_device < dev_width d \<and> dev_width d < dev_width e")
    case True
    then have "read_screens s [ScreenToJson a ref_device, ScreenToJson b d, ScreenToJson c e] =
        Some (s\<lparr>ja_app := rb, ja_apps := ja_apps s @ [ra, rc], ja_ref := d, ja_devices := ja_devices s @ [ref_device, e]\<rparr>)"
      by (simp add: read_screens_def screen_device_written rb(1) ra(1) rc(1))
    with True j read ra(2) rb(2) rc(2) show ?thesis by auto
  next
    case False
    then have "read_screens s [ScreenToJson a ref_device, ScreenToJson b d, ScreenToJson c e] = None"
      by (auto simp: read_screens_def screen_device_written)
    with False j read show ?thesis by auto
  qed
qed

section \<open>Layouts that can be written\<close>

definition printable_attribute :: "attribute \<Rightarrow> bool" where
  "printable_attribute a \<longleftrightarrow> (IsRelationalAnchor (attr_type a) \<longrightarrow> value_primary a = 0 \<or> value_secondary a = 0)"

text \<open>Every view has its constraints, and a constraint with one target has one margin.\<close>

definition printable :: "app \<Rightarrow> bool" where
  "printable a \<longleftrightarrow> app_views a \<noteq> [] \<and>
     (\<forall>v \<in> set (app_views a). \<forall>oi.
        (is_content_frame v \<or> view_attributes v oi \<noteq> None) \<and> pred_option printable_attribute (view_attributes v oi))"

lemma put_property_total: "k \<noteq> None \<Longrightarrow> \<exists>m'. put_property m k v = Some m'"
  by (auto simp: put_property_def)

lemma ConstraintTypeToMargin_total: "IsRelationalAnchor t \<Longrightarrow> \<exists>s. ConstraintTypeToMargin t ty = Some s"
  using constants_name_total by (cases t) (simp_all add: ConstraintTypeToMargin_def)

lemma AlignToProperties_total:
  assumes "IsRelationalAnchor (attr_type a)" "tgt_primary a < length vs" "value_primary a = 0 \<or> value_secondary a = 0"
  shows "\<exists>m'. AlignToProperties vs a ty m = Some m'"
proof -
  obtain k where k: "ConstraintTypeToAttribute (attr_type a) ty = Some k"
    using ConstraintTypeToAttribute_total [OF assms(1)] by blast
  obtain g where g: "ConstraintTypeToMargin (attr_type a) ty = Some g"
    using ConstraintTypeToMargin_total [OF assms(1)] by blast
  show ?thesis using assms(2,3) by (simp add: AlignToProperties_def k g put_property_def)
qed

lemma split_center_sides:
  assumes "\<not> IsRelationalAnchor t" "ConstraintTypeToOrientation t = Some oi"
  obtains s e where "split_center t = Some (s, e)" "IsTypeStart s = Some True" "IsTypeStart e = Some False"
    "IsRelationalAnchor s" "IsRelationalAnchor e"
  using assms by (cases t) auto

lemma Attribute_relational_half:
  assumes "IsTypeStart t = Some b" "IsRelationalAnchor t" "0 \<le> v"
  shows "\<exists>a. Attribute_relational t sz v src prim = Some a \<and> attr_type a = t \<and> tgt_primary a = prim \<and>
    (value_primary a = 0 \<or> value_secondary a = 0)"
  using assms by (cases b) (simp_all add: Attribute_relational_def Attribute_full_def)

lemma Attribute_ToProperties_total:
  assumes "attribute_ok (length vs) i oi a" "printable_attribute a"
  shows "\<exists>m'. Attribute_ToProperties vs a ty m = Some m'"
  using assms(1)
proof (cases rule: ok_targets)
  case relational
  then show ?thesis
    using AlignToProperties_total [of a vs ty m] assms(2)
    by (simp add: Attribute_ToProperties_def printable_attribute_def)
next
  case (center j)
  have oi: "ConstraintTypeToOrientation (attr_type a) = Some oi" and nonneg: "0 \<le> value_primary a" "0 \<le> value_secondary a"
    using assms(1) by (auto simp: attribute_ok_def)
  obtain s e where se: "split_center (attr_type a) = Some (s, e)" "IsTypeStart s = Some True"
    "IsTypeStart e = Some False" "IsRelationalAnchor s" "IsRelationalAnchor e"
    using split_center_sides [OF center(1) oi] by blast
  obtain l where l: "Attribute_relational s (attr_view_size a) (value_primary a) (attr_src a) (tgt_primary a) = Some l"
    "attr_type l = s" "tgt_primary l = tgt_primary a" "value_primary l = 0 \<or> value_secondary l = 0"
    using Attribute_relational_half [OF se(2,4) nonneg(1)] by blast
  obtain r where r: "Attribute_relational e (attr_view_size a) (value_secondary a) (attr_src a) j = Some r"
    "attr_type r = e" "tgt_primary r = j" "value_primary r = 0 \<or> value_secondary r = 0"
    using Attribute_relational_half [OF se(3,5) nonneg(2)] by blast
  obtain m1 where m1: "AlignToProperties vs l ty m = Some m1"
    using AlignToProperties_total [of l vs ty m] se(4) center(3) l by auto
  obtain m2 where m2: "AlignToProperties vs r ty m1 = Some m2"
    using AlignToProperties_total [of r vs ty m1] se(5) center(4) r by auto
  obtain k where k: "constants_name (case oi of HORIZONTAL \<Rightarrow> layout_constraintHorizontal_bias
      | VERTICAL \<Rightarrow> layout_constraintVertical_bias) ty = Some k"
    using constants_name_total by blast
  show ?thesis
    using center by (simp add: Attribute_ToProperties_def CenterToProperties_def se l r m1 m2 oi put_property_def k)
qed

lemma size_property_total: "view_attributes v oi \<noteq> None \<Longrightarrow> \<exists>m'. size_property v ty m oi = Some m'"
  using constants_name_total [of NAME_MATCH_CONSTRAINT OUTPUT_XML] constants_name_total [of NAME_MATCH_PARENT OUTPUT_XML]
    constants_name_total [of "case oi of HORIZONTAL \<Rightarrow> layout_width | VERTICAL \<Rightarrow> layout_height" ty]
  by (cases "view_attributes v oi") (auto simp: size_property_def put_property_def ViewSizeStr_value_def;
      cases "attr_view_size (the (view_attributes v oi))"; simp)+

lemma Padding_ToProperties_total: "\<exists>m'. Padding_ToProperties p ty m = Some m'"
proof -
  have "\<exists>m'. padding_property ty n i m = Some m'" for n i m
    using constants_name_total [of n ty] by (auto simp: padding_property_def)
  then show ?thesis unfolding Padding_ToProperties_def by (metis bind.bind_lunit)
qed

lemma View_ToProperties_total:
  assumes "app_wf a" "printable a" "i < length (app_views a)"
  shows "\<exists>m. View_ToProperties (app_views a) (app_views a ! i) ty = Some m"
proof -
  let ?v = "app_views a ! i"
  have v: "is_content_frame ?v \<or> view_attributes ?v oi \<noteq> None" "pred_option printable_attribute (view_attributes ?v oi)" for oi
    using assms(2,3) unfolding printable_def by simp_all
  have wf: "attribute_ok (length (app_views a)) i oi x" if "view_attributes ?v oi = Some x" for oi x
    using assms(1,3) that by (rule app_wf_attribute)
  have attrs: "\<exists>m'. fold_opt (attribute_properties (app_views a) ?v ty) m both_orientations = Some m' \<and> True" for m
  proof (rule fold_opt_total)
    fix m oi
    show "\<exists>m'. attribute_properties (app_views a) ?v ty m oi = Some m' \<and> True"
    proof (cases "view_attributes ?v oi")
      case None
      then show ?thesis by (simp add: attribute_properties_def)
    next
      case (Some x)
      then show ?thesis
        using Attribute_ToProperties_total [OF wf [OF Some]] v(2) [of oi] by (simp add: attribute_properties_def)
    qed
  qed simp
  have sizes: "\<exists>m'. fold_opt (size_property ?v ty) m both_orientations = Some m' \<and> True" if "\<not> is_content_frame ?v" for m
    by (rule fold_opt_total) (use that v(1) size_property_total in auto)
  obtain k where k: "constants_name ID ty = Some k" using constants_name_total by blast
  let ?m0 = "Map.empty(k \<mapsto> view_id_text ?v)"
  have m0: "put_property Map.empty (constants_name ID ty) (view_id_text ?v) = Some ?m0"
    by (simp add: put_property_def k)
  obtain m1 where m1: "Padding_ToProperties (view_padding ?v) ty ?m0 = Some m1"
    using Padding_ToProperties_total by blast
  show ?thesis
  proof (cases "is_content_frame ?v")
    case True
    obtain w where w: "constants_name layout_width ty = Some w" using constants_name_total by blast
    obtain h where h: "constants_name layout_height ty = Some h" using constants_name_total by blast
    show ?thesis using attrs by (simp add: View_ToProperties_def k m1 True put_property_def w h)
  next
    case False
    then have "HasAttribute ?v HORIZONTAL \<and> HasAttribute ?v VERTICAL" using v(1) by (simp add: HasAttribute_def)
    moreover obtain m2 where "fold_opt (size_property ?v ty) m1 both_orientations = Some m2" using sizes [OF False] by blast
    ultimately show ?thesis using attrs [of m2] False by (simp add: View_ToProperties_def m0 m1)
  qed
qed

lemma App_ToJSON_total:
  assumes "app_wf a" "printable a"
  shows "\<exists>j. App_ToJSON a ty = Some j"
proof -
  have "\<exists>j. View_ToJSON (app_views a) v ty = Some j" if "v \<in> set (app_views a)" for v
    using that View_ToProperties_total [OF assms, of _ ty] by (auto simp: View_ToJSON_def in_set_conv_nth)
  then have "\<exists>js. map_opt (\<lambda>v. View_ToJSON (app_views a) v ty) (app_views a) = Some js"
    unfolding map_opt_Some_iff by blast
  then obtain js where js: "map_opt (\<lambda>v. View_ToJSON (app_views a) v ty) (app_views a) = Some js" by blast
  have n: "0 < length (app_views a)" using assms(2) by (simp add: printable_def)
  have len: "length js = length (app_views a)" using map_opt_length [OF js] .
  have "View_ToJSON (app_views a) (app_views a ! 0) ty = Some (js ! 0)" using map_opt_nth [OF js n] .
  then obtain m where m: "js ! 0 = JObject m" unfolding View_ToJSON_def by (metis option.map_sel option.sel option.simps(3) option.map_disc_iff)
  obtain k where k: "constants_name ID ty = Some k" using constants_name_total by blast
  show ?thesis using n len by (simp add: App_ToJSON_def js k m)
qed

section \<open>Independent views exist\<close>

lemma set_intersection_sorted:
  "sorted xs \<Longrightarrow> distinct xs \<Longrightarrow> sorted ys \<Longrightarrow> distinct ys \<Longrightarrow>
     set (set_intersection xs ys) = set xs \<inter> set ys \<and> distinct (set_intersection xs ys)"
proof (induction xs ys rule: set_intersection.induct)
  case (1 x xs y ys)
  consider "x < y" | "y < x" | "x = y" by linarith
  then show ?case
  proof cases
    case 1
    then have "x \<notin> set (y # ys)" using "1.prems"(3) by auto
    with 1 "1.IH"(1) "1.prems" show ?thesis by auto
  next
    case 2
    then have "y \<notin> set (x # xs)" using "1.prems"(1) by auto
    with 2 "1.IH"(2) "1.prems" show ?thesis by auto
  next
    case 3
    with "1.IH"(3) "1.prems" show ?thesis by auto
  qed
qed simp_all

lemma IsIndependent_result:
  assumes "refs_wf vs oi" "i < length vs" "sorted ids" "distinct ids"
  shows "IsIndependent vs i oi ids =
    Some (card (set ids \<inter> ids_of vs ((edges_of vs oi)\<^sup>* `` {i})) = 1)"
proof -
  let ?N = "ids_of vs ((edges_of vs oi)\<^sup>* `` {i})"
  have "(edges_of vs oi)\<^sup>* `` {i} \<subseteq> {..<length vs}"
    using rg.reach_bound [of i vs] assms(2) by auto
  then have fin: "finite ?N" unfolding ids_of_def by (meson finite_imageI finite_lessThan finite_subset)
  then have s: "set (set_intersection ids (sorted_list_of_set ?N)) = set ids \<inter> ?N"
    "distinct (set_intersection ids (sorted_list_of_set ?N))"
    using set_intersection_sorted [OF assms(3,4), of "sorted_list_of_set ?N"] by simp_all
  then have "length (set_intersection ids (sorted_list_of_set ?N)) = card (set ids \<inter> ?N)"
    using distinct_card [OF s(2)] by simp
  then show ?thesis by (simp add: IsIndependent_def ReferencedNodes_result [OF assms(1,2)])
qed

text \<open>Among views of an acyclic graph there is one that refers to none of the others.\<close>

lemma independent_exists:
  assumes "refs_wf vs oi" "acyclic (edges_of vs oi)" "I \<subseteq> {..<length vs}" "I \<noteq> {}"
  shows "\<exists>i \<in> I. card (ids_of vs I \<inter> ids_of vs ((edges_of vs oi)\<^sup>* `` {i})) = 1"
proof -
  have "wf (((edges_of vs oi)\<inverse>)\<^sup>+)" using rg.wf_edges [OF assms(2)] by (rule wf_trancl)
  then obtain i where i: "i \<in> I" and least: "\<And>j. (j, i) \<in> ((edges_of vs oi)\<inverse>)\<^sup>+ \<Longrightarrow> j \<notin> I"
    using assms(4) by (meson ex_in_conv wfE_min)
  have only: "I \<inter> (edges_of vs oi)\<^sup>* `` {i} = {i}"
  proof -
    have "j = i" if "j \<in> I" "(i, j) \<in> (edges_of vs oi)\<^sup>*" for j
      using that least [of j] by (auto simp: rtrancl_eq_or_trancl trancl_converse)
    then show ?thesis using i by auto
  qed
  have reach: "(edges_of vs oi)\<^sup>* `` {i} \<subseteq> {..<length vs}"
    using rg.reach_bound [of i vs] assms(3) i by auto
  have inj: "inj_on (\<lambda>i. view_id (vs ! i)) {..<length vs}"
  proof (rule inj_onI)
    fix x y assume "x \<in> {..<length vs}" "y \<in> {..<length vs}" "view_id (vs ! x) = view_id (vs ! y)"
    then show "x = y" using assms(1) nth_eq_iff_index_eq [of "map view_id vs" x y] by (simp add: refs_wf_def)
  qed
  have "ids_of vs I \<inter> ids_of vs ((edges_of vs oi)\<^sup>* `` {i}) = {view_id (vs ! i)}"
    using inj_on_image_Int [OF inj assms(3) reach] unfolding ids_of_def only by simp
  with i show ?thesis by (intro bexI [of _ i]) simp_all
qed

lemma first_independent_result:
  assumes "app_wf a" "sorted ids" "distinct ids" "set ks \<subseteq> set (map view_id (app_views a))"
    and "\<exists>k \<in> set ks. \<exists>i < length (app_views a). view_id (app_views a ! i) = k \<and>
      IsIndependent (app_views a) i oi ids = Some True"
  shows "\<exists>i < length (app_views a). first_independent a oi ids ks = Some (Some i) \<and> view_id (app_views a ! i) \<in> set ks"
  using assms(4,5)
proof (induction ks)
  case (Cons k ks)
  have "k \<in> set (map view_id (app_views a))" using Cons.prems(1) by simp
  then obtain i where i: "i < length (app_views a)" "view_id (app_views a ! i) = k" by (auto simp: in_set_conv_nth)
  have find: "findView a k = Some i" using findView_nth [of a i] assms(1) i by (simp add: app_wf_def)
  obtain b where b: "IsIndependent (app_views a) i oi ids = Some b"
    using IsIndependent_result [OF app_wf_refs [OF assms(1)] i(1) assms(2,3)] by blast
  show ?case
  proof (cases b)
    case True
    with find b i show ?thesis by auto
  next
    case False
    have uniq: "j = i" if "j < length (app_views a)" "view_id (app_views a ! j) = k" for j
      using that i assms(1) nth_eq_iff_index_eq [of "map view_id (app_views a)" i j] by (simp add: app_wf_def)
    obtain k' j where "k' \<in> set (k # ks)" and j: "j < length (app_views a)" "view_id (app_views a ! j) = k'"
      "IsIndependent (app_views a) j oi ids = Some True" using Cons.prems(2) by blast
    with uniq False b have "k' \<in> set ks" by auto
    then have "\<exists>i < length (app_views a). first_independent a oi ids ks = Some (Some i) \<and> view_id (app_views a ! i) \<in> set ks"
      using Cons.IH Cons.prems(1) j by auto
    with find b False show ?thesis by auto
  qed
qed simp

section \<open>Normalised apps\<close>

definition attribute_normalized :: "attribute \<Rightarrow> attribute \<Rightarrow> bool" where
  "attribute_normalized x y \<longleftrightarrow> y = x \<or> y = clear_margins x"

text \<open>The same views and constraints, but some margins of one pixel may be cleared.\<close>

definition normalized_from :: "app \<Rightarrow> app \<Rightarrow> bool" where
  "normalized_from a b \<longleftrightarrow> length (app_views b) = length (app_views a) \<and>
     (\<forall>i < length (app_views a). let v = app_views a ! i; w = app_views b ! i in
        view_id w = view_id v \<and> view_pos w = view_pos v \<and> xleft w = xleft v \<and> xright w = xright v \<and>
        ytop w = ytop v \<and> ybottom w = ybottom v \<and>
        (\<forall>oi. rel_option attribute_normalized (view_attributes v oi) (view_attributes w oi)))"

lemma clear_margins_twice [simp]: "clear_margins (clear_margins x) = clear_margins x"
  by (simp add: clear_margins_def unnormalized_def)

lemma clear_margins_simps [simp]:
  "attr_type (clear_margins x) = attr_type x" "attr_src (clear_margins x) = attr_src x"
  "tgt_primary (clear_margins x) = tgt_primary x" "tgt_secondary (clear_margins x) = tgt_secondary x"
  "0 \<le> value_primary x \<Longrightarrow> 0 \<le> value_primary (clear_margins x)"
  "0 \<le> value_secondary x \<Longrightarrow> 0 \<le> value_secondary (clear_margins x)"
  by (simp_all add: clear_margins_def)

lemma attribute_normalized_clear: "attribute_normalized x y \<Longrightarrow> attribute_normalized x (clear_margins y)"
  by (auto simp: attribute_normalized_def)

lemma normalized_from_refl: "normalized_from a a"
  by (auto simp: normalized_from_def attribute_normalized_def Let_def intro: option.rel_refl)

lemma normalized_from_ok:
  assumes "attribute_ok n i oi x" "attribute_normalized x y"
  shows "attribute_ok n i oi y" "attr_targets y = attr_targets x"
proof -
  have "attribute_ok n i oi (clear_margins x) \<and> attr_targets (clear_margins x) = attr_targets x"
    using assms(1) unfolding attribute_ok_def attr_targets_def clear_margins_simps
    by (simp add: clear_margins_simps)
  with assms show "attribute_ok n i oi y" "attr_targets y = attr_targets x"
    by (auto simp: attribute_normalized_def)
qed

lemma normalized_from_Some:
  assumes "normalized_from a b" "i < length (app_views a)"
  shows "view_attributes (app_views b ! i) oi = Some y \<Longrightarrow>
      \<exists>x. view_attributes (app_views a ! i) oi = Some x \<and> attribute_normalized x y"
    and "view_attributes (app_views a ! i) oi = Some x \<Longrightarrow>
      \<exists>y. view_attributes (app_views b ! i) oi = Some y \<and> attribute_normalized x y"
  using assms unfolding normalized_from_def Let_def by (metis option.rel_cases option.distinct(1) option.inject)+

lemma normalized_from_ids:
  assumes "normalized_from a b"
  shows "map view_id (app_views b) = map view_id (app_views a)"
  by (rule nth_equalityI) (use assms in \<open>simp_all add: normalized_from_def Let_def\<close>)

lemma normalized_from_wf:
  assumes "app_wf a" "normalized_from a b"
  shows "app_wf b"
proof -
  have "attribute_ok (length (app_views b)) i oi y"
    if y: "i < length (app_views b)" "view_attributes (app_views b ! i) oi = Some y" for i oi y
  proof -
    have n: "length (app_views b) = length (app_views a)" using assms(2) by (simp add: normalized_from_def)
    obtain x where x: "view_attributes (app_views a ! i) oi = Some x" "attribute_normalized x y"
      using normalized_from_Some(1) [OF assms(2), of i oi y] y n by auto
    have "attribute_ok (length (app_views a)) i oi x" using app_wf_attribute [OF assms(1) _ x(1)] y n by simp
    then show ?thesis using normalized_from_ok(1) [OF _ x(2)] n by simp
  qed
  then show ?thesis
    using assms normalized_from_ids [OF assms(2)] by (auto simp: app_wf_def normalized_from_def Let_def)
qed

lemma normalized_from_edges:
  assumes "app_wf a" "normalized_from a b"
  shows "edges_of (app_views b) oi = edges_of (app_views a) oi"
proof -
  have n: "length (app_views b) = length (app_views a)" using assms(2) by (simp add: normalized_from_def)
  have "view_succ (app_views b) oi i = view_succ (app_views a) oi i" for i
  proof (cases "i < length (app_views a)")
    case True
    show ?thesis
    proof (cases "view_attributes (app_views a ! i) oi")
      case None
      then have "view_attributes (app_views b ! i) oi = None"
        using normalized_from_Some(1) [OF assms(2) True] by (metis option.distinct(1) not_None_eq)
      with None show ?thesis by (simp add: view_succ_def n)
    next
      case (Some x)
      then obtain y where "view_attributes (app_views b ! i) oi = Some y" "attribute_normalized x y"
        using normalized_from_Some(2) [OF assms(2) True] by blast
      with Some show ?thesis
        using normalized_from_ok(2) [of "length (app_views a)" i oi x y] assms(1) True by (simp add: view_succ_def n app_wf_def)
    qed
  qed (simp add: view_succ_def n)
  then show ?thesis by (simp add: graph_edges_def)
qed

lemma normalized_from_trans:
  assumes "normalized_from a b" "normalized_from b c"
  shows "normalized_from a c"
proof -
  have "transp attribute_normalized" by (auto simp: transp_def attribute_normalized_def)
  then have "transp (rel_option attribute_normalized)" by (rule option.rel_transp)
  then have rel: "rel_option attribute_normalized x z"
    if "rel_option attribute_normalized x y" "rel_option attribute_normalized y z" for x y z
    using that by (rule transpD)
  have n: "length (app_views c) = length (app_views a)" "length (app_views b) = length (app_views a)"
    using assms by (simp_all add: normalized_from_def)
  have "rel_option attribute_normalized (view_attributes (app_views a ! i) oi) (view_attributes (app_views c ! i) oi)"
    if "i < length (app_views a)" for i oi
    by (rule rel [of _ "view_attributes (app_views b ! i) oi"])
      (use assms that n in \<open>simp_all add: normalized_from_def Let_def\<close>)
  then show ?thesis using assms n by (simp add: normalized_from_def Let_def)
qed

lemma printableD:
  assumes "printable a" "v \<in> set (app_views a)"
  shows "view_attributes v oi = None \<Longrightarrow> is_content_frame v" "pred_option printable_attribute (view_attributes v oi)"
  using assms unfolding printable_def by blast+

lemma printable_normalized:
  assumes "printable a" "normalized_from a b"
  shows "printable b"
proof -
  have n: "length (app_views b) = length (app_views a)" using assms(2) by (simp add: normalized_from_def)
  have "(is_content_frame (app_views b ! i) \<or> view_attributes (app_views b ! i) oi \<noteq> None) \<and>
      pred_option printable_attribute (view_attributes (app_views b ! i) oi)" if i: "i < length (app_views a)" for i oi
  proof -
    have a: "is_content_frame (app_views a ! i) \<or> view_attributes (app_views a ! i) oi \<noteq> None"
      "pred_option printable_attribute (view_attributes (app_views a ! i) oi)"
      using assms(1) i unfolding printable_def by simp_all
    have r: "rel_option attribute_normalized (view_attributes (app_views a ! i) oi) (view_attributes (app_views b ! i) oi)"
      "view_id (app_views b ! i) = view_id (app_views a ! i)"
      using assms(2) i unfolding normalized_from_def Let_def by simp_all
    show ?thesis
    proof (cases "view_attributes (app_views a ! i) oi")
      case None
      with a r show ?thesis by (simp add: is_content_frame_def)
    next
      case (Some x)
      with r obtain y where y: "view_attributes (app_views b ! i) oi = Some y" "attribute_normalized x y"
        by (auto elim: option.rel_cases)
      have "printable_attribute y"
        using a(2) y(2) by (auto simp: Some printable_attribute_def attribute_normalized_def clear_margins_def unnormalized_def)
      with y show ?thesis by simp
    qed
  qed
  then have "(is_content_frame w \<or> view_attributes w oi \<noteq> None) \<and> pred_option printable_attribute (view_attributes w oi)"
    if "w \<in> set (app_views b)" for w oi using that n unfolding in_set_conv_nth by metis
  moreover have "app_views b \<noteq> []" using assms(1) n by (auto simp: printable_def)
  ultimately show ?thesis unfolding printable_def by blast
qed

text \<open>The service answers every layout it is sent.\<close>

definition answers_layouts :: "layout_service \<Rightarrow> bool" where
  "answers_layouts render \<longleftrightarrow> (\<forall>j. \<exists>l r. render j = Some l \<and> JsonToApp l = Some r)"

lemma rendered_total:
  assumes "answers_layouts render" "app_wf a" "printable a"
  shows "\<exists>r. rendered render a = Some r"
proof -
  obtain j where j: "App_ToJSON a OUTPUT_XML = Some j" using App_ToJSON_total [OF assms(2,3)] by blast
  obtain l r where "render j = Some l" "JsonToApp l = Some r" using assms(1) unfolding answers_layouts_def by blast
  with j show ?thesis by (simp add: rendered_def)
qed

text \<open>Copies of copies are the same.\<close>

definition copied :: "app \<Rightarrow> bool" where
  "copied a \<longleftrightarrow> (\<forall>i < length (app_views a). app_views a ! i =
     (View_fresh (app_views a ! i))\<lparr>view_pos := int i, view_attributes := view_attributes (app_views a ! i)\<rparr>)"

lemma App_copy_views:
  assumes "app_wf a"
  shows "\<exists>b. App_copy a = Some b \<and> normalized_from a b \<and> copied b \<and> (copied a \<longrightarrow> b = a)"
proof -
  obtain b where b: "App_copy a = Some b" "length (app_views b) = length (app_views a)"
    "seq_id_to_pos b = seq_id_to_pos a" "app_resizable b = app_resizable a"
    and nth: "\<And>i. i < length (app_views a) \<Longrightarrow> app_views b ! i =
      add_attributes ((View_fresh (app_views a ! i))\<lparr>view_pos := int i\<rparr>) (app_views a ! i)"
    using App_copy_result [OF assms] by blast
  have views: "app_views b ! i = (View_fresh (app_views a ! i))\<lparr>view_pos := int i, view_attributes := view_attributes (app_views a ! i)\<rparr>"
    if "i < length (app_views a)" for i
    using that by (simp add: nth add_attributes_def)
  have "normalized_from a b"
    unfolding normalized_from_def Let_def
    using assms b(2) by (auto simp: views app_wf_def attribute_normalized_def intro: option.rel_refl)
  moreover have "copied b"
    unfolding copied_def b(2) by (simp add: views View_fresh_def View_make_def)
  moreover have "b = a" if "copied a"
  proof -
    have "app_views b = app_views a"
      by (rule nth_equalityI) (use that b(2) in \<open>auto simp: views copied_def\<close>)
    with b(3,4) show ?thesis by simp
  qed
  ultimately show ?thesis using b(1) by blast
qed

lemma copied_update:
  assumes "copied a" "i < length (app_views a)"
  shows "copied (a\<lparr>app_views := (app_views a)[i := (app_views a ! i)\<lparr>view_attributes := f\<rparr>]\<rparr>)"
proof -
  have "app_views a ! i = (View_fresh (app_views a ! i))\<lparr>view_pos := int i, view_attributes := view_attributes (app_views a ! i)\<rparr>"
    using assms unfolding copied_def by blast
  then have "(app_views a ! i)\<lparr>view_attributes := f\<rparr> =
      (View_fresh (app_views a ! i))\<lparr>view_pos := int i, view_attributes := view_attributes (app_views a ! i)\<rparr>\<lparr>view_attributes := f\<rparr>"
    by (rule arg_cong [where f = "\<lambda>u. u\<lparr>view_attributes := f\<rparr>"])
  then have v: "(app_views a ! i)\<lparr>view_attributes := f\<rparr> =
      (View_fresh (app_views a ! i))\<lparr>view_pos := int i, view_attributes := f\<rparr>" by simp
  let ?b = "a\<lparr>app_views := (app_views a)[i := (app_views a ! i)\<lparr>view_attributes := f\<rparr>]\<rparr>"
  have "app_views ?b ! k = (View_fresh (app_views ?b ! k))\<lparr>view_pos := int k, view_attributes := view_attributes (app_views ?b ! k)\<rparr>"
    if "k < length (app_views a)" for k
  proof (cases "k = i")
    case True
    then show ?thesis using assms(2) v by (simp add: View_fresh_def View_make_def)
  next
    case False
    then show ?thesis using assms(1) that unfolding copied_def by simp
  qed
  then show ?thesis unfolding copied_def by simp
qed

lemma clear_view_result:
  assumes "i < length (app_views a)" "view_attributes (app_views a ! i) oi = Some x"
  shows "\<exists>b. clear_view a oi i = Some b \<and> normalized_from a b \<and> (copied a \<longrightarrow> copied b) \<and>
    view_id (app_views b ! i) = view_id (app_views a ! i)"
proof -
  let ?v = "(app_views a ! i)\<lparr>view_attributes := (view_attributes (app_views a ! i))(oi \<mapsto> clear_margins x)\<rparr>"
  let ?b = "a\<lparr>app_views := (app_views a)[i := ?v]\<rparr>"
  have "normalized_from a ?b"
    unfolding normalized_from_def Let_def using assms
    by (auto simp: nth_list_update attribute_normalized_def intro: option.rel_refl)
  moreover have "copied a \<Longrightarrow> copied ?b" using assms(1) by (rule copied_update [rotated])
  ultimately show ?thesis using assms by (simp add: clear_view_def)
qed

section \<open>The loop\<close>

definition pending :: "orientation \<Rightarrow> int set \<Rightarrow> view \<Rightarrow> bool" where
  "pending oi resolved v \<longleftrightarrow> view_id v \<notin> resolved \<and> \<not> is_content_frame v \<and>
     (\<exists>x. view_attributes v oi = Some x \<and> unnormalized x)"

lemma FindUnnormalizedAttributes_result:
  assumes "printable a"
  shows "FindUnnormalizedAttributes a oi resolved = Some (map view_id (filter (pending oi resolved) (app_views a)))"
proof -
  have "unnormalized_ids oi resolved v = Some (if pending oi resolved v then [view_id v] else [])"
    if "v \<in> set (app_views a)" for v
    using printableD(1) [OF assms that, of oi]
    by (cases "view_attributes v oi") (auto simp: unnormalized_ids_def pending_def GetAttribute_def HasAttribute_def)
  then have "map_opt (unnormalized_ids oi resolved) (app_views a) =
      Some (map (\<lambda>v. if pending oi resolved v then [view_id v] else []) (app_views a))"
    by (rule map_opt_Some_map)
  moreover have "concat (map (\<lambda>v. if P v then [f v] else []) vs) = map f (filter P vs)"
    for P and f :: "view \<Rightarrow> int" and vs by (induction vs) auto
  ultimately show ?thesis by (simp add: FindUnnormalizedAttributes_def)
qed

text \<open>What the loop needs of the app, and what it keeps.\<close>

definition normalizable :: "app \<Rightarrow> bool" where
  "normalizable a \<longleftrightarrow> app_wf a \<and> printable a \<and> sorted (map view_id (app_views a)) \<and>
     (\<forall>oi. acyclic (edges_of (app_views a) oi))"

lemma normalizable_from:
  assumes "normalizable a" "normalized_from a b"
  shows "normalizable b"
  using assms normalized_from_wf [of a b] printable_normalized [of a b] normalized_from_ids [of a b]
    normalized_from_edges [of a b] by (auto simp: normalizable_def)

definition confirmed :: "layout_service \<Rightarrow> app \<Rightarrow> bool" where
  "confirmed render a \<longleftrightarrow> (\<exists>r. rendered render a = Some r \<and> AppMatch a r)"

definition normalize_inv :: "layout_service \<Rightarrow> app \<Rightarrow> normalize_state \<Rightarrow> bool" where
  "normalize_inv render a st \<longleftrightarrow> normalized_from a (ns_ref st) \<and> (ns_ref st = a \<or> confirmed render (ns_ref st)) \<and>
     normalized_from a (ns_app st) \<and> copied (ns_app st)"

lemma pending_independent:
  assumes "normalizable a" "ids = map view_id (filter (pending oi resolved) (app_views a))" "ids \<noteq> []"
  shows "\<exists>i < length (app_views a). first_independent a oi ids ids = Some (Some i) \<and> view_id (app_views a ! i) \<in> set ids"
proof -
  let ?vs = "app_views a"
  have wf: "app_wf a" and refs: "refs_wf ?vs oi" and ac: "acyclic (edges_of ?vs oi)"
    using assms(1) app_wf_refs by (auto simp: normalizable_def)
  have sorted: "sorted ids" "distinct ids"
    using assms(1) wf unfolding assms(2) normalizable_def app_wf_def
    by (auto simp: sorted_map sorted_wrt_filter distinct_map intro: inj_on_subset)
  define I where "I = {i. i < length ?vs \<and> pending oi resolved (?vs ! i)}"
  have ids: "set ids = ids_of ?vs I" unfolding assms(2) I_def ids_of_def by (auto simp: in_set_conv_nth image_iff)
  moreover have "I \<noteq> {}" using ids assms(3) unfolding ids_of_def by auto
  ultimately obtain i where i: "i \<in> I" "card (set ids \<inter> ids_of ?vs ((edges_of ?vs oi)\<^sup>* `` {i})) = 1"
    using independent_exists [OF refs ac, of I] by (auto simp: I_def)
  have lt: "i < length ?vs" using i(1) by (simp add: I_def)
  have "IsIndependent ?vs i oi ids = Some True"
    using IsIndependent_result [OF refs lt sorted] i(2) by simp
  moreover have "view_id (?vs ! i) \<in> set ids" using i(1) unfolding ids ids_of_def by blast
  ultimately have "\<exists>k \<in> set ids. \<exists>i < length ?vs. view_id (?vs ! i) = k \<and> IsIndependent ?vs i oi ids = Some True"
    using lt by blast
  then show ?thesis
    by (intro first_independent_result [OF wf sorted]) (auto simp: assms(2))
qed

lemma normalize_round:
  assumes "answers_layouts render" "normalizable a" "normalize_inv render a st"
    and "FindUnnormalizedAttributes (ns_app st) oi (ns_resolved st) = Some ids" "ids \<noteq> []"
  shows "\<exists>st1 st2 k. normalize_node oi ids st = Some st1 \<and> confirm render st1 = Some st2 \<and>
    normalize_inv render a st2 \<and> k \<in> set (map view_id (app_views a)) \<and> k \<notin> ns_resolved st \<and>
    ns_resolved st2 = insert k (ns_resolved st)"
proof -
  let ?b = "ns_app st"
  have b: "normalized_from a ?b" "copied ?b" using assms(3) by (auto simp: normalize_inv_def)
  have nb: "normalizable ?b" by (rule normalizable_from [OF assms(2) b(1)])
  have ids: "ids = map view_id (filter (pending oi (ns_resolved st)) (app_views ?b))"
    using assms(4) FindUnnormalizedAttributes_result [of ?b oi "ns_resolved st"] nb by (simp add: normalizable_def)
  obtain i where i: "i < length (app_views ?b)" "first_independent ?b oi ids ids = Some (Some i)"
    "view_id (app_views ?b ! i) \<in> set ids" using pending_independent [OF nb ids assms(5)] by blast
  obtain v where v: "v \<in> set (app_views ?b)" "view_id v = view_id (app_views ?b ! i)" "pending oi (ns_resolved st) v"
    using i(3) by (auto simp: ids)
  have "v = app_views ?b ! i"
    using v(1,2) i(1) nb nth_eq_iff_index_eq [of "map view_id (app_views ?b)" _ i]
    by (auto simp: normalizable_def app_wf_def in_set_conv_nth)
  with v(3) obtain x where x: "view_attributes (app_views ?b ! i) oi = Some x"
    and k: "view_id (app_views ?b ! i) \<notin> ns_resolved st" by (auto simp: pending_def)
  obtain c where c: "clear_view ?b oi i = Some c" "normalized_from ?b c" "copied c"
    "view_id (app_views c ! i) = view_id (app_views ?b ! i)"
    using clear_view_result [OF i(1) x] b(2) by blast
  let ?k = "view_id (app_views ?b ! i)"
  let ?st1 = "st\<lparr>ns_app := c, ns_resolved := insert ?k (ns_resolved st)\<rparr>"
  have node: "normalize_node oi ids st = Some ?st1" by (simp add: normalize_node_def i(2) c(1,4))
  have ac: "normalized_from a c" using normalized_from_trans [OF b(1) c(2)] .
  have nc: "normalizable c" by (rule normalizable_from [OF assms(2) ac])
  obtain r where r: "rendered render c = Some r"
    using rendered_total [OF assms(1)] nc by (auto simp: normalizable_def)
  have "\<exists>st2. confirm render ?st1 = Some st2 \<and> normalize_inv render a st2 \<and> ns_resolved st2 = insert ?k (ns_resolved st)"
  proof (cases "AppMatch c r")
    case True
    have "App_copy c = Some c" using App_copy_views [of c] nc c(3) by (auto simp: normalizable_def)
    with True r have "confirm render ?st1 = Some (?st1\<lparr>ns_ref := c\<rparr>)" by (simp add: confirm_def)
    moreover have "normalize_inv render a (?st1\<lparr>ns_ref := c\<rparr>)"
      using True r ac c(3) by (auto simp: normalize_inv_def confirmed_def)
    ultimately show ?thesis by simp
  next
    case False
    have ref: "normalized_from a (ns_ref st)" using assms(3) by (simp add: normalize_inv_def)
    have "app_wf (ns_ref st)" using normalizable_from [OF assms(2) ref] by (simp add: normalizable_def)
    then obtain d where d: "App_copy (ns_ref st) = Some d" "normalized_from (ns_ref st) d" "copied d"
      using App_copy_views by blast
    from False r d(1) have "confirm render ?st1 = Some (?st1\<lparr>ns_app := d\<rparr>)" by (simp add: confirm_def)
    moreover have "normalize_inv render a (?st1\<lparr>ns_app := d\<rparr>)"
      using assms(3) d(3) normalized_from_trans [OF ref d(2)] by (simp add: normalize_inv_def)
    ultimately show ?thesis by simp
  qed
  moreover have "?k \<in> set (map view_id (app_views a))"
    using i(1) normalized_from_ids [OF b(1)] by (metis length_map nth_map nth_mem)
  ultimately show ?thesis using node k by blast
qed

lemma normalize_loop_result:
  assumes "answers_layouts render" "normalizable a" "normalize_inv render a st"
  shows "\<exists>st'. normalize_loop render oi st = Some st' \<and> normalize_inv render a st'"
  using assms(3)
proof (induction "card (set (map view_id (app_views a)) - ns_resolved st)" arbitrary: st rule: less_induct)
  case less
  have "normalizable (ns_app st)" using normalizable_from [OF assms(2)] less.prems by (simp add: normalize_inv_def)
  then obtain ids where ids: "FindUnnormalizedAttributes (ns_app st) oi (ns_resolved st) = Some ids"
    using FindUnnormalizedAttributes_result by (auto simp: normalizable_def)
  show ?case
  proof (cases "ids = []")
    case True
    then show ?thesis using ids less.prems by (subst normalize_loop.simps) simp
  next
    case False
    obtain st1 st2 k where st: "normalize_node oi ids st = Some st1" "confirm render st1 = Some st2"
      "normalize_inv render a st2" "k \<in> set (map view_id (app_views a))" "k \<notin> ns_resolved st"
      "ns_resolved st2 = insert k (ns_resolved st)"
      using normalize_round [OF assms(1,2) less.prems ids False] by blast
    have "card (set (map view_id (app_views a)) - ns_resolved st2) < card (set (map view_id (app_views a)) - ns_resolved st)"
      using st(4,5) unfolding st(6) by (intro psubset_card_mono) auto
    then have "\<exists>st'. normalize_loop render oi st2 = Some st' \<and> normalize_inv render a st'"
      by (rule less.hyps) (rule st(3))
    then show ?thesis using False ids st(1,2) by (subst normalize_loop.simps) simp
  qed
qed

lemma NormalizeMargins_outcome:
  assumes "answers_layouts render" "normalizable a"
  shows "\<exists>r. NormalizeMargins render a = Some r \<and> normalized_from a r \<and> (r = a \<or> confirmed render r)"
proof -
  have p: "app_wf a" "printable a" using assms(2) by (simp_all add: normalizable_def)
  obtain b where b: "HasUnnormalizedAttributes a = Some b"
    unfolding HasUnnormalizedAttributes_def FindUnnormalizedAttributes_result [OF p(2)] bind.bind_lunit
    by (cases "map view_id (filter (pending HORIZONTAL {}) (app_views a)) = []") auto
  obtain c where c: "App_copy a = Some c" "normalized_from a c" "copied c" using App_copy_views [OF p(1)] by blast
  have nc: "normalizable c" by (rule normalizable_from [OF assms(2) c(2)])
  obtain r where r: "rendered render c = Some r"
    using rendered_total [OF assms(1)] nc by (auto simp: normalizable_def)
  show ?thesis
  proof (cases "b \<and> AppMatch c r")
    case True
    have "normalize_inv render a \<lparr>ns_ref = a, ns_app = c, ns_resolved = {}\<rparr>"
      using c normalized_from_refl by (simp add: normalize_inv_def)
    from normalize_loop_result [OF assms this] obtain h where h: "normalize_inv render a h"
      "normalize_loop render HORIZONTAL \<lparr>ns_ref = a, ns_app = c, ns_resolved = {}\<rparr> = Some h" by blast
    have "normalize_inv render a (h\<lparr>ns_resolved := {}\<rparr>)" using h(1) by (simp add: normalize_inv_def)
    from normalize_loop_result [OF assms this] obtain v where v: "normalize_inv render a v"
      "normalize_loop render VERTICAL (h\<lparr>ns_resolved := {}\<rparr>) = Some v" by blast
    have "NormalizeMargins render a = Some (ns_ref v)"
      using True by (simp add: NormalizeMargins_def b c(1) r h(2) v(2))
    with v(1) show ?thesis by (simp add: normalize_inv_def)
  next
    case False
    then have "NormalizeMargins render a = Some a" by (auto simp: NormalizeMargins_def b c(1) r)
    then show ?thesis using normalized_from_refl by blast
  qed
qed

section \<open>Repairs\<close>

text \<open>
  A repair moves the second margin of constraints whose first one is 0 and whose second one is not;
  views, positions and everything else in the constraints stay as they are.
\<close>

definition attribute_fixed :: "attribute \<Rightarrow> attribute \<Rightarrow> bool" where
  "attribute_fixed x y \<longleftrightarrow> y = x \<or>
     value_primary x = 0 \<and> 0 < value_secondary x \<and> 0 \<le> value_secondary y \<and>
     y = x\<lparr>value_secondary := value_secondary y\<rparr>"

definition fixed_from :: "app \<Rightarrow> app \<Rightarrow> bool" where
  "fixed_from a b \<longleftrightarrow> length (app_views b) = length (app_views a) \<and>
     (\<forall>i < length (app_views a). let v = app_views a ! i; w = app_views b ! i in
        view_id w = view_id v \<and> borders w = borders v \<and>
        (\<forall>oi. rel_option attribute_fixed (view_attributes v oi) (view_attributes w oi)))"

definition second_margins :: "orientation \<Rightarrow> app \<Rightarrow> int option list" where
  "second_margins oi a = map (\<lambda>v. map_option value_secondary (view_attributes v oi)) (app_views a)"

definition side_interval :: "orientation \<Rightarrow> view \<Rightarrow> int \<times> int" where
  "side_interval oi v = (case oi of HORIZONTAL \<Rightarrow> (xleft v, xright v) | VERTICAL \<Rightarrow> (ytop v, ybottom v))"

text \<open>The service renders the views where they are placed, in one orientation.\<close>

definition axis_rendered :: "layout_service \<Rightarrow> orientation \<Rightarrow> app \<Rightarrow> bool" where
  "axis_rendered render oi a \<longleftrightarrow> (\<exists>r. rendered render a = Some r \<and>
     map (side_interval oi) (app_views a) = map (side_interval oi) (app_views r))"

lemma fixed_from_refl: "fixed_from a a"
  by (auto simp: fixed_from_def attribute_fixed_def Let_def intro: option.rel_refl)

lemma attribute_fixed_trans:
  assumes "attribute_fixed x y" "attribute_fixed y z"
  shows "attribute_fixed x z"
proof (cases "y = x \<or> z = y")
  case False
  then have xy: "value_primary x = 0" "0 < value_secondary x" "y = x\<lparr>value_secondary := value_secondary y\<rparr>"
    and yz: "0 \<le> value_secondary z" "z = y\<lparr>value_secondary := value_secondary z\<rparr>"
    using assms unfolding attribute_fixed_def by blast+
  have "z = x\<lparr>value_secondary := value_secondary y\<rparr>\<lparr>value_secondary := value_secondary z\<rparr>" using xy(3) yz(2) by simp
  also have "\<dots> = x\<lparr>value_secondary := value_secondary z\<rparr>" by simp
  finally show ?thesis using xy(1,2) yz(1) unfolding attribute_fixed_def by blast
qed (use assms in auto)

lemma fixed_from_trans:
  assumes "fixed_from a b" "fixed_from b c"
  shows "fixed_from a c"
proof -
  have "transp attribute_fixed" using attribute_fixed_trans by (auto simp: transp_def)
  then have "transp (rel_option attribute_fixed)" by (rule option.rel_transp)
  then have rel: "rel_option attribute_fixed x z"
    if "rel_option attribute_fixed x y" "rel_option attribute_fixed y z" for x y z
    using that by (rule transpD)
  have n: "length (app_views c) = length (app_views a)" "length (app_views b) = length (app_views a)"
    using assms by (simp_all add: fixed_from_def)
  have "rel_option attribute_fixed (view_attributes (app_views a ! i) oi) (view_attributes (app_views c ! i) oi)"
    if "i < length (app_views a)" for i oi
    by (rule rel [of _ "view_attributes (app_views b ! i) oi"])
      (use assms that n in \<open>simp_all add: fixed_from_def Let_def\<close>)
  then show ?thesis using assms n by (simp add: fixed_from_def Let_def)
qed

text \<open>Only the second margins differ.\<close>

lemma attribute_fixed_same: "attribute_fixed x y \<Longrightarrow> value_secondary y = value_secondary x \<Longrightarrow> y = x"
  by (auto simp: attribute_fixed_def)

lemma fixed_from_same:
  assumes "fixed_from a b" "second_margins oi b = second_margins oi a" "i < length (app_views a)"
  shows "view_attributes (app_views b ! i) oi = view_attributes (app_views a ! i) oi"
proof -
  have n: "length (app_views b) = length (app_views a)" using assms(1) by (simp add: fixed_from_def)
  have "second_margins oi b ! i = second_margins oi a ! i" using assms(2) by simp
  then have m: "map_option value_secondary (view_attributes (app_views b ! i) oi) = map_option value_secondary (view_attributes (app_views a ! i) oi)"
    using assms(3) n by (simp add: second_margins_def)
  have "rel_option attribute_fixed (view_attributes (app_views a ! i) oi) (view_attributes (app_views b ! i) oi)"
    using assms(1,3) by (simp add: fixed_from_def Let_def)
  then show ?thesis by (cases rule: option.rel_cases) (use m attribute_fixed_same in auto)
qed

definition plain_views :: "app \<Rightarrow> app" where
  "plain_views a = a\<lparr>app_views := map (\<lambda>v. v\<lparr>view_attributes := Map.empty\<rparr>) (app_views a)\<rparr>"

lemma plain_views_eq:
  assumes "plain_views b = plain_views a"
    and "\<And>i oi. i < length (app_views a) \<Longrightarrow> view_attributes (app_views b ! i) oi = view_attributes (app_views a ! i) oi"
  shows "b = a"
proof -
  let ?f = "\<lambda>v :: view. v\<lparr>view_attributes := Map.empty\<rparr>"
  have views: "map ?f (app_views b) = map ?f (app_views a)"
    using arg_cong [OF assms(1), of app_views] by (simp add: plain_views_def)
  have n: "length (app_views b) = length (app_views a)" using map_eq_imp_length_eq [OF views] .
  have strip: "u = v" if "?f u = ?f v" "view_attributes u = view_attributes v" for u v :: view
    using that by (cases u; cases v) simp
  have "app_views b = app_views a"
  proof (rule nth_equalityI [OF n])
    fix i assume i: "i < length (app_views b)"
    have "?f (app_views b ! i) = ?f (app_views a ! i)" using arg_cong [OF views, of "\<lambda>xs. xs ! i"] i n by simp
    then show "app_views b ! i = app_views a ! i" by (rule strip) (use assms(2) i n in \<open>simp add: fun_eq_iff\<close>)
  qed
  moreover have "seq_id_to_pos b = seq_id_to_pos a" "app_resizable b = app_resizable a"
    using arg_cong [OF assms(1), of seq_id_to_pos] arg_cong [OF assms(1), of app_resizable] by (simp_all add: plain_views_def)
  ultimately show ?thesis by simp
qed

lemma borders_differ_iff: "borders_differ oi v w \<longleftrightarrow> side_interval oi v \<noteq> side_interval oi w"
  by (cases oi) (auto simp: borders_differ_def side_interval_def)

lemma FindNonMatchingViews_none:
  "FindNonMatchingViews a r oi = Some [] \<longleftrightarrow> map (side_interval oi) (app_views a) = map (side_interval oi) (app_views r)"
proof (cases "length (app_views a) = length (app_views r)")
  case True
  have "filter (\<lambda>(v, w). borders_differ oi v w) (zip xs ys) = [] \<longleftrightarrow> map (side_interval oi) xs = map (side_interval oi) ys"
    if "length xs = length ys" for xs ys
    using that by (induction xs ys rule: list_induct2) (auto simp: borders_differ_iff)
  from this [OF True] True show ?thesis unfolding FindNonMatchingViews_def by simp
next
  case False
  then have "map (side_interval oi) (app_views a) \<noteq> map (side_interval oi) (app_views r)" using map_eq_imp_length_eq by blast
  with False show ?thesis by (simp add: FindNonMatchingViews_def)
qed

lemma ViewMatch_intervals: "ViewMatch v w \<longleftrightarrow> (\<forall>oi. side_interval oi v = side_interval oi w)"
proof
  assume "\<forall>oi. side_interval oi v = side_interval oi w"
  from spec [OF this, of HORIZONTAL] spec [OF this, of VERTICAL] show "ViewMatch v w"
    by (simp add: ViewMatch_def side_interval_def)
qed (auto simp: ViewMatch_def side_interval_def split: orientation.split)

lemma AppMatch_intervals:
  "AppMatch a r \<longleftrightarrow> (\<forall>oi. map (side_interval oi) (app_views a) = map (side_interval oi) (app_views r))"
proof (cases "length (app_views a) = length (app_views r)")
  case True
  then show ?thesis
    by (auto simp: AppMatch_def list_all_length ViewMatch_intervals list_eq_iff_nth_eq)
next
  case False
  then have "map (side_interval oi) (app_views a) \<noteq> map (side_interval oi) (app_views r)" for oi using map_eq_imp_length_eq by blast
  with False show ?thesis by (simp add: AppMatch_def)
qed

lemma axis_rendered_both:
  assumes "axis_rendered render HORIZONTAL a" "axis_rendered render VERTICAL a"
  shows "\<exists>r. rendered render a = Some r \<and> AppMatch a r"
proof -
  obtain r where r: "rendered render a = Some r" using assms(1) by (auto simp: axis_rendered_def)
  have "axis_rendered render oi a" for oi using assms by (cases oi) simp_all
  with r show ?thesis unfolding AppMatch_intervals by (auto simp: axis_rendered_def)
qed

definition other_axis :: "orientation \<Rightarrow> orientation" where
  "other_axis oi = (case oi of HORIZONTAL \<Rightarrow> VERTICAL | VERTICAL \<Rightarrow> HORIZONTAL)"

text \<open>A repair keeps the app well formed, a copy, and the other orientation.\<close>

definition repaired :: "orientation \<Rightarrow> app \<Rightarrow> app \<Rightarrow> bool" where
  "repaired oi a b \<longleftrightarrow> app_wf b \<and> copied b \<and> fixed_from a b \<and> plain_views b = plain_views a \<and>
     second_margins (other_axis oi) b = second_margins (other_axis oi) a"

lemma TryFixNode_result:
  assumes "TryFixNode v r oi = Some w" "\<bar>view_start oi v - view_start oi r\<bar> = 1"
  shows "w = v \<or> (\<exists>x s. view_attributes v oi = Some x \<and> 0 \<le> s \<and> value_primary x = 0 \<and> 0 < value_secondary x \<and>
    w = v\<lparr>view_attributes := (view_attributes v)(oi \<mapsto> x\<lparr>value_secondary := s\<rparr>)\<rparr>)"
proof -
  obtain x where x: "view_attributes v oi = Some x" using assms(1) by (auto simp: TryFixNode_def bind_Some_iff)
  show ?thesis
  proof (cases "value_primary x = 0 \<and> value_secondary x > 0")
    case True
    let ?s = "value_secondary x - (view_start oi v - view_start oi r)"
    have "w = v\<lparr>view_attributes := (view_attributes v)(oi \<mapsto> x\<lparr>value_secondary := ?s\<rparr>)\<rparr>"
      using assms(1) x True by (simp add: TryFixNode_def)
    moreover have "0 \<le> ?s" using True assms(2) by linarith
    ultimately show ?thesis using x True by blast
  next
    case False
    then show ?thesis using assms(1) x by (auto simp: TryFixNode_def)
  qed
qed

lemma attribute_ok_secondary: "attribute_ok n i oi x \<Longrightarrow> 0 \<le> s \<Longrightarrow> attribute_ok n i oi (x\<lparr>value_secondary := s\<rparr>)"
  by (cases "tgt_secondary x") (simp_all add: attribute_ok_def)

lemma fix_view_repaired:
  assumes "repaired oi a0 a" "fix_view r oi ids a k = Some b"
  shows "repaired oi a0 b"
proof (cases "b = a")
  case False
  have "\<exists>i w. i < length (app_views a) \<and> b = a\<lparr>app_views := (app_views a)[i := w]\<rparr> \<and>
      (\<exists>j. \<bar>view_start oi (app_views a ! i) - view_start oi (app_views r ! j)\<bar> = 1 \<and>
        TryFixNode (app_views a ! i) (app_views r ! j) oi = Some w)"
    using assms(2) False by (auto simp: fix_view_def bind_Some_iff Let_def dest!: findView_Some split: if_splits)
  then obtain i w j where i: "i < length (app_views a)" "b = a\<lparr>app_views := (app_views a)[i := w]\<rparr>"
    and w: "TryFixNode (app_views a ! i) (app_views r ! j) oi = Some w"
      "\<bar>view_start oi (app_views a ! i) - view_start oi (app_views r ! j)\<bar> = 1" by blast
  have "w \<noteq> app_views a ! i" using i(2) False by auto
  then obtain x s where x: "view_attributes (app_views a ! i) oi = Some x" "0 \<le> s" "value_primary x = 0" "0 < value_secondary x"
    "w = (app_views a ! i)\<lparr>view_attributes := (view_attributes (app_views a ! i))(oi \<mapsto> x\<lparr>value_secondary := s\<rparr>)\<rparr>"
    using TryFixNode_result [OF w] by blast
  have wf: "app_wf a" and "copied a" and kept: "fixed_from a0 a" and plain: "plain_views a = plain_views a0"
    and other: "second_margins (other_axis oi) a = second_margins (other_axis oi) a0"
    using assms(1) by (simp_all add: repaired_def)
  have ok: "attribute_ok (length (app_views a)) i oi (x\<lparr>value_secondary := s\<rparr>)"
    using attribute_ok_secondary app_wf_attribute [OF wf i(1) x(1)] x(2) by blast
  have "app_wf b"
    unfolding i(2) by (rule ApplyAttribute_wf [OF wf ok])
      (use ok i(1) in \<open>simp add: ApplyAttribute_def attribute_ok_def x(5)\<close>)
  moreover have "copied b" unfolding i(2) x(5) by (rule copied_update) fact+
  moreover have "attribute_fixed x (x\<lparr>value_secondary := s\<rparr>)" using x(2-4) by (simp add: attribute_fixed_def)
  then have "fixed_from a b"
    unfolding fixed_from_def Let_def i(2) x(5) using i(1) x(1)
    by (auto simp: nth_list_update borders_def attribute_fixed_def intro: option.rel_refl)
  moreover have "plain_views b = plain_views a"
    unfolding plain_views_def i(2) x(5) using i(1) by (simp add: list_eq_iff_nth_eq nth_list_update)
  moreover have "second_margins (other_axis oi) b = second_margins (other_axis oi) a"
    unfolding second_margins_def i(2) x(5) using i(1)
    by (cases oi) (auto simp: list_eq_iff_nth_eq nth_list_update other_axis_def)
  ultimately show ?thesis using fixed_from_trans [OF kept] plain other by (simp add: repaired_def)
qed (use assms(1) in simp)

definition fix_claim :: "layout_service \<Rightarrow> orientation \<Rightarrow> app \<Rightarrow> app \<Rightarrow> int list \<Rightarrow> bool \<times> app \<times> app \<Rightarrow> bool" where
  "fix_claim render oi a r ids res \<longleftrightarrow> (\<forall>a0. repaired oi a0 a \<longrightarrow> rendered render a = Some r \<longrightarrow>
     FindNonMatchingViews a r oi = Some ids \<longrightarrow> fst res \<longrightarrow>
     repaired oi a0 (fst (snd res)) \<and> rendered render (fst (snd res)) = Some (snd (snd res)) \<and>
     FindNonMatchingViews (fst (snd res)) (snd (snd res)) oi = Some [])"

lemma fix_loop_claim: "fix_loop render oi a r ids = Some res \<Longrightarrow> fix_claim render oi a r ids res"
proof (rule fix_loop.raw_induct [where P = fix_claim], goal_cases)
  case (1 f render oi a r ids res)
  show ?case
  proof (cases "ids = []")
    case True
    then have "res = (True, a, r)" using 1(3) by simp
    with True show ?thesis by (simp add: fix_claim_def)
  next
    case False
    obtain a1 r1 cids where fold: "fold_opt (fix_view r oi ids) a ids = Some a1" and r1: "rendered render a1 = Some r1"
      and cids: "FindNonMatchingViews a1 r1 oi = Some cids"
      and rest: "(if length cids = length ids then Some (False, a1, r1) else f render oi a1 r1 cids) = Some res"
      using 1(3) False by (auto simp: bind_Some_iff)
    show ?thesis
    proof (cases "length cids = length ids")
      case True
      with rest have "\<not> fst res" by auto
      then show ?thesis by (simp add: fix_claim_def)
    next
      case False
      with rest have "fix_claim render oi a1 r1 cids res" using 1(2) by simp
      moreover have "repaired oi a0 a1" if "repaired oi a0 a" for a0
        by (rule fold_opt_inv [where P = "repaired oi a0", OF fold that]) (rule fix_view_repaired)
      ultimately show ?thesis using r1 cids unfolding fix_claim_def by blast
    qed
  qed
qed

lemma repaired_refl: "app_wf a \<Longrightarrow> copied a \<Longrightarrow> repaired oi a a"
  by (simp add: repaired_def fixed_from_refl)

text \<open>A copy that is rendered as it is placed.\<close>

definition rendered_in_place :: "layout_service \<Rightarrow> app \<Rightarrow> bool" where
  "rendered_in_place render a \<longleftrightarrow> (\<exists>c r. App_copy a = Some c \<and> rendered render c = Some r \<and> AppMatch c r)"

lemma App_copy_kept:
  assumes "app_wf a" "App_copy a = Some c"
  shows "fixed_from a c" "second_margins oi c = second_margins oi a"
proof -
  have views: "length (app_views c) = length (app_views a)"
    "\<And>i. i < length (app_views a) \<Longrightarrow> app_views c ! i = add_attributes ((View_fresh (app_views a ! i))\<lparr>view_pos := int i\<rparr>) (app_views a ! i)"
    using App_copy_result [OF assms(1)] assms(2) by auto
  then show "fixed_from a c"
    by (auto simp: fixed_from_def Let_def borders_def add_attributes_def View_fresh_def View_make_def attribute_fixed_def
        intro: option.rel_refl)
  show "second_margins oi c = second_margins oi a"
    using views by (simp add: second_margins_def list_eq_iff_nth_eq add_attributes_def)
qed

lemma TryFixInconsistencies_outcome:
  assumes "app_wf a" "TryFixInconsistencies render a = Some (ok, b)"
  shows "if ok then fixed_from a b \<and> (rendered_in_place render b \<or>
      second_margins VERTICAL b \<noteq> second_margins VERTICAL a \<and> axis_rendered render VERTICAL b \<and>
      (\<exists>h. fixed_from a h \<and> second_margins HORIZONTAL h = second_margins HORIZONTAL b \<and>
         second_margins VERTICAL h = second_margins VERTICAL a \<and> axis_rendered render HORIZONTAL h))
    else b = a"
proof -
  obtain c where c: "App_copy a = Some c" "normalized_from a c" "copied c" using App_copy_views [OF assms(1)] by blast
  have wf: "app_wf c" by (rule normalized_from_wf [OF assms(1) c(2)])
  obtain r where r: "rendered render c = Some r" using assms(2) by (auto simp: TryFixInconsistencies_def c(1) bind_Some_iff)
  show ?thesis
  proof (cases "AppMatch c r")
    case True
    then have "(ok, b) = (True, a)" using assms(2) by (simp add: TryFixInconsistencies_def c(1) r)
    with True c(1) r show ?thesis by (auto simp: rendered_in_place_def fixed_from_refl)
  next
    case False
    obtain hids h where hids: "FindNonMatchingViews c r HORIZONTAL = Some hids"
      and h: "fix_loop render HORIZONTAL c r hids = Some h"
      and rest: "(if \<not> fst h then Some (False, a)
        else do { vids \<leftarrow> FindNonMatchingViews (fst (snd h)) (snd (snd h)) VERTICAL;
              v \<leftarrow> fix_loop render VERTICAL (fst (snd h)) (snd (snd h)) vids;
              if \<not> fst v then Some (False, a)
              else do { b \<leftarrow> App_copy (fst (snd v)); Some (True, b) } }) = Some (ok, b)"
    proof -
      have "do { hids \<leftarrow> FindNonMatchingViews c r HORIZONTAL;
            h \<leftarrow> fix_loop render HORIZONTAL c r hids;
            if \<not> fst h then Some (False, a)
            else do {
              vids \<leftarrow> FindNonMatchingViews (fst (snd h)) (snd (snd h)) VERTICAL;
              v \<leftarrow> fix_loop render VERTICAL (fst (snd h)) (snd (snd h)) vids;
              if \<not> fst v then Some (False, a)
              else do { b \<leftarrow> App_copy (fst (snd v)); Some (True, b) } } } = Some (ok, b)"
        using assms(2) False by (simp only: TryFixInconsistencies_def c(1) bind.bind_lunit r if_False)
      then show thesis using that unfolding bind_Some_iff by blast
    qed
    show ?thesis
    proof (cases "fst h")
      case False
      with rest show ?thesis by auto
    next
      case True
      have hr: "repaired HORIZONTAL c (fst (snd h))" "rendered render (fst (snd h)) = Some (snd (snd h))"
        "FindNonMatchingViews (fst (snd h)) (snd (snd h)) HORIZONTAL = Some []"
        using fix_loop_claim [OF h] repaired_refl [OF wf c(3)] r hids True unfolding fix_claim_def by blast+
      obtain vids v where vids: "FindNonMatchingViews (fst (snd h)) (snd (snd h)) VERTICAL = Some vids"
        and v: "fix_loop render VERTICAL (fst (snd h)) (snd (snd h)) vids = Some v"
        and last: "(if \<not> fst v then Some (False, a) else do { b \<leftarrow> App_copy (fst (snd v)); Some (True, b) }) = Some (ok, b)"
      proof -
        have "do { vids \<leftarrow> FindNonMatchingViews (fst (snd h)) (snd (snd h)) VERTICAL;
              v \<leftarrow> fix_loop render VERTICAL (fst (snd h)) (snd (snd h)) vids;
              if \<not> fst v then Some (False, a)
              else do { b \<leftarrow> App_copy (fst (snd v)); Some (True, b) } } = Some (ok, b)"
          using rest by (simp only: True if_False not_True_eq_False)
        then show thesis using that unfolding bind_Some_iff by blast
      qed
      show ?thesis
      proof (cases "fst v")
        case False
        with last show ?thesis by auto
      next
        case True
        let ?h = "fst (snd h)" and ?b = "fst (snd v)"
        have refl: "repaired VERTICAL ?h ?h" using hr(1) repaired_refl by (simp add: repaired_def)
        have vr: "repaired VERTICAL ?h ?b" "rendered render ?b = Some (snd (snd v))"
          "FindNonMatchingViews ?b (snd (snd v)) VERTICAL = Some []"
          using fix_loop_claim [OF v] refl hr(2) vids True unfolding fix_claim_def by blast+
        have axes: "axis_rendered render HORIZONTAL ?h" "axis_rendered render VERTICAL ?b"
          using hr(2,3) vr(2,3) by (simp_all add: axis_rendered_def FindNonMatchingViews_none)
        have ca: "fixed_from a c" "second_margins oi c = second_margins oi a" for oi
          using App_copy_kept [OF assms(1) c(1)] by simp_all
        have h_from: "fixed_from a ?h" "fixed_from ?h ?b" "second_margins VERTICAL ?h = second_margins VERTICAL a"
            "second_margins HORIZONTAL ?b = second_margins HORIZONTAL ?h" "plain_views ?b = plain_views ?h"
          and vw: "app_wf ?b" "copied ?b"
          using fixed_from_trans [OF ca(1)] hr(1) vr(1) ca(2) by (simp_all add: repaired_def other_axis_def)
        have copy: "App_copy ?b = Some ?b" using App_copy_views [OF vw(1)] vw(2) by blast
        then have b: "ok" "b = ?b" using last True by simp_all
        have "rendered_in_place render ?b" if "second_margins VERTICAL ?b = second_margins VERTICAL a"
        proof -
          have "second_margins oi ?b = second_margins oi ?h" for oi using that h_from(3,4) by (cases oi) simp_all
          moreover have n: "length (app_views ?b) = length (app_views ?h)" using h_from(2) by (simp add: fixed_from_def)
          ultimately have "?b = ?h" using plain_views_eq [OF h_from(5)] fixed_from_same [OF h_from(2)] by simp
          then show ?thesis using axis_rendered_both [of render ?b] axes copy by (auto simp: rendered_in_place_def)
        qed
        then show ?thesis using b h_from(1,3,4) fixed_from_trans [OF h_from(1,2)] axes by auto
      qed
    qed
  qed
qed

section \<open>Properties\<close>


definition square_screen :: device where
  "square_screen = \<lparr>dev_width = 100, dev_height = 100\<rparr>"

definition sample_reader :: json_apps where
  "sample_reader = \<lparr>ja_app = App_empty, ja_apps = [], ja_ref = square_screen, ja_devices = []\<rparr>"

lemma square_screen_visible: "dev_width d \<noteq> 80 \<Longrightarrow> screen_visible sample_app d"
  by (auto simp: screen_visible_def inner_views_def sample_app_def is_content_frame_def borders_def View_make_def)


text \<open>
  C27. Three screens: \<^verbatim>\<open>JsonToApps\<close> requires them ordered by width and takes the middle one as the
  reference. The app that was written as the reference comes back as the first of the others, and
  every other order of the widths ends the program.
\<close>

theorem three_screens_reordered:
  assumes "screen_visible a ref_device" "screen_visible b d" "screen_visible c e"
  shows "\<exists>j. ToJson a [b, c] ref_device [d, e] = Some j \<and>
    (if dev_width ref_device < dev_width d \<and> dev_width d < dev_width e
     then \<exists>ra rb rc. JsonToApps j s = Some (- 1, s\<lparr>ja_app := rb, ja_apps := ja_apps s @ [ra, rc], ja_ref := d,
            ja_devices := ja_devices s @ [ref_device, e]\<rparr>) \<and>
          screen_read a ref_device ra \<and> screen_read b d rb \<and> screen_read c e rc
     else JsonToApps j s = None)"
  using assms by (rule three_screens_exchanged)

lemma three_screens_reordered_witness:
  "\<exists>j. ToJson sample_app [sample_app, sample_app] square_screen
      [\<lparr>dev_width = 90, dev_height = 90\<rparr>, \<lparr>dev_width = 120, dev_height = 90\<rparr>] = Some j \<and> JsonToApps j sample_reader = None"
  using three_screens_reordered [of sample_app square_screen sample_app "\<lparr>dev_width = 90, dev_height = 90\<rparr>" sample_app
      "\<lparr>dev_width = 120, dev_height = 90\<rparr>" sample_reader]
  by (simp add: square_screen_visible square_screen_def)

text \<open>
  C4. \<^verbatim>\<open>NormalizeMargins\<close> ends on every well-formed layout whose references are acyclic and whose
  views are listed by their ids, when the service answers: in each round some pending view refers
  to no other pending one, and is resolved for good. The result has the same views and
  constraints, except for margins of one pixel that are cleared, and unless nothing was changed
  the service renders it exactly as it is placed.
\<close>

theorem NormalizeMargins_returns:
  assumes "answers_layouts render" "normalizable a"
  shows "\<exists>r. NormalizeMargins render a = Some r \<and> normalized_from a r \<and> (r = a \<or> confirmed render r)"
  using assms by (rule NormalizeMargins_outcome)

definition json_box :: "int \<Rightarrow> int \<Rightarrow> int \<Rightarrow> int \<Rightarrow> json" where
  "json_box x y w h = JArray [JInt x, JInt y, JInt w, JInt h]"

definition sample_service :: layout_service where
  "sample_service j = Some (JObject [''content_frame'' \<mapsto> JObject [''location'' \<mapsto> json_box 0 0 100 100],
     ''components'' \<mapsto> JArray [
       JObject [''location'' \<mapsto> json_box 10 20 40 20, ''id'' \<mapsto> JString ''@+id/view1''],
       JObject [''location'' \<mapsto> json_box 20 50 60 20, ''id'' \<mapsto> JString ''@+id/view2'']]])"

text \<open>The sample app, with a margin of one pixel in its second view.\<close>

definition margin_app :: app where
  "margin_app = sample_app\<lparr>app_views := (app_views sample_app)[2 := (app_views sample_app ! 2)\<lparr>view_attributes :=
     [HORIZONTAL \<mapsto> sample_attribute L2LxR2R 2 0 (Some 0) 1, VERTICAL \<mapsto> sample_attribute T2B 2 1 None 10]\<rparr>]\<rparr>"

lemma sample_service_answers: "answers_layouts sample_service"
proof -
  have "map_option (\<lambda>_. ()) (do { l \<leftarrow> sample_service JNull; JsonToApp l }) = Some ()" by code_simp
  then show ?thesis by (auto simp: answers_layouts_def sample_service_def)
qed

lemma acyclic_backwards: "(\<And>i j. j \<in> view_succ vs oi i \<Longrightarrow> j < i) \<Longrightarrow> acyclic (edges_of vs oi)"
  by (rule acyclic_subset [OF acyclic_converse [THEN iffD2, OF wf_acyclic [OF wf_less_than]]]) (auto simp: graph_edges_def)

lemma margin_app_normalizable: "normalizable margin_app"
proof -
  have wf: "app_wf margin_app"
    by (auto simp: app_wf_def margin_app_def sample_app_def attribute_ok_def sample_attribute_def nth_Cons
        IsRelationalAnchor_def split: nat.splits if_splits)
  have "printable margin_app"
    by (auto simp: printable_def margin_app_def sample_app_def sample_attribute_def printable_attribute_def
        is_content_frame_def View_make_def intro: orientation.exhaust)
  moreover have "sorted (map view_id (app_views margin_app))" by (simp add: margin_app_def sample_app_def View_make_def)
  moreover have "acyclic (edges_of (app_views margin_app) oi)" for oi
    by (rule acyclic_backwards, cases oi)
      (auto simp: view_succ_def margin_app_def sample_app_def sample_attribute_def attr_targets_def nth_Cons View_make_def
        split: nat.splits if_splits option.splits)
  ultimately show ?thesis using wf by (simp add: normalizable_def)
qed

lemma NormalizeMargins_returns_witness:
  "\<exists>r. NormalizeMargins sample_service margin_app = Some r \<and> normalized_from margin_app r"
  using NormalizeMargins_returns [OF sample_service_answers margin_app_normalizable] by blast

text \<open>On the sample the margin is cleared.\<close>

lemma margin_app_cleared:
  "map_option (\<lambda>r. map_option value_primary (view_attributes (app_views r ! 2) HORIZONTAL))
     (NormalizeMargins sample_service margin_app) = Some (Some 0)"
  by code_simp

text \<open>
  C3. When \<^verbatim>\<open>TryFixInconsistencies\<close> reports failure, the app of the caller is unchanged. When it
  reports success, views and constraints are the same, except that second margins were moved in
  constraints whose first margin is 0 and whose second one is positive; and either the service
  renders the app exactly as it is placed, or vertical margins were moved after the horizontal ones:
  then it renders the vertical positions of the app as placed, and rendered the horizontal ones as
  placed in the app with the horizontal margins found and the old vertical ones. That those stay
  right is not checked again.
\<close>

theorem TryFixInconsistencies_safe:
  assumes "app_wf a" "TryFixInconsistencies render a = Some (ok, b)"
  shows "if ok then fixed_from a b \<and> (rendered_in_place render b \<or>
      second_margins VERTICAL b \<noteq> second_margins VERTICAL a \<and> axis_rendered render VERTICAL b \<and>
      (\<exists>h. fixed_from a h \<and> second_margins HORIZONTAL h = second_margins HORIZONTAL b \<and>
         second_margins VERTICAL h = second_margins VERTICAL a \<and> axis_rendered render HORIZONTAL h))
    else b = a"
  using assms by (rule TryFixInconsistencies_outcome)

text \<open>
  A service that rounds: with an end margin of one pixel it renders the second view one pixel left of
  its place. The repair clears the margin.
\<close>

definition rounding_service :: layout_service where
  "rounding_service j =
     do { l \<leftarrow> json_field j ''layout'';
          v \<leftarrow> json_at l 2;
          b \<leftarrow> json_isMember v ''android:layout_marginRight'';
          Some (JObject [''content_frame'' \<mapsto> JObject [''location'' \<mapsto> json_box 0 0 100 100],
            ''components'' \<mapsto> JArray [
              JObject [''location'' \<mapsto> json_box 10 20 40 20, ''id'' \<mapsto> JString ''@+id/view1''],
              JObject [''location'' \<mapsto> json_box (if b then 19 else 20) 50 60 20, ''id'' \<mapsto> JString ''@+id/view2'']]]) }"

definition shifted_app :: app where
  "shifted_app = sample_app\<lparr>app_views := (app_views sample_app)[2 := (app_views sample_app ! 2)\<lparr>view_attributes :=
     [HORIZONTAL \<mapsto> (sample_attribute L2LxR2R 2 0 (Some 0) 0)\<lparr>value_secondary := 1\<rparr>,
      VERTICAL \<mapsto> sample_attribute T2B 2 1 None 10]\<rparr>]\<rparr>"

lemma shifted_app_wf: "app_wf shifted_app"
  by (auto simp: app_wf_def shifted_app_def sample_app_def attribute_ok_def sample_attribute_def nth_Cons
      IsRelationalAnchor_def split: nat.splits if_splits)

lemma shifted_app_fixed:
  "\<exists>b. TryFixInconsistencies rounding_service shifted_app = Some (True, b) \<and>
     second_margins HORIZONTAL b = [None, Some 0, Some 0] \<and> second_margins VERTICAL b = second_margins VERTICAL shifted_app"
proof -
  have "map_option (\<lambda>(ok, b). (ok, second_margins HORIZONTAL b, second_margins VERTICAL b))
      (TryFixInconsistencies rounding_service shifted_app) =
    Some (True, [None, Some 0, Some 0], second_margins VERTICAL shifted_app)"
    by code_simp
  then show ?thesis by auto
qed

lemma TryFixInconsistencies_safe_witness:
  "\<exists>b. TryFixInconsistencies rounding_service shifted_app = Some (True, b) \<and> rendered_in_place rounding_service b \<and>
     second_margins HORIZONTAL shifted_app = [None, Some 0, Some 1] \<and> second_margins HORIZONTAL b = [None, Some 0, Some 0]"
proof -
  obtain b where b: "TryFixInconsistencies rounding_service shifted_app = Some (True, b)"
    "second_margins HORIZONTAL b = [None, Some 0, Some 0]" "second_margins VERTICAL b = second_margins VERTICAL shifted_app"
    using shifted_app_fixed by blast
  have "second_margins HORIZONTAL shifted_app = [None, Some 0, Some 1]" by code_simp
  with b TryFixInconsistencies_safe [OF shifted_app_wf b(1)] show ?thesis by auto
qed

end
