(* ===== verification/Oracle_Loop.thy ===== *)
theory Oracle_Loop
  imports Multi_Device Syn_Helper
begin

text \<open>
  The synthesis with an oracle (\<^verbatim>\<open>src/inferui/inferui/synthesis/z3inference.cpp\<close>):
  \<^verbatim>\<open>GetSatConstraintsOracle\<close> and \<^verbatim>\<open>SynthesizeDeviceProbOracle\<close> find one candidate for an orientation
  that places the views of given devices, lays out further target devices and differs from blocked
  layouts; \<^verbatim>\<open>computeCandidates\<close> repeats this for both orientations and joins the results;
  \<^verbatim>\<open>askOracle\<close> lets a service choose among them; \<^verbatim>\<open>SynthesizeLayoutIterative\<close> adds one view at a
  time and offers candidates to a callback. Checking with a second solver
  (\<^verbatim>\<open>checkSatIntermediate\<close>) has no caller and is not modelled.
\<close>

section \<open>The screens of an oracle query\<close>

definition HasFixedView :: "z3_view list \<Rightarrow> bool" where
  "HasFixedView zs \<longleftrightarrow> list_ex (\<lambda>v. zv_pos v \<noteq> 0 \<and> zv_HasFixedPosition v) zs"

text \<open>
  The screens besides the reference: devices with known views, blocked layouts and target devices.
  All blocked layouts have the device number 4444, so they share their constants.
\<close>

datatype oracle_screen = Known "z3_view list" | Blocked app "z3_view list" | Target "z3_view list"

fun oracle_views :: "oracle_screen \<Rightarrow> z3_view list" where
  "oracle_views (Known zd) = zd"
| "oracle_views (Blocked b zd) = zd"
| "oracle_views (Target zd) = zd"

text \<open>
  The constraints of a screen. The sizes of the fixed views are those of the app, but those of the
  blocked layout on a blocked screen.
\<close>

fun encode_oracle_screen ::
    "app \<Rightarrow> orientation \<Rightarrow> nat \<Rightarrow> candidate_constraints \<Rightarrow> oracle_screen \<Rightarrow> assertions \<Rightarrow>
      (candidate_constraints \<times> enc_state) option" where
  "encode_oracle_screen app oi n c (Known zd) s =
     do { CHECK (n \<le> length zd);
          if HasFixedView zd then encode_device (app_views app) oi n c zd s else Some (c, zd, s) }"
| "encode_oracle_screen app oi n c (Blocked b zd) s =
     do { r \<leftarrow> AddGenAttributes (app_views b) oi c (zd, s);
          s' \<leftarrow> addBlockingConstraints (snd (snd r)) (fst (snd r));
          Some (fst r, fst (snd r), s') }"
| "encode_oracle_screen app oi n c (Target zd) s =
     do { root \<leftarrow> vec_at zd 0;
          AddGenAttributes (app_views app) oi c (zd, s @ fixed_position_assertions root) }"

definition known_screens :: "app list \<Rightarrow> orientation \<Rightarrow> oracle_screen list option" where
  "known_screens apps oi = map_option (map Known) (convert_devices apps oi)"

definition blocked_screens :: "app list \<Rightarrow> orientation \<Rightarrow> oracle_screen list option" where
  "blocked_screens apps oi = map_opt (\<lambda>b. map_option (Blocked b) (ConvertViews (app_views b) oi 4444)) apps"

definition target_screens :: "app list \<Rightarrow> orientation \<Rightarrow> oracle_screen list option" where
  "target_screens apps oi =
     map_opt (\<lambda>(a, d). map_option Target (ConvertViews (app_views a) oi (404 + int d))) (zip apps [0..<length apps])"

definition oracle_constraints ::
    "bool \<Rightarrow> app \<Rightarrow> orientation \<Rightarrow> oracle_screen list \<Rightarrow> candidate_constraints \<Rightarrow> device_query option" where
  "oracle_constraints opt app oi screens cands =
     do { zs \<leftarrow> ConvertViews (app_views app) oi 0;
          r \<leftarrow> encode_reference opt cands zs [];
          ds \<leftarrow> each_device (encode_oracle_screen app oi (length (fst (snd r)))) (fst r) screens (snd (snd r));
          Some \<lparr>dq_cands = fst ds, dq_views = fst (snd r), dq_devices = fst (snd ds), dq_assertions = snd (snd ds)\<rparr> }"

section \<open>Satisfiable candidates\<close>

text \<open>Later rounds use the sizes of the app for the blocked screens, too.\<close>

definition more_oracle_constraints ::
    "view list \<Rightarrow> orientation \<Rightarrow> z3_bool list \<Rightarrow> device_query \<Rightarrow> device_query option" where
  "more_oracle_constraints app_vs oi core q =
     do { cz \<leftarrow> raise_unsat core (dq_cands q) (dq_views q);
          r \<leftarrow> AddSynAttributes False (fst cz) (snd cz, dq_assertions q);
          ds \<leftarrow> each_device (\<lambda>c zd s. if HasFixedView zd then AddGenAttributes app_vs oi c (zd, s) else Some (c, zd, s))
                  (fst r) (dq_devices q) (snd (snd r));
          s \<leftarrow> FinishedAddingConstraints (snd (snd ds)) (fst (snd r));
          Some \<lparr>dq_cands = FinishAdding (fst ds), dq_views = fst (snd r), dq_devices = fst (snd ds), dq_assertions = s\<rparr> }"

definition GetSatConstraintsOracle ::
    "smt_env \<Rightarrow> attr_scorer \<Rightarrow> app \<Rightarrow> orientation \<Rightarrow> app list \<Rightarrow> app list \<Rightarrow> (status \<times> candidate_constraints) option" where
  "GetSatConstraintsOracle env scorer app oi device_apps blocked_apps =
     do { c \<leftarrow> start_candidates (\<lambda>_. scorer) (app_views app) oi;
          known \<leftarrow> known_screens device_apps oi;
          blocked \<leftarrow> blocked_screens blocked_apps oi;
          q \<leftarrow> oracle_constraints False app oi (known @ blocked) c;
          r \<leftarrow> device_sat_loop env (more_oracle_constraints (app_views app) oi) 50 (q\<lparr>dq_cands := FinishAdding (dq_cands q)\<rparr>);
          Some (fst r, dq_cands (snd r)) }"

text \<open>The constraints of the model, with their scores, and the map of the selected ones.\<close>

type_synonym selected_constraints = "int \<Rightarrow> constraint_data option option"

definition assign_scored ::
    "smt_env \<Rightarrow> attr_scorer \<Rightarrow> z3_model \<Rightarrow> orientation \<Rightarrow> view list \<times> selected_constraints \<Rightarrow> z3_view \<Rightarrow>
      (view list \<times> selected_constraints) option" where
  "assign_scored env scorer m oi st z =
     (if zv_pos z = 0 then Some st
      else do { CHECK (snd st (zv_pos z) = None);
                r \<leftarrow> AssignModel (env_decimal env) m oi (Some scorer) (fst st) z;
                Some (fst r, (snd st)(zv_pos z \<mapsto> snd r)) })"

definition SynthesizeDeviceProbOracle ::
    "smt_env \<Rightarrow> bool \<Rightarrow> attr_scorer \<Rightarrow> app \<Rightarrow> orientation \<Rightarrow> app list \<Rightarrow> app list \<Rightarrow> app list \<Rightarrow>
      ((status \<times> selected_constraints) \<times> app \<times> app list) option" where
  "SynthesizeDeviceProbOracle env opt scorer app oi device_apps target_apps blocked_apps =
     do { r \<leftarrow> GetSatConstraintsOracle env scorer app oi device_apps blocked_apps;
          if fst r \<noteq> SUCCESS then Some ((fst r, Map.empty), app, target_apps)
          else do {
            known \<leftarrow> known_screens device_apps oi;
            blocked \<leftarrow> blocked_screens blocked_apps oi;
            targets \<leftarrow> target_screens target_apps oi;
            q \<leftarrow> oracle_constraints opt app oi (known @ blocked @ targets) (ResetAdding (snd r));
            let s = dq_assertions q @ GetAssumptions (dq_views q);
            let cost = (if opt then Some (cost_of_views (dq_views q) (IntVal 0)) else None);
            case env_optimize env s cost of
              Sat m \<Rightarrow>
                do { vc \<leftarrow> fold_opt (assign_scored env scorer m oi) (app_views app, Map.empty) (dq_views q);
                     apps \<leftarrow> assign_devices (\<lambda>_. False) m oi (drop (length known + length blocked) (dq_devices q)) target_apps;
                     Some ((SUCCESS, snd vc), app\<lparr>app_views := fst vc\<rparr>, apps) }
            | res \<Rightarrow> Some ((failure_status env s res, Map.empty), app, target_apps) } }"

section \<open>Candidates\<close>

text \<open>
  The candidates of one orientation with their layouts of the target devices; each layout of the
  first device is blocked in the rounds after it. The loop ends early when there is no further one.
\<close>

primrec candidate_rounds ::
    "(app list \<Rightarrow> (status \<times> app \<times> app list) option) \<Rightarrow> nat \<Rightarrow> app list \<Rightarrow> (status \<times> (app \<times> app list) list) option" where
  "candidate_rounds f 0 blocked = Some (SUCCESS, [])"
| "candidate_rounds f (Suc k) blocked =
     do { r \<leftarrow> f blocked;
          if fst r \<noteq> SUCCESS then Some (fst r, [])
          else do { d \<leftarrow> vec_at (snd (snd r)) 0;
                    rs \<leftarrow> candidate_rounds f k (blocked @ [d]);
                    Some (fst rs, snd r # snd rs) } }"

definition oracle_candidate ::
    "smt_env \<Rightarrow> bool \<Rightarrow> attr_scorer \<Rightarrow> orientation \<Rightarrow> app \<Rightarrow> app list \<Rightarrow> device \<Rightarrow> device list \<Rightarrow> app list \<Rightarrow>
      (status \<times> app \<times> app list) option" where
  "oracle_candidate env opt scorer oi app device_apps ref_device devices blocked =
     do { targets \<leftarrow> resize_devices app ref_device devices;
          c \<leftarrow> App_copy app;
          r \<leftarrow> SynthesizeDeviceProbOracle env opt scorer c oi device_apps targets blocked;
          Some (fst (fst r), snd r) }"

definition merge_pair :: "app \<times> app list \<Rightarrow> app \<times> app list \<Rightarrow> (app \<times> app list) option" where
  "merge_pair v h =
     do { a \<leftarrow> App_merge (fst v) (fst h);
          ms \<leftarrow> map_opt (\<lambda>k. do { x \<leftarrow> vec_at (snd v) k; y \<leftarrow> vec_at (snd h) k; App_merge x y }) [0..<length (snd v)];
          Some (a, ms) }"

text \<open>
  \<^verbatim>\<open>computeMatchings\<close> counts the candidates whose layout of a device is not that of the first one;
  what it logs is left out.
\<close>

definition computeMatchings :: "app list list \<Rightarrow> nat \<Rightarrow> nat option" where
  "computeMatchings resized device =
     do { first \<leftarrow> vec_at resized 0;
          r \<leftarrow> vec_at first device;
          others \<leftarrow> map_opt (\<lambda>c. vec_at c device) (tl resized);
          Some (1 + length (filter (\<lambda>a. \<not> AppMatch a r) others)) }"

definition computeCandidates ::
    "smt_env \<Rightarrow> bool \<Rightarrow> (orientation \<Rightarrow> attr_scorer) \<Rightarrow> int \<Rightarrow> app \<Rightarrow> app list \<Rightarrow> device \<Rightarrow> device list \<Rightarrow>
      app list \<times> app list list \<Rightarrow> (status \<times> app list \<times> app list list) option" where
  "computeCandidates env opt scorers number app device_apps ref_device devices found =
     do { let f = (\<lambda>oi. oracle_candidate env opt (scorers oi) oi app device_apps ref_device devices);
          v \<leftarrow> candidate_rounds (f VERTICAL) (nat number) [];
          if fst v \<noteq> SUCCESS \<and> snd v = [] then Some (fst v, found)
          else do {
            h \<leftarrow> candidate_rounds (f HORIZONTAL) (nat number) [];
            if fst h \<noteq> SUCCESS \<and> snd h = [] then Some (fst h, found)
            else do {
              ms \<leftarrow> map_opt (\<lambda>(x, y). merge_pair x y) (List.product (snd v) (snd h));
              let cands = fst found @ map fst ms;
              let resized = snd found @ map snd ms;
              different \<leftarrow> computeMatchings resized 0;
              CHECK (different = length cands);
              Some (SUCCESS, cands, resized) } } }"

section \<open>Asking the oracle\<close>

definition getProb :: "app \<Rightarrow> (real \<times> real) option" where
  "getProb a =
     fold_opt (\<lambda>p v. if view_id v = 0 then Some p
                     else do { h \<leftarrow> view_attributes v HORIZONTAL; w \<leftarrow> view_attributes v VERTICAL;
                               Some (fst p + attr_prob h, snd p + attr_prob w) }) (0, 0) (app_views a)"

definition getProbIndividual :: "app \<Rightarrow> (real \<times> real) list option" where
  "getProbIndividual a =
     map_opt (\<lambda>v. if view_id v = 0 then Some (0, 0)
                  else do { h \<leftarrow> view_attributes v HORIZONTAL; w \<leftarrow> view_attributes v VERTICAL;
                            Some (attr_prob h, attr_prob w) }) (app_views a)"

text \<open>\<^verbatim>\<open>selectCandidate\<close>; the best score so far starts at 10.\<close>

definition better_candidate :: "app list \<Rightarrow> real \<times> nat \<Rightarrow> nat \<Rightarrow> (real \<times> nat) option" where
  "better_candidate cands best i =
     do { p \<leftarrow> getProb (cands ! i);
          let score = fst p + snd p;
          Some (if score > fst best then (score, i) else best) }"

definition selectCandidate :: "nat \<Rightarrow> real list \<Rightarrow> app list \<Rightarrow> nat option" where
  "selectCandidate selected scores cands =
     do { CHECK (1 < length scores);
          CHECK (list_all (\<lambda>s. 0 \<le> s \<and> s \<le> 1) scores);
          if foldl max (- 1) scores - foldl min 2 scores > 1 / 100 then Some selected
          else do { b \<leftarrow> fold_opt (better_candidate cands) (10, 0) [0..<length cands]; Some (snd b) } }"

text \<open>\<^verbatim>\<open>AppConstraintsToJSON\<close> (\<^verbatim>\<open>eval_app_util.cpp\<close>): the constraints in the order of their views.\<close>

definition put_constraint :: "app \<Rightarrow> int list \<Rightarrow> view \<Rightarrow> orientation \<Rightarrow> json list \<Rightarrow> json list option" where
  "put_constraint a swaps v oi js =
     do { x \<leftarrow> view_attributes v oi;
          j \<leftarrow> Attribute_ToJSON (app_views a) (seq_id_to_pos a) swaps x;
          src \<leftarrow> json_field j ''srcid'';
          i \<leftarrow> as_int (Some src);
          CHECK (1 \<le> i);
          vec_set js (nat (i - 1)) j }"

definition AppConstraintsToJSON :: "app \<Rightarrow> int list \<Rightarrow> json option" where
  "AppConstraintsToJSON a swaps =
     do { CHECK (app_views a \<noteq> []);
          let blank = replicate (length (app_views a) - 1) JNull;
          hv \<leftarrow> fold_opt (\<lambda>hv v. if is_content_frame v then Some hv
                                  else do { h \<leftarrow> put_constraint a swaps v HORIZONTAL (fst hv);
                                            w \<leftarrow> put_constraint a swaps v VERTICAL (snd hv);
                                            Some (h, w) }) (blank, blank) (app_views a);
          Some (JObject [''horizontal'' \<mapsto> JArray (fst hv), ''vertical'' \<mapsto> JArray (snd hv)]) }"

definition candidate_layout :: "app list list \<Rightarrow> app list \<Rightarrow> nat \<Rightarrow> nat \<Rightarrow> json option" where
  "candidate_layout resized cands j i =
     do { c \<leftarrow> vec_at cands i;
          prob \<leftarrow> getProb c;
          probs \<leftarrow> getProbIndividual c;
          rs \<leftarrow> vec_at resized i;
          r \<leftarrow> vec_at rs j;
          constraints \<leftarrow> AppConstraintsToJSON c [];
          App_ToCoordinatesJSON_candidate r (int i) c constraints prob probs }"

definition device_request ::
    "app list list \<Rightarrow> app list \<Rightarrow> device list \<Rightarrow> string \<Rightarrow> app list \<Rightarrow> app \<Rightarrow> nat \<Rightarrow> json option" where
  "device_request resized cands devices filename debug_apps original j =
     do { layouts \<leftarrow> map_opt (candidate_layout resized cands j) [0..<length resized];
          target \<leftarrow> vec_at debug_apps j;
          d \<leftarrow> vec_at devices j;
          Some (JObject [''layouts'' \<mapsto> JArray layouts,
            ''target'' \<mapsto> App_ToCoordinatesJSON target,
            ''original'' \<mapsto> App_ToCoordinatesJSON original,
            ''filename'' \<mapsto> JString (eraseSubString filename ''.txt''),
            ''dimensions'' \<mapsto> DeviceToJson d]) }"

text \<open>
  \<^verbatim>\<open>askOracle\<close> for several candidates, with the flag \<^verbatim>\<open>FLAGS_generate_data\<close> as an argument: the
  index of the chosen one and those with the largest score. The scores must be numbers.
\<close>

definition askOracle_choose ::
    "(json \<Rightarrow> json option) \<Rightarrow> bool \<Rightarrow> app list list \<Rightarrow> app list \<Rightarrow> device list \<Rightarrow> string \<Rightarrow> string \<Rightarrow> string \<Rightarrow>
      app list \<Rightarrow> app \<Rightarrow> json \<Rightarrow> (int \<times> int list) option" where
  "askOracle_choose oracle generate_data resized cands devices oracle_type dataset filename debug_apps original target_xml =
     do { ds \<leftarrow> map_opt (device_request resized cands devices filename debug_apps original) [0..<length devices];
          result \<leftarrow> oracle (JObject [''model'' \<mapsto> JString oracle_type, ''dataset'' \<mapsto> JString dataset,
            ''targetXML'' \<mapsto> target_xml, ''generateData'' \<mapsto> JBool generate_data, ''devices'' \<mapsto> JArray ds]);
          scores \<leftarrow> json_field result ''scores'';
          ss \<leftarrow> json_elements scores;
          reals \<leftarrow> map_opt as_real ss;
          best \<leftarrow> json_field result ''results'';
          bs \<leftarrow> json_elements best;
          ids \<leftarrow> map_opt (\<lambda>b. as_int (Some b)) bs;
          chosen \<leftarrow> json_field result ''result'';
          i \<leftarrow> as_int (Some chosen);
          Some (i, ids) }"

section \<open>One view at a time\<close>

text \<open>
  The callback of \<^verbatim>\<open>SynthesizeLayoutIterative\<close> counts the candidates and notes whether one was
  selected; what the caller's callbacks keep is part of its state.
\<close>

definition count_candidates ::
    "int \<Rightarrow> (int \<Rightarrow> app \<Rightarrow> app list \<Rightarrow> 's \<Rightarrow> bool \<times> 's) \<Rightarrow> int \<times> bool \<times> 's \<Rightarrow> app \<Rightarrow> app list \<Rightarrow> bool \<times> int \<times> bool \<times> 's" where
  "count_candidates max_candidates candidate_cb st a ds =
     (let num = fst st + 1; r = candidate_cb num a ds (snd (snd st)) in
      if \<not> fst r then (False, num, True, snd r) else (num < max_candidates, num, fst (snd st), snd r))"

definition push_view :: "app \<Rightarrow> app \<Rightarrow> nat \<Rightarrow> app option" where
  "push_view a full i = do { v \<leftarrow> vec_at (app_views full) i; Some (a\<lparr>app_views := app_views a @ [v]\<rparr>) }"

definition iterative_step ::
    "smt_env \<Rightarrow> bool \<Rightarrow> prob_model \<Rightarrow> int \<Rightarrow> (int \<Rightarrow> app \<Rightarrow> app list \<Rightarrow> 's \<Rightarrow> bool \<times> 's) \<Rightarrow>
      (int \<Rightarrow> app \<Rightarrow> 's \<Rightarrow> app list \<times> 's) \<Rightarrow> (int \<Rightarrow> 's \<Rightarrow> 's) \<Rightarrow> app \<Rightarrow> app list \<Rightarrow> app \<times> app list \<times> 's \<Rightarrow> nat \<Rightarrow>
      (status option \<times> app \<times> app list \<times> 's) option" where
  "iterative_step env opt model max_candidates candidate_cb predict_cb iter_cb app device_apps st i =
     do { cur \<leftarrow> push_view (fst st) app i;
          ds \<leftarrow> map_opt (\<lambda>(d, full). push_view d full i) (zip (fst (snd st)) device_apps);
          if i = 0 then Some (None, cur, ds, snd (snd st))
          else do {
            r \<leftarrow> SynthesizeSingleQueryCandidates env opt model (count_candidates max_candidates candidate_cb)
                   (0, False, snd (snd st)) cur ds;
            let res = fst r;
            let counted = snd r;
            if fst counted = 0 then
              do { CHECK (fst res \<noteq> SUCCESS); Some (Some (fst res), fst (snd res), snd (snd res), snd (snd counted)) }
            else
              let p = (if fst (snd counted) then (snd (snd res), snd (snd counted))
                       else predict_cb (int i + 1) (fst (snd res)) (snd (snd counted)))
              in Some (None, fst (snd res), fst p, iter_cb (int i + 1) (snd p)) } }"

primrec iterate_views ::
    "('t \<Rightarrow> nat \<Rightarrow> (status option \<times> 't) option) \<Rightarrow> 't \<Rightarrow> nat list \<Rightarrow> (status option \<times> 't) option" where
  "iterate_views f st [] = Some (None, st)"
| "iterate_views f st (i # is) =
     do { r \<leftarrow> f st i;
          case fst r of Some e \<Rightarrow> Some r | None \<Rightarrow> iterate_views f (snd r) is }"

definition SynthesizeLayoutIterative ::
    "smt_env \<Rightarrow> bool \<Rightarrow> prob_model \<Rightarrow> int \<Rightarrow> (int \<Rightarrow> app \<Rightarrow> app list \<Rightarrow> 's \<Rightarrow> bool \<times> 's) \<Rightarrow>
      (int \<Rightarrow> app \<Rightarrow> 's \<Rightarrow> app list \<times> 's) \<Rightarrow> (int \<Rightarrow> 's \<Rightarrow> 's) \<Rightarrow> 's \<Rightarrow> app \<Rightarrow> app list \<Rightarrow> (status \<times> app \<times> 's) option" where
  "SynthesizeLayoutIterative env opt model max_candidates candidate_cb predict_cb iter_cb st app device_apps =
     do { r \<leftarrow> iterate_views (iterative_step env opt model max_candidates candidate_cb predict_cb iter_cb app device_apps)
                 (setResizable App_empty (app_resizable app), map (\<lambda>_. App_empty) device_apps, st)
                 [0..<length (app_views app)];
          case r of
            (Some e, _, _, st') \<Rightarrow> Some (e, app, st')
          | (None, cur, ds, st') \<Rightarrow>
              do { a \<leftarrow> App_copy cur;
                   res \<leftarrow> SynthesizeLayoutSingleQuery env opt model a ds;
                   Some (fst res, fst (snd res), st') } }"

end
