(* ===== verification/Oracle_Properties.thy ===== *)
theory Oracle_Properties
  imports Oracle_Loop Device_Properties
begin

text \<open>
  What the synthesis with an oracle gives: the search for candidates returns, a success lays out the
  target devices with constraints that also fit the known views, no blocked layout is repeated, and
  so the candidates that \<^verbatim>\<open>computeCandidates\<close> combines are pairwise different on the first device.
\<close>

section \<open>What the screens of a query say\<close>

definition gen_clauses :: "view list \<Rightarrow> orientation \<Rightarrow> nat \<Rightarrow> int \<Rightarrow> (nat \<Rightarrow> attribute list) \<Rightarrow> z3_model \<Rightarrow> bool" where
  "gen_clauses vs oi n d offers m \<longleftrightarrow>
     (\<forall>i a. 0 < i \<and> i < n \<and> a \<in> set (offers i) \<longrightarrow> gen_clause vs oi d m a)"

definition frame_placed :: "orientation \<Rightarrow> int \<Rightarrow> z3_view list \<Rightarrow> z3_model \<Rightarrow> bool" where
  "frame_placed oi d zd m \<longleftrightarrow> model_positions m oi d 0 = (zv_start (zd ! 0), zv_end (zd ! 0))"

definition displaced :: "z3_view list \<Rightarrow> (nat \<Rightarrow> int \<times> int) \<Rightarrow> bool" where
  "displaced zd J \<longleftrightarrow> (\<exists>i. 0 < i \<and> i < length zd \<and> J i \<noteq> (zv_start (zd ! i), zv_end (zd ! i)))"

fun screen_model ::
    "view list \<Rightarrow> orientation \<Rightarrow> int \<Rightarrow> (nat \<Rightarrow> attribute list) \<Rightarrow> z3_model \<Rightarrow> oracle_screen \<Rightarrow> bool" where
  "screen_model vs oi d offers m (Known zd) = (HasFixedView zd \<longrightarrow> device_model vs oi d zd offers m)"
| "screen_model vs oi d offers m (Blocked b zd) =
     (gen_clauses (app_views b) oi (length zd) d offers m \<and> frame_placed oi d zd m \<and>
      bool_interp m ''x_empty_expr'' \<and> displaced zd (model_positions m oi d))"
| "screen_model vs oi d offers m (Target zd) =
     (frame_placed oi d zd m \<and> gen_clauses vs oi (length zd) d offers m)"

definition screen_ok :: "orientation \<Rightarrow> int \<Rightarrow> nat \<Rightarrow> oracle_screen \<Rightarrow> bool" where
  "screen_ok oi d n scr \<longleftrightarrow> made_views oi d (oracle_views scr) \<and> length (oracle_views scr) = n \<and>
     (case scr of Blocked b zd \<Rightarrow> length (app_views b) = n | _ \<Rightarrow> True)"

lemma same_places_meaning:
  "holds m (foldl (\<lambda>e v. if zv_pos v = 0 then e
        else And (And e (NumEq (position_start_v v) (IntVal (zv_start v)))) (NumEq (position_end_v v) (IntVal (zv_end v)))) e zs) \<longleftrightarrow>
     holds m e \<and> (\<forall>v \<in> set zs. zv_pos v \<noteq> 0 \<longrightarrow>
        num_value m (position_start_v v) = real_of_int (zv_start v) \<and> num_value m (position_end_v v) = real_of_int (zv_end v))"
  by (induction zs arbitrary: e) auto

lemma addBlockingConstraints_result:
  assumes "made_views oi d zs" "0 < length zs"
  shows "\<exists>t. addBlockingConstraints s zs = Some (s @ t) \<and>
    (\<forall>m. satisfies m t \<longleftrightarrow> frame_placed oi d zs m \<and> bool_interp m ''x_empty_expr'' \<and> displaced zs (model_positions m oi d))"
proof -
  have made: "made_view oi d i (zs ! i)" if "i < length zs" for i using assms(1) that by (simp add: made_views_def)
  let ?x = "BoolConst ''x_empty_expr''"
  let ?old = "foldl (\<lambda>e v. if zv_pos v = 0 then e
        else And (And e (NumEq (position_start_v v) (IntVal (zv_start v)))) (NumEq (position_end_v v) (IntVal (zv_end v)))) ?x zs"
  let ?t = "fixed_position_assertions (zs ! 0) @ [?x, Neg ?old]"
  have at: "(zv_pos (zs ! i) \<noteq> 0 \<longrightarrow> num_value m (position_start_v (zs ! i)) = real_of_int (zv_start (zs ! i)) \<and>
      num_value m (position_end_v (zs ! i)) = real_of_int (zv_end (zs ! i))) \<longleftrightarrow>
      (0 < i \<longrightarrow> model_positions m oi d i = (zv_start (zs ! i), zv_end (zs ! i)))" if "i < length zs" for i m
    using made [OF that] by (auto simp: made_view_def model_positions_def)
  have "holds m ?old \<longleftrightarrow> bool_interp m ''x_empty_expr'' \<and>
      (\<forall>i < length zs. 0 < i \<longrightarrow> model_positions m oi d i = (zv_start (zs ! i), zv_end (zs ! i)))" for m
    unfolding same_places_meaning all_set_conv_all_nth using at by simp
  then have "satisfies m ?t \<longleftrightarrow> frame_placed oi d zs m \<and> bool_interp m ''x_empty_expr'' \<and> displaced zs (model_positions m oi d)" for m
    using fixed_position_meaning [OF made [OF assms(2)], of m] unfolding satisfies_simps frame_placed_def displaced_def
    by (auto simp: satisfies_def)
  moreover have "addBlockingConstraints s zs = Some (s @ ?t)"
    using assms(2) by (simp add: addBlockingConstraints_def Let_def)
  ultimately show ?thesis by blast
qed

lemma AddGenAttributes_result:
  assumes "cand_ok c sc n oi" "made_views oi d zd" "length zd = n" "n \<le> 1000" "n \<le> length vs"
  shows "\<exists>c' zd' t. AddGenAttributes vs oi c (zd, s) = Some (c', zd', s @ t) \<and> same_candidates c c' \<and>
    (\<exists>g. views_extended zd zd' g) \<and> (\<forall>m. satisfies m t \<longleftrightarrow> gen_clauses vs oi n d (offered c sc) m)"
  using gen_encoder.each_result [OF assms(1-3), of vs s] assms(4,5) unfolding AddGenAttributes_def gen_clauses_def by auto

lemma views_extended_placed:
  assumes "views_extended zd zd' g" "0 < length zd"
  shows "frame_placed oi d zd' m = frame_placed oi d zd m" "displaced zd' J = displaced zd J" "HasFixedView zd' = HasFixedView zd"
proof -
  have "zv_start (zd' ! i) = zv_start (zd ! i)" "zv_end (zd' ! i) = zv_end (zd ! i)" "zv_pos (zd' ! i) = zv_pos (zd ! i)"
    if "i < length zd" for i
    using assms(1) that by (simp_all add: views_extended_def)
  then show "frame_placed oi d zd' m = frame_placed oi d zd m" "displaced zd' J = displaced zd J" "HasFixedView zd' = HasFixedView zd"
    using views_extended_length [OF assms(1)] assms(2)
    by (auto simp: frame_placed_def displaced_def HasFixedView_def list_ex_length zv_HasFixedPosition_def)
qed

lemma encode_oracle_screen_result:
  assumes c: "cand_ok c sc n oi" "n \<le> 1000" "n \<le> length (app_views app)" and scr: "screen_ok oi d n scr"
  shows "\<exists>c' zd' t. encode_oracle_screen app oi n c scr s = Some (c', zd', s @ t) \<and> same_candidates c c' \<and>
    (\<exists>g. views_extended (oracle_views scr) zd' g) \<and>
    (\<forall>m. satisfies m t \<longleftrightarrow> screen_model (app_views app) oi d (offered c sc) m scr)"
proof -
  have n: "0 < n" using c(1) by (auto simp: cand_ok_def scorer_ok_def)
  note refl = same_candidates_refl [of c]
  show ?thesis
  proof (cases scr)
    case (Known zd)
    with scr have zd: "made_views oi d zd" "length zd = n" by (simp_all add: screen_ok_def)
    show ?thesis
    proof (cases "HasFixedView zd")
      case True
      then show ?thesis
        using encode_device_result [OF c(1) zd c(2,3), of s] zd(2) by (simp add: Known)
    next
      case False
      have "\<exists>g. views_extended zd zd g" using views_extended_refl by blast
      with False refl show ?thesis
        by (intro exI [of _ c] exI [of _ zd] exI [of _ "[]"]) (simp add: Known zd(2) satisfies_def)
    qed
  next
    case (Blocked b zd)
    with scr have zd: "made_views oi d zd" "length zd = n" "n \<le> length (app_views b)" by (simp_all add: screen_ok_def)
    obtain c' zd' t g where t: "AddGenAttributes (app_views b) oi c (zd, s) = Some (c', zd', s @ t)" "same_candidates c c'"
      "views_extended zd zd' g" "\<forall>m. satisfies m t \<longleftrightarrow> gen_clauses (app_views b) oi n d (offered c sc) m"
      using AddGenAttributes_result [OF c(1) zd(1,2) c(2) zd(3), of s] by blast
    have len: "0 < length zd" "0 < length zd'" using n zd(2) views_extended_length [OF t(3)] by simp_all
    obtain u where u: "addBlockingConstraints (s @ t) zd' = Some ((s @ t) @ u)"
      "\<forall>m. satisfies m u \<longleftrightarrow> frame_placed oi d zd' m \<and> bool_interp m ''x_empty_expr'' \<and> displaced zd' (model_positions m oi d)"
      using addBlockingConstraints_result [OF views_extended_made [OF t(3) zd(1)] len(2), of "s @ t"] by blast
    have "satisfies m (t @ u) \<longleftrightarrow> screen_model (app_views app) oi d (offered c sc) m scr" for m
      using t(4) u(2) views_extended_placed(1,2) [OF t(3) len(1)] by (simp add: Blocked zd(2))
    moreover have "encode_oracle_screen app oi n c scr s = Some (c', zd', s @ (t @ u))"
      using t(1) u(1) by (simp add: Blocked)
    ultimately show ?thesis using t(2,3) Blocked by auto
  next
    case (Target zd)
    with scr have zd: "made_views oi d zd" "length zd = n" by (simp_all add: screen_ok_def)
    let ?r = "fixed_position_assertions (zd ! 0)"
    obtain c' zd' t g where t: "AddGenAttributes (app_views app) oi c (zd, s @ ?r) = Some (c', zd', (s @ ?r) @ t)"
      "same_candidates c c'" "views_extended zd zd' g" "\<forall>m. satisfies m t \<longleftrightarrow> gen_clauses (app_views app) oi n d (offered c sc) m"
      using AddGenAttributes_result [OF c(1) zd c(2,3), of "s @ ?r"] by blast
    have "satisfies m ?r \<longleftrightarrow> frame_placed oi d zd m" for m
      using fixed_position_meaning [of oi d 0 "zd ! 0" m] zd n by (simp add: frame_placed_def made_views_def)
    then have "satisfies m (?r @ t) \<longleftrightarrow> screen_model (app_views app) oi d (offered c sc) m scr" for m
      using t(4) by (simp add: Target zd(2))
    moreover have "encode_oracle_screen app oi n c scr s = Some (c', zd', s @ (?r @ t))"
      using t(1) zd(2) n by (simp add: Target)
    ultimately show ?thesis using t(2,3) Target by auto
  qed
qed

text \<open>The screens of a query, with their device numbers \<open>D\<close>.\<close>

definition oracle_number :: "nat \<Rightarrow> nat \<Rightarrow> nat \<Rightarrow> int" where
  "oracle_number known blocked k =
     (if k < known then int k + 1 else if k < known + blocked then 4444 else 404 + int (k - known - blocked))"

definition oracle_model ::
    "bool \<Rightarrow> view list \<Rightarrow> orientation \<Rightarrow> (nat \<Rightarrow> int) \<Rightarrow> oracle_screen list \<Rightarrow> z3_view list \<Rightarrow> (nat \<Rightarrow> attribute list) \<Rightarrow>
      z3_model \<Rightarrow> bool" where
  "oracle_model opt vs oi D screens zs offers m \<longleftrightarrow>
     reference_model opt oi zs offers m \<and>
     (\<forall>k < length screens. screen_model vs oi (D k) offers m (screens ! k))"

lemma oracle_constraints_result:
  assumes n: "views_ok n (app_views app)" "n \<le> 1000" and c: "cand_ok c sc n oi" "\<forall>i < n. constraints_added c ! i = 0"
    and zs: "ConvertViews (app_views app) oi 0 = Some zs"
    and screens: "\<And>k. k < length screens \<Longrightarrow> screen_ok oi (D k) n (screens ! k)"
  shows "\<exists>q. oracle_constraints opt app oi screens c = Some q \<and> same_candidates c (dq_cands q) \<and>
    views_extended zs (dq_views q) (\<lambda>i. if i = 0 then [] else map (attr_name oi) (offered c sc i)) \<and>
    length (dq_devices q) = length screens \<and>
    (\<forall>k < length screens. \<exists>g. views_extended (oracle_views (screens ! k)) (dq_devices q ! k) g) \<and>
    (\<forall>m. satisfies m (dq_assertions q) \<longleftrightarrow> oracle_model opt (app_views app) oi D screens zs (offered c sc) m)"
proof -
  let ?vs = "app_views app"
  have len: "length ?vs = n" "\<forall>i < length ?vs. view_pos (?vs ! i) = int i" using n(1) by (simp_all add: views_ok_def)
  note z = ConvertViews_result [OF zs len(2), unfolded len(1)]
  obtain c1 zs1 t where t: "encode_reference opt c zs [] = Some (c1, zs1, [] @ t)" "same_candidates c c1"
    "views_extended zs zs1 (\<lambda>i. if i = 0 then [] else map (attr_name oi) (offered c sc i))"
    "\<forall>m. satisfies m t \<longleftrightarrow> reference_model opt oi zs (offered c sc) m"
    using encode_reference_result [OF c(1) z(2,1) n(2), of opt "[]"] c(2) z(4) by auto
  have zs1: "length zs1 = n" using views_extended_length [OF t(3)] z(1) by simp
  let ?M = "\<lambda>k m. screen_model ?vs oi (D k) (offered c sc) m (screens ! k)"
  have "\<exists>c' zds' u. each_device (encode_oracle_screen app oi n) c1 screens t = Some (c', zds', t @ u) \<and>
      same_candidates c1 c' \<and> length zds' = length screens \<and>
      (\<forall>k < length screens. \<exists>g. views_extended (oracle_views (screens ! k)) (zds' ! k) g) \<and>
      (\<forall>m. satisfies m u \<longleftrightarrow> (\<forall>k < length screens. ?M k m))"
  proof (rule each_device_result [where V = oracle_views])
    fix c2 k s assume c2: "same_candidates c1 c2" and k: "k < length screens"
    note same = same_candidates_trans [OF t(2) c2]
    have off: "offered c2 sc = offered c sc" using same_candidates_ok(2) [OF same] by auto
    have "n \<le> length ?vs" using len(1) by simp
    from encode_oracle_screen_result [OF same_candidates_ok(1) [OF same c(1)] n(2) this screens [OF k], of s]
    show "\<exists>c' zd' t. encode_oracle_screen app oi n c2 (screens ! k) s = Some (c', zd', s @ t) \<and> same_candidates c2 c' \<and>
        (\<exists>g. views_extended (oracle_views (screens ! k)) zd' g) \<and> (\<forall>m. satisfies m t \<longleftrightarrow> ?M k m)"
      unfolding off .
  qed
  then obtain c' zds' u where u: "each_device (encode_oracle_screen app oi n) c1 screens t = Some (c', zds', t @ u)"
    "same_candidates c1 c'" "length zds' = length screens"
    "\<forall>k < length screens. \<exists>g. views_extended (oracle_views (screens ! k)) (zds' ! k) g"
    "\<forall>m. satisfies m u \<longleftrightarrow> (\<forall>k < length screens. ?M k m)" by blast
  let ?q = "\<lparr>dq_cands = c', dq_views = zs1, dq_devices = zds', dq_assertions = t @ u\<rparr>"
  have "oracle_constraints opt app oi screens c = Some ?q"
    using zs t(1) u(1) zs1 by (simp add: oracle_constraints_def)
  moreover have "satisfies m (t @ u) \<longleftrightarrow> oracle_model opt ?vs oi D screens zs (offered c sc) m" for m
    using t(4) u(5) by (simp add: oracle_model_def)
  ultimately show ?thesis
    using same_candidates_trans [OF t(2) u(2)] t(3) u(3,4) by (intro exI [of _ ?q]) simp
qed

lemma extended_screen:
  "screen_ok oi d n scr \<Longrightarrow> views_extended (oracle_views scr) zd g \<Longrightarrow> made_views oi d zd \<and> length zd = n"
  using views_extended_made [of "oracle_views scr" zd g oi d] views_extended_length [of "oracle_views scr" zd g]
  by (simp add: screen_ok_def)

lemma known_screens_result:
  assumes "devices_ok n apps" "n \<le> 1000"
  shows "\<exists>screens zds. known_screens apps oi = Some screens \<and> length screens = length apps \<and>
    (\<forall>k < length apps. screens ! k = Known (zds k) \<and> screen_ok oi (int k + 1) n (Known (zds k)) \<and>
       (\<forall>i < n. (zv_start (zds k ! i), zv_end (zds k ! i)) = view_interval (app_views (apps ! k)) oi i))"
proof -
  have "\<exists>zds. convert_devices apps oi = Some zds"
    unfolding convert_devices_def map_opt_Some_iff
    using assms by (auto simp: in_set_zip devices_ok_def views_ok_def intro!: ConvertViews_total)
  then obtain zds where zds: "convert_devices apps oi = Some zds" by blast
  note d = convert_devices_result [OF zds assms(1)]
  have "known_screens apps oi = Some (map Known zds)" using zds by (simp add: known_screens_def)
  moreover have "map Known zds ! k = Known (zds ! k) \<and> screen_ok oi (int k + 1) n (Known (zds ! k)) \<and>
       (\<forall>i < n. (zv_start (zds ! k ! i), zv_end (zds ! k ! i)) = view_interval (app_views (apps ! k)) oi i)"
    if "k < length apps" for k
    using d that by (simp add: screen_ok_def)
  ultimately show ?thesis using d(1)
    by (intro exI [of _ "map Known zds"] exI [of _ "(!) zds"]) simp
qed

text \<open>Apps converted one by one, each into a screen of its own.\<close>

lemma converted_screens:
  assumes "devices_ok n apps" "n \<le> 1000" "\<And>k. 0 \<le> D k"
  shows "\<exists>zds. (\<forall>k < length apps. ConvertViews (app_views (apps ! k)) oi (D k) = Some (zds k) \<and>
    made_views oi (D k) (zds k) \<and> length (zds k) = n \<and>
    (\<forall>i < n. (zv_start (zds k ! i), zv_end (zds k ! i)) = view_interval (app_views (apps ! k)) oi i))"
proof -
  have "\<exists>zd. ConvertViews (app_views (apps ! k)) oi (D k) = Some zd \<and> made_views oi (D k) zd \<and> length zd = n \<and>
      (\<forall>i < n. (zv_start (zd ! i), zv_end (zd ! i)) = view_interval (app_views (apps ! k)) oi i)" if "k < length apps" for k
  proof -
    have ok: "length (app_views (apps ! k)) = n" "\<forall>i < length (app_views (apps ! k)). view_pos (app_views (apps ! k) ! i) = int i"
      using assms(1) that by (simp_all add: devices_ok_def views_ok_def)
    obtain zd where zd: "ConvertViews (app_views (apps ! k)) oi (D k) = Some zd"
      using ConvertViews_total [of "app_views (apps ! k)" "D k" oi] ok assms(2,3) by auto
    from ConvertViews_result(1-3) [OF zd ok(2)] ok(1) zd show ?thesis by auto
  qed
  then show ?thesis by metis
qed

lemma blocked_screens_result:
  assumes "devices_ok n apps" "n \<le> 1000"
  shows "\<exists>screens zds. blocked_screens apps oi = Some screens \<and> length screens = length apps \<and>
    (\<forall>k < length apps. screens ! k = Blocked (apps ! k) (zds k) \<and> screen_ok oi 4444 n (Blocked (apps ! k) (zds k)) \<and>
       (\<forall>i < n. (zv_start (zds k ! i), zv_end (zds k ! i)) = view_interval (app_views (apps ! k)) oi i))"
proof -
  obtain zds where zds: "\<forall>k < length apps. ConvertViews (app_views (apps ! k)) oi 4444 = Some (zds k) \<and>
    made_views oi 4444 (zds k) \<and> length (zds k) = n \<and>
    (\<forall>i < n. (zv_start (zds k ! i), zv_end (zds k ! i)) = view_interval (app_views (apps ! k)) oi i)"
    using converted_screens [OF assms, of "\<lambda>_. 4444" oi] by auto
  have "\<exists>screens. blocked_screens apps oi = Some screens"
    unfolding blocked_screens_def map_opt_Some_iff using zds by (auto simp: in_set_conv_nth)
  then obtain screens where s: "blocked_screens apps oi = Some screens" by blast
  note m = map_opt_length [OF s [unfolded blocked_screens_def]] map_opt_nth [OF s [unfolded blocked_screens_def]]
  have "screens ! k = Blocked (apps ! k) (zds k)" if "k < length apps" for k
    using m(2) [OF that] zds that by simp
  then have "screens ! k = Blocked (apps ! k) (zds k) \<and> screen_ok oi 4444 n (Blocked (apps ! k) (zds k))" if "k < length apps" for k
    using zds that assms(1) by (simp add: screen_ok_def devices_ok_def views_ok_def)
  with s m(1) zds show ?thesis by blast
qed

lemma target_screens_result:
  assumes "devices_ok n apps" "n \<le> 1000"
  shows "\<exists>screens zds. target_screens apps oi = Some screens \<and> length screens = length apps \<and>
    (\<forall>k < length apps. screens ! k = Target (zds k) \<and> screen_ok oi (404 + int k) n (Target (zds k)) \<and>
       (\<forall>i < n. (zv_start (zds k ! i), zv_end (zds k ! i)) = view_interval (app_views (apps ! k)) oi i))"
proof -
  obtain zds where zds: "\<forall>k < length apps. ConvertViews (app_views (apps ! k)) oi (404 + int k) = Some (zds k) \<and>
    made_views oi (404 + int k) (zds k) \<and> length (zds k) = n \<and>
    (\<forall>i < n. (zv_start (zds k ! i), zv_end (zds k ! i)) = view_interval (app_views (apps ! k)) oi i)"
    using converted_screens [OF assms, of "\<lambda>k. 404 + int k" oi] by auto
  have "\<exists>screens. target_screens apps oi = Some screens"
    unfolding target_screens_def map_opt_Some_iff using zds by (auto simp: in_set_zip)
  then obtain screens where s: "target_screens apps oi = Some screens" by blast
  note m = map_opt_length [OF s [unfolded target_screens_def]] map_opt_nth [OF s [unfolded target_screens_def]]
  have "screens ! k = Target (zds k)" if "k < length apps" for k
    using m(2) [of k] zds that by simp
  then have "screens ! k = Target (zds k) \<and> screen_ok oi (404 + int k) n (Target (zds k))" if "k < length apps" for k
    using zds that by (simp add: screen_ok_def)
  moreover have "length screens = length apps" using m(1) by simp
  ultimately show ?thesis using s zds by blast
qed

text \<open>All screens of a query, known ones first.\<close>

definition oracle_screens_of ::
    "app list \<Rightarrow> app list \<Rightarrow> app list \<Rightarrow> orientation \<Rightarrow> nat \<Rightarrow> (nat \<Rightarrow> z3_view list) \<Rightarrow> oracle_screen list \<Rightarrow> bool" where
  "oracle_screens_of known blocked targets oi n zds screens \<longleftrightarrow>
     length screens = length known + length blocked + length targets \<and>
     (\<forall>k < length known. screens ! k = Known (zds k)) \<and>
     (\<forall>k < length blocked. screens ! (length known + k) = Blocked (blocked ! k) (zds (length known + k))) \<and>
     (\<forall>k < length targets. screens ! (length known + length blocked + k) = Target (zds (length known + length blocked + k))) \<and>
     (\<forall>k < length screens. screen_ok oi (oracle_number (length known) (length blocked) k) n (screens ! k) \<and>
        (\<forall>i < n. (zv_start (zds k ! i), zv_end (zds k ! i)) = view_interval (app_views ((known @ blocked @ targets) ! k)) oi i))"

lemma oracle_screens_result:
  assumes "devices_ok n known" "devices_ok n blocked" "devices_ok n targets" "n \<le> 1000"
  shows "\<exists>kn bl tg zds. known_screens known oi = Some kn \<and> blocked_screens blocked oi = Some bl \<and>
    target_screens targets oi = Some tg \<and> length kn = length known \<and> length bl = length blocked \<and> length tg = length targets \<and>
    oracle_screens_of known blocked targets oi n zds (kn @ bl @ tg)"
proof -
  obtain kn z1 where kn: "known_screens known oi = Some kn" "length kn = length known"
    "\<forall>k < length known. kn ! k = Known (z1 k) \<and> screen_ok oi (int k + 1) n (Known (z1 k)) \<and>
       (\<forall>i < n. (zv_start (z1 k ! i), zv_end (z1 k ! i)) = view_interval (app_views (known ! k)) oi i)"
    using known_screens_result [OF assms(1,4), of oi] by blast
  obtain bl z2 where bl: "blocked_screens blocked oi = Some bl" "length bl = length blocked"
    "\<forall>k < length blocked. bl ! k = Blocked (blocked ! k) (z2 k) \<and> screen_ok oi 4444 n (Blocked (blocked ! k) (z2 k)) \<and>
       (\<forall>i < n. (zv_start (z2 k ! i), zv_end (z2 k ! i)) = view_interval (app_views (blocked ! k)) oi i)"
    using blocked_screens_result [OF assms(2,4), of oi] by blast
  obtain tg z3 where tg: "target_screens targets oi = Some tg" "length tg = length targets"
    "\<forall>k < length targets. tg ! k = Target (z3 k) \<and> screen_ok oi (404 + int k) n (Target (z3 k)) \<and>
       (\<forall>i < n. (zv_start (z3 k ! i), zv_end (z3 k ! i)) = view_interval (app_views (targets ! k)) oi i)"
    using target_screens_result [OF assms(3,4), of oi] by blast
  let ?K = "length known" and ?B = "length blocked"
  define zds where "zds k = (if k < ?K then z1 k else if k < ?K + ?B then z2 (k - ?K) else z3 (k - ?K - ?B))" for k
  have "screen_ok oi (oracle_number ?K ?B k) n ((kn @ bl @ tg) ! k) \<and>
      (\<forall>i < n. (zv_start (zds k ! i), zv_end (zds k ! i)) = view_interval (app_views ((known @ blocked @ targets) ! k)) oi i)"
    if k: "k < ?K + ?B + length targets" for k
  proof -
    consider "k < ?K" | j where "k = ?K + j" "j < ?B" | j where "k = ?K + ?B + j" "j < length targets"
      using k by (metis add_diff_inverse_nat nat_add_left_cancel_less)
    then show ?thesis
    proof cases
      case 1
      then show ?thesis using kn(2,3) by (simp add: nth_append zds_def oracle_number_def)
    next
      case (2 j)
      then show ?thesis using kn(2) bl(2,3) by (simp add: nth_append zds_def oracle_number_def)
    next
      case (3 j)
      then show ?thesis using kn(2) bl(2) tg(2,3) by (simp add: nth_append zds_def oracle_number_def)
    qed
  qed
  then have "oracle_screens_of known blocked targets oi n zds (kn @ bl @ tg)"
    using kn bl tg by (simp add: oracle_screens_of_def nth_append zds_def)
  with kn(1,2) bl(1,2) tg(1,2) show ?thesis by blast
qed

section \<open>The search for candidates\<close>

lemma more_oracle_constraints_result:
  assumes "device_query_ok n oi sc D q" "n \<le> 1000" "n \<le> length app_vs"
  shows "\<exists>q'. more_oracle_constraints app_vs oi core q = Some q' \<and> device_query_ok n oi sc D q'"
proof -
  have ok: "cand_ok (dq_cands q) sc n oi" "made_views oi 0 (dq_views q)" "length (dq_views q) = n"
    "\<And>k. k < length (dq_devices q) \<Longrightarrow> made_views oi (D k) (dq_devices q ! k) \<and> length (dq_devices q ! k) = n"
    "\<And>i. 0 < i \<Longrightarrow> i < n \<Longrightarrow> zv_constraints (dq_views q ! i) \<noteq> []"
    using assms(1) by (simp_all add: device_query_ok_def)
  obtain c zs where raised: "raise_unsat core (dq_cands q) (dq_views q) = Some (c, zs)" "cand_ok c sc n oi"
    "made_views oi 0 zs" "length zs = n" "\<forall>j < n. zv_constraints (zs ! j) = zv_constraints (dq_views q ! j)"
    using raise_unsat_result [OF ok(1-3)] by blast
  obtain c1 zs1 t where syn: "AddSynAttributes False c (zs, dq_assertions q) = Some (c1, zs1, dq_assertions q @ t)" "same_candidates c c1"
    "views_extended zs zs1 (\<lambda>i. if i = 0 then [] else map (attr_name oi) (offered c sc i))"
    using syn_encoder.each_result [OF raised(2-4) assms(2), of False "dq_assertions q"] by (auto simp: AddSynAttributes_def)
  note made = views_extended_made [OF syn(3) raised(3)] and ok1 = same_candidates_ok(1) [OF syn(2) raised(2)]
  have len: "length zs1 = n" using views_extended_length [OF syn(3)] raised(4) by simp
  have names: "zv_constraints (zs1 ! i) \<noteq> []" if "0 < i" "i < n" for i
    using syn(3) raised(4,5) ok(5) that by (simp add: views_extended_def)
  let ?f = "\<lambda>c zd s. if HasFixedView zd then AddGenAttributes app_vs oi c (zd, s) else Some (c, zd, s)"
  have "\<exists>c' zds' u. each_device ?f c1 (dq_devices q) (dq_assertions q @ t) = Some (c', zds', (dq_assertions q @ t) @ u) \<and>
      same_candidates c1 c' \<and> length zds' = length (dq_devices q) \<and>
      (\<forall>k < length (dq_devices q). \<exists>g. views_extended (dq_devices q ! k) (zds' ! k) g) \<and>
      (\<forall>m. satisfies m u \<longleftrightarrow> (\<forall>k < length (dq_devices q). HasFixedView (dq_devices q ! k) \<longrightarrow>
          gen_clauses app_vs oi n (D k) (offered c1 sc) m))"
  proof (rule each_device_result [where V = "\<lambda>zd. zd"])
    fix c2 k s assume c2: "same_candidates c1 c2" and k: "k < length (dq_devices q)"
    let ?zd = "dq_devices q ! k"
    have off: "offered c2 sc = offered c1 sc" using same_candidates_ok(2) [OF c2] by auto
    have refl: "\<exists>g. views_extended ?zd ?zd g" using views_extended_refl by blast
    note add = AddGenAttributes_result [OF same_candidates_ok(1) [OF c2 ok1] conjunct1 [OF ok(4) [OF k]]
        conjunct2 [OF ok(4) [OF k]] assms(2,3), of s, unfolded off]
    show "\<exists>c' zd' t. ?f c2 ?zd s = Some (c', zd', s @ t) \<and> same_candidates c2 c' \<and> (\<exists>g. views_extended ?zd zd' g) \<and>
        (\<forall>m. satisfies m t \<longleftrightarrow> (HasFixedView ?zd \<longrightarrow> gen_clauses app_vs oi n (D k) (offered c1 sc) m))"
    proof (cases "HasFixedView ?zd")
      case True
      with add show ?thesis by simp
    next
      case False
      with refl same_candidates_refl [of c2] show ?thesis
        by (intro exI [of _ c2] exI [of _ ?zd] exI [of _ "[]"]) (simp add: satisfies_def)
    qed
  qed
  then obtain c' zds' u where gen: "each_device ?f c1 (dq_devices q) (dq_assertions q @ t) =
        Some (c', zds', (dq_assertions q @ t) @ u)" "same_candidates c1 c'" "length zds' = length (dq_devices q)"
      "\<forall>k < length (dq_devices q). \<exists>g. views_extended (dq_devices q ! k) (zds' ! k) g" by blast
  obtain w where w: "FinishedAddingConstraints ((dq_assertions q @ t) @ u) zs1 = Some (((dq_assertions q @ t) @ u) @ w)"
    using FinishedAddingConstraints_result [OF made, of "(dq_assertions q @ t) @ u"] names len by blast
  have devs: "made_views oi (D k) (zds' ! k) \<and> length (zds' ! k) = n" if "k < length (dq_devices q)" for k
    using gen(4) ok(4) that views_extended_made views_extended_length by metis
  let ?q = "\<lparr>dq_cands = FinishAdding c', dq_views = zs1, dq_devices = zds', dq_assertions = ((dq_assertions q @ t) @ u) @ w\<rparr>"
  have "more_oracle_constraints app_vs oi core q = Some ?q"
    using raised(1) syn(1) gen(1) w by (simp add: more_oracle_constraints_def)
  moreover have "device_query_ok n oi sc D ?q"
    using cand_ok_updates(2) [OF same_candidates_ok(1) [OF gen(2) ok1]] made len devs names gen(3)
    by (simp add: device_query_ok_def)
  ultimately show ?thesis by blast
qed

text \<open>An app with known, blocked and target screens of the same views.\<close>

definition oracle_input :: "nat \<Rightarrow> app \<Rightarrow> app list \<Rightarrow> app list \<Rightarrow> bool" where
  "oracle_input n app device_apps blocked_apps \<longleftrightarrow>
     views_ok n (app_views app) \<and> n \<le> 1000 \<and> devices_ok n device_apps \<and> devices_ok n blocked_apps"

lemma GetSatConstraintsOracle_result:
  assumes ok: "oracle_input n app device_apps blocked_apps" and sc: "scorer_fits n oi sc app"
  shows "\<exists>st c. GetSatConstraintsOracle env sc app oi device_apps blocked_apps = Some (st, c) \<and> cand_ok c sc n oi"
proof -
  obtain c where c: "start_candidates (\<lambda>_. sc) (app_views app) oi = Some c" "cand_ok c sc n oi" "\<forall>i < n. constraints_added c ! i = 0"
    using sc by (auto simp: scorer_fits_def)
  obtain zs where zs: "ConvertViews (app_views app) oi 0 = Some zs" using c(1) by (auto simp: start_candidates_def bind_Some_iff)
  have n: "views_ok n (app_views app)" "n \<le> 1000" "devices_ok n device_apps" "devices_ok n blocked_apps"
    using ok by (simp_all add: oracle_input_def)
  then have len: "length (app_views app) = n" "\<forall>i < length (app_views app). view_pos (app_views app ! i) = int i"
    by (simp_all add: views_ok_def)
  have "devices_ok n []" by (simp add: devices_ok_def)
  from oracle_screens_result [OF n(3,4) this n(2), of oi] obtain kn bl zds where
    s: "known_screens device_apps oi = Some kn" "blocked_screens blocked_apps oi = Some bl"
    "oracle_screens_of device_apps blocked_apps [] oi n zds (kn @ bl @ [])" by (auto simp: target_screens_def)
  let ?D = "oracle_number (length device_apps) (length blocked_apps)"
  have screens: "screen_ok oi (?D k) n ((kn @ bl) ! k)" if "k < length (kn @ bl)" for k
    using s(3) that by (simp add: oracle_screens_of_def)
  obtain q where q: "oracle_constraints False app oi (kn @ bl) c = Some q" "same_candidates c (dq_cands q)"
    "views_extended zs (dq_views q) (\<lambda>i. if i = 0 then [] else map (attr_name oi) (offered c sc i))"
    "length (dq_devices q) = length (kn @ bl)"
    "\<forall>k < length (kn @ bl). \<exists>g. views_extended (oracle_views ((kn @ bl) ! k)) (dq_devices q ! k) g"
    using oracle_constraints_result [OF n(1,2) c(2,3) zs screens, of False] by blast
  note z = ConvertViews_result [OF zs len(2), unfolded len(1)]
  have "device_query_ok n oi sc ?D (q\<lparr>dq_cands := FinishAdding (dq_cands q)\<rparr>)"
  proof -
    have "zv_constraints (dq_views q ! i) \<noteq> []" if i: "0 < i" "i < n" for i
      using offered_first [OF c(2) i] c(3) i q(3) z(1) by (auto simp: views_extended_def)
    moreover have "made_views oi (?D k) (dq_devices q ! k) \<and> length (dq_devices q ! k) = n" if k: "k < length (kn @ bl)" for k
      using q(5) k extended_screen [OF screens [OF k]] by blast
    ultimately show ?thesis
      using cand_ok_updates(2) [OF same_candidates_ok(1) [OF q(2) c(2)]] views_extended_made [OF q(3) z(2)]
        views_extended_length [OF q(3)] z(1) q(4) by (simp add: device_query_ok_def)
  qed
  moreover have "\<exists>q'. more_oracle_constraints (app_views app) oi core q = Some q' \<and> device_query_ok n oi sc ?D q'"
    if "device_query_ok n oi sc ?D q" for core q
    using more_oracle_constraints_result [OF that n(2)] len(1) by simp
  ultimately obtain st q' where "device_sat_loop env (more_oracle_constraints (app_views app) oi) 50
      (q\<lparr>dq_cands := FinishAdding (dq_cands q)\<rparr>) = Some (st, q')" "device_query_ok n oi sc ?D q'"
    using device_sat_loop_result [where P = "device_query_ok n oi sc ?D"] by blast
  then show ?thesis using c(1) s(1,2) q(1) by (simp add: GetSatConstraintsOracle_def device_query_ok_def)
qed

section \<open>A layout is determined by its frame and its sizes\<close>

lemma pixel_holds_unique:
  assumes "attribute_ok n i oi a" "IsRelationalAnchor (attr_type a) \<Longrightarrow> attr_view_size a = FIXED"
    and "pixel_holds P a" "pixel_holds Q a" "\<And>j. j \<in> set (attr_targets a) \<Longrightarrow> P j = Q j"
    and size: "attr_view_size a = FIXED \<Longrightarrow> snd (P i) - fst (P i) = snd (Q i) - fst (Q i)"
  shows "P i = Q i"
proof -
  have src: "attr_src a = i" using assms(1) by (simp add: attribute_ok_def)
  show ?thesis
    using assms(1)
  proof (cases rule: ok_targets)
    case relational
    then have none: "split_center (attr_type a) = None" by (cases "attr_type a") simp_all
    have "P (tgt_primary a) = Q (tgt_primary a)" using assms(5) relational by simp
    then have "if IsTypeStart (attr_type a) = Some True then fst (P i) = fst (Q i) else snd (P i) = snd (Q i)"
      using assms(3,4) relational none by (simp add: pixel_holds_def attribute_holds_def anchor_pos_def src Let_def split: if_splits)
    with size [OF assms(2) [OF relational(1)]] show ?thesis by (intro prod_eqI) (auto split: if_splits)
  next
    case (center j)
    moreover have "ConstraintTypeToOrientation (attr_type a) = Some oi" using assms(1) by (simp add: attribute_ok_def)
    ultimately obtain ts te where split: "split_center (attr_type a) = Some (ts, te)" by (cases "attr_type a") auto
    have same: "anchor_pos P ts (tgt_primary a) = anchor_pos Q ts (tgt_primary a)" "anchor_pos P te j = anchor_pos Q te j"
      using assms(5) center by (simp_all add: anchor_pos_def)
    define S where "S = anchor_pos Q ts (tgt_primary a) + value_primary a + (anchor_pos Q te j - value_secondary a)"
    show ?thesis
    proof (cases "attr_view_size a = FIXED")
      case True
      then have "fst (P i) + snd (P i) = S \<or> fst (P i) + snd (P i) = S + 1" "fst (Q i) + snd (Q i) = S \<or> fst (Q i) + snd (Q i) = S + 1"
        using assms(3,4) split center same by (simp_all add: pixel_holds_def attribute_holds_def S_def src Let_def)
      with size [OF True] have "fst (P i) = fst (Q i)" "snd (P i) = snd (Q i)" by presburger+
      then show ?thesis by (rule prod_eqI)
    next
      case False
      then show ?thesis
        using assms(3,4) split center same by (simp add: pixel_holds_def attribute_holds_def src Let_def)
    qed
  qed
qed

text \<open>The attribute of a model with the bias one half.\<close>

lemma candidate_pixels:
  assumes "attribute_ok n i oi a" "candidate_holds m oi d a" "real_interp m (name1 ''bias_'' (unique_id_value (int i) oi)) = 1 / 2"
  shows "pixel_holds (model_positions m oi d) (model_attr m oi a)"
proof -
  have "attr_bias (model_attr m oi a) = 1 / 2" using assms(1,3) by (simp add: model_attr_def attribute_ok_def Let_def)
  with assms(2) show ?thesis by (simp add: candidate_holds_def placed_half)
qed

lemma model_attr_targets: "attr_targets (model_attr m oi a) = attr_targets a"
  by (simp add: attr_targets_def model_attr_def Let_def)

lemma layout_unique:
  assumes cands: "cand_ok c sc n oi" and zs: "length zs = n"
    and ref: "reference_model opt oi zs (offered c sc) m" "assumed oi zs m"
    and gens: "gen_clauses vs oi n d (offered c sc) m" "gen_clauses ws oi n e (offered c sc) m"
    and frame: "model_positions m oi d 0 = model_positions m oi e 0"
    and sizes: "\<And>i. 0 < i \<Longrightarrow> i < n \<Longrightarrow> attr_view_size (selection m oi (offered c sc) i) = FIXED \<Longrightarrow>
       snd (view_interval vs oi i) - fst (view_interval vs oi i) = snd (view_interval ws oi i) - fst (view_interval ws oi i)"
  shows "i < n \<Longrightarrow> model_positions m oi d i = model_positions m oi e i"
proof (induction "nat (model_anchor m oi i)" arbitrary: i rule: less_induct)
  case less
  let ?offers = "offered c sc"
  let ?a = "selection m oi ?offers i"
  show ?case
  proof (cases "i = 0")
    case False
    then have i: "0 < i" "i < n" "i < length zs" using less.prems zs by simp_all
    have sel: "?a \<in> set (?offers i)" "bool_interp m (attr_name oi ?a)"
      using selection_in(1,2) [OF ref i(1,3)] by simp_all
    have ok: "attribute_ok n i oi ?a" and fixed: "IsRelationalAnchor (attr_type ?a) \<Longrightarrow> attr_view_size ?a = FIXED"
      using offered_ok(1,2) [OF cands i(1,2) sel(1)] by simp_all
    have src: "attr_src ?a = i" using ok by (simp add: attribute_ok_def)
    have holds: "candidate_holds m oi d ?a" "size_kept vs oi (model_positions m oi d) ?a"
      "candidate_holds m oi e ?a" "size_kept ws oi (model_positions m oi e) ?a"
      using gens sel i unfolding gen_clauses_def gen_clause_def by blast+
    have half: "real_interp m (name1 ''bias_'' (unique_id_value (int i) oi)) = 1 / 2"
      using ref(1) i(3) by (simp add: reference_model_def)
    have ok': "attribute_ok n i oi (model_attr m oi ?a)"
      using ok ref(1) i(3) by (simp add: attribute_ok_def model_attr_def reference_model_def Let_def cong: option.case_cong)
    have edges: "(i, j) \<in> selection_edges m oi (length zs) ?offers" if "j \<in> set (attr_targets ?a)" for j
      unfolding selection_edges_def selects_def using that sel i by blast
    show ?thesis
    proof (rule pixel_holds_unique [OF ok'])
      show "pixel_holds (model_positions m oi d) (model_attr m oi ?a)" "pixel_holds (model_positions m oi e) (model_attr m oi ?a)"
        using candidate_pixels [OF ok _ half] holds by simp_all
      show "attr_view_size (model_attr m oi ?a) = FIXED" if "IsRelationalAnchor (attr_type (model_attr m oi ?a))"
        using fixed that by (simp add: model_attr_def Let_def)
      show "snd (model_positions m oi d i) - fst (model_positions m oi d i) = snd (model_positions m oi e i) - fst (model_positions m oi e i)"
        if "attr_view_size (model_attr m oi ?a) = FIXED"
      proof -
        have "attr_view_size ?a = FIXED" using that by (simp add: model_attr_def Let_def)
        with holds(2,4) sizes [OF i(1,2)] show ?thesis by (simp add: size_kept_def src Let_def)
      qed
      show "model_positions m oi d j = model_positions m oi e j" if "j \<in> set (attr_targets (model_attr m oi ?a))" for j
      proof -
        have j: "j \<in> set (attr_targets ?a)" using that by (simp add: model_attr_targets)
        have "0 \<le> model_anchor m oi j \<and> model_anchor m oi j < model_anchor m oi i"
          using selection_descends [OF ref(1) _ edges [OF j]] offered_ok(1) [OF cands] zs by simp
        moreover have "j < n" using j ok by (rule_tac ok_targets [OF ok]) auto
        ultimately show ?thesis using less.hyps [of j] by simp
      qed
    qed
  qed (use frame in simp)
qed

section \<open>The constraints with their scores\<close>

text \<open>\<^verbatim>\<open>AssignModel\<close> with a scorer differs from the one without it in the scores only.\<close>

definition unscored_attr :: "attribute \<Rightarrow> attribute" where
  "unscored_attr a = a\<lparr>attr_prob := 0\<rparr>"

definition unscored :: "view list \<Rightarrow> view list" where
  "unscored vs = map (\<lambda>v. v\<lparr>view_attributes := (\<lambda>oi. map_option unscored_attr (view_attributes v oi))\<rparr>) vs"

lemma unscored_attr_targets [simp]: "attr_targets (unscored_attr a) = attr_targets a"
  by (simp add: attr_targets_def unscored_attr_def)

lemma unscored_same [simp]:
  "length (unscored vs) = length vs" "i < length vs \<Longrightarrow> view_interval (unscored vs) oi i = view_interval vs oi i"
  "i < length vs \<Longrightarrow> view_attributes (unscored vs ! i) oi = map_option unscored_attr (view_attributes (vs ! i) oi)"
  by (simp_all add: unscored_def view_interval_def)

lemma vec_at_int_unscored: "vec_at_int vs k = Some v \<Longrightarrow>
    vec_at_int (unscored vs) k = Some (v\<lparr>view_attributes := (\<lambda>oi. map_option unscored_attr (view_attributes v oi))\<rparr>)"
  by (auto simp: vec_at_int_def unscored_def vec_at_Some split: if_splits)

lemma AssignModel_unscored:
  assumes "AssignModel dec m oi (Some sc) vs z = Some r"
  shows "map_option fst (AssignModel dec m oi None (unscored vs) z) = Some (unscored (fst r))"
proof (cases "selected_constraint m z")
  case None
  with assms show ?thesis by (auto simp: AssignModel_def)
next
  case (Some name)
  let ?d = "ConstraintData name"
  obtain d ms src prim sec bias a p where r: "ConstraintData name = Some d" "GetMargins m z d = Some ms"
    "vec_at_int vs (zv_pos z) = Some src" "vec_at_int vs (cd_primary d) = Some prim"
    "(if IsCenterAnchor (cd_type d) then do { q \<leftarrow> vec_at_int vs (cd_secondary d); Some (Some (nat (cd_secondary d))) } else Some None) = Some sec"
    "GetBias dec m z = Some bias"
    "Attribute_full (cd_type d) (cd_size d) (fst (if IsCenterAnchor (cd_type d) \<and> cd_size d = FIXED then AdjustMargins ms else ms))
       (snd (if IsCenterAnchor (cd_type d) \<and> cd_size d = FIXED then AdjustMargins ms else ms)) (nat (zv_pos z)) (nat (cd_primary d)) sec bias = Some a"
    "fst r = vs[nat (zv_pos z) := src\<lparr>view_attributes := (view_attributes src)(oi \<mapsto> a\<lparr>attr_prob := p\<rparr>)\<rparr>]"
    using assms unfolding AssignModel_def Some Let_def by (auto simp: bind_Some_iff)
  have prob: "attr_prob a = 0" using r(7) by (auto simp: Attribute_full_def CHECK_Some split: if_splits)
  have sec: "(if IsCenterAnchor (cd_type d) then do { q \<leftarrow> vec_at_int (unscored vs) (cd_secondary d); Some (Some (nat (cd_secondary d))) } else Some None) = Some sec"
    using r(5) vec_at_int_unscored by (auto simp: bind_Some_iff split: if_splits)
  let ?src = "src\<lparr>view_attributes := (\<lambda>oi. map_option unscored_attr (view_attributes src oi))\<rparr>"
  have "map_option fst (AssignModel dec m oi None (unscored vs) z) =
      Some ((unscored vs)[nat (zv_pos z) := ?src\<lparr>view_attributes := (view_attributes ?src)(oi \<mapsto> a\<lparr>attr_prob := attr_prob a\<rparr>)\<rparr>])"
    unfolding AssignModel_def Some Let_def option.case
    by (simp only: r(1,2,6,7) sec vec_at_int_unscored [OF r(3)] vec_at_int_unscored [OF r(4)]
        Option.bind.simps(2) option.case option.map fst_conv)
  also have "(unscored vs)[nat (zv_pos z) := ?src\<lparr>view_attributes := (view_attributes ?src)(oi \<mapsto> a\<lparr>attr_prob := attr_prob a\<rparr>)\<rparr>] =
      unscored (fst r)"
    unfolding r(8) unscored_def map_update using prob
    by (intro arg_cong2 [where f = "\<lambda>v. list_update (map _ vs) v"]) (auto simp: unscored_attr_def fun_eq_iff)
  finally show ?thesis .
qed

lemma assign_scored_models:
  assumes "fold_opt (assign_scored env sc m oi) (vs, M) zs = Some (vs', M')"
  shows "assign_models env m oi zs (unscored vs) = Some (unscored vs')"
  using assms unfolding assign_models_def
proof (induction zs arbitrary: vs M)
  case (Cons z zs)
  then obtain st where st: "assign_scored env sc m oi (vs, M) z = Some st" "fold_opt (assign_scored env sc m oi) st zs = Some (vs', M')"
    by (auto simp: bind_Some_iff)
  obtain us N where stp: "st = (us, N)" by (cases st)
  have "(if zv_pos z = 0 then Some (unscored vs) else map_option fst (AssignModel (env_decimal env) m oi None (unscored vs) z)) = Some (unscored us)"
  proof (cases "zv_pos z = 0")
    case True
    with st(1) stp show ?thesis by (simp add: assign_scored_def)
  next
    case False
    then obtain r where "AssignModel (env_decimal env) m oi (Some sc) vs z = Some r" "us = fst r"
      using st(1) stp by (auto simp: assign_scored_def bind_Some_iff split: if_splits)
    with False AssignModel_unscored show ?thesis by simp
  qed
  with Cons.IH [OF st(2) [unfolded stp]] show ?case by simp
qed simp

lemma constrained_unscored:
  assumes "constrained (unscored vs) (unscored vs') K Q oi"
  shows "constrained vs vs' K Q oi"
proof -
  have len: "length vs' = length vs" using assms by (simp add: constrained_def)
  have edges: "reference_edges (unscored vs') oi = reference_edges vs' oi"
    by (auto simp: reference_edges_def)
  have ok: "attribute_ok k i oi (unscored_attr a) = attribute_ok k i oi a" for k i a
    by (simp add: attribute_ok_def unscored_attr_def cong: option.case_cong)
  have holds: "holds_on (unscored vs) K Q oi (unscored_attr a) = holds_on vs K Q oi a"
    if "attribute_ok (length vs) i oi a" "i < length vs" for a i
  proof -
    have "holds_on (unscored vs) K Q oi (unscored_attr a) = holds_on (unscored vs) K Q oi a"
      by (rule holds_on_fields) (simp_all add: unscored_attr_def)
    also have "holds_on (unscored vs) K Q oi a = holds_on vs K Q oi a" by (rule holds_on_cong [OF that]) simp_all
    finally show ?thesis .
  qed
  show ?thesis unfolding constrained_def
  proof (intro conjI allI impI)
    show "acyclic (reference_edges vs' oi)" using assms edges by (simp add: constrained_def)
    show "length vs' = length vs" by (rule len)
    show "view_interval vs' oi i = view_interval vs oi i" if "i < length vs" for i
      using assms that len by (simp add: constrained_def)
    show "\<exists>a. view_attributes (vs' ! i) oi = Some a \<and> attribute_ok (length vs) i oi a \<and> holds_on vs K Q oi a"
      if i: "0 < i \<and> i < length vs" for i
    proof -
      have "\<exists>b. view_attributes (unscored vs' ! i) oi = Some b \<and> attribute_ok (length vs) i oi b \<and>
          holds_on (unscored vs) K Q oi b"
        using assms i unfolding constrained_def unscored_same(1) by blast
      then obtain b where b: "view_attributes (unscored vs' ! i) oi = Some b" "attribute_ok (length vs) i oi b"
        "holds_on (unscored vs) K Q oi b"
        by blast
      obtain a where a: "view_attributes (vs' ! i) oi = Some a" "b = unscored_attr a" using b(1) i len by auto
      have aok: "attribute_ok (length vs) i oi a" using b(2) a(2) ok by simp
      with a b(3) holds [OF aok] i show ?thesis by simp
    qed
  qed
qed

lemma same_views_unscored:
  assumes "same_views (unscored vs) (unscored vs')"
  shows "same_views vs vs'"
proof -
  have strip: "u = v\<lparr>view_attributes := view_attributes u\<rparr>" if "u\<lparr>view_attributes := A\<rparr> = v\<lparr>view_attributes := B\<rparr>" for u v :: view and A B
    using that by (cases u; cases v) simp
  have "\<exists>A. vs' ! i = (vs ! i)\<lparr>view_attributes := A\<rparr>" if i: "i < length vs" for i
  proof -
    have "i < length vs'" using assms i by (simp add: same_views_def)
    then have "\<exists>A. (vs' ! i)\<lparr>view_attributes := (\<lambda>oi. map_option unscored_attr (view_attributes (vs' ! i) oi))\<rparr> = (vs ! i)\<lparr>view_attributes := A\<rparr>"
      using assms i by (auto simp: same_views_def unscored_def)
    with strip show ?thesis by blast
  qed
  then show ?thesis using assms by (simp add: same_views_def)
qed

lemma gen_clause_unscored:
  "attribute_ok n i oi a \<Longrightarrow> i < length vs \<Longrightarrow> gen_clause (unscored vs) oi d m a = gen_clause vs oi d m a"
  by (simp add: gen_clause_def size_kept_def attribute_ok_def)

section \<open>What a success gives\<close>

text \<open>
  The constraints found hold on the screen, on the target devices, which they lay out, and on the
  devices with known views for some layout of those; no target device is laid out as a blocked one
  with the same frame.
\<close>

definition knows_views :: "app \<Rightarrow> orientation \<Rightarrow> bool" where
  "knows_views a oi \<longleftrightarrow> (\<exists>i. 0 < i \<and> i < length (app_views a) \<and> known_interval (view_interval (app_views a) oi i))"

definition agrees_with :: "app \<Rightarrow> orientation \<Rightarrow> (nat \<Rightarrow> int \<times> int) \<Rightarrow> bool" where
  "agrees_with a oi P \<longleftrightarrow>
     (\<forall>i < length (app_views a). i = 0 \<or> known_interval (view_interval (app_views a) oi i) \<longrightarrow> P i = view_interval (app_views a) oi i)"

definition laid_out_alike :: "orientation \<Rightarrow> app \<Rightarrow> app \<Rightarrow> bool" where
  "laid_out_alike oi a b \<longleftrightarrow> length (app_views a) = length (app_views b) \<and>
     (\<forall>i < length (app_views a). view_interval (app_views a) oi i = view_interval (app_views b) oi i)"

definition same_frame :: "orientation \<Rightarrow> app \<Rightarrow> app \<Rightarrow> bool" where
  "same_frame oi a b \<longleftrightarrow> view_interval (app_views a) oi 0 = view_interval (app_views b) oi 0"

definition oracle_answer ::
    "nat \<Rightarrow> orientation \<Rightarrow> app \<Rightarrow> app list \<Rightarrow> app list \<Rightarrow> app list \<Rightarrow> app \<Rightarrow> app list \<Rightarrow> bool" where
  "oracle_answer n oi app device_apps blocked_apps target_apps app' target_apps' \<longleftrightarrow>
     same_views (app_views app) (app_views app') \<and>
     (\<forall>i < n. \<forall>oj. i = 0 \<or> oj \<noteq> oi \<longrightarrow>
        (view_attributes (app_views app' ! i) oj = None) = (view_attributes (app_views app ! i) oj = None)) \<and>
     constrained (app_views app) (app_views app') (length target_apps) (\<lambda>k. view_interval (app_views (target_apps' ! k)) oi) oi \<and>
     devices_moved oi n (\<lambda>k. view_interval (app_views (target_apps' ! k)) oi) target_apps target_apps' \<and>
     (\<forall>k < length target_apps. same_frame oi (target_apps' ! k) (target_apps ! k) \<and>
        map view_id (app_views (target_apps' ! k)) = map view_id (app_views (target_apps ! k)) \<and>
        map view_attributes (app_views (target_apps' ! k)) = map view_attributes (app_views (target_apps ! k))) \<and>
     (\<forall>a \<in> set device_apps. knows_views a oi \<longrightarrow>
        (\<exists>P. constrained (app_views app) (app_views app') 1 (\<lambda>_. P) oi \<and> agrees_with a oi P)) \<and>
     (\<forall>b \<in> set blocked_apps. \<forall>k < length target_apps. same_frame oi (target_apps ! k) b \<longrightarrow>
        \<not> laid_out_alike oi (target_apps' ! k) b)"

text \<open>The run up to the model of the final query.\<close>

lemma SynthesizeDeviceProbOracle_run:
  assumes env: "sound_env env" and ok: "oracle_input n app device_apps blocked_apps" "devices_ok n target_apps"
    and sc: "scorer_fits n oi sc app"
    and result: "SynthesizeDeviceProbOracle env opt sc app oi device_apps target_apps blocked_apps = Some ((SUCCESS, M), app', target_apps')"
  obtains c zs zds screens m and q :: device_query where "cand_ok c sc n oi" "ConvertViews (app_views app) oi 0 = Some zs"
    "oracle_screens_of device_apps blocked_apps target_apps oi n zds screens"
    "views_extended zs (dq_views q) (\<lambda>i. if i = 0 then [] else map (attr_name oi) (offered c sc i))"
    "length (dq_devices q) = length screens"
    "\<forall>k < length screens. \<exists>g. views_extended (oracle_views (screens ! k)) (dq_devices q ! k) g"
    "oracle_model opt (app_views app) oi (oracle_number (length device_apps) (length blocked_apps)) screens zs (offered c sc) m"
    "assumed oi zs m" "env_decimal env 4 (1 / 2) = ''0.5''"
    "assign_models env m oi (dq_views q) (unscored (app_views app)) = Some (unscored (app_views app'))"
    "assign_devices (\<lambda>_. False) m oi (drop (length device_apps + length blocked_apps) (dq_devices q)) target_apps = Some target_apps'"
proof -
  let ?vs = "app_views app"
  have n: "views_ok n ?vs" "n \<le> 1000" "devices_ok n device_apps" "devices_ok n blocked_apps"
    using ok(1) by (simp_all add: oracle_input_def)
  then have len: "length ?vs = n" "\<forall>i < length ?vs. view_pos (?vs ! i) = int i" by (simp_all add: views_ok_def)
  obtain st c0 where get: "GetSatConstraintsOracle env sc app oi device_apps blocked_apps = Some (st, c0)" "cand_ok c0 sc n oi"
    using GetSatConstraintsOracle_result [OF ok(1) sc] by blast
  let ?c = "ResetAdding c0"
  have c: "cand_ok ?c sc n oi" "\<forall>i < n. constraints_added ?c ! i = 0"
    using get(2) cand_ok_updates(3) [OF get(2)] by (auto simp: cand_ok_def ResetAdding_def)
  obtain zs where zs: "ConvertViews ?vs oi 0 = Some zs" using ConvertViews_total [of ?vs 0 oi] len n(2) by auto
  note z = ConvertViews_result [OF zs len(2), unfolded len(1)]
  obtain kn bl tg zds where s: "known_screens device_apps oi = Some kn" "blocked_screens blocked_apps oi = Some bl"
    "target_screens target_apps oi = Some tg" "length kn = length device_apps" "length bl = length blocked_apps"
    "oracle_screens_of device_apps blocked_apps target_apps oi n zds (kn @ bl @ tg)"
    using oracle_screens_result [OF n(3,4) ok(2) n(2), of oi] by blast
  let ?D = "oracle_number (length device_apps) (length blocked_apps)"
  let ?screens = "kn @ bl @ tg"
  have screens: "screen_ok oi (?D k) n (?screens ! k)" if "k < length ?screens" for k
    using s(6) that unfolding oracle_screens_of_def by blast
  obtain q where q: "oracle_constraints opt app oi ?screens ?c = Some q"
    "views_extended zs (dq_views q) (\<lambda>i. if i = 0 then [] else map (attr_name oi) (offered ?c sc i))"
    "length (dq_devices q) = length ?screens"
    "\<forall>k < length ?screens. \<exists>g. views_extended (oracle_views (?screens ! k)) (dq_devices q ! k) g"
    "\<forall>m. satisfies m (dq_assertions q) \<longleftrightarrow> oracle_model opt ?vs oi ?D ?screens zs (offered ?c sc) m"
    using oracle_constraints_result [OF n(1,2) c zs screens, of opt] by blast
  define t where "t = dq_assertions q @ GetAssumptions (dq_views q)"
  define cost where "cost = (if opt then Some (cost_of_views (dq_views q) (IntVal 0)) else None)"
  have st: "st = SUCCESS" using result get(1) by (auto simp: SynthesizeDeviceProbOracle_def split: if_splits)
  have r: "(case env_optimize env t cost of
              Sat m \<Rightarrow>
                do { vc \<leftarrow> fold_opt (assign_scored env sc m oi) (?vs, Map.empty) (dq_views q);
                     apps \<leftarrow> assign_devices (\<lambda>_. False) m oi (drop (length device_apps + length blocked_apps) (dq_devices q)) target_apps;
                     Some ((SUCCESS, snd vc), app\<lparr>app_views := fst vc\<rparr>, apps) }
            | res \<Rightarrow> Some ((failure_status env t res, Map.empty), app, target_apps)) = Some ((SUCCESS, M), app', target_apps')"
    using result
    unfolding SynthesizeDeviceProbOracle_def get(1) st t_def cost_def Option.bind.simps Let_def fst_conv snd_conv s(1-5) q(1)
    by simp
  have fail: "failure_status env t res \<noteq> SUCCESS" for res by (simp add: failure_status_def split: check_result.split)
  obtain m vc where m: "env_optimize env t cost = Sat m"
    "fold_opt (assign_scored env sc m oi) (?vs, Map.empty) (dq_views q) = Some vc" "app' = app\<lparr>app_views := fst vc\<rparr>"
    "assign_devices (\<lambda>_. False) m oi (drop (length device_apps + length blocked_apps) (dq_devices q)) target_apps = Some target_apps'"
    using r fail by (cases "env_optimize env t cost") (auto simp: bind_Some_iff)
  have "satisfies m t" using env m(1) by (simp add: sound_env_def)
  then have model: "oracle_model opt ?vs oi ?D ?screens zs (offered ?c sc) m" "satisfies m (GetAssumptions (dq_views q))"
    using q(5) by (simp_all add: t_def)
  have assumed: "assumed oi zs m"
    using model(2) GetAssumptions_meaning [OF views_extended_made [OF q(2) z(2)]] assumed_extended [OF q(2)] by blast
  have stored: "assign_models env m oi (dq_views q) (unscored ?vs) = Some (unscored (app_views app'))"
    using assign_scored_models [of env sc m oi ?vs Map.empty "dq_views q" "fst vc" "snd vc"] m(2,3) by simp
  have decimal: "env_decimal env 4 (1 / 2) = ''0.5''" using env by (simp add: sound_env_def)
  show thesis by (rule that [OF c(1) zs s(6) q(2-4) model(1) assumed decimal stored m(4)])
qed

lemma made_views_drop:
  assumes "length zds = L + K" "\<And>k. k < K \<Longrightarrow> made_views oi (D k) (zds ! (L + k))" "k < K"
  shows "made_views oi (D k) (drop L zds ! k)"
proof -
  have "drop L zds ! k = zds ! (L + k)" using assms(1,3) by simp
  with assms(2,3) show ?thesis by simp
qed

lemma SynthesizeDeviceProbOracle_result:
  assumes env: "sound_env env" and ok: "oracle_input n app device_apps blocked_apps" "devices_ok n target_apps"
    and sc: "scorer_fits n oi sc app"
    and result: "SynthesizeDeviceProbOracle env opt sc app oi device_apps target_apps blocked_apps = Some ((SUCCESS, M), app', target_apps')"
  shows "oracle_answer n oi app device_apps blocked_apps target_apps app' target_apps'"
proof -
  let ?vs = "app_views app" and ?vs' = "app_views app'"
  let ?K = "length device_apps" and ?B = "length blocked_apps"
  let ?D = "oracle_number ?K ?B"
  have n: "views_ok n ?vs" "n \<le> 1000" "devices_ok n device_apps" "devices_ok n blocked_apps"
    using ok(1) by (simp_all add: oracle_input_def)
  then have len: "length ?vs = n" "\<forall>i < length ?vs. view_pos (?vs ! i) = int i" by (simp_all add: views_ok_def)
  obtain c zs zds screens m and q :: device_query where c: "cand_ok c sc n oi" and zs: "ConvertViews ?vs oi 0 = Some zs"
    and screens: "oracle_screens_of device_apps blocked_apps target_apps oi n zds screens"
    and q: "views_extended zs (dq_views q) (\<lambda>i. if i = 0 then [] else map (attr_name oi) (offered c sc i))"
      "length (dq_devices q) = length screens"
      "\<forall>k < length screens. \<exists>g. views_extended (oracle_views (screens ! k)) (dq_devices q ! k) g"
    and model: "oracle_model opt ?vs oi ?D screens zs (offered c sc) m" "assumed oi zs m"
    and dec: "env_decimal env 4 (1 / 2) = ''0.5''"
    and stored: "assign_models env m oi (dq_views q) (unscored ?vs) = Some (unscored ?vs')"
    and moved: "assign_devices (\<lambda>_. False) m oi (drop (?K + ?B) (dq_devices q)) target_apps = Some target_apps'"
    by (rule SynthesizeDeviceProbOracle_run [OF env ok sc result])
  note z = ConvertViews_result [OF zs len(2), unfolded len(1)]
  have n0: "0 < n" using c by (auto simp: cand_ok_def scorer_ok_def)
  let ?offers = "offered c sc"
  have ref: "reference_model opt oi zs ?offers m"
    and scr: "\<And>k. k < length screens \<Longrightarrow> screen_model ?vs oi (?D k) ?offers m (screens ! k)"
    using model(1) by (simp_all add: oracle_model_def)
  have total: "length screens = ?K + ?B + length target_apps"
    and ok_at: "\<And>k. k < length screens \<Longrightarrow> screen_ok oi (?D k) n (screens ! k)"
    and at: "\<And>k i. k < length screens \<Longrightarrow> i < n \<Longrightarrow>
       (zv_start (zds k ! i), zv_end (zds k ! i)) = view_interval (app_views ((device_apps @ blocked_apps @ target_apps) ! k)) oi i"
    using screens unfolding oracle_screens_of_def by blast+
  let ?f = "\<lambda>i. stored_attr m oi (selection m oi ?offers i)"
  have offers: "attribute_ok n i oi a" if "0 < i" "i < n" "a \<in> set (?offers i)" for i a
    using offered_ok(1) [OF c] that by simp
  have fresh: "\<forall>i < length zs. zv_constraints (zs ! i) = []" using z(1,4) by simp
  have lens: "length (unscored ?vs) = length zs" "length zs \<le> 1000" using z(1) n(2) len(1) by simp_all
  have same: "unscored ?vs' = with_constraints oi ?f n (unscored ?vs)"
    using assign_models_result [OF ref model(2) q(1) z(2) fresh lens _ dec stored] offers z(1) by simp
  have views: "same_views ?vs ?vs'"
    by (rule same_views_unscored) (simp add: same same_views_with_constraints)
  have holds: "constrained ?vs ?vs' K Q oi"
    if gens: "\<And>k. k < K \<Longrightarrow> gen_clauses ?vs oi n (D k) ?offers m" and Q: "\<And>k i. k < K \<Longrightarrow> i < n \<Longrightarrow> Q k i = model_positions m oi (D k) i"
    for K D Q
  proof (rule constrained_unscored, rule orientation_constrained [where vs = "unscored ?vs", OF c z(1) _ _ ref model(2)])
    show "gen_clause (unscored ?vs) oi (D k) m a" if "k < K" "0 < i" "i < n" "a \<in> set (?offers i)" for k i a
      using gens [OF that(1)] gen_clause_unscored [OF offers [OF that(2-4)], of ?vs] that len(1) by (simp add: gen_clauses_def)
  qed (use len z(3) Q same in \<open>simp_all add: with_constraints_facts\<close>)
  have target: "frame_placed oi (404 + int k) (zds (?K + ?B + k)) m \<and> gen_clauses ?vs oi n (404 + int k) ?offers m"
    and tviews: "made_views oi (404 + int k) (dq_devices q ! (?K + ?B + k))"
    if k: "k < length target_apps" for k
  proof -
    have i: "?K + ?B + k < length screens" using total k by simp
    have D: "?D (?K + ?B + k) = 404 + int k" by (simp add: oracle_number_def)
    have s: "screens ! (?K + ?B + k) = Target (zds (?K + ?B + k))"
      using screens k unfolding oracle_screens_of_def by blast
    have "length (zds (?K + ?B + k)) = n" using ok_at [OF i] by (simp add: s screen_ok_def)
    then show "frame_placed oi (404 + int k) (zds (?K + ?B + k)) m \<and> gen_clauses ?vs oi n (404 + int k) ?offers m"
      using scr [OF i] by (simp add: s D)
    show "made_views oi (404 + int k) (dq_devices q ! (?K + ?B + k))"
      using q(3) i extended_screen [OF ok_at [OF i]] unfolding D by blast
  qed
  have frame: "view_interval (app_views (target_apps ! k)) oi 0 = model_positions m oi (404 + int k) 0" if k: "k < length target_apps" for k
    using target [OF k] at [of "?K + ?B + k" 0] total k n0 by (simp add: frame_placed_def nth_append)
  let ?Q = "\<lambda>k. model_positions m oi (404 + int k)"
  have moved': "devices_moved oi n ?Q target_apps target_apps'"
  proof (rule assign_devices_moved [where D = "\<lambda>k. 404 + int k", OF moved ok(2)])
    show "length (drop (?K + ?B) (dq_devices q)) = length target_apps" using q(2) total by simp
    show "made_views oi (404 + int k) (drop (?K + ?B) (dq_devices q) ! k)" if "k < length target_apps" for k
      using made_views_drop [where D = "\<lambda>k. 404 + int k", OF _ tviews that] q(2) total by simp
  qed (rule frame)
  then have J: "view_interval (app_views (target_apps' ! k)) oi i = ?Q k i" if "k < length target_apps" "i < n" for k i
    using that by (simp add: devices_moved_def)
  have lent: "length (app_views (target_apps' ! k)) = n" if "k < length target_apps" for k
    using moved' that by (simp add: devices_moved_def devices_ok_def views_ok_def)
  have "devices_moved oi n (\<lambda>k. view_interval (app_views (target_apps' ! k)) oi) target_apps target_apps'"
    using moved' by (simp add: devices_moved_def)
  moreover have "constrained ?vs ?vs' (length target_apps) (\<lambda>k. view_interval (app_views (target_apps' ! k)) oi) oi"
    by (rule holds [where D = "\<lambda>k. 404 + int k"]) (use target J in simp_all)
  moreover have "\<forall>i < n. \<forall>oj. i = 0 \<or> oj \<noteq> oi \<longrightarrow>
      (view_attributes (?vs' ! i) oj = None) = (view_attributes (?vs ! i) oj = None)"
  proof (intro allI impI)
    fix i oj assume i: "i < n" "i = 0 \<or> oj \<noteq> oi"
    have "length ?vs' = n" using views len(1) by (simp add: same_views_def)
    then have "map_option unscored_attr (view_attributes (?vs' ! i) oj) = map_option unscored_attr (view_attributes (?vs ! i) oj)"
      using arg_cong [OF same, of "\<lambda>ws. view_attributes (ws ! i) oj"] i len(1) by (auto simp: with_constraints_facts)
    then show "(view_attributes (?vs' ! i) oj = None) = (view_attributes (?vs ! i) oj = None)"
      by (metis map_option_is_None)
  qed
  moreover have "\<forall>k < length target_apps. same_frame oi (target_apps' ! k) (target_apps ! k) \<and>
        map view_id (app_views (target_apps' ! k)) = map view_id (app_views (target_apps ! k)) \<and>
        map view_attributes (app_views (target_apps' ! k)) = map view_attributes (app_views (target_apps ! k))"
    using J frame n0 assign_devices_keep [OF moved, of view_id] assign_devices_keep [OF moved, of view_attributes] q(2) total
    by (simp add: same_frame_def)
  moreover have "\<exists>P. constrained ?vs ?vs' 1 (\<lambda>_. P) oi \<and> agrees_with a oi P" if a: "a \<in> set device_apps" "knows_views a oi" for a
  proof -
    obtain k where k: "k < ?K" "a = device_apps ! k" using a(1) by (auto simp: in_set_conv_nth)
    have i: "k < length screens" and s: "screens ! k = Known (zds k)" and D: "?D k = int k + 1"
      using total k(1) screens by (simp_all add: oracle_screens_of_def oracle_number_def)
    have la: "length (app_views a) = n" "length (zds k) = n" and mz: "made_views oi (int k + 1) (zds k)"
      using n(3) k ok_at [OF i] by (simp_all add: devices_ok_def views_ok_def s screen_ok_def D)
    have iv: "(zv_start (zds k ! j), zv_end (zds k ! j)) = view_interval (app_views a) oi j" if "j < n" for j
      using at [OF i that] k by (simp add: nth_append)
    have known: "zv_HasFixedPosition (zds k ! j) \<longleftrightarrow> known_interval (view_interval (app_views a) oi j)" if "j < n" for j
      using iv [OF that] by (metis fst_conv snd_conv known_interval_def zv_HasFixedPosition_def)
    have "HasFixedView (zds k)"
      using a(2) la mz known unfolding knows_views_def HasFixedView_def list_ex_length made_views_def
      by (metis made_view_pos of_nat_0_eq_iff not_less_zero)
    then have d: "device_model ?vs oi (int k + 1) (zds k) ?offers m" using scr [OF i] by (simp add: s D)
    let ?P = "model_positions m oi (int k + 1)"
    have "constrained ?vs ?vs' 1 (\<lambda>_. ?P) oi"
      by (rule holds [where D = "\<lambda>_. int k + 1"]) (use d la(2) in \<open>simp_all add: device_model_def gen_clauses_def\<close>)
    moreover have "agrees_with a oi ?P"
      using d la known iv by (simp add: device_model_def agrees_with_def)
    ultimately show ?thesis by blast
  qed
  moreover have "\<not> laid_out_alike oi (target_apps' ! k) b"
    if b: "b \<in> set blocked_apps" and k: "k < length target_apps" and fr: "same_frame oi (target_apps ! k) b" for b k
  proof
    assume alike: "laid_out_alike oi (target_apps' ! k) b"
    obtain j where j: "j < ?B" "b = blocked_apps ! j" using b by (auto simp: in_set_conv_nth)
    have i: "?K + j < length screens" and s: "screens ! (?K + j) = Blocked b (zds (?K + j))" and D: "?D (?K + j) = 4444"
      using total j screens by (simp_all add: oracle_screens_of_def oracle_number_def)
    have lz: "length (zds (?K + j)) = n" using ok_at [OF i] by (simp add: s screen_ok_def)
    have iv: "(zv_start (zds (?K + j) ! i), zv_end (zds (?K + j) ! i)) = view_interval (app_views b) oi i" if "i < n" for i
      using at [OF \<open>?K + j < length screens\<close> that] j by (simp add: nth_append)
    have blk: "gen_clauses (app_views b) oi n 4444 ?offers m" "frame_placed oi 4444 (zds (?K + j)) m"
      "displaced (zds (?K + j)) (model_positions m oi 4444)"
      using scr [OF i] by (simp_all add: s D lz)
    have T: "?Q k i = view_interval (app_views b) oi i" if "i < n" for i
      using alike J [OF k that] lent [OF k] that by (simp add: laid_out_alike_def)
    have frames: "?Q k 0 = model_positions m oi 4444 0"
      using blk(2) iv [OF n0] T [OF n0] by (simp add: frame_placed_def)
    have sizes: "snd (view_interval ?vs oi i) - fst (view_interval ?vs oi i) =
        snd (view_interval (app_views b) oi i) - fst (view_interval (app_views b) oi i)"
      if i: "0 < i" "i < n" and fixed: "attr_view_size (selection m oi ?offers i) = FIXED" for i
    proof -
      let ?a = "selection m oi ?offers i"
      have sel: "?a \<in> set (?offers i)" "bool_interp m (attr_name oi ?a)"
        using selection_in(1,2) [OF ref model(2) i(1)] i(2) z(1) by simp_all
      have "size_kept ?vs oi (?Q k) ?a" using target [OF k] sel i unfolding gen_clauses_def gen_clause_def by blast
      with T [OF i(2)] offers [OF i sel(1)] fixed show ?thesis by (simp add: size_kept_def attribute_ok_def Let_def)
    qed
    have "?Q k i = model_positions m oi 4444 i" if "i < n" for i
      using layout_unique [OF c z(1) ref model(2) conjunct2 [OF target [OF k]] blk(1) frames sizes] that by blast
    with T iv lz blk(3) show False by (auto simp: displaced_def)
  qed
  ultimately show ?thesis using views unfolding oracle_answer_def by blast
qed

section \<open>Candidates for both orientations\<close>

lemma constrained_intervals:
  assumes "constrained ws vs' K Q oi" "length ws = length vs" "\<And>i. i < length vs \<Longrightarrow> view_interval ws oi i = view_interval vs oi i"
  shows "constrained vs vs' K Q oi"
proof -
  have "holds_on vs K Q oi a" if "holds_on ws K Q oi a" "attribute_ok (length vs) i oi a" "i < length vs" for a i
    using that(1) holds_on_cong [OF that(2,3) assms(2,3), where K = K and Q = Q and Q' = Q] by simp
  with assms show ?thesis unfolding constrained_def by (metis (no_types, lifting))
qed

lemma blank_app_copy:
  assumes "blank_app app"
  shows "\<exists>c. App_copy app = Some c \<and> length (app_views c) = length (app_views app) \<and>
    map view_id (app_views c) = map view_id (app_views app) \<and>
    (\<forall>i < length (app_views app). view_pos (app_views c ! i) = int i \<and> (\<forall>oi. view_attributes (app_views c ! i) oi = None) \<and>
       (\<forall>oi. view_interval (app_views c) oi i = view_interval (app_views app) oi i))"
proof -
  have attrs: "view_attributes (app_views app ! i) oi = None" if "i < length (app_views app)" for i oi
    using assms that by (cases oi) (simp_all add: blank_app_def synth_ready_def)
  then have "app_wf app" using assms by (simp add: app_wf_def blank_app_def synth_ready_def)
  then obtain c where c: "App_copy app = Some c" "length (app_views c) = length (app_views app)"
    and nth: "\<And>i. i < length (app_views app) \<Longrightarrow> app_views c ! i =
      add_attributes ((View_fresh (app_views app ! i))\<lparr>view_pos := int i\<rparr>) (app_views app ! i)"
    using App_copy_result by blast
  have at: "view_id (app_views c ! i) = view_id (app_views app ! i)" "view_pos (app_views c ! i) = int i"
    "view_attributes (app_views c ! i) oi = None" "view_interval (app_views c) oi i = view_interval (app_views app) oi i"
    if "i < length (app_views app)" for i oi
    using that attrs by (simp_all add: nth view_interval_def)
  have "map view_id (app_views c) = map view_id (app_views app)" by (rule nth_equalityI) (simp_all add: c(2) at)
  with c at show ?thesis by auto
qed

lemma ConvertViews_same:
  assumes "length ws = length vs" "\<And>i. i < length vs \<Longrightarrow> view_pos (ws ! i) = view_pos (vs ! i)"
    and "\<And>i. i < length vs \<Longrightarrow> view_interval ws oi i = view_interval vs oi i"
  shows "ConvertViews ws oi d = ConvertViews vs oi d"
  unfolding ConvertViews_def
proof (rule map_opt_pointwise [OF assms(1)])
  fix i assume "i < length ws"
  then show "do { CHECK (0 \<le> view_pos (ws ! i));
             if oi = HORIZONTAL then Z3View (view_pos (ws ! i)) oi d (xleft (ws ! i)) (xright (ws ! i))
             else Z3View (view_pos (ws ! i)) oi d (ytop (ws ! i)) (ybottom (ws ! i)) } =
          do { CHECK (0 \<le> view_pos (vs ! i));
             if oi = HORIZONTAL then Z3View (view_pos (vs ! i)) oi d (xleft (vs ! i)) (xright (vs ! i))
             else Z3View (view_pos (vs ! i)) oi d (ytop (vs ! i)) (ybottom (vs ! i)) }"
    using assms(2,3) [of i] assms(1) by (cases oi) (simp_all add: view_interval_def)
qed

text \<open>
  One round: a candidate with constraints in its orientation only, and the layouts of the devices,
  none of which is that of a blocked app with the same frame.
\<close>

definition round_ok :: "app \<Rightarrow> orientation \<Rightarrow> app list \<Rightarrow> app list \<Rightarrow> app \<times> app list \<Rightarrow> bool" where
  "round_ok app oi targets blocked r \<longleftrightarrow>
     app_wf (fst r) \<and> map view_id (app_views (fst r)) = map view_id (app_views app) \<and>
     constrained (app_views app) (app_views (fst r)) (length targets) (\<lambda>k. view_interval (app_views (snd r ! k)) oi) oi \<and>
     (\<forall>i < length (app_views app). \<forall>oj. oj \<noteq> oi \<longrightarrow> view_attributes (app_views (fst r) ! i) oj = None \<and>
        view_interval (app_views (fst r)) oj i = view_interval (app_views app) oj i) \<and>
     length (snd r) = length targets \<and>
     (\<forall>k < length targets. app_wf (snd r ! k) \<and> map view_id (app_views (snd r ! k)) = map view_id (app_views app) \<and>
        same_frame oi (snd r ! k) (targets ! k)) \<and>
     (\<forall>b \<in> set blocked. \<forall>k < length targets. same_frame oi (targets ! k) b \<longrightarrow> \<not> laid_out_alike oi (snd r ! k) b)"

lemma wf_parts:
  assumes "length vs = n" "map view_id vs = ids" "distinct ids" "\<And>i. i < n \<Longrightarrow> view_pos (vs ! i) = int i"
    and "\<And>i oj a. i < n \<Longrightarrow> view_attributes (vs ! i) oj = Some a \<Longrightarrow> attribute_ok n i oj a" "app_views a = vs"
  shows "app_wf a"
  using assms by (auto simp: app_wf_def)

lemma oracle_candidate_round:
  assumes env: "sound_env env" and app: "blank_app app" "length (app_views app) = n" "n \<le> 1000"
    and sc: "scorer_fits n oi sc app" and devs: "devices_ok n device_apps" "devices_ok n blocked"
    and targets: "resize_devices app d0 ds = Some targets"
    and result: "oracle_candidate env opt sc oi app device_apps d0 ds blocked = Some (SUCCESS, r)"
  shows "round_ok app oi targets blocked r"
proof -
  let ?vs = "app_views app"
  have blank: "distinct (map view_id ?vs)" using app(1) by (simp add: blank_app_def synth_ready_def)
  obtain c where c: "App_copy app = Some c" "length (app_views c) = n" "map view_id (app_views c) = map view_id ?vs"
    "\<And>i. i < n \<Longrightarrow> view_pos (app_views c ! i) = int i" "\<And>i oj. i < n \<Longrightarrow> view_attributes (app_views c ! i) oj = None"
    "\<And>i oj. i < n \<Longrightarrow> view_interval (app_views c) oj i = view_interval ?vs oj i"
    using blank_app_copy [OF app(1)] app(2) by auto
  have vs: "views_ok n ?vs" using app(1,2) by (simp add: views_ok_def blank_app_def synth_ready_def)
  have vc: "views_ok n (app_views c)" using c(2,4) by (simp add: views_ok_def)
  note t = resize_devices_result [OF targets vs app(1)]
  have fresh: "map view_id (app_views (targets ! k)) = map view_id ?vs \<and>
      (\<forall>i < n. \<forall>oj. view_attributes (app_views (targets ! k) ! i) oj = None)" if "k < length targets" for k
  proof -
    have res: "ResizeApp app d0 (ds ! k) = Some (targets ! k)"
      using map_opt_nth [OF targets [unfolded resize_devices_def], of k] t(1) that by simp
    have "length (app_views (targets ! k)) = n" using t(2) that by (simp add: devices_ok_def views_ok_def)
    with ResizeApp_fresh [OF res] show ?thesis by simp
  qed
  obtain M where run: "SynthesizeDeviceProbOracle env opt sc c oi device_apps targets blocked = Some ((SUCCESS, M), fst r, snd r)"
    using result by (auto simp: oracle_candidate_def targets c(1) bind_Some_iff)
  have same: "ConvertViews (app_views c) oi d = ConvertViews ?vs oi d" for d
    by (rule ConvertViews_same) (use c vs app(2) in \<open>simp_all add: views_ok_def\<close>)
  have scc: "scorer_fits n oi sc c" using sc by (simp add: scorer_fits_def start_candidates_def same)
  have "oracle_input n c device_apps blocked" using vc app(3) devs by (simp add: oracle_input_def)
  from SynthesizeDeviceProbOracle_result [OF env this t(2) scc run] have
    a: "oracle_answer n oi c device_apps blocked targets (fst r) (snd r)" .
  then have views: "same_views (app_views c) (app_views (fst r))"
    and con: "constrained (app_views c) (app_views (fst r)) (length targets) (\<lambda>k. view_interval (app_views (snd r ! k)) oi) oi"
    and moved: "devices_moved oi n (\<lambda>k. view_interval (app_views (snd r ! k)) oi) targets (snd r)"
    by (simp_all add: oracle_answer_def)
  have len: "length (app_views (fst r)) = n" using views c(2) by (simp add: same_views_def)
  have at: "view_id (app_views (fst r) ! i) = view_id (app_views c ! i)" "view_pos (app_views (fst r) ! i) = int i" if "i < n" for i
    using views c(2,4) that by (auto simp: same_views_def)
  have none: "view_attributes (app_views (fst r) ! i) oj = None" if "i < n" "i = 0 \<or> oj \<noteq> oi" for i oj
  proof -
    have kept: "\<forall>i < n. \<forall>oj. i = 0 \<or> oj \<noteq> oi \<longrightarrow>
        (view_attributes (app_views (fst r) ! i) oj = None) = (view_attributes (app_views c ! i) oj = None)"
      using a unfolding oracle_answer_def by (rule conjunct1 [OF conjunct2])
    show ?thesis using kept [rule_format, OF that] c(5) [OF that(1), of oj] by simp
  qed
  have ids: "map view_id (app_views (fst r)) = map view_id ?vs"
    using c(3) by (metis (no_types, lifting) at(1) c(2) len length_map nth_equalityI nth_map)
  have "app_wf (fst r)"
  proof (rule wf_parts [OF len ids blank at(2) _ refl])
    fix i oj b assume i: "i < n" and b: "view_attributes (app_views (fst r) ! i) oj = Some b"
    with none [OF i, of oj] have "\<not> (i = 0 \<or> oj \<noteq> oi)" by (metis option.distinct(1))
    then have oj: "0 < i" "oj = oi" by simp_all
    then show "attribute_ok n i oj b" using con i b c(2) by (auto simp: constrained_def)
  qed
  moreover have "constrained ?vs (app_views (fst r)) (length targets) (\<lambda>k. view_interval (app_views (snd r ! k)) oi) oi"
    by (rule constrained_intervals [OF con]) (use c(2,6) app(2) in simp_all)
  moreover have "view_interval (app_views (fst r)) oj i = view_interval ?vs oj i" if "i < n" for i oj
    using same_views_interval [OF views, of i oj] c(2,6) that by simp
  moreover have "length (snd r) = length targets" using moved by (simp add: devices_moved_def)
  moreover have "app_wf (snd r ! k) \<and> map view_id (app_views (snd r ! k)) = map view_id ?vs \<and> same_frame oi (snd r ! k) (targets ! k)"
    if k: "k < length targets" for k
  proof -
    have kept: "map view_id (app_views (snd r ! k)) = map view_id ?vs"
      "map view_attributes (app_views (snd r ! k)) = map view_attributes (app_views (targets ! k))" "same_frame oi (snd r ! k) (targets ! k)"
      using a k fresh [OF k] unfolding oracle_answer_def by simp_all
    have ok: "length (app_views (snd r ! k)) = n" "length (app_views (targets ! k)) = n" "\<And>i. i < n \<Longrightarrow> view_pos (app_views (snd r ! k) ! i) = int i"
      using moved t(2) k by (simp_all add: devices_moved_def devices_ok_def views_ok_def)
    have "view_attributes (app_views (snd r ! k) ! i) oj = None" if "i < n" for i oj
      using arg_cong [OF kept(2), of "\<lambda>xs. (xs ! i) oj"] fresh [OF k] ok(1,2) that by simp
    then have "app_wf (snd r ! k)" by (intro wf_parts [OF ok(1) kept(1) blank ok(3) _ refl]) simp_all
    with kept show ?thesis by simp
  qed
  moreover have "\<forall>b \<in> set blocked. \<forall>k < length targets. same_frame oi (targets ! k) b \<longrightarrow> \<not> laid_out_alike oi (snd r ! k) b"
    using a unfolding oracle_answer_def by blast
  ultimately show ?thesis unfolding round_ok_def using ids none app(2) by blast
qed

text \<open>
  The rounds of one orientation, with an invariant \<open>B\<close> of the blocked layouts: each result is that
  of a round that blocks the layouts of the first device in all results before.
\<close>

lemma candidate_rounds_result:
  assumes "candidate_rounds f k blocked = Some (st, rs)" "B blocked"
    and "\<And>bl r. B bl \<Longrightarrow> f bl = Some (SUCCESS, r) \<Longrightarrow> P bl r \<and> (snd r \<noteq> [] \<longrightarrow> B (bl @ [snd r ! 0]))"
  shows "\<forall>i < length rs. snd (rs ! i) \<noteq> [] \<and> P (blocked @ map (\<lambda>r. snd r ! 0) (take i rs)) (rs ! i)"
  using assms(1,2)
proof (induction k arbitrary: blocked st rs)
  case (Suc k)
  obtain s r where r: "f blocked = Some (s, r)" using Suc.prems(1) by (auto simp: bind_Some_iff)
  show ?case
  proof (cases "s = SUCCESS")
    case False
    with Suc.prems(1) r show ?thesis by simp
  next
    case True
    then obtain d ss where d: "vec_at (snd r) 0 = Some d" "candidate_rounds f k (blocked @ [d]) = Some ss" "rs = r # snd ss"
      using Suc.prems(1) r by (auto simp: bind_Some_iff)
    have ne: "snd r \<noteq> []" "d = snd r ! 0" using d(1) by (auto simp: vec_at_Some)
    have P: "P blocked r" "B (blocked @ [d])" using assms(3) [OF Suc.prems(2)] r True ne by auto
    have IH: "\<forall>i < length (snd ss). snd (snd ss ! i) \<noteq> [] \<and> P ((blocked @ [d]) @ map (\<lambda>r. snd r ! 0) (take i (snd ss))) (snd ss ! i)"
      using Suc.IH [of "blocked @ [d]" "fst ss" "snd ss"] d(2) P(2) by simp
    show ?thesis
    proof (intro allI impI)
      fix i assume "i < length rs"
      then show "snd (rs ! i) \<noteq> [] \<and> P (blocked @ map (\<lambda>r. snd r ! 0) (take i rs)) (rs ! i)"
        using P(1) IH ne d(3) by (cases i) simp_all
    qed
  qed
qed simp

lemma oracle_rounds:
  assumes env: "sound_env env" and app: "blank_app app" "length (app_views app) = n" "n \<le> 1000"
    and sc: "scorer_fits n oi sc app" and devs: "devices_ok n device_apps"
    and targets: "resize_devices app d0 ds = Some targets"
    and rounds: "candidate_rounds (oracle_candidate env opt sc oi app device_apps d0 ds) k [] = Some (st, rs)"
  shows "\<forall>i < length rs. snd (rs ! i) \<noteq> [] \<and> round_ok app oi targets (map (\<lambda>r. snd r ! 0) (take i rs)) (rs ! i)"
proof -
  let ?B = "\<lambda>bl. devices_ok n bl"
  have wf: "views_ok n (app_views a)" if "app_wf a" "map view_id (app_views a) = map view_id (app_views app)" for a
    using that(1) app(2) map_eq_imp_length_eq [OF that(2)] by (simp add: app_wf_def views_ok_def)
  have step: "round_ok app oi targets bl r \<and> (snd r \<noteq> [] \<longrightarrow> ?B (bl @ [snd r ! 0]))"
    if "?B bl" "oracle_candidate env opt sc oi app device_apps d0 ds bl = Some (SUCCESS, r)" for bl r
  proof -
    have ok: "round_ok app oi targets bl r" by (rule oracle_candidate_round [OF env app sc devs that(1) targets that(2)])
    have "views_ok n (app_views (snd r ! 0))" if ne: "snd r \<noteq> []"
    proof -
      have len: "length (snd r) = length targets" using ok unfolding round_ok_def by blast
      then have k: "0 < length targets" using ne by (cases targets) simp_all
      have "app_wf (snd r ! 0) \<and> map view_id (app_views (snd r ! 0)) = map view_id (app_views app)"
        using ok k unfolding round_ok_def by blast
      then show ?thesis by (intro wf) simp_all
    qed
    then show ?thesis using ok \<open>?B bl\<close> by (auto simp: devices_ok_def nth_append less_Suc_eq)
  qed
  have "?B []" by (simp add: devices_ok_def)
  from candidate_rounds_result [where B = ?B and P = "round_ok app oi targets", OF rounds this step] show ?thesis by simp
qed

text \<open>Two rounds of one orientation lay the first device out differently.\<close>

lemma rounds_differ:
  assumes "\<forall>i < length rs. snd (rs ! i) \<noteq> [] \<and> round_ok app oi targets (map (\<lambda>r. snd r ! 0) (take i rs)) (rs ! i)"
    and "i < j" "j < length rs"
  shows "\<not> laid_out_alike oi (snd (rs ! j) ! 0) (snd (rs ! i) ! 0)"
proof -
  let ?b = "snd (rs ! i) ! 0"
  have j: "round_ok app oi targets (map (\<lambda>r. snd r ! 0) (take j rs)) (rs ! j)" and i: "round_ok app oi targets (map (\<lambda>r. snd r ! 0) (take i rs)) (rs ! i)"
    and ne: "snd (rs ! j) \<noteq> []"
    using assms by simp_all
  have k: "0 < length targets" using j ne by (auto simp: round_ok_def)
  have "rs ! i \<in> set (take j rs)" using assms(2,3) by (auto simp: in_set_conv_nth intro!: exI [of _ i])
  then have "?b \<in> set (map (\<lambda>r. snd r ! 0) (take j rs))" by simp
  moreover have "same_frame oi (targets ! 0) ?b" using i k by (simp add: round_ok_def same_frame_def)
  ultimately show ?thesis using j k unfolding round_ok_def by blast
qed

lemma laid_out_alike_sym: "laid_out_alike oi a b \<Longrightarrow> laid_out_alike oi b a"
  by (simp add: laid_out_alike_def)

text \<open>A vertical and a horizontal result, joined.\<close>

definition joined_views :: "app \<Rightarrow> app \<Rightarrow> app \<Rightarrow> bool" where
  "joined_views v h m \<longleftrightarrow> length (app_views m) = length (app_views v) \<and> length (app_views h) = length (app_views v) \<and>
     (\<forall>i < length (app_views v).
        view_interval (app_views m) HORIZONTAL i = view_interval (app_views h) HORIZONTAL i \<and>
        view_interval (app_views m) VERTICAL i = view_interval (app_views v) VERTICAL i \<and>
        view_attributes (app_views m ! i) = view_attributes (app_views h ! i) ++ view_attributes (app_views v ! i))"

definition ids_in_range :: "app \<Rightarrow> bool" where
  "ids_in_range a \<longleftrightarrow> (\<forall>i < length (app_views a). 0 \<le> view_id (app_views a ! i) \<and> view_id (app_views a ! i) < int (length (app_views a)))"

lemma App_merge_views:
  assumes "app_wf v" "app_wf h" "map view_id (app_views v) = map view_id (app_views a)"
    "map view_id (app_views h) = map view_id (app_views a)" "ids_in_range a"
  shows "\<exists>m. App_merge v h = Some m \<and> joined_views v h m"
proof -
  have len: "length (app_views v) = length (app_views a)" "length (app_views h) = length (app_views a)"
    using assms(3,4) map_eq_imp_length_eq by blast+
  have "view_id (app_views v ! i) = view_id (app_views a ! i)" if "i < length (app_views a)" for i
    using arg_cong [OF assms(3), of "\<lambda>xs. xs ! i"] len that by simp
  then have "\<forall>i < length (app_views v). 0 \<le> view_id (app_views v ! i) \<and> view_id (app_views v ! i) < int (length (app_views v))"
    using assms(5) len by (simp add: ids_in_range_def)
  with App_merge_joined [OF assms(1,2)] assms(3,4) len show ?thesis
    by (auto simp: joined_views_def view_interval_def Let_def)
qed

section \<open>The combined candidates\<close>

lemma merge_pair_joined:
  assumes v: "round_ok app VERTICAL targets bl v" and h: "round_ok app HORIZONTAL targets bl' h" and ids: "ids_in_range app"
    and merged: "merge_pair v h = Some r"
  shows "joined_views (fst v) (fst h) (fst r) \<and> length (snd r) = length targets \<and>
    (\<forall>k < length targets. joined_views (snd v ! k) (snd h ! k) (snd r ! k))"
proof -
  have len: "length (snd v) = length targets" "length (snd h) = length targets"
    using v h unfolding round_ok_def by blast+
  obtain ms where a: "App_merge (fst v) (fst h) = Some (fst r)"
    and ms: "map_opt (\<lambda>k. do { x \<leftarrow> vec_at (snd v) k; y \<leftarrow> vec_at (snd h) k; App_merge x y }) [0..<length targets] = Some (snd r)"
    using merged len(1) by (auto simp: merge_pair_def bind_Some_iff)
  have "joined_views (fst v) (fst h) (fst r)"
  proof -
    have wf: "app_wf (fst v)" "app_wf (fst h)" "map view_id (app_views (fst v)) = map view_id (app_views app)"
      "map view_id (app_views (fst h)) = map view_id (app_views app)"
      using v h unfolding round_ok_def by blast+
    show ?thesis using App_merge_views [OF wf ids] a by auto
  qed
  moreover have "length (snd r) = length targets" using map_opt_length [OF ms] by simp
  moreover have "joined_views (snd v ! k) (snd h ! k) (snd r ! k)" if k: "k < length targets" for k
  proof -
    have wf: "app_wf (snd v ! k)" "app_wf (snd h ! k)" "map view_id (app_views (snd v ! k)) = map view_id (app_views app)"
      "map view_id (app_views (snd h ! k)) = map view_id (app_views app)"
      using v h k unfolding round_ok_def by blast+
    have "App_merge (snd v ! k) (snd h ! k) = Some (snd r ! k)"
      using map_opt_nth [OF ms, of k] k len by (simp add: vec_at_def)
    then show ?thesis using App_merge_views [OF wf ids] by auto
  qed
  ultimately show ?thesis by blast
qed

lemma joined_interval:
  assumes "joined_views v h m" "i < length (app_views v)"
  shows "view_interval (app_views m) oi i = view_interval (app_views (if oi = HORIZONTAL then h else v)) oi i"
  using assms by (cases oi) (simp_all add: joined_views_def)

text \<open>The joined candidate keeps the constraints that its parts have in their orientations.\<close>

lemma merged_constrained:
  assumes v: "round_ok app VERTICAL targets bl v" and h: "round_ok app HORIZONTAL targets bl' h" and ids: "ids_in_range app"
    and merged: "merge_pair v h = Some r"
  shows "constrained (app_views app) (app_views (fst r)) (length targets) (\<lambda>k. view_interval (app_views (snd r ! k)) oi) oi"
proof -
  let ?n = "length (app_views app)" and ?p = "if oi = HORIZONTAL then h else v"
  have joined: "joined_views (fst v) (fst h) (fst r)" "\<And>k. k < length targets \<Longrightarrow> joined_views (snd v ! k) (snd h ! k) (snd r ! k)"
    using merge_pair_joined [OF assms] by blast+
  have ids_of: "map view_id (app_views (fst v)) = map view_id (app_views app)"
    "\<And>k. k < length targets \<Longrightarrow> map view_id (app_views (snd v ! k)) = map view_id (app_views app)"
    using v unfolding round_ok_def by blast+
  have len: "length (app_views (fst v)) = ?n" "\<And>k. k < length targets \<Longrightarrow> length (app_views (snd v ! k)) = ?n"
    using map_eq_imp_length_eq [OF ids_of(1)] map_eq_imp_length_eq [OF ids_of(2)] by simp_all
  have none: "view_attributes (app_views (fst v) ! i) HORIZONTAL = None \<and> view_attributes (app_views (fst h) ! i) VERTICAL = None"
    if "i < ?n" for i
  proof -
    have "view_attributes (app_views (fst v) ! i) HORIZONTAL = None" using v that unfolding round_ok_def by blast
    moreover have "view_attributes (app_views (fst h) ! i) VERTICAL = None" using h that unfolding round_ok_def by blast
    ultimately show ?thesis by blast
  qed
  have at: "view_attributes (app_views (fst r) ! i) oi = view_attributes (app_views (fst ?p) ! i) oi" if "i < ?n" for i
    using joined(1) none [OF that] that len(1) by (cases oi) (auto simp: joined_views_def map_add_def split: option.splits)
  have lens: "length (app_views (fst r)) = length (app_views (fst ?p))" "length (app_views (fst ?p)) = ?n"
    using joined(1) len(1) by (simp_all add: joined_views_def)
  have iv: "view_interval (app_views (fst r)) oi i = view_interval (app_views (fst ?p)) oi i" if "i < ?n" for i
    using joined_interval [OF joined(1), of i oi] len(1) that by (cases oi) simp_all
  have lay: "view_interval (app_views (snd r ! k)) oi i = view_interval (app_views (snd ?p ! k)) oi i"
    if "k < length targets" "i < ?n" for k i
    using joined_interval [OF joined(2) [OF that(1)], of i oi] len(2) [OF that(1)] that(2) by (cases oi) simp_all
  have "constrained (app_views app) (app_views (fst ?p)) (length targets) (\<lambda>k. view_interval (app_views (snd ?p ! k)) oi) oi"
    using v h by (cases oi) (auto simp: round_ok_def)
  then have "constrained (app_views app) (app_views (fst ?p)) (length targets) (\<lambda>k. view_interval (app_views (snd r ! k)) oi) oi"
    by (rule constrained_layouts) (rule lay)
  then show ?thesis
    by (rule constrained_same [OF _ same_views_refl]) (use at iv lens in simp_all)
qed

lemma AppMatch_alike: "AppMatch a b \<Longrightarrow> laid_out_alike oi a b"
  by (auto simp: AppMatch_def laid_out_alike_def list_all_length ViewMatch_def view_interval_def)

lemma joined_not_alike:
  assumes "joined_views v h m" "joined_views v' h' m'"
    and "\<not> laid_out_alike VERTICAL v v' \<or> \<not> laid_out_alike HORIZONTAL h h'"
  shows "\<not> AppMatch m m'"
proof
  assume match: "AppMatch m m'"
  have "laid_out_alike VERTICAL v v'"
    using AppMatch_alike [OF match, of VERTICAL] assms(1,2) joined_interval [OF assms(1), of _ VERTICAL]
      joined_interval [OF assms(2), of _ VERTICAL] by (simp add: laid_out_alike_def joined_views_def)
  moreover have "laid_out_alike HORIZONTAL h h'"
    using AppMatch_alike [OF match, of HORIZONTAL] assms(1,2) joined_interval [OF assms(1), of _ HORIZONTAL]
      joined_interval [OF assms(2), of _ HORIZONTAL] by (simp add: laid_out_alike_def joined_views_def)
  ultimately show False using assms(3) by blast
qed

lemma product_index:
  assumes "i < length xs * length ys"
  shows "List.product xs ys ! i = (xs ! (i div length ys), ys ! (i mod length ys))"
    "i div length ys < length xs" "i mod length ys < length ys"
proof -
  show "List.product xs ys ! i = (xs ! (i div length ys), ys ! (i mod length ys))" using product_nth [OF assms] .
  have "0 < length ys" using assms by (cases ys) simp_all
  then show "i div length ys < length xs" "i mod length ys < length ys"
    using assms by (simp_all add: less_mult_imp_div_less)
qed

text \<open>Two candidates that come from different rounds of an orientation.\<close>

lemma rounds_alike:
  assumes "\<forall>i < length rs. snd (rs ! i) \<noteq> [] \<and> round_ok app oi targets (map (\<lambda>r. snd r ! 0) (take i rs)) (rs ! i)"
    and "i < length rs" "j < length rs" "laid_out_alike oi (snd (rs ! i) ! 0) (snd (rs ! j) ! 0)"
  shows "i = j"
proof (rule ccontr)
  assume "i \<noteq> j"
  then consider "i < j" | "j < i" by linarith
  then show False
    by cases (use rounds_differ [OF assms(1)] assms(2-4) laid_out_alike_sym in blast)+
qed

lemma pairs_differ:
  assumes vs: "\<forall>i < length vs. snd (vs ! i) \<noteq> [] \<and> round_ok app VERTICAL targets (map (\<lambda>r. snd r ! 0) (take i vs)) (vs ! i)"
    and hs: "\<forall>i < length hs. snd (hs ! i) \<noteq> [] \<and> round_ok app HORIZONTAL targets (map (\<lambda>r. snd r ! 0) (take i hs)) (hs ! i)"
    and ids: "ids_in_range app" and ms: "map_opt (\<lambda>(x, y). merge_pair x y) (List.product vs hs) = Some ms"
    and ij: "i < length ms" "j < length ms" "i \<noteq> j"
  shows "\<not> AppMatch (snd (ms ! i) ! 0) (snd (ms ! j) ! 0)"
proof -
  have len: "length ms = length vs * length hs" using map_opt_length [OF ms] by simp
  let ?v = "\<lambda>i. vs ! (i div length hs)" and ?h = "\<lambda>i. hs ! (i mod length hs)"
  have joined: "joined_views (snd (?v i) ! 0) (snd (?h i) ! 0) (snd (ms ! i) ! 0)" if i: "i < length ms" for i
  proof -
    note p = product_index [OF i [unfolded len]]
    have "merge_pair (?v i) (?h i) = Some (ms ! i)" using map_opt_nth [OF ms, of i] i len p(1) by simp
    moreover have r: "round_ok app VERTICAL targets (map (\<lambda>r. snd r ! 0) (take (i div length hs) vs)) (?v i)"
      "round_ok app HORIZONTAL targets (map (\<lambda>r. snd r ! 0) (take (i mod length hs) hs)) (?h i)" "snd (?v i) \<noteq> []"
      using vs hs p(2,3) by blast+
    moreover have "0 < length targets"
    proof -
      have "length (snd (?v i)) = length targets" using r(1) unfolding round_ok_def by blast
      then show ?thesis using r(3) by (cases targets) simp_all
    qed
    ultimately show ?thesis using merge_pair_joined [OF _ _ ids] by blast
  qed
  note pi = product_index [OF ij(1) [unfolded len]] and pj = product_index [OF ij(2) [unfolded len]]
  have "i div length hs \<noteq> j div length hs \<or> i mod length hs \<noteq> j mod length hs"
    using ij(3) by (metis div_mult_mod_eq)
  then have "\<not> laid_out_alike VERTICAL (snd (?v i) ! 0) (snd (?v j) ! 0) \<or> \<not> laid_out_alike HORIZONTAL (snd (?h i) ! 0) (snd (?h j) ! 0)"
    using rounds_alike [OF vs pi(2) pj(2)] rounds_alike [OF hs pi(3) pj(3)] by blast
  then show ?thesis by (rule joined_not_alike [OF joined [OF ij(1)] joined [OF ij(2)]])
qed

lemma no_targets_no_rounds:
  assumes "resize_devices app d0 ds = None"
    and "candidate_rounds (oracle_candidate env opt sc oi app device_apps d0 ds) k [] = Some (st, rs)"
  shows "rs = []"
  using assms by (cases k) (simp_all add: oracle_candidate_def)

lemma computeCandidates_result:
  assumes env: "sound_env env" and app: "blank_app app" "length (app_views app) \<le> 1000" "ids_in_range app"
    and sc: "\<And>oi. scorer_fits (length (app_views app)) oi (scs oi) app" and devs: "devices_ok (length (app_views app)) device_apps"
    and result: "computeCandidates env opt scs number app device_apps d0 ds ([], []) = Some (SUCCESS, cands, resized)"
  shows "length resized = length cands \<and>
    (\<forall>i < length cands. length (resized ! i) = length ds \<and>
       constrained (app_views app) (app_views (cands ! i)) (length ds) (\<lambda>k. view_interval (app_views (resized ! i ! k)) oi) oi) \<and>
    (\<forall>i < length cands. \<forall>j < length cands. i \<noteq> j \<longrightarrow> \<not> AppMatch (resized ! i ! 0) (resized ! j ! 0))"
proof -
  let ?n = "length (app_views app)"
  let ?f = "\<lambda>oi. oracle_candidate env opt (scs oi) oi app device_apps d0 ds"
  obtain stv vs where v: "candidate_rounds (?f VERTICAL) (nat number) [] = Some (stv, vs)"
    using result by (auto simp: computeCandidates_def bind_Some_iff)
  show ?thesis
  proof (cases "stv \<noteq> SUCCESS \<and> vs = []")
    case True
    with result v show ?thesis by (simp add: computeCandidates_def)
  next
    case more: False
    obtain sth hs where h: "candidate_rounds (?f HORIZONTAL) (nat number) [] = Some (sth, hs)"
      using result v more by (auto simp: computeCandidates_def bind_Some_iff)
    show ?thesis
    proof (cases "sth \<noteq> SUCCESS \<and> hs = []")
      case True
      with result v h more show ?thesis by (auto simp: computeCandidates_def split: if_splits)
    next
      case more_h: False
      let ?ps = "List.product vs hs"
      obtain ms where ms: "map_opt (\<lambda>(x, y). merge_pair x y) ?ps = Some ms"
        and cands: "cands = map fst ms" and resized: "resized = map snd ms"
        using result v h more more_h by (auto simp: computeCandidates_def Let_def bind_Some_iff split: if_splits)
      have len: "length ms = length vs * length hs" using map_opt_length [OF ms] by simp
      show ?thesis
      proof (cases "resize_devices app d0 ds")
        case None
        then have "vs = []" by (rule no_targets_no_rounds) (rule v)
        with len cands resized show ?thesis by simp
      next
        case (Some targets)
        note vr = oracle_rounds [OF env app(1) refl app(2) sc devs Some v] and hr = oracle_rounds [OF env app(1) refl app(2) sc devs Some h]
        have K: "length targets = length ds"
          by (rule resize_devices_result(1) [OF Some blank_app_views_ok [OF app(1)] app(1)])
        have one: "length (snd (ms ! i)) = length ds \<and> constrained (app_views app) (app_views (fst (ms ! i))) (length ds)
            (\<lambda>k. view_interval (app_views (snd (ms ! i) ! k)) oi) oi" if i: "i < length ms" for i
        proof -
          note p = product_index [OF i [unfolded len]]
          have m: "merge_pair (vs ! (i div length hs)) (hs ! (i mod length hs)) = Some (ms ! i)"
            using map_opt_nth [OF ms, of i] i len p(1) by simp
          note r = conjunct2 [OF vr [rule_format, OF p(2)]] conjunct2 [OF hr [rule_format, OF p(3)]]
          show ?thesis
            using merge_pair_joined [OF r app(3) m] merged_constrained [OF r app(3) m, of oi] K by simp
        qed
        then show ?thesis using pairs_differ [OF vr hr app(3) ms] cands resized by simp
      qed
    qed
  qed
qed

end
