(* ===== verification/Candidate_Search.thy ===== *)
theory Candidate_Search
  imports Oracle_Properties
begin

text \<open>
  The synthesis with an oracle succeeds with a solver that answers from a set of models, as the one of
  the sample search does, and the candidates found for the two orientations can always be joined.
\<close>

section \<open>A solver that knows some models\<close>

definition tries :: "smt_env \<Rightarrow> z3_model set \<Rightarrow> bool" where
  "tries env ms \<longleftrightarrow>
     (\<forall>s t. (\<exists>m \<in> ms. satisfies m (s @ t)) \<longrightarrow> (\<exists>m \<in> ms. env_check env s t = Sat m)) \<and>
     (\<forall>s cost. (\<exists>m \<in> ms. satisfies m s) \<longrightarrow> (\<exists>m \<in> ms. env_optimize env s cost = Sat m))"

text \<open>A model of the query for given screens, in terms of the positions in the apps.\<close>

definition oracle_fits ::
    "nat \<Rightarrow> bool \<Rightarrow> orientation \<Rightarrow> app \<Rightarrow> app list \<Rightarrow> app list \<Rightarrow> app list \<Rightarrow> z3_view list \<Rightarrow> (nat \<Rightarrow> attribute list) \<Rightarrow>
      z3_model \<Rightarrow> bool" where
  "oracle_fits n opt oi app known blocked targets zs offers m \<longleftrightarrow>
     reference_model opt oi zs offers m \<and>
     (\<forall>k < length known. knows_views (known ! k) oi \<longrightarrow>
        agrees_with (known ! k) oi (model_positions m oi (int k + 1)) \<and> gen_clauses (app_views app) oi n (int k + 1) offers m) \<and>
     (\<forall>b \<in> set blocked. gen_clauses (app_views b) oi n 4444 offers m \<and> bool_interp m ''x_empty_expr'' \<and>
        model_positions m oi 4444 0 = view_interval (app_views b) oi 0 \<and>
        (\<exists>i. 0 < i \<and> i < n \<and> model_positions m oi 4444 i \<noteq> view_interval (app_views b) oi i)) \<and>
     (\<forall>k < length targets. gen_clauses (app_views app) oi n (404 + int k) offers m \<and>
        model_positions m oi (404 + int k) 0 = view_interval (app_views (targets ! k)) oi 0)"

lemma oracle_fits_cong:
  assumes "\<And>i. 0 < i \<Longrightarrow> i < n \<Longrightarrow> offers i = offers' i" "length zs = n"
  shows "oracle_fits n opt oi app known blocked targets zs offers m = oracle_fits n opt oi app known blocked targets zs offers' m"
  unfolding oracle_fits_def gen_clauses_def reference_model_def using assms by (simp cong: conj_cong)

lemma oracle_fits_plain:
  "oracle_fits n opt oi app known blocked targets zs offers m \<Longrightarrow> oracle_fits n False oi app known blocked [] zs offers m"
  by (simp add: oracle_fits_def reference_model_def syn_clause_def)

lemma oracle_fits_model:
  assumes fits: "oracle_fits n opt oi app known blocked targets zs offers m"
    and scr: "oracle_screens_of known blocked targets oi n zds screens"
    and n: "0 < n" "devices_ok n known" "devices_ok n blocked"
  shows "oracle_model opt (app_views app) oi (oracle_number (length known) (length blocked)) screens zs offers m"
proof -
  let ?K = "length known" and ?B = "length blocked"
  have total: "length screens = ?K + ?B + length targets"
    and ok_at: "\<And>k. k < length screens \<Longrightarrow> screen_ok oi (oracle_number ?K ?B k) n (screens ! k)"
    and at: "\<And>k i. k < length screens \<Longrightarrow> i < n \<Longrightarrow>
       (zv_start (zds k ! i), zv_end (zds k ! i)) = view_interval (app_views ((known @ blocked @ targets) ! k)) oi i"
    using scr unfolding oracle_screens_of_def by blast+
  have "screen_model (app_views app) oi (oracle_number ?K ?B k) offers m (screens ! k)" if k: "k < length screens" for k
  proof -
    consider "k < ?K" | j where "k = ?K + j" "j < ?B" | j where "k = ?K + ?B + j" "j < length targets"
      using k total by (metis add_diff_inverse_nat nat_add_left_cancel_less)
    then show ?thesis
    proof cases
      case 1
      let ?a = "known ! k"
      have s: "screens ! k = Known (zds k)" "oracle_number ?K ?B k = int k + 1"
        using scr 1 by (simp_all add: oracle_screens_of_def oracle_number_def)
      have la: "length (app_views ?a) = n" "length (zds k) = n" "made_views oi (int k + 1) (zds k)"
        using n(2) 1 ok_at [OF k] by (simp_all add: devices_ok_def views_ok_def s screen_ok_def)
      have iv: "(zv_start (zds k ! j), zv_end (zds k ! j)) = view_interval (app_views ?a) oi j" if "j < n" for j
        using at [OF k that] 1 by (simp add: nth_append)
      have fixed: "zv_HasFixedPosition (zds k ! j) \<longleftrightarrow> known_interval (view_interval (app_views ?a) oi j)" if "j < n" for j
        using iv [OF that] by (metis fst_conv snd_conv known_interval_def zv_HasFixedPosition_def)
      have "knows_views ?a oi" if has: "HasFixedView (zds k)"
      proof -
        obtain j where j: "j < n" "zv_pos (zds k ! j) \<noteq> 0" "zv_HasFixedPosition (zds k ! j)"
          using has la(2) by (auto simp: HasFixedView_def list_ex_length)
        have "zv_pos (zds k ! j) = int j" using la(2,3) j(1) made_view_pos by (auto simp: made_views_def)
        then have "0 < j" using j(2) by simp
        then show ?thesis using j(1,3) fixed la(1) unfolding knows_views_def by blast
      qed
      then have "device_model (app_views app) oi (int k + 1) (zds k) offers m" if "HasFixedView (zds k)"
        using fits that 1 la(1,2) iv fixed by (auto simp: oracle_fits_def device_model_def agrees_with_def gen_clauses_def)
      then show ?thesis by (simp add: s)
    next
      case (2 j)
      have s: "screens ! k = Blocked (blocked ! j) (zds k)" "oracle_number ?K ?B k = 4444"
        using scr 2 by (simp_all add: oracle_screens_of_def oracle_number_def)
      have lz: "length (zds k) = n" using ok_at [OF k] by (simp add: s screen_ok_def)
      have iv: "(zv_start (zds k ! i), zv_end (zds k ! i)) = view_interval (app_views (blocked ! j)) oi i" if "i < n" for i
        using at [OF k that] 2 by (simp add: nth_append)
      have "blocked ! j \<in> set blocked" using 2(2) by simp
      with fits have "gen_clauses (app_views (blocked ! j)) oi n 4444 offers m" "bool_interp m ''x_empty_expr''"
        "model_positions m oi 4444 0 = view_interval (app_views (blocked ! j)) oi 0"
        "\<exists>i. 0 < i \<and> i < n \<and> model_positions m oi 4444 i \<noteq> view_interval (app_views (blocked ! j)) oi i"
        unfolding oracle_fits_def by blast+
      then show ?thesis using iv n(1) by (auto simp: s lz frame_placed_def displaced_def)
    next
      case (3 j)
      have s: "screens ! k = Target (zds k)" "oracle_number ?K ?B k = 404 + int j"
        using scr 3 by (simp_all add: oracle_screens_of_def oracle_number_def)
      have lz: "length (zds k) = n" using ok_at [OF k] by (simp add: s screen_ok_def)
      have "(zv_start (zds k ! 0), zv_end (zds k ! 0)) = view_interval (app_views (targets ! j)) oi 0"
        using at [OF k n(1)] 3 by (simp add: nth_append)
      then show ?thesis using fits 3(2) by (simp add: s lz frame_placed_def oracle_fits_def)
    qed
  qed
  then show ?thesis using fits by (simp add: oracle_model_def oracle_fits_def)
qed

section \<open>Storing the constraints with their scores\<close>

lemma rank_loop_total:
  assumes "\<And>a. a \<in> set as \<Longrightarrow> tgt_primary a < length vs \<and> (\<forall>j. tgt_secondary a = Some j \<longrightarrow> j < length vs)"
  shows "\<exists>r. rank_loop vs as rank t sz p q mr = Some r"
  using assms
proof (induction as arbitrary: rank)
  case (Cons a as)
  have "\<exists>r. rank_loop vs as k t sz p q mr = Some r" for k
    by (intro Cons.IH Cons.prems) simp
  moreover have "tgt_primary a < length vs" "\<And>j. tgt_secondary a = Some j \<Longrightarrow> j < length vs" using Cons.prems [of a] by simp_all
  ultimately show ?case by (cases "tgt_secondary a") (auto simp del: rank_loop.simps(1) simp: bind_Some_iff)
qed simp

lemma scorer_GetRank_total:
  assumes "scorer_ok sc n oi" "attribute_ok n i oi a" "0 < i" "i < n" "n \<le> 1000"
  shows "\<exists>r. scorer_GetRank sc (attr_name oi a) mr = Some r"
proof -
  have d: "ConstraintData (attr_name oi a) = Some (attr_data oi a)" by (rule attr_name_Some(2) [OF assms(2,4,5)])
  have src: "cd_src (attr_data oi a) = int i" using assms(2) by (simp add: attr_data_def attribute_ok_def)
  have vs: "length (as_views sc) = n" using assms(1) by (simp add: scorer_ok_def)
  have "tgt_primary b < length (as_views sc) \<and> (\<forall>j. tgt_secondary b = Some j \<longrightarrow> j < length (as_views sc))"
    if "b \<in> set (cands_at sc i)" for b
    using scorer_cands(2) [OF assms(1,3,4) that] vs by (auto simp: attribute_ok_def)
  then show ?thesis
    using rank_loop_total [of "cands_at sc i" "as_views sc"] by (simp add: scorer_GetRank_def d src GetRank_def scorer_cands(1) [OF assms(1,3,4)])
qed

lemma AssignModel_scored:
  assumes "AssignModel dec m oi None vs z = Some r" "selected_constraint m z = Some name" "scorer_GetRank sc name (- 1) = Some p"
  shows "\<exists>r. AssignModel dec m oi (Some sc) vs z = Some r \<and> length (fst r) = length vs"
proof -
  obtain d ms src prim sec bias a where r: "ConstraintData name = Some d" "GetMargins m z d = Some ms"
    "vec_at_int vs (zv_pos z) = Some src" "vec_at_int vs (cd_primary d) = Some prim"
    "(if IsCenterAnchor (cd_type d) then do { q \<leftarrow> vec_at_int vs (cd_secondary d); Some (Some (nat (cd_secondary d))) } else Some None) = Some sec"
    "GetBias dec m z = Some bias"
    "Attribute_full (cd_type d) (cd_size d) (fst (if IsCenterAnchor (cd_type d) \<and> cd_size d = FIXED then AdjustMargins ms else ms))
       (snd (if IsCenterAnchor (cd_type d) \<and> cd_size d = FIXED then AdjustMargins ms else ms)) (nat (zv_pos z)) (nat (cd_primary d)) sec bias = Some a"
    using assms(1,2) unfolding AssignModel_def Let_def by (auto simp: bind_Some_iff)
  have "\<exists>r'. AssignModel dec m oi (Some sc) vs z = Some r'"
    unfolding AssignModel_def assms(2) Let_def option.case
    by (simp only: r assms(3) Option.bind.simps(2) option.case option.map) simp
  moreover have "length (fst r') = length vs" if "AssignModel dec m oi (Some sc) vs z = Some r'" for r'
    using that assms(2) unfolding AssignModel_def Let_def by (auto simp: bind_Some_iff split: if_splits)
  ultimately show ?thesis by blast
qed

lemma assign_scored_total:
  assumes "distinct (map zv_pos zs)" "\<forall>z \<in> set zs. M (zv_pos z) = None" "length vs = n"
    and "\<And>z ws. z \<in> set zs \<Longrightarrow> zv_pos z \<noteq> 0 \<Longrightarrow> length ws = n \<Longrightarrow>
      \<exists>r. AssignModel (env_decimal env) m oi (Some sc) ws z = Some r \<and> length (fst r) = n"
  shows "\<exists>st. fold_opt (assign_scored env sc m oi) (vs, M) zs = Some st"
  using assms
proof (induction zs arbitrary: vs M)
  case (Cons z zs)
  show ?case
  proof (cases "zv_pos z = 0")
    case True
    have "\<exists>st. fold_opt (assign_scored env sc m oi) (vs, M) zs = Some st"
      by (rule Cons.IH) (use Cons.prems in simp_all)
    moreover have "assign_scored env sc m oi (vs, M) z = Some (vs, M)" using True by (simp add: assign_scored_def)
    ultimately show ?thesis by simp
  next
    case False
    then obtain r where r: "AssignModel (env_decimal env) m oi (Some sc) vs z = Some r" "length (fst r) = n"
      using Cons.prems(4) [of z vs] Cons.prems(3) by auto
    have "\<exists>st. fold_opt (assign_scored env sc m oi) (fst r, M(zv_pos z \<mapsto> snd r)) zs = Some st"
    proof (rule Cons.IH)
      show "\<forall>y \<in> set zs. (M(zv_pos z \<mapsto> snd r)) (zv_pos y) = None"
      proof
        fix y assume y: "y \<in> set zs"
        then have "zv_pos y \<noteq> zv_pos z" using Cons.prems(1) by (metis distinct.simps(2) imageI list.simps(9) set_map)
        with y Cons.prems(2) show "(M(zv_pos z \<mapsto> snd r)) (zv_pos y) = None" by simp
      qed
    qed (use Cons.prems(1,4) r(2) in simp_all)
    moreover have "assign_scored env sc m oi (vs, M) z = Some (fst r, M(zv_pos z \<mapsto> snd r))"
      using False r(1) Cons.prems(2) by (simp add: assign_scored_def)
    ultimately show ?thesis by simp
  qed
qed simp

text \<open>The constraints that a model of the reference screen selects can be stored, with their scores.\<close>

lemma assign_scored_possible:
  assumes c: "cand_ok c sc n oi" and n: "n \<le> 1000" and ref: "reference_model opt oi zs (offered c sc) m" "assumed oi zs m"
    and zs': "views_extended zs zs' (\<lambda>i. if i = 0 then [] else map (attr_name oi) (offered c sc i))"
    and made: "made_views oi 0 zs" "length zs = n" "\<forall>i < n. zv_constraints (zs ! i) = []"
    and vs: "length vs = n" and dec: "env_decimal env 4 (1 / 2) = ''0.5''" and small: "\<forall>i < n. margins_small m oi i"
  shows "\<exists>st. fold_opt (assign_scored env sc m oi) (vs, Map.empty) zs' = Some st"
proof (rule assign_scored_total [OF _ _ vs])
  have made': "made_views oi 0 zs'" "length zs' = n"
    using views_extended_made [OF zs' made(1)] views_extended_length [OF zs'] made(2) by simp_all
  have pos: "zv_pos (zs' ! i) = int i" if "i < n" for i
    using made' that made_view_pos by (auto simp: made_views_def)
  then show "distinct (map zv_pos zs')" using made'(2) by (simp add: distinct_conv_nth)
  show "\<forall>z \<in> set zs'. Map.empty (zv_pos z) = None" by simp
  fix z ws assume z: "z \<in> set zs'" "zv_pos z \<noteq> 0" and ws: "length (ws :: view list) = n"
  obtain i where i: "i < n" "z = zs' ! i" using z(1) made'(2) by (auto simp: in_set_conv_nth)
  then have i0: "0 < i" "i < length zs" using z(2) pos made(2) by (cases i; simp)+
  note sel = selection_in [OF ref i0]
  let ?a = "selection m oi (offered c sc) i"
  have ok: "attribute_ok n i oi ?a" by (rule offered_ok(1) [OF c i0(1) i(1) sel(1)])
  have "zv_constraints z = map (attr_name oi) (offered c sc i)"
    using zs' i i0 made(3) by (simp add: views_extended_def)
  then have chosen: "selected_constraint m z = Some (attr_name oi ?a)"
    using sel(3) by (simp add: selected_constraint_def find_map)
  have made_z: "made_view oi 0 i z" using made' i by (simp add: made_views_def)
  have bias: "real_interp m (name1 ''bias_'' (unique_id_value (int i) oi)) = 1 / 2" and margins: "margins_positive m oi i"
    using ref(1) i0(2) by (simp_all add: reference_model_def margins_positive_def)
  obtain r where r: "AssignModel (env_decimal env) m oi None ws z = Some r"
    using AssignModel_total [where dec = "env_decimal env", OF made_z ok i(1) n ws chosen dec bias margins] small i(1) by blast
  have sc: "scorer_ok sc n oi" using c by (simp add: cand_ok_def)
  obtain p where "scorer_GetRank sc (attr_name oi ?a) (- 1) = Some p"
    using scorer_GetRank_total [OF sc ok i0(1) i(1) n] by blast
  with AssignModel_scored [OF r chosen] ws
  show "\<exists>r. AssignModel (env_decimal env) m oi (Some sc) ws z = Some r \<and> length (fst r) = n" by simp
qed

section \<open>The synthesis finds a candidate\<close>

text \<open>The numbers of a model fit the types that they are read into.\<close>

definition targets_fit :: "nat \<Rightarrow> orientation \<Rightarrow> nat \<Rightarrow> z3_model \<Rightarrow> bool" where
  "targets_fit n oi K m \<longleftrightarrow> (\<forall>i < n. margins_small m oi i) \<and>
     (\<forall>k < K. \<forall>i < n. int32 (fst (model_positions m oi (404 + int k) i)) \<and> int32 (snd (model_positions m oi (404 + int k) i)))"

lemma GetSatConstraintsOracle_finds:
  assumes env: "tries env ms" and ok: "oracle_input n app device_apps blocked_apps"
    and c: "start_candidates (\<lambda>_. sc) (app_views app) oi = Some c" "cand_ok c sc n oi" "\<forall>i < n. constraints_added c ! i = 0"
    and zs: "ConvertViews (app_views app) oi 0 = Some zs"
    and m: "m \<in> ms" "oracle_fits n False oi app device_apps blocked_apps [] zs (offered c sc) m" "assumed oi zs m"
  shows "\<exists>d. same_candidates c d \<and> GetSatConstraintsOracle env sc app oi device_apps blocked_apps = Some (SUCCESS, FinishAdding d)"
proof -
  have n: "views_ok n (app_views app)" "n \<le> 1000" "devices_ok n device_apps" "devices_ok n blocked_apps"
    using ok by (simp_all add: oracle_input_def)
  then have len: "length (app_views app) = n" "\<forall>i < length (app_views app). view_pos (app_views app ! i) = int i"
    by (simp_all add: views_ok_def)
  note z = ConvertViews_result [OF zs len(2), unfolded len(1)]
  have n0: "0 < n" using c(2) by (auto simp: cand_ok_def scorer_ok_def)
  have "devices_ok n []" by (simp add: devices_ok_def)
  from oracle_screens_result [OF n(3,4) this n(2), of oi] obtain kn bl zds where
    s: "known_screens device_apps oi = Some kn" "blocked_screens blocked_apps oi = Some bl"
    "oracle_screens_of device_apps blocked_apps [] oi n zds (kn @ bl)" by (auto simp: target_screens_def)
  let ?D = "oracle_number (length device_apps) (length blocked_apps)"
  have screens: "screen_ok oi (?D k) n ((kn @ bl) ! k)" if "k < length (kn @ bl)" for k
    using s(3) that unfolding oracle_screens_of_def by blast
  obtain q where q: "oracle_constraints False app oi (kn @ bl) c = Some q" "same_candidates c (dq_cands q)"
    "views_extended zs (dq_views q) (\<lambda>i. if i = 0 then [] else map (attr_name oi) (offered c sc i))"
    "\<forall>m. satisfies m (dq_assertions q) \<longleftrightarrow> oracle_model False (app_views app) oi ?D (kn @ bl) zs (offered c sc) m"
    using oracle_constraints_result [OF n(1,2) c(2,3) zs screens, of False] by blast
  have "satisfies m (dq_assertions q @ GetAssumptions (dq_views q))"
    using q(4) oracle_fits_model [OF m(2) s(3) n0 n(3,4)] m(3) assumed_extended [OF q(3)]
      GetAssumptions_meaning [OF views_extended_made [OF q(3) z(2)]] by simp
  then obtain m' where "env_check env (dq_assertions q) (GetAssumptions (dq_views q)) = Sat m'"
    using env m(1) unfolding tries_def by blast
  then have "device_sat_loop env (more_oracle_constraints (app_views app) oi) 50 (q\<lparr>dq_cands := FinishAdding (dq_cands q)\<rparr>) =
      Some (SUCCESS, q\<lparr>dq_cands := FinishAdding (dq_cands q)\<rparr>)" by (simp add: numeral_eq_Suc)
  then show ?thesis using c(1) s(1,2) q(1,2) by (auto simp: GetSatConstraintsOracle_def)
qed

lemma SynthesizeDeviceProbOracle_success:
  assumes env: "tries env ms" "sound_env env" and ok: "oracle_input n app device_apps blocked_apps" "devices_ok n target_apps"
    and c: "start_candidates (\<lambda>_. sc) (app_views app) oi = Some c" "cand_ok c sc n oi" "\<forall>i < n. constraints_added c ! i = 0"
    and zs: "ConvertViews (app_views app) oi 0 = Some zs"
    and m: "m \<in> ms" "oracle_fits n opt oi app device_apps blocked_apps target_apps zs (offered c sc) m" "assumed oi zs m"
    and fit: "\<And>m. m \<in> ms \<Longrightarrow> targets_fit n oi (length target_apps) m"
  shows "\<exists>M app' target_apps' m'. m' \<in> ms \<and>
    SynthesizeDeviceProbOracle env opt sc app oi device_apps target_apps blocked_apps = Some ((SUCCESS, M), app', target_apps') \<and>
    devices_moved oi n (\<lambda>k. model_positions m' oi (404 + int k)) target_apps target_apps'"
proof -
  let ?vs = "app_views app"
  let ?K = "length device_apps" and ?B = "length blocked_apps"
  have n: "views_ok n ?vs" "n \<le> 1000" "devices_ok n device_apps" "devices_ok n blocked_apps"
    using ok(1) by (simp_all add: oracle_input_def)
  then have len: "length ?vs = n" "\<forall>i < length ?vs. view_pos (?vs ! i) = int i" by (simp_all add: views_ok_def)
  note z = ConvertViews_result [OF zs len(2), unfolded len(1)]
  have n0: "0 < n" using c(2) by (auto simp: cand_ok_def scorer_ok_def)
  obtain d where d: "same_candidates c d"
    "GetSatConstraintsOracle env sc app oi device_apps blocked_apps = Some (SUCCESS, FinishAdding d)"
    using GetSatConstraintsOracle_finds [OF env(1) ok(1) c zs m(1) oracle_fits_plain [OF m(2)] m(3)] by blast
  let ?c = "ResetAdding (FinishAdding d)"
  have c1: "cand_ok ?c sc n oi" "\<forall>i < n. constraints_added ?c ! i = 0"
  proof -
    have "cand_ok (FinishAdding d) sc n oi" by (rule cand_ok_updates(2) [OF same_candidates_ok(1) [OF d(1) c(2)]])
    then show "cand_ok ?c sc n oi" "\<forall>i < n. constraints_added ?c ! i = 0"
      using cand_ok_updates(3) by (auto simp: cand_ok_def ResetAdding_def)
  qed
  have off: "offered ?c sc i = offered c sc i" if "i < n" for i
    using offered_again [OF d(1)] c(2,3) that by (simp add: cand_ok_def)
  have m': "oracle_fits n opt oi app device_apps blocked_apps target_apps zs (offered ?c sc) m"
    using m(2) oracle_fits_cong [of n "offered ?c sc" "offered c sc" zs] off z(1) by blast
  obtain kn bl tg zds where s: "known_screens device_apps oi = Some kn" "blocked_screens blocked_apps oi = Some bl"
    "target_screens target_apps oi = Some tg" "length kn = ?K" "length bl = ?B"
    "oracle_screens_of device_apps blocked_apps target_apps oi n zds (kn @ bl @ tg)"
    using oracle_screens_result [OF n(3,4) ok(2) n(2), of oi] by blast
  let ?D = "oracle_number ?K ?B" and ?screens = "kn @ bl @ tg"
  have screens: "screen_ok oi (?D k) n (?screens ! k)" if "k < length ?screens" for k
    using s(6) that unfolding oracle_screens_of_def by blast
  obtain q where q: "oracle_constraints opt app oi ?screens ?c = Some q"
    "views_extended zs (dq_views q) (\<lambda>i. if i = 0 then [] else map (attr_name oi) (offered ?c sc i))"
    "length (dq_devices q) = length ?screens"
    "\<forall>k < length ?screens. \<exists>g. views_extended (oracle_views (?screens ! k)) (dq_devices q ! k) g"
    "\<forall>m. satisfies m (dq_assertions q) \<longleftrightarrow> oracle_model opt ?vs oi ?D ?screens zs (offered ?c sc) m"
    using oracle_constraints_result [OF n(1,2) c1 zs screens, of opt] by blast
  define t where "t = dq_assertions q @ GetAssumptions (dq_views q)"
  define cost where "cost = (if opt then Some (cost_of_views (dq_views q) (IntVal 0)) else None)"
  note assume_q = GetAssumptions_meaning [OF views_extended_made [OF q(2) z(2)]] assumed_extended [OF q(2)]
  have "satisfies m t"
    using q(5) oracle_fits_model [OF m' s(6) n0 n(3,4)] m(3) assume_q by (simp add: t_def)
  then obtain m' where m': "m' \<in> ms" "env_optimize env t cost = Sat m'" using env(1) m(1) unfolding tries_def by blast
  then have "satisfies m' t" using env(2) unfolding sound_env_def by blast
  then have model: "oracle_model opt ?vs oi ?D ?screens zs (offered ?c sc) m'" and assumed: "assumed oi zs m'"
    using q(5) assume_q by (simp_all add: t_def)
  have ref: "reference_model opt oi zs (offered ?c sc) m'" using model by (simp add: oracle_model_def)
  have dec: "env_decimal env 4 (1 / 2) = ''0.5''" using env(2) by (simp add: sound_env_def)
  have small: "\<forall>i < n. margins_small m' oi i" and fits: "\<And>k i. k < length target_apps \<Longrightarrow> i < n \<Longrightarrow>
      int32 (fst (model_positions m' oi (404 + int k) i)) \<and> int32 (snd (model_positions m' oi (404 + int k) i))"
    using fit [OF m'(1)] by (simp_all add: targets_fit_def)
  have "\<exists>st. fold_opt (assign_scored env sc m' oi) (?vs, Map.empty) (dq_views q) = Some st"
    by (rule assign_scored_possible [OF c1(1) n(2) ref assumed q(2) z(2,1) _ len(1) dec small]) (use z(4) in simp)
  then obtain vc where vc: "fold_opt (assign_scored env sc m' oi) (?vs, Map.empty) (dq_views q) = Some vc" by blast
  have total: "length ?screens = ?K + ?B + length target_apps" using s(6) by (simp add: oracle_screens_of_def)
  let ?zds = "drop (?K + ?B) (dq_devices q)"
  have lenz: "length ?zds = length target_apps" using q(3) total by simp
  have scr_at: "?K + ?B + k < length ?screens" "?D (?K + ?B + k) = 404 + int k" "?screens ! (?K + ?B + k) = Target (zds (?K + ?B + k))"
    if "k < length target_apps" for k
    using s(6) total that by (simp_all add: oracle_screens_of_def oracle_number_def del: append_assoc)
  have made: "made_views oi (404 + int k) (dq_devices q ! (?K + ?B + k)) \<and> length (dq_devices q ! (?K + ?B + k)) = n"
    if "k < length target_apps" for k
    using q(4) scr_at [OF that] extended_screen [OF screens [OF scr_at(1) [OF that]]] by metis
  have devs: "made_views oi (404 + int k) (?zds ! k) \<and> length (?zds ! k) = n" if k: "k < length target_apps" for k
  proof -
    have "?zds ! k = dq_devices q ! (?K + ?B + k)" using q(3) total k by simp
    with made [OF k] show ?thesis by simp
  qed
  obtain apps' where apps': "assign_devices (\<lambda>_. False) m' oi ?zds target_apps = Some apps'"
    using assign_devices_total [where D = "\<lambda>k. 404 + int k", OF lenz devs ok(2) fits] by blast
  have frame: "view_interval (app_views (target_apps ! k)) oi 0 = model_positions m' oi (404 + int k) 0" if k: "k < length target_apps" for k
  proof -
    have "screen_model ?vs oi (?D (?K + ?B + k)) (offered ?c sc) m' (?screens ! (?K + ?B + k))"
      using model scr_at(1) [OF k] unfolding oracle_model_def by blast
    then have "frame_placed oi (404 + int k) (zds (?K + ?B + k)) m'" by (simp add: scr_at(2,3) [OF k])
    moreover have "(zv_start (zds (?K + ?B + k) ! 0), zv_end (zds (?K + ?B + k) ! 0)) =
        view_interval (app_views ((device_apps @ blocked_apps @ target_apps) ! (?K + ?B + k))) oi 0"
      using s(6) scr_at(1) [OF k] n0 unfolding oracle_screens_of_def by blast
    ultimately show ?thesis by (simp add: frame_placed_def nth_append)
  qed
  have moved: "devices_moved oi n (\<lambda>k. model_positions m' oi (404 + int k)) target_apps apps'"
    by (rule assign_devices_moved [where D = "\<lambda>k. 404 + int k", OF apps' ok(2) lenz])
      (use devs frame in \<open>simp_all only: simp_thms\<close>)
  have "SynthesizeDeviceProbOracle env opt sc app oi device_apps target_apps blocked_apps =
      Some ((SUCCESS, snd vc), app\<lparr>app_views := fst vc\<rparr>, apps')"
    unfolding SynthesizeDeviceProbOracle_def d(2) Option.bind.simps Let_def fst_conv snd_conv s(1-5) q(1)
      t_def [symmetric] cost_def [symmetric] m'(2)
    by (simp add: vc apps')
  with moved m'(1) show ?thesis by blast
qed

section \<open>Joining the candidates\<close>

lemma merge_pair_total:
  assumes v: "round_ok app VERTICAL targets bl v" and h: "round_ok app HORIZONTAL targets bl' h" and ids: "ids_in_range app"
  shows "\<exists>r. merge_pair v h = Some r"
proof -
  have len: "length (snd v) = length targets" "length (snd h) = length targets"
    using v h unfolding round_ok_def by blast+
  have wf: "app_wf (fst v)" "app_wf (fst h)" "map view_id (app_views (fst v)) = map view_id (app_views app)"
    "map view_id (app_views (fst h)) = map view_id (app_views app)"
    using v h unfolding round_ok_def by blast+
  obtain a where a: "App_merge (fst v) (fst h) = Some a" using App_merge_views [OF wf ids] by blast
  have one: "\<exists>x. App_merge (snd v ! k) (snd h ! k) = Some x" if k: "k < length targets" for k
  proof -
    have "app_wf (snd v ! k)" "app_wf (snd h ! k)" "map view_id (app_views (snd v ! k)) = map view_id (app_views app)"
      "map view_id (app_views (snd h ! k)) = map view_id (app_views app)"
      using v h k unfolding round_ok_def by blast+
    then show ?thesis using App_merge_views [OF _ _ _ _ ids] by blast
  qed
  have "\<exists>ms. map_opt (\<lambda>k. do { x \<leftarrow> vec_at (snd v) k; y \<leftarrow> vec_at (snd h) k; App_merge x y }) [0..<length (snd v)] = Some ms"
    unfolding map_opt_Some_iff using one len by (simp add: vec_at_def)
  with a show ?thesis by (auto simp: merge_pair_def)
qed

text \<open>The check of \<^verbatim>\<open>computeCandidates\<close> that all layouts of the first device differ never fails.\<close>

lemma computeMatchings_all:
  assumes ne: "ms \<noteq> []" and all: "\<And>i. i < length ms \<Longrightarrow> ms ! i \<noteq> []"
    and diff: "\<And>i j. i < length ms \<Longrightarrow> j < length ms \<Longrightarrow> i \<noteq> j \<Longrightarrow> \<not> AppMatch (ms ! i ! 0) (ms ! j ! 0)"
  shows "computeMatchings ms 0 = Some (length ms)"
proof -
  have first: "vec_at ms 0 = Some (ms ! 0)" "vec_at (ms ! 0) 0 = Some (ms ! 0 ! 0)"
    using ne all [of 0] by (simp_all add: vec_at_def)
  have at: "vec_at x 0 = Some (x ! 0)" "\<not> AppMatch (x ! 0) (ms ! 0 ! 0)" if x: "x \<in> set (tl ms)" for x
  proof -
    obtain i where i: "i < length (tl ms)" "x = tl ms ! i" using x by (auto simp: in_set_conv_nth)
    then have s: "x = ms ! Suc i" "Suc i < length ms" by (simp_all add: nth_tl)
    then show "vec_at x 0 = Some (x ! 0)" using all [of "Suc i"] by (simp add: vec_at_def)
    show "\<not> AppMatch (x ! 0) (ms ! 0 ! 0)" using diff [OF s(2), of 0] s ne by simp
  qed
  have "map_opt (\<lambda>c. vec_at c 0) (tl ms) = Some (map (\<lambda>c. c ! 0) (tl ms))"
    by (rule map_opt_Some_map) (rule at(1))
  moreover have "filter (\<lambda>a. \<not> AppMatch a (ms ! 0 ! 0)) (map (\<lambda>c. c ! 0) (tl ms)) = map (\<lambda>c. c ! 0) (tl ms)"
    using at(2) by (simp add: filter_id_conv)
  ultimately show ?thesis using first ne by (simp add: computeMatchings_def del: length_filter_map)
qed

lemma computeCandidates_joins:
  assumes env: "sound_env env" and app: "blank_app app" "length (app_views app) \<le> 1000" "ids_in_range app"
    and sc: "\<And>oi. scorer_fits (length (app_views app)) oi (scs oi) app" and devs: "devices_ok (length (app_views app)) device_apps"
    and v: "candidate_rounds (oracle_candidate env opt (scs VERTICAL) VERTICAL app device_apps d0 ds) (nat number) [] = Some (sv, vs)" "vs \<noteq> []"
    and h: "candidate_rounds (oracle_candidate env opt (scs HORIZONTAL) HORIZONTAL app device_apps d0 ds) (nat number) [] = Some (sh, hs)" "hs \<noteq> []"
  shows "\<exists>cands resized. computeCandidates env opt scs number app device_apps d0 ds ([], []) = Some (SUCCESS, cands, resized) \<and>
    length cands = length vs * length hs"
proof -
  obtain targets where targets: "resize_devices app d0 ds = Some targets"
    using no_targets_no_rounds [OF _ v(1)] v(2) by (cases "resize_devices app d0 ds") auto
  note vr = oracle_rounds [OF env app(1) refl app(2) sc devs targets v(1)]
  note hr = oracle_rounds [OF env app(1) refl app(2) sc devs targets h(1)]
  let ?ps = "List.product vs hs"
  have "\<exists>r. (\<lambda>(x, y). merge_pair x y) p = Some r" if p: "p \<in> set ?ps" for p :: "(app \<times> app list) \<times> app \<times> app list"
  proof -
    have "p \<in> set vs \<times> set hs" using p by simp
    then obtain x y where xy: "p = (x, y)" "x \<in> set vs" "y \<in> set hs" by (rule SigmaE)
    obtain i where i: "i < length vs" "x = vs ! i" using xy(2) by (auto simp: in_set_conv_nth)
    obtain j where j: "j < length hs" "y = hs ! j" using xy(3) by (auto simp: in_set_conv_nth)
    have ij: "i < length vs" "j < length hs" "p = (vs ! i, hs ! j)" using xy(1) i j by simp_all
    show ?thesis
      using merge_pair_total [OF conjunct2 [OF vr [rule_format, OF ij(1)]] conjunct2 [OF hr [rule_format, OF ij(2)]] app(3)] ij(3)
      by simp
  qed
  then have "\<exists>ms. map_opt (\<lambda>(x, y). merge_pair x y) ?ps = Some ms" unfolding map_opt_Some_iff by (intro ballI)
  then obtain ms where ms: "map_opt (\<lambda>(x, y). merge_pair x y) ?ps = Some ms" by (rule exE)
  have len: "length ms = length vs * length hs" using map_opt_length [OF ms] by simp
  have "snd (ms ! i) \<noteq> []" if i: "i < length ms" for i
  proof -
    note p = product_index [OF i [unfolded len]]
    have m: "merge_pair (vs ! (i div length hs)) (hs ! (i mod length hs)) = Some (ms ! i)"
      using map_opt_nth [OF ms, of i] i len p(1) by simp
    note r = vr [rule_format, OF p(2)] hr [rule_format, OF p(3)]
    have "length (snd (ms ! i)) = length targets" "length (snd (vs ! (i div length hs))) = length targets"
      using merge_pair_joined [OF conjunct2 [OF r(1)] conjunct2 [OF r(2)] app(3) m] conjunct2 [OF r(1)]
      unfolding round_ok_def by blast+
    with r(1) show ?thesis by (metis length_0_conv)
  qed
  then have "computeMatchings (map snd ms) 0 = Some (length (map snd ms))"
    using pairs_differ [OF vr hr app(3) ms] len v(2) h(2) by (intro computeMatchings_all) auto
  then show ?thesis using v h ms len by (simp add: computeCandidates_def)
qed

section \<open>A candidate of a copied app\<close>

lemma gen_clauses_same:
  assumes "\<And>i. i < n \<Longrightarrow> view_interval ws oi i = view_interval vs oi i" "\<And>i a. 0 < i \<Longrightarrow> i < n \<Longrightarrow> a \<in> set (offers i) \<Longrightarrow> attr_src a = i"
  shows "gen_clauses ws oi n d offers m = gen_clauses vs oi n d offers m"
proof -
  have "gen_clause ws oi d m a = gen_clause vs oi d m a" if "0 < i" "i < n" "a \<in> set (offers i)" for i a
    using assms(1) [OF that(2)] assms(2) [OF that] by (simp add: gen_clause_def size_kept_def)
  then show ?thesis unfolding gen_clauses_def by blast
qed

lemma oracle_candidate_success:
  assumes env: "tries env ms" "sound_env env" and app: "blank_app app" "length (app_views app) = n" "n \<le> 1000"
    and devs: "devices_ok n device_apps" "devices_ok n blocked" and targets: "resize_devices app d0 ds = Some targets"
    and c: "start_candidates (\<lambda>_. sc) (app_views app) oi = Some c" "cand_ok c sc n oi" "\<forall>i < n. constraints_added c ! i = 0"
    and zs: "ConvertViews (app_views app) oi 0 = Some zs"
    and m: "m \<in> ms" "oracle_fits n opt oi app device_apps blocked targets zs (offered c sc) m" "assumed oi zs m"
    and fit: "\<And>m. m \<in> ms \<Longrightarrow> targets_fit n oi (length targets) m"
  shows "\<exists>r m'. m' \<in> ms \<and> oracle_candidate env opt sc oi app device_apps d0 ds blocked = Some (SUCCESS, r) \<and>
    devices_moved oi n (\<lambda>k. model_positions m' oi (404 + int k)) targets (snd r)"
proof -
  let ?vs = "app_views app"
  obtain a where a: "App_copy app = Some a" "length (app_views a) = n" "\<And>i. i < n \<Longrightarrow> view_pos (app_views a ! i) = int i"
    "\<And>i. i < n \<Longrightarrow> view_interval (app_views a) oi i = view_interval ?vs oi i"
    using blank_app_copy [OF app(1)] app(2) by auto
  have vs: "views_ok n ?vs" using blank_app_views_ok [OF app(1)] app(2) by simp
  have va: "views_ok n (app_views a)" using a(2,3) by (simp add: views_ok_def)
  have same: "ConvertViews (app_views a) oi d = ConvertViews ?vs oi d" for d
    by (rule ConvertViews_same) (use a vs app(2) in \<open>simp_all add: views_ok_def\<close>)
  have src: "attr_src b = i" if "0 < i" "i < n" "b \<in> set (offered c sc i)" for i b
    using offered_ok(1) [OF c(2) that] by (simp add: attribute_ok_def)
  have "gen_clauses (app_views a) oi n d (offered c sc) m = gen_clauses ?vs oi n d (offered c sc) m" for d
    by (rule gen_clauses_same) (use a(4) src in simp_all)
  then have fits: "oracle_fits n opt oi a device_apps blocked targets zs (offered c sc) m"
    using m(2) by (simp add: oracle_fits_def)
  have start: "start_candidates (\<lambda>_. sc) (app_views a) oi = Some c" "ConvertViews (app_views a) oi 0 = Some zs"
    using c(1) zs by (simp_all add: start_candidates_def same)
  have ok: "oracle_input n a device_apps blocked" using va app(3) devs by (simp add: oracle_input_def)
  obtain M a' targets' m' where "m' \<in> ms"
    "SynthesizeDeviceProbOracle env opt sc a oi device_apps targets blocked = Some ((SUCCESS, M), a', targets')"
    "devices_moved oi n (\<lambda>k. model_positions m' oi (404 + int k)) targets targets'"
    using SynthesizeDeviceProbOracle_success [OF env ok resize_devices_result(2) [OF targets vs app(1)] start(1) c(2,3) start(2) m(1) fits m(3) fit]
    by blast
  then show ?thesis using targets a(1) by (auto simp: oracle_candidate_def)
qed

end
