(* ===== verification/Candidate_Properties.thy ===== *)
theory Candidate_Properties
  imports Candidate_Search
begin

text \<open>
  The properties of the synthesis with an oracle and of the search for several candidates, shown to
  apply to the sample screen of \<^theory_text>\<open>Device_Properties\<close> with a solver that knows two models.
\<close>

section \<open>A sample search\<close>

text \<open>
  The view of the sample screen keeps its distance to the start or to the end of the frame; on all
  other screens the frame has the size of the large device.
\<close>

definition edge_app :: "bool \<Rightarrow> app" where
  "edge_app e =
     \<lparr>seq_id_to_pos = [0, 1], app_resizable = [False, False],
      app_views = [(View_make 0 0 120 240 ''root'' 0 None)\<lparr>view_pos := 0\<rparr>,
        (if e then View_make 10 20 50 40 ''A'' 1 None else View_make 30 60 70 80 ''A'' 1 None)\<lparr>view_pos := 1\<rparr>]\<rparr>"

definition edge_model :: "bool \<Rightarrow> z3_model" where
  "edge_model e =
     \<lparr>int_interp = (\<lambda>s. case map_of
        ([(''end_0_0'', 100), (''start_1_0'', 10), (''end_1_0'', 50), (''anchor_1'', 1),
          (''end_1000_0'', 200), (''start_1001_0'', 20), (''end_1001_0'', 40), (''anchor_1001'', 1)] @
         (if e then [
          (''mstart_1'', 10), (''mstart_1001'', 20),
          (''end_0_1'', 120), (''start_1_1'', 10), (''end_1_1'', 50),
          (''end_1000_1'', 240), (''start_1001_1'', 20), (''end_1001_1'', 40),
          (''end_0_404'', 120), (''start_1_404'', 10), (''end_1_404'', 50),
          (''end_1000_404'', 240), (''start_1001_404'', 20), (''end_1001_404'', 40),
          (''end_0_4444'', 120), (''start_1_4444'', 10), (''end_1_4444'', 50),
          (''end_1000_4444'', 240), (''start_1001_4444'', 20), (''end_1001_4444'', 40)]
          else [
          (''mend_1'', 50), (''mend_1001'', 160),
          (''end_0_1'', 120), (''start_1_1'', 30), (''end_1_1'', 70),
          (''end_1000_1'', 240), (''start_1001_1'', 60), (''end_1001_1'', 80),
          (''end_0_404'', 120), (''start_1_404'', 30), (''end_1_404'', 70),
          (''end_1000_404'', 240), (''start_1001_404'', 60), (''end_1001_404'', 80),
          (''end_0_4444'', 120), (''start_1_4444'', 30), (''end_1_4444'', 70),
          (''end_1000_4444'', 240), (''start_1001_4444'', 60), (''end_1001_4444'', 80)])) s of Some i \<Rightarrow> i | None \<Rightarrow> 0),
      real_interp = (\<lambda>s. 1 / 2),
      bool_interp = (\<lambda>s. s \<in> set ([''x_empty_expr'', ''satisfied_1_0'', ''satisfied_1001_0''] @
        (if e then [''L2L_2_0_1_0'', ''T2T_2_1_1_0''] else [''R2R_2_0_1_0'', ''B2B_2_1_1_0''])))\<rparr>"

definition edge_env :: smt_env where
  "edge_env =
     \<lparr>env_check = (\<lambda>s t. case find (\<lambda>m. satisfies m (s @ t)) [edge_model True, edge_model False] of Some m \<Rightarrow> Sat m | None \<Rightarrow> Unknown),
      env_core = (\<lambda>s t. []),
      env_optimize = (\<lambda>s cost. case find (\<lambda>m. satisfies m s) [edge_model True, edge_model False] of Some m \<Rightarrow> Sat m | None \<Rightarrow> Unknown),
      env_late = (\<lambda>s. False), env_decimal = (\<lambda>k r. ''0.5'')\<rparr>"

definition edge_offer :: "bool \<Rightarrow> orientation \<Rightarrow> attribute" where
  "edge_offer e oi = (if e then pair_offers oi ! 0 else pair_offers oi ! 1)"

lemma shown_digits: "digit_char 0 = CHR ''0''" "digit_char 1 = CHR ''1''" "digit_char 4 = CHR ''4''"
  by code_simp+

lemma shown_numbers:
  "show_int 0 = ''0''" "show_int 1 = ''1''" "show_int 404 = ''404''" "show_int 4444 = ''4444''"
  "show_int 1000 = ''1000''" "show_int 1001 = ''1001''"
  by (simp_all add: show_int_def show_nat.simps shown_digits [simplified])

lemmas shown_names = name1_def name2_def unique_id_value_def orientation_index_def shown_numbers

lemma edge_table:
  "map (int_interp (edge_model True))
     [''start_0_0'', ''end_0_0'', ''start_1_0'', ''end_1_0'',
      ''start_1000_0'', ''end_1000_0'', ''start_1001_0'', ''end_1001_0'',
      ''start_0_1'', ''end_0_1'', ''start_1_1'', ''end_1_1'',
      ''start_1000_1'', ''end_1000_1'', ''start_1001_1'', ''end_1001_1'',
      ''start_0_404'', ''end_0_404'', ''start_1_404'', ''end_1_404'',
      ''start_1000_404'', ''end_1000_404'', ''start_1001_404'', ''end_1001_404'',
      ''start_0_4444'', ''end_0_4444'', ''start_1_4444'', ''end_1_4444'',
      ''start_1000_4444'', ''end_1000_4444'', ''start_1001_4444'', ''end_1001_4444'',
      ''mstart_0'', ''mend_0'', ''mstart_1000'', ''mend_1000'',
      ''anchor_0'', ''anchor_1000'', ''anchor_1'', ''anchor_1001'',
      ''mstart_1'', ''mstart_1001'', ''mend_1'', ''mend_1001''] =
     [0, 100, 10, 50, 0, 200, 20, 40, 0, 120, 10, 50, 0, 240, 20, 40,
      0, 120, 10, 50, 0, 240, 20, 40, 0, 120, 10, 50, 0, 240, 20, 40,
      0, 0, 0, 0, 0, 0, 1, 1, 10, 20, 0, 0]"
  "map (int_interp (edge_model False))
     [''start_0_0'', ''end_0_0'', ''start_1_0'', ''end_1_0'',
      ''start_1000_0'', ''end_1000_0'', ''start_1001_0'', ''end_1001_0'',
      ''start_0_1'', ''end_0_1'', ''start_1_1'', ''end_1_1'',
      ''start_1000_1'', ''end_1000_1'', ''start_1001_1'', ''end_1001_1'',
      ''start_0_404'', ''end_0_404'', ''start_1_404'', ''end_1_404'',
      ''start_1000_404'', ''end_1000_404'', ''start_1001_404'', ''end_1001_404'',
      ''start_0_4444'', ''end_0_4444'', ''start_1_4444'', ''end_1_4444'',
      ''start_1000_4444'', ''end_1000_4444'', ''start_1001_4444'', ''end_1001_4444'',
      ''mstart_0'', ''mend_0'', ''mstart_1000'', ''mend_1000'',
      ''anchor_0'', ''anchor_1000'', ''anchor_1'', ''anchor_1001'',
      ''mstart_1'', ''mstart_1001'', ''mend_1'', ''mend_1001''] =
     [0, 100, 10, 50, 0, 200, 20, 40, 0, 120, 30, 70, 0, 240, 60, 80,
      0, 120, 30, 70, 0, 240, 60, 80, 0, 120, 30, 70, 0, 240, 60, 80,
      0, 0, 0, 0, 0, 0, 1, 1, 0, 0, 50, 160]"
  by code_simp+

lemma edge_selects:
  "map (\<lambda>a. bool_interp (edge_model e) (attr_name oi a)) (pair_offers oi) = [e, \<not> e, False, False]"
  by (cases e; cases oi; simp only:) code_simp+

lemmas edge_lookup = edge_table [unfolded list.map list.inject]

lemma edge_positions:
  "model_positions (edge_model True) HORIZONTAL 0 0 = (0, 100)" "model_positions (edge_model True) HORIZONTAL 0 1 = (10, 50)"
  "model_positions (edge_model True) VERTICAL 0 0 = (0, 200)" "model_positions (edge_model True) VERTICAL 0 1 = (20, 40)"
  "model_positions (edge_model True) HORIZONTAL 1 0 = (0, 120)" "model_positions (edge_model True) HORIZONTAL 1 1 = (10, 50)"
  "model_positions (edge_model True) VERTICAL 1 0 = (0, 240)" "model_positions (edge_model True) VERTICAL 1 1 = (20, 40)"
  "model_positions (edge_model True) HORIZONTAL 404 0 = (0, 120)" "model_positions (edge_model True) HORIZONTAL 404 1 = (10, 50)"
  "model_positions (edge_model True) VERTICAL 404 0 = (0, 240)" "model_positions (edge_model True) VERTICAL 404 1 = (20, 40)"
  "model_positions (edge_model True) HORIZONTAL 4444 0 = (0, 120)" "model_positions (edge_model True) HORIZONTAL 4444 1 = (10, 50)"
  "model_positions (edge_model True) VERTICAL 4444 0 = (0, 240)" "model_positions (edge_model True) VERTICAL 4444 1 = (20, 40)"
  "model_positions (edge_model False) HORIZONTAL 0 0 = (0, 100)" "model_positions (edge_model False) HORIZONTAL 0 1 = (10, 50)"
  "model_positions (edge_model False) VERTICAL 0 0 = (0, 200)" "model_positions (edge_model False) VERTICAL 0 1 = (20, 40)"
  "model_positions (edge_model False) HORIZONTAL 1 0 = (0, 120)" "model_positions (edge_model False) HORIZONTAL 1 1 = (30, 70)"
  "model_positions (edge_model False) VERTICAL 1 0 = (0, 240)" "model_positions (edge_model False) VERTICAL 1 1 = (60, 80)"
  "model_positions (edge_model False) HORIZONTAL 404 0 = (0, 120)" "model_positions (edge_model False) HORIZONTAL 404 1 = (30, 70)"
  "model_positions (edge_model False) VERTICAL 404 0 = (0, 240)" "model_positions (edge_model False) VERTICAL 404 1 = (60, 80)"
  "model_positions (edge_model False) HORIZONTAL 4444 0 = (0, 120)" "model_positions (edge_model False) HORIZONTAL 4444 1 = (30, 70)"
  "model_positions (edge_model False) VERTICAL 4444 0 = (0, 240)" "model_positions (edge_model False) VERTICAL 4444 1 = (60, 80)"
  by (simp_all add: model_positions_def shown_names edge_lookup)

lemma edge_intervals:
  "view_interval (app_views (edge_app e)) HORIZONTAL 0 = (0, 120)" "view_interval (app_views (edge_app e)) VERTICAL 0 = (0, 240)"
  "view_interval (app_views (edge_app True)) HORIZONTAL 1 = (10, 50)" "view_interval (app_views (edge_app False)) HORIZONTAL 1 = (30, 70)"
  "view_interval (app_views (edge_app True)) VERTICAL 1 = (20, 40)" "view_interval (app_views (edge_app False)) VERTICAL 1 = (60, 80)"
  "view_interval (app_views pair_app) HORIZONTAL 0 = (0, 100)" "view_interval (app_views pair_app) HORIZONTAL 1 = (10, 50)"
  "view_interval (app_views pair_app) VERTICAL 0 = (0, 200)" "view_interval (app_views pair_app) VERTICAL 1 = (20, 40)"
  by (simp_all add: edge_app_def pair_app_def view_interval_def View_make_def)

lemma below_two: "i < (2 :: nat) \<Longrightarrow> i = 0 \<or> i = 1"
  by linarith

lemma edge_positions_reference:
  assumes "i < 2"
  shows "model_positions (edge_model e) oi 0 i = view_interval (app_views pair_app) oi i"
  using below_two [OF assms] by (cases oi; cases e; elim disjE; simp only: edge_positions edge_intervals)

lemma edge_positions_other:
  assumes "d = 1 \<or> d = 404 \<or> d = 4444" "i < 2"
  shows "model_positions (edge_model e) oi d i = view_interval (app_views (edge_app e)) oi i"
  using assms(1) below_two [OF assms(2)] by (cases oi; cases e; elim disjE; simp only: edge_positions edge_intervals)

lemma edge_numbers:
  "int_interp (edge_model e) (name1 ''mstart_'' (unique_id_value 0 oi)) = 0"
  "int_interp (edge_model e) (name1 ''mend_'' (unique_id_value 0 oi)) = 0"
  "int_interp (edge_model True) (name1 ''mstart_'' (unique_id_value 1 oi)) = (if oi = HORIZONTAL then 10 else 20)"
  "int_interp (edge_model False) (name1 ''mstart_'' (unique_id_value 1 oi)) = 0"
  "int_interp (edge_model True) (name1 ''mend_'' (unique_id_value 1 oi)) = 0"
  "int_interp (edge_model False) (name1 ''mend_'' (unique_id_value 1 oi)) = (if oi = HORIZONTAL then 50 else 160)"
  "model_anchor (edge_model e) oi 0 = 0" "model_anchor (edge_model e) oi 1 = 1"
  by (induction e; cases oi; simp add: model_anchor_def shown_names edge_lookup)+

lemma edge_truths:
  "real_interp (edge_model e) s = 1 / 2"
  "bool_interp (edge_model e) (satisfied_const oi 1 0)" "bool_interp (edge_model e) ''x_empty_expr''"
  by (cases oi; simp add: satisfied_const_def shown_names edge_model_def)+

lemma edge_offer: "edge_offer e oi =
   \<lparr>attr_type = (if oi = HORIZONTAL then if e then L2L else R2R else if e then T2T else B2B), attr_view_size = FIXED,
    value_primary = (if e then if oi = HORIZONTAL then 10 else 20 else 0),
    value_secondary = (if e then 0 else if oi = HORIZONTAL then 50 else 160), attr_src = 1,
    tgt_primary = 0, tgt_secondary = None, attr_prob = 0, attr_bias = 1 / 2\<rparr>"
  by (simp add: edge_offer_def pair_offers_def Let_def)

lemma edge_selected:
  assumes "a \<in> set (pair_offers oi)" "bool_interp (edge_model e) (attr_name oi a)"
  shows "a = edge_offer e oi"
proof -
  have "length (pair_offers oi) = 4" using arg_cong [OF edge_selects [of e oi], of length] by simp
  then obtain p q r s where o: "pair_offers oi = [p, q, r, s]" by (auto simp: numeral_eq_Suc length_Suc_conv)
  with edge_selects [of e oi] have "bool_interp (edge_model e) (attr_name oi p) = e" "bool_interp (edge_model e) (attr_name oi q) = (\<not> e)"
    "\<not> bool_interp (edge_model e) (attr_name oi r)" "\<not> bool_interp (edge_model e) (attr_name oi s)" by simp_all
  with assms o show ?thesis by (auto simp: edge_offer_def)
qed

lemma edge_holds:
  assumes "d = 0 \<or> d = 1 \<or> d = 404 \<or> d = 4444"
  shows "candidate_holds (edge_model e) oi d (edge_offer e oi)"
    "snd (model_positions (edge_model e) oi d 1) - fst (model_positions (edge_model e) oi d 1) = (if oi = HORIZONTAL then 40 else 20)"
  using assms
  by (induction e; cases oi; elim disjE; simp del: One_nat_def add: edge_offer candidate_holds_def placed_def side_conditions_def
      model_attr_def anchor_pos_def to_start_def attr_targets_def Let_def edge_positions edge_numbers edge_truths)+

lemma edge_anchor: "anchor_follows (edge_model e) oi (edge_offer e oi)"
  by (induction e; cases oi; simp del: One_nat_def add: edge_offer anchor_follows_def attr_targets_def edge_numbers)

text \<open>What the models say about the screens of a query.\<close>

definition edge_sized :: "orientation \<Rightarrow> view list \<Rightarrow> bool" where
  "edge_sized oi vs \<longleftrightarrow> snd (view_interval vs oi 1) - fst (view_interval vs oi 1) = (if oi = HORIZONTAL then 40 else 20)"

lemma edge_sized: "edge_sized oi (app_views pair_app)" "edge_sized oi (app_views (edge_app e))"
  by (induction e; cases oi; simp del: One_nat_def add: edge_sized_def edge_intervals)+

lemma edge_gen:
  assumes "d = 0 \<or> d = 1 \<or> d = 404 \<or> d = 4444" "edge_sized oi vs" "offers 1 = pair_offers oi"
  shows "gen_clauses vs oi 2 d offers (edge_model e)"
proof -
  have "gen_clause vs oi d (edge_model e) a" if a: "a \<in> set (pair_offers oi)" for a
  proof -
    have src: "attr_src (edge_offer e oi) = 1" "attr_view_size (edge_offer e oi) = FIXED" by (simp_all add: edge_offer)
    have "size_kept vs oi (model_positions (edge_model e) oi d) (edge_offer e oi)"
      using edge_holds(2) [OF assms(1), of e oi] assms(2) unfolding size_kept_def src edge_sized_def by (simp add: Let_def)
    then show ?thesis using edge_selected [OF a] edge_holds(1) [OF assms(1), of e oi] by (auto simp: gen_clause_def)
  qed
  moreover have "i = 1" if "0 < i \<and> i < 2" for i :: nat using that by linarith
  ultimately show ?thesis unfolding gen_clauses_def using assms(3) by metis
qed

lemma edge_reference:
  assumes zs: "length zs = 2" "\<And>i. i < 2 \<Longrightarrow> (zv_start (zs ! i), zv_end (zs ! i)) = view_interval (app_views pair_app) oi i"
    and offers: "offers 1 = pair_offers oi"
  shows "reference_model False oi zs offers (edge_model e)"
proof -
  have off: "offers i = pair_offers oi" if "0 < i" "i < 2" for i
  proof -
    have "i = 1" using that by linarith
    then show ?thesis using offers by simp
  qed
  have margins: "0 \<le> int_interp (edge_model e) (name1 ''mstart_'' (unique_id_value (int i) oi)) \<and>
      0 \<le> int_interp (edge_model e) (name1 ''mend_'' (unique_id_value (int i) oi))" if "i < 2" for i
    using below_two [OF that] by (induction e) (auto simp: edge_numbers)
  have "syn_clause False oi (edge_model e) a" if "a \<in> set (pair_offers oi)" for a
    using edge_selected [OF that] edge_holds(1) [of 0 e oi] edge_anchor by (auto simp: syn_clause_def)
  moreover have "exactly_one (map (\<lambda>a. bool_interp (edge_model e) (attr_name oi a)) (pair_offers oi))"
    unfolding edge_selects by (cases e) (simp_all add: exactly_one_Cons)
  moreover have "if i = 0 then model_anchor (edge_model e) oi i = 0 else 0 < model_anchor (edge_model e) oi i" if "i < 2" for i
    using below_two [OF that] by (auto simp del: One_nat_def simp: edge_numbers)
  ultimately show ?thesis
    unfolding reference_model_def zs(1) using margins edge_truths(1) edge_positions_reference [where e = e] zs(2) off
    by (intro conjI allI impI; (elim conjE)?; simp)
qed

lemma edge_assumed:
  assumes "length zs = 2" "satisfied_id (zs ! 1) = 0"
  shows "assumed oi zs (edge_model e)"
proof -
  have "i = 1" if "0 < i \<and> i < length zs" for i using that assms(1) by linarith
  then show ?thesis unfolding assumed_def using edge_truths(2) assms(2) by metis
qed

text \<open>The solver, the candidates, and a run that finds one.\<close>

abbreviation edge_models :: "z3_model set" where
  "edge_models \<equiv> {edge_model True, edge_model False}"

lemma edge_env_sound: "sound_env edge_env"
  by (auto simp: sound_env_def edge_env_def split: option.splits if_splits)

lemma edge_env_tries: "tries edge_env edge_models"
  by (auto simp: tries_def edge_env_def)

lemma edge_fit: "m \<in> edge_models \<Longrightarrow> targets_fit 2 oi 1 m"
proof -
  have "margins_small (edge_model e) oi i" if "i < 2" for e i
    using below_two [OF that] by (induction e) (auto simp del: One_nat_def simp: margins_small_def edge_numbers)
  moreover have "int32 (fst (model_positions (edge_model e) oi 404 i)) \<and> int32 (snd (model_positions (edge_model e) oi 404 i))"
    if "i < 2" for e i
    using below_two [OF that] by (induction e; cases oi) (auto simp del: One_nat_def simp: edge_positions int32_def)
  moreover assume "m \<in> edge_models"
  then obtain e where "m = edge_model e" by blast
  ultimately show ?thesis by (simp add: targets_fit_def)
qed

lemma edge_candidates:
  obtains scs cands zs where "both (AttrScorer (\<lambda>vs a. Some 0) (app_views pair_screen)) = Some scs"
    "\<forall>oi. start_candidates (\<lambda>_. scs oi) (app_views pair_screen) oi = Some (cands oi)"
    "\<forall>oi. cand_ok (cands oi) (scs oi) 2 oi" "\<forall>oi. \<forall>i < 2. constraints_added (cands oi) ! i = 0"
    "\<forall>oi. offered (cands oi) (scs oi) 1 = pair_offers oi"
    "\<forall>oi. ConvertViews (app_views pair_screen) oi 0 = Some (zs oi)"
proof -
  obtain scs cands where c: "both (AttrScorer (\<lambda>vs a. Some 0) (app_views pair_app)) = Some scs"
    "both (start_candidates scs (app_views pair_app)) = Some cands" "\<forall>oi. cand_ok (cands oi) (scs oi) 2 oi"
    "\<forall>oi. \<forall>i < 2. constraints_added (cands oi) ! i = 0"
    using start_candidates_result [OF pair_plain(1,2) _ pair_plain(3)] pair_plain(4) by auto
  have start: "start_candidates (\<lambda>_. scs oi) (app_views pair_app) oi = Some (cands oi)" for oi
    using c(2) by (simp add: both_Some start_candidates_def)
  have "offered (cands oi) (scs oi) 1 = pair_offers oi" for oi
    using pair_offered [of oi] c(1) start by (simp add: both_Some)
  moreover have "\<exists>zs. \<forall>oi. ConvertViews (app_views pair_app) oi 0 = Some (zs oi)"
  proof (rule choice, rule allI)
    fix oi show "\<exists>zs. ConvertViews (app_views pair_app) oi 0 = Some zs"
      using start [of oi] by (auto simp: start_candidates_def bind_Some_iff)
  qed
  then obtain zs where "\<forall>oi. ConvertViews (app_views pair_app) oi 0 = Some (zs oi)" by blast
  ultimately show thesis using that [of scs cands zs] c start by simp
qed

definition edge_like :: "bool \<Rightarrow> orientation \<Rightarrow> app \<Rightarrow> bool" where
  "edge_like e oi a \<longleftrightarrow> (\<forall>i < 2. view_interval (app_views a) oi i = view_interval (app_views (edge_app e)) oi i)"

lemma edge_app_ok: "views_ok 2 (app_views (edge_app e))" "edge_like e oi (edge_app e)"
  by (auto simp: views_ok_def edge_app_def nth_Cons edge_like_def split: nat.splits)

lemma edge_assumes:
  assumes "ConvertViews (app_views pair_screen) oi 0 = Some zs"
  shows "assumed oi zs (edge_model e)"
proof -
  have pos: "\<forall>i < length (app_views pair_app). view_pos (app_views pair_app ! i) = int i"
    using pair_plain(6) by (simp add: views_ok_def)
  note z = ConvertViews_result [OF assms [unfolded pair_screen_views] pos, unfolded pair_plain(4)]
  show ?thesis by (rule edge_assumed [OF z(1)]) (use z(4) [of 1] in simp)
qed

lemma edge_fits:
  assumes zs: "ConvertViews (app_views pair_screen) oi 0 = Some zs" and offers: "offers 1 = pair_offers oi"
    and app: "\<And>i. i < 2 \<Longrightarrow> view_interval (app_views app) oi i = view_interval (app_views pair_app) oi i"
    and known: "\<And>k. k < length known \<Longrightarrow> k = 0 \<and> length (app_views (known ! k)) = 2 \<and> edge_like e oi (known ! k)"
    and blocked: "\<And>b. b \<in> set blocked \<Longrightarrow> edge_like (\<not> e) oi b"
    and targets: "\<And>k. k < length targets \<Longrightarrow> k = 0 \<and>
      view_interval (app_views (targets ! k)) oi 0 = view_interval (app_views (edge_app e)) oi 0"
  shows "oracle_fits 2 False oi app known blocked targets zs offers (edge_model e)"
proof -
  have pos: "\<forall>i < length (app_views pair_app). view_pos (app_views pair_app ! i) = int i"
    using pair_plain(6) by (simp add: views_ok_def)
  note z = ConvertViews_result [OF zs [unfolded pair_screen_views] pos, unfolded pair_plain(4)]
  have sized: "edge_sized oi (app_views app)" using app [of 1] edge_sized(1) [of oi] by (simp add: edge_sized_def)
  have "reference_model False oi zs offers (edge_model e)" by (rule edge_reference) (use z(1,3) offers in simp_all)
  moreover have "agrees_with (known ! k) oi (model_positions (edge_model e) oi (int k + 1)) \<and>
      gen_clauses (app_views app) oi 2 (int k + 1) offers (edge_model e)" if k: "k < length known" for k
    using known [OF k] edge_gen [of "int k + 1" oi "app_views app" offers e] sized offers edge_positions_other [of "int k + 1" _ e oi]
    by (auto simp: agrees_with_def edge_like_def)
  moreover have "gen_clauses (app_views b) oi 2 4444 offers (edge_model e) \<and> bool_interp (edge_model e) ''x_empty_expr'' \<and>
      model_positions (edge_model e) oi 4444 0 = view_interval (app_views b) oi 0 \<and>
      (\<exists>i. 0 < i \<and> i < 2 \<and> model_positions (edge_model e) oi 4444 i \<noteq> view_interval (app_views b) oi i)" if b: "b \<in> set blocked" for b
  proof (intro conjI)
    have iv: "view_interval (app_views b) oi i = view_interval (app_views (edge_app (\<not> e))) oi i" if "i < 2" for i
      using blocked [OF b] that by (simp add: edge_like_def)
    have "edge_sized oi (app_views b)" using edge_sized(2) [of oi "\<not> e"] iv [of 1] by (simp add: edge_sized_def)
    then show "gen_clauses (app_views b) oi 2 4444 offers (edge_model e)" by (intro edge_gen offers) simp_all
    show "bool_interp (edge_model e) ''x_empty_expr''" by (rule edge_truths(3))
    show "model_positions (edge_model e) oi 4444 0 = view_interval (app_views b) oi 0"
      using iv [of 0] by (cases oi; cases e) (simp_all add: edge_positions edge_intervals)
    have "model_positions (edge_model e) oi 4444 1 \<noteq> view_interval (app_views b) oi 1"
      using iv [of 1] by (cases oi; cases e) (simp_all del: One_nat_def add: edge_positions edge_intervals)
    then show "\<exists>i. 0 < i \<and> i < 2 \<and> model_positions (edge_model e) oi 4444 i \<noteq> view_interval (app_views b) oi i"
      by (intro exI [of _ 1]) simp
  qed
  moreover have "gen_clauses (app_views app) oi 2 (404 + int k) offers (edge_model e) \<and>
      model_positions (edge_model e) oi (404 + int k) 0 = view_interval (app_views (targets ! k)) oi 0" if k: "k < length targets" for k
    using targets [OF k] edge_gen [of "404 + int k" oi "app_views app" offers e] sized offers edge_positions_other [of "404 + int k" 0 e oi] by auto
  ultimately show ?thesis by (simp add: oracle_fits_def)
qed

text \<open>
  A run with a device whose view keeps its distance to the end, a blocked layout in which it keeps
  the one to the start, and the large device as the target.
\<close>

lemma edge_target:
  obtains a where "resize_devices pair_screen small_device [large_device] = Some [a]" "devices_ok 2 [a]"
    "\<forall>e oi. view_interval (app_views a) oi 0 = view_interval (app_views (edge_app e)) oi 0"
proof -
  obtain a where a: "resize_devices pair_screen small_device [large_device] = Some [a]"
    "view_interval (app_views a) HORIZONTAL 0 = (0, 120)" "view_interval (app_views a) VERTICAL 0 = (0, 240)"
    using pair_resized by blast
  have "view_interval (app_views a) oi 0 = view_interval (app_views (edge_app e)) oi 0" for e oi
    using a(2,3) by (cases oi) (simp_all add: edge_intervals)
  with a(1) resize_devices_result(2) [OF a(1) pair_screen_plain(5,1)] that show thesis by blast
qed

lemma edge_answer:
  obtains sc a M app' apps' where "AttrScorer (\<lambda>vs a. Some 0) (app_views pair_screen) oi = Some sc" "devices_ok 2 [a]"
    "view_interval (app_views a) oi 0 = view_interval (app_views (edge_app True)) oi 0"
    "SynthesizeDeviceProbOracle edge_env False sc pair_screen oi [edge_app False] [a] [edge_app True] = Some ((SUCCESS, M), app', apps')"
proof -
  obtain scs cands zs where c: "both (AttrScorer (\<lambda>vs a. Some 0) (app_views pair_screen)) = Some scs"
    "\<forall>oi. start_candidates (\<lambda>_. scs oi) (app_views pair_screen) oi = Some (cands oi)"
    "\<forall>oi. cand_ok (cands oi) (scs oi) 2 oi" "\<forall>oi. \<forall>i < 2. constraints_added (cands oi) ! i = 0"
    "\<forall>oi. offered (cands oi) (scs oi) 1 = pair_offers oi"
    "\<forall>oi. ConvertViews (app_views pair_screen) oi 0 = Some (zs oi)"
    by (rule edge_candidates)
  note c = c(1) c(2-6) [THEN spec]
  obtain a where a: "resize_devices pair_screen small_device [large_device] = Some [a]" "devices_ok 2 [a]" "\<forall>e oi. view_interval (app_views a) oi 0 = view_interval (app_views (edge_app e)) oi 0"
    by (rule edge_target)
  have fits: "oracle_fits 2 False oi pair_screen [edge_app False] [edge_app True] [a] (zs oi) (offered (cands oi) (scs oi)) (edge_model False)"
    by (rule edge_fits [OF c(6)]) (use c(5) [of oi] a(3) edge_app_ok in \<open>simp_all add: views_ok_def\<close>)
  have ok: "oracle_input 2 pair_screen [edge_app False] [edge_app True]"
    using pair_screen_plain(5) edge_app_ok(1) by (simp add: oracle_input_def devices_ok_def)
  have fit: "targets_fit 2 oi (length [a]) m" if "m \<in> edge_models" for m using edge_fit [OF that] by simp
  have m: "edge_model False \<in> edge_models" by simp
  have sc: "AttrScorer (\<lambda>vs a. Some 0) (app_views pair_screen) oi = Some (scs oi)" using c(1) by (cases oi) (auto simp: both_Some)
  from SynthesizeDeviceProbOracle_success [OF edge_env_tries edge_env_sound ok a(2) c(2-4) c(6) m fits edge_assumes [OF c(6)] fit]
  show thesis using that [OF sc a(2)] a(3) by blast
qed

text \<open>Two rounds of the search for candidates.\<close>

lemma edge_round:
  assumes c: "start_candidates (\<lambda>_. sc) (app_views pair_screen) oi = Some c" "cand_ok c sc 2 oi"
      "\<forall>i < 2. constraints_added c ! i = 0" "offered c sc 1 = pair_offers oi" "ConvertViews (app_views pair_screen) oi 0 = Some zs"
    and bl: "devices_ok 2 bl" "\<And>b. b \<in> set bl \<Longrightarrow> edge_like (\<not> e) oi b"
  shows "\<exists>r e'. oracle_candidate edge_env False sc oi pair_screen [] small_device [large_device] bl = Some (SUCCESS, r) \<and>
    length (snd r) = 1 \<and> devices_ok 2 (snd r) \<and> edge_like e' oi (snd r ! 0)"
proof -
  obtain a where a: "resize_devices pair_screen small_device [large_device] = Some [a]" "devices_ok 2 [a]"
    "\<forall>e oi. view_interval (app_views a) oi 0 = view_interval (app_views (edge_app e)) oi 0"
    by (rule edge_target)
  have fits: "oracle_fits 2 False oi pair_screen [] bl [a] zs (offered c sc) (edge_model e)"
    by (rule edge_fits [OF c(5)]) (use c(4) a(3) bl(2) in simp_all)
  have fit: "targets_fit 2 oi (length [a]) m" if "m \<in> edge_models" for m using edge_fit [OF that] by simp
  have m: "edge_model e \<in> edge_models" by (cases e) simp_all
  have n: "(2 :: nat) \<le> 1000" and none: "devices_ok 2 []" by (simp_all add: devices_ok_def)
  obtain r m' where r: "m' \<in> edge_models" "oracle_candidate edge_env False sc oi pair_screen [] small_device [large_device] bl = Some (SUCCESS, r)"
    "devices_moved oi 2 (\<lambda>k. model_positions m' oi (404 + int k)) [a] (snd r)"
    using oracle_candidate_success [OF edge_env_tries edge_env_sound pair_screen_plain(1,3) n none bl(1) a(1) c(1-3) c(5) m fits edge_assumes [OF c(5)] fit]
    by blast
  obtain e' where e': "m' = edge_model e'" using r(1) by blast
  have "edge_like e' oi (snd r ! 0)"
    using r(3) edge_positions_other [of 404 _ e' oi] by (simp add: devices_moved_def edge_like_def e')
  then show ?thesis using r(2,3) by (auto simp: devices_moved_def)
qed

lemma edge_rounds:
  assumes c: "start_candidates (\<lambda>_. sc) (app_views pair_screen) oi = Some c" "cand_ok c sc 2 oi"
      "\<forall>i < 2. constraints_added c ! i = 0" "offered c sc 1 = pair_offers oi" "ConvertViews (app_views pair_screen) oi 0 = Some zs"
  shows "\<exists>rs. candidate_rounds (oracle_candidate edge_env False sc oi pair_screen [] small_device [large_device]) (nat 2) [] =
    Some (SUCCESS, rs) \<and> length rs = 2"
proof -
  let ?f = "oracle_candidate edge_env False sc oi pair_screen [] small_device [large_device]"
  have "devices_ok 2 []" by (simp add: devices_ok_def)
  from edge_round [OF c this] obtain r1 e where r1: "?f [] = Some (SUCCESS, r1)" "length (snd r1) = 1" "devices_ok 2 (snd r1)"
    "edge_like e oi (snd r1 ! 0)" by auto
  then have "devices_ok 2 [snd r1 ! 0]" "vec_at (snd r1) 0 = Some (snd r1 ! 0)" by (simp_all add: devices_ok_def vec_at_def)
  with edge_round [OF c this(1), of "\<not> e"] r1(4) obtain r2 where r2: "?f [snd r1 ! 0] = Some (SUCCESS, r2)" "length (snd r2) = 1"
    by auto
  then have "vec_at (snd r2) 0 = Some (snd r2 ! 0)" by (simp add: vec_at_def)
  with r1(1) r2(1) \<open>vec_at (snd r1) 0 = Some (snd r1 ! 0)\<close> show ?thesis by (simp add: numeral_eq_Suc)
qed

lemma pair_ids: "ids_in_range pair_screen"
  by (auto simp: ids_in_range_def pair_app_def View_make_def nth_Cons split: nat.splits)

lemma edge_search:
  obtains scs cands resized where "both (AttrScorer (\<lambda>vs a. Some 0) (app_views pair_screen)) = Some scs"
    "computeCandidates edge_env False scs 2 pair_screen [] small_device [large_device] ([], []) = Some (SUCCESS, cands, resized)"
    "length cands = 4"
proof -
  obtain scs cs zs where c: "both (AttrScorer (\<lambda>vs a. Some 0) (app_views pair_screen)) = Some scs"
    "\<forall>oi. start_candidates (\<lambda>_. scs oi) (app_views pair_screen) oi = Some (cs oi)"
    "\<forall>oi. cand_ok (cs oi) (scs oi) 2 oi" "\<forall>oi. \<forall>i < 2. constraints_added (cs oi) ! i = 0"
    "\<forall>oi. offered (cs oi) (scs oi) 1 = pair_offers oi"
    "\<forall>oi. ConvertViews (app_views pair_screen) oi 0 = Some (zs oi)"
    by (rule edge_candidates)
  note c = c(1) c(2-6) [THEN spec]
  obtain vs where vs: "candidate_rounds (oracle_candidate edge_env False (scs VERTICAL) VERTICAL pair_screen [] small_device [large_device])
      (nat 2) [] = Some (SUCCESS, vs)" "length vs = 2" using edge_rounds [OF c(2-6)] by blast
  obtain hs where hs: "candidate_rounds (oracle_candidate edge_env False (scs HORIZONTAL) HORIZONTAL pair_screen [] small_device [large_device])
      (nat 2) [] = Some (SUCCESS, hs)" "length hs = 2" using edge_rounds [OF c(2-6)] by blast
  have ne: "vs \<noteq> []" "hs \<noteq> []" using vs(2) hs(2) by auto
  have n: "length (app_views pair_screen) \<le> 1000" "devices_ok (length (app_views pair_screen)) []" by (simp_all add: pair_plain devices_ok_def)
  have "scorer_fits (length (app_views pair_screen)) oi (scs oi) pair_screen" for oi
    using c(2-4) [of oi] by (auto simp: scorer_fits_def pair_plain)
  from computeCandidates_joins [OF edge_env_sound pair_screen_plain(1) n(1) pair_ids this n(2) vs(1) ne(1) hs(1) ne(2)]
  show thesis using that [OF c(1)] vs(2) hs(2) by auto
qed

section \<open>The properties\<close>

lemma oracle_scorer_fits:
  assumes "blank_app app" "model_answers model (app_views app)" "length (app_views app) \<le> 1000"
    and "\<forall>oi. \<forall>i < length (app_views app). view_view_size (app_views app ! i) oi = None"
    and "AttrScorer model (app_views app) oi = Some sc"
  shows "scorer_fits (length (app_views app)) oi sc app"
proof -
  obtain scs where scs: "both (AttrScorer model (app_views app)) = Some scs"
    using start_candidates_result [OF assms(1-4)] by blast
  then have "scs oi = sc" using assms(5) by (simp add: both_Some)
  then show ?thesis using scorers_fit [OF assms(1-4) scs, of oi] by simp
qed

lemma oracle_answer_parts:
  assumes "oracle_answer n oi app device_apps blocked_apps target_apps app' target_apps'"
  shows "constrained (app_views app) (app_views app') (length target_apps) (\<lambda>k. view_interval (app_views (target_apps' ! k)) oi) oi"
    "k < length target_apps \<Longrightarrow> same_frame oi (target_apps' ! k) (target_apps ! k)"
    "a \<in> set device_apps \<Longrightarrow> knows_views a oi \<Longrightarrow>
      \<exists>P. constrained (app_views app) (app_views app') 1 (\<lambda>_. P) oi \<and> agrees_with a oi P"
    "b \<in> set blocked_apps \<Longrightarrow> k < length target_apps \<Longrightarrow> same_frame oi (target_apps ! k) b \<Longrightarrow>
      \<not> laid_out_alike oi (target_apps' ! k) b"
  using assms unfolding oracle_answer_def by blast+

text \<open>
  C7. When the synthesis with an oracle reports success for an orientation and the models that the
  solver returns satisfy what it was asked, then every view has a constraint in this orientation, the
  references are acyclic, and the constraints hold on the reference screen and in the layouts of the
  target devices, whose frames are those of the targets (fixed sizes are kept; a constraint whose
  margins of 10000 and more were stored as 0 holds with those, as in the query for several devices).
  For every device with
  known views there are positions that agree with the known ones and satisfy the same constraints. No
  target is laid out like a blocked app with the same frame.
\<close>

theorem SynthesizeDeviceProbOracle_blocks:
  assumes "sound_env env" "blank_app app" "model_answers model (app_views app)" "length (app_views app) \<le> 1000"
    and "\<forall>oi. \<forall>i < length (app_views app). view_view_size (app_views app ! i) oi = None"
    and "devices_ok (length (app_views app)) device_apps" "devices_ok (length (app_views app)) target_apps"
    and "devices_ok (length (app_views app)) blocked_apps" "AttrScorer model (app_views app) oi = Some sc"
    and "SynthesizeDeviceProbOracle env opt sc app oi device_apps target_apps blocked_apps = Some ((SUCCESS, M), app', target_apps')"
  shows "constrained (app_views app) (app_views app') (length target_apps)
      (\<lambda>k. view_interval (app_views (target_apps' ! k)) oi) oi \<and>
    (\<forall>k < length target_apps. same_frame oi (target_apps' ! k) (target_apps ! k) \<and>
       (\<forall>b \<in> set blocked_apps. same_frame oi (target_apps ! k) b \<longrightarrow> \<not> laid_out_alike oi (target_apps' ! k) b)) \<and>
    (\<forall>a \<in> set device_apps. knows_views a oi \<longrightarrow>
       (\<exists>P. constrained (app_views app) (app_views app') 1 (\<lambda>_. P) oi \<and> agrees_with a oi P))"
proof -
  have "oracle_input (length (app_views app)) app device_apps blocked_apps"
    using blank_app_views_ok [OF assms(2)] assms(4,6,8) by (simp add: oracle_input_def)
  from SynthesizeDeviceProbOracle_result [OF assms(1) this assms(7) oracle_scorer_fits [OF assms(2-5,9)] assms(10)]
  have "oracle_answer (length (app_views app)) oi app device_apps blocked_apps target_apps app' target_apps'" .
  from oracle_answer_parts [OF this] show ?thesis by blast
qed

lemma SynthesizeDeviceProbOracle_blocks_witness:
  "\<exists>sc a M app' apps'.
     SynthesizeDeviceProbOracle edge_env False sc pair_screen HORIZONTAL [edge_app False] [a] [edge_app True] = Some ((SUCCESS, M), app', apps') \<and>
     \<not> laid_out_alike HORIZONTAL (apps' ! 0) (edge_app True) \<and>
     (\<exists>P. constrained (app_views pair_screen) (app_views app') 1 (\<lambda>_. P) HORIZONTAL \<and> P 1 = (30, 70))"
proof -
  obtain sc a M app' apps' where r: "AttrScorer (\<lambda>vs a. Some 0) (app_views pair_screen) HORIZONTAL = Some sc" "devices_ok 2 [a]"
    "view_interval (app_views a) HORIZONTAL 0 = view_interval (app_views (edge_app True)) HORIZONTAL 0"
    "SynthesizeDeviceProbOracle edge_env False sc pair_screen HORIZONTAL [edge_app False] [a] [edge_app True] = Some ((SUCCESS, M), app', apps')"
    by (rule edge_answer)
  have n: "length (app_views pair_screen) \<le> 1000" "devices_ok (length (app_views pair_screen)) [edge_app False]"
    "devices_ok (length (app_views pair_screen)) [edge_app True]" "devices_ok (length (app_views pair_screen)) [a]"
    using edge_app_ok(1) r(2) by (simp_all add: pair_plain devices_ok_def)
  have knows: "knows_views (edge_app False) HORIZONTAL"
    using edge_app_ok(1) [of False] edge_intervals(4)
    by (auto simp: knows_views_def views_ok_def known_interval_def intro!: exI [of _ 1])
  from SynthesizeDeviceProbOracle_blocks [OF edge_env_sound pair_screen_plain(1,2) n(1) pair_screen_plain(4) n(2,4,3) r(1,4)]
  have m: "\<not> laid_out_alike HORIZONTAL (apps' ! 0) (edge_app True)"
    "\<exists>P. constrained (app_views pair_screen) (app_views app') 1 (\<lambda>_. P) HORIZONTAL \<and> agrees_with (edge_app False) HORIZONTAL P"
    using knows r(3) by (auto simp: same_frame_def)
  have "P 1 = (30, 70)" if "agrees_with (edge_app False) HORIZONTAL P" for P
    using that edge_app_ok(1) [of False] edge_intervals(4) by (simp add: agrees_with_def views_ok_def known_interval_def)
  with m r(4) show ?thesis by blast
qed

text \<open>
  C8. The candidates that a successful search collects come with a layout for every device. Their
  constraints are complete and acyclic in both orientations and hold on the reference screen and in
  the layouts of the devices (with the margins of 10000 and more that were stored as 0, where there
  are any), and the layouts of the first device are pairwise different.
\<close>

theorem computeCandidates_different:
  assumes "sound_env env" "blank_app app" "model_answers model (app_views app)" "length (app_views app) \<le> 1000"
    and "\<forall>oi. \<forall>i < length (app_views app). view_view_size (app_views app ! i) oi = None"
    and "ids_in_range app" "devices_ok (length (app_views app)) device_apps" "both (AttrScorer model (app_views app)) = Some scs"
    and "computeCandidates env opt scs number app device_apps d0 ds ([], []) = Some (SUCCESS, cands, resized)"
  shows "length resized = length cands \<and>
    (\<forall>i < length cands. length (resized ! i) = length ds \<and>
       constrained (app_views app) (app_views (cands ! i)) (length ds) (\<lambda>k. view_interval (app_views (resized ! i ! k)) oi) oi) \<and>
    (\<forall>i < length cands. \<forall>j < length cands. i \<noteq> j \<longrightarrow> \<not> AppMatch (resized ! i ! 0) (resized ! j ! 0))"
  by (rule computeCandidates_result [OF assms(1,2,4,6) scorers_fit [OF assms(2-5,8)] assms(7,9)])

lemma computeCandidates_different_witness:
  "\<exists>scs cands resized. computeCandidates edge_env False scs 2 pair_screen [] small_device [large_device] ([], []) =
       Some (SUCCESS, cands, resized) \<and> length cands = 4 \<and> length (resized ! 3) = 1 \<and> \<not> AppMatch (resized ! 0 ! 0) (resized ! 3 ! 0)"
proof -
  obtain scs cands resized where r: "both (AttrScorer (\<lambda>vs a. Some 0) (app_views pair_screen)) = Some scs"
    "computeCandidates edge_env False scs 2 pair_screen [] small_device [large_device] ([], []) = Some (SUCCESS, cands, resized)"
    "length cands = 4"
    by (rule edge_search)
  have n: "length (app_views pair_screen) \<le> 1000" "devices_ok (length (app_views pair_screen)) []" by (simp_all add: pair_plain devices_ok_def)
  from computeCandidates_different [OF edge_env_sound pair_screen_plain(1,2) n(1) pair_screen_plain(4) pair_ids n(2) r(1,2)]
  have "length (resized ! 3) = 1" "\<not> AppMatch (resized ! 0 ! 0) (resized ! 3 ! 0)" using r(3) by simp_all
  with r show ?thesis by blast
qed

end
