(* ===== verification/Spec2Isabelle.thy ===== *)
theory Spec2Isabelle
  imports Prelude Constants Constraint_Types Geometry Text_Formats Proto App_Model Ref_Graph
    Sorted_Iter Constraint_Gen Layout_Synthesis Counters Prob_Models Valid_Apps
    Smt_Terms Smt_Views Smt_Candidates Smt_Encoding Single_Query Query_Solution
    Query_Properties All_Constraints App_Properties Layout_Solver Multi_Device Device_Properties
    Syn_Helper Syn_Properties Oracle_Loop Oracle_Properties
    Candidate_Search Candidate_Properties
begin

text \<open>
  InferUI synthesises Android layouts: from the positions of the views of a screen, and possibly
  of further screens (devices), it finds for every view and each of the two orientations a
  constraint that places the view relative to others. This development models the C++ program
  under \<^verbatim>\<open>src/inferui/\<close>.

  \<^bold>\<open>The program.\<close> A screen is read from a protobuf message (\<^verbatim>\<open>uidump.proto\<close>, \<^verbatim>\<open>model.cpp\<close>,
  \<^verbatim>\<open>util.cpp\<close>) into an \<^verbatim>\<open>App\<close>, a vector of views of which the first is the content frame and
  whose attributes hold the constraints (\<^verbatim>\<open>model.h\<close>). \<^verbatim>\<open>constraints.h\<close> enumerates the constraints
  that fit the positions of a view. Probability models trained on screens (\<^verbatim>\<open>model.h\<close>,
  \<^verbatim>\<open>constraint_model.cpp\<close>, counting in \<^verbatim>\<open>counter.h\<close>) rank them. Two synthesisers choose: the
  greedy one of \<^verbatim>\<open>synthesis.h\<close>, which merges the ranked candidates of all views with
  \<^verbatim>\<open>iterutil.h\<close> and keeps the references acyclic, and the one of \<^verbatim>\<open>z3inference.h\<close> and
  \<^verbatim>\<open>z3inference.cpp\<close>, which hands ranked candidates to the Z3 solver.

  \<^bold>\<open>Theories and code.\<close>
  \<^item> \<open>Prelude\<close>: results of code that may abort (an option, \<open>None\<close> for a failed \<^verbatim>\<open>CHECK\<close>, an access
    out of range or an exception), loops over vectors, printing and parsing of numbers
    (\<^verbatim>\<open>base/strutil.cpp\<close>).
  \<^item> \<open>Constants\<close>: \<^verbatim>\<open>model/util/constants.h\<close>, \<^verbatim>\<open>constants.cpp\<close>.
  \<^item> \<open>Constraint_Types\<close>: the enums of \<^verbatim>\<open>model/util/util.h\<close> and \<^verbatim>\<open>model.h\<close> with their helpers.
  \<^item> \<open>Geometry\<close>: \<^verbatim>\<open>base/geomutil.h\<close>, \<^verbatim>\<open>geomutil.cpp\<close>.
  \<^item> \<open>Text_Formats\<close>: \<^verbatim>\<open>base/strutil.cpp\<close> and \<^verbatim>\<open>ValueParser\<close> of \<^verbatim>\<open>model/util/util.cpp\<close>.
  \<^item> \<open>Proto\<close>: the messages and the functions of \<^verbatim>\<open>util.cpp\<close> and \<^verbatim>\<open>model.cpp\<close> that walk them.
  \<^item> \<open>App_Model\<close>: \<^verbatim>\<open>Attribute\<close>, \<^verbatim>\<open>View\<close>, \<^verbatim>\<open>Rectangle\<close>, \<^verbatim>\<open>App\<close>; \<open>Ref_Graph\<close>: \<^verbatim>\<open>ReferencedNodes\<close>,
    \<^verbatim>\<open>IsCircularRelation\<close>, \<^verbatim>\<open>IsAnchored\<close> (\<^verbatim>\<open>model.h\<close>, \<^verbatim>\<open>model.cpp\<close>).
  \<^item> \<open>Sorted_Iter\<close>: \<^verbatim>\<open>MultiSortedIterator\<close> of \<^verbatim>\<open>base/iterutil.h\<close>.
  \<^item> \<open>Constraint_Gen\<close>: \<^verbatim>\<open>model/constraints.h\<close>, \<^verbatim>\<open>constraints.cpp\<close>.
  \<^item> \<open>Layout_Synthesis\<close>: \<^verbatim>\<open>ConstraintCache\<close> and \<^verbatim>\<open>LayoutSynthesis\<close> of \<^verbatim>\<open>model/synthesis.h\<close>.
  \<^item> \<open>Counters\<close>: \<^verbatim>\<open>base/counter.h\<close>; \<open>Prob_Models\<close>: the counting models of \<^verbatim>\<open>model.h\<close> and
    \<^verbatim>\<open>constraint_model.h\<close>, \<^verbatim>\<open>constraint_model.cpp\<close>; \<open>Valid_Apps\<close>: \<^verbatim>\<open>ForEachValidApp\<close> and the training
    over a data set.
  \<^item> \<open>Smt_Terms\<close>: solver expressions and their meaning in a model; \<open>Smt_Views\<close>: \<^verbatim>\<open>ConstraintData\<close>,
    \<^verbatim>\<open>AttrScorer\<close>, \<^verbatim>\<open>Z3View\<close>, the encodings of the constraint types and \<^verbatim>\<open>AttrResolver\<close>;
    \<open>Smt_Candidates\<close>: \<^verbatim>\<open>CandidateConstraints\<close>; \<open>Smt_Encoding\<close>: the \<^verbatim>\<open>Add...\<close> functions of
    \<^verbatim>\<open>FullSynthesis\<close>; \<open>Single_Query\<close>: \<^verbatim>\<open>SynthesizeMultiDeviceProbSingleQuery\<close>, its callers and
    \<^verbatim>\<open>BlockingConstraintsHelper\<close> (all of \<^verbatim>\<open>synthesis/z3inference.h\<close> and \<^verbatim>\<open>z3inference.cpp\<close>);
    \<open>Query_Solution\<close> and \<open>Query_Properties\<close>: what the query gives.
  \<^item> \<open>All_Constraints\<close> and \<open>App_Properties\<close>: the filters of the constraint generators and the
    robustness properties, \<^verbatim>\<open>Assert...\<close> and the class \<^verbatim>\<open>AppProperties\<close>; \<open>Layout_Solver\<close>: the class
    \<^verbatim>\<open>LayoutSolver\<close>, which places views by their constraints (\<^verbatim>\<open>z3inference.h\<close>).
  \<^item> \<open>Multi_Device\<close>: the synthesis of one orientation at a time, \<^verbatim>\<open>Synthesize\<close>,
    \<^verbatim>\<open>SynthesizeMultiDevice\<close>, \<^verbatim>\<open>GetSatConstraints\<close>, \<^verbatim>\<open>SynthesizeMultiDeviceProb\<close> and their callers;
    \<open>Device_Properties\<close>: what it gives.
  \<^item> \<open>Syn_Helper\<close>: \<^verbatim>\<open>model/syn_helper.cpp\<close>, the exchange of screens as JSON and the repairs
    \<^verbatim>\<open>NormalizeMargins\<close> and \<^verbatim>\<open>TryFixInconsistencies\<close>; \<open>Syn_Properties\<close>: what they do.
  \<^item> \<open>Oracle_Loop\<close>: \<^verbatim>\<open>SynthesizeDeviceProbOracle\<close>, \<^verbatim>\<open>computeCandidates\<close>, \<^verbatim>\<open>askOracle\<close>,
    \<^verbatim>\<open>selectCandidate\<close> and \<^verbatim>\<open>SynthesizeLayoutIterative\<close> (\<^verbatim>\<open>z3inference.cpp\<close>);
    \<open>Oracle_Properties\<close>: what a success of the first two gives; \<open>Candidate_Search\<close>: they succeed with
    the solvers of the examples, and the candidates of the two orientations can be joined;
    \<open>Candidate_Properties\<close>: the properties, with a sample search.

  \<^bold>\<open>Conventions.\<close> Pointers to views are positions in the vector of views. Integers that the code
  keeps small are \<open>int\<close>, with the range written out where it is checked (\<open>int32\<close>); floating point
  numbers are \<open>real\<close>. A loop that may not end is a \<open>partial_function\<close>: \<^verbatim>\<open>IsAnchored\<close>, the walk of
  \<^verbatim>\<open>InRootLayout\<close>, the loops that offer candidates or layouts to a callback and the two repair
  loops. The search for satisfiable candidates has at most 100 rounds (50 with an oracle), the
  bounds of the code, and is a recursion over the rounds left. The solver is a parameter: a record of functions that answer a check, a core and an
  optimisation, and print a number. What a theorem needs of it is a hypothesis that states documented
  behaviour: a model that is returned satisfies the assertions and the bias one half is printed as 0.5
  (\<open>sound_env\<close>); moreover \<open>unsat\<close> is answered only when there is no model, while \<open>unknown\<close> may be
  answered to anything (\<open>truthful\<close>); the same for a single check (\<open>sound_check\<close>), and a check
  whose query the solver decides (\<open>decides\<close>). \<open>answers_with\<close> and \<open>tries\<close> describe the solvers of the
  examples only, which know a model or a set of models. The layout service is a function from JSON to
  JSON (\<open>answers_layouts\<close>: it answers every app with a layout of its views). The probability
  model of the greedy synthesis is a function from constraints to scores (\<open>model_answers\<close>: it
  answers for well-formed ones).

  \<^bold>\<open>What the lemmas show.\<close>
  \<^item> Data: text formats are inverse to each other, screens that pass the checks can be walked,
    apps keep their well-formedness invariant (\<open>app_wf\<close>) when read, copied and merged.
  \<^item> Graph: \<^verbatim>\<open>ReferencedNodes\<close> computes reachability, \<^verbatim>\<open>IsCircularRelation\<close> decides whether a
    constraint closes a cycle, applying an accepted constraint keeps the graph acyclic.
  \<^item> Generation: every generated constraint holds at the positions it was generated from.
  \<^item> Greedy synthesis: it returns a complete, acyclic, anchored layout whose only solution is the
    input; with two further screens it can drop candidates that all screens have.
  \<^item> Models: training counts every constraint once under its value, aborts only when the data file is
    missing, the flag \<^verbatim>\<open>scaling_factor\<close> is not 1 or the selection of the apps aborts; trained models
    score every well-formed constraint by at most 0.
  \<^item> Solver encoding: a constraint's formula means the constraint (\<open>placed\<close>, \<open>pixel_holds\<close>), its
    name is read back, candidates are handed out in rank order and once.
  \<^item> Synthesis in one query: a success is a solution on the screen and on every device
    (\<open>solution\<close>), a query with a model never ends as unsatisfiable, blocked layouts are not repeated
    and the search returns. The code stores margins of 10000 and more as 0, so a constraint found may
    hold only with the margins that the solver gave it (\<open>cut_version\<close>); this needs places of the
    screen that are 10000 apart, or a view of fixed size centered between different anchors, whose
    margins the query does not bound.
  \<^item> Synthesis for several devices: a success keeps the views of every device inside their frame and
    centered where they were, with constraints that hold everywhere; the search for candidates
    returns whatever the solver answers.
  \<^item> Synthesis with an oracle: the search for candidates returns; a success has constraints that hold
    everywhere, also for positions that extend the known views, and lays no device out like a blocked
    app; the candidates that \<^verbatim>\<open>computeCandidates\<close> joins differ on the first device, so its check of
    this never fails.
  \<^item> Layouts: \<^verbatim>\<open>LayoutSolver\<close> restores a synthesised screen; the robustness checks that skip known
    positions never fail.
  \<^item> Exchange and repair: screens survive the exchange as JSON; \<^verbatim>\<open>NormalizeMargins\<close> ends; a repair that
    \<^verbatim>\<open>TryFixInconsistencies\<close> reports moves second margins only and is rendered in place, unless vertical
    margins were moved, after which the code does not look at the horizontal positions again.

  \<^bold>\<open>Not modelled.\<close> The JSON library, sparsehash, file access (with \<^verbatim>\<open>readDirectory\<close> and \<^verbatim>\<open>readFile\<close>
  of \<^verbatim>\<open>syn_helper.cpp\<close>), record streams, threads, processes, logging and printing, the network
  servers, the Android layout service and its HTTP client, and the drivers of the evaluation and of
  the data sets: input and output, or libraries. Of modelled files: \<^verbatim>\<open>ScaleApp\<close>, a walk over arbitrary
  JSON, and \<^verbatim>\<open>checkSatIntermediate\<close>, which has no caller. A failure of the layout service to answer
  is an abort here.
\<close>

end
